(* ===== verification/Prelude.thy ===== *)
theory Prelude
  imports Main "HOL-Library.Word" "HOL-Library.Multiset" "HOL-Library.Char_ord"
    "HOL-Library.List_Lexorder" "HOL-Library.Product_Lexorder"
begin

text \<open>
  What the components share: the ordered map that stands for a C++ \<open>std::map\<close> or
  \<open>std::set\<close>, the string operations of \<open>std::string\<close> the sources use, and the
  generic theory of a component that reacts to events (a step function from a state and an
  event to a state and a list of outputs), as interfaces with laws: an invariant, a final
  phase in which nothing is emitted any more, an output that is emitted at most once, and
  the refinement of one such component by another.
\<close>

named_theorems comp_defs \<open>definitions unfolded for one step of a component\<close>
named_theorems comp_inv \<open>preservation of a component's invariant by its operations\<close>

section \<open>Strings\<close>

text \<open>A \<open>std::string\<close> is a list of bytes; \<open>npos\<close> is \<open>None\<close>.\<close>

type_synonym bytes = string

text \<open>Nanoseconds of the steady clock.\<close>

type_synonym time = int

fun find_char :: "char \<Rightarrow> string \<Rightarrow> nat option" where
  "find_char c [] = None"
| "find_char c (x # xs) = (if x = c then Some 0 else map_option Suc (find_char c xs))"

definition starts_with :: "string \<Rightarrow> string \<Rightarrow> bool" where
  "starts_with s p = (take (length p) s = p)"

lemma find_char_Some:
  "find_char c s = Some n \<Longrightarrow> n < length s \<and> s ! n = c \<and> c \<notin> set (take n s)"
  by (induction s arbitrary: n) (auto split: if_splits)

lemma find_char_None [simp]: "find_char c s = None \<longleftrightarrow> c \<notin> set s"
  by (induction s) auto

lemma find_char_append:
  "find_char c (xs @ c # ys) = Some (length xs)" if "c \<notin> set xs"
  using that by (induction xs) auto

lemma starts_with_append [simp]: "starts_with (p @ s) p"
  by (simp add: starts_with_def)

lemma starts_with_Nil [simp]: "starts_with s []"
  by (simp add: starts_with_def)

lemma starts_with_iff: "starts_with s p \<longleftrightarrow> (\<exists>t. s = p @ t)"
  by (auto simp: starts_with_def) (metis append_take_drop_id)

lemma sorted_le_last: "sorted_wrt (<) (xs :: 'a::linorder list) \<Longrightarrow> i \<in> set xs \<Longrightarrow> i \<le> last xs"
  by (induction xs) (auto split: if_splits dest: last_in_set intro: less_imp_le)

lemma map_nth_append: "\<forall>i \<in> set js. i < length xs \<Longrightarrow> map ((!) (xs @ ys)) js = map ((!) xs) js"
  by (simp add: nth_append)

lemma one_entry: "distinct (map fst xs) \<Longrightarrow> k \<in> fst ` set xs \<Longrightarrow> length (filter (\<lambda>c. fst c = k) xs) = 1"
  by (induction xs) (auto simp: filter_empty_conv intro: rev_image_eqI)

lemma unat_of_nat_64: "x < 2 ^ 64 \<Longrightarrow> unat (of_nat x :: 64 word) = x"
  by (simp add: unat_of_nat take_bit_nat_eq_self)

lemma of_nat_le_64: "x < 2 ^ 64 \<Longrightarrow> y < 2 ^ 64 \<Longrightarrow> (of_nat x :: 64 word) \<le> of_nat y \<longleftrightarrow> x \<le> y"
  by (simp add: word_le_nat_alt unat_of_nat_64)

lemma unat_less_64: "unat (x :: 64 word) < 2 ^ 64"
  using unsigned_less [where 'a = nat and w = x] by simp

text \<open>
  \<open>std::stoi\<close>: white space, a sign, digits; what follows is ignored. \<open>None\<close> is an
  exception (no digits, or a value that is not an \<open>int\<close>).
\<close>

definition is_digit :: "char \<Rightarrow> bool" where
  "is_digit c \<longleftrightarrow> c \<in> set ''0123456789''"

definition is_space :: "char \<Rightarrow> bool" where
  "is_space c \<longleftrightarrow> c \<in> {CHR '' '', CHR 0x09, CHR 0x0A, CHR 0x0B, CHR 0x0C, CHR 0x0D}"

definition digit_value :: "char \<Rightarrow> nat" where
  "digit_value c = of_char c - 48"

definition digits_value :: "string \<Rightarrow> nat" where
  "digits_value ds = foldl (\<lambda>n c. 10 * n + digit_value c) 0 ds"

definition stoi :: "string \<Rightarrow> int option" where
  "stoi s =
     (let t = dropWhile is_space s;
          (neg, u) = (case t of c # cs \<Rightarrow> if c = CHR ''-'' then (True, cs) else if c = CHR ''+'' then (False, cs) else (False, t)
                      | [] \<Rightarrow> (False, []));
          ds = takeWhile is_digit u;
          v = (if neg then - int (digits_value ds) else int (digits_value ds))
      in if ds = [] \<or> v < - (2 ^ 31) \<or> 2 ^ 31 \<le> v then None else Some v)"

text \<open>\<open>std::to_string\<close> of a natural number.\<close>

fun to_digits :: "nat \<Rightarrow> string" where
  "to_digits n = (if n < 10 then [''0123456789'' ! n] else to_digits (n div 10) @ [''0123456789'' ! (n mod 10)])"

declare to_digits.simps [simp del]

lemma nth_digit: "n < 10 \<Longrightarrow> is_digit (''0123456789'' ! n) \<and> digit_value (''0123456789'' ! n) = n"
proof -
  assume "n < 10"
  then have "n \<in> {0, 1, 2, 3, 4, 5, 6, 7, 8, 9}" by auto
  then show ?thesis by (auto simp: is_digit_def digit_value_def)
qed

lemma to_digits_digits: "list_all is_digit (to_digits n) \<and> to_digits n \<noteq> []"
proof (induction n rule: to_digits.induct)
  case (1 n)
  then show ?case by (auto simp: to_digits.simps [of n] nth_digit)
qed

lemma digits_value_to_digits [simp]: "digits_value (to_digits n) = n"
proof (induction n rule: to_digits.induct)
  case (1 n)
  show ?case
  proof (cases "n < 10")
    case True
    then show ?thesis by (simp add: to_digits.simps [of n] digits_value_def nth_digit)
  next
    case False
    with 1 show ?thesis by (simp add: to_digits.simps [of n] digits_value_def nth_digit)
  qed
qed

lemma stoi_to_digits:
  assumes "n < 2 ^ 31" "rest = [] \<or> \<not> is_digit (hd rest)"
  shows "stoi (to_digits n @ rest) = Some (int n)"
proof -
  obtain c cs where t: "to_digits n = c # cs" "is_digit c" "list_all is_digit cs"
    using to_digits_digits [of n] by (cases "to_digits n") auto
  have "\<not> is_space c" "c \<noteq> CHR ''-''" "c \<noteq> CHR ''+''"
    using t(2) by (auto simp: is_digit_def is_space_def)
  moreover have "takeWhile is_digit (to_digits n @ rest) = to_digits n"
    using assms(2) to_digits_digits [of n] by (cases rest) (auto simp: list_all_iff takeWhile_append2)
  ultimately show ?thesis
    using t(1) assms(1) to_digits_digits [of n] digits_value_to_digits [of n] by (simp add: stoi_def)
qed

text \<open>\<open>s.find(p)\<close> for a substring, and \<open>s.find_first_of(cs)\<close>; \<open>tolower\<close> on ASCII.\<close>

fun find_sub :: "string \<Rightarrow> string \<Rightarrow> nat option" where
  "find_sub p [] = (if p = [] then Some 0 else None)"
| "find_sub p (c # s) = (if starts_with (c # s) p then Some 0 else map_option Suc (find_sub p s))"

fun find_first_of :: "char set \<Rightarrow> string \<Rightarrow> nat option" where
  "find_first_of cs [] = None"
| "find_first_of cs (x # xs) = (if x \<in> cs then Some 0 else map_option Suc (find_first_of cs xs))"

definition tolower :: "char \<Rightarrow> char" where
  "tolower c = (if (65 :: nat) \<le> of_char c \<and> of_char c \<le> (90 :: nat) then char_of ((of_char c :: nat) + 32) else c)"

lemma find_first_of_append:
  "\<forall>c \<in> set xs. c \<notin> cs \<Longrightarrow> find_first_of cs (xs @ ys) = map_option (\<lambda>n. length xs + n) (find_first_of cs ys)"
  by (cases "find_first_of cs ys") (induction xs; simp)+

lemma find_first_of_None: "\<forall>c \<in> set xs. c \<notin> cs \<Longrightarrow> find_first_of cs xs = None"
  by (induction xs) auto

text \<open>
  \<open>while (std::getline(stream, piece, d))\<close> over the whole of \<open>s\<close>: the pieces between the
  delimiters; an empty rest after the last delimiter is not a piece.
\<close>

function getlines :: "char \<Rightarrow> string \<Rightarrow> string list" where
  "getlines d [] = []"
| "getlines d (c # s) =
     takeWhile (\<lambda>x. x \<noteq> d) (c # s) # getlines d (drop 1 (dropWhile (\<lambda>x. x \<noteq> d) (c # s)))"
  by pat_completeness auto
termination
  by (relation "measure (\<lambda>(d, s). length s)")
     (auto simp: less_Suc_eq_le intro: le_trans [OF diff_le_self length_dropWhile_le])

declare getlines.simps(2) [simp del]

lemma while_no_char [simp]:
  "d \<notin> set l \<Longrightarrow> takeWhile (\<lambda>x. x \<noteq> d) l = l"
  "d \<notin> set l \<Longrightarrow> dropWhile (\<lambda>x. x \<noteq> d) l = []"
  "d \<notin> set l \<Longrightarrow> takeWhile (\<lambda>x. x \<noteq> d) (l @ d # s) = l"
  "d \<notin> set l \<Longrightarrow> dropWhile (\<lambda>x. x \<noteq> d) (l @ d # s) = d # s"
  by (induction l) auto

lemma getlines_end: "d \<notin> set l \<Longrightarrow> l \<noteq> [] \<Longrightarrow> getlines d l = [l]"
  by (cases l) (auto simp: getlines.simps)

lemma getlines_line: "d \<notin> set l \<Longrightarrow> getlines d (l @ d # s) = l # getlines d s"
  by (cases l) (auto simp: getlines.simps)

lemma getlines_lines:
  "\<forall>l \<in> set ls. d \<notin> set l \<Longrightarrow> getlines d (concat (map (\<lambda>l. l @ [d]) ls)) = ls"
  by (induction ls) (auto simp: getlines_line)

section \<open>Ordered maps\<close>

text \<open>
  A \<open>std::map\<close> is iterated in the order of its keys, so it is a list of pairs kept
  sorted. \<open>omap_put\<close> is \<open>m[k] = v\<close>, \<open>omap_get\<close> is \<open>m.find(k)\<close>,
  \<open>omap_del\<close> is \<open>m.erase(k)\<close>.
\<close>

type_synonym ('k, 'v) omap = "('k \<times> 'v) list"

definition omap_get :: "('k, 'v) omap \<Rightarrow> 'k \<Rightarrow> 'v option" where
  "omap_get m k = map_of m k"

fun omap_put :: "'k::linorder \<Rightarrow> 'v \<Rightarrow> ('k, 'v) omap \<Rightarrow> ('k, 'v) omap" where
  "omap_put k v [] = [(k, v)]"
| "omap_put k v ((k', v') # m) =
     (if k < k' then (k, v) # (k', v') # m
      else if k = k' then (k, v) # m
      else (k', v') # omap_put k v m)"

definition omap_del :: "'k \<Rightarrow> ('k, 'v) omap \<Rightarrow> ('k, 'v) omap" where
  "omap_del k m = filter (\<lambda>(k', _). k' \<noteq> k) m"

definition omap_keys :: "('k, 'v) omap \<Rightarrow> 'k list" where
  "omap_keys m = map fst m"

definition omap_ok :: "('k::linorder, 'v) omap \<Rightarrow> bool" where
  "omap_ok m = sorted_wrt (<) (omap_keys m)"

lemma omap_get_Nil [simp]: "omap_get [] k = None"
  by (simp add: omap_get_def)

lemma omap_ok_Nil [simp]: "omap_ok []"
  by (simp add: omap_ok_def omap_keys_def)

lemma omap_get_put [simp]: "omap_get (omap_put k v m) k' = (if k' = k then Some v else omap_get m k')"
  by (induction k v m rule: omap_put.induct) (auto simp: omap_get_def)

lemma omap_get_del [simp]: "omap_get (omap_del k m) k' = (if k' = k then None else omap_get m k')"
  by (induction m) (auto simp: omap_get_def omap_del_def)

lemma omap_keys_put: "set (omap_keys (omap_put k v m)) = insert k (set (omap_keys m))"
  by (induction k v m rule: omap_put.induct) (auto simp: omap_keys_def)

lemma omap_keys_del [simp]: "set (omap_keys (omap_del k m)) = set (omap_keys m) - {k}"
  by (auto simp: omap_keys_def omap_del_def)

lemma omap_get_None_iff: "omap_get m k = None \<longleftrightarrow> k \<notin> set (omap_keys m)"
  by (simp add: omap_get_def omap_keys_def map_of_eq_None_iff)

lemma omap_put_ok [simp]: "omap_ok m \<Longrightarrow> omap_ok (omap_put k v m)"
proof (induction k v m rule: omap_put.induct)
  case (2 k v k' v' m)
  then show ?case
    using omap_keys_put [of k v m] by (auto simp: omap_ok_def omap_keys_def)
qed (simp add: omap_ok_def omap_keys_def)

lemma omap_filter_ok: "omap_ok m \<Longrightarrow> omap_ok (filter P m)"
  by (induction m) (auto simp: omap_ok_def omap_keys_def)

lemma omap_del_ok [simp]: "omap_ok m \<Longrightarrow> omap_ok (omap_del k m)"
  by (simp add: omap_del_def omap_filter_ok)

lemma omap_map_ok: "omap_ok m \<Longrightarrow> omap_ok (map (\<lambda>(k, v). (k, f k v)) m)"
  by (simp add: omap_ok_def omap_keys_def comp_def case_prod_beta)

lemma omap_get_map: "omap_get (map (\<lambda>(k, v). (k, f k v)) m) k = map_option (f k) (omap_get m k)"
  by (induction m) (auto simp: omap_get_def)

lemma omap_get_filter:
  "omap_ok m \<Longrightarrow> omap_get (filter (\<lambda>(k, v). P k v) m) k =
     (case omap_get m k of None \<Rightarrow> None | Some v \<Rightarrow> if P k v then Some v else None)"
proof (induction m)
  case (Cons p m)
  obtain k' v' where p: "p = (k', v')" by (cases p)
  have "k' \<notin> set (omap_keys m)" and ok: "omap_ok m"
    using Cons.prems p by (auto simp: omap_ok_def omap_keys_def)
  then have "omap_get m k' = None" by (simp add: omap_get_None_iff)
  then show ?case
    using Cons.IH [OF ok] p by (auto simp: omap_get_def split: option.splits)
qed simp

lemma omap_in_set_iff: "omap_ok m \<Longrightarrow> (k, v) \<in> set m \<longleftrightarrow> omap_get m k = Some v"
  unfolding omap_ok_def omap_keys_def omap_get_def
  by (rule map_of_eq_Some_iff [symmetric]) (simp add: strict_sorted_iff)

lemma omap_distinct: "omap_ok m \<Longrightarrow> distinct (omap_keys m)"
  by (simp add: omap_ok_def strict_sorted_iff)

lemma omap_ext:
  assumes "omap_ok m" "omap_ok m'" "\<And>k. omap_get m k = omap_get m' k"
  shows "m = m'"
proof -
  have s: "set m = set m'"
    using assms omap_in_set_iff by (metis subset_antisym subrelI)
  have "inj_on fst (set m)"
    using omap_distinct [OF assms(1)] by (simp add: omap_keys_def distinct_map)
  with s assms show ?thesis
    by (intro map_sorted_distinct_set_unique [where f = fst])
       (auto simp: omap_ok_def omap_keys_def strict_sorted_iff)
qed

lemma omap_del_put: "omap_ok m \<Longrightarrow> omap_del k (omap_put k v m) = omap_del k m"
  by (rule omap_ext) auto

text \<open>
  The interface every keyed collection of the program offers to its clients; the
  sorted association list above provides it.
\<close>

locale keyed_store =
  fixes get :: "'m \<Rightarrow> 'k \<Rightarrow> 'v option"
    and put :: "'k \<Rightarrow> 'v \<Rightarrow> 'm \<Rightarrow> 'm"
    and del :: "'k \<Rightarrow> 'm \<Rightarrow> 'm"
    and ok :: "'m \<Rightarrow> bool"
  assumes get_put: "get (put k v m) k' = (if k' = k then Some v else get m k')"
    and get_del: "get (del k m) k' = (if k' = k then None else get m k')"
    and ok_put: "ok m \<Longrightarrow> ok (put k v m)"
    and ok_del: "ok m \<Longrightarrow> ok (del k m)"
begin

lemma get_puts:
  "distinct (map fst kvs) \<Longrightarrow>
   get (fold (\<lambda>(k, v). put k v) kvs m) k =
     (case map_of kvs k of Some v \<Rightarrow> Some v | None \<Rightarrow> get m k)"
  by (induction kvs arbitrary: m) (auto simp: get_put split: option.splits dest: map_of_SomeD
        intro: rev_image_eqI)

lemma get_dels: "get (fold del ks m) k = (if k \<in> set ks then None else get m k)"
  by (induction ks arbitrary: m) (auto simp: get_del)

lemma ok_dels: "ok m \<Longrightarrow> ok (fold del ks m)"
  by (induction ks arbitrary: m) (auto simp: ok_del)

end

interpretation omap: keyed_store omap_get omap_put omap_del omap_ok
  by unfold_locales auto

section \<open>Components that react to events\<close>

text \<open>A step takes a state and an event to the next state and what the step emits.\<close>

fun run :: "('s \<Rightarrow> 'e \<Rightarrow> 's \<times> 'o list) \<Rightarrow> 's \<Rightarrow> 'e list \<Rightarrow> 's \<times> 'o list" where
  "run f s [] = (s, [])"
| "run f s (e # es) =
     (case f s e of (s1, os1) \<Rightarrow> (case run f s1 es of (s2, os2) \<Rightarrow> (s2, os1 @ os2)))"

lemma fst_run_Cons: "fst (run f s (e # es)) = fst (run f (fst (f s e)) es)"
  by (simp split: prod.splits)

lemma snd_run_Cons: "snd (run f s (e # es)) = snd (f s e) @ snd (run f (fst (f s e)) es)"
  by (simp split: prod.splits)

lemmas run_Cons = fst_run_Cons snd_run_Cons

declare run.simps(2) [simp del]
declare run_Cons [simp]

lemma fst_run_append: "fst (run f s (xs @ ys)) = fst (run f (fst (run f s xs)) ys)"
  by (induction xs arbitrary: s) auto

lemma snd_run_append:
  "snd (run f s (xs @ ys)) = snd (run f s xs) @ snd (run f (fst (run f s xs)) ys)"
  by (induction xs arbitrary: s) auto

text \<open>One handler after another on the same state.\<close>

definition andthen :: "'s \<times> 'o list \<Rightarrow> ('s \<Rightarrow> 's \<times> 'o list) \<Rightarrow> 's \<times> 'o list" where
  "andthen r f = (case r of (s1, os1) \<Rightarrow> (case f s1 of (s2, os2) \<Rightarrow> (s2, os1 @ os2)))"

lemma andthen_simps [simp]:
  "fst (andthen r f) = fst (f (fst r))" "snd (andthen r f) = snd r @ snd (f (fst r))"
  by (simp_all add: andthen_def split: prod.splits)

text \<open>An invariant kept by every step holds after every run.\<close>

locale machine =
  fixes step :: "'s \<Rightarrow> 'e \<Rightarrow> 's \<times> 'o list"
    and inv :: "'s \<Rightarrow> bool"
  assumes inv_step: "inv s \<Longrightarrow> inv (fst (step s e))"
begin

lemma inv_run: "inv s \<Longrightarrow> inv (fst (run step s es))"
  by (induction es arbitrary: s) (auto simp: inv_step)

end

text \<open>Every output of a machine satisfies a condition.\<close>

locale guarded_machine = machine step inv
  for step :: "'s \<Rightarrow> 'e \<Rightarrow> 's \<times> 'o list" and inv :: "'s \<Rightarrow> bool" +
  fixes good :: "'o \<Rightarrow> bool"
  assumes good_step: "inv s \<Longrightarrow> list_all good (snd (step s e))"
begin

lemma good_run: "inv s \<Longrightarrow> list_all good (snd (run step s es))"
  by (induction es arbitrary: s) (auto simp: inv_step good_step)

end

text \<open>A final phase: once entered it is never left, and no loud output is emitted in it.\<close>

locale quiet_machine = machine step inv
  for step :: "'s \<Rightarrow> 'e \<Rightarrow> 's \<times> 'o list" and inv :: "'s \<Rightarrow> bool" +
  fixes quiet :: "'s \<Rightarrow> bool" and loud :: "'o \<Rightarrow> bool"
  assumes quiet_stays: "inv s \<Longrightarrow> quiet s \<Longrightarrow> quiet (fst (step s e))"
    and quiet_silent: "inv s \<Longrightarrow> quiet s \<Longrightarrow> list_all (\<lambda>x. \<not> loud x) (snd (step s e))"
begin

lemma quiet_run: "inv s \<Longrightarrow> quiet s \<Longrightarrow> quiet (fst (run step s es))"
  by (induction es arbitrary: s) (auto simp: inv_step quiet_stays)

lemma silent_run: "inv s \<Longrightarrow> quiet s \<Longrightarrow> list_all (\<lambda>x. \<not> loud x) (snd (run step s es))"
  by (induction es arbitrary: s) (auto simp: inv_step quiet_stays quiet_silent)

end

text \<open>
  An output emitted at most once: a step emits it at most once, only when it is still
  owed, and then it is no longer owed.
\<close>

definition count_out :: "('o \<Rightarrow> bool) \<Rightarrow> 'o list \<Rightarrow> nat" where
  "count_out p os = length (filter p os)"

lemma count_out_simps [simp]:
  "count_out p [] = 0"
  "count_out p (x # xs) = (if p x then Suc (count_out p xs) else count_out p xs)"
  "count_out p (xs @ ys) = count_out p xs + count_out p ys"
  by (simp_all add: count_out_def)

locale once_machine = machine step inv
  for step :: "'s \<Rightarrow> 'e \<Rightarrow> 's \<times> 'o list" and inv :: "'s \<Rightarrow> bool" +
  fixes owed :: "'s \<Rightarrow> bool" and mark :: "'o \<Rightarrow> bool"
  assumes once_step:
    "inv s \<Longrightarrow> count_out mark (snd (step s e)) + of_bool (owed (fst (step s e))) \<le> of_bool (owed s)"
begin

lemma once_run:
  "inv s \<Longrightarrow> count_out mark (snd (run step s es)) + of_bool (owed (fst (run step s es))) \<le> of_bool (owed s)"
proof (induction es arbitrary: s)
  case (Cons e es)
  from once_step [OF Cons.prems, of e] Cons.IH [OF inv_step [OF Cons.prems, of e]]
  show ?case by simp
qed simp

lemma at_most_once: "inv s \<Longrightarrow> count_out mark (snd (run step s es)) \<le> 1"
  using once_run [of s es] by (simp add: of_bool_def split: if_splits)

lemma never_again: "inv s \<Longrightarrow> \<not> owed s \<Longrightarrow> count_out mark (snd (run step s es)) = 0"
  using once_run [of s es] by simp

end

text \<open>
  One machine refines another: what the detailed step does to the abstracted state is the
  abstract step on the abstracted event, with the abstracted outputs.
\<close>

locale refinement = machine step inv
  for step :: "'s \<Rightarrow> 'e \<Rightarrow> 's \<times> 'o list" and inv :: "'s \<Rightarrow> bool" +
  fixes astep :: "'a \<Rightarrow> 'e \<Rightarrow> 'a \<times> 'p list"
    and abs :: "'s \<Rightarrow> 'a" and vis :: "'o \<Rightarrow> 'p option"
  assumes refine_state: "inv s \<Longrightarrow> abs (fst (step s e)) = fst (astep (abs s) e)"
    and refine_out: "inv s \<Longrightarrow> List.map_filter vis (snd (step s e)) = snd (astep (abs s) e)"
begin

lemma refine_run_state: "inv s \<Longrightarrow> abs (fst (run step s es)) = fst (run astep (abs s) es)"
  by (induction es arbitrary: s) (auto simp: inv_step refine_state)

lemma map_filter_append: "List.map_filter vis (xs @ ys) = List.map_filter vis xs @ List.map_filter vis ys"
  by (simp add: List.map_filter_def)

lemma refine_run_out:
  "inv s \<Longrightarrow> List.map_filter vis (snd (run step s es)) = snd (run astep (abs s) es)"
  by (induction es arbitrary: s)
     (auto simp: inv_step refine_state refine_out map_filter_append List.map_filter_simps)

end

end
