(* ===== verification/DataChannel.thy ===== *)
theory DataChannel
  imports Prelude
begin

text \<open>
  The data channels (src/src/rtc/datachannel): the roles and their SCTP options, the packets
  as the sources read and write them, the framing of a payload, and \<open>RtcChannel\<close>:
  sending and receiving a packet, the chunked stream writer, and the send thread with its
  queue and its backpressure. The protobuf and LiveKit serialisers are generated code outside
  the repository: a \<open>codec\<close> passes them in.
\<close>

section \<open>Roles (rtc_channel.h)\<close>

datatype channel_role = Command | Stream | Lossy | Reliable

fun RoleLabel :: "channel_role \<Rightarrow> string" where
  "RoleLabel Command = ''command''"
| "RoleLabel Stream = ''stream''"
| "RoleLabel Lossy = ''_lossy''"
| "RoleLabel Reliable = ''_reliable''"

text \<open>The first role of the initialiser list whose label matches.\<close>

definition RoleFromLabel :: "string \<Rightarrow> channel_role option" where
  "RoleFromLabel label = List.find (\<lambda>role. RoleLabel role = label) [Command, Stream, Lossy, Reliable]"

fun RoleId :: "channel_role \<Rightarrow> int" where
  "RoleId Command = 0"
| "RoleId Stream = 1"
| "RoleId Lossy = 2"
| "RoleId Reliable = 3"

text \<open>The fields of \<open>webrtc::DataChannelInit\<close> the sources set, with its defaults.\<close>

record dc_init =
  init_ordered :: bool
  init_maxRetransmits :: "int option"
  init_negotiated :: bool
  init_id :: int

definition default_init :: dc_init where
  "default_init = \<lparr>init_ordered = True, init_maxRetransmits = None, init_negotiated = False, init_id = -1\<rparr>"

fun RoleInit :: "channel_role \<Rightarrow> dc_init" where
  "RoleInit Command = default_init\<lparr>init_ordered := True\<rparr>"
| "RoleInit Reliable = default_init\<lparr>init_ordered := True\<rparr>"
| "RoleInit Stream = default_init\<lparr>init_ordered := False\<rparr>"
| "RoleInit Lossy = default_init\<lparr>init_ordered := False, init_maxRetransmits := Some 0\<rparr>"

definition kStreamChunkSize :: nat where
  "kStreamChunkSize = 64 * 1024"

lemma RoleFromLabel_RoleLabel [simp]: "RoleFromLabel (RoleLabel r) = Some r"
  by (cases r) (simp_all add: RoleFromLabel_def)

lemma RoleFromLabel_Some: "RoleFromLabel l = Some r \<Longrightarrow> l = RoleLabel r"
  by (auto simp: RoleFromLabel_def split: if_splits)

section \<open>Packets\<close>

type_synonym u64 = "64 word"
type_synonym u32 = "32 word"

datatype query_type = LATEST_FILE | BEFORE_FILE | BEFORE_TIME
datatype video_mode = RECORDING | TIMELAPSE

datatype request =
    TakeSnapshot u32
  | QueryFileRequest query_type video_mode string
  | TransferFileRequest string
  | ControlCameraRequest int int
  | StartRecordingRequest
  | StopRecordingRequest
  | DisconnectRequest
  | NoRequest

datatype request_case =
    kTakeSnapshot | kQueryFile | kTransferFile | kControlCamera
  | kStartRecording | kStopRecording | kDisconnect | REQUEST_NOT_SET

fun payload_case :: "request \<Rightarrow> request_case" where
  "payload_case (TakeSnapshot _) = kTakeSnapshot"
| "payload_case (QueryFileRequest _ _ _) = kQueryFile"
| "payload_case (TransferFileRequest _) = kTransferFile"
| "payload_case (ControlCameraRequest _ _) = kControlCamera"
| "payload_case StartRecordingRequest = kStartRecording"
| "payload_case StopRecordingRequest = kStopRecording"
| "payload_case DisconnectRequest = kDisconnect"
| "payload_case NoRequest = REQUEST_NOT_SET"

datatype response = RecordingResponse bool string | OtherResponse

datatype stream_payload =
    Header u64 string     \<comment> \<open>total_length, mime_type\<close>
  | Chunk u64 bytes       \<comment> \<open>offset, data\<close>
  | Trailer string        \<comment> \<open>reason\<close>
  | PayloadNotSet

datatype body =
    RequestBody request
  | ResponseBody response
  | StreamBody string stream_payload   \<comment> \<open>stream_id, payload\<close>
  | Raw bytes
  | Ipc string u64 bytes               \<comment> \<open>endpoint, sequence, payload\<close>
  | BodyNotSet

record packet =
  request_id :: string
  body :: body

datatype livekit_packet = LiveKitPacket string "(bytes \<times> string) option"
  \<comment> \<open>participant_identity, and user (payload, topic) when set\<close>

record codec =
  SerializePacket :: "packet \<Rightarrow> bytes option"
  ParsePacket :: "bytes \<Rightarrow> packet option"
  SerializeLiveKit :: "bytes \<Rightarrow> string \<Rightarrow> bytes option"
  ParseLiveKit :: "bytes \<Rightarrow> livekit_packet option"

section \<open>Framing (channel_framing.cpp)\<close>

datatype framing = PlainFraming string | LiveKitFraming string

text \<open>The empty string drops the message.\<close>

fun Encode :: "codec \<Rightarrow> framing \<Rightarrow> bytes \<Rightarrow> bytes" where
  "Encode c (PlainFraming remote_id) data = data"
| "Encode c (LiveKitFraming topic) data =
     (case SerializeLiveKit c data topic of None \<Rightarrow> [] | Some serialized \<Rightarrow> serialized)"

text \<open>\<open>None\<close> is the return value false; otherwise the payload and who sent it.\<close>

fun Decode :: "codec \<Rightarrow> framing \<Rightarrow> bytes \<Rightarrow> (bytes \<times> string) option" where
  "Decode c (PlainFraming remote_id) buffer = Some (buffer, remote_id)"
| "Decode c (LiveKitFraming topic) buffer =
     (case ParseLiveKit c buffer of
        None \<Rightarrow> None
      | Some (LiveKitPacket identity user) \<Rightarrow>
          (case user of None \<Rightarrow> None | Some (payload, _) \<Rightarrow> Some (payload, identity)))"

text \<open>
  \<open>RtcChannel::Send\<close> up to the queue: the bytes pushed, or nothing when the packet does
  not serialise or the framing drops it. \<open>RtcChannel::OnMessage\<close> up to \<open>OnPacket\<close>.
\<close>

definition SendPacket :: "codec \<Rightarrow> framing \<Rightarrow> packet \<Rightarrow> bytes option" where
  "SendPacket c f p =
     (case SerializePacket c p of
        None \<Rightarrow> None
      | Some buf \<Rightarrow> (let framed = Encode c f buf in if framed = [] then None else Some framed))"

definition OnMessage :: "codec \<Rightarrow> framing \<Rightarrow> bytes \<Rightarrow> (packet \<times> string) option" where
  "OnMessage c f buffer =
     (case Decode c f buffer of
        None \<Rightarrow> None
      | Some (payload, remote_id) \<Rightarrow>
          (case ParsePacket c payload of
             None \<Rightarrow> None
           | Some packet \<Rightarrow> Some (packet, remote_id)))"

text \<open>What protobuf documents: parsing gives back what was serialised.\<close>

definition codec_ok :: "codec \<Rightarrow> bool" where
  "codec_ok c \<longleftrightarrow>
     (\<forall>p b. SerializePacket c p = Some b \<longrightarrow> ParsePacket c b = Some p) \<and>
     (\<forall>d t b. SerializeLiveKit c d t = Some b \<longrightarrow> ParseLiveKit c b = Some (LiveKitPacket [] (Some (d, t))))"

fun sender_of :: "framing \<Rightarrow> string" where
  "sender_of (PlainFraming remote_id) = remote_id"
| "sender_of (LiveKitFraming topic) = []"

lemma OnMessage_SendPacket:
  "codec_ok c \<Longrightarrow> SendPacket c f p = Some b \<Longrightarrow> OnMessage c f b = Some (p, sender_of f)"
  by (cases f) (auto simp: SendPacket_def OnMessage_def codec_ok_def Let_def
                     split: option.splits if_splits)

section \<open>The stream writer (rtc_channel.cpp, SendStream)\<close>

text \<open>
  A body is sent as a header, chunks of at most \<open>kStreamChunkSize\<close> bytes and a trailer,
  all with one stream id; \<open>stream_id\<close> is the generated uuid. The mime type is only set
  when it is not empty, and an unset string field reads as the empty string; likewise the
  reason of the trailer.
\<close>

definition SendStreamHeader :: "string \<Rightarrow> string \<Rightarrow> string \<Rightarrow> nat \<Rightarrow> packet" where
  "SendStreamHeader stream_id req mime_type total_length =
     \<lparr>request_id = req, body = StreamBody stream_id (Header (of_nat total_length) mime_type)\<rparr>"

definition SendStreamChunk :: "string \<Rightarrow> nat \<Rightarrow> bytes \<Rightarrow> packet" where
  "SendStreamChunk stream_id offset data =
     \<lparr>request_id = [], body = StreamBody stream_id (Chunk (of_nat offset) data)\<rparr>"

definition SendStreamTrailer :: "string \<Rightarrow> string \<Rightarrow> packet" where
  "SendStreamTrailer stream_id reason = \<lparr>request_id = [], body = StreamBody stream_id (Trailer reason)\<rparr>"

text \<open>The while loop over the body in memory.\<close>

function send_chunks :: "string \<Rightarrow> bytes \<Rightarrow> nat \<Rightarrow> packet list" where
  "send_chunks stream_id data offset =
     (if offset < length data
      then (let read_size = min kStreamChunkSize (length data - offset)
            in SendStreamChunk stream_id offset (take read_size (drop offset data))
               # send_chunks stream_id data (offset + read_size))
      else [])"
  by pat_completeness auto
termination
  by (relation "measure (\<lambda>(stream_id, data, offset). length data - offset)")
     (auto simp: kStreamChunkSize_def)

declare send_chunks.simps [simp del]

definition SendStream :: "string \<Rightarrow> string \<Rightarrow> string \<Rightarrow> bytes \<Rightarrow> packet list" where
  "SendStream stream_id req mime_type data =
     SendStreamHeader stream_id req mime_type (length data)
     # send_chunks stream_id data 0 @ [SendStreamTrailer stream_id '''']"

text \<open>
  The variant over an \<open>ifstream\<close>. The file is its size, as \<open>tellg\<close> at the end
  reports it, and the bytes \<open>read\<close> delivers before it fails: a full buffer each time,
  then one short read. They differ in length when reading fails midway or the file changes.
\<close>

record ifstream =
  is_open :: bool
  file_size :: nat
  file_bytes :: bytes

definition SendStreamFile :: "string \<Rightarrow> string \<Rightarrow> string \<Rightarrow> ifstream \<Rightarrow> packet list" where
  "SendStreamFile stream_id req mime_type file =
     (if \<not> is_open file then []
      else SendStreamHeader stream_id req mime_type (file_size file)
           # send_chunks stream_id (file_bytes file) 0
           @ (if length (file_bytes file) \<noteq> file_size file
              then [SendStreamTrailer stream_id ''read error'']
              else [SendStreamTrailer stream_id '''']))"

text \<open>
  The cut of a body the loop makes, as offsets and pieces, and what it means for such a list
  to tile a body from an offset on.
\<close>

function cut :: "bytes \<Rightarrow> nat \<Rightarrow> (nat \<times> bytes) list" where
  "cut data offset =
     (if offset < length data
      then (offset, take kStreamChunkSize (drop offset data)) # cut data (offset + kStreamChunkSize)
      else [])"
  by pat_completeness auto
termination
  by (relation "measure (\<lambda>(data, offset). length data - offset)")
     (auto simp: kStreamChunkSize_def)

declare cut.simps [simp del]

fun tiles :: "nat \<Rightarrow> (nat \<times> bytes) list \<Rightarrow> bool" where
  "tiles offset [] = True"
| "tiles offset ((o', d) # rest) =
     (o' = offset \<and> d \<noteq> [] \<and> length d \<le> kStreamChunkSize \<and> tiles (offset + length d) rest)"

lemma kStreamChunkSize_pos [simp]: "0 < kStreamChunkSize"
  by (simp add: kStreamChunkSize_def)

lemma cut_done: "length data \<le> offset \<Longrightarrow> cut data offset = []"
  by (simp add: cut.simps [of data offset])

lemma send_chunks_cut:
  "send_chunks sid data offset = map (\<lambda>(i, d). SendStreamChunk sid i d) (cut data offset)"
proof (induction sid data offset rule: send_chunks.induct)
  case (1 sid data offset)
  show ?case
  proof (cases "offset < length data")
    case False
    then show ?thesis by (simp add: send_chunks.simps [of sid data offset] cut_done)
  next
    case True
    have step: "cut data (offset + min kStreamChunkSize (length data - offset)) =
        cut data (offset + kStreamChunkSize)"
      by (cases "kStreamChunkSize \<le> length data - offset") (simp_all add: cut_done min_def)
    have piece: "take (min kStreamChunkSize (length data - offset)) (drop offset data) =
        take kStreamChunkSize (drop offset data)"
      by (simp add: min_def)
    from True show ?thesis
      using "1.IH" [OF True refl]
      by (simp add: send_chunks.simps [of sid data offset] cut.simps [of data offset] Let_def piece step)
  qed
qed

lemma tiles_cut: "tiles offset (cut data offset)"
proof (induction data offset rule: cut.induct)
  case (1 data offset)
  show ?case
  proof (cases "offset < length data")
    case True
    have "cut data (offset + length (take kStreamChunkSize (drop offset data))) =
        cut data (offset + kStreamChunkSize)"
      by (cases "kStreamChunkSize \<le> length data - offset") (simp_all add: cut_done min_def)
    with "1.IH" True show ?thesis
      by (cases "kStreamChunkSize \<le> length data - offset")
         (simp_all add: cut.simps [of data offset] cut_done min_def)
  qed (simp add: cut_done)
qed

lemma concat_cut: "concat (map snd (cut data offset)) = drop offset data"
proof (induction data offset rule: cut.induct)
  case (1 data offset)
  show ?case
  proof (cases "offset < length data")
    case True
    have "take kStreamChunkSize (drop offset data) @ drop (offset + kStreamChunkSize) data = drop offset data"
      by (metis append_take_drop_id drop_drop add.commute)
    with "1.IH" True show ?thesis by (simp add: cut.simps [of data offset])
  qed (simp add: cut_done)
qed

lemma length_cut: "length (cut data offset) = (length data - offset + (kStreamChunkSize - 1)) div kStreamChunkSize"
proof (induction data offset rule: cut.induct)
  case (1 data offset)
  let ?K = kStreamChunkSize
  show ?case
  proof (cases "offset < length data")
    case True
    have "(length data - offset + (?K - 1)) div ?K = Suc ((length data - (offset + ?K) + (?K - 1)) div ?K)"
    proof (cases "?K \<le> length data - offset")
      case True
      then have "length data - offset + (?K - 1) = (length data - (offset + ?K) + (?K - 1)) + ?K"
        by simp
      then show ?thesis by (simp only: div_add_self2 [OF less_imp_neq [OF kStreamChunkSize_pos, symmetric]])
    next
      case False
      with True show ?thesis
        by (simp add: div_add_self2 kStreamChunkSize_def div_nat_eqI)
    qed
    with "1.IH" True show ?thesis by (simp add: cut.simps [of data offset])
  qed (simp add: cut_done)
qed

lemma tiles_bound: "tiles offset cs \<Longrightarrow> (i, d) \<in> set cs \<Longrightarrow>
    offset \<le> i \<and> i + length d \<le> offset + length (concat (map snd cs))"
  by (induction offset cs rule: tiles.induct) fastforce+

section \<open>The send thread (rtc_channel.cpp, SendBytes, SendLoop, StopSendThread)\<close>

text \<open>
  The queue and the flag are shared between the callers and the send thread; the state and
  the buffered amount belong to the data channel and change on their own. The thread is
  waiting for the queue, holding a message in the backpressure loop, past that loop
  (\<open>Checked\<close>), about to hand the message to the channel (\<open>Sending\<close>), or has
  returned. \<open>enqueued\<close> and \<open>wire\<close> record what was pushed and what the channel
  accepted; \<open>lost\<close> what the thread took off the queue and did not deliver.
\<close>

datatype dc_state = kConnecting | kOpen | kClosing | kClosed

fun dc_rank :: "dc_state \<Rightarrow> nat" where
  "dc_rank kConnecting = 0"
| "dc_rank kOpen = 1"
| "dc_rank kClosing = 2"
| "dc_rank kClosed = 3"

datatype send_pc = Waiting | Holding bytes | Checked bytes | Sending bytes | Exited

record send_sys =
  send_queue :: "bytes list"
  send_thread_running :: bool
  pc :: send_pc
  dcs :: dc_state
  buffered :: nat
  enqueued :: "bytes list"
  wire :: "bytes list"
  lost :: "bytes list"

definition init_send :: "dc_state \<Rightarrow> send_sys" where
  "init_send st = \<lparr>send_queue = [], send_thread_running = True, pc = Waiting, dcs = st, buffered = 0,
     enqueued = [], wire = [], lost = []\<rparr>"

text \<open>\<open>SendBytes\<close> after framing (an empty frame is not queued), and \<open>StopSendThread\<close>.\<close>

definition SendBytes :: "bytes \<Rightarrow> send_sys \<Rightarrow> send_sys" where
  "SendBytes framed s =
     (if framed = [] then s
      else s\<lparr>send_queue := send_queue s @ [framed], enqueued := enqueued s @ [framed]\<rparr>)"

definition StopSendThread :: "send_sys \<Rightarrow> send_sys" where
  "StopSendThread s = s\<lparr>send_thread_running := False\<rparr>"

text \<open>
  \<open>SendLoop\<close>, one atomic action at a time; \<open>maxq\<close> is \<open>MaxSendQueueSize()\<close>.
  A blocked or sleeping thread leaves the state as it is.
\<close>

fun backpressure :: "nat \<Rightarrow> send_sys \<Rightarrow> bytes \<Rightarrow> bool" where
  "backpressure maxq s buf =
     (send_thread_running s \<and> dcs s = kOpen \<and> buffered s + length buf > maxq)"

definition SendLoop :: "nat \<Rightarrow> send_sys \<Rightarrow> send_sys" where
  "SendLoop maxq s =
     (case pc s of
        Waiting \<Rightarrow>
          (case send_queue s of
             [] \<Rightarrow> if send_thread_running s then s else s\<lparr>pc := Exited\<rparr>
           | buf # rest \<Rightarrow> s\<lparr>send_queue := rest, pc := Holding buf\<rparr>)
      | Holding buf \<Rightarrow> if backpressure maxq s buf then s else s\<lparr>pc := Checked buf\<rparr>
      | Checked buf \<Rightarrow>
          if \<not> send_thread_running s \<or> dcs s \<noteq> kOpen
          then s\<lparr>pc := Exited, lost := lost s @ [buf]\<rparr>
          else s\<lparr>pc := Sending buf\<rparr>
      | Sending buf \<Rightarrow>
          if dcs s = kOpen
          then s\<lparr>pc := Waiting, wire := wire s @ [buf], buffered := buffered s + length buf\<rparr>
          else s\<lparr>pc := Waiting, lost := lost s @ [buf]\<rparr>
      | Exited \<Rightarrow> s)"

text \<open>
  All interleavings: callers, the thread, and the channel, whose state only advances and
  whose buffer drains. A caller may queue a message of any length: nothing compares it with \<open>maxq\<close>.
\<close>

inductive send_env :: "nat \<Rightarrow> send_sys \<Rightarrow> send_sys \<Rightarrow> bool" for maxq where
  enqueue: "send_env maxq s (SendBytes framed s)"
| stop: "send_env maxq s (StopSendThread s)"
| drain: "n \<le> buffered s \<Longrightarrow> send_env maxq s (s\<lparr>buffered := n\<rparr>)"
| advance: "dc_rank (dcs s) \<le> dc_rank st \<Longrightarrow> send_env maxq s (s\<lparr>dcs := st\<rparr>)"

inductive send_step :: "nat \<Rightarrow> send_sys \<Rightarrow> send_sys \<Rightarrow> bool" for maxq where
  thread: "send_step maxq s (SendLoop maxq s)"
| env: "send_env maxq s t \<Longrightarrow> send_step maxq s t"

inductive send_reach :: "nat \<Rightarrow> dc_state \<Rightarrow> send_sys \<Rightarrow> bool" for maxq st where
  start: "send_reach maxq st (init_send st)"
| more: "send_reach maxq st s \<Longrightarrow> send_step maxq s t \<Longrightarrow> send_reach maxq st t"

fun in_flight :: "send_pc \<Rightarrow> bytes list" where
  "in_flight (Holding b) = [b]"
| "in_flight (Checked b) = [b]"
| "in_flight (Sending b) = [b]"
| "in_flight _ = []"


text \<open>The run of the whole system with \<open>n\<close> moves of the thread in it.\<close>

inductive send_sched :: "nat \<Rightarrow> send_sys \<Rightarrow> nat \<Rightarrow> send_sys \<Rightarrow> bool" for maxq s where
  sched_none: "send_sched maxq s 0 s"
| sched_thread: "send_sched maxq s n t \<Longrightarrow> send_sched maxq s (Suc n) (SendLoop maxq t)"
| sched_env: "send_sched maxq s n t \<Longrightarrow> send_env maxq t u \<Longrightarrow> send_sched maxq s n u"

inductive_cases send_stepE: "send_step maxq s t"
inductive_cases send_envE: "send_env maxq s t"

text \<open>
  The bound of the buffer holds if the channel was open from the start, whatever is queued, or if no
  message is longer than \<open>maxq\<close>.
\<close>

definition bounded_run :: "nat \<Rightarrow> dc_state \<Rightarrow> send_sys \<Rightarrow> bool" where
  "bounded_run maxq st s \<longleftrightarrow> st \<noteq> kConnecting \<or> (\<forall>b \<in> set (enqueued s). length b \<le> maxq)"

definition send_inv :: "nat \<Rightarrow> dc_state \<Rightarrow> send_sys \<Rightarrow> bool" where
  "send_inv maxq st s \<longleftrightarrow>
     enqueued s = wire s @ lost s @ in_flight (pc s) @ send_queue s \<and>
     (lost s \<noteq> [] \<longrightarrow> pc s = Exited \<or> 1 < dc_rank (dcs s)) \<and>
     (dcs s = kConnecting \<longrightarrow> buffered s = 0) \<and> (st \<noteq> kConnecting \<longrightarrow> dcs s \<noteq> kConnecting) \<and>
     (\<forall>b. pc s = Sending b \<longrightarrow> dcs s \<noteq> kConnecting) \<and>
     (bounded_run maxq st s \<longrightarrow> buffered s \<le> maxq \<and> (\<forall>b \<in> set (wire s). length b \<le> maxq) \<and>
       (case pc s of
          Checked b \<Rightarrow> send_thread_running s \<and> dc_rank (dcs s) \<le> 1 \<longrightarrow> buffered s + length b \<le> maxq
        | Sending b \<Rightarrow> dc_rank (dcs s) \<le> 1 \<longrightarrow> buffered s + length b \<le> maxq
        | _ \<Rightarrow> True))"

lemma dc_rank_le_1: "dc_rank d \<le> Suc 0 \<longleftrightarrow> d = kConnecting \<or> d = kOpen"
  by (cases d) auto

lemma dc_rank_gt_1: "Suc 0 < dc_rank d \<longleftrightarrow> d = kClosing \<or> d = kClosed"
  by (cases d) auto

lemmas dc_rank_simps = dc_rank_le_1 dc_rank_gt_1

lemma send_inv_init: "send_inv maxq st (init_send st)"
  by (simp add: send_inv_def init_send_def)

lemma bounded_run_same: "enqueued t = enqueued s \<Longrightarrow> bounded_run maxq st t \<longleftrightarrow> bounded_run maxq st s"
  by (simp add: bounded_run_def)

lemma bounded_run_SendBytes: "bounded_run maxq st (SendBytes framed s) \<Longrightarrow> bounded_run maxq st s"
  by (auto simp: bounded_run_def SendBytes_def split: if_splits)

lemma held_is_bounded:
  "send_inv maxq st s \<Longrightarrow> bounded_run maxq st s \<Longrightarrow> dcs s = kConnecting \<Longrightarrow> b \<in> set (in_flight (pc s)) \<Longrightarrow> length b \<le> maxq"
  by (auto simp: send_inv_def bounded_run_def)

lemma send_inv_thread:
  assumes inv: "send_inv maxq st s"
  shows "send_inv maxq st (SendLoop maxq s)"
proof -
  have same: "bounded_run maxq st (SendLoop maxq s) \<longleftrightarrow> bounded_run maxq st s"
    by (rule bounded_run_same) (simp add: SendLoop_def split: send_pc.split list.split)
  show ?thesis
  proof (cases "pc s")
    case Waiting
    then show ?thesis
      using inv same by (cases "send_queue s") (simp_all add: send_inv_def SendLoop_def)
  next
    case (Holding b)
    then show ?thesis
      using inv same held_is_bounded [OF inv, of b]
      by (cases "dcs s"; cases "send_thread_running s"; cases "buffered s + length b > maxq")
         (auto simp: send_inv_def SendLoop_def)
  next
    case (Checked b)
    then show ?thesis
      using inv same by (cases "dcs s"; cases "send_thread_running s") (simp_all add: send_inv_def SendLoop_def)
  next
    case (Sending b)
    then show ?thesis
      using inv same by (cases "dcs s") (auto simp: send_inv_def SendLoop_def)
  next
    case Exited
    then show ?thesis using inv by (simp add: SendLoop_def)
  qed
qed

lemma send_inv_env: "send_env maxq s t \<Longrightarrow> send_inv maxq st s \<Longrightarrow> send_inv maxq st t"
proof (induction rule: send_env.induct)
  case (enqueue s framed)
  let ?t = "SendBytes framed s"
  have "bounded_run maxq st ?t \<Longrightarrow> bounded_run maxq st s" by (rule bounded_run_SendBytes)
  moreover have "enqueued ?t = wire s @ lost s @ in_flight (pc s) @ send_queue ?t"
    using enqueue by (simp add: send_inv_def SendBytes_def)
  moreover have "pc ?t = pc s" "wire ?t = wire s" "lost ?t = lost s" "dcs ?t = dcs s" "buffered ?t = buffered s"
    "send_thread_running ?t = send_thread_running s" by (simp_all add: SendBytes_def)
  ultimately show ?case using enqueue unfolding send_inv_def by (simp only:) blast
next
  case (stop s)
  have "bounded_run maxq st (StopSendThread s) \<longleftrightarrow> bounded_run maxq st s"
    by (rule bounded_run_same) (simp add: StopSendThread_def)
  with stop show ?case
    by (cases "pc s") (simp_all add: send_inv_def StopSendThread_def)
next
  case (drain n s)
  have "bounded_run maxq st (s\<lparr>buffered := n\<rparr>) \<longleftrightarrow> bounded_run maxq st s" by (rule bounded_run_same) simp
  with drain show ?case by (cases "pc s") (auto simp: send_inv_def)
next
  case (advance s st')
  have "bounded_run maxq st (s\<lparr>dcs := st'\<rparr>) \<longleftrightarrow> bounded_run maxq st s" by (rule bounded_run_same) simp
  moreover have "dcs s \<noteq> kConnecting \<Longrightarrow> st' \<noteq> kConnecting" using advance(1) by (cases "dcs s") auto
  moreover have "1 < dc_rank (dcs s) \<Longrightarrow> 1 < dc_rank st'" "dc_rank st' \<le> 1 \<Longrightarrow> dc_rank (dcs s) \<le> 1" using advance(1) by simp_all
  ultimately show ?case using advance(2) by (cases "pc s") (auto simp: send_inv_def)
qed

lemma send_reach_inv: "send_reach maxq st s \<Longrightarrow> send_inv maxq st s"
  by (induction rule: send_reach.induct)
     (auto simp: send_inv_init elim!: send_stepE intro: send_inv_thread send_inv_env)

text \<open>
  A channel that is open when the channel object is made keeps its thread until it is
  stopped or the channel closes.
\<close>

definition send_alive :: "send_sys \<Rightarrow> bool" where
  "send_alive s \<longleftrightarrow> dcs s \<noteq> kConnecting \<and> (pc s = Exited \<longrightarrow> \<not> send_thread_running s \<or> dcs s \<noteq> kOpen)"

lemma send_alive_thread: "send_alive s \<Longrightarrow> send_alive (SendLoop maxq s)"
  by (auto simp: send_alive_def SendLoop_def split: send_pc.splits list.splits)

lemma send_alive_env: "send_env maxq s t \<Longrightarrow> send_alive s \<Longrightarrow> send_alive t"
proof (induction rule: send_env.induct)
  case (advance s st)
  then show ?case by (cases "dcs s"; cases st) (auto simp: send_alive_def)
qed (auto simp: send_alive_def SendBytes_def StopSendThread_def)

lemma send_reach_alive: "send_reach maxq kOpen s \<Longrightarrow> send_alive s"
proof (induction rule: send_reach.induct)
  case start
  show ?case by (simp add: send_alive_def init_send_def)
next
  case (more s t)
  then show ?case by (auto elim!: send_stepE intro: send_alive_thread send_alive_env)
qed

text \<open>Once stopped, every move of the thread brings it closer to its return.\<close>

fun pc_rank :: "send_pc \<Rightarrow> nat" where
  "pc_rank (Sending _) = 4"
| "pc_rank Waiting = 3"
| "pc_rank (Holding _) = 2"
| "pc_rank (Checked _) = 1"
| "pc_rank Exited = 0"

lemma stopped_thread_decreases:
  "\<not> send_thread_running s \<Longrightarrow> pc_rank (pc (SendLoop maxq s)) \<le> pc_rank (pc s) - 1"
  by (auto simp: SendLoop_def split: send_pc.splits list.splits)

lemma SendLoop_running: "send_thread_running (SendLoop maxq s) = send_thread_running s"
  by (auto simp: SendLoop_def split: send_pc.splits list.splits)

lemma env_keeps_pc: "send_env maxq s t \<Longrightarrow> pc t = pc s \<and> (send_thread_running t \<longrightarrow> send_thread_running s)"
  by (induction rule: send_env.induct) (auto simp: SendBytes_def StopSendThread_def)

lemma stopped_sched:
  "send_sched maxq s n t \<Longrightarrow> \<not> send_thread_running s \<Longrightarrow>
   \<not> send_thread_running t \<and> pc_rank (pc t) \<le> 4 - n"
proof (induction rule: send_sched.induct)
  case sched_none
  then show ?case by (cases "pc s") auto
next
  case (sched_thread n t)
  then show ?case using stopped_thread_decreases [of t maxq] by (auto simp: SendLoop_running)
next
  case (sched_env n t u)
  then show ?case using env_keeps_pc [of maxq t u] by auto
qed

lemma pc_rank_0 [simp]: "pc_rank p = 0 \<longleftrightarrow> p = Exited"
  by (cases p) auto

section \<open>Properties\<close>

text \<open>
  C1: a body of any length goes out as one header that declares its length, chunks that tile
  the body without gap or overlap (each one not empty and at most 64 KiB, offsets
  contiguous from 0, \<open>ceil(size / 64 KiB)\<close> of them), and one trailer without a reason.
\<close>

theorem stream_tiles_body:
  "\<exists>cs. SendStream sid req mime data =
          SendStreamHeader sid req mime (length data)
          # map (\<lambda>(i, d). SendStreamChunk sid i d) cs @ [SendStreamTrailer sid '''']
        \<and> tiles 0 cs \<and> concat (map snd cs) = data
        \<and> length cs = (length data + (kStreamChunkSize - 1)) div kStreamChunkSize"
proof (intro exI conjI)
  show "SendStream sid req mime data = SendStreamHeader sid req mime (length data)
          # map (\<lambda>(i, d). SendStreamChunk sid i d) (cut data 0) @ [SendStreamTrailer sid '''']"
    by (simp add: SendStream_def send_chunks_cut)
qed (simp_all add: tiles_cut concat_cut length_cut)


text \<open>The condition is needed: here the channel opens while the thread holds a message that is too long.\<close>

lemma oversize_message_while_opening_is_sent:
  "\<exists>s. send_reach 1 kConnecting s \<and> wire s = [''long''] \<and> buffered s = 4"
proof -
  let ?s1 = "SendBytes ''long'' (init_send kConnecting)"
  let ?s2 = "SendLoop 1 (SendLoop 1 ?s1)"
  let ?s3 = "SendLoop 1 (SendLoop 1 (?s2\<lparr>dcs := kOpen\<rparr>))"
  have "send_reach 1 kConnecting ?s2"
    by (intro send_reach.more [OF _ send_step.thread] send_reach.more [OF send_reach.start send_step.env [OF send_env.enqueue]])
  then have "send_reach 1 kConnecting (?s2\<lparr>dcs := kOpen\<rparr>)"
    by (rule send_reach.more) (rule send_step.env, rule send_env.advance,
        simp add: SendLoop_def SendBytes_def init_send_def)
  then have "send_reach 1 kConnecting ?s3" by (intro send_reach.more [OF _ send_step.thread])
  moreover have "wire ?s3 = [''long''] \<and> buffered ?s3 = 4"
    by (simp add: SendLoop_def SendBytes_def init_send_def)
  ultimately show ?thesis by blast
qed

lemma send_reach_demo:
  "send_reach 100 kOpen (SendLoop 100 (SendBytes ''hi'' (init_send kOpen)))"
proof (rule send_reach.more)
  show "send_reach 100 kOpen (SendBytes ''hi'' (init_send kOpen))"
    by (rule send_reach.more [OF send_reach.start]) (rule send_step.env, rule send_env.enqueue)
qed (rule send_step.thread)


text \<open>
  \<open>StopSendThread\<close> can join: after the flag is cleared, whatever the callers and the
  channel do meanwhile, the thread has returned after at most four of its own moves.
\<close>

theorem stopped_thread_returns:
  assumes "send_sched maxq s n t" and "\<not> send_thread_running s" and "4 \<le> n"
  shows "pc t = Exited"
  using stopped_sched [OF assms(1,2)] assms(3) by simp

theorem stopped_thread_returns_witness:
  "pc (SendLoop 9 (SendLoop 9 (SendLoop 9 (SendLoop 9 (StopSendThread (SendBytes ''x'' (init_send kOpen))))))) = Exited"
proof -
  let ?s = "StopSendThread (SendBytes ''x'' (init_send kOpen))"
  have "send_sched 9 ?s (Suc (Suc (Suc (Suc 0)))) (SendLoop 9 (SendLoop 9 (SendLoop 9 (SendLoop 9 ?s))))"
    by (intro send_sched.intros)
  then show ?thesis
    by (rule stopped_thread_returns) (simp_all add: StopSendThread_def)
qed

text \<open>
  a message that is queued while the channel is still connecting can end the send thread
  for good: there is a run in which the channel then opens, the flag is still set, and a later
  message stays in the queue with no thread left to send it.
\<close>

theorem send_before_open_ends_thread:
  "\<exists>s. send_reach 100 kConnecting s \<and> dcs s = kOpen \<and> send_thread_running s \<and>
       pc s = Exited \<and> send_queue s = [''later''] \<and> wire s = []"
proof -
  let ?s1 = "SendBytes ''early'' (init_send kConnecting)"
  let ?s2 = "SendLoop 100 (SendLoop 100 (SendLoop 100 ?s1))"
  let ?s3 = "SendBytes ''later'' (?s2\<lparr>dcs := kOpen\<rparr>)"
  have "send_reach 100 kConnecting ?s1"
    by (rule send_reach.more [OF send_reach.start]) (rule send_step.env, rule send_env.enqueue)
  then have "send_reach 100 kConnecting ?s2"
    by (blast intro: send_reach.more send_step.thread)
  then have "send_reach 100 kConnecting (?s2\<lparr>dcs := kOpen\<rparr>)"
    by (rule send_reach.more) (rule send_step.env, rule send_env.advance,
        simp add: SendLoop_def SendBytes_def init_send_def)
  then have "send_reach 100 kConnecting ?s3"
    by (rule send_reach.more) (rule send_step.env, rule send_env.enqueue)
  moreover have "dcs ?s3 = kOpen" "send_thread_running ?s3" "pc ?s3 = Exited"
    "send_queue ?s3 = [''later'']" "wire ?s3 = []"
    by (simp_all add: SendLoop_def SendBytes_def init_send_def)
  ultimately show ?thesis by blast
qed

end
