(* ===== verification/UnixSocket.thy ===== *)
theory UnixSocket
  imports Prelude "HOL-Library.Sublist"
begin

text \<open>
  \<open>UnixSocketServer\<close> (src/src/ipc/unix_socket_server.cpp): the socket that local programs
  connect to. \<open>Write\<close> sends a message to every client; \<open>PublishLatest\<close> keeps one
  latest message and hands it to a client only when that client has read the previous one.
  The results of the system calls are arguments, since the kernel decides them. The state
  carries, next to the members of the class, what the kernel holds for each client.
\<close>

type_synonym fd = int
type_synonym version = "64 word"

text \<open>What \<open>send\<close> returns: a count, or an error by its \<open>errno\<close>.\<close>

datatype send_result = Sent nat | EINTR_result | EAGAIN_result | Error_result

text \<open>What the kernel answers to \<open>SendLatest\<close> on one client.\<close>

datatype latest_env = IoctlFails | SendReturns send_result

datatype srv_out =
    CloseFd fd
  | ShutdownFd fd
  | CallbackRun string bytes
  | Unlink
  | Listening

record server =
  us_server_fd :: fd
  us_running :: bool
  us_clients :: "(fd \<times> version) list"   \<comment> \<open>with \<open>sent_version\<close>\<close>
  us_callbacks :: "string list"           \<comment> \<open>the registered callback ids\<close>
  us_latest :: bytes
  us_latest_version :: version
  us_published :: "bytes list"            \<comment> \<open>every message ever published\<close>
  us_written :: "fd \<Rightarrow> bytes"             \<comment> \<open>what the kernel accepted for the client\<close>
  us_unread :: "fd \<Rightarrow> bytes"              \<comment> \<open>what the client has not read of it\<close>
  us_sent_list :: "fd \<Rightarrow> nat list"        \<comment> \<open>which publications those were\<close>

definition init_server :: server where
  "init_server = \<lparr>us_server_fd = -1, us_running = False, us_clients = [], us_callbacks = [],
     us_latest = [], us_latest_version = 0, us_published = [], us_written = (\<lambda>_. []),
     us_unread = (\<lambda>_. []), us_sent_list = (\<lambda>_. [])\<rparr>"

section \<open>WriteAll and Write\<close>

text \<open>
  The loop of \<open>WriteAll\<close> over the results of the successive calls of \<open>send\<close>: the return
  value, and the bytes the kernel took. \<open>None\<close>: the calls are not all answered yet. The
  kernel never takes more than it was offered.
\<close>

fun WriteAll :: "send_result list \<Rightarrow> bytes \<Rightarrow> nat \<Rightarrow> (bool \<times> bytes) option" where
  "WriteAll rs message sent =
     (if sent < length message
      then (case rs of
              [] \<Rightarrow> None
            | Sent n # rest \<Rightarrow>
                (if n > 0 then WriteAll rest message (sent + min n (length message - sent))
                 else Some (False, take sent message))
            | EINTR_result # rest \<Rightarrow> WriteAll rest message sent
            | _ # rest \<Rightarrow> Some (False, take sent message))
      else Some (True, take sent message))"

declare WriteAll.simps [simp del]

lemma WriteAll_prefix:
  "WriteAll rs message sent = Some (ok, out) \<Longrightarrow> sent \<le> length message \<Longrightarrow>
   prefix out message \<and> (ok \<longleftrightarrow> out = message)"
proof (induction rs message sent rule: WriteAll.induct)
  case (1 rs message sent)
  show ?case
  proof (cases "sent < length message")
    case False
    with "1.prems" show ?thesis by (auto simp: WriteAll.simps [of rs message sent])
  next
    case True
    then have "take sent message \<noteq> message"
      by (metis length_take min.absorb4 nat_neq_iff)
    with True "1.prems" "1.IH" show ?thesis
      by (auto simp: WriteAll.simps [of rs message sent] take_is_prefix
               split: list.splits send_result.splits if_splits)
  qed
qed

lemma WriteAll_finishes:
  "length message - sent \<le> length (filter (\<lambda>r. \<exists>n > 0. r = Sent n) rs) \<Longrightarrow>
   \<exists>r. WriteAll rs message sent = Some r"
proof (induction rs message sent rule: WriteAll.induct)
  case (1 rs message sent)
  then show ?case
    by (subst WriteAll.simps) (auto split: list.splits send_result.splits)
qed

section \<open>The latest message\<close>

text \<open>
  \<open>SendLatest\<close> on one client: whether the client is kept, its new \<open>sent_version\<close>, and the
  bytes the kernel took.
\<close>

fun SendLatest :: "bytes \<Rightarrow> version \<Rightarrow> bytes \<Rightarrow> latest_env \<Rightarrow> version \<Rightarrow> bool \<times> version \<times> bytes" where
  "SendLatest latest latest_version unread env sent_version =
     (if latest_version = 0 \<or> sent_version = latest_version then (True, sent_version, [])
      else (case env of
              IoctlFails \<Rightarrow> (False, sent_version, [])
            | SendReturns r \<Rightarrow>
                (if unread \<noteq> [] then (True, sent_version, [])
                 else (case r of
                         Sent n \<Rightarrow>
                           (if n = length latest then (True, latest_version, latest)
                            else (False, sent_version, take n latest))
                       | EAGAIN_result \<Rightarrow> (True, sent_version, [])
                       | EINTR_result \<Rightarrow> (True, sent_version, [])
                       | Error_result \<Rightarrow> (False, sent_version, [])))))"

text \<open>
  \<open>FlushLatest\<close>: \<open>SendToAll\<close> with \<open>SendLatest\<close>. A client that is not kept leaves the map
  and its descriptor is shut down afterwards.
\<close>

definition latest_of :: "(fd \<Rightarrow> latest_env) \<Rightarrow> server \<Rightarrow> fd \<times> version \<Rightarrow> bool \<times> version \<times> bytes" where
  "latest_of env s c = SendLatest (us_latest s) (us_latest_version s) (us_unread s (fst c)) (env (fst c)) (snd c)"

definition kept :: "(fd \<Rightarrow> latest_env) \<Rightarrow> server \<Rightarrow> fd \<times> version \<Rightarrow> bool" where
  "kept env s c = fst (latest_of env s c)"

definition took :: "(fd \<Rightarrow> latest_env) \<Rightarrow> server \<Rightarrow> fd \<Rightarrow> bytes" where
  "took env s f = (case map_of (us_clients s) f of None \<Rightarrow> [] | Some v \<Rightarrow> snd (snd (latest_of env s (f, v))))"

definition fresh :: "(fd \<Rightarrow> latest_env) \<Rightarrow> server \<Rightarrow> fd \<Rightarrow> bool" where
  "fresh env s f = (case map_of (us_clients s) f of None \<Rightarrow> False | Some v \<Rightarrow> fst (snd (latest_of env s (f, v))) \<noteq> v)"

definition FlushLatest :: "(fd \<Rightarrow> latest_env) \<Rightarrow> server \<Rightarrow> server \<times> srv_out list" where
  "FlushLatest env s =
     (s\<lparr>us_clients := map (\<lambda>c. (fst c, fst (snd (latest_of env s c)))) (filter (kept env s) (us_clients s)),
        us_written := (\<lambda>f. us_written s f @ took env s f),
        us_unread := (\<lambda>f. us_unread s f @ took env s f),
        us_sent_list := (\<lambda>f. us_sent_list s f @
           (if fresh env s f then [length (us_published s) - 1] else []))\<rparr>,
      map (\<lambda>c. ShutdownFd (fst c)) (filter (\<lambda>c. \<not> kept env s c) (us_clients s)))"

definition PublishLatest :: "(fd \<Rightarrow> latest_env) \<Rightarrow> bytes \<Rightarrow> server \<Rightarrow> server \<times> srv_out list" where
  "PublishLatest env message s =
     FlushLatest env (s\<lparr>us_latest := message, us_latest_version := us_latest_version s + 1,
                        us_published := us_published s @ [message]\<rparr>)"

text \<open>\<open>Write\<close>: \<open>SendToAll\<close> with \<open>WriteAll\<close>, given the outcome of the loop on each client.\<close>

definition Write :: "(fd \<Rightarrow> bool \<times> bytes) \<Rightarrow> server \<Rightarrow> server \<times> srv_out list" where
  "Write outcome s =
     (s\<lparr>us_clients := filter (\<lambda>c. fst (outcome (fst c))) (us_clients s),
        us_written := (\<lambda>f. us_written s f @ (if f \<in> fst ` set (us_clients s) then snd (outcome f) else [])),
        us_unread := (\<lambda>f. us_unread s f @ (if f \<in> fst ` set (us_clients s) then snd (outcome f) else []))\<rparr>,
      map (\<lambda>c. ShutdownFd (fst c)) (filter (\<lambda>c. \<not> fst (outcome (fst c))) (us_clients s)))"

section \<open>Connections\<close>

definition RegisterMessageCallback :: "string \<Rightarrow> server \<Rightarrow> server" where
  "RegisterMessageCallback i s = s\<lparr>us_callbacks := List.insert i (us_callbacks s)\<rparr>"

definition UnregisterMessageCallback :: "string \<Rightarrow> server \<Rightarrow> server" where
  "UnregisterMessageCallback i s = s\<lparr>us_callbacks := filter (\<lambda>j. j \<noteq> i) (us_callbacks s)\<rparr>"

text \<open>What \<open>socket\<close>, \<open>bind\<close> and \<open>listen\<close> answer.\<close>

datatype start_env = SocketFails | BindFails fd | ListenFails fd | Listens fd

text \<open>\<open>Start\<close>: note that a failed \<open>bind\<close> or \<open>listen\<close> closes the descriptor and keeps its number.\<close>

fun StartServer :: "start_env \<Rightarrow> server \<Rightarrow> server \<times> srv_out list" where
  "StartServer SocketFails s = (s\<lparr>us_server_fd := -1\<rparr>, [])"
| "StartServer (BindFails f) s = (s\<lparr>us_server_fd := f\<rparr>, [Unlink, CloseFd f])"
| "StartServer (ListenFails f) s = (s\<lparr>us_server_fd := f\<rparr>, [Unlink, CloseFd f])"
| "StartServer (Listens f) s = (s\<lparr>us_server_fd := f, us_running := True\<rparr>, [Unlink, Listening])"

text \<open>One turn of \<open>AcceptLoop\<close> with a new client.\<close>

definition AcceptClient :: "(fd \<Rightarrow> latest_env) \<Rightarrow> fd \<Rightarrow> server \<Rightarrow> server \<times> srv_out list" where
  "AcceptClient env client_fd s =
     (if \<not> us_running s \<or> client_fd \<in> fst ` set (us_clients s) then (s, [])
      else FlushLatest env
             (s\<lparr>us_clients := us_clients s @ [(client_fd, 0)],
                us_written := (us_written s)(client_fd := []),
                us_unread := (us_unread s)(client_fd := []),
                us_sent_list := (us_sent_list s)(client_fd := [])\<rparr>))"

text \<open>\<open>HandleClient\<close>: a successful read runs every callback; the exit removes the client and closes.\<close>

definition HandleClientRead :: "bytes \<Rightarrow> server \<Rightarrow> server \<times> srv_out list" where
  "HandleClientRead msg s =
     (s, if us_running s then map (\<lambda>i. CallbackRun i msg) (us_callbacks s) else [])"

definition HandleClientExit :: "fd \<Rightarrow> server \<Rightarrow> server \<times> srv_out list" where
  "HandleClientExit client_fd s =
     (s\<lparr>us_clients := filter (\<lambda>c. fst c \<noteq> client_fd) (us_clients s)\<rparr>, [CloseFd client_fd])"

text \<open>
  \<open>Stop\<close>: the clients are taken out of the map and shut down; then each client's thread is
  joined, which lets it run \<open>HandleClientExit\<close>, and its descriptor is closed.
\<close>

fun join_clients :: "(fd \<times> version) list \<Rightarrow> server \<Rightarrow> server \<times> srv_out list" where
  "join_clients [] s = (s, [])"
| "join_clients ((f, _) # rest) s =
     (case HandleClientExit f s of (s1, os1) \<Rightarrow>
       (case join_clients rest s1 of (s2, os2) \<Rightarrow> (s2, os1 @ [CloseFd f] @ os2)))"

definition StopServer :: "server \<Rightarrow> server \<times> srv_out list" where
  "StopServer s =
     (let s1 = s\<lparr>us_running := False\<rparr>;
          os1 = (if us_server_fd s1 \<ge> 0 then [ShutdownFd (us_server_fd s1), CloseFd (us_server_fd s1)] else []);
          s2 = (if us_server_fd s1 \<ge> 0 then s1\<lparr>us_server_fd := -1\<rparr> else s1);
          os2 = map (\<lambda>c. ShutdownFd (fst c)) (us_clients s2)
      in case join_clients (us_clients s2) (s2\<lparr>us_clients := []\<rparr>) of
           (s3, os3) \<Rightarrow> (s3, os1 @ os2 @ os3 @ [Unlink]))"

section \<open>The server as a machine\<close>

datatype srv_event =
    Publish "fd \<Rightarrow> latest_env" bytes
  | Accept "fd \<Rightarrow> latest_env" fd
  | ClientReads fd nat
  | ClientSends fd bytes
  | ClientGone fd
  | Register string
  | Unregister string
  | StartCall start_env
  | StopCall

fun server_step :: "server \<Rightarrow> srv_event \<Rightarrow> server \<times> srv_out list" where
  "server_step s (Publish env m) = PublishLatest env m s"
| "server_step s (Accept env f) = AcceptClient env f s"
| "server_step s (ClientReads f n) = (s\<lparr>us_unread := (us_unread s)(f := drop n (us_unread s f))\<rparr>, [])"
| "server_step s (ClientSends f m) = HandleClientRead m s"
| "server_step s (ClientGone f) = HandleClientExit f s"
| "server_step s (Register i) = (RegisterMessageCallback i s, [])"
| "server_step s (Unregister i) = (UnregisterMessageCallback i s, [])"
| "server_step s (StartCall e) = StartServer e s"
| "server_step s StopCall = StopServer s"

text \<open>What the server keeps true of every connected client.\<close>

definition client_inv :: "server \<Rightarrow> fd \<times> version \<Rightarrow> bool" where
  "client_inv s c \<longleftrightarrow>
     (let is = us_sent_list s (fst c)
      in sorted_wrt (<) is \<and> (\<forall>i \<in> set is. i < length (us_published s)) \<and>
         snd c = (if is = [] then 0 else of_nat (Suc (last is))) \<and>
         us_written s (fst c) = concat (map (\<lambda>i. us_published s ! i) is) \<and>
         suffix (us_unread s (fst c)) (if is = [] then [] else us_published s ! last is))"

definition server_inv :: "server \<Rightarrow> bool" where
  "server_inv s \<longleftrightarrow>
     distinct (map fst (us_clients s)) \<and>
     us_latest_version s = of_nat (length (us_published s)) \<and>
     (us_published s \<noteq> [] \<longrightarrow> us_latest s = last (us_published s)) \<and>
     list_all (client_inv s) (us_clients s)"

lemma SendLatest_cases:
  assumes "SendLatest latest v unread env sv = (True, sv', out)"
  obtains "sv' = sv" "out = []"
  | "sv' = v" "out = latest" "unread = []" "v \<noteq> 0" "sv \<noteq> v"
  using assms
  by (auto split: if_splits latest_env.splits send_result.splits)

lemma flush_client_inv:
  assumes inv: "server_inv s" and c: "(f, v) \<in> set (us_clients s)"
    and latest: "latest_of env s (f, v) = (True, v', out)"
  shows "client_inv (fst (FlushLatest env s)) (f, v')"
proof -
  let ?is = "us_sent_list s f"
  from inv c have lookup: "map_of (us_clients s) f = Some v"
    by (simp add: server_inv_def)
  then have took: "took env s f = out" and fresh: "fresh env s f \<longleftrightarrow> v' \<noteq> v"
    using latest by (simp_all add: took_def fresh_def)
  from inv c have ci: "client_inv s (f, v)"
    by (auto simp: server_inv_def list_all_iff)
  from latest have "SendLatest (us_latest s) (us_latest_version s) (us_unread s f) (env f) v = (True, v', out)"
    by (simp add: latest_of_def)
  then show ?thesis
  proof (cases rule: SendLatest_cases)
    case 1
    with ci took fresh show ?thesis
      by (auto simp: client_inv_def FlushLatest_def Let_def)
  next
    case 2
    from inv have ver: "us_latest_version s = of_nat (length (us_published s))"
      by (simp add: server_inv_def)
    with 2 have ne: "us_published s \<noteq> []" by auto
    with inv 2 have out: "out = us_published s ! (length (us_published s) - 1)"
      by (simp add: server_inv_def last_conv_nth)
    from ne have len: "Suc (length (us_published s) - 1) = length (us_published s)" by simp
    then have version: "of_nat (Suc (length (us_published s) - 1)) = us_latest_version s"
      using ver by (simp only:)
    have older: "?is \<noteq> [] \<Longrightarrow> last ?is \<noteq> length (us_published s) - 1"
      using ci 2 version by (auto simp: client_inv_def Let_def)
    have bound: "\<forall>i \<in> set ?is. i < length (us_published s) - 1"
    proof
      fix i assume i: "i \<in> set ?is"
      then have ne': "?is \<noteq> []" by auto
      have "last ?is < length (us_published s)"
        using ci ne' by (auto simp: client_inv_def Let_def)
      then have "last ?is < length (us_published s) - 1"
        using older [OF ne'] by simp
      moreover have "i \<le> last ?is"
        using ci i by (intro sorted_le_last) (auto simp: client_inv_def Let_def)
      ultimately show "i < length (us_published s) - 1" by simp
    qed
    have "v' \<noteq> v" using 2 by simp
    with fresh have "fresh env s f" by simp
    then show ?thesis
      using ci 2 took out bound version len ne
      by (auto simp: client_inv_def FlushLatest_def Let_def sorted_wrt_append intro: less_trans)
  qed
qed

lemma FlushLatest_inv:
  assumes inv: "server_inv s"
  shows "server_inv (fst (FlushLatest env s))"
proof -
  let ?s' = "fst (FlushLatest env s)"
  have "client_inv ?s' (fst c, fst (snd (latest_of env s c)))"
    if "c \<in> set (us_clients s)" "kept env s c" for c
    using flush_client_inv [OF inv, of "fst c" "snd c" env] that
    by (metis kept_def prod.collapse)
  then have "list_all (client_inv ?s') (us_clients ?s')"
    by (simp add: FlushLatest_def list_all_iff)
  moreover have "distinct (map fst (us_clients ?s'))"
    using inv by (simp add: FlushLatest_def server_inv_def comp_def distinct_map_filter)
  ultimately show ?thesis
    using inv by (simp add: server_inv_def FlushLatest_def)
qed

lemma client_inv_publish:
  assumes "client_inv s c"
  shows "client_inv (s\<lparr>us_latest := m, us_latest_version := n, us_published := us_published s @ [m]\<rparr>) c"
proof -
  let ?is = "us_sent_list s (fst c)"
  have "(us_published s @ [m]) ! last ?is = us_published s ! last ?is" if "?is \<noteq> []"
    using assms that by (simp add: client_inv_def Let_def nth_append)
  moreover have "concat (map ((!) (us_published s @ [m])) ?is) = concat (map ((!) (us_published s)) ?is)"
    using assms by (intro arg_cong [where f = concat] map_nth_append) (simp add: client_inv_def Let_def)
  ultimately show ?thesis
    using assms by (auto simp: client_inv_def Let_def less_Suc_eq)
qed

lemma PublishLatest_inv: "server_inv s \<Longrightarrow> server_inv (fst (PublishLatest env m s))"
  unfolding PublishLatest_def
  by (rule FlushLatest_inv) (auto simp: server_inv_def list_all_iff client_inv_publish)

lemma client_inv_other:
  "us_sent_list s' (fst c) = us_sent_list s (fst c) \<Longrightarrow> us_published s' = us_published s \<Longrightarrow>
   us_written s' (fst c) = us_written s (fst c) \<Longrightarrow> suffix (us_unread s' (fst c)) (us_unread s (fst c)) \<Longrightarrow>
   client_inv s c \<Longrightarrow> client_inv s' c"
  unfolding client_inv_def Let_def using suffix_order.trans by auto

lemma server_inv_fewer:
  assumes "server_inv s"
    and "us_published s' = us_published s" "us_latest s' = us_latest s"
    and "us_latest_version s' = us_latest_version s" "us_written s' = us_written s"
    and "\<And>f. suffix (us_unread s' f) (us_unread s f)" "us_sent_list s' = us_sent_list s"
    and "us_clients s' = filter P (us_clients s)"
  shows "server_inv s'"
proof -
  have "client_inv s' c" if "c \<in> set (us_clients s)" for c
    by (rule client_inv_other [where s = s]) (use assms that in \<open>auto simp: server_inv_def list_all_iff\<close>)
  then show ?thesis
    using assms by (auto simp: server_inv_def list_all_iff distinct_map_filter)
qed

lemma AcceptClient_inv: "server_inv s \<Longrightarrow> server_inv (fst (AcceptClient env f s))"
proof -
  assume inv: "server_inv s"
  let ?s = "s\<lparr>us_clients := us_clients s @ [(f, 0)], us_written := (us_written s)(f := []),
              us_unread := (us_unread s)(f := []), us_sent_list := (us_sent_list s)(f := [])\<rparr>"
  have "server_inv ?s" if new: "f \<notin> fst ` set (us_clients s)"
  proof -
    have "client_inv ?s c" if c: "c \<in> set (us_clients s)" for c
    proof -
      have "fst c \<noteq> f" using c new by auto
      then show ?thesis
        by (intro client_inv_other [where s = s and s' = ?s])
           (use inv c in \<open>auto simp: server_inv_def list_all_iff\<close>)
    qed
    moreover have "client_inv ?s (f, 0)" by (simp add: client_inv_def)
    ultimately show ?thesis
      using inv new by (auto simp: server_inv_def list_all_iff)
  qed
  with inv show ?thesis by (simp add: AcceptClient_def FlushLatest_inv)
qed

lemma HandleClientExit_inv: "server_inv s \<Longrightarrow> server_inv (fst (HandleClientExit f s))"
  by (erule server_inv_fewer) (auto simp: HandleClientExit_def)

lemma join_clients_inv: "server_inv s \<Longrightarrow> server_inv (fst (join_clients cs s))"
proof (induction cs s rule: join_clients.induct)
  case (2 f v rest s)
  then show ?case
    using HandleClientExit_inv [of s f] by (auto split: prod.splits)
qed simp

lemma server_inv_same:
  assumes "server_inv s" and "us_published s' = us_published s" "us_latest s' = us_latest s"
    and "us_latest_version s' = us_latest_version s" "us_written s' = us_written s"
    and "us_unread s' = us_unread s" "us_sent_list s' = us_sent_list s"
    and "us_clients s' = us_clients s \<or> us_clients s' = []"
  shows "server_inv s'"
  using assms(8)
proof
  assume "us_clients s' = us_clients s"
  with assms show ?thesis by (intro server_inv_fewer [OF assms(1), where P = "\<lambda>_. True"]) simp_all
next
  assume "us_clients s' = []"
  with assms show ?thesis by (intro server_inv_fewer [OF assms(1), where P = "\<lambda>_. False"]) simp_all
qed

lemma StopServer_inv: "server_inv s \<Longrightarrow> server_inv (fst (StopServer s))"
proof -
  assume inv: "server_inv s"
  have "server_inv (fst (join_clients cs (s\<lparr>us_running := False, us_server_fd := d, us_clients := []\<rparr>)))"
    and "server_inv (fst (join_clients cs (s\<lparr>us_running := False, us_clients := []\<rparr>)))" for cs d
    by (rule join_clients_inv, rule server_inv_same [OF inv], simp_all)+
  then show ?thesis
    by (simp add: StopServer_def Let_def split: prod.splits) (metis fst_conv)
qed

lemma StartServer_inv: "server_inv s \<Longrightarrow> server_inv (fst (StartServer e s))"
  by (cases e) (auto intro: server_inv_same)

lemma ClientReads_inv: "server_inv s \<Longrightarrow> server_inv (s\<lparr>us_unread := (us_unread s)(f := drop n (us_unread s f))\<rparr>)"
  by (rule server_inv_fewer [where P = "\<lambda>_. True"]) (auto simp: suffix_drop)

lemma callbacks_inv: "server_inv s \<Longrightarrow> server_inv (s\<lparr>us_callbacks := cs\<rparr>)"
  by (erule server_inv_same) simp_all

lemma server_inv_step: "server_inv s \<Longrightarrow> server_inv (fst (server_step s e))"
  by (cases e) (simp_all add: PublishLatest_inv AcceptClient_inv HandleClientExit_inv HandleClientRead_def
      RegisterMessageCallback_def UnregisterMessageCallback_def StopServer_inv StartServer_inv
      ClientReads_inv callbacks_inv)

interpretation snapshot: machine server_step server_inv
  by unfold_locales (rule server_inv_step)

lemma init_server_inv [simp]: "server_inv init_server"
  by (simp add: server_inv_def init_server_def)

section \<open>Properties\<close>

text \<open>The messages published in a run, in order.\<close>

definition published :: "srv_event list \<Rightarrow> bytes list" where
  "published es = List.map_filter (\<lambda>e. case e of Publish _ m \<Rightarrow> Some m | _ \<Rightarrow> None) es"

lemma published_simps [simp]:
  "published [] = []"
  "published (e # es) = (case e of Publish _ m \<Rightarrow> [m] | _ \<Rightarrow> []) @ published es"
  by (auto simp: published_def List.map_filter_simps split: srv_event.split)

lemma join_clients_published [simp]: "us_published (fst (join_clients cs s)) = us_published s"
  by (induction cs s rule: join_clients.induct) (auto simp: HandleClientExit_def split: prod.splits)

lemma server_step_published:
  "us_published (fst (server_step s e)) = us_published s @ (case e of Publish _ m \<Rightarrow> [m] | _ \<Rightarrow> [])"
proof (cases e)
  case (StartCall x)
  then show ?thesis by (cases x) simp_all
qed (auto simp: PublishLatest_def FlushLatest_def AcceptClient_def HandleClientRead_def
      HandleClientExit_def RegisterMessageCallback_def UnregisterMessageCallback_def StopServer_def
      Let_def split: prod.splits dest: arg_cong [where f = "\<lambda>x. us_published (fst x)"])

lemma run_published: "us_published (fst (run server_step s es)) = us_published s @ published es"
  by (induction es arbitrary: s) (simp_all add: server_step_published)

text \<open>
  C23: After any sequence of connections, publications, reads and disconnections, what has been
  written to a connected client is a series of whole published messages, each at most once and
  in the order of publication, and what the client has not read yet is the rest of the last
  one of them: the client never holds two snapshots, and never a part of a message followed by another.
\<close>

theorem client_gets_whole_snapshots:
  assumes "(f, v) \<in> set (us_clients (fst (run server_step init_server es)))"
  shows "\<exists>js. sorted_wrt (<) js \<and> (\<forall>j \<in> set js. j < length (published es)) \<and>
     us_written (fst (run server_step init_server es)) f = concat (map (\<lambda>j. published es ! j) js) \<and>
     suffix (us_unread (fst (run server_step init_server es)) f)
       (if js = [] then [] else published es ! last js)"
proof -
  let ?s = "fst (run server_step init_server es)"
  have "client_inv ?s (f, v)"
    using snapshot.inv_run [OF init_server_inv, of es] assms by (auto simp: server_inv_def list_all_iff)
  moreover have "us_published ?s = published es"
    by (simp add: run_published) (simp add: init_server_def)
  ultimately show ?thesis
    by (intro exI [of _ "us_sent_list ?s f"]) (auto simp: client_inv_def Let_def)
qed

definition snapshot_run :: "srv_event list" where
  "snapshot_run = [StartCall (Listens 3), Publish (\<lambda>_. IoctlFails) ''a'',
     Accept (\<lambda>_. SendReturns (Sent 1)) 7, Publish (\<lambda>_. SendReturns (Sent 2)) ''bc'',
     ClientReads 7 1, Publish (\<lambda>_. SendReturns (Sent 1)) ''d'']"

theorem client_gets_whole_snapshots_witness:
  "\<exists>js. sorted_wrt (<) js \<and> list_all (\<lambda>j. j < length (published snapshot_run)) js \<and>
     us_written (fst (run server_step init_server snapshot_run)) 7 = concat (map (\<lambda>j. published snapshot_run ! j) js) \<and>
     suffix (us_unread (fst (run server_step init_server snapshot_run)) 7)
       (if js = [] then [] else published snapshot_run ! last js)"
  unfolding list_all_iff
  by (rule client_gets_whole_snapshots [where v = 3]) code_simp

lemma published_version:
  assumes "server_inv s" "(f, v) \<in> set (us_clients s)" "Suc (length (us_published s)) < 2 ^ 64"
  shows "v \<noteq> us_latest_version s + 1" "us_latest_version s + 1 \<noteq> 0"
proof -
  let ?n = "length (us_published s)"
  have lv: "us_latest_version s + 1 = of_nat (Suc ?n)"
    using assms(1) by (simp add: server_inv_def)
  have small: "of_nat a \<noteq> (of_nat (Suc ?n) :: version)" if "a \<le> ?n" for a
  proof
    assume "of_nat a = (of_nat (Suc ?n) :: version)"
    then have "unat (of_nat a :: version) = unat (of_nat (Suc ?n) :: version)" by simp
    with that assms(3) show False by (simp add: unat_of_nat del: of_nat_Suc)
  qed
  have "0 \<noteq> (of_nat (Suc ?n) :: version)"
    using small [of 0] unfolding semiring_1_class.of_nat_0 by blast
  then show "us_latest_version s + 1 \<noteq> 0" unfolding lv by (rule not_sym)
  have "client_inv s (f, v)"
    using assms by (auto simp: server_inv_def list_all_iff)
  then have "\<exists>a. v = of_nat a \<and> a \<le> ?n"
  proof (cases "us_sent_list s f = []")
    case True
    then have "v = of_nat 0" using \<open>client_inv s (f, v)\<close> by (simp add: client_inv_def)
    then show ?thesis by blast
  next
    case False
    then show ?thesis
      using \<open>client_inv s (f, v)\<close>
      by (intro exI [of _ "Suc (last (us_sent_list s f))"])
         (simp add: client_inv_def Let_def Suc_le_eq)
  qed
  with small lv show "v \<noteq> us_latest_version s + 1" by metis
qed

text \<open>
  Freshness: as long as fewer than \<open>2^64 - 1\<close> messages have been published, a message
  published while a connected client has read everything it was sent, and while the kernel has
  room for the message, reaches that client at once and whole, and the client stays connected.
\<close>

theorem publish_reaches_idle_client:
  assumes "s = fst (run server_step init_server es)" and "Suc (length (published es)) < 2 ^ 64"
    and "f \<in> fst ` set (us_clients s)" and "us_unread s f = []"
    and "env f = SendReturns (Sent (length m))"
  shows "f \<in> fst ` set (us_clients (fst (server_step s (Publish env m)))) \<and>
     us_unread (fst (server_step s (Publish env m))) f = m \<and>
     us_written (fst (server_step s (Publish env m))) f = us_written s f @ m"
proof -
  let ?s = "s\<lparr>us_latest := m, us_latest_version := us_latest_version s + 1,
              us_published := us_published s @ [m]\<rparr>"
  obtain v where c: "(f, v) \<in> set (us_clients s)" using assms(3) by auto
  have inv: "server_inv s"
    using snapshot.inv_run [OF init_server_inv] assms(1) by simp
  have "us_published s = published es"
    using assms(1) by (simp add: run_published) (simp add: init_server_def)
  then have "v \<noteq> us_latest_version s + 1" "us_latest_version s + 1 \<noteq> 0"
    using published_version [OF inv c] assms(2) by auto
  then have l: "latest_of env ?s (f, v) = (True, us_latest_version s + 1, m)"
    using assms(4,5) by (simp add: latest_of_def)
  moreover have "map_of (us_clients ?s) f = Some v"
    using inv c by (simp add: server_inv_def)
  ultimately have "took env ?s f = m" and "kept env ?s (f, v)"
    by (simp_all add: took_def kept_def)
  then show ?thesis
    using c assms(4) by (force simp: PublishLatest_def FlushLatest_def image_iff)
qed

theorem publish_reaches_idle_client_witness:
  "7 \<in> fst ` set (us_clients (fst (server_step (fst (run server_step init_server
       [StartCall (Listens 3), Accept (\<lambda>_. IoctlFails) 7])) (Publish (\<lambda>_. SendReturns (Sent 2)) ''ab'')))) \<and>
   us_unread (fst (server_step (fst (run server_step init_server
       [StartCall (Listens 3), Accept (\<lambda>_. IoctlFails) 7])) (Publish (\<lambda>_. SendReturns (Sent 2)) ''ab''))) 7 = ''ab'' \<and>
   us_written (fst (server_step (fst (run server_step init_server
       [StartCall (Listens 3), Accept (\<lambda>_. IoctlFails) 7])) (Publish (\<lambda>_. SendReturns (Sent 2)) ''ab''))) 7 =
     us_written (fst (run server_step init_server [StartCall (Listens 3), Accept (\<lambda>_. IoctlFails) 7])) 7 @ ''ab''"
  by (rule publish_reaches_idle_client [OF refl]) (simp, code_simp+)

text \<open>
  \<open>Write\<close> on the results of its \<open>send\<close> loops: every client that stays connected has got
  the whole message appended to its stream, and a client that got less has left the map and its
  socket is shut down.
\<close>

theorem write_whole_or_dropped:
  assumes "\<forall>f. WriteAll (answers f) m 0 = Some (outcome f)" and "f \<in> fst ` set (us_clients s)"
  shows "if f \<in> fst ` set (us_clients (fst (Write outcome s)))
     then us_written (fst (Write outcome s)) f = us_written s f @ m
     else (\<exists>p. strict_prefix p m \<and> us_written (fst (Write outcome s)) f = us_written s f @ p) \<and>
       ShutdownFd f \<in> set (snd (Write outcome s))"
proof -
  obtain ok out where o: "outcome f = (ok, out)" by (cases "outcome f")
  with assms(1) have "WriteAll (answers f) m 0 = Some (ok, out)" by metis
  from WriteAll_prefix [OF this] have "prefix out m \<and> (ok \<longleftrightarrow> out = m)" by simp
  with assms(2) o show ?thesis
    by (auto simp: Write_def image_iff strict_prefix_def)
qed

theorem write_whole_or_dropped_witness:
  "if 7 \<in> fst ` set (us_clients (fst (Write (\<lambda>_. (False, ''a'')) (init_server\<lparr>us_clients := [(7, 0)]\<rparr>))))
   then us_written (fst (Write (\<lambda>_. (False, ''a'')) (init_server\<lparr>us_clients := [(7, 0)]\<rparr>))) 7 =
          us_written (init_server\<lparr>us_clients := [(7, 0)]\<rparr>) 7 @ ''abc''
   else (\<exists>p. strict_prefix p ''abc'' \<and> us_written (fst (Write (\<lambda>_. (False, ''a'')) (init_server\<lparr>us_clients := [(7, 0)]\<rparr>))) 7 =
            us_written (init_server\<lparr>us_clients := [(7, 0)]\<rparr>) 7 @ p) \<and>
     ShutdownFd 7 \<in> set (snd (Write (\<lambda>_. (False, ''a'')) (init_server\<lparr>us_clients := [(7, 0)]\<rparr>)))"
  by (rule write_whole_or_dropped [where answers = "\<lambda>_. [EINTR_result, Sent 1, Error_result]"])
     (simp_all add: WriteAll.simps)

lemma join_clients_closes:
  "count_out ((=) (CloseFd f)) (snd (join_clients cs s)) = 2 * length (filter (\<lambda>c. fst c = f) cs)"
  by (induction cs s rule: join_clients.induct) (auto simp: HandleClientExit_def split: prod.splits)

lemma count_out_none: "\<forall>x \<in> set xs. \<not> p x \<Longrightarrow> count_out p xs = 0"
  by (simp add: count_out_def filter_empty_conv)

text \<open>
  \<open>Stop\<close> closes the descriptor of every connected client twice: the client's thread closes
  it when its \<open>read\<close> returns, and \<open>Stop\<close> closes it again after joining that thread, when the
  number may already belong to another file.
\<close>

theorem stop_closes_clients_twice:
  assumes "s = fst (run server_step init_server es)" and "f \<in> fst ` set (us_clients s)" and "f \<noteq> us_server_fd s"
  shows "count_out ((=) (CloseFd f)) (snd (StopServer s)) = 2"
proof -
  have "distinct (map fst (us_clients s))"
    using snapshot.inv_run [OF init_server_inv, of es] assms(1) by (simp add: server_inv_def)
  with assms(2) have "length (filter (\<lambda>c. fst c = f) (us_clients s)) = 1"
    by (simp add: one_entry)
  then show ?thesis
    using assms(3)
    by (simp add: StopServer_def Let_def case_prod_unfold join_clients_closes count_out_none)
qed

theorem stop_closes_clients_twice_witness:
  "count_out ((=) (CloseFd 7)) (snd (StopServer (fst (run server_step init_server
     [StartCall (Listens 3), Accept (\<lambda>_. IoctlFails) 7])))) = 2"
  by (rule stop_closes_clients_twice [OF refl]) code_simp+

end
