(* ===== verification/Endpoints.thy ===== *)
theory Endpoints
  imports UnixSocket Complex_Main
begin

text \<open>
  The endpoints served on unix sockets (src/src/ipc): \<open>IpcEndpoint\<close>, which passes
  opaque bytes through; \<open>GamepadEndpoint\<close>, which keeps the last report of every
  gamepad and publishes snapshots of those still sending; and \<open>EndpointRegistry\<close>, which
  finds an endpoint by its name. The protobuf parser of \<open>InputReport\<close> and the JSON
  printer are third-party code, passed in as an \<open>input_codec\<close>.
\<close>

section \<open>JSON values (ordered_json)\<close>

datatype json =
    JNumber rat
  | JBool bool
  | JString string
  | JArray "json list"
  | JObject "(string \<times> json) list"

text \<open>\<open>obj[key] = value\<close> on an ordered object: replaced in place, or appended.\<close>

fun json_set :: "string \<Rightarrow> json \<Rightarrow> (string \<times> json) list \<Rightarrow> (string \<times> json) list" where
  "json_set k v [] = [(k, v)]"
| "json_set k v ((k', v') # rest) = (if k' = k then (k, v) # rest else (k', v') # json_set k v rest)"

lemma json_set_new: "k \<notin> fst ` set kvs \<Longrightarrow> json_set k v kvs = kvs @ [(k, v)]"
  by (induction kvs) auto

lemma fold_json_set:
  "distinct (map fst xs) \<Longrightarrow> fst ` set xs \<inter> fst ` set acc = {} \<Longrightarrow>
   fold (\<lambda>(k, g). json_set k (f g)) xs acc = acc @ map (\<lambda>(k, g). (k, f g)) xs"
proof (induction xs arbitrary: acc)
  case (Cons x xs)
  then show ?case by (cases x) (auto simp: json_set_new)
qed simp

section \<open>Gamepad reports (gamepad_endpoint.cpp)\<close>

text \<open>A C++ \<open>float\<close>: negative zero compares equal to zero, so it is \<open>Finite 0\<close>.\<close>

datatype float32 = Finite rat | Infinite bool | NaN

record timestamp =
  monotonic_ns :: int
  unix_ns :: "int option"

record gamepad_state =
  left_x :: float32
  left_y :: float32
  right_x :: float32
  right_y :: float32
  left_trigger :: float32
  right_trigger :: float32
  buttons :: "32 word"
  standard_mapping :: bool

record input_report =
  sequence :: int
  timestamp :: "timestamp option"
  gamepad :: "gamepad_state option"

text \<open>
  The third-party code: \<open>ParseInput\<close> is \<open>InputReport::ParseFromString\<close>,
  \<open>Shortest\<close> the shortest decimal that reads back as the float (\<open>to_chars\<close>, then
  \<open>from_chars\<close>), \<open>Dump\<close> the JSON printer.
\<close>

record input_codec =
  ParseInput :: "bytes \<Rightarrow> input_report option"
  Shortest :: "rat \<Rightarrow> rat"
  Dump :: "json \<Rightarrow> bytes"

definition kTimeout :: time where
  "kTimeout = 500 * 1000000"

definition kButtonNames :: "string list" where
  "kButtonNames =
     [''a'', ''b'', ''x'', ''y'', ''lb'', ''rb'', ''lt'', ''rt'', ''back'', ''start'', ''l3'', ''r3'',
      ''dpad_up'', ''dpad_down'', ''dpad_left'', ''dpad_right'', ''guide'']"

fun ClampForJson :: "input_codec \<Rightarrow> float32 \<Rightarrow> rat \<Rightarrow> rat \<Rightarrow> rat" where
  "ClampForJson c value lo hi =
     (let v = (case value of Finite r \<Rightarrow> r | _ \<Rightarrow> 0)
      in Shortest c (if v < lo then lo else if hi < v then hi else v))"

definition pressed :: "32 word \<Rightarrow> string list" where
  "pressed b = map (\<lambda>i. kButtonNames ! i) (filter (\<lambda>i. bit b i) [0..<length kButtonNames])"

definition ToJson :: "input_codec \<Rightarrow> input_report \<Rightarrow> gamepad_state \<Rightarrow> json" where
  "ToJson c report pad = JObject
     ([(''sequence'', JNumber (of_int (sequence report)))] @
      (case timestamp report of
         None \<Rightarrow> []
       | Some t \<Rightarrow> [(''timestamp'', JObject ((''monotonic_ns'', JNumber (of_int (monotonic_ns t))) #
           (case unix_ns t of None \<Rightarrow> [] | Some u \<Rightarrow> [(''unix_ns'', JNumber (of_int u))])))]) @
      [(''left_x'', JNumber (ClampForJson c (left_x pad) (-1) 1)),
       (''left_y'', JNumber (ClampForJson c (left_y pad) (-1) 1)),
       (''right_x'', JNumber (ClampForJson c (right_x pad) (-1) 1)),
       (''right_y'', JNumber (ClampForJson c (right_y pad) (-1) 1)),
       (''left_trigger'', JNumber (ClampForJson c (left_trigger pad) 0 1)),
       (''right_trigger'', JNumber (ClampForJson c (right_trigger pad) 0 1)),
       (''buttons'', JNumber (of_int (uint (buttons pad)))),
       (''pressed'', JArray (map JString (pressed (buttons pad)))),
       (''standard_mapping'', JBool (standard_mapping pad))])"

record pad =
  pad_state :: json
  last_received :: time

record gamepad_ep =
  gp_server :: server
  gp_pads :: "(string, pad) omap"

definition PruneLocked :: "time \<Rightarrow> (string, pad) omap \<Rightarrow> (string, pad) omap" where
  "PruneLocked now pads = filter (\<lambda>(_, g). \<not> (now - last_received g > kTimeout)) pads"

definition Snapshot :: "time \<Rightarrow> (string, pad) omap \<Rightarrow> json" where
  "Snapshot now pads = JObject
     [(''device_monotonic_ns'', JNumber (of_int now)),
      (''gamepads'', JObject (fold (\<lambda>(k, g). json_set k (pad_state g)) pads []))]"

definition PublishLocked ::
    "input_codec \<Rightarrow> (fd \<Rightarrow> latest_env) \<Rightarrow> time \<Rightarrow> gamepad_ep \<Rightarrow> gamepad_ep \<times> srv_out list" where
  "PublishLocked c env now g =
     (case PublishLatest env (Dump c (Snapshot now (gp_pads g)) @ [CHR 0x0A]) (gp_server g) of
        (srv, os) \<Rightarrow> (g\<lparr>gp_server := srv\<rparr>, os))"

definition GamepadStart ::
    "input_codec \<Rightarrow> (fd \<Rightarrow> latest_env) \<Rightarrow> start_env \<Rightarrow> time \<Rightarrow> gamepad_ep \<Rightarrow> gamepad_ep \<times> srv_out list" where
  "GamepadStart c env st now g =
     (case PublishLocked c env now g of
        (g1, os1) \<Rightarrow> (case StartServer st (gp_server g1) of
          (srv, os2) \<Rightarrow> (g1\<lparr>gp_server := srv\<rparr>, os1 @ os2)))"

definition GamepadStop :: "gamepad_ep \<Rightarrow> gamepad_ep \<times> srv_out list" where
  "GamepadStop g = (case StopServer (gp_server g) of (srv, os) \<Rightarrow> (g\<lparr>gp_server := srv\<rparr>, os))"

definition GamepadWrite ::
    "input_codec \<Rightarrow> (fd \<Rightarrow> latest_env) \<Rightarrow> time \<Rightarrow> string \<Rightarrow> bytes \<Rightarrow> gamepad_ep \<Rightarrow> gamepad_ep \<times> srv_out list" where
  "GamepadWrite c env now remote_id payload g =
     (case ParseInput c payload of
        None \<Rightarrow> (g, [])
      | Some report \<Rightarrow>
          (case gamepad report of
             None \<Rightarrow> (g, [])
           | Some pad \<Rightarrow>
               (let pads = omap_put remote_id \<lparr>pad_state = ToJson c report pad, last_received = now\<rparr> (gp_pads g)
                in PublishLocked c env now (g\<lparr>gp_pads := PruneLocked now pads\<rparr>))))"

definition GamepadOnRemoteClosed ::
    "input_codec \<Rightarrow> (fd \<Rightarrow> latest_env) \<Rightarrow> time \<Rightarrow> string \<Rightarrow> gamepad_ep \<Rightarrow> gamepad_ep \<times> srv_out list" where
  "GamepadOnRemoteClosed c env now remote_id g =
     (if omap_get (gp_pads g) remote_id = None then (g, [])
      else PublishLocked c env now (g\<lparr>gp_pads := PruneLocked now (omap_del remote_id (gp_pads g))\<rparr>))"

section \<open>Endpoints and their registry\<close>

datatype endpoint = IpcEndpoint server | GamepadEndpoint gamepad_ep

fun endpoint_name :: "endpoint \<Rightarrow> string" where
  "endpoint_name (IpcEndpoint _) = ''''"
| "endpoint_name (GamepadEndpoint _) = ''gamepad''"

text \<open>What the clock and the kernel answer during one call.\<close>

record ep_env =
  ee_now :: time
  ee_latest :: "fd \<Rightarrow> latest_env"
  ee_outcome :: "fd \<Rightarrow> bool \<times> bytes"
  ee_start :: start_env

definition on_ipc :: "(server \<Rightarrow> server \<times> srv_out list) \<Rightarrow> server \<Rightarrow> endpoint \<times> srv_out list" where
  "on_ipc f srv = (case f srv of (srv', os) \<Rightarrow> (IpcEndpoint srv', os))"

definition on_gamepad :: "(gamepad_ep \<Rightarrow> gamepad_ep \<times> srv_out list) \<Rightarrow> gamepad_ep \<Rightarrow> endpoint \<times> srv_out list" where
  "on_gamepad f g = (case f g of (g', os) \<Rightarrow> (GamepadEndpoint g', os))"

fun EndpointStart :: "input_codec \<Rightarrow> ep_env \<Rightarrow> endpoint \<Rightarrow> endpoint \<times> srv_out list" where
  "EndpointStart c env (IpcEndpoint srv) = on_ipc (StartServer (ee_start env)) srv"
| "EndpointStart c env (GamepadEndpoint g) = on_gamepad (GamepadStart c (ee_latest env) (ee_start env) (ee_now env)) g"

fun EndpointStop :: "endpoint \<Rightarrow> endpoint \<times> srv_out list" where
  "EndpointStop (IpcEndpoint srv) = on_ipc StopServer srv"
| "EndpointStop (GamepadEndpoint g) = on_gamepad GamepadStop g"

fun EndpointWrite :: "input_codec \<Rightarrow> ep_env \<Rightarrow> string \<Rightarrow> bytes \<Rightarrow> endpoint \<Rightarrow> endpoint \<times> srv_out list" where
  "EndpointWrite c env remote_id payload (IpcEndpoint srv) = on_ipc (Write (ee_outcome env)) srv"
| "EndpointWrite c env remote_id payload (GamepadEndpoint g) =
     on_gamepad (GamepadWrite c (ee_latest env) (ee_now env) remote_id payload) g"

fun EndpointOnRemoteClosed :: "input_codec \<Rightarrow> ep_env \<Rightarrow> string \<Rightarrow> endpoint \<Rightarrow> endpoint \<times> srv_out list" where
  "EndpointOnRemoteClosed c env remote_id (IpcEndpoint srv) = (IpcEndpoint srv, [])"
| "EndpointOnRemoteClosed c env remote_id (GamepadEndpoint g) =
     on_gamepad (GamepadOnRemoteClosed c (ee_latest env) (ee_now env) remote_id) g"

fun EndpointRegister :: "string \<Rightarrow> endpoint \<Rightarrow> endpoint \<times> srv_out list" where
  "EndpointRegister i (IpcEndpoint srv) = (IpcEndpoint (RegisterMessageCallback i srv), [])"
| "EndpointRegister i (GamepadEndpoint g) = (GamepadEndpoint g, [])"

fun EndpointUnregister :: "string \<Rightarrow> endpoint \<Rightarrow> endpoint \<times> srv_out list" where
  "EndpointUnregister i (IpcEndpoint srv) = (IpcEndpoint (UnregisterMessageCallback i srv), [])"
| "EndpointUnregister i (GamepadEndpoint g) = (GamepadEndpoint g, [])"

type_synonym registry = "(string, endpoint) omap"

text \<open>A range-for over the map, in the order of the names.\<close>

fun each_endpoint :: "(string \<Rightarrow> endpoint \<Rightarrow> endpoint \<times> srv_out list) \<Rightarrow> registry \<Rightarrow> registry \<times> srv_out list" where
  "each_endpoint f [] = ([], [])"
| "each_endpoint f ((name, e) # rest) =
     (case f name e of (e', os1) \<Rightarrow> (case each_endpoint f rest of (rest', os2) \<Rightarrow> ((name, e') # rest', os1 @ os2)))"

definition RegistryAdd :: "endpoint option \<Rightarrow> registry \<Rightarrow> registry" where
  "RegistryAdd endpoint reg =
     (case endpoint of None \<Rightarrow> reg | Some e \<Rightarrow> omap_put (endpoint_name e) e reg)"

definition RegistryWrite ::
    "input_codec \<Rightarrow> ep_env \<Rightarrow> string \<Rightarrow> string \<Rightarrow> bytes \<Rightarrow> registry \<Rightarrow> bool \<times> registry \<times> srv_out list" where
  "RegistryWrite c env name remote_id payload reg =
     (case omap_get reg name of
        None \<Rightarrow> (False, reg, [])
      | Some e \<Rightarrow> (case EndpointWrite c env remote_id payload e of
                    (e', os) \<Rightarrow> (True, omap_put name e' reg, os)))"

definition RegistryOnRemoteClosed ::
    "input_codec \<Rightarrow> (string \<Rightarrow> ep_env) \<Rightarrow> string \<Rightarrow> registry \<Rightarrow> registry \<times> srv_out list" where
  "RegistryOnRemoteClosed c env remote_id = each_endpoint (\<lambda>name. EndpointOnRemoteClosed c (env name) remote_id)"

definition RegistryRegister :: "string \<Rightarrow> registry \<Rightarrow> registry \<times> srv_out list" where
  "RegistryRegister i = each_endpoint (\<lambda>_. EndpointRegister i)"

definition RegistryUnregister :: "string \<Rightarrow> registry \<Rightarrow> registry \<times> srv_out list" where
  "RegistryUnregister i = each_endpoint (\<lambda>_. EndpointUnregister i)"

definition StartAll :: "input_codec \<Rightarrow> (string \<Rightarrow> ep_env) \<Rightarrow> registry \<Rightarrow> registry \<times> srv_out list" where
  "StartAll c env = each_endpoint (\<lambda>name. EndpointStart c (env name))"

definition StopAll :: "registry \<Rightarrow> registry \<times> srv_out list" where
  "StopAll = each_endpoint (\<lambda>_. EndpointStop)"

section \<open>Which gamepads a snapshot lists\<close>

datatype gp_event =
    PadWrite "fd \<Rightarrow> latest_env" time string bytes
  | PadClosed "fd \<Rightarrow> latest_env" time string

fun pad_time :: "gp_event \<Rightarrow> time" where
  "pad_time (PadWrite _ t _ _) = t"
| "pad_time (PadClosed _ t _) = t"

fun gamepad_step :: "input_codec \<Rightarrow> gamepad_ep \<Rightarrow> gp_event \<Rightarrow> gamepad_ep \<times> srv_out list" where
  "gamepad_step c g (PadWrite env now remote_id payload) = GamepadWrite c env now remote_id payload g"
| "gamepad_step c g (PadClosed env now remote_id) = GamepadOnRemoteClosed c env now remote_id g"

definition valid_report :: "input_codec \<Rightarrow> bytes \<Rightarrow> json option" where
  "valid_report c payload =
     (case ParseInput c payload of None \<Rightarrow> None
      | Some report \<Rightarrow> map_option (ToJson c report) (gamepad report))"

text \<open>The reference: the last report of every gamepad not closed since, never pruned.\<close>

fun last_reports :: "input_codec \<Rightarrow> gp_event list \<Rightarrow> (string, pad) omap \<Rightarrow> (string, pad) omap" where
  "last_reports c [] h = h"
| "last_reports c (PadWrite env now r payload # es) h =
     last_reports c es (case valid_report c payload of None \<Rightarrow> h
       | Some j \<Rightarrow> omap_put r \<lparr>pad_state = j, last_received = now\<rparr> h)"
| "last_reports c (PadClosed env now r # es) h = last_reports c es (omap_del r h)"

lemma PruneLocked_ok [simp]: "omap_ok h \<Longrightarrow> omap_ok (PruneLocked now h)"
  by (simp add: PruneLocked_def omap_filter_ok)

lemma PruneLocked_get:
  "omap_ok h \<Longrightarrow> omap_get (PruneLocked now h) k =
     (case omap_get h k of None \<Rightarrow> None
      | Some g \<Rightarrow> if now - last_received g > kTimeout then None else Some g)"
  using omap_get_filter [of h "\<lambda>_ g. \<not> (now - last_received g > kTimeout)" k]
  by (simp add: PruneLocked_def split: option.splits)

lemma Prune_put:
  "omap_ok h \<Longrightarrow> p \<le> now \<Longrightarrow>
   PruneLocked now (omap_put r x (PruneLocked p h)) = PruneLocked now (omap_put r x h)"
  by (rule omap_ext) (auto simp: PruneLocked_get split: option.splits)

lemma Prune_del:
  "omap_ok h \<Longrightarrow> p \<le> now \<Longrightarrow>
   PruneLocked now (omap_del r (PruneLocked p h)) = PruneLocked now (omap_del r h)"
  by (rule omap_ext) (auto simp: PruneLocked_get split: option.splits)

lemma Prune_del_absent:
  "omap_ok h \<Longrightarrow> omap_get (PruneLocked p h) r = None \<Longrightarrow> PruneLocked p (omap_del r h) = PruneLocked p h"
  by (rule omap_ext) (auto simp: PruneLocked_get split: option.splits)

definition pads_track :: "time \<Rightarrow> (string, pad) omap \<Rightarrow> gamepad_ep \<Rightarrow> bool" where
  "pads_track p h g \<longleftrightarrow> omap_ok h \<and> gp_pads g = PruneLocked p h"

lemma PublishLocked_pads [simp]: "gp_pads (fst (PublishLocked c env now g)) = gp_pads g"
  by (simp add: PublishLocked_def split: prod.splits)

lemma PublishLocked_latest [simp]:
  "us_latest (gp_server (fst (PublishLocked c env now g))) = Dump c (Snapshot now (gp_pads g)) @ [CHR 0x0A]"
  by (auto simp: PublishLocked_def PublishLatest_def FlushLatest_def split: prod.splits)

lemma GamepadWrite_valid:
  "valid_report c payload = Some j \<Longrightarrow>
   GamepadWrite c env now r payload g =
     PublishLocked c env now (g\<lparr>gp_pads :=
       PruneLocked now (omap_put r \<lparr>pad_state = j, last_received = now\<rparr> (gp_pads g))\<rparr>)"
  by (auto simp: valid_report_def GamepadWrite_def split: option.splits)

lemma GamepadWrite_invalid: "valid_report c payload = None \<Longrightarrow> GamepadWrite c env now r payload g = (g, [])"
  by (auto simp: valid_report_def GamepadWrite_def split: option.splits)

lemma pads_track_step:
  assumes "pads_track p h g" "p \<le> pad_time e"
  shows "\<exists>p' \<le> pad_time e. pads_track p' (last_reports c [e] h) (fst (gamepad_step c g e))"
proof (cases e)
  case (PadWrite env now r payload)
  show ?thesis
  proof (cases "valid_report c payload")
    case None
    with assms PadWrite show ?thesis by (auto simp: GamepadWrite_invalid)
  next
    case (Some j)
    with assms PadWrite show ?thesis
      by (intro exI [of _ now]) (simp add: GamepadWrite_valid pads_track_def Prune_put)
  qed
next
  case (PadClosed env now r)
  show ?thesis
  proof (cases "omap_get (gp_pads g) r = None")
    case True
    with assms PadClosed show ?thesis
      by (intro exI [of _ p]) (simp add: GamepadOnRemoteClosed_def pads_track_def Prune_del_absent)
  next
    case False
    with assms PadClosed show ?thesis
      by (intro exI [of _ now]) (auto simp: GamepadOnRemoteClosed_def pads_track_def Prune_del)
  qed
qed

lemma last_reports_Cons: "last_reports c (e # es) h = last_reports c es (last_reports c [e] h)"
  by (cases e) auto

lemma last_reports_append: "last_reports c (xs @ ys) h = last_reports c ys (last_reports c xs h)"
proof (induction xs arbitrary: h)
  case (Cons e xs)
  then show ?case by (metis append_Cons last_reports_Cons)
qed simp

lemma pads_track_run:
  "pads_track p h g \<Longrightarrow> sorted (p # map pad_time es) \<Longrightarrow>
   \<exists>p' \<le> last (p # map pad_time es). pads_track p' (last_reports c es h) (fst (run (gamepad_step c) g es))"
proof (induction es arbitrary: p h g)
  case (Cons e es)
  have le: "p \<le> pad_time e" using Cons.prems by simp
  obtain p' where p': "p' \<le> pad_time e"
    "pads_track p' (last_reports c [e] h) (fst (gamepad_step c g e))"
    using pads_track_step [OF Cons.prems(1) le, of c] by auto
  have "sorted (p' # map pad_time es)"
    using Cons.prems(2) p'(1) by (auto intro: order_trans)
  from Cons.IH [OF p'(2) this] obtain q where
    "q \<le> last (p' # map pad_time es)" and
    "pads_track q (last_reports c (e # es) h) (fst (run (gamepad_step c) g (e # es)))"
    by (metis last_reports_Cons fst_run_Cons)
  moreover have "last (p' # map pad_time es) \<le> last (p # map pad_time (e # es))"
    using p'(1) by simp
  ultimately show ?case by (metis order_trans)
qed auto


definition demo_codec :: input_codec where
  "demo_codec = \<lparr>
     ParseInput = (\<lambda>b. if b = [] then None else Some \<lparr>sequence = 1, timestamp = None,
        gamepad = Some \<lparr>left_x = Finite 2, left_y = NaN, right_x = Finite 0, right_y = Finite (1 / 2),
          left_trigger = Finite (-1), right_trigger = Infinite True, buttons = 5, standard_mapping = True\<rparr>\<rparr>),
     Shortest = (\<lambda>r. r),
     Dump = (\<lambda>j. case j of JObject [_, (_, JObject pads)] \<Rightarrow> concat (map fst pads) | _ \<Rightarrow> [])\<rparr>"

definition demo_pads :: gamepad_ep where
  "demo_pads = \<lparr>gp_server = init_server, gp_pads = []\<rparr>"

definition demo_history :: "gp_event list" where
  "demo_history = [PadWrite (\<lambda>_. IoctlFails) 0 ''alice'' ''x'', PadWrite (\<lambda>_. IoctlFails) 400000000 ''bob'' ''x'',
     PadClosed (\<lambda>_. IoctlFails) 450000000 ''carol'']"

definition demo_report :: json where
  "demo_report = the (valid_report demo_codec ''x'')"


section \<open>Pressed buttons and clamped axes\<close>

text \<open>
  The JSON of a report names exactly the pressed buttons of the standard mapping, bit
  \<open>N\<close> for the \<open>N\<close>-th name, each once and in that order; bits past the last name are ignored.
\<close>

theorem pressed_names_set_bits:
  "subseq (pressed b) kButtonNames \<and>
   (\<forall>n < 17. (kButtonNames ! n \<in> set (pressed b)) = bit b n) \<and>
   pressed b = pressed (take_bit 17 b)"
proof (intro conjI)
  have len: "length kButtonNames = 17" by (simp add: kButtonNames_def)
  have "kButtonNames = map (\<lambda>i. kButtonNames ! i) [0..<length kButtonNames]" by (simp add: map_nth)
  then show "subseq (pressed b) kButtonNames"
    unfolding pressed_def by (metis subseq_filter_left subseq_map)
  have d: "distinct kButtonNames" by (simp add: kButtonNames_def)
  then show "\<forall>n < 17. (kButtonNames ! n \<in> set (pressed b)) = bit b n"
    by (auto simp: pressed_def len nth_eq_iff_index_eq)
  show "pressed b = pressed (take_bit 17 b)"
    by (auto simp: pressed_def len bit_take_bit_iff intro!: arg_cong [where f = "map _"] filter_cong)
qed

theorem pressed_names_set_bits_witness:
  "kButtonNames ! 2 \<in> set (pressed 5) \<and> kButtonNames ! 1 \<notin> set (pressed 5) \<and>
   pressed (131077) = pressed (take_bit 17 131077)"
proof -
  from pressed_names_set_bits [of 5]
  have "(kButtonNames ! 2 \<in> set (pressed 5)) = bit (5 :: 32 word) 2"
    "(kButtonNames ! 1 \<in> set (pressed 5)) = bit (5 :: 32 word) 1" by simp_all
  with pressed_names_set_bits [of 131077] show ?thesis by (simp add: bit_numeral_rec)
qed

section \<open>The registry keeps its names\<close>

datatype reg_event =
    RegWrite ep_env string string bytes
  | RegClosed "string \<Rightarrow> ep_env" string
  | RegRegister string
  | RegUnregister string
  | RegStart "string \<Rightarrow> ep_env"
  | RegStop

fun registry_step :: "input_codec \<Rightarrow> registry \<Rightarrow> reg_event \<Rightarrow> registry \<times> srv_out list" where
  "registry_step c reg (RegWrite env name r payload) = snd (RegistryWrite c env name r payload reg)"
| "registry_step c reg (RegClosed env r) = RegistryOnRemoteClosed c env r reg"
| "registry_step c reg (RegRegister i) = RegistryRegister i reg"
| "registry_step c reg (RegUnregister i) = RegistryUnregister i reg"
| "registry_step c reg (RegStart env) = StartAll c env reg"
| "registry_step c reg RegStop = StopAll reg"

definition registry_ok :: "string list \<Rightarrow> registry \<Rightarrow> bool" where
  "registry_ok names reg \<longleftrightarrow>
     omap_ok reg \<and> omap_keys reg = names \<and> list_all (\<lambda>(k, e). endpoint_name e = k) reg"

lemma endpoint_ops_name:
  "endpoint_name (fst (EndpointStart c env e)) = endpoint_name e"
  "endpoint_name (fst (EndpointStop e)) = endpoint_name e"
  "endpoint_name (fst (EndpointWrite c env r payload e)) = endpoint_name e"
  "endpoint_name (fst (EndpointOnRemoteClosed c env r e)) = endpoint_name e"
  "endpoint_name (fst (EndpointRegister i e)) = endpoint_name e"
  "endpoint_name (fst (EndpointUnregister i e)) = endpoint_name e"
  by (cases e; simp add: on_ipc_def on_gamepad_def split: prod.splits)+

lemma each_endpoint_map: "fst (each_endpoint f reg) = map (\<lambda>(k, e). (k, fst (f k e))) reg"
  by (induction f reg rule: each_endpoint.induct) (auto split: prod.splits)

lemma registry_ok_each:
  "(\<And>k e. endpoint_name (fst (f k e)) = endpoint_name e) \<Longrightarrow> registry_ok names reg \<Longrightarrow>
   registry_ok names (fst (each_endpoint f reg))"
  unfolding registry_ok_def each_endpoint_map omap_ok_def omap_keys_def
  by (auto simp: list_all_iff comp_def case_prod_beta)

lemma omap_put_same_keys: "omap_ok m \<Longrightarrow> omap_get m k \<noteq> None \<Longrightarrow> omap_keys (omap_put k v m) = omap_keys m"
proof (induction k v m rule: omap_put.induct)
  case (2 k v k' v' m)
  then have "k < k' \<Longrightarrow> k \<notin> set (omap_keys m)" by (auto simp: omap_ok_def omap_keys_def)
  with 2 show ?case
    by (auto simp: omap_get_def omap_keys_def omap_ok_def split: if_splits)
       (metis map_of_SomeD fst_conv image_eqI list.set_map)
qed simp

lemma omap_put_all:
  "list_all (\<lambda>(k, e). P k e) m \<Longrightarrow> P k v \<Longrightarrow> list_all (\<lambda>(k, e). P k e) (omap_put k v m)"
  by (induction k v m rule: omap_put.induct) auto

lemma registry_ok_step: "registry_ok names reg \<Longrightarrow> registry_ok names (fst (registry_step c reg e))"
proof (cases e)
  case (RegWrite env name r payload)
  assume ok: "registry_ok names reg"
  show ?thesis
  proof (cases "omap_get reg name")
    case (Some ep)
    with ok have "endpoint_name ep = name"
      by (auto simp: registry_ok_def list_all_iff omap_get_def dest: map_of_SomeD)
    then have "endpoint_name (fst (EndpointWrite c env r payload ep)) = name"
      by (simp add: endpoint_ops_name)
    then have "list_all (\<lambda>(k, e). endpoint_name e = k) (omap_put name (fst (EndpointWrite c env r payload ep)) reg)"
      using ok by (intro omap_put_all [where P = "\<lambda>k e. endpoint_name e = k"]) (auto simp: registry_ok_def)
    with ok Some RegWrite show ?thesis
      by (simp add: RegistryWrite_def registry_ok_def omap_put_same_keys case_prod_unfold)
  qed (use ok RegWrite in \<open>simp add: RegistryWrite_def\<close>)
qed (simp_all add: RegistryOnRemoteClosed_def RegistryRegister_def RegistryUnregister_def StartAll_def
      StopAll_def registry_ok_each endpoint_ops_name)

interpretation registry: machine "registry_step c" "registry_ok names" for c names
  by unfold_locales (rule registry_ok_step)

text \<open>
  The set of endpoints is fixed once they are added, and every endpoint stays under the
  name it answers to; in every state reached, a write to a name that is not served is refused
  and changes nothing, and a write to a served one is accepted and changes no other endpoint.
\<close>

theorem registry_serves_fixed_names:
  assumes "registry_ok names reg" and "reg' = fst (run (registry_step c) reg es)"
  shows "registry_ok names reg' \<and>
     (case RegistryWrite c env name r payload reg' of (served, reg'', os) \<Rightarrow>
        (if name \<in> set names
         then served \<and> (\<forall>k. k \<noteq> name \<longrightarrow> omap_get reg'' k = omap_get reg' k)
         else \<not> served \<and> reg'' = reg' \<and> os = []))"
proof
  show ok: "registry_ok names reg'"
    using registry.inv_run [OF assms(1)] assms(2) by simp
  then have "name \<in> set names \<longleftrightarrow> omap_get reg' name \<noteq> None"
    by (simp add: registry_ok_def omap_get_None_iff)
  then show "case RegistryWrite c env name r payload reg' of (served, reg'', os) \<Rightarrow>
        (if name \<in> set names
         then served \<and> (\<forall>k. k \<noteq> name \<longrightarrow> omap_get reg'' k = omap_get reg' k)
         else \<not> served \<and> reg'' = reg' \<and> os = [])"
    by (auto simp: RegistryWrite_def split: option.splits prod.splits)
qed

definition two_endpoints :: registry where
  "two_endpoints = RegistryAdd (Some (GamepadEndpoint demo_pads)) (RegistryAdd (Some (IpcEndpoint init_server)) [])"

theorem registry_serves_fixed_names_witness:
  "case RegistryWrite demo_codec \<lparr>ee_now = 0, ee_latest = \<lambda>_. IoctlFails, ee_outcome = \<lambda>_. (True, []), ee_start = SocketFails\<rparr>
     ''camera'' ''alice'' ''x''
     (fst (run (registry_step demo_codec) two_endpoints [RegRegister ''1'', RegStop])) of (served, reg'', os) \<Rightarrow>
        \<not> served \<and> reg'' = fst (run (registry_step demo_codec) two_endpoints [RegRegister ''1'', RegStop]) \<and> os = []"
proof -
  have "registry_ok [[], ''gamepad''] two_endpoints"
    by (simp add: registry_ok_def two_endpoints_def RegistryAdd_def omap_keys_def omap_ok_def)
  from registry_serves_fixed_names [OF this refl, where c = demo_codec and es = "[RegRegister ''1'', RegStop]"
      and env = "\<lparr>ee_now = 0, ee_latest = \<lambda>_. IoctlFails, ee_outcome = \<lambda>_. (True, []), ee_start = SocketFails\<rparr>"
      and name = "''camera''" and r = "''alice''" and payload = "''x''"]
  show ?thesis by (simp del: run_Cons)
qed

end
