(* ===== verification/IpcChannel.thy ===== *)
theory IpcChannel
  imports DataChannel Endpoints
begin

text \<open>
  The typed data channels of src/src/rtc/datachannel: \<open>IpcChannel\<close>, which relays payloads
  between a peer and the endpoints, drops stale packets of the lossy channel and reassembles
  chunked streams; \<open>CommandChannel\<close>, which hands requests to their handlers; and
  \<open>StreamChannel\<close>, which only sends. An exception the sources do not catch is the
  \<open>Inl\<close> of a result.
\<close>

section \<open>IpcChannel\<close>

text \<open>What \<open>std::string\<close> throws: \<open>replace\<close> past the end, and \<open>assign\<close> of more than fits.\<close>

datatype string_error = OutOfRange | LengthError

record assembly =
  buffer :: bytes
  received :: u64

record last_sequence =
  ls_sequence :: u64
  ls_received_at :: time

record ipc_chan =
  ic_role :: channel_role
  ic_id :: string
  ic_assemblies :: "(string, assembly) omap"
  ic_last :: "(string \<times> string, last_sequence) omap"
  ic_remotes :: "string list"      \<comment> \<open>a \<open>std::set\<close>, in its order\<close>

definition kSequenceResetGap :: time where
  "kSequenceResetGap = 1000000000"

definition IsOutboundSink :: "ipc_chan \<Rightarrow> bool" where
  "IsOutboundSink ch \<longleftrightarrow> ic_role ch = Reliable"

text \<open>The state the channel works on: itself, and the registry it may have been given.\<close>

type_synonym ipc_state = "ipc_chan \<times> registry option"

definition IpcChannelCreate :: "channel_role \<Rightarrow> string \<Rightarrow> registry option \<Rightarrow> ipc_state" where
  "IpcChannelCreate role i endpoints =
     (let ch = \<lparr>ic_role = role, ic_id = i, ic_assemblies = [], ic_last = [], ic_remotes = []\<rparr>
      in (ch, if IsOutboundSink ch then map_option (\<lambda>reg. fst (RegistryRegister i reg)) endpoints else endpoints))"

text \<open>
  \<open>last_sequence_[key]\<close> creates a zero entry when there is none; its time is the clock's epoch.
\<close>

definition AcceptSequence :: "time \<Rightarrow> string \<Rightarrow> string \<Rightarrow> u64 \<Rightarrow> ipc_chan \<Rightarrow> bool \<times> ipc_chan" where
  "AcceptSequence now remote_id endpoint seq ch =
     (if ic_role ch \<noteq> Lossy \<or> seq = 0 then (True, ch)
      else (let l = (case omap_get (ic_last ch) (remote_id, endpoint) of
                       None \<Rightarrow> \<lparr>ls_sequence = 0, ls_received_at = 0\<rparr> | Some l \<Rightarrow> l)
            in if seq \<le> ls_sequence l \<and> now - ls_received_at l < kSequenceResetGap
               then (False, ch\<lparr>ic_last := omap_put (remote_id, endpoint) l (ic_last ch)\<rparr>)
               else (True, ch\<lparr>ic_last := omap_put (remote_id, endpoint)
                                \<lparr>ls_sequence = seq, ls_received_at = now\<rparr> (ic_last ch)\<rparr>)))"

definition WriteToEndpoint ::
    "input_codec \<Rightarrow> ep_env \<Rightarrow> string \<Rightarrow> string \<Rightarrow> bytes \<Rightarrow> ipc_state \<Rightarrow> ipc_state \<times> srv_out list" where
  "WriteToEndpoint c env endpoint remote_id payload st =
     (case st of (ch, endpoints) \<Rightarrow>
       (case endpoints of
          None \<Rightarrow> (st, [])
        | Some reg \<Rightarrow>
            (case RegistryWrite c env endpoint remote_id payload reg of
               (served, reg', os) \<Rightarrow>
                 (if served then ((ch\<lparr>ic_remotes := insort_insert remote_id (ic_remotes ch)\<rparr>, Some reg'), os)
                  else ((ch, Some reg'), os)))))"

text \<open>\<open>max_length\<close>: the longest string the allocator gives.\<close>

definition OnStreamHeader :: "nat \<Rightarrow> string \<Rightarrow> u64 \<Rightarrow> ipc_chan \<Rightarrow> string_error + ipc_chan" where
  "OnStreamHeader max_length stream_id total_length ch =
     (if max_length < unat total_length then Inl LengthError
      else Inr (ch\<lparr>ic_assemblies := omap_put stream_id
             \<lparr>buffer = replicate (unat total_length) (CHR 0x00), received = 0\<rparr> (ic_assemblies ch)\<rparr>))"

text \<open>\<open>s.replace(pos, n, data)\<close>.\<close>

definition string_replace :: "bytes \<Rightarrow> nat \<Rightarrow> nat \<Rightarrow> bytes \<Rightarrow> string_error + bytes" where
  "string_replace s pos n data =
     (if length s < pos then Inl OutOfRange else Inr (take pos s @ data @ drop (pos + n) s))"

definition OnStreamChunk :: "string \<Rightarrow> u64 \<Rightarrow> bytes \<Rightarrow> ipc_chan \<Rightarrow> string_error + ipc_chan" where
  "OnStreamChunk stream_id offset data ch =
     (case omap_get (ic_assemblies ch) stream_id of
        None \<Rightarrow> Inr ch
      | Some a \<Rightarrow>
          (if offset + of_nat (length data) > of_nat (length (buffer a))
           then Inr (ch\<lparr>ic_assemblies := omap_del stream_id (ic_assemblies ch)\<rparr>)
           else (case string_replace (buffer a) (unat offset) (length data) data of
                   Inl e \<Rightarrow> Inl e
                 | Inr b \<Rightarrow> Inr (ch\<lparr>ic_assemblies := omap_put stream_id
                     \<lparr>buffer = b, received = received a + of_nat (length data)\<rparr> (ic_assemblies ch)\<rparr>))))"

definition OnStreamTrailer ::
    "input_codec \<Rightarrow> ep_env \<Rightarrow> string \<Rightarrow> string \<Rightarrow> string \<Rightarrow> ipc_state \<Rightarrow> ipc_state \<times> srv_out list" where
  "OnStreamTrailer c env stream_id reason remote_id st =
     (case st of (ch, endpoints) \<Rightarrow>
       (case omap_get (ic_assemblies ch) stream_id of
          None \<Rightarrow> (st, [])
        | Some a \<Rightarrow>
            (let body = (if reason \<noteq> [] then []
                         else if received a \<noteq> of_nat (length (buffer a)) then []
                         else buffer a);
                 st' = (ch\<lparr>ic_assemblies := omap_del stream_id (ic_assemblies ch)\<rparr>, endpoints)
             in if body = [] then (st', [])
                else WriteToEndpoint c env '''' remote_id body st')))"

fun OnPacket ::
    "input_codec \<Rightarrow> nat \<Rightarrow> ep_env \<Rightarrow> packet \<Rightarrow> string \<Rightarrow> ipc_state \<Rightarrow> string_error + ipc_state \<times> srv_out list" where
  "OnPacket c max_length env packet remote_id (ch, endpoints) =
     (case body packet of
        Ipc endpoint seq payload \<Rightarrow>
          (case AcceptSequence (ee_now env) remote_id endpoint seq ch of
             (accepted, ch') \<Rightarrow>
               (if \<not> accepted then Inr ((ch', endpoints), [])
                else Inr (WriteToEndpoint c env endpoint remote_id payload (ch', endpoints))))
      | Raw raw \<Rightarrow> Inr (WriteToEndpoint c env '''' remote_id raw (ch, endpoints))
      | StreamBody stream_id payload \<Rightarrow>
          (case payload of
             Header total_length _ \<Rightarrow>
               (case OnStreamHeader max_length stream_id total_length ch of
                  Inl e \<Rightarrow> Inl e | Inr ch' \<Rightarrow> Inr ((ch', endpoints), []))
           | Chunk offset data \<Rightarrow>
               (case OnStreamChunk stream_id offset data ch of
                  Inl e \<Rightarrow> Inl e | Inr ch' \<Rightarrow> Inr ((ch', endpoints), []))
           | Trailer reason \<Rightarrow> Inr (OnStreamTrailer c env stream_id reason remote_id (ch, endpoints))
           | PayloadNotSet \<Rightarrow> Inr ((ch, endpoints), []))
      | _ \<Rightarrow> Inr ((ch, endpoints), []))"

text \<open>
  \<open>SendToPeer\<close>: the packets handed to \<open>Send\<close>; \<open>stream_id\<close> is the uuid drawn for it.
\<close>

definition SendToPeer :: "bool \<Rightarrow> string \<Rightarrow> bytes \<Rightarrow> packet list" where
  "SendToPeer channel_open stream_id message =
     (if \<not> channel_open then []
      else if length message > kStreamChunkSize
      then SendStream stream_id '''' ''application/octet-stream'' message
      else [\<lparr>request_id = '''', body = Raw message\<rparr>])"

fun notify_closed :: "input_codec \<Rightarrow> (string \<Rightarrow> ep_env) \<Rightarrow> string list \<Rightarrow> registry \<Rightarrow> registry \<times> srv_out list" where
  "notify_closed c env [] reg = (reg, [])"
| "notify_closed c env (r # rs) reg =
     (case RegistryOnRemoteClosed c env r reg of (reg1, os1) \<Rightarrow>
       (case notify_closed c env rs reg1 of (reg2, os2) \<Rightarrow> (reg2, os1 @ os2)))"

definition NotifyRemotesClosed :: "input_codec \<Rightarrow> (string \<Rightarrow> ep_env) \<Rightarrow> ipc_state \<Rightarrow> ipc_state \<times> srv_out list" where
  "NotifyRemotesClosed c env st =
     (case st of (ch, endpoints) \<Rightarrow>
       (case endpoints of
          None \<Rightarrow> ((ch\<lparr>ic_remotes := []\<rparr>, None), [])
        | Some reg \<Rightarrow> (case notify_closed c env (ic_remotes ch) reg of
             (reg', os) \<Rightarrow> ((ch\<lparr>ic_remotes := []\<rparr>, Some reg'), os))))"

definition IpcChannelDestroy :: "input_codec \<Rightarrow> (string \<Rightarrow> ep_env) \<Rightarrow> ipc_state \<Rightarrow> ipc_state \<times> srv_out list" where
  "IpcChannelDestroy c env st =
     (case st of (ch, endpoints) \<Rightarrow>
        NotifyRemotesClosed c env
          (ch, if IsOutboundSink ch then map_option (\<lambda>reg. fst (RegistryUnregister (ic_id ch) reg)) endpoints
               else endpoints))"

section \<open>CommandChannel and StreamChannel\<close>

text \<open>A handler is named by what it was registered as; running it is the client's business.\<close>

type_synonym 'h handlers = "request_case \<Rightarrow> 'h list option"

definition RegisterHandler :: "request_case \<Rightarrow> 'h \<Rightarrow> 'h handlers \<Rightarrow> 'h handlers" where
  "RegisterHandler rc func handlers =
     handlers(rc \<mapsto> (case handlers rc of None \<Rightarrow> [] | Some hs \<Rightarrow> hs) @ [func])"

text \<open>The calls \<open>handler(ctx)\<close> made, with the request and its id.\<close>

definition CommandOnPacket :: "'h handlers \<Rightarrow> packet \<Rightarrow> ('h \<times> request \<times> string) list" where
  "CommandOnPacket handlers packet =
     (case body packet of
        RequestBody req \<Rightarrow>
          (case handlers (payload_case req) of
             None \<Rightarrow> []
           | Some hs \<Rightarrow> map (\<lambda>h. (h, req, request_id packet)) hs)
      | _ \<Rightarrow> [])"

definition CommandSend :: "string \<Rightarrow> response \<Rightarrow> packet" where
  "CommandSend req_id resp = \<lparr>request_id = req_id, body = ResponseBody resp\<rparr>"

definition StreamOnPacket :: "packet \<Rightarrow> packet list" where
  "StreamOnPacket packet = []"

text \<open>The overloads of \<open>StreamChannel::Send\<close>; the serialised response is an argument.\<close>

definition StreamSendQueryFile :: "string \<Rightarrow> string \<Rightarrow> bytes option \<Rightarrow> packet list" where
  "StreamSendQueryFile stream_id req_id serialized =
     (case serialized of None \<Rightarrow> [] | Some b \<Rightarrow> SendStream stream_id req_id ''application/x-protobuf'' b)"

definition StreamSendImage :: "string \<Rightarrow> string \<Rightarrow> bytes \<Rightarrow> packet list" where
  "StreamSendImage stream_id req_id jpeg = SendStream stream_id req_id ''image/jpeg'' jpeg"

definition StreamSendFile :: "string \<Rightarrow> string \<Rightarrow> ifstream \<Rightarrow> packet list" where
  "StreamSendFile stream_id req_id file = SendStreamFile stream_id req_id ''application/octet-stream'' file"

section \<open>Receiving a sequence of packets\<close>

fun on_packets ::
    "input_codec \<Rightarrow> nat \<Rightarrow> (ep_env \<times> packet \<times> string) list \<Rightarrow> ipc_state \<Rightarrow> string_error + ipc_state \<times> srv_out list" where
  "on_packets c max_length [] st = Inr (st, [])"
| "on_packets c max_length ((env, p, r) # rest) st =
     (case OnPacket c max_length env p r st of
        Inl e \<Rightarrow> Inl e
      | Inr (st1, os1) \<Rightarrow>
          (case on_packets c max_length rest st1 of
             Inl e \<Rightarrow> Inl e
           | Inr (st2, os2) \<Rightarrow> Inr (st2, os1 @ os2)))"

lemma on_packets_append:
  "on_packets c m (ps @ qs) st =
     (case on_packets c m ps st of
        Inl e \<Rightarrow> Inl e
      | Inr (st1, os1) \<Rightarrow> (case on_packets c m qs st1 of
          Inl e \<Rightarrow> Inl e | Inr (st2, os2) \<Rightarrow> Inr (st2, os1 @ os2)))"
  by (induction ps arbitrary: st) (auto split: sum.splits prod.splits)

definition of_stream :: "string \<Rightarrow> packet \<Rightarrow> bool" where
  "of_stream sid p \<longleftrightarrow> (case body p of StreamBody i _ \<Rightarrow> i = sid | _ \<Rightarrow> False)"

lemma WriteToEndpoint_assemblies [simp]:
  "ic_assemblies (fst (fst (WriteToEndpoint c env ep r payload st))) = ic_assemblies (fst st)"
  by (auto simp: WriteToEndpoint_def split: prod.splits option.splits)

lemma WriteToEndpoint_keeps:
  "WriteToEndpoint c env ep r payload st = (st', os) \<Longrightarrow> ic_assemblies (fst st') = ic_assemblies (fst st)"
  by (metis WriteToEndpoint_assemblies fst_conv)

lemma AcceptSequence_assemblies [simp]:
  "ic_assemblies (snd (AcceptSequence now r ep seq ch)) = ic_assemblies ch"
  by (auto simp: AcceptSequence_def Let_def)

lemma OnStreamTrailer_assemblies:
  "ic_assemblies (fst (fst (OnStreamTrailer c env sid reason r st))) = omap_del sid (ic_assemblies (fst st)) \<or>
   omap_get (ic_assemblies (fst st)) sid = None \<and>
   ic_assemblies (fst (fst (OnStreamTrailer c env sid reason r st))) = ic_assemblies (fst st)"
  by (cases st) (auto simp: OnStreamTrailer_def Let_def split: option.splits)

lemma OnPacket_other_stream:
  assumes "\<not> of_stream sid p" "OnPacket c m env p r st = Inr (st', os)"
  shows "omap_get (ic_assemblies (fst st')) sid = omap_get (ic_assemblies (fst st)) sid"
proof (cases st)
  case (Pair ch endpoints)
  show ?thesis
  proof (cases "body p")
    case (Ipc ep seq payload)
    obtain b ch' where acc: "AcceptSequence (ee_now env) r ep seq ch = (b, ch')" by fastforce
    then have "ic_assemblies ch' = ic_assemblies ch"
      using AcceptSequence_assemblies [of "ee_now env" r ep seq ch] by simp
    then show ?thesis
      using assms(2) Pair Ipc acc by (auto split: if_splits dest: WriteToEndpoint_keeps)
  next
    case (Raw raw)
    then show ?thesis
      using assms(2) Pair by (auto dest: WriteToEndpoint_keeps)
  next
    case (StreamBody i payload)
    with assms(1) have "sid \<noteq> i" by (auto simp: of_stream_def)
    then show ?thesis
    proof (cases payload)
      case (Trailer reason)
      then show ?thesis
        using assms(2) Pair StreamBody OnStreamTrailer_assemblies [of c env i reason r st] \<open>sid \<noteq> i\<close> by auto
    qed (use assms(2) Pair StreamBody in \<open>auto simp: OnStreamHeader_def OnStreamChunk_def
         split: if_splits option.splits sum.splits\<close>)
  qed (use assms(2) Pair in auto)
qed

section \<open>Reassembly\<close>

text \<open>The pieces that arrived, the bytes they cover, and what an assembly holds then.\<close>

definition covers :: "(nat \<times> bytes) list \<Rightarrow> nat \<Rightarrow> bool" where
  "covers D i \<longleftrightarrow> (\<exists>(pos, d) \<in> set D. pos \<le> i \<and> i < pos + length d)"

definition piece_of :: "bytes \<Rightarrow> nat \<times> bytes \<Rightarrow> bool" where
  "piece_of data x \<longleftrightarrow> (case x of (pos, d) \<Rightarrow> pos + length d \<le> length data \<and> take (length d) (drop pos data) = d)"

definition asm_inv :: "bytes \<Rightarrow> (nat \<times> bytes) list \<Rightarrow> assembly \<Rightarrow> bool" where
  "asm_inv data D a \<longleftrightarrow>
     length (buffer a) = length data \<and> received a = of_nat (sum_list (map (length \<circ> snd) D)) \<and>
     (\<forall>i < length data. buffer a ! i = (if covers D i then data ! i else CHR 0x00))"

lemma covers_append: "covers (D @ [(pos, d)]) i \<longleftrightarrow> covers D i \<or> pos \<le> i \<and> i < pos + length d"
  by (auto simp: covers_def)

lemma OnStreamChunk_piece:
  assumes a: "omap_get (ic_assemblies ch) sid = Some a" "asm_inv data D a"
    and p: "piece_of data (pos, d)" and len: "length data < 2 ^ 64"
  shows "\<exists>a'. OnStreamChunk sid (of_nat pos) d ch = Inr (ch\<lparr>ic_assemblies := omap_put sid a' (ic_assemblies ch)\<rparr>) \<and>
    asm_inv data (D @ [(pos, d)]) a'"
proof -
  let ?b = "take pos (buffer a) @ d @ drop (pos + length d) (buffer a)"
  let ?a = "\<lparr>buffer = ?b, received = received a + of_nat (length d)\<rparr>"
  have fit: "pos + length d \<le> length data" and d: "\<And>j. j < length d \<Longrightarrow> d ! j = data ! (pos + j)"
    using p by (auto simp: piece_of_def) (metis add.commute nth_drop nth_take add_leD1)
  have blen: "length (buffer a) = length data" using a(2) by (simp add: asm_inv_def)
  have "\<not> of_nat pos + of_nat (length d) > (of_nat (length (buffer a)) :: u64)"
    using fit len blen of_nat_le_64 [of "pos + length d" "length data"] by (simp add: not_less)
  moreover have "unat (of_nat pos :: u64) = pos"
    using fit len by (intro unat_of_nat_64) simp
  ultimately have "OnStreamChunk sid (of_nat pos) d ch = Inr (ch\<lparr>ic_assemblies := omap_put sid ?a (ic_assemblies ch)\<rparr>)"
    using a(1) fit blen by (simp add: OnStreamChunk_def string_replace_def)
  moreover have "?b ! i = (if covers (D @ [(pos, d)]) i then data ! i else CHR 0x00)" if "i < length data" for i
    using a(2) that fit blen d [of "i - pos"]
    by (auto simp: asm_inv_def covers_append nth_append)
  ultimately show ?thesis
    using a(2) fit blen by (intro exI [of _ ?a]) (simp add: asm_inv_def)
qed


definition chunk_packets :: "string \<Rightarrow> (nat \<times> bytes) list \<Rightarrow> packet list" where
  "chunk_packets sid ds = map (\<lambda>(i, d). SendStreamChunk sid i d) ds"

lemma chunk_packets_Cons: "chunk_packets sid ds = p # rest \<longleftrightarrow>
    (\<exists>i d ds'. ds = (i, d) # ds' \<and> p = SendStreamChunk sid i d \<and> rest = chunk_packets sid ds')"
  by (cases ds) (auto simp: chunk_packets_def)

text \<open>The chunks of one stream, whatever else arrives between them.\<close>

lemma on_packets_chunks:
  assumes "on_packets c m ps st = Inr (st', os)"
    and "filter (of_stream sid) (map (fst \<circ> snd) ps) = chunk_packets sid ds"
    and "omap_get (ic_assemblies (fst st)) sid = Some a" "asm_inv data D a"
    and "\<forall>x \<in> set ds. piece_of data x" and len: "length data < 2 ^ 64"
  shows "\<exists>a'. omap_get (ic_assemblies (fst st')) sid = Some a' \<and> asm_inv data (D @ ds) a'"
  using assms(1-5)
proof (induction ps arbitrary: st os ds a D)
  case Nil
  then show ?case by (auto simp: chunk_packets_def)
next
  case (Cons x ps)
  obtain env p r where x: "x = (env, p, r)" by (cases x)
  obtain st1 os1 os2 where step: "OnPacket c m env p r st = Inr (st1, os1)"
    and rest: "on_packets c m ps st1 = Inr (st', os2)"
    using Cons.prems(1) x by (auto split: sum.splits prod.splits)
  show ?case
  proof (cases "of_stream sid p")
    case False
    with step have "omap_get (ic_assemblies (fst st1)) sid = Some a"
      using OnPacket_other_stream Cons.prems(3) by metis
    moreover have "filter (of_stream sid) (map (fst \<circ> snd) ps) = chunk_packets sid ds"
      using Cons.prems(2) x False by (simp add: comp_def)
    ultimately show ?thesis using Cons.IH [OF rest] Cons.prems(4,5) by blast
  next
    case True
    then obtain pos d ds' where ds: "ds = (pos, d) # ds'" "p = SendStreamChunk sid pos d"
      "filter (of_stream sid) (map (fst \<circ> snd) ps) = chunk_packets sid ds'"
      using Cons.prems(2) x by (auto simp: chunk_packets_Cons comp_def dest!: sym [of "_ # _"])
    obtain ch endpoints where st: "st = (ch, endpoints)" by (cases st)
    from Cons.prems(3-5) st ds OnStreamChunk_piece [of ch sid a data D pos d, OF _ _ _ len]
    obtain a1 where a1: "OnStreamChunk sid (of_nat pos) d ch = Inr (ch\<lparr>ic_assemblies := omap_put sid a1 (ic_assemblies ch)\<rparr>)"
      "asm_inv data (D @ [(pos, d)]) a1" by auto
    then have "omap_get (ic_assemblies (fst st1)) sid = Some a1"
      using step st ds by (auto simp: SendStreamChunk_def)
    from Cons.IH [OF rest ds(3) this a1(2)] Cons.prems(5) ds show ?thesis by simp
  qed
qed

lemma cut_pieces: "x \<in> set (cut data pos) \<Longrightarrow> piece_of data x"
proof (induction data pos rule: cut.induct)
  case (1 data pos)
  show ?case
  proof (cases "pos < length data")
    case True
    with 1 show ?thesis
      by (auto simp: cut.simps [of data pos] piece_of_def min_def)
  next
    case False
    with 1 show ?thesis by (simp add: cut_done)
  qed
qed

lemma cut_covers: "pos \<le> i \<Longrightarrow> i < length data \<Longrightarrow> covers (cut data pos) i"
proof (induction data pos rule: cut.induct)
  case (1 data pos)
  then have lt: "pos < length data" by simp
  show ?case
  proof (cases "i < pos + kStreamChunkSize")
    case True
    with lt 1 show ?thesis by (auto simp: cut.simps [of data pos] covers_def)
  next
    case False
    with lt 1 show ?thesis by (simp add: cut.simps [of data pos] covers_def)
  qed
qed

lemma asm_inv_complete:
  assumes "asm_inv data D a" "mset D = mset (cut data 0)"
  shows "buffer a = data" "received a = of_nat (length (buffer a))"
proof -
  have "set D = set (cut data 0)" using assms(2) by (rule mset_eq_setD)
  then have "covers D i" if "i < length data" for i
    using cut_covers [of 0 i data] that by (simp add: covers_def)
  then show b: "buffer a = data"
    using assms(1) by (auto simp: asm_inv_def intro: nth_equalityI)
  have "sum_list (map (length \<circ> snd) D) = sum_list (map (length \<circ> snd) (cut data 0))"
    using assms(2) by (metis mset_map sum_mset_sum_list)
  also have "\<dots> = length (concat (map snd (cut data 0)))"
    by (simp add: length_concat)
  finally show "received a = of_nat (length (buffer a))"
    using assms(1) by (simp add: asm_inv_def b concat_cut)
qed

lemma OnStreamHeader_asm:
  assumes "length data \<le> m" "length data < 2 ^ 64"
  shows "\<exists>a. OnStreamHeader m sid (of_nat (length data)) ch =
      Inr (ch\<lparr>ic_assemblies := omap_put sid a (ic_assemblies ch)\<rparr>) \<and> asm_inv data [] a"
  using assms by (auto simp: OnStreamHeader_def unat_of_nat_64 asm_inv_def covers_def)

lemma trailer_delivers:
  assumes "omap_get (ic_assemblies ch) sid = Some a" "buffer a = data" "received a = of_nat (length (buffer a))"
    and "data \<noteq> []"
  shows "OnPacket c m env (SendStreamTrailer sid '''') r (ch, endpoints) =
     Inr (WriteToEndpoint c env '''' r data (ch\<lparr>ic_assemblies := omap_del sid (ic_assemblies ch)\<rparr>, endpoints))"
  using assms by (simp add: SendStreamTrailer_def OnStreamTrailer_def)


text \<open>
  C3: Reassembly: when the header of a stream and then all the chunks \<open>SendStream\<close> cuts
  the body into have arrived, in any order and with any other traffic between them (other
  streams included), the trailer hands exactly the body to the default endpoint and forgets
  the stream.
\<close>

theorem reassembles_interleaved_stream:
  assumes "data \<noteq> []" "length data < 2 ^ 64"
    and order: "mset ds = mset (cut data 0)"
    and ps: "filter (of_stream sid) (map (fst \<circ> snd) ps) =
        SendStreamHeader sid req mime (length data) # map (\<lambda>(i, d). SendStreamChunk sid i d) ds"
    and run: "on_packets c m ps st = Inr ((ch, endpoints), os)"
  shows "OnPacket c m env (SendStreamTrailer sid '''') r (ch, endpoints) =
     Inr (WriteToEndpoint c env '''' r data (ch\<lparr>ic_assemblies := omap_del sid (ic_assemblies ch)\<rparr>, endpoints))"
proof -
  obtain us x vs where split: "ps = us @ x # vs" "fst (snd x) = SendStreamHeader sid req mime (length data)"
    "filter (of_stream sid) (map (fst \<circ> snd) vs) = chunk_packets sid ds"
    using ps by (fastforce simp: filter_eq_Cons_iff map_eq_append_conv map_eq_Cons_conv chunk_packets_def)
  obtain env' p' r' where x: "x = (env', p', r')" by (cases x)
  obtain st1 os1 st2 os2 os3 where "on_packets c m us st = Inr (st1, os1)"
    and header: "OnPacket c m env' p' r' st1 = Inr (st2, os2)"
    and rest: "on_packets c m vs st2 = Inr ((ch, endpoints), os3)"
    using run split(1) x by (auto simp: on_packets_append split: sum.splits prod.splits)
  obtain ch1 ep1 where st1: "st1 = (ch1, ep1)" by (cases st1)
  have p': "p' = SendStreamHeader sid req mime (length data)" using split(2) x by simp
  have "length data \<le> m"
    using header p' st1 assms(2)
    by (auto simp: SendStreamHeader_def OnStreamHeader_def unat_of_nat_64 split: if_splits)
  from OnStreamHeader_asm [OF this assms(2), of sid ch1] obtain a where
    "OnStreamHeader m sid (of_nat (length data)) ch1 = Inr (ch1\<lparr>ic_assemblies := omap_put sid a (ic_assemblies ch1)\<rparr>)"
    "asm_inv data [] a" by auto
  then have "omap_get (ic_assemblies (fst st2)) sid = Some a" "asm_inv data [] a"
    using header p' st1 by (auto simp: SendStreamHeader_def)
  moreover have "\<forall>x \<in> set ds. piece_of data x"
    using cut_pieces mset_eq_setD [OF order] by auto
  ultimately obtain a' where "omap_get (ic_assemblies ch) sid = Some a'" "asm_inv data ds a'"
    using on_packets_chunks [OF rest split(3)] assms(2) by fastforce
  then show ?thesis
    using asm_inv_complete [OF _ order] assms(1) by (intro trailer_delivers) auto
qed


definition plain_env :: ep_env where
  "plain_env = \<lparr>ee_now = 0, ee_latest = \<lambda>_. IoctlFails, ee_outcome = \<lambda>_. (True, []), ee_start = SocketFails\<rparr>"

lemma cut_small: "data \<noteq> [] \<Longrightarrow> length data \<le> kStreamChunkSize \<Longrightarrow> cut data 0 = [(0, data)]"
  by (simp add: cut.simps [of data 0] cut_done)

theorem reassembles_interleaved_stream_witness:
  "OnPacket demo_codec 100 plain_env (SendStreamTrailer ''s'' '''') ''bob''
     (\<lparr>ic_role = Reliable, ic_id = ''1'', ic_assemblies = [(''s'', \<lparr>buffer = ''a'', received = 1\<rparr>)], ic_last = [],
       ic_remotes = []\<rparr>, None) =
   Inr (WriteToEndpoint demo_codec plain_env '''' ''bob'' ''a''
     (\<lparr>ic_role = Reliable, ic_id = ''1'', ic_assemblies = [(''s'', \<lparr>buffer = ''a'', received = 1\<rparr>)], ic_last = [],
       ic_remotes = []\<rparr>\<lparr>ic_assemblies := omap_del ''s'' [(''s'', \<lparr>buffer = ''a'', received = 1\<rparr>)]\<rparr>, None))"
  using reassembles_interleaved_stream [of "''a''" "cut ''a'' 0" "''s''"
      "[(plain_env, SendStreamHeader ''s'' [] ''t'' 1, ''bob''), (plain_env, \<lparr>request_id = [], body = BodyNotSet\<rparr>, ''eve''),
        (plain_env, SendStreamChunk ''s'' 0 ''a'', ''bob'')]" "''''" "''t''" demo_codec 100
      "IpcChannelCreate Reliable ''1'' None"
      "\<lparr>ic_role = Reliable, ic_id = ''1'', ic_assemblies = [(''s'', \<lparr>buffer = ''a'', received = 1\<rparr>)], ic_last = [],
        ic_remotes = []\<rparr>" None "[]" plain_env "''bob''"]
  by (simp add: cut_small kStreamChunkSize_def of_stream_def SendStreamHeader_def SendStreamChunk_def
      IpcChannelCreate_def IsOutboundSink_def OnStreamHeader_def OnStreamChunk_def string_replace_def omap_get_def
      Let_def)

fun on_messages ::
    "codec \<Rightarrow> framing \<Rightarrow> input_codec \<Rightarrow> nat \<Rightarrow> ep_env \<Rightarrow> bytes list \<Rightarrow> ipc_state \<Rightarrow> string_error + ipc_state \<times> srv_out list" where
  "on_messages cc f c m env msgs st =
     on_packets c m (map (\<lambda>(p, r). (env, p, r)) (List.map_filter (OnMessage cc f) msgs)) st"

lemma decode_messages:
  "codec_ok cc \<Longrightarrow> map (SendPacket cc f) ps = map Some msgs \<Longrightarrow>
   List.map_filter (OnMessage cc f) msgs = map (\<lambda>p. (p, sender_of f)) ps"
proof (induction ps arbitrary: msgs)
  case (Cons p ps)
  then obtain b msgs' where "msgs = b # msgs'" "SendPacket cc f p = Some b" by (cases msgs) auto
  with Cons show ?case by (simp add: List.map_filter_simps OnMessage_SendPacket)
qed (simp add: List.map_filter_simps)

lemma chunks_in_order_run:
  assumes "omap_ok (ic_assemblies ch)"
    and "omap_get (ic_assemblies ch) sid = Some a" "asm_inv data D a"
    and "\<forall>x \<in> set ds. piece_of data x" and len: "length data < 2 ^ 64"
  shows "\<exists>A a'. on_packets c m (map (\<lambda>p. (env, p, r)) (chunk_packets sid ds)) (ch, ep) =
      Inr ((ch\<lparr>ic_assemblies := A\<rparr>, ep), []) \<and> omap_ok A \<and> omap_del sid A = omap_del sid (ic_assemblies ch) \<and>
      omap_get A sid = Some a' \<and> asm_inv data (D @ ds) a'"
  using assms(1-4)
proof (induction ds arbitrary: ch a D)
  case Nil
  then show ?case by (intro exI [of _ "ic_assemblies ch"] exI [of _ a]) (simp add: chunk_packets_def)
next
  case (Cons x ds)
  obtain pos d where x: "x = (pos, d)" by (cases x)
  with Cons.prems(4) have p: "piece_of data (pos, d)" by simp
  from OnStreamChunk_piece [OF Cons.prems(2,3) p len]
  obtain a1 where a1: "OnStreamChunk sid (of_nat pos) d ch = Inr (ch\<lparr>ic_assemblies := omap_put sid a1 (ic_assemblies ch)\<rparr>)"
    "asm_inv data (D @ [(pos, d)]) a1" by auto
  let ?ch = "ch\<lparr>ic_assemblies := omap_put sid a1 (ic_assemblies ch)\<rparr>"
  have "omap_ok (ic_assemblies ?ch)" "omap_get (ic_assemblies ?ch) sid = Some a1"
    using Cons.prems(1) by simp_all
  from Cons.IH [OF this a1(2)] Cons.prems(4) obtain A a' where
    "on_packets c m (map (\<lambda>p. (env, p, r)) (chunk_packets sid ds)) (?ch, ep) = Inr ((?ch\<lparr>ic_assemblies := A\<rparr>, ep), [])"
    "omap_ok A" "omap_del sid A = omap_del sid (ic_assemblies ch)"
    "omap_get A sid = Some a'" "asm_inv data (D @ x # ds) a'"
    using Cons.prems(1) x by (auto simp: omap_del_put)
  then show ?case
    using a1 x by (intro exI [of _ A] exI [of _ a']) (simp add: chunk_packets_def SendStreamChunk_def)
qed

lemma stream_run:
  assumes "data \<noteq> []" "length data < 2 ^ 64" "length data \<le> m" "omap_ok (ic_assemblies ch)"
    and pieces: "\<forall>x \<in> set ds. piece_of data x"
    and full: "\<And>a. asm_inv data ds a \<Longrightarrow> buffer a = data \<and> received a = of_nat (length (buffer a))"
  shows "on_packets c m (map (\<lambda>p. (env, p, r))
       (SendStreamHeader sid req mime (length data) # chunk_packets sid ds @ [SendStreamTrailer sid ''''])) (ch, ep) =
     Inr (WriteToEndpoint c env '''' r data (ch\<lparr>ic_assemblies := omap_del sid (ic_assemblies ch)\<rparr>, ep))"
proof -
  from OnStreamHeader_asm [OF assms(3,2), of sid ch] obtain a where
    h: "OnStreamHeader m sid (of_nat (length data)) ch = Inr (ch\<lparr>ic_assemblies := omap_put sid a (ic_assemblies ch)\<rparr>)"
    "asm_inv data [] a" by auto
  let ?ch = "ch\<lparr>ic_assemblies := omap_put sid a (ic_assemblies ch)\<rparr>"
  have "omap_ok (ic_assemblies ?ch)" "omap_get (ic_assemblies ?ch) sid = Some a"
    using assms(4) by simp_all
  from chunks_in_order_run [OF this h(2) pieces assms(2)] obtain A a' where
    run: "on_packets c m (map (\<lambda>p. (env, p, r)) (chunk_packets sid ds)) (?ch, ep) =
       Inr ((?ch\<lparr>ic_assemblies := A\<rparr>, ep), [])"
    and A: "omap_del sid A = omap_del sid (ic_assemblies ch)" "omap_get A sid = Some a'" "asm_inv data ds a'"
    using assms(4) by (fastforce simp: omap_del_put)
  have "OnPacket c m env (SendStreamTrailer sid '''') r (ch\<lparr>ic_assemblies := A\<rparr>, ep) =
     Inr (WriteToEndpoint c env '''' r data (ch\<lparr>ic_assemblies := omap_del sid (ic_assemblies ch)\<rparr>, ep))"
    using trailer_delivers [of "ch\<lparr>ic_assemblies := A\<rparr>" sid a' data c m env r ep] full [OF A(3)] A assms(1)
    by simp
  then show ?thesis
    using h run by (simp add: on_packets_append SendStreamHeader_def split: prod.splits)
qed

lemma stream_in_order_run:
  assumes "data \<noteq> []" "length data < 2 ^ 64" "length data \<le> m" "omap_ok (ic_assemblies ch)"
  shows "on_packets c m (map (\<lambda>p. (env, p, r)) (SendStream sid req mime data)) (ch, ep) =
     Inr (WriteToEndpoint c env '''' r data (ch\<lparr>ic_assemblies := omap_del sid (ic_assemblies ch)\<rparr>, ep))"
proof -
  have "buffer a = data \<and> received a = of_nat (length (buffer a))" if "asm_inv data (cut data 0) a" for a
    using asm_inv_complete [OF that refl] by simp
  then show ?thesis
    using stream_run [OF assms, of "cut data 0" c env r sid req mime ep] cut_pieces
    by (simp add: SendStream_def send_chunks_cut chunk_packets_def)
qed

text \<open>
  C4: End to end: what \<open>SendToPeer\<close> of one channel puts on the wire for a message, framed
  and serialised, is written to the default endpoint of an \<open>IpcChannel\<close> that receives it in
  order as exactly that message, in one piece, whether it was sent flat or chunked.
\<close>

theorem message_round_trip:
  assumes "codec_ok cc" "message \<noteq> []" "length message \<le> max_length" "max_length < 2 ^ 64"
    and "omap_ok (ic_assemblies ch)"
    and "map (SendPacket cc f) (SendToPeer True sid message) = map Some msgs"
  shows "on_messages cc f c max_length env msgs (ch, endpoints) =
     Inr (WriteToEndpoint c env '''' (sender_of f) message
       (if length message > kStreamChunkSize then ch\<lparr>ic_assemblies := omap_del sid (ic_assemblies ch)\<rparr> else ch, endpoints))"
proof -
  have "List.map_filter (OnMessage cc f) msgs = map (\<lambda>p. (p, sender_of f)) (SendToPeer True sid message)"
    using assms(1,6) by (rule decode_messages)
  then show ?thesis
    using stream_in_order_run [of message max_length ch c env "sender_of f" sid "[]" "''application/octet-stream''" endpoints]
      assms(2-5)
    by (auto simp: SendToPeer_def comp_def split: prod.splits)
qed

definition toy_codec :: codec where
  "toy_codec = \<lparr>SerializePacket = (\<lambda>p. case body p of
        Raw r \<Rightarrow> if request_id p = [] then Some r else None | _ \<Rightarrow> None),
     ParsePacket = (\<lambda>b. Some \<lparr>request_id = [], body = Raw b\<rparr>),
     SerializeLiveKit = (\<lambda>d t. None), ParseLiveKit = (\<lambda>b. None)\<rparr>"

theorem message_round_trip_witness:
  "on_messages toy_codec (PlainFraming ''bob'') demo_codec 100 plain_env [''hi'']
      (fst (IpcChannelCreate Reliable ''1'' None), None) =
     Inr (WriteToEndpoint demo_codec plain_env '''' (sender_of (PlainFraming ''bob'')) ''hi''
       (if length ''hi'' > kStreamChunkSize
        then (fst (IpcChannelCreate Reliable ''1'' None))\<lparr>ic_assemblies := omap_del ''s'' (ic_assemblies (fst (IpcChannelCreate Reliable ''1'' None)))\<rparr>
        else fst (IpcChannelCreate Reliable ''1'' None), None))"
  by (rule message_round_trip)
     (auto simp: codec_ok_def toy_codec_def SendToPeer_def kStreamChunkSize_def SendPacket_def
       IpcChannelCreate_def Let_def split: body.splits if_splits)

section \<open>Stale packets\<close>

text \<open>The sequenced packets of a channel, as (arrival, remote, endpoint, sequence), that pass the check.\<close>

type_synonym sequenced = "time \<times> string \<times> string \<times> u64"

fun accept_run :: "sequenced list \<Rightarrow> ipc_chan \<Rightarrow> sequenced list \<times> ipc_chan" where
  "accept_run [] ch = ([], ch)"
| "accept_run ((now, r, ep, seq) # rest) ch =
     (case AcceptSequence now r ep seq ch of
        (ok, ch1) \<Rightarrow> (case accept_run rest ch1 of
          (acc, ch2) \<Rightarrow> (if ok then (now, r, ep, seq) # acc else acc, ch2)))"

definition last_accepted :: "string \<Rightarrow> string \<Rightarrow> sequenced list \<Rightarrow> (u64 \<times> time) option" where
  "last_accepted r ep acc =
     (case rev (filter (\<lambda>(_, r', ep', seq). r' = r \<and> ep' = ep \<and> seq \<noteq> 0) acc) of
        [] \<Rightarrow> None | (now, _, _, seq) # _ \<Rightarrow> Some (seq, now))"

definition entry_of :: "ipc_chan \<Rightarrow> string \<Rightarrow> string \<Rightarrow> (u64 \<times> time) option" where
  "entry_of ch r ep = map_option (\<lambda>l. (ls_sequence l, ls_received_at l)) (omap_get (ic_last ch) (r, ep))"

lemma AcceptSequence_lossy:
  assumes "ic_role ch = Lossy"
  shows "fst (AcceptSequence now r ep seq ch) \<longleftrightarrow> seq = 0 \<or>
      (case entry_of ch r ep of None \<Rightarrow> True | Some (newest, t) \<Rightarrow> newest < seq \<or> kSequenceResetGap \<le> now - t)"
    and "entry_of (snd (AcceptSequence now r ep seq ch)) r' ep' =
      (if r' = r \<and> ep' = ep \<and> seq \<noteq> 0 \<and> fst (AcceptSequence now r ep seq ch) then Some (seq, now) else entry_of ch r' ep')"
    and "ic_role (snd (AcceptSequence now r ep seq ch)) = Lossy"
proof -
  have "\<not> seq \<le> 0" if "seq \<noteq> 0" using that by simp
  with assms show "fst (AcceptSequence now r ep seq ch) \<longleftrightarrow> seq = 0 \<or>
      (case entry_of ch r ep of None \<Rightarrow> True | Some (newest, t) \<Rightarrow> newest < seq \<or> kSequenceResetGap \<le> now - t)"
    by (auto simp: AcceptSequence_def entry_of_def Let_def not_le split: option.splits)
  show "entry_of (snd (AcceptSequence now r ep seq ch)) r' ep' =
      (if r' = r \<and> ep' = ep \<and> seq \<noteq> 0 \<and> fst (AcceptSequence now r ep seq ch) then Some (seq, now) else entry_of ch r' ep')"
    using assms \<open>seq \<noteq> 0 \<Longrightarrow> \<not> seq \<le> 0\<close>
    by (auto simp: AcceptSequence_def entry_of_def Let_def split: option.splits)
  show "ic_role (snd (AcceptSequence now r ep seq ch)) = Lossy"
    using assms by (simp add: AcceptSequence_def Let_def)
qed

lemma last_accepted_Cons:
  "last_accepted r ep ((now, r', ep', seq) # acc) =
     (case last_accepted r ep acc of
        Some x \<Rightarrow> Some x
      | None \<Rightarrow> if r' = r \<and> ep' = ep \<and> seq \<noteq> 0 then Some (seq, now) else None)"
  by (auto simp: last_accepted_def split: list.splits)

lemma entry_of_run:
  "ic_role ch = Lossy \<Longrightarrow> ic_role (snd (accept_run evs ch)) = Lossy \<and>
   entry_of (snd (accept_run evs ch)) r ep =
     (case last_accepted r ep (fst (accept_run evs ch)) of Some x \<Rightarrow> Some x | None \<Rightarrow> entry_of ch r ep)"
proof (induction evs arbitrary: ch)
  case Nil
  then show ?case by (simp add: last_accepted_def)
next
  case (Cons e evs)
  obtain now r' ep' seq where e: "e = (now, r', ep', seq)" by (cases e)
  obtain ok ch1 where step: "AcceptSequence now r' ep' seq ch = (ok, ch1)" by fastforce
  note lossy = AcceptSequence_lossy [OF Cons.prems, of now r' ep' seq, unfolded step]
  from Cons.IH [of ch1] lossy(3) lossy(2) [of r ep] show ?case
    using e step by (auto simp: last_accepted_Cons split: prod.splits option.splits)
qed

text \<open>
  C5: The lossy channel drops exactly the stale packets: after any traffic, a packet with a
  sequence number passes if and only if nothing numbered was accepted yet from that remote for
  that endpoint, or its number is larger than the last one accepted, or that one arrived at
  least a second earlier. Packets without a number always pass.
\<close>

theorem lossy_drops_exactly_stale:
  assumes "(acc, ch) = accept_run evs (fst (IpcChannelCreate Lossy i endpoints))"
  shows "fst (AcceptSequence now r ep seq ch) \<longleftrightarrow> seq = 0 \<or>
     (case last_accepted r ep acc of None \<Rightarrow> True
      | Some (newest, t) \<Rightarrow> newest < seq \<or> kSequenceResetGap \<le> now - t)"
proof -
  let ?ch0 = "fst (IpcChannelCreate Lossy i endpoints)"
  have "ic_role ?ch0 = Lossy" "entry_of ?ch0 r ep = None"
    by (simp_all add: IpcChannelCreate_def entry_of_def Let_def)
  moreover have "acc = fst (accept_run evs ?ch0)" "ch = snd (accept_run evs ?ch0)"
    using assms by (metis fst_conv, metis snd_conv)
  ultimately have "ic_role ch = Lossy" "entry_of ch r ep = last_accepted r ep acc"
    using entry_of_run [of ?ch0 evs r ep] by (auto split: option.splits)
  then show ?thesis by (simp add: AcceptSequence_lossy(1))
qed

theorem lossy_drops_exactly_stale_witness:
  "fst (AcceptSequence 30 ''bob'' ''gamepad'' 4 (snd (accept_run
     [(10, ''bob'', ''gamepad'', 5), (20, ''bob'', ''gamepad'', 3)] (fst (IpcChannelCreate Lossy ''1'' None))))) \<longleftrightarrow>
   (4 :: u64) = 0 \<or>
     (case last_accepted ''bob'' ''gamepad'' [(10, ''bob'', ''gamepad'', 5)] of None \<Rightarrow> True
      | Some (newest, t) \<Rightarrow> newest < 4 \<or> kSequenceResetGap \<le> 30 - t)"
  by (rule lossy_drops_exactly_stale [where i = "''1''" and endpoints = None and
        evs = "[(10, ''bob'', ''gamepad'', 5), (20, ''bob'', ''gamepad'', 3)]"])
     (simp add: IpcChannelCreate_def Let_def AcceptSequence_def kSequenceResetGap_def omap_get_def)

section \<open>What a hostile stream can do\<close>

text \<open>
  C6: The exact condition under which a chunk makes the channel throw: the 64-bit sum of
  offset and length wraps around to something that passes the length check. The exception
  leaves the callback of the data channel, where nothing catches it.
\<close>

theorem chunk_throws_iff_offset_wraps:
  assumes "omap_get (ic_assemblies ch) sid = Some a" "length (buffer a) < 2 ^ 63" "length data < 2 ^ 63"
  shows "(\<exists>e. OnStreamChunk sid pos data ch = Inl e) \<longleftrightarrow>
     2 ^ 64 \<le> unat pos + length data \<and> unat pos + length data - 2 ^ 64 \<le> length (buffer a)"
proof -
  let ?n = "length data" and ?b = "length (buffer a)"
  have pos: "unat pos < 2 ^ 64" by (rule unat_less_64)
  have word_sum: "pos + of_nat ?n = of_nat (unat pos + ?n)" by simp
  show ?thesis
  proof (cases "unat pos + ?n < 2 ^ 64")
    case True
    have "pos + of_nat ?n \<le> of_nat ?b \<longleftrightarrow> unat pos + ?n \<le> ?b"
      unfolding word_sum using True assms(2) by (intro of_nat_le_64) auto
    with True assms(1) show ?thesis
      by (auto simp: OnStreamChunk_def string_replace_def not_le not_less)
  next
    case False
    define w where "w = unat pos + ?n - 2 ^ 64"
    have w: "w < 2 ^ 64" "unat pos + ?n = w + 2 ^ 64" using False pos assms(3) by (auto simp: w_def)
    have "pos + of_nat ?n = of_nat w"
      unfolding word_sum w(2) by (simp add: of_nat_add)
    then have "pos + of_nat ?n \<le> of_nat ?b \<longleftrightarrow> w \<le> ?b"
      using w(1) assms(2) by (simp add: of_nat_le_64)
    moreover have "?b < unat pos" using False assms(2,3) by simp
    ultimately show ?thesis
      using assms(1) False w(2)
      by (auto simp: OnStreamChunk_def string_replace_def not_less)
  qed
qed

theorem chunk_throws_iff_offset_wraps_witness:
  "(\<exists>e. OnStreamChunk ''s'' (- 1) ''x'' (fst (IpcChannelCreate Reliable ''1'' None)\<lparr>ic_assemblies :=
       [(''s'', \<lparr>buffer = ''ab'', received = 0\<rparr>)]\<rparr>) = Inl e) \<longleftrightarrow>
   2 ^ 64 \<le> unat (- 1 :: u64) + length ''x'' \<and> unat (- 1 :: u64) + length ''x'' - 2 ^ 64 \<le> length (''ab'' :: bytes)"
  using chunk_throws_iff_offset_wraps [where sid = "''s''" and pos = "- 1" and data = "''x''" and
     a = "\<lparr>buffer = ''ab'', received = 0\<rparr>" and ch = "fst (IpcChannelCreate Reliable ''1'' None)\<lparr>ic_assemblies :=
       [(''s'', \<lparr>buffer = ''ab'', received = 0\<rparr>)]\<rparr>"]
  by (simp add: omap_get_def)

text \<open>
  The length check of the trailer counts bytes, not coverage: for every piece, a stream
  declared twice as long that sends its first half twice is delivered, its second half filled
  with zero bytes nobody sent.
\<close>

theorem duplicate_chunk_fills_hole:
  assumes "d \<noteq> []" "2 * length d \<le> max_length" "max_length < 2 ^ 64" "omap_ok (ic_assemblies ch)"
  shows "on_packets c max_length
      [(env, SendStreamHeader sid req mime (2 * length d), r), (env, SendStreamChunk sid 0 d, r),
       (env, SendStreamChunk sid 0 d, r), (env, SendStreamTrailer sid '''', r)] (ch, endpoints) =
     Inr (WriteToEndpoint c env '''' r (d @ replicate (length d) (CHR 0x00))
       (ch\<lparr>ic_assemblies := omap_del sid (ic_assemblies ch)\<rparr>, endpoints))"
proof -
  define data where "data = d @ replicate (length d) (CHR 0x00)"
  have len: "length data = 2 * length d" by (simp add: data_def)
  have "buffer a = data \<and> received a = of_nat (length (buffer a))" if a: "asm_inv data [(0, d), (0, d)] a" for a
  proof
    have "buffer a ! i = data ! i" if "i < length data" for i
      using a that by (simp add: asm_inv_def covers_def data_def nth_append)
    then show "buffer a = data" using a by (intro nth_equalityI) (simp_all add: asm_inv_def)
    show "received a = of_nat (length (buffer a))" using a len by (simp add: asm_inv_def)
  qed
  moreover have "\<forall>x \<in> set [(0, d), (0, d)]. piece_of data x"
    by (simp add: piece_of_def data_def)
  moreover have "data \<noteq> []" "length data < 2 ^ 64" "length data \<le> max_length"
    using assms len by (auto simp: data_def)
  ultimately have "on_packets c max_length (map (\<lambda>p. (env, p, r))
       (SendStreamHeader sid req mime (length data) # chunk_packets sid [(0, d), (0, d)] @ [SendStreamTrailer sid []])) (ch, endpoints) =
     Inr (WriteToEndpoint c env [] r data (ch\<lparr>ic_assemblies := omap_del sid (ic_assemblies ch)\<rparr>, endpoints))"
    using assms(4) by (intro stream_run) auto
  then show ?thesis
    unfolding len by (simp only: data_def chunk_packets_def list.map prod.case append.simps)
qed

theorem duplicate_chunk_fills_hole_witness:
  "on_packets demo_codec 100
      [(plain_env, SendStreamHeader ''s'' [] [] (2 * length ''ab''), ''bob''), (plain_env, SendStreamChunk ''s'' 0 ''ab'', ''bob''),
       (plain_env, SendStreamChunk ''s'' 0 ''ab'', ''bob''), (plain_env, SendStreamTrailer ''s'' '''', ''bob'')]
      (fst (IpcChannelCreate Reliable ''1'' None), None) =
     Inr (WriteToEndpoint demo_codec plain_env '''' ''bob'' (''ab'' @ replicate (length ''ab'') (CHR 0x00))
       ((fst (IpcChannelCreate Reliable ''1'' None))\<lparr>ic_assemblies := omap_del ''s'' (ic_assemblies (fst (IpcChannelCreate Reliable ''1'' None)))\<rparr>, None))"
  by (rule duplicate_chunk_fills_hole) (simp_all add: IpcChannelCreate_def Let_def)

section \<open>A closed channel leaves no gamepad behind\<close>

definition registry_pads :: "registry option \<Rightarrow> string set" where
  "registry_pads endpoints =
     (case endpoints of None \<Rightarrow> {} | Some reg \<Rightarrow>
       (case omap_get reg ''gamepad'' of Some (GamepadEndpoint g) \<Rightarrow> set (omap_keys (gp_pads g)) | _ \<Rightarrow> {}))"

definition endpoint_pads :: "endpoint \<Rightarrow> string set" where
  "endpoint_pads e = (case e of IpcEndpoint _ \<Rightarrow> {} | GamepadEndpoint g \<Rightarrow> set (omap_keys (gp_pads g)))"

lemma registry_pads_alt:
  "registry_pads (Some reg) = (case omap_get reg ''gamepad'' of None \<Rightarrow> {} | Some e \<Rightarrow> endpoint_pads e)"
  by (auto simp: registry_pads_def endpoint_pads_def split: option.splits endpoint.splits)

lemma PruneLocked_keys: "set (omap_keys (PruneLocked now h)) \<subseteq> set (omap_keys h)"
  by (auto simp: PruneLocked_def omap_keys_def)

lemma EndpointWrite_pads: "endpoint_pads (fst (EndpointWrite c env r payload e)) \<subseteq> insert r (endpoint_pads e)"
proof (cases e)
  case (GamepadEndpoint g)
  show ?thesis
  proof (cases "valid_report c payload")
    case (Some j)
    then show ?thesis
      using GamepadEndpoint PruneLocked_keys
      by (fastforce simp: on_gamepad_def case_prod_unfold GamepadWrite_valid endpoint_pads_def omap_keys_put)
  qed (use GamepadEndpoint in \<open>auto simp: on_gamepad_def GamepadWrite_invalid endpoint_pads_def\<close>)
qed (simp add: on_ipc_def endpoint_pads_def case_prod_unfold)

lemma EndpointOnRemoteClosed_pads:
  "endpoint_pads (fst (EndpointOnRemoteClosed c env r e)) \<subseteq> endpoint_pads e - {r}"
proof (cases e)
  case (GamepadEndpoint g)
  then show ?thesis
    using PruneLocked_keys [of "ee_now env" "omap_del r (gp_pads g)"]
    by (auto simp: on_gamepad_def case_prod_unfold GamepadOnRemoteClosed_def endpoint_pads_def omap_get_None_iff)
qed (simp add: endpoint_pads_def)

lemma EndpointUnregister_pads: "endpoint_pads (fst (EndpointUnregister i e)) = endpoint_pads e"
  by (cases e) (auto simp: endpoint_pads_def)

lemma EndpointRegister_pads: "endpoint_pads (fst (EndpointRegister i e)) = endpoint_pads e"
  by (cases e) (auto simp: endpoint_pads_def)

lemma each_endpoint_get:
  "omap_get (fst (each_endpoint f reg)) k = map_option (\<lambda>e. fst (f k e)) (omap_get reg k)"
  unfolding each_endpoint_map by (rule omap_get_map)

definition pads_owned :: "ipc_state \<Rightarrow> bool" where
  "pads_owned st \<longleftrightarrow> registry_pads (snd st) \<subseteq> set (ic_remotes (fst st))"

lemma RegistryWrite_pads:
  assumes "RegistryWrite c env name r payload reg = (served, reg', os)"
  shows "registry_pads (Some reg') \<subseteq> (if served then insert r (registry_pads (Some reg)) else registry_pads (Some reg))"
proof (cases "omap_get reg name")
  case (Some e)
  then show ?thesis
    using assms EndpointWrite_pads [of c env r payload e]
    by (auto simp: RegistryWrite_def registry_pads_alt case_prod_unfold split: option.splits if_splits)
qed (use assms in \<open>simp add: RegistryWrite_def\<close>)

lemma WriteToEndpoint_pads: "pads_owned st \<Longrightarrow> pads_owned (fst (WriteToEndpoint c env ep r payload st))"
proof -
  assume inv: "pads_owned st"
  obtain ch endpoints where st: "st = (ch, endpoints)" by (cases st)
  show ?thesis
  proof (cases endpoints)
    case (Some reg)
    obtain served reg' os where w: "RegistryWrite c env ep r payload reg = (served, reg', os)"
      by (cases "RegistryWrite c env ep r payload reg")
    from RegistryWrite_pads [OF w] inv show ?thesis
      by (auto simp: st Some w WriteToEndpoint_def pads_owned_def set_insort_insert split: if_splits)
  qed (use inv st in \<open>simp add: WriteToEndpoint_def\<close>)
qed

lemma pads_owned_same:
  "ic_remotes ch' = ic_remotes ch \<Longrightarrow> pads_owned (ch', endpoints) = pads_owned (ch, endpoints)"
  by (simp add: pads_owned_def)

lemma OnPacket_pads: "OnPacket c m env p r st = Inr (st', os) \<Longrightarrow> pads_owned st \<Longrightarrow> pads_owned st'"
proof -
  assume step: "OnPacket c m env p r st = Inr (st', os)" and inv: "pads_owned st"
  obtain ch endpoints where st: "st = (ch, endpoints)" by (cases st)
  have remotes: "ic_remotes (snd (AcceptSequence now r ep seq ch)) = ic_remotes ch" for now ep seq
    by (simp add: AcceptSequence_def Let_def)
  have acc: "AcceptSequence (ee_now env) r ep seq ch = (b, ch') \<Longrightarrow> pads_owned (ch', endpoints)" for ep seq b ch'
    using inv st remotes by (metis pads_owned_same snd_conv)
  have wrote: "pads_owned st0 \<Longrightarrow> WriteToEndpoint c env ep r payload st0 = (st1, os1) \<Longrightarrow> pads_owned st1"
    for ep payload st0 st1 os1 by (metis WriteToEndpoint_pads fst_conv)
  have asm: "pads_owned (ch\<lparr>ic_assemblies := A\<rparr>, endpoints)" for A
    using inv st by (simp add: pads_owned_def)
  show ?thesis
    using step inv
    by (auto simp: st OnStreamHeader_def OnStreamChunk_def OnStreamTrailer_def Let_def asm
        split: body.splits stream_payload.splits option.splits sum.splits if_splits prod.splits
        dest: acc intro: wrote [OF asm] wrote wrote [OF acc])
qed

lemma on_packets_pads: "on_packets c m ps st = Inr (st', os) \<Longrightarrow> pads_owned st \<Longrightarrow> pads_owned st'"
proof (induction ps arbitrary: st os)
  case (Cons x ps)
  then show ?case
    by (cases x) (auto split: sum.splits prod.splits dest: OnPacket_pads)
qed simp

lemma RegistryOnRemoteClosed_pads:
  "registry_pads (Some (fst (RegistryOnRemoteClosed c env r reg))) \<subseteq> registry_pads (Some reg) - {r}"
  using EndpointOnRemoteClosed_pads
  by (fastforce simp: RegistryOnRemoteClosed_def registry_pads_alt each_endpoint_get split: option.splits)

lemma notify_closed_pads:
  "registry_pads (Some (fst (notify_closed c env rs reg))) \<subseteq> registry_pads (Some reg) - set rs"
proof (induction c env rs reg rule: notify_closed.induct)
  case (2 c env r rs reg)
  obtain reg1 os1 where r: "RegistryOnRemoteClosed c env r reg = (reg1, os1)" by fastforce
  with 2 RegistryOnRemoteClosed_pads [of c env r reg] show ?case
    by (auto split: prod.splits)
qed simp

text \<open>
  Destroying a channel tells the endpoints about everyone who spoke through it: whatever
  packets arrived, once the channel is gone the gamepad endpoint lists no gamepad any more that
  was fed through it (here: none at all, as no other channel fed it).
\<close>

theorem destroyed_channel_leaves_no_gamepad:
  assumes "registry_pads endpoints = {}"
    and "on_packets c max_length ps (IpcChannelCreate role i endpoints) = Inr (st, os)"
  shows "registry_pads (snd (fst (IpcChannelDestroy c env st))) = {}"
proof -
  have "pads_owned (IpcChannelCreate role i endpoints)"
    using assms(1)
    by (cases endpoints) (auto simp: IpcChannelCreate_def pads_owned_def Let_def registry_pads_alt RegistryRegister_def
        each_endpoint_get EndpointRegister_pads split: option.splits)
  with assms(2) have "pads_owned st" by (rule on_packets_pads)
  moreover obtain ch eps where st: "st = (ch, eps)" by (cases st)
  moreover have "registry_pads (map_option (\<lambda>reg. fst (RegistryUnregister (ic_id ch) reg)) eps) = registry_pads eps"
    by (cases eps) (auto simp: registry_pads_alt RegistryUnregister_def each_endpoint_get EndpointUnregister_pads
        split: option.splits)
  moreover have "registry_pads (snd (fst (NotifyRemotesClosed c env (ch, eps')))) \<subseteq>
      registry_pads eps' - set (ic_remotes ch)" for eps'
    using notify_closed_pads [of c env "ic_remotes ch"]
    by (cases eps') (auto simp: NotifyRemotesClosed_def registry_pads_def case_prod_unfold)
  ultimately show ?thesis
    by (simp add: IpcChannelDestroy_def pads_owned_def) blast
qed

definition bob_pad :: "ep_env \<times> packet \<times> string" where
  "bob_pad = (plain_env, \<lparr>request_id = [], body = Ipc ''gamepad'' 1 ''x''\<rparr>, ''bob'')"

theorem destroyed_channel_leaves_no_gamepad_witness:
  "\<exists>st os. on_packets demo_codec 100 [bob_pad] (IpcChannelCreate Lossy ''1'' (Some two_endpoints)) = Inr (st, os) \<and>
     registry_pads (snd st) = {''bob''} \<and>
     registry_pads (snd (fst (IpcChannelDestroy demo_codec (\<lambda>_. plain_env) st))) = {}"
proof -
  have e: "registry_pads (Some two_endpoints) = {}"
    by (simp add: registry_pads_def two_endpoints_def RegistryAdd_def omap_get_def demo_pads_def omap_keys_def)
  obtain st os where run: "on_packets demo_codec 100 [bob_pad] (IpcChannelCreate Lossy ''1'' (Some two_endpoints)) = Inr (st, os)"
    and "registry_pads (snd st) = {''bob''}"
    by (simp add: bob_pad_def IpcChannelCreate_def Let_def IsOutboundSink_def AcceptSequence_def plain_env_def
        WriteToEndpoint_def RegistryWrite_def two_endpoints_def RegistryAdd_def omap_get_def demo_pads_def
        on_gamepad_def GamepadWrite_def demo_codec_def PublishLocked_def case_prod_unfold registry_pads_def
        PruneLocked_def kTimeout_def omap_keys_def)
  with destroyed_channel_leaves_no_gamepad [OF e run] show ?thesis by blast
qed

section \<open>Dispatch on the command channel\<close>

lemma RegisterHandlers:
  "(case fold (\<lambda>(rc, h). RegisterHandler rc h) regs handlers rc of None \<Rightarrow> [] | Some hs \<Rightarrow> hs) =
   (case handlers rc of None \<Rightarrow> [] | Some hs \<Rightarrow> hs) @ map snd (filter (\<lambda>(rc', _). rc' = rc) regs)"
  by (induction regs arbitrary: handlers) (auto simp: RegisterHandler_def split: option.splits)

text \<open>
  The command channel runs, for a request, exactly the handlers registered for its case,
  each once, in the order of registration, with that request and its id; a packet of any other
  kind runs none.
\<close>

theorem command_runs_registered_handlers:
  "CommandOnPacket (fold (\<lambda>(rc, h). RegisterHandler rc h) regs (\<lambda>_. None)) p =
     (case body p of
        RequestBody req \<Rightarrow> map (\<lambda>(_, h). (h, req, request_id p)) (filter (\<lambda>(rc, _). rc = payload_case req) regs)
      | _ \<Rightarrow> [])"
proof (cases "body p")
  case (RequestBody req)
  then show ?thesis
    using RegisterHandlers [of regs "\<lambda>_. None" "payload_case req"]
    by (auto simp: CommandOnPacket_def case_prod_beta split: option.splits dest: sym)
qed (simp_all add: CommandOnPacket_def)

end
