(* ===== verification/SdpText.thy ===== *)
theory SdpText
  imports Prelude "HOL-Library.Sublist"
begin

text \<open>
  The text rewriting of \<open>RtcPeer::RestartIce\<close> (src/src/rtc/rtc_peer.cpp): the three
  \<open>std::regex_replace\<close> calls on the remote description. A regular expression is the length
  of its match at the front of a text; \<open>regex_format\<close> is the ECMAScript format of a replacement.
\<close>

section \<open>regex\_replace\<close>

definition crlf :: string where "crlf = [CHR 0x0D, CHR 0x0A]"

definition eol :: "char \<Rightarrow> bool" where
  "eol c \<longleftrightarrow> c = CHR 0x0D \<or> c = CHR 0x0A"

definition digit :: "char \<Rightarrow> bool" where
  "digit c \<longleftrightarrow> (48 :: nat) \<le> of_char c \<and> of_char c \<le> (57 :: nat)"

definition digit_val :: "char \<Rightarrow> nat" where
  "digit_val c = of_char c - 48"

definition group_text :: "string list \<Rightarrow> nat \<Rightarrow> string" where
  "group_text groups n = (if n < length groups then groups ! n else [])"

text \<open>The groups are the whole match and the captures; \<open>pre\<close> and \<open>suf\<close> surround the match.\<close>

fun regex_format :: "string list \<Rightarrow> string \<Rightarrow> string \<Rightarrow> string \<Rightarrow> string" where
  "regex_format groups pre suf [] = []"
| "regex_format groups pre suf [c] = [c]"
| "regex_format groups pre suf (c # d # rest) =
     (if c \<noteq> CHR ''$'' then c # regex_format groups pre suf (d # rest)
      else if d = CHR ''$'' then CHR ''$'' # regex_format groups pre suf rest
      else if d = CHR ''&'' then group_text groups 0 @ regex_format groups pre suf rest
      else if d = CHR 0x60 then pre @ regex_format groups pre suf rest
      else if d = CHR 0x27 then suf @ regex_format groups pre suf rest
      else if digit d then
        (case rest of
           e # rest' \<Rightarrow>
             (if digit e then group_text groups (10 * digit_val d + digit_val e) @ regex_format groups pre suf rest'
              else group_text groups (digit_val d) @ regex_format groups pre suf rest)
         | [] \<Rightarrow> group_text groups (digit_val d))
      else CHR ''$'' # regex_format groups pre suf (d # rest))"

text \<open>
  A regular expression gives the length of its match at the front and of its first capture's
  prefix; every match the sources use is not empty. \<open>pre\<close> is the text since the last match.
\<close>

function regex_replace ::
    "(string \<Rightarrow> (nat \<times> string) option) \<Rightarrow> string \<Rightarrow> string \<Rightarrow> string \<Rightarrow> string" where
  "regex_replace m fmt pre [] = []"
| "regex_replace m fmt pre (c # s) =
     (case m (c # s) of
        Some (n, capture) \<Rightarrow>
          (if 0 < n
           then regex_format [take n (c # s), capture] pre (drop n (c # s)) fmt
                @ regex_replace m fmt [] (drop n (c # s))
           else c # regex_replace m fmt (pre @ [c]) s)
      | None \<Rightarrow> c # regex_replace m fmt (pre @ [c]) s)"
  by pat_completeness auto
termination
  by (relation "measure (\<lambda>(m, fmt, pre, s). length s)") auto

declare regex_replace.simps(2) [simp del]

text \<open>\<open>a=ice-ufrag:([^\r\n]+)\<close>, \<open>a=ice-pwd:([^\r\n]+)\<close>.\<close>

definition attr_regex :: "string \<Rightarrow> string \<Rightarrow> (nat \<times> string) option" where
  "attr_regex name s =
     (if starts_with s name
      then (let v = takeWhile (\<lambda>c. \<not> eol c) (drop (length name) s)
            in if v = [] then None else Some (length name + length v, v))
      else None)"

text \<open>\<open>\r?\n\<close> at the front of a text: its length.\<close>

definition newline_length :: "string \<Rightarrow> nat option" where
  "newline_length s =
     (if starts_with s crlf then Some 2
      else if starts_with s [CHR 0x0A] then Some 1 else None)"

text \<open>\<open>a=(candidate:[^\r\n]*|end-of-candidates)\r?\n\<close>.\<close>

definition candidate_regex :: "string \<Rightarrow> (nat \<times> string) option" where
  "candidate_regex s =
     (if starts_with s ''a=candidate:''
      then (let v = takeWhile (\<lambda>c. \<not> eol c) (drop 2 s)
            in map_option (\<lambda>n. (2 + length v + n, v)) (newline_length (drop (2 + length v) s)))
      else if starts_with s ''a=end-of-candidates''
      then map_option (\<lambda>n. (19 + n, ''end-of-candidates'')) (newline_length (drop 19 s))
      else None)"

definition RestartIceSdp :: "string \<Rightarrow> string \<Rightarrow> string \<Rightarrow> string" where
  "RestartIceSdp ice_ufrag ice_pwd remote_sdp =
     (let s1 = regex_replace (attr_regex ''a=ice-ufrag:'') (''a=ice-ufrag:'' @ ice_ufrag) [] remote_sdp;
          s2 = regex_replace (attr_regex ''a=ice-pwd:'') (''a=ice-pwd:'' @ ice_pwd) [] s1
      in regex_replace candidate_regex [] [] s2)"

section \<open>Rewriting line by line\<close>

text \<open>The reference: each line of the description on its own.\<close>

definition sdp_text :: "string list \<Rightarrow> string" where
  "sdp_text ls = concat (map (\<lambda>l. l @ crlf) ls)"

definition set_attr :: "string \<Rightarrow> string \<Rightarrow> string \<Rightarrow> string" where
  "set_attr name v l = (if starts_with l name \<and> l \<noteq> name then name @ v else l)"

definition candidate_line :: "string \<Rightarrow> bool" where
  "candidate_line l \<longleftrightarrow> starts_with l ''a=candidate:'' \<or> l = ''a=end-of-candidates''"

text \<open>A line without line ends inside, in which no attribute starts after its front.\<close>

definition plain_line :: "string \<Rightarrow> bool" where
  "plain_line l \<longleftrightarrow> (\<forall>c \<in> set l. \<not> eol c) \<and> (\<forall>t. strict_suffix t l \<longrightarrow> \<not> starts_with t ''a='')"

fun no_attr_inside :: "string \<Rightarrow> bool" where
  "no_attr_inside [] = True"
| "no_attr_inside (c # cs) = (\<not> starts_with cs ''a='' \<and> no_attr_inside cs)"

lemma no_attr_inside: "no_attr_inside l \<longleftrightarrow> (\<forall>t. strict_suffix t l \<longrightarrow> \<not> starts_with t ''a='')"
proof (induction l)
  case (Cons c l)
  have "strict_suffix t (c # l) \<longleftrightarrow> t = l \<or> strict_suffix t l" for t
    by (auto simp: strict_suffix_def suffix_Cons dest: suffix_length_le)
  with Cons show ?case by auto
qed (simp add: strict_suffix_def)

lemma plain_line_code: "plain_line l \<longleftrightarrow> list_all (\<lambda>c. \<not> eol c) l \<and> no_attr_inside l"
  by (simp add: plain_line_def no_attr_inside list_all_iff)

lemma regex_format_plain: "CHR ''$'' \<notin> set fmt \<Longrightarrow> regex_format groups pre suf fmt = fmt"
  by (induction groups pre suf fmt rule: regex_format.induct) auto

lemma regex_replace_skip:
  "(\<And>t. suffix t u \<Longrightarrow> t \<noteq> [] \<Longrightarrow> m (t @ rest) = None) \<Longrightarrow>
   regex_replace m fmt pre (u @ rest) = u @ regex_replace m fmt (pre @ u) rest"
proof (induction u arbitrary: pre)
  case (Cons c u)
  have "m (c # u @ rest) = None" using Cons.prems [of "c # u"] by simp
  moreover have "regex_replace m fmt (pre @ [c]) (u @ rest) = u @ regex_replace m fmt ((pre @ [c]) @ u) rest"
    by (rule Cons.IH) (simp add: Cons.prems suffix_ConsI)
  ultimately show ?case by (simp add: regex_replace.simps)
qed simp

lemma regex_replace_match:
  assumes "m (u @ rest) = Some (length u, v)" "u \<noteq> []" "CHR ''$'' \<notin> set fmt"
  shows "regex_replace m fmt pre (u @ rest) = fmt @ regex_replace m fmt [] rest"
  using assms by (cases u) (auto simp: regex_replace.simps regex_format_plain)

text \<open>An expression that only matches texts starting with \<open>a=\<close>, at the front of a line.\<close>

definition line_regex :: "(string \<Rightarrow> (nat \<times> string) option) \<Rightarrow> bool" where
  "line_regex m \<longleftrightarrow> (\<forall>s. m s \<noteq> None \<longrightarrow> starts_with s ''a='')"

lemma starts_with_prefix: "starts_with s (p @ q) \<Longrightarrow> starts_with s p"
  by (auto simp: starts_with_iff)

lemma line_regex_attr: "starts_with name ''a='' \<Longrightarrow> line_regex (attr_regex name)"
  by (auto simp: line_regex_def attr_regex_def starts_with_iff)

lemma line_regex_candidate: "line_regex candidate_regex"
  by (auto simp: line_regex_def candidate_regex_def starts_with_iff)

lemma starts_with_a [simp]:
  "starts_with (x # y # zs) ''a='' \<longleftrightarrow> x = CHR ''a'' \<and> y = CHR ''=''"
  "\<not> starts_with [x] ''a=''"
  by (auto simp: starts_with_def)

lemma starts_with_a_app:
  assumes "starts_with (t @ crlf @ rest) ''a=''" "t \<noteq> []"
  shows "starts_with t ''a=''"
proof -
  obtain x t' where t: "t = x # t'" using assms(2) by (cases t) auto
  show ?thesis
    using assms(1) t by (cases t') (simp_all add: crlf_def)
qed

lemma line_no_match:
  assumes "line_regex m" "plain_line l" "strict_suffix t (l @ crlf)" "t \<noteq> []"
  shows "m (t @ rest) = None"
proof -
  have "suffix t crlf \<or> (\<exists>u. t = u @ crlf \<and> suffix u l)"
    using assms(3) by (auto simp: strict_suffix_def suffix_append)
  then have "\<not> starts_with (t @ rest) ''a=''"
  proof
    assume "suffix t crlf"
    then have "t = crlf \<or> t = [CHR 0x0A]"
      using assms(4) by (auto simp: crlf_def suffix_Cons)
    then show ?thesis by (cases rest) (auto simp: crlf_def)
  next
    assume "\<exists>u. t = u @ crlf \<and> suffix u l"
    then obtain u where u: "t = u @ crlf" "suffix u l" by blast
    with assms(3) have "strict_suffix u l" by (auto simp: strict_suffix_def)
    with assms(2) have n: "\<not> starts_with u ''a=''" by (simp add: plain_line_def)
    show ?thesis
    proof (cases "u = []")
      case True
      with u show ?thesis by (simp add: crlf_def)
    next
      case False
      with n u starts_with_a_app [of u rest] show ?thesis by auto
    qed
  qed
  with assms(1) show ?thesis unfolding line_regex_def by blast
qed



lemma regex_replace_pre:
  assumes "CHR ''$'' \<notin> set fmt"
  shows "regex_replace m fmt pre s = regex_replace m fmt pre' s"
  using assms
proof (induction m fmt pre s arbitrary: pre' rule: regex_replace.induct)
  case (2 m fmt pre c s)
  note step = regex_replace.simps(2) [of m fmt _ c s]
  show ?case
  proof (cases "m (c # s)")
    case None
    from "2.IH"(1) [OF None "2.prems", of "pre' @ [c]"] None show ?thesis by (simp add: step)
  next
    case (Some x)
    obtain n v where x: "x = (n, v)" by (cases x)
    show ?thesis
    proof (cases "0 < n")
      case True
      with Some x "2.prems" show ?thesis by (simp add: step regex_format_plain)
    next
      case False
      from "2.IH"(3) [OF Some x [symmetric] False "2.prems", of "pre' @ [c]"] Some x False show ?thesis by (simp add: step)
    qed
  qed
qed simp

lemma regex_replace_rest_of_line:
  assumes "line_regex m" "plain_line l" "m (l @ crlf @ rest) = None" "CHR ''$'' \<notin> set fmt"
  shows "regex_replace m fmt pre (l @ crlf @ rest) = l @ crlf @ regex_replace m fmt [] rest"
proof -
  have "m (t @ rest) = None" if "suffix t (l @ crlf)" "t \<noteq> []" for t
  proof (cases "t = l @ crlf")
    case False
    with that line_no_match [OF assms(1,2)] show ?thesis by (simp add: strict_suffix_def)
  qed (use assms(3) in simp)
  from regex_replace_skip [of "l @ crlf" m rest fmt pre, OF this]
  show ?thesis using regex_replace_pre [OF assms(4)] by (metis append.assoc)
qed

lemma regex_replace_crlf:
  assumes "line_regex m" "CHR ''$'' \<notin> set fmt"
  shows "regex_replace m fmt pre (crlf @ rest) = crlf @ regex_replace m fmt [] rest"
proof -
  have "\<not> starts_with (crlf @ rest) ''a=''" by (simp add: crlf_def)
  then have "m (crlf @ rest) = None" using assms(1) unfolding line_regex_def by blast
  then show ?thesis
    using regex_replace_rest_of_line [of m "[]" rest fmt pre] assms by (simp add: plain_line_def)
qed

lemma takeWhile_crlf [simp]: "takeWhile (\<lambda>c. \<not> eol c) (crlf @ rest) = []"
  by (simp add: crlf_def eol_def)

lemma takeWhile_line: "\<forall>c \<in> set l. \<not> eol c \<Longrightarrow> takeWhile (\<lambda>c. \<not> eol c) (l @ crlf @ rest) = l"
  by simp

lemma starts_with_line:
  assumes "\<forall>c \<in> set name. \<not> eol c"
  shows "starts_with (l @ crlf @ rest) name \<longleftrightarrow> starts_with l name"
proof
  assume "starts_with (l @ crlf @ rest) name"
  then obtain t where t: "l @ crlf @ rest = name @ t" by (auto simp: starts_with_iff)
  then have "prefix l name \<or> prefix name l" by (metis prefixI prefix_same_cases)
  moreover have "\<not> strict_prefix l name"
  proof
    assume "strict_prefix l name"
    with t obtain u where "name = l @ CHR 0x0D # u"
      by (auto simp: strict_prefix_def prefix_def crlf_def Cons_eq_append_conv)
    then show False using assms by (auto simp: eol_def)
  qed
  ultimately show "starts_with l name" by (auto simp: starts_with_iff prefix_def strict_prefix_def)
qed (auto simp: starts_with_iff)

lemma replace_attr_line:
  assumes "starts_with name ''a=''" "\<forall>c \<in> set name. \<not> eol c" "plain_line l" "CHR ''$'' \<notin> set (name @ v)"
  shows "regex_replace (attr_regex name) (name @ v) pre (l @ crlf @ rest) =
     set_attr name v l @ crlf @ regex_replace (attr_regex name) (name @ v) [] rest"
proof -
  note lr = line_regex_attr [OF assms(1)]
  consider (hit) w where "l = name @ w" "w \<noteq> []" | (bare) "l = name" | (miss) "\<not> starts_with l name"
    by (auto simp: starts_with_iff)
  then show ?thesis
  proof cases
    case hit
    then have "\<forall>c \<in> set w. \<not> eol c" using assms(3) by (simp add: plain_line_def)
    with hit have "attr_regex name (l @ crlf @ rest) = Some (length l, w)"
      by (simp add: attr_regex_def)
    with hit regex_replace_match [of "attr_regex name" l "crlf @ rest" w "name @ v" pre]
      regex_replace_crlf [OF lr assms(4)] assms(4)
    show ?thesis by (simp add: set_attr_def)
  next
    case bare
    then have "attr_regex name (l @ crlf @ rest) = None"
      by (simp add: attr_regex_def crlf_def eol_def)
    with bare regex_replace_rest_of_line [OF lr assms(3) _ assms(4)] show ?thesis
      by (simp add: set_attr_def)
  next
    case miss
    then have "\<not> starts_with (l @ crlf @ rest) name" using assms(2) by (simp add: starts_with_line)
    then have "attr_regex name (l @ crlf @ rest) = None" by (simp add: attr_regex_def)
    with miss regex_replace_rest_of_line [OF lr assms(3) _ assms(4)] show ?thesis
      by (simp add: set_attr_def)
  qed
qed


lemma replace_candidate_line:
  assumes "plain_line l"
  shows "regex_replace candidate_regex [] pre (l @ crlf @ rest) =
     (if candidate_line l then [] else l @ crlf) @ regex_replace candidate_regex [] [] rest"
proof -
  have noeol: "\<forall>c \<in> set l. \<not> eol c" using assms by (simp add: plain_line_def)
  have names: "\<forall>c \<in> set ''a=candidate:''. \<not> eol c" "\<forall>c \<in> set ''a=end-of-candidates''. \<not> eol c"
    by (simp_all add: eol_def)
  have nl: "newline_length (crlf @ rest) = Some 2" by (simp add: newline_length_def)
  show ?thesis
  proof (cases "candidate_line l")
    case True
    have "\<exists>v. candidate_regex (l @ crlf @ rest) = Some (length (l @ crlf), v)"
    proof (cases "starts_with l ''a=candidate:''")
      case True
      then obtain w where w: "l = ''a=candidate:'' @ w" by (auto simp: starts_with_iff)
      have "drop 2 (l @ crlf @ rest) = (''candidate:'' @ w) @ crlf @ rest"
        using w by simp
      then have v: "takeWhile (\<lambda>c. \<not> eol c) (drop 2 (l @ crlf @ rest)) = ''candidate:'' @ w"
        using noeol w takeWhile_line [of "''candidate:'' @ w" rest] by (simp only:) simp
      have d: "drop (2 + length (''candidate:'' @ w)) (l @ crlf @ rest) = crlf @ rest" using w by simp
      have "starts_with (l @ crlf @ rest) ''a=candidate:''" using True starts_with_line [OF names(1)] by simp
      then show ?thesis
        unfolding candidate_regex_def v Let_def d nl using w by (simp add: crlf_def)
    next
      case False
      with True have l: "l = ''a=end-of-candidates''" by (simp add: candidate_line_def)
      have "drop 19 (l @ crlf @ rest) = crlf @ rest" using l by simp
      moreover have "starts_with (l @ crlf @ rest) ''a=end-of-candidates''" using l by (simp add: starts_with_def)
      moreover have "\<not> starts_with (l @ crlf @ rest) ''a=candidate:''" using False starts_with_line [OF names(1)] by simp
      ultimately show ?thesis using nl l by (simp add: candidate_regex_def crlf_def)
    qed
    then obtain v where v: "candidate_regex ((l @ crlf) @ rest) = Some (length (l @ crlf), v)" by auto
    with True regex_replace_match [where m = candidate_regex and u = "l @ crlf" and rest = rest and v = v and fmt = "[]" and pre = pre] show ?thesis by (simp add: crlf_def)
  next
    case False
    then have c: "\<not> starts_with (l @ crlf @ rest) ''a=candidate:''"
      using starts_with_line [OF names(1)] by (simp add: candidate_line_def)
    have "candidate_regex (l @ crlf @ rest) = None"
    proof (cases "starts_with l ''a=end-of-candidates''")
      case True
      then obtain w where w: "l = ''a=end-of-candidates'' @ w" by (auto simp: starts_with_iff)
      with False obtain x u where u: "w = x # u" "\<not> eol x" using noeol by (cases w) (auto simp: candidate_line_def)
      have "drop 19 (l @ crlf @ rest) = x # u @ crlf @ rest" using w u by simp
      moreover have "newline_length (x # u @ crlf @ rest) = None"
        using u by (auto simp: newline_length_def starts_with_def crlf_def eol_def)
      ultimately show ?thesis using c by (simp add: candidate_regex_def)
    next
      case False
      with c show ?thesis using starts_with_line [OF names(2)] by (simp add: candidate_regex_def)
    qed
    with False regex_replace_rest_of_line [OF line_regex_candidate assms, of rest "[]" pre] show ?thesis by simp
  qed
qed

lemma replace_attr_lines:
  assumes "starts_with name ''a=''" "\<forall>c \<in> set name. \<not> eol c" "CHR ''$'' \<notin> set (name @ v)"
  shows "list_all plain_line ls \<Longrightarrow>
    regex_replace (attr_regex name) (name @ v) pre (sdp_text ls) = sdp_text (map (set_attr name v) ls)"
proof (induction ls arbitrary: pre)
  case (Cons l ls)
  then show ?case
    using replace_attr_line [OF assms(1,2) _ assms(3), of l pre "sdp_text ls"] by (simp add: sdp_text_def)
qed (simp add: sdp_text_def)

lemma replace_candidate_lines:
  "list_all plain_line ls \<Longrightarrow>
   regex_replace candidate_regex [] pre (sdp_text ls) = sdp_text (filter (\<lambda>l. \<not> candidate_line l) ls)"
proof (induction ls arbitrary: pre)
  case (Cons l ls)
  then show ?case
    using replace_candidate_line [of l pre "sdp_text ls"] by (simp add: sdp_text_def)
qed (simp add: sdp_text_def)

text \<open>
  \<open>RestartIce\<close> rewrites a remote description line by line: every \<open>a=ice-ufrag\<close> and
  \<open>a=ice-pwd\<close> line gets the new credential, every candidate and end-of-candidates line is
  dropped, and all other lines are kept, in order.
\<close>

theorem restart_ice_rewrites_lines:
  assumes "list_all plain_line ls"
    and "plain_line (''a=ice-ufrag:'' @ ufrag)" "plain_line (''a=ice-pwd:'' @ pwd)"
    and "CHR ''$'' \<notin> set ufrag" "CHR ''$'' \<notin> set pwd"
  shows "RestartIceSdp ufrag pwd (sdp_text ls) =
     sdp_text (filter (\<lambda>l. \<not> candidate_line l)
       (map (\<lambda>l. set_attr ''a=ice-pwd:'' pwd (set_attr ''a=ice-ufrag:'' ufrag l)) ls))"
proof -
  have 1: "list_all plain_line (map (set_attr ''a=ice-ufrag:'' ufrag) ls)"
    using assms(1,2) by (auto simp: list_all_iff set_attr_def)
  then have 2: "list_all plain_line (map (set_attr ''a=ice-pwd:'' pwd) (map (set_attr ''a=ice-ufrag:'' ufrag) ls))"
    using assms(3) by (auto simp: list_all_iff set_attr_def)
  have "regex_replace (attr_regex ''a=ice-ufrag:'') (''a=ice-ufrag:'' @ ufrag) [] (sdp_text ls) =
      sdp_text (map (set_attr ''a=ice-ufrag:'' ufrag) ls)"
    using assms(1,4) by (intro replace_attr_lines) (auto simp: eol_def)
  moreover have "regex_replace (attr_regex ''a=ice-pwd:'') (''a=ice-pwd:'' @ pwd) []
      (sdp_text (map (set_attr ''a=ice-ufrag:'' ufrag) ls)) =
      sdp_text (map (set_attr ''a=ice-pwd:'' pwd) (map (set_attr ''a=ice-ufrag:'' ufrag) ls))"
    using 1 assms(5) by (intro replace_attr_lines) (auto simp: eol_def)
  ultimately show ?thesis
    using replace_candidate_lines [OF 2] by (simp add: RestartIceSdp_def Let_def comp_def)
qed

theorem restart_ice_rewrites_lines_witness:
  "RestartIceSdp ''new'' ''secret''
     (sdp_text [''v=0'', ''a=ice-ufrag:old'', ''a=ice-pwd:x'', ''a=candidate:1 1'', ''a=end-of-candidates'', ''a=sendrecv'']) =
   sdp_text (filter (\<lambda>l. \<not> candidate_line l)
     (map (\<lambda>l. set_attr ''a=ice-pwd:'' ''secret'' (set_attr ''a=ice-ufrag:'' ''new'' l))
       [''v=0'', ''a=ice-ufrag:old'', ''a=ice-pwd:x'', ''a=candidate:1 1'', ''a=end-of-candidates'', ''a=sendrecv'']))"
  by (rule restart_ice_rewrites_lines) (simp_all add: plain_line_code eol_def starts_with_def)

end
