(* ===== verification/RtcPeer.thy ===== *)
theory RtcPeer
  imports DataChannel SdpText
begin

text \<open>
  \<open>RtcPeer\<close> (src/src/rtc/rtc_peer.cpp): one peer connection. The methods the signaling
  services call, the callbacks of libwebrtc and the delayed tasks are the events of a machine;
  what the peer asks of libwebrtc and what it tells its owner are its outputs. libwebrtc runs
  the callbacks on one thread; it and its parsers are outside the repository, so its parsers
  are passed in as an \<open>rtc_api\<close> and its decisions are events.
\<close>

section \<open>State\<close>

datatype signaling_backend = Direct | Whep | LiveKit | Cloudflare

datatype sig_state = kStable | kHaveLocalOffer | kHaveLocalPrAnswer | kHaveRemoteOffer | kHaveRemotePrAnswer | kSigClosed

datatype conn_state = kNew | kConnectingState | kConnected | kDisconnected | kFailed | kConnClosed

datatype sdp_type = kOffer | kPrAnswer | kAnswer | kRollback

type_synonym ice = "string \<times> int \<times> string"   \<comment> \<open>sdp_mid, sdp_mline_index, candidate\<close>

record rtc_api =
  SdpTypeFromString :: "string \<Rightarrow> sdp_type option"
  SdpTypeToString :: "sdp_type \<Rightarrow> string"
  ParsesSdp :: "sdp_type \<Rightarrow> string \<Rightarrow> bool"
  ParsesIce :: "ice \<Rightarrow> bool"
  DescToString :: "string \<Rightarrow> ice list \<Rightarrow> string"

record local_desc =
  ld_type :: sdp_type
  ld_sdp :: string
  ld_candidates :: "ice list"

text \<open>
  A safety flag is a number; \<open>rp_alive\<close> holds those that are alive. \<open>rp_pc\<close> says whether
  \<open>peer_connection_\<close> is set, \<open>rp_remote\<close> what its \<open>remote_description()\<close> is.
  \<open>rp_checked\<close> are the candidates of calls that have found no remote description and are about to take
  the lock, \<open>rp_posted\<close> counts the tasks of \<open>MarkExpired\<close> that have not run.
  Data channels are numbered; \<open>rp_link\<close> is the \<open>stream_\<close> of each command channel.
\<close>

record peer =
  rp_id :: string
  rp_timeout :: int
  rp_backend :: signaling_backend
  rp_publisher :: bool
  rp_candidates_in_sdp :: bool
  rp_needs_renegotiation :: bool
  rp_connected :: bool
  rp_expired :: bool
  rp_posted :: nat
  rp_terminating :: bool
  rp_negotiating :: bool
  rp_on_expired :: bool
  rp_on_connection_state :: bool
  rp_on_local_sdp :: bool
  rp_on_local_ice :: bool
  rp_next_flag :: nat
  rp_alive :: "nat list"
  rp_deadline :: "nat option"
  rp_sdp_emit :: "nat option"
  rp_signaling :: sig_state
  rp_desc :: "local_desc option"
  rp_pc :: bool
  rp_remote :: "string option"
  rp_checked :: "ice list"
  rp_pending_ice :: "ice list"
  rp_channels :: "channel_role \<Rightarrow> nat option"
  rp_link :: "nat \<Rightarrow> nat option"

datatype peer_out =
    PcCreateOffer
  | PcCreateAnswer
  | PcClose
  | PcSetLocal local_desc
  | PcRollback string string       \<comment> \<open>on success, SetRemoteSdp of this is called again\<close>
  | PcSetRemote sdp_type string
  | PcVideoInactive
  | PcAddIce ice
  | PcCreateDataChannel string dc_init
  | PostDeadline nat int
  | PostSdpEmit nat int
  | PostExpired
  | Expired string
  | LocalSdp string string
  | LocalIce ice
  | ConnectionState conn_state
  | ChannelTerminated nat
  | NullDeref

definition RtcPeerInit :: "string \<Rightarrow> int \<Rightarrow> signaling_backend \<Rightarrow> bool \<Rightarrow> bool \<Rightarrow> peer" where
  "RtcPeerInit i timeout backend publisher cands =
     \<lparr>rp_id = i, rp_timeout = timeout, rp_backend = backend, rp_publisher = publisher, rp_candidates_in_sdp = cands,
      rp_needs_renegotiation = False, rp_connected = False, rp_expired = False, rp_posted = 0, rp_terminating = False,
      rp_negotiating = False, rp_on_expired = False, rp_on_connection_state = False, rp_on_local_sdp = False,
      rp_on_local_ice = False, rp_next_flag = 0, rp_alive = [], rp_deadline = None, rp_sdp_emit = None,
      rp_signaling = kStable, rp_desc = None, rp_pc = False, rp_remote = None, rp_checked = [], rp_pending_ice = [],
      rp_channels = (\<lambda>_. None), rp_link = (\<lambda>_. None)\<rparr>"

definition can_renegotiate :: "peer \<Rightarrow> bool" where
  "can_renegotiate s \<longleftrightarrow> rp_backend s = Direct"

definition is_sfu_peer :: "peer \<Rightarrow> bool" where
  "is_sfu_peer s \<longleftrightarrow> rp_backend s = LiveKit \<or> rp_backend s = Cloudflare"

section \<open>Offers and the connect deadline\<close>

definition CreateOffer :: "peer \<Rightarrow> peer \<times> peer_out list" where
  "CreateOffer s =
     (if rp_signaling s = kHaveLocalOffer then (s, [])
      else if rp_pc s then (s, [PcCreateOffer]) else (s, [NullDeref]))"

definition kill_flag :: "nat option \<Rightarrow> nat list \<Rightarrow> nat list" where
  "kill_flag f alive = (case f of None \<Rightarrow> alive | Some n \<Rightarrow> filter (\<lambda>m. m \<noteq> n) alive)"

definition flag_alive :: "nat option \<Rightarrow> peer \<Rightarrow> bool" where
  "flag_alive f s \<longleftrightarrow> (case f of None \<Rightarrow> False | Some n \<Rightarrow> n \<in> set (rp_alive s))"

definition RenewDeadline :: "peer \<Rightarrow> peer" where
  "RenewDeadline s =
     s\<lparr>rp_alive := rp_next_flag s # kill_flag (rp_deadline s) (rp_alive s),
       rp_deadline := Some (rp_next_flag s), rp_next_flag := rp_next_flag s + 1\<rparr>"

definition RenewSdpEmit :: "peer \<Rightarrow> peer" where
  "RenewSdpEmit s =
     s\<lparr>rp_alive := rp_next_flag s # kill_flag (rp_sdp_emit s) (rp_alive s),
       rp_sdp_emit := Some (rp_next_flag s), rp_next_flag := rp_next_flag s + 1\<rparr>"

definition ArmConnectDeadline :: "peer \<Rightarrow> peer \<times> peer_out list" where
  "ArmConnectDeadline s =
     (let s' = RenewDeadline s in (s', [PostDeadline (rp_next_flag s) (rp_timeout s)]))"

text \<open>The delayed task of \<open>ArmConnectDeadline\<close>, posted with flag \<open>n\<close>.\<close>

definition ConnectDeadlineTask :: "nat \<Rightarrow> peer \<Rightarrow> peer \<times> peer_out list" where
  "ConnectDeadlineTask n s =
     (s, if n \<in> set (rp_alive s) \<and> rp_pc s \<and> \<not> rp_connected s then [PcClose] else [])"

definition MarkExpired :: "peer \<Rightarrow> peer \<times> peer_out list" where
  "MarkExpired s =
     (if rp_expired s \<or> \<not> rp_on_expired s then (s\<lparr>rp_expired := True\<rparr>, [])
      else (s\<lparr>rp_expired := True, rp_posted := rp_posted s + 1\<rparr>, [PostExpired]))"

text \<open>The task it posts, with copies of the listener and the id: nothing of the peer is looked at again.\<close>

definition ExpiredTask :: "peer \<Rightarrow> peer \<times> peer_out list" where
  "ExpiredTask s = (if rp_posted s = 0 then (s, []) else (s\<lparr>rp_posted := rp_posted s - 1\<rparr>, [Expired (rp_id s)]))"

text \<open>
  \<open>Terminate\<close> up to and with \<open>Close\<close>, during which libwebrtc may call back, and the rest of it.
\<close>

definition TerminateBegin :: "peer \<Rightarrow> peer \<times> peer_out list" where
  "TerminateBegin s =
     (s\<lparr>rp_connected := False, rp_expired := True, rp_terminating := True,
        rp_alive := kill_flag (rp_sdp_emit s) (kill_flag (rp_deadline s) (rp_alive s))\<rparr>,
      if rp_pc s then [PcClose] else [])"

definition TerminateChannels :: "peer \<Rightarrow> peer \<times> peer_out list" where
  "TerminateChannels s =
     (s\<lparr>rp_channels := (\<lambda>_. None)\<rparr>,
      map ChannelTerminated (List.map_filter (rp_channels s) [Command, Stream, Lossy, Reliable]))"

definition TerminateEnd :: "peer \<Rightarrow> peer \<times> peer_out list" where
  "TerminateEnd s =
     TerminateChannels (s\<lparr>rp_pc := False, rp_on_local_sdp := False, rp_on_local_ice := False,
        rp_on_connection_state := False, rp_desc := None\<rparr>)"

section \<open>Local descriptions\<close>

definition SendLocalSdp :: "rtc_api \<Rightarrow> peer \<Rightarrow> peer \<times> peer_out list" where
  "SendLocalSdp api s =
     (if rp_sdp_emit s = None then (s, [NullDeref])
      else let s' = s\<lparr>rp_alive := kill_flag (rp_sdp_emit s) (rp_alive s)\<rparr>
        in if rp_terminating s' \<or> \<not> rp_on_local_sdp s' then (s', [])
           else (case rp_desc s' of
                   None \<Rightarrow> (s', [NullDeref])
                 | Some d \<Rightarrow> (s', [LocalSdp (DescToString api (ld_sdp d) (ld_candidates d))
                                           (SdpTypeToString api (ld_type d))])))"

definition EmitLocalSdp :: "rtc_api \<Rightarrow> int \<Rightarrow> peer \<Rightarrow> peer \<times> peer_out list" where
  "EmitLocalSdp api delay_sec s =
     (if \<not> rp_on_local_sdp s then (s, [])
      else let s' = RenewSdpEmit s
        in if delay_sec > 0 then (s', [PostSdpEmit (rp_next_flag s) delay_sec]) else SendLocalSdp api s')"

definition SdpEmitTask :: "rtc_api \<Rightarrow> nat \<Rightarrow> peer \<Rightarrow> peer \<times> peer_out list" where
  "SdpEmitTask api n s = (if n \<in> set (rp_alive s) then SendLocalSdp api s else (s, []))"

definition OnSuccess :: "rtc_api \<Rightarrow> sdp_type \<Rightarrow> string \<Rightarrow> peer \<Rightarrow> peer \<times> peer_out list" where
  "OnSuccess api type sdp s =
     (if \<not> ParsesSdp api type sdp then (s\<lparr>rp_desc := None\<rparr>, [])
      else let d = \<lparr>ld_type = type, ld_sdp = sdp, ld_candidates = []\<rparr>; s' = s\<lparr>rp_desc := Some d\<rparr>
        in if \<not> rp_pc s' then (s', [NullDeref])
           else (case EmitLocalSdp api (if rp_candidates_in_sdp s' then 1 else 0) s' of
                   (s'', os) \<Rightarrow> (s'', PcSetLocal d # os)))"

definition OnIceGatheringChange :: "rtc_api \<Rightarrow> bool \<Rightarrow> peer \<Rightarrow> peer \<times> peer_out list" where
  "OnIceGatheringChange api complete s =
     (if complete \<and> flag_alive (rp_sdp_emit s) s then SendLocalSdp api s else (s, []))"

definition OnIceCandidate :: "ice \<Rightarrow> peer \<Rightarrow> peer \<times> peer_out list" where
  "OnIceCandidate c s =
     (let s' = (if rp_candidates_in_sdp s
                then s\<lparr>rp_desc := map_option (\<lambda>d. d\<lparr>ld_candidates := ld_candidates d @ [c]\<rparr>) (rp_desc s)\<rparr> else s)
      in (s', if \<not> rp_terminating s' \<and> rp_on_local_ice s' then [LocalIce c] else []))"

section \<open>Signaling and connection states\<close>

definition OnSignalingChange :: "sig_state \<Rightarrow> peer \<Rightarrow> peer \<times> peer_out list" where
  "OnSignalingChange new_state s =
     (let previous_state = rp_signaling s;
          s' = s\<lparr>rp_signaling := new_state,
                 rp_negotiating := (new_state = kHaveLocalOffer \<or> new_state = kHaveRemoteOffer)\<rparr>
      in if new_state = kHaveRemoteOffer then ArmConnectDeadline s'
         else if new_state = kStable \<and> previous_state = kHaveRemoteOffer \<and> rp_connected s' \<and>
                 rp_needs_renegotiation s' \<and> can_renegotiate s'
         then CreateOffer (s'\<lparr>rp_needs_renegotiation := False\<rparr>)
         else if new_state = kStable \<and> rp_connected s' \<and> \<not> rp_needs_renegotiation s' \<and>
                 can_renegotiate s' \<and> rp_candidates_in_sdp s'
         then (s'\<lparr>rp_on_local_ice := False, rp_on_local_sdp := False\<rparr>, [])
         else (s', []))"

definition OnConnectionChange :: "conn_state \<Rightarrow> peer \<Rightarrow> peer \<times> peer_out list" where
  "OnConnectionChange new_state s =
     (case (if new_state = kConnected
            then (let s1 = RenewDeadline (s\<lparr>rp_connected := True\<rparr>)
                  in if rp_needs_renegotiation s1 \<and> rp_signaling s1 = kStable
                     then CreateOffer (s1\<lparr>rp_needs_renegotiation := False\<rparr>) else (s1, []))
            else if new_state = kFailed then ArmConnectDeadline (s\<lparr>rp_connected := False\<rparr>)
            else if new_state = kConnClosed then MarkExpired (s\<lparr>rp_connected := False\<rparr>)
            else (s, [])) of
        (s2, os) \<Rightarrow> (s2, os @ (if \<not> rp_terminating s2 \<and> rp_on_connection_state s2
                                then [ConnectionState new_state] else [])))"

definition OnRenegotiationNeeded :: "peer \<Rightarrow> peer \<times> peer_out list" where
  "OnRenegotiationNeeded s =
     (if \<not> can_renegotiate s then (s, [])
      else let s' = s\<lparr>rp_needs_renegotiation := True\<rparr>
        in if rp_connected s' \<and> rp_signaling s' = kStable
           then CreateOffer (s'\<lparr>rp_needs_renegotiation := False\<rparr>) else (s', []))"

section \<open>Remote descriptions and candidates\<close>

definition SetRemoteSdp :: "rtc_api \<Rightarrow> string \<Rightarrow> string \<Rightarrow> peer \<Rightarrow> peer \<times> peer_out list" where
  "SetRemoteSdp api sdp type_name s =
     (if \<not> rp_pc s then (s, [])
      else if \<not> rp_negotiating s \<and> type_name \<noteq> ''offer'' then (s, [])
      else (case SdpTypeFromString api type_name of
              None \<Rightarrow> (s, [])
            | Some type \<Rightarrow>
                (if type = kOffer \<and> rp_signaling s = kHaveLocalOffer
                 then ((if can_renegotiate s then s\<lparr>rp_needs_renegotiation := True\<rparr> else s), [PcRollback sdp type_name])
                 else if \<not> ParsesSdp api type sdp then (s, [])
                 else (s, PcSetRemote type sdp #
                   (if type = kOffer
                    then (if is_sfu_peer s \<and> \<not> rp_publisher s then [PcVideoInactive] else []) @ [PcCreateAnswer]
                    else [])))))"

text \<open>
  The remote description is looked at without the lock, which is only taken for the push
  (\<open>BufferIce\<close>): other threads may run in between.
\<close>

definition SetRemoteIce :: "rtc_api \<Rightarrow> ice \<Rightarrow> peer \<Rightarrow> peer \<times> peer_out list" where
  "SetRemoteIce api c s =
     (if \<not> rp_pc s then (s, [])
      else if rp_remote s = None then (s\<lparr>rp_checked := rp_checked s @ [c]\<rparr>, [])
      else (s, if ParsesIce api c then [PcAddIce c] else []))"

definition BufferIce :: "ice \<Rightarrow> peer \<Rightarrow> peer" where
  "BufferIce c s =
     (if c \<in> set (rp_checked s)
      then s\<lparr>rp_checked := remove1 c (rp_checked s), rp_pending_ice := rp_pending_ice s @ [c]\<rparr> else s)"

definition FlushPendingIce :: "rtc_api \<Rightarrow> peer \<Rightarrow> peer \<times> peer_out list" where
  "FlushPendingIce api s =
     (s\<lparr>rp_pending_ice := []\<rparr>,
      if rp_pc s then map PcAddIce (filter (ParsesIce api) (rp_pending_ice s))
      else if filter (ParsesIce api) (rp_pending_ice s) = [] then [] else [NullDeref])"

text \<open>
  \<open>RestartIce\<close>: \<open>rp_remote\<close> is what \<open>remote_description()->ToString\<close> gives; the result
  is the return value and the call of \<open>SetRemoteSdp\<close>.
\<close>

definition RestartIce :: "rtc_api \<Rightarrow> string \<Rightarrow> string \<Rightarrow> peer \<Rightarrow> bool \<times> peer \<times> peer_out list" where
  "RestartIce api ice_ufrag ice_pwd s =
     (if \<not> rp_pc s then (False, s, [])
      else (case rp_remote s of
              None \<Rightarrow> (False, s, [])
            | Some remote_sdp \<Rightarrow> (True, SetRemoteSdp api (RestartIceSdp ice_ufrag ice_pwd remote_sdp) ''offer'' s)))"

section \<open>Data channels\<close>

text \<open>\<open>AddChannel\<close> of the data channel numbered \<open>dc\<close>: a new channel object replaces the role's.\<close>

definition AddChannel :: "channel_role \<Rightarrow> nat \<Rightarrow> peer \<Rightarrow> peer" where
  "AddChannel role dc s =
     (let s' = s\<lparr>rp_channels := (rp_channels s)(role \<mapsto> dc)\<rparr>
      in case (rp_channels s' Command, rp_channels s' Stream) of
           (Some command, Some stream) \<Rightarrow> s'\<lparr>rp_link := (rp_link s')(command \<mapsto> stream)\<rparr>
         | _ \<Rightarrow> s')"

definition framing_of :: "peer \<Rightarrow> string \<Rightarrow> framing" where
  "framing_of s topic = (case rp_backend s of LiveKit \<Rightarrow> LiveKitFraming topic | _ \<Rightarrow> PlainFraming (rp_id s))"

text \<open>\<open>result\<close> is what \<open>CreateDataChannelOrError\<close> returns: a channel, or an error.\<close>

definition CreateDataChannel :: "channel_role \<Rightarrow> int option \<Rightarrow> nat option \<Rightarrow> peer \<Rightarrow> peer \<times> peer_out list" where
  "CreateDataChannel role i result s =
     (let init = RoleInit role;
          init' = (if rp_backend s \<noteq> LiveKit
                   then init\<lparr>init_negotiated := True,
                             init_id := (case i of None \<Rightarrow> RoleId role | Some n \<Rightarrow> n)\<rparr>
                   else init)
      in if \<not> rp_pc s then (s, [NullDeref])
         else (case result of
                 None \<Rightarrow> (s, [PcCreateDataChannel (RoleLabel role) init'])
               | Some dc \<Rightarrow> (AddChannel role dc s, [PcCreateDataChannel (RoleLabel role) init'])))"

definition OnDataChannel :: "string \<Rightarrow> nat \<Rightarrow> peer \<Rightarrow> peer" where
  "OnDataChannel label dc s =
     (case RoleFromLabel label of None \<Rightarrow> s | Some role \<Rightarrow> AddChannel role dc s)"

definition GetChannel :: "channel_role \<Rightarrow> peer \<Rightarrow> nat option" where
  "GetChannel role s = rp_channels s role"

text \<open>The handler \<open>AddChannel\<close> registers for DISCONNECT on a command channel.\<close>

definition DisconnectHandler :: "peer \<Rightarrow> peer \<times> peer_out list" where
  "DisconnectHandler s = (s, if rp_pc s then [PcClose] else [])"

section \<open>The peer as a machine\<close>

datatype peer_event =
    EvSetPeer
  | EvSetLocalSdpCallback
  | EvSetLocalIceCallback
  | EvSetExpiredCallback
  | EvSetStateCallback
  | EvCreateOffer
  | EvTerminateBegin
  | EvTerminateEnd
  | EvSetRemoteSdp string string
  | EvSetRemoteIce ice
  | EvBufferIce ice
  | EvRestartIce string string
  | EvCreateDataChannel channel_role "int option" "nat option"
  | EvDisconnectCommand
  | CbSignaling sig_state
  | CbDataChannel string nat
  | CbGathering bool
  | CbConnection conn_state
  | CbCandidate ice
  | CbRenegotiationNeeded
  | CbSuccess sdp_type string
  | CbFailure
  | CbRemoteApplied string          \<comment> \<open>\<open>remote_description()\<close> is this from now on\<close>
  | CbRemoteSet                     \<comment> \<open>success of SetRemoteDescription\<close>
  | CbRolledBack string string      \<comment> \<open>success of the rollback\<close>
  | TaskDeadline nat
  | TaskSdpEmit nat
  | TaskExpired

fun peer_step :: "rtc_api \<Rightarrow> peer \<Rightarrow> peer_event \<Rightarrow> peer \<times> peer_out list" where
  "peer_step api s EvSetPeer = (s\<lparr>rp_pc := True\<rparr>, [])"
| "peer_step api s EvSetLocalSdpCallback = (s\<lparr>rp_on_local_sdp := True\<rparr>, [])"
| "peer_step api s EvSetLocalIceCallback = (s\<lparr>rp_on_local_ice := True\<rparr>, [])"
| "peer_step api s EvSetExpiredCallback = (s\<lparr>rp_on_expired := True\<rparr>, [])"
| "peer_step api s EvSetStateCallback = (s\<lparr>rp_on_connection_state := True\<rparr>, [])"
| "peer_step api s EvCreateOffer = CreateOffer s"
| "peer_step api s EvTerminateBegin = TerminateBegin s"
| "peer_step api s EvTerminateEnd = TerminateEnd s"
| "peer_step api s (EvSetRemoteSdp sdp type_name) = SetRemoteSdp api sdp type_name s"
| "peer_step api s (EvSetRemoteIce c) = SetRemoteIce api c s"
| "peer_step api s (EvBufferIce c) = (BufferIce c s, [])"
| "peer_step api s (EvRestartIce u p) = snd (RestartIce api u p s)"
| "peer_step api s (EvCreateDataChannel role i result) = CreateDataChannel role i result s"
| "peer_step api s EvDisconnectCommand = DisconnectHandler s"
| "peer_step api s (CbSignaling st) = OnSignalingChange st s"
| "peer_step api s (CbDataChannel label dc) = (OnDataChannel label dc s, [])"
| "peer_step api s (CbGathering complete) = OnIceGatheringChange api complete s"
| "peer_step api s (CbConnection st) = OnConnectionChange st s"
| "peer_step api s (CbCandidate c) = OnIceCandidate c s"
| "peer_step api s CbRenegotiationNeeded = OnRenegotiationNeeded s"
| "peer_step api s (CbSuccess type sdp) = OnSuccess api type sdp s"
| "peer_step api s CbFailure = (s, [])"
| "peer_step api s (CbRemoteApplied sdp) = (s\<lparr>rp_remote := Some sdp\<rparr>, [])"
| "peer_step api s CbRemoteSet = FlushPendingIce api s"
| "peer_step api s (CbRolledBack sdp type_name) = SetRemoteSdp api sdp type_name s"
| "peer_step api s (TaskDeadline n) = ConnectDeadlineTask n s"
| "peer_step api s (TaskSdpEmit n) = SdpEmitTask api n s"
| "peer_step api s TaskExpired = ExpiredTask s"

lemmas peer_ops = CreateOffer_def ArmConnectDeadline_def RenewDeadline_def RenewSdpEmit_def
  ConnectDeadlineTask_def MarkExpired_def TerminateBegin_def TerminateEnd_def TerminateChannels_def
  SendLocalSdp_def EmitLocalSdp_def SdpEmitTask_def OnSuccess_def OnIceGatheringChange_def
  OnIceCandidate_def OnSignalingChange_def OnConnectionChange_def OnRenegotiationNeeded_def
  SetRemoteSdp_def SetRemoteIce_def FlushPendingIce_def RestartIce_def CreateDataChannel_def
  OnDataChannel_def AddChannel_def DisconnectHandler_def BufferIce_def ExpiredTask_def Let_def

text \<open>
  Most operations only deal with negotiation: they leave the connection, the candidates, the
  channels and the expiry alone, and neither apply a candidate, announce the expiry nor end a channel.
\<close>

definition core :: "peer \<Rightarrow> bool \<times> ice list \<times> string option \<times> (channel_role \<Rightarrow> nat option) \<times>
    (nat \<Rightarrow> nat option) \<times> bool \<times> bool \<times> ice list \<times> nat \<times> string" where
  "core s = (rp_pc s, rp_pending_ice s, rp_remote s, rp_channels s, rp_link s, rp_expired s, rp_on_expired s, rp_checked s, rp_posted s, rp_id s)"

fun plain_out :: "peer_out \<Rightarrow> bool" where
  "plain_out (PcAddIce _) = False"
| "plain_out PostExpired = False"
| "plain_out (Expired _) = False"
| "plain_out (ChannelTerminated _) = False"
| "plain_out _ = True"

definition keeps_core :: "peer \<Rightarrow> peer \<times> peer_out list \<Rightarrow> bool" where
  "keeps_core s r \<longleftrightarrow> core (fst r) = core s \<and> list_all plain_out (snd r)"

lemma keeps_core_if:
  "(b \<Longrightarrow> keeps_core s x) \<Longrightarrow> (\<not> b \<Longrightarrow> keeps_core s y) \<Longrightarrow> keeps_core s (if b then x else y)"
  by simp

lemma keeps_core_done: "core s' = core s \<Longrightarrow> keeps_core s (s', [])"
  by (simp add: keeps_core_def)

lemma keeps_core_CreateOffer: "core s1 = core s \<Longrightarrow> keeps_core s (CreateOffer s1)"
  by (simp add: keeps_core_def CreateOffer_def)

lemma keeps_core_ArmConnectDeadline: "core s1 = core s \<Longrightarrow> keeps_core s (ArmConnectDeadline s1)"
  by (simp add: keeps_core_def ArmConnectDeadline_def RenewDeadline_def Let_def core_def)

lemma keeps_core_SendLocalSdp: "core s1 = core s \<Longrightarrow> keeps_core s (SendLocalSdp api s1)"
  by (auto simp: keeps_core_def SendLocalSdp_def Let_def core_def split: option.split)

lemma keeps_core_EmitLocalSdp: "core s1 = core s \<Longrightarrow> keeps_core s (EmitLocalSdp api delay s1)"
proof -
  assume c: "core s1 = core s"
  have "core (RenewSdpEmit s1) = core s" using c by (simp add: core_def RenewSdpEmit_def)
  with c keeps_core_SendLocalSdp [of "RenewSdpEmit s1" s api] show ?thesis
    by (simp add: EmitLocalSdp_def Let_def keeps_core_def)
qed

lemma keeps_core_OnSuccess: "keeps_core s (OnSuccess api type sdp s)"
proof -
  have "keeps_core s (EmitLocalSdp api delay (s\<lparr>rp_desc := d\<rparr>))" for delay d
    by (rule keeps_core_EmitLocalSdp) (simp add: core_def)
  then show ?thesis
    by (auto simp: OnSuccess_def Let_def keeps_core_def core_def case_prod_unfold)
qed

lemma keeps_core_OnSignalingChange: "keeps_core s (OnSignalingChange st s)"
  unfolding OnSignalingChange_def Let_def
  by (intro keeps_core_if keeps_core_ArmConnectDeadline keeps_core_CreateOffer keeps_core_done; simp add: core_def)

lemma keeps_core_OnConnectionChange: "st \<noteq> kConnClosed \<Longrightarrow> keeps_core s (OnConnectionChange st s)"
proof -
  assume st: "st \<noteq> kConnClosed"
  have "keeps_core s (ArmConnectDeadline (s\<lparr>rp_connected := False\<rparr>))"
    "keeps_core s (CreateOffer ((RenewDeadline (s\<lparr>rp_connected := True\<rparr>))\<lparr>rp_needs_renegotiation := False\<rparr>))"
    by (rule keeps_core_ArmConnectDeadline keeps_core_CreateOffer; simp add: core_def RenewDeadline_def)+
  with st show ?thesis
    by (auto simp: OnConnectionChange_def Let_def case_prod_unfold keeps_core_def)
       (simp_all add: core_def RenewDeadline_def)
qed

lemma keeps_core_OnRenegotiationNeeded: "keeps_core s (OnRenegotiationNeeded s)"
  unfolding OnRenegotiationNeeded_def Let_def
  by (intro keeps_core_if keeps_core_CreateOffer keeps_core_done; simp add: core_def)

lemma keeps_core_SetRemoteSdp: "keeps_core s (SetRemoteSdp api sdp type_name s)"
  by (auto simp: keeps_core_def SetRemoteSdp_def core_def split: option.split)

text \<open>The events that do not touch the core.\<close>

fun negotiates :: "peer_event \<Rightarrow> bool" where
  "negotiates EvSetPeer = False"
| "negotiates EvSetExpiredCallback = False"
| "negotiates EvTerminateBegin = False"
| "negotiates EvTerminateEnd = False"
| "negotiates (EvSetRemoteIce _) = False"
| "negotiates (EvBufferIce _) = False"
| "negotiates TaskExpired = False"
| "negotiates (EvCreateDataChannel _ _ _) = False"
| "negotiates (CbDataChannel _ _) = False"
| "negotiates (CbConnection st) = (st \<noteq> kConnClosed)"
| "negotiates (CbRemoteApplied _) = False"
| "negotiates CbRemoteSet = False"
| "negotiates _ = True"

lemma keeps_core_step: "negotiates e \<Longrightarrow> keeps_core s (peer_step api s e)"
proof (cases e)
  case (CbCandidate c)
  then show ?thesis by (simp add: OnIceCandidate_def Let_def keeps_core_def core_def)
next
  case (CbGathering complete)
  then show ?thesis
    using keeps_core_SendLocalSdp [of s s api] by (simp add: OnIceGatheringChange_def keeps_core_def)
next
  case (TaskSdpEmit n)
  then show ?thesis
    using keeps_core_SendLocalSdp [of s s api] by (simp add: SdpEmitTask_def keeps_core_def)
next
  case (EvRestartIce u p)
  then show ?thesis
    using keeps_core_SetRemoteSdp by (auto simp: RestartIce_def keeps_core_def split: option.split)
next
  case EvDisconnectCommand
  then show ?thesis by (simp add: DisconnectHandler_def keeps_core_def)
next
  case (TaskDeadline n)
  then show ?thesis by (simp add: ConnectDeadlineTask_def keeps_core_def)
qed (simp_all add: keeps_core_CreateOffer keeps_core_OnSuccess keeps_core_OnSignalingChange
      keeps_core_OnConnectionChange keeps_core_OnRenegotiationNeeded keeps_core_SetRemoteSdp,
     simp_all add: keeps_core_def core_def)

text \<open>The outputs a terminated peer must not produce: everything it would tell its owner.\<close>

fun tells_owner :: "peer_out \<Rightarrow> bool" where
  "tells_owner (LocalSdp _ _) = True"
| "tells_owner (LocalIce _) = True"
| "tells_owner (ConnectionState _) = True"
| "tells_owner PostExpired = True"
| "tells_owner (Expired _) = True"
| "tells_owner _ = False"

text \<open>A peer that has been terminated says nothing, but for the tasks that had been posted before.\<close>

definition terminated :: "peer \<Rightarrow> bool" where
  "terminated s \<longleftrightarrow> rp_terminating s \<and> rp_expired s"

definition peer_quiet :: "peer \<Rightarrow> bool" where
  "peer_quiet s \<longleftrightarrow> terminated s \<and> rp_posted s = 0"

lemma terminated_step:
  assumes "terminated s"
  shows "terminated (fst (peer_step api s e)) \<and> rp_id (fst (peer_step api s e)) = rp_id s \<and>
    (\<exists>k. filter tells_owner (snd (peer_step api s e)) = replicate k (Expired (rp_id s)) \<and>
         k + rp_posted (fst (peer_step api s e)) = rp_posted s)"
proof (cases "e = TaskExpired")
  case True
  show ?thesis
  proof (cases "rp_posted s")
    case 0
    then show ?thesis using assms True by (auto simp: terminated_def ExpiredTask_def intro: exI [of _ 0])
  next
    case (Suc n)
    then show ?thesis using assms True by (auto simp: terminated_def ExpiredTask_def intro: exI [of _ 1])
  qed
next
  case False
  have "list_all (\<lambda>x. \<not> tells_owner x) (snd (peer_step api s e)) \<and> terminated (fst (peer_step api s e)) \<and>
      rp_id (fst (peer_step api s e)) = rp_id s \<and> rp_posted (fst (peer_step api s e)) = rp_posted s"
    using assms False by (cases e) (auto simp: terminated_def peer_ops list_all_iff split: option.splits)
  then show ?thesis by (auto simp: list_all_iff filter_empty_conv intro: exI [of _ 0])
qed

lemma terminated_run:
  "terminated s \<Longrightarrow> \<exists>k. filter tells_owner (snd (run (peer_step api) s es)) = replicate k (Expired (rp_id s)) \<and>
     k + rp_posted (fst (run (peer_step api) s es)) = rp_posted s"
proof (induction es arbitrary: s)
  case (Cons e es)
  let ?s = "fst (peer_step api s e)"
  obtain k where k: "filter tells_owner (snd (peer_step api s e)) = replicate k (Expired (rp_id s))" "k + rp_posted ?s = rp_posted s"
    and t: "terminated ?s" "rp_id ?s = rp_id s"
    using terminated_step [OF Cons.prems, of api e] by blast
  obtain j where "filter tells_owner (snd (run (peer_step api) ?s es)) = replicate j (Expired (rp_id s))"
      "j + rp_posted (fst (run (peer_step api) ?s es)) = rp_posted ?s"
    using Cons.IH [OF t(1)] t(2) by auto
  then show ?case using k by (auto simp: replicate_add [symmetric] simp del: peer_step.simps intro!: exI [of _ "k + j"])
qed simp

interpretation peer: quiet_machine "peer_step api" "\<lambda>_. True" peer_quiet tells_owner for api
proof unfold_locales
  fix s e assume q: "peer_quiet s"
  then have "\<exists>k. filter tells_owner (snd (peer_step api s e)) = replicate k (Expired (rp_id s)) \<and>
         k + rp_posted (fst (peer_step api s e)) = 0" and t: "terminated (fst (peer_step api s e))"
    using terminated_step [of s api e] by (auto simp: peer_quiet_def)
  then have n: "filter tells_owner (snd (peer_step api s e)) = []" "rp_posted (fst (peer_step api s e)) = 0" by auto
  then show "peer_quiet (fst (peer_step api s e))" using t by (simp add: peer_quiet_def)
  show "list_all (\<lambda>x. \<not> tells_owner x) (snd (peer_step api s e))" using n(1) by (simp add: filter_empty_conv list_all_iff)
qed simp

section \<open>Expiry\<close>

fun is_expiry :: "peer_out \<Rightarrow> bool" where
  "is_expiry (Expired _) = True"
| "is_expiry _ = False"

text \<open>One step: who expires the peer, when a task is posted, and when it runs.\<close>

lemma expiry_step:
  "rp_id (fst (peer_step api s e)) = rp_id s"
  "rp_expired (fst (peer_step api s e)) \<longleftrightarrow> rp_expired s \<or> e = EvTerminateBegin \<or> e = CbConnection kConnClosed"
  "rp_on_expired s \<Longrightarrow> rp_on_expired (fst (peer_step api s e))"
  "\<exists>k. filter is_expiry (snd (peer_step api s e)) = replicate k (Expired (rp_id s)) \<and>
     k + rp_posted (fst (peer_step api s e)) =
       rp_posted s + of_bool (\<not> rp_expired s \<and> rp_on_expired s \<and> e = CbConnection kConnClosed)"
proof -
  have "rp_id (fst (peer_step api s e)) = rp_id s \<and>
    (rp_expired (fst (peer_step api s e)) \<longleftrightarrow> rp_expired s \<or> e = EvTerminateBegin \<or> e = CbConnection kConnClosed) \<and>
    (rp_on_expired s \<longrightarrow> rp_on_expired (fst (peer_step api s e))) \<and>
    (\<exists>k. filter is_expiry (snd (peer_step api s e)) = replicate k (Expired (rp_id s)) \<and>
       k + rp_posted (fst (peer_step api s e)) =
         rp_posted s + of_bool (\<not> rp_expired s \<and> rp_on_expired s \<and> e = CbConnection kConnClosed))"
  proof (cases "negotiates e")
    case True
    then have c: "core (fst (peer_step api s e)) = core s" "list_all plain_out (snd (peer_step api s e))"
      using keeps_core_step [OF True, of s api] by (simp_all add: keeps_core_def)
    have "\<not> is_expiry x" if "plain_out x" for x using that by (cases x) auto
    then have "filter is_expiry (snd (peer_step api s e)) = []"
      using c(2) by (auto simp: list_all_iff filter_empty_conv)
    then show ?thesis using c(1) True by (cases e) (auto simp: core_def intro!: exI [of _ 0])
  next
    case False
    show ?thesis
    proof (cases "e = TaskExpired \<and> rp_posted s \<noteq> 0")
      case True
      then show ?thesis by (auto simp: ExpiredTask_def intro!: exI [of _ 1])
    next
      case none: False
      have "filter is_expiry (snd (peer_step api s e)) = [] \<and> rp_id (fst (peer_step api s e)) = rp_id s \<and>
        (rp_expired (fst (peer_step api s e)) \<longleftrightarrow> rp_expired s \<or> e = EvTerminateBegin \<or> e = CbConnection kConnClosed) \<and>
        (rp_on_expired s \<longrightarrow> rp_on_expired (fst (peer_step api s e))) \<and>
        rp_posted (fst (peer_step api s e)) = rp_posted s + of_bool (\<not> rp_expired s \<and> rp_on_expired s \<and> e = CbConnection kConnClosed)"
        using \<open>\<not> negotiates e\<close> none
        by (cases e) (auto simp: TerminateBegin_def TerminateEnd_def TerminateChannels_def SetRemoteIce_def BufferIce_def
            FlushPendingIce_def CreateDataChannel_def OnDataChannel_def AddChannel_def ExpiredTask_def Let_def
            OnConnectionChange_def MarkExpired_def filter_empty_conv split: option.split)
      then show ?thesis by auto
    qed
  qed
  then show "rp_id (fst (peer_step api s e)) = rp_id s"
    "rp_expired (fst (peer_step api s e)) \<longleftrightarrow> rp_expired s \<or> e = EvTerminateBegin \<or> e = CbConnection kConnClosed"
    "rp_on_expired s \<Longrightarrow> rp_on_expired (fst (peer_step api s e))"
    "\<exists>k. filter is_expiry (snd (peer_step api s e)) = replicate k (Expired (rp_id s)) \<and>
     k + rp_posted (fst (peer_step api s e)) =
       rp_posted s + of_bool (\<not> rp_expired s \<and> rp_on_expired s \<and> e = CbConnection kConnClosed)" by blast+
qed

lemma expiry_sum:
  fixes k j n p q :: nat and x x' o1 o2 c c' t t' :: bool
  assumes "k + q = p + of_bool (\<not> x \<and> o1 \<and> c)" "x' \<longleftrightarrow> x \<or> t \<or> c" "o1 \<longrightarrow> o2"
    "j + n \<le> q + of_bool (\<not> x')" "\<not> c' \<longrightarrow> j + n = q" "x' \<longrightarrow> j + n = q"
    "o2 \<and> \<not> x' \<and> \<not> t' \<longrightarrow> j + n = q + of_bool c'"
  shows "(k + j) + n \<le> p + of_bool (\<not> x) \<and> (\<not> c \<and> \<not> c' \<longrightarrow> (k + j) + n = p) \<and> (x \<longrightarrow> (k + j) + n = p) \<and>
    (o1 \<and> \<not> x \<and> \<not> t \<and> \<not> t' \<longrightarrow> (k + j) + n = p + of_bool (c \<or> c'))"
  using assms by (cases x; cases c; cases o1; cases t; cases c') auto

text \<open>Over a run, the tasks that were posted are those that ran and those that still wait.\<close>

lemma expiry_run:
  "rp_id (fst (run (peer_step api) s es)) = rp_id s \<and>
   (rp_expired (fst (run (peer_step api) s es)) \<longleftrightarrow> rp_expired s \<or> EvTerminateBegin \<in> set es \<or> CbConnection kConnClosed \<in> set es) \<and>
   (rp_on_expired s \<longrightarrow> rp_on_expired (fst (run (peer_step api) s es))) \<and>
   (\<exists>k. filter is_expiry (snd (run (peer_step api) s es)) = replicate k (Expired (rp_id s)) \<and>
      k + rp_posted (fst (run (peer_step api) s es)) \<le> rp_posted s + of_bool (\<not> rp_expired s) \<and>
      (CbConnection kConnClosed \<notin> set es \<longrightarrow> k + rp_posted (fst (run (peer_step api) s es)) = rp_posted s) \<and>
      (rp_expired s \<longrightarrow> k + rp_posted (fst (run (peer_step api) s es)) = rp_posted s) \<and>
      (rp_on_expired s \<and> \<not> rp_expired s \<and> EvTerminateBegin \<notin> set es \<longrightarrow>
         k + rp_posted (fst (run (peer_step api) s es)) = rp_posted s + of_bool (CbConnection kConnClosed \<in> set es)))"
proof (induction es arbitrary: s)
  case (Cons e es)
  let ?s = "fst (peer_step api s e)"
  note st = expiry_step [where api = api and s = s and e = e]
  obtain k where k: "filter is_expiry (snd (peer_step api s e)) = replicate k (Expired (rp_id s))"
      "k + rp_posted ?s = rp_posted s + of_bool (\<not> rp_expired s \<and> rp_on_expired s \<and> e = CbConnection kConnClosed)"
    using st(4) by blast
  obtain j where j: "filter is_expiry (snd (run (peer_step api) ?s es)) = replicate j (Expired (rp_id s))"
      "j + rp_posted (fst (run (peer_step api) ?s es)) \<le> rp_posted ?s + of_bool (\<not> rp_expired ?s)"
      "CbConnection kConnClosed \<notin> set es \<longrightarrow> j + rp_posted (fst (run (peer_step api) ?s es)) = rp_posted ?s"
      "rp_expired ?s \<longrightarrow> j + rp_posted (fst (run (peer_step api) ?s es)) = rp_posted ?s"
      "rp_on_expired ?s \<and> \<not> rp_expired ?s \<and> EvTerminateBegin \<notin> set es \<longrightarrow>
         j + rp_posted (fst (run (peer_step api) ?s es)) = rp_posted ?s + of_bool (CbConnection kConnClosed \<in> set es)"
    using Cons.IH [of ?s] st(1) by auto
  have f: "filter is_expiry (snd (run (peer_step api) s (e # es))) = replicate (k + j) (Expired (rp_id s))"
    using k(1) j(1) by (simp add: replicate_add del: peer_step.simps)
  define n where "n = rp_posted (fst (run (peer_step api) ?s es))"
  have ih: "rp_id (fst (run (peer_step api) ?s es)) = rp_id s"
    "rp_expired (fst (run (peer_step api) ?s es)) \<longleftrightarrow> rp_expired ?s \<or> EvTerminateBegin \<in> set es \<or> CbConnection kConnClosed \<in> set es"
    "rp_on_expired ?s \<longrightarrow> rp_on_expired (fst (run (peer_step api) ?s es))"
    using Cons.IH [of ?s] st(1) by simp_all
  have sum: "(k + j) + n \<le> rp_posted s + of_bool (\<not> rp_expired s)"
    "CbConnection kConnClosed \<notin> set (e # es) \<longrightarrow> (k + j) + n = rp_posted s"
    "rp_expired s \<longrightarrow> (k + j) + n = rp_posted s"
    "rp_on_expired s \<and> \<not> rp_expired s \<and> EvTerminateBegin \<notin> set (e # es) \<longrightarrow>
       (k + j) + n = rp_posted s + of_bool (CbConnection kConnClosed \<in> set (e # es))"
    using expiry_sum [OF k(2) st(2) impI [OF st(3)] j(2-5)] unfolding n_def by auto
  have "\<exists>k. filter is_expiry (snd (run (peer_step api) s (e # es))) = replicate k (Expired (rp_id s)) \<and>
      k + n \<le> rp_posted s + of_bool (\<not> rp_expired s) \<and>
      (CbConnection kConnClosed \<notin> set (e # es) \<longrightarrow> k + n = rp_posted s) \<and>
      (rp_expired s \<longrightarrow> k + n = rp_posted s) \<and>
      (rp_on_expired s \<and> \<not> rp_expired s \<and> EvTerminateBegin \<notin> set (e # es) \<longrightarrow>
         k + n = rp_posted s + of_bool (CbConnection kConnClosed \<in> set (e # es)))"
    by (intro exI [of _ "k + j"] conjI f sum)
  then show ?case using ih st(2,3) unfolding n_def fst_run_Cons by auto
qed simp

definition demo_api :: rtc_api where
  "demo_api = \<lparr>SdpTypeFromString = (\<lambda>t. if t = ''offer'' then Some kOffer else if t = ''answer'' then Some kAnswer else None),
     SdpTypeToString = (\<lambda>t. if t = kOffer then ''offer'' else ''answer''), ParsesSdp = (\<lambda>_ sdp. sdp \<noteq> []),
     ParsesIce = (\<lambda>(_, _, c). c \<noteq> []), DescToString = (\<lambda>sdp _. sdp)\<rparr>"

definition demo_peer :: peer where
  "demo_peer = (RtcPeerInit ''p'' 10 Direct True False)\<lparr>rp_pc := True\<rparr>"

section \<open>Properties\<close>

text \<open>
  C7: From the moment \<open>Terminate\<close> has set its flags, whatever libwebrtc calls back, whatever
  delayed task fires and whatever methods are called, the peer tells its owner nothing more: no
  description, no candidate, no state. Only an expiry that had been posted before can still arrive,
  for it runs on a copy of the listener: as often as it was posted, which is once at most. (The callbacks
  and tasks of a peer run one at a time, on libwebrtc's signaling thread; each is one event.)
\<close>

theorem terminated_peer_is_silent:
  "let s = fst (run (peer_step api) (RtcPeerInit i timeout backend publisher cands) es) in
   rp_posted s \<le> 1 \<and>
   (\<exists>k. k \<le> rp_posted s \<and>
      filter tells_owner (snd (run (peer_step api) s (EvTerminateBegin # es'))) = replicate k (Expired i))"
proof -
  let ?i = "RtcPeerInit i timeout backend publisher cands"
  let ?s = "fst (run (peer_step api) ?i es)"
  let ?t = "fst (peer_step api ?s EvTerminateBegin)"
  have i: "rp_id ?i = i" "rp_posted ?i = 0" "\<not> rp_expired ?i" by (simp_all add: RtcPeerInit_def)
  have s: "rp_posted ?s \<le> 1" "rp_id ?s = i" using expiry_run [where api = api and s = ?i and es = es] i by auto
  have t: "terminated ?t" "rp_id ?t = i" "rp_posted ?t = rp_posted ?s" "filter tells_owner (snd (peer_step api ?s EvTerminateBegin)) = []"
    using s(2) by (auto simp: terminated_def TerminateBegin_def)
  obtain k where "filter tells_owner (snd (run (peer_step api) ?t es')) = replicate k (Expired i)" "k \<le> rp_posted ?s"
    using terminated_run [OF t(1), where api = api and es = es'] t(2,3) by auto
  then show ?thesis using s(1) t(4) by (auto simp: Let_def simp del: peer_step.simps)
qed

text \<open>
  C8: A peer tells its owner of its expiry at most once in its life. Once a listener is set, the closing of
  the connection is told exactly once, by the task that it posts, whatever happens before and after,
  unless the connection was closed before there was a listener or the peer was terminated first.
\<close>

theorem expiry_announced_once:
  assumes "es = es1 @ EvSetExpiredCallback # es2 @ CbConnection kConnClosed # es3 @ TaskExpired # es4"
    and "EvTerminateBegin \<notin> set (es1 @ es2)" "CbConnection kConnClosed \<notin> set es1"
  shows "filter is_expiry (snd (run (peer_step api) (RtcPeerInit i timeout backend publisher cands) es)) = [Expired i] \<and>
    length (filter is_expiry (snd (run (peer_step api) (RtcPeerInit i timeout backend publisher cands) any))) \<le> 1"
proof -
  let ?i = "RtcPeerInit i timeout backend publisher cands"
  let ?r = "\<lambda>s es. fst (run (peer_step api) s es)" and ?o = "\<lambda>s es. filter is_expiry (snd (run (peer_step api) s es))"
  have i: "rp_id ?i = i" "rp_posted ?i = 0" "\<not> rp_expired ?i" "\<not> rp_on_expired ?i" by (simp_all add: RtcPeerInit_def)
  have any: "\<exists>k. ?o ?i any = replicate k (Expired i) \<and> k + rp_posted (?r ?i any) \<le> 1" for any
    using expiry_run [where api = api and s = ?i and es = any] i by auto
  let ?s1 = "?r ?i es1"
  let ?s2 = "fst (peer_step api ?s1 EvSetExpiredCallback)"
  let ?s3 = "?r ?s2 (es2 @ [CbConnection kConnClosed])"
  let ?s4 = "?r ?s3 es3"
  obtain k where k: "?o ?i es1 = replicate k (Expired i)" "k + rp_posted ?s1 = 0"
    using expiry_run [where api = api and s = ?i and es = es1] i assms(3) by auto
  have s2: "rp_on_expired ?s2" "\<not> rp_expired ?s2" "rp_id ?s2 = i" "rp_posted ?s2 = 0"
    using expiry_run [where api = api and s = ?i and es = es1] i assms(2,3) k(2) by simp_all
  obtain a where a: "?o ?s2 (es2 @ [CbConnection kConnClosed]) = replicate a (Expired i)"
      "a + rp_posted ?s3 = 1" "rp_expired ?s3" "rp_id ?s3 = i"
    using expiry_run [where api = api and s = ?s2 and es = "es2 @ [CbConnection kConnClosed]"] s2 assms(2)
    by (auto simp del: peer_step.simps)
  obtain b where b: "?o ?s3 es3 = replicate b (Expired i)" "b + rp_posted ?s4 = rp_posted ?s3" "rp_id ?s4 = i" "rp_expired ?s4"
    using expiry_run [where api = api and s = ?s3 and es = es3] a(3,4) by (auto simp del: peer_step.simps)
  let ?t = "peer_step api ?s4 TaskExpired"
  have t: "filter is_expiry (snd ?t) = replicate (rp_posted ?s4) (Expired i)" "rp_posted (fst ?t) = 0" "rp_expired (fst ?t)"
    using a(2) b(2-4) by (cases "rp_posted ?s4"; simp add: ExpiredTask_def)+
  have e: "?o (fst ?t) es4 = []"
    using expiry_run [where api = api and s = "fst ?t" and es = es4] t(2,3) by (auto simp del: peer_step.simps)
  have sum: "a + (b + rp_posted ?s4) = 1" using a(2) b(2) by simp
  have split: "es = es1 @ [EvSetExpiredCallback] @ (es2 @ [CbConnection kConnClosed]) @ es3 @ [TaskExpired] @ es4"
    using assms(1) by simp
  have "?o ?i es = replicate k (Expired i) @ replicate a (Expired i) @ replicate b (Expired i) @ replicate (rp_posted ?s4) (Expired i)"
    unfolding split snd_run_append fst_run_append filter_append k(1)
    using a(1) b(1) t(1) e by (simp add: fst_run_append snd_run_append)
  then have "?o ?i es = replicate (k + (a + (b + rp_posted ?s4))) (Expired i)" by (simp add: replicate_add)
  then have "?o ?i es = [Expired i]" using sum k(2) by simp
  moreover obtain m where "?o ?i any = replicate m (Expired i)" "m \<le> 1" using any [of any] by auto
  ultimately show ?thesis by simp
qed

theorem expiry_announced_once_witness:
  "filter is_expiry (snd (run (peer_step demo_api) (RtcPeerInit ''p'' 10 Direct True False)
      ([EvSetPeer] @ EvSetExpiredCallback # [CbConnection kConnected] @ CbConnection kConnClosed # [EvTerminateBegin] @ TaskExpired # [EvTerminateEnd]))) =
      [Expired ''p''] \<and>
    length (filter is_expiry (snd (run (peer_step demo_api) (RtcPeerInit ''p'' 10 Direct True False) [CbConnection kConnClosed, TaskExpired]))) \<le> 1"
  by (rule expiry_announced_once [OF refl]) simp_all

text \<open>The candidates handed to the peer while it has a connection, and those it applied.\<close>

fun given_ice :: "peer_event \<Rightarrow> ice list" where
  "given_ice (EvSetRemoteIce c) = [c]"
| "given_ice _ = []"

fun applied_ice :: "peer_out list \<Rightarrow> ice list" where
  "applied_ice [] = []"
| "applied_ice (PcAddIce c # os) = c # applied_ice os"
| "applied_ice (_ # os) = applied_ice os"

lemma applied_ice_append [simp]: "applied_ice (xs @ ys) = applied_ice xs @ applied_ice ys"
  by (induction xs rule: applied_ice.induct) auto

lemma applied_ice_map [simp]: "applied_ice (map PcAddIce cs) = cs"
  by (induction cs) auto

lemma applied_ice_plain: "list_all plain_out os \<Longrightarrow> applied_ice os = []"
  by (induction os rule: applied_ice.induct) auto

abbreviation parsable :: "rtc_api \<Rightarrow> ice list \<Rightarrow> ice multiset" where
  "parsable api cs \<equiv> mset (filter (ParsesIce api) cs)"

lemma ice_step:
  assumes "rp_pc s" "e \<noteq> EvTerminateEnd"
  shows "rp_pc (fst (peer_step api s e)) \<and>
    parsable api (rp_checked s) + parsable api (rp_pending_ice s) + parsable api (given_ice e) =
      mset (applied_ice (snd (peer_step api s e))) + parsable api (rp_checked (fst (peer_step api s e))) +
      parsable api (rp_pending_ice (fst (peer_step api s e)))"
proof (cases "negotiates e")
  case True
  then have "keeps_core s (peer_step api s e)" by (rule keeps_core_step)
  moreover have "given_ice e = []" using True by (cases e) auto
  ultimately show ?thesis using assms(1) by (simp add: keeps_core_def core_def applied_ice_plain)
next
  case False
  have moved: "parsable api xs = parsable api (remove1 c xs) + parsable api [c]" if "c \<in> set xs" for c xs
    using that by (auto simp: mset_filter)
  from False show ?thesis
    using assms by (cases e) (auto simp: TerminateBegin_def SetRemoteIce_def BufferIce_def ExpiredTask_def
        FlushPendingIce_def CreateDataChannel_def OnDataChannel_def AddChannel_def Let_def moved
        OnConnectionChange_def MarkExpired_def split: option.split)
qed

lemma ice_run:
  "rp_pc s \<Longrightarrow> EvTerminateEnd \<notin> set es \<Longrightarrow> rp_pc (fst (run (peer_step api) s es)) \<and>
    parsable api (rp_checked s) + parsable api (rp_pending_ice s) + parsable api (concat (map given_ice es)) =
      mset (applied_ice (snd (run (peer_step api) s es))) + parsable api (rp_checked (fst (run (peer_step api) s es))) +
      parsable api (rp_pending_ice (fst (run (peer_step api) s es)))"
proof (induction es arbitrary: s)
  case (Cons e es)
  let ?s = "fst (peer_step api s e)"
  have e: "e \<noteq> EvTerminateEnd" and es: "EvTerminateEnd \<notin> set es" using Cons.prems(2) by auto
  note step = ice_step [OF Cons.prems(1) e, of api]
  with Cons.IH [of ?s, OF _ es]
  have "rp_pc (fst (run (peer_step api) ?s es))" "parsable api (rp_checked ?s) + parsable api (rp_pending_ice ?s) + parsable api (concat (map given_ice es)) =
      mset (applied_ice (snd (run (peer_step api) ?s es))) + parsable api (rp_checked (fst (run (peer_step api) ?s es))) +
      parsable api (rp_pending_ice (fst (run (peer_step api) ?s es)))" by blast+
  with step show ?case by (simp add: add.assoc [symmetric] del: peer_step.simps)
qed simp

text \<open>Once there is a remote description and nothing waits, nothing ever waits again.\<close>

definition ice_settled :: "peer \<Rightarrow> bool" where
  "ice_settled s \<longleftrightarrow> rp_remote s \<noteq> None \<and> rp_checked s = [] \<and> rp_pending_ice s = []"

lemma ice_settled_step: "ice_settled s \<Longrightarrow> ice_settled (fst (peer_step api s e))"
proof (cases "negotiates e")
  case True
  assume "ice_settled s"
  with keeps_core_step [OF True, of s api] show ?thesis by (simp add: keeps_core_def core_def ice_settled_def)
next
  case False
  assume "ice_settled s"
  with False show ?thesis
    by (cases e) (auto simp: ice_settled_def TerminateBegin_def TerminateEnd_def TerminateChannels_def SetRemoteIce_def BufferIce_def
        ExpiredTask_def FlushPendingIce_def CreateDataChannel_def OnDataChannel_def AddChannel_def Let_def
        OnConnectionChange_def MarkExpired_def split: option.split)
qed

lemma ice_settled_run: "ice_settled s \<Longrightarrow> ice_settled (fst (run (peer_step api) s es))"
  by (induction es arbitrary: s) (simp_all add: ice_settled_step del: peer_step.simps)

text \<open>
  C9: No candidate is lost while the peer has its connection: every parsable candidate it was given
  has been applied exactly as often as it was given, or waits in the buffer, or is on its way there (its call
  has found no remote description but has not taken the lock yet). If no call is on its way when the remote description
  has been set and the buffer is flushed, all that was given before or is given afterwards has been applied.
\<close>

theorem no_candidate_lost:
  assumes "rp_pc s" "rp_pending_ice s = []" "rp_checked s = []" "EvTerminateEnd \<notin> set (es @ es')"
  shows "parsable api (concat (map given_ice es)) =
      mset (applied_ice (snd (run (peer_step api) s es))) +
      parsable api (rp_checked (fst (run (peer_step api) s es))) +
      parsable api (rp_pending_ice (fst (run (peer_step api) s es))) \<and>
    (rp_remote (fst (run (peer_step api) s es)) \<noteq> None \<and> rp_checked (fst (run (peer_step api) s es)) = [] \<longrightarrow>
      mset (applied_ice (snd (run (peer_step api) s (es @ CbRemoteSet # es')))) =
      parsable api (concat (map given_ice (es @ es'))))"
proof
  let ?s = "fst (run (peer_step api) s es)"
  let ?es = "es @ CbRemoteSet # es'"
  show "parsable api (concat (map given_ice es)) = mset (applied_ice (snd (run (peer_step api) s es))) +
      parsable api (rp_checked ?s) + parsable api (rp_pending_ice ?s)"
    using ice_run [of s es api] assms by simp
  show "rp_remote ?s \<noteq> None \<and> rp_checked ?s = [] \<longrightarrow>
      mset (applied_ice (snd (run (peer_step api) s ?es))) = parsable api (concat (map given_ice (es @ es')))"
  proof
    assume "rp_remote ?s \<noteq> None \<and> rp_checked ?s = []"
    then have "ice_settled (fst (peer_step api ?s CbRemoteSet))" by (simp add: ice_settled_def FlushPendingIce_def)
    then have "ice_settled (fst (run (peer_step api) s ?es))"
      by (simp add: fst_run_append ice_settled_run del: peer_step.simps)
    with ice_run [of s ?es api] assms
    show "mset (applied_ice (snd (run (peer_step api) s ?es))) = parsable api (concat (map given_ice (es @ es')))"
      by (simp add: ice_settled_def)
  qed
qed

theorem no_candidate_lost_witness:
  "let es = [EvSetRemoteIce (''0'', 0, ''c''), EvBufferIce (''0'', 0, ''c''), CbRemoteApplied ''v=0'']; es' = [EvSetRemoteIce (''0'', 0, ''d'')] in
   parsable demo_api (concat (map given_ice es)) =
      mset (applied_ice (snd (run (peer_step demo_api) demo_peer es))) +
      parsable demo_api (rp_checked (fst (run (peer_step demo_api) demo_peer es))) +
      parsable demo_api (rp_pending_ice (fst (run (peer_step demo_api) demo_peer es))) \<and>
   mset (applied_ice (snd (run (peer_step demo_api) demo_peer (es @ CbRemoteSet # es')))) =
      parsable demo_api (concat (map given_ice (es @ es')))"
  using no_candidate_lost [of demo_peer "[EvSetRemoteIce (''0'', 0, ''c''), EvBufferIce (''0'', 0, ''c''), CbRemoteApplied ''v=0'']"
      "[EvSetRemoteIce (''0'', 0, ''d'')]" demo_api]
  by (simp add: demo_peer_def RtcPeerInit_def SetRemoteIce_def BufferIce_def)

text \<open>
  The side condition is needed: a call that has found no remote description, and takes the lock after
  the buffer has been flushed, leaves its candidate in a buffer that nobody looks at again.
\<close>

lemma late_push_strands_candidate:
  "let r = run (peer_step demo_api) demo_peer
     [EvSetRemoteIce (''0'', 0, ''c''), CbRemoteApplied ''v=0'', CbRemoteSet, EvBufferIce (''0'', 0, ''c''), EvSetRemoteIce (''0'', 0, ''d'')]
   in applied_ice (snd r) = [(''0'', 0, ''d'')] \<and> rp_pending_ice (fst r) = [(''0'', 0, ''c'')]"
  by (simp add: demo_peer_def RtcPeerInit_def SetRemoteIce_def BufferIce_def FlushPendingIce_def demo_api_def)

lemma set_remote_only:
  "PcSetRemote t sdp \<in> set (snd (peer_step api s e)) \<Longrightarrow>
   \<exists>sdp' type_name. peer_step api s e = SetRemoteSdp api sdp' type_name s"
proof -
  have co: "PcSetRemote t sdp \<notin> set (snd (CreateOffer s'))" for s'
    by (simp add: CreateOffer_def)
  have sl: "PcSetRemote t sdp \<notin> set (snd (SendLocalSdp api s'))" for s'
    by (auto simp: SendLocalSdp_def Let_def split: option.split)
  have el: "PcSetRemote t sdp \<notin> set (snd (EmitLocalSdp api d s'))" for d s'
    using sl by (auto simp: EmitLocalSdp_def Let_def)
  assume "PcSetRemote t sdp \<in> set (snd (peer_step api s e))"
  then show ?thesis
    using co sl el
    by (cases e) (auto simp: TerminateBegin_def TerminateEnd_def TerminateChannels_def SetRemoteIce_def BufferIce_def ExpiredTask_def
        FlushPendingIce_def CreateDataChannel_def OnSuccess_def OnIceGatheringChange_def OnIceCandidate_def
        OnSignalingChange_def ArmConnectDeadline_def OnConnectionChange_def MarkExpired_def OnRenegotiationNeeded_def
        ConnectDeadlineTask_def SdpEmitTask_def DisconnectHandler_def RestartIce_def Let_def case_prod_unfold
        split: option.splits if_splits)
qed

text \<open>
  What is put before libwebrtc is always legal there: a remote offer is never set while a
  local offer is outstanding (it is rolled back first and the remote offer kept for the
  rollback's completion), and a remote answer only while a negotiation is under way.
\<close>

theorem remote_description_is_legal:
  assumes "PcSetRemote t sdp \<in> set (snd (peer_step api s e))"
    and "SdpTypeFromString api ''offer'' = Some kOffer"
  shows "rp_pc s \<and> (t = kOffer \<longrightarrow> rp_signaling s \<noteq> kHaveLocalOffer) \<and>
     (t \<noteq> kOffer \<longrightarrow> rp_negotiating s) \<and>
     (t = kOffer \<longrightarrow> PcCreateAnswer \<in> set (snd (peer_step api s e)))"
proof -
  obtain sdp' type_name where "peer_step api s e = SetRemoteSdp api sdp' type_name s"
    using set_remote_only [OF assms(1)] by blast
  with assms show ?thesis
    by (auto simp: SetRemoteSdp_def split: if_splits option.splits)
qed

theorem remote_description_is_legal_witness:
  "rp_pc demo_peer \<and> rp_signaling demo_peer \<noteq> kHaveLocalOffer \<and>
   PcCreateAnswer \<in> set (snd (peer_step demo_api demo_peer (EvSetRemoteSdp ''v=0'' ''offer'')))"
  using remote_description_is_legal [of kOffer "''v=0''" demo_api demo_peer "EvSetRemoteSdp ''v=0'' ''offer''"]
  by (simp add: SetRemoteSdp_def demo_peer_def RtcPeerInit_def demo_api_def)

section \<open>The connect deadline\<close>

text \<open>
  Flag \<open>n\<close> belongs to the deadline: it is alive only while it is the current one. A dead
  flag stays dead.
\<close>

definition deadline_flag :: "nat \<Rightarrow> peer \<Rightarrow> bool" where
  "deadline_flag n s \<longleftrightarrow> n < rp_next_flag s \<and> rp_sdp_emit s \<noteq> Some n \<and>
     (n \<in> set (rp_alive s) \<longrightarrow> rp_deadline s = Some n)"

definition dead_flag :: "nat \<Rightarrow> peer \<Rightarrow> bool" where
  "dead_flag n s \<longleftrightarrow> n < rp_next_flag s \<and> n \<notin> set (rp_alive s)"

definition flags_of :: "peer \<Rightarrow> nat \<times> nat option \<times> nat option \<times> nat list" where
  "flags_of s = (rp_next_flag s, rp_sdp_emit s, rp_deadline s, rp_alive s)"

definition keeps_flag :: "(peer \<Rightarrow> bool) \<Rightarrow> bool" where
  "keeps_flag P \<longleftrightarrow> (\<forall>s s'. flags_of s = flags_of s' \<longrightarrow> P s \<longrightarrow> P s') \<and>
     (\<forall>s. P s \<longrightarrow> P (RenewDeadline s)) \<and> (\<forall>s. P s \<longrightarrow> P (RenewSdpEmit s)) \<and>
     (\<forall>s f. P s \<longrightarrow> P (s\<lparr>rp_alive := kill_flag f (rp_alive s)\<rparr>))"

lemma kill_flag_set: "set (kill_flag f alive) = set alive - set_option f"
  by (auto simp: kill_flag_def split: option.splits)

lemma keeps_deadline_flag: "keeps_flag (deadline_flag n)"
  by (auto simp: keeps_flag_def deadline_flag_def flags_of_def RenewDeadline_def RenewSdpEmit_def kill_flag_set)

lemma keeps_dead_flag: "keeps_flag (dead_flag n)"
  by (auto simp: keeps_flag_def dead_flag_def flags_of_def RenewDeadline_def RenewSdpEmit_def kill_flag_set)


lemma keeps_flagD:
  assumes "keeps_flag P" "P s"
  shows "flags_of s = flags_of s' \<Longrightarrow> P s'" "P (RenewDeadline s)" "P (RenewSdpEmit s)"
    "P (s\<lparr>rp_alive := kill_flag f (rp_alive s)\<rparr>)"
  using assms unfolding keeps_flag_def by blast+

lemma flags_of_CreateOffer [simp]: "flags_of (fst (CreateOffer s)) = flags_of s"
  by (simp add: CreateOffer_def)

lemma keeps_flag_SendLocalSdp: "keeps_flag P \<Longrightarrow> P s \<Longrightarrow> P (fst (SendLocalSdp api s))"
  using keeps_flagD(4) [of P s "rp_sdp_emit s"] by (auto simp: SendLocalSdp_def Let_def split: option.split)

lemma keeps_flag_EmitLocalSdp: "keeps_flag P \<Longrightarrow> P s \<Longrightarrow> P (fst (EmitLocalSdp api d s))"
  using keeps_flagD(3) [of P s] keeps_flag_SendLocalSdp by (auto simp: EmitLocalSdp_def Let_def)

lemma keeps_flag_Arm: "keeps_flag P \<Longrightarrow> P s \<Longrightarrow> P (fst (ArmConnectDeadline s))"
  using keeps_flagD(2) [of P s] by (simp add: ArmConnectDeadline_def Let_def)

lemma keeps_flag_step:
  assumes P: "keeps_flag P" "P s"
  shows "P (fst (peer_step api s e))"
proof -
  note same = keeps_flagD(1) [OF P]
  have via: "P s1" if "P s0" "flags_of s1 = flags_of s0" for s0 s1
    using keeps_flagD(1) [OF P(1) that(1)] that(2) by simp
  show ?thesis
  proof (cases e)
    case EvTerminateBegin
    have "P (s\<lparr>rp_alive := kill_flag (rp_deadline s) (rp_alive s)\<rparr>)" using keeps_flagD(4) [OF P] .
    from keeps_flagD(4) [OF P(1) this, of "rp_sdp_emit s"] show ?thesis
      by (rule via) (simp add: EvTerminateBegin TerminateBegin_def flags_of_def)
  next
    case (CbSuccess type sdp)
    have "P (s\<lparr>rp_desc := d\<rparr>)" for d by (rule same) (simp add: flags_of_def)
    then show ?thesis
      using CbSuccess keeps_flag_EmitLocalSdp [OF P(1)] by (auto simp: OnSuccess_def Let_def case_prod_unfold)
  next
    case (CbGathering complete)
    then show ?thesis using P(2) keeps_flag_SendLocalSdp [OF P] by (simp add: OnIceGatheringChange_def)
  next
    case (TaskSdpEmit n)
    then show ?thesis using P(2) keeps_flag_SendLocalSdp [OF P] by (simp add: SdpEmitTask_def)
  next
    case (CbSignaling st)
    let ?s = "s\<lparr>rp_signaling := st, rp_negotiating := (st = kHaveLocalOffer \<or> st = kHaveRemoteOffer)\<rparr>"
    have "P ?s" by (rule same) (simp add: flags_of_def)
    note 1 = this
    have 2: "P (fst (CreateOffer (?s\<lparr>rp_needs_renegotiation := False\<rparr>)))"
      by (rule via [OF 1]) (simp add: flags_of_CreateOffer, simp add: flags_of_def)
    have 3: "P (?s\<lparr>rp_on_local_ice := False, rp_on_local_sdp := False\<rparr>)"
      by (rule via [OF 1]) (simp add: flags_of_def)
    have fst_if: "(b \<Longrightarrow> P (fst x)) \<Longrightarrow> (\<not> b \<Longrightarrow> P (fst y)) \<Longrightarrow> P (fst (if b then x else y))"
      for b and x y :: "peer \<times> peer_out list" by simp
    show ?thesis
      unfolding CbSignaling peer_step.simps OnSignalingChange_def Let_def
      by (rule fst_if, rule keeps_flag_Arm [OF P(1) 1], rule fst_if, rule 2, rule fst_if, subst fst_conv,
          rule 3, subst fst_conv, rule 1)
  next
    case (CbConnection st)
    have "P (s\<lparr>rp_connected := b\<rparr>)" for b by (rule same) (simp add: flags_of_def)
    then have 1: "P (RenewDeadline (s\<lparr>rp_connected := True\<rparr>))" and 2: "P (fst (ArmConnectDeadline (s\<lparr>rp_connected := False\<rparr>)))"
      and 3: "P (s\<lparr>rp_connected := False\<rparr>)"
      using keeps_flagD(2) [OF P(1)] keeps_flag_Arm [OF P(1)] by auto
    have 4: "P (fst (CreateOffer ((RenewDeadline (s\<lparr>rp_connected := True\<rparr>))\<lparr>rp_needs_renegotiation := False\<rparr>)))"
      by (rule via [OF 1]) (simp add: flags_of_CreateOffer, simp add: flags_of_def)
    have 5: "P (s\<lparr>rp_connected := False, rp_expired := True\<rparr>)"
      "P (s\<lparr>rp_connected := False, rp_expired := True, rp_posted := Suc (rp_posted s)\<rparr>)"
      by (rule same; simp add: flags_of_def)+
    show ?thesis
      using 1 2 4 5 P(2) by (simp add: CbConnection OnConnectionChange_def Let_def MarkExpired_def case_prod_unfold)
  next
    case (CbCandidate c)
    then show ?thesis using P(2) by (auto simp: OnIceCandidate_def Let_def flags_of_def intro: same)
  next
    case CbRenegotiationNeeded
    then show ?thesis
      using P(2) by (auto simp: OnRenegotiationNeeded_def CreateOffer_def Let_def flags_of_def intro!: same)
  next
    case (EvSetRemoteSdp sdp t)
    then show ?thesis using P(2) by (auto simp: SetRemoteSdp_def flags_of_def intro!: same split: option.split)
  next
    case (CbRolledBack sdp t)
    then show ?thesis using P(2) by (auto simp: SetRemoteSdp_def flags_of_def intro!: same split: option.split)
  next
    case (EvRestartIce u p)
    then show ?thesis
      using P(2) by (auto simp: RestartIce_def SetRemoteSdp_def flags_of_def intro!: same split: option.split)
  qed (use P(2) in \<open>auto simp: CreateOffer_def TerminateEnd_def TerminateChannels_def SetRemoteIce_def BufferIce_def ExpiredTask_def
      CreateDataChannel_def AddChannel_def OnDataChannel_def DisconnectHandler_def FlushPendingIce_def
      ConnectDeadlineTask_def Let_def flags_of_def intro!: same split: option.split\<close>)
qed

lemma keeps_flag_run: "keeps_flag P \<Longrightarrow> P s \<Longrightarrow> P (fst (run (peer_step api) s es))"
  by (induction es arbitrary: s) (auto simp: keeps_flag_step)

lemma post_deadline_only:
  "PostDeadline n t \<in> set (snd (peer_step api s e)) \<Longrightarrow> e = CbSignaling kHaveRemoteOffer \<or> e = CbConnection kFailed"
proof -
  have co: "PostDeadline n t \<notin> set (snd (CreateOffer s'))" for s'
    by (simp add: CreateOffer_def)
  have sl: "PostDeadline n t \<notin> set (snd (SendLocalSdp api s'))" for s'
    by (auto simp: SendLocalSdp_def Let_def split: option.split)
  have el: "PostDeadline n t \<notin> set (snd (EmitLocalSdp api d s'))" for d s'
    using sl by (auto simp: EmitLocalSdp_def Let_def)
  assume "PostDeadline n t \<in> set (snd (peer_step api s e))"
  then show ?thesis
    using co sl el
    by (cases e) (auto simp: TerminateBegin_def TerminateEnd_def TerminateChannels_def SetRemoteIce_def BufferIce_def ExpiredTask_def
        FlushPendingIce_def CreateDataChannel_def OnSuccess_def OnIceGatheringChange_def OnIceCandidate_def
        OnSignalingChange_def OnConnectionChange_def MarkExpired_def OnRenegotiationNeeded_def
        ConnectDeadlineTask_def SdpEmitTask_def DisconnectHandler_def RestartIce_def SetRemoteSdp_def
        Let_def case_prod_unfold split: option.splits if_splits)
qed

text \<open>The flag of the delayed description is older than the next one to be drawn.\<close>

definition emit_flag_old :: "peer \<Rightarrow> bool" where
  "emit_flag_old s \<longleftrightarrow> (case rp_sdp_emit s of None \<Rightarrow> True | Some m \<Rightarrow> m < rp_next_flag s)"

lemma keeps_emit_flag_old: "keeps_flag emit_flag_old"
  by (auto simp: keeps_flag_def emit_flag_old_def flags_of_def RenewDeadline_def RenewSdpEmit_def split: option.splits)

lemma post_deadline_flag:
  assumes "PostDeadline n t \<in> set (snd (peer_step api s e))" "emit_flag_old s"
  shows "deadline_flag n (fst (peer_step api s e))"
  using post_deadline_only [OF assms(1)] assms
  by (auto simp: OnSignalingChange_def OnConnectionChange_def ArmConnectDeadline_def RenewDeadline_def
      deadline_flag_def emit_flag_old_def Let_def split: option.splits)

lemma posted_deadlines:
  "emit_flag_old s \<Longrightarrow> PostDeadline n t \<in> set (snd (run (peer_step api) s es)) \<Longrightarrow>
   deadline_flag n (fst (run (peer_step api) s es))"
proof (induction es arbitrary: s)
  case (Cons e es)
  let ?s = "fst (peer_step api s e)"
  have old: "emit_flag_old ?s" using Cons.prems(1) keeps_flag_step [OF keeps_emit_flag_old] by blast
  show ?case
  proof (cases "PostDeadline n t \<in> set (snd (peer_step api s e))")
    case True
    with Cons.prems(1) have "deadline_flag n ?s" by (rule post_deadline_flag [rotated])
    then show ?thesis using keeps_flag_run [OF keeps_deadline_flag] by simp
  next
    case False
    with Cons.IH [OF old] Cons.prems(2) show ?thesis by simp
  qed
qed simp

text \<open>
  C10: A connect deadline armed before the connection came up never closes it: once the
  connection has been reported as connected, the delayed task of every earlier deadline does
  nothing, whatever happens in between. (Only a deadline armed later can close the peer.)
\<close>

theorem connected_disarms_deadlines:
  assumes "PostDeadline n t \<in> set (snd (run (peer_step api) (RtcPeerInit i timeout backend publisher cands) es))"
  shows "snd (peer_step api (fst (run (peer_step api) (RtcPeerInit i timeout backend publisher cands)
      (es @ CbConnection kConnected # es'))) (TaskDeadline n)) = []"
proof -
  let ?s = "fst (run (peer_step api) (RtcPeerInit i timeout backend publisher cands) es)"
  have "emit_flag_old (RtcPeerInit i timeout backend publisher cands)"
    by (simp add: emit_flag_old_def RtcPeerInit_def)
  from posted_deadlines [OF this assms] have d: "deadline_flag n ?s" .
  have "dead_flag n (RenewDeadline (?s\<lparr>rp_connected := True\<rparr>))"
    using d by (auto simp: deadline_flag_def dead_flag_def RenewDeadline_def kill_flag_set)
  then have "dead_flag n (fst (peer_step api ?s (CbConnection kConnected)))"
    by (auto simp: OnConnectionChange_def Let_def CreateOffer_def case_prod_unfold dead_flag_def)
  then have "dead_flag n (fst (run (peer_step api) ?s (CbConnection kConnected # es')))"
    using keeps_flag_run [OF keeps_dead_flag] by simp
  then show ?thesis
    by (simp add: fst_run_append ConnectDeadlineTask_def dead_flag_def)
qed

theorem connected_disarms_deadlines_witness:
  "snd (peer_step demo_api (fst (run (peer_step demo_api) (RtcPeerInit ''p'' 10 Direct True False)
      ([EvSetPeer, CbSignaling kHaveRemoteOffer] @ CbConnection kConnected # [CbConnection kDisconnected]))) (TaskDeadline 0)) = []"
  by (rule connected_disarms_deadlines [where t = 10])
     (simp add: RtcPeerInit_def OnSignalingChange_def ArmConnectDeadline_def RenewDeadline_def Let_def)

section \<open>Linked channels\<close>

definition linked :: "peer \<Rightarrow> bool" where
  "linked s \<longleftrightarrow> (\<forall>c st. rp_channels s Command = Some c \<longrightarrow> rp_channels s Stream = Some st \<longrightarrow> rp_link s c = Some st)"

lemma linked_AddChannel: "linked (AddChannel role dc s)"
  by (auto simp: linked_def AddChannel_def Let_def split: option.split)

lemma linked_step: "linked s \<Longrightarrow> linked (fst (peer_step api s e))"
proof (cases "negotiates e")
  case True
  assume "linked s"
  with keeps_core_step [OF True, of s api] show ?thesis
    by (simp add: keeps_core_def core_def linked_def)
next
  case False
  assume inv: "linked s"
  have frame: "linked s'" if "rp_channels s' = rp_channels s" "rp_link s' = rp_link s" for s'
    using inv that by (simp add: linked_def)
  show ?thesis
  proof (cases "e = EvTerminateEnd")
    case True
    then show ?thesis by (simp add: TerminateEnd_def TerminateChannels_def linked_def)
  next
    case False
    with \<open>\<not> negotiates e\<close> inv show ?thesis
      by (cases e) (auto simp: TerminateBegin_def SetRemoteIce_def BufferIce_def ExpiredTask_def FlushPendingIce_def CreateDataChannel_def
          OnDataChannel_def OnConnectionChange_def MarkExpired_def Let_def linked_AddChannel
          intro: frame split: option.split)
  qed
qed

interpretation links: machine "peer_step api" linked for api
  by unfold_locales (rule linked_step)

text \<open>
  In every state of a peer that has both a command and a stream channel, the bulk answers
  of the command channel go out on that stream channel, in whatever order the two arrived and
  however often either was replaced.
\<close>

theorem command_answers_on_stream:
  assumes "s = fst (run (peer_step api) (RtcPeerInit i timeout backend publisher cands) es)"
    and "GetChannel Command s = Some command" "GetChannel Stream s = Some stream"
  shows "rp_link s command = Some stream"
proof -
  have "linked (RtcPeerInit i timeout backend publisher cands)" by (simp add: linked_def RtcPeerInit_def)
  from links.inv_run [OF this] assms show ?thesis by (simp add: linked_def GetChannel_def)
qed

theorem command_answers_on_stream_witness:
  "rp_link (fst (run (peer_step demo_api) (RtcPeerInit ''p'' 10 LiveKit True False)
     [CbDataChannel ''stream'' 4, CbDataChannel ''command'' 5, CbDataChannel ''stream'' 6])) 5 = Some 6"
  by (rule command_answers_on_stream [OF refl])
     (simp_all add: RtcPeerInit_def OnDataChannel_def AddChannel_def GetChannel_def RoleFromLabel_def)

end
