(* ===== verification/PeerRegistry.thy ===== *)
theory PeerRegistry
  imports Prelude
begin

text \<open>
  \<open>PeerRegistry\<close> (src/src/signaling/peer_registry.cpp) with its cleaner thread (a
  \<open>Worker\<close>, src/src/common/worker.cpp). Callers, the libwebrtc thread on which peers
  expire and the cleaner interleave freely, so every piece of code between two lock
  operations is an event of its own; an event that is not possible in a state changes nothing.
  Peers are numbered; \<open>pg_expired\<close> and \<open>pg_listening\<close> are their \<open>is_expired_\<close> and
  whether \<open>on_expired_fn_\<close> is set. The \<open>unordered_map\<close> is kept sorted.
\<close>

datatype cleaner_pc = NoWorker | AtWait | ToSweep | Swept "(string \<times> nat) list"

record preg =
  pg_peers :: "(string, nat) omap"
  pg_expired :: "nat set"
  pg_listening :: "nat set"
  pg_tasks :: "nat list"           \<comment> \<open>expiry tasks posted by peers\<close>
  pg_stopped :: bool
  pg_expiry_pending :: bool
  pg_cleaner :: cleaner_pc
  pg_on_expired :: bool

datatype preg_out =
    Found "nat option"
  | Terminated nat
  | Told string                    \<comment> \<open>on_expired_(peer_id)\<close>

definition init_preg :: "bool \<Rightarrow> preg" where
  "init_preg on_expired = \<lparr>pg_peers = [], pg_expired = {}, pg_listening = {}, pg_tasks = [],
     pg_stopped = False, pg_expiry_pending = False, pg_cleaner = NoWorker, pg_on_expired = on_expired\<rparr>"

definition RegStart :: "preg \<Rightarrow> preg" where
  "RegStart s = (if pg_cleaner s \<noteq> NoWorker then s else s\<lparr>pg_stopped := False, pg_cleaner := AtWait\<rparr>)"

text \<open>
  The body of the worker: the wait is over when \<open>stopped\<close> or \<open>expiry_pending\<close>; a stopped
  body returns and is run again until the thread is aborted. \<open>Sweep\<close> takes the expired peers
  out under the lock, then terminates them and tells the listener.
\<close>

definition CleanerWake :: "preg \<Rightarrow> preg" where
  "CleanerWake s =
     (if pg_cleaner s = AtWait \<and> \<not> pg_stopped s \<and> pg_expiry_pending s
      then s\<lparr>pg_expiry_pending := False, pg_cleaner := ToSweep\<rparr> else s)"

definition SweepErase :: "preg \<Rightarrow> preg" where
  "SweepErase s =
     (if pg_cleaner s = ToSweep
      then s\<lparr>pg_peers := filter (\<lambda>(_, p). p \<notin> pg_expired s) (pg_peers s),
             pg_cleaner := Swept (filter (\<lambda>(_, p). p \<in> pg_expired s) (pg_peers s))\<rparr>
      else s)"

definition SweepTell :: "preg \<Rightarrow> preg \<times> preg_out list" where
  "SweepTell s =
     (case pg_cleaner s of
        Swept gone \<Rightarrow> (s\<lparr>pg_cleaner := AtWait\<rparr>,
          map (\<lambda>(_, p). Terminated p) gone @
          (if pg_on_expired s then map (\<lambda>(peer_id, _). Told peer_id) gone else []))
      | _ \<Rightarrow> (s, []))"

text \<open>\<open>Stop\<close>: the flag, the join of the worker (possible when it is back at its wait), the peers.\<close>

definition StopFlag :: "preg \<Rightarrow> preg" where
  "StopFlag s = s\<lparr>pg_stopped := True\<rparr>"

definition StopJoin :: "preg \<Rightarrow> preg" where
  "StopJoin s = (if pg_stopped s \<and> pg_cleaner s = AtWait then s\<lparr>pg_cleaner := NoWorker\<rparr> else s)"

definition StopClear :: "preg \<Rightarrow> preg \<times> preg_out list" where
  "StopClear s =
     (if pg_cleaner s = NoWorker
      then (s\<lparr>pg_peers := [], pg_expired := pg_expired s \<union> snd ` set (pg_peers s)\<rparr>,
            map (\<lambda>(_, p). Terminated p) (pg_peers s))
      else (s, []))"

text \<open>\<open>Add\<close>: first the listener is set on the peer, without a lock, then the peer is inserted.\<close>

definition AddListen :: "nat \<Rightarrow> preg \<Rightarrow> preg" where
  "AddListen p s = s\<lparr>pg_listening := insert p (pg_listening s)\<rparr>"

definition AddInsert :: "string \<Rightarrow> nat \<Rightarrow> preg \<Rightarrow> preg" where
  "AddInsert peer_id p s = s\<lparr>pg_peers := omap_put peer_id p (pg_peers s)\<rparr>"

definition Get :: "string \<Rightarrow> preg \<Rightarrow> nat option" where
  "Get peer_id s =
     (case omap_get (pg_peers s) peer_id of
        None \<Rightarrow> None | Some p \<Rightarrow> if p \<in> pg_expired s then None else Some p)"

definition Remove :: "string \<Rightarrow> preg \<Rightarrow> preg \<times> preg_out list" where
  "Remove peer_id s =
     (case omap_get (pg_peers s) peer_id of
        None \<Rightarrow> (s, [])
      | Some p \<Rightarrow> (s\<lparr>pg_peers := omap_del peer_id (pg_peers s), pg_expired := insert p (pg_expired s)\<rparr>,
                   [Terminated p]))"

text \<open>\<open>RtcPeer::MarkExpired\<close>, and the task it posts: the listener's \<open>Cleaner::Wake\<close>.\<close>

definition PeerExpires :: "nat \<Rightarrow> preg \<Rightarrow> preg" where
  "PeerExpires p s =
     (if p \<in> pg_expired s then s
      else s\<lparr>pg_expired := insert p (pg_expired s),
             pg_tasks := (if p \<in> pg_listening s then pg_tasks s @ [p] else pg_tasks s)\<rparr>)"

definition RunTask :: "preg \<Rightarrow> preg" where
  "RunTask s = (case pg_tasks s of [] \<Rightarrow> s | _ # ts \<Rightarrow> s\<lparr>pg_tasks := ts, pg_expiry_pending := True\<rparr>)"

datatype preg_event =
    PgStart | PgStopFlag | PgStopJoin | PgStopClear
  | PgAddListen nat | PgAddInsert string nat | PgGet string | PgRemove string
  | PgExpire nat | PgTask | PgWake | PgErase | PgTell

fun preg_step :: "preg \<Rightarrow> preg_event \<Rightarrow> preg \<times> preg_out list" where
  "preg_step s PgStart = (RegStart s, [])"
| "preg_step s PgStopFlag = (StopFlag s, [])"
| "preg_step s PgStopJoin = (StopJoin s, [])"
| "preg_step s PgStopClear = StopClear s"
| "preg_step s (PgAddListen p) = (AddListen p s, [])"
| "preg_step s (PgAddInsert i p) = (AddInsert i p s, [])"
| "preg_step s (PgGet i) = (s, [Found (Get i s)])"
| "preg_step s (PgRemove i) = Remove i s"
| "preg_step s (PgExpire p) = (PeerExpires p s, [])"
| "preg_step s PgTask = (RunTask s, [])"
| "preg_step s PgWake = (CleanerWake s, [])"
| "preg_step s PgErase = (SweepErase s, [])"
| "preg_step s PgTell = SweepTell s"

lemmas preg_ops = RegStart_def CleanerWake_def SweepErase_def SweepTell_def StopFlag_def StopJoin_def
  StopClear_def AddListen_def AddInsert_def Get_def Remove_def PeerExpires_def RunTask_def

section \<open>No expiry is lost\<close>

text \<open>
  A notification is on its way: a posted task, the pending flag, or a sweep about to start.
\<close>

definition on_its_way :: "preg \<Rightarrow> bool" where
  "on_its_way s \<longleftrightarrow> pg_tasks s \<noteq> [] \<or> pg_expiry_pending s \<or> pg_cleaner s = ToSweep"

definition expiry_inv :: "preg \<Rightarrow> bool" where
  "expiry_inv s \<longleftrightarrow> omap_ok (pg_peers s) \<and> snd ` set (pg_peers s) \<subseteq> pg_listening s \<and>
     inj_on snd (set (pg_peers s)) \<and>
     (snd ` set (pg_peers s) \<inter> pg_expired s \<noteq> {} \<longrightarrow> on_its_way s)"

text \<open>The use the services make of it: a peer is inserted once it listens and while it lives,
  under an id of its own, and no two ids share a peer.\<close>

fun live_add :: "preg \<Rightarrow> preg_event \<Rightarrow> bool" where
  "live_add s (PgAddInsert i p) = (p \<in> pg_listening s \<and> p \<notin> pg_expired s \<and> p \<notin> snd ` set (pg_peers s))"
| "live_add s _ = True"

fun live_adds :: "preg \<Rightarrow> preg_event list \<Rightarrow> bool" where
  "live_adds s [] = True"
| "live_adds s (e # es) = (live_add s e \<and> live_adds (fst (preg_step s e)) es)"

lemma set_omap_put: "set (omap_put k v m) \<subseteq> insert (k, v) (set m)"
  by (induction k v m rule: omap_put.induct) auto


lemma expiry_inv_step:
  assumes inv: "expiry_inv s" and live: "live_add s e"
  shows "expiry_inv (fst (preg_step s e))"
proof (cases e)
  case (PgAddInsert i p)
  let ?m = "set (omap_put i p (pg_peers s))"
  have sub: "?m \<subseteq> insert (i, p) (set (pg_peers s))" by (rule set_omap_put)
  have "inj_on snd (insert (i, p) (set (pg_peers s)))"
    using inv live PgAddInsert by (auto simp: expiry_inv_def inj_on_def image_iff)
  then have "inj_on snd ?m" using sub by (rule inj_on_subset)
  moreover have img: "snd ` ?m \<subseteq> insert p (snd ` set (pg_peers s))" using sub by force
  have "snd ` ?m \<subseteq> pg_listening s"
  proof (rule order_trans [OF img])
    show "insert p (snd ` set (pg_peers s)) \<subseteq> pg_listening s"
      using inv live PgAddInsert by (simp add: expiry_inv_def)
  qed
  moreover have "on_its_way s" if ne: "snd ` ?m \<inter> pg_expired s \<noteq> {}"
  proof -
    from ne obtain x where x: "x \<in> snd ` ?m" "x \<in> pg_expired s" by (metis disjoint_iff)
    have "x \<noteq> p" using x(2) live PgAddInsert by auto
    with subsetD [OF img x(1)] have "x \<in> snd ` set (pg_peers s)" by (elim insertE) simp_all
    with x(2) have "snd ` set (pg_peers s) \<inter> pg_expired s \<noteq> {}" by (metis IntI empty_iff)
    with inv show ?thesis by (simp add: expiry_inv_def)
  qed
  ultimately show ?thesis
    using inv unfolding PgAddInsert preg_step.simps fst_conv AddInsert_def expiry_inv_def on_its_way_def by simp
next
  case (PgRemove i)
  show ?thesis
  proof (cases "omap_get (pg_peers s) i")
    case None
    then show ?thesis using inv PgRemove by (simp add: Remove_def)
  next
    case (Some p)
    then have ip: "(i, p) \<in> set (pg_peers s)" using inv by (simp add: expiry_inv_def omap_in_set_iff)
    have sub: "set (omap_del i (pg_peers s)) \<subseteq> set (pg_peers s)" by (auto simp: omap_del_def)
    have "p \<notin> snd ` set (omap_del i (pg_peers s))"
    proof
      assume "p \<in> snd ` set (omap_del i (pg_peers s))"
      then obtain k where "(k, p) \<in> set (pg_peers s)" "k \<noteq> i" by (auto simp: omap_del_def)
      with ip inv inj_onD [of snd "set (pg_peers s)" "(i, p)" "(k, p)"] show False
        by (simp add: expiry_inv_def)
    qed
    moreover have "snd ` set (omap_del i (pg_peers s)) \<subseteq> snd ` set (pg_peers s)" using sub by (rule image_mono)
    ultimately have "snd ` set (pg_peers s) \<inter> pg_expired s = {} \<Longrightarrow>
        snd ` set (omap_del i (pg_peers s)) \<inter> insert p (pg_expired s) = {}" by blast
    moreover have "inj_on snd (set (omap_del i (pg_peers s)))"
      using inv sub unfolding expiry_inv_def by (meson inj_on_subset)
    moreover have "snd ` set (omap_del i (pg_peers s)) \<subseteq> pg_listening s"
      using inv image_mono [OF sub, of snd] unfolding expiry_inv_def by (meson order_trans)
    ultimately show ?thesis
      using inv Some unfolding PgRemove preg_step.simps Remove_def expiry_inv_def on_its_way_def by auto
  qed
next
  case (PgExpire p)
  then show ?thesis
    using inv by (auto simp: expiry_inv_def on_its_way_def PeerExpires_def)
next
  case PgErase
  then show ?thesis
    using inv by (auto simp: expiry_inv_def on_its_way_def SweepErase_def omap_filter_ok elim: inj_on_subset)
qed (use inv in \<open>auto simp: expiry_inv_def on_its_way_def RegStart_def CleanerWake_def SweepTell_def StopFlag_def
    StopJoin_def StopClear_def AddListen_def RunTask_def split: cleaner_pc.splits list.splits\<close>)

lemma expiry_inv_run:
  "expiry_inv s \<Longrightarrow> live_adds s es \<Longrightarrow> expiry_inv (fst (run preg_step s es))"
  by (induction es arbitrary: s) (auto simp: expiry_inv_step)

text \<open>What the posted tasks and the cleaner do when nobody else does anything.\<close>

definition drain :: "preg \<Rightarrow> preg_event list" where
  "drain s = map (\<lambda>_. PgTask) (pg_tasks s) @ [PgErase, PgTell, PgWake, PgErase]"

lemma run_tasks:
  "fst (run preg_step s (map (\<lambda>_. PgTask) (pg_tasks s))) =
     s\<lparr>pg_tasks := [], pg_expiry_pending := (pg_expiry_pending s \<or> pg_tasks s \<noteq> [])\<rparr>"
proof (induction "pg_tasks s" arbitrary: s)
  case (Cons t ts)
  let ?s = "s\<lparr>pg_tasks := ts, pg_expiry_pending := True\<rparr>"
  have "fst (run preg_step ?s (map (\<lambda>_. PgTask) (pg_tasks ?s))) =
      ?s\<lparr>pg_tasks := [], pg_expiry_pending := (pg_expiry_pending ?s \<or> pg_tasks ?s \<noteq> [])\<rparr>"
    by (rule Cons.hyps(1)) simp
  with Cons.hyps(2) show ?case by (simp add: Cons.hyps(2) [symmetric] RunTask_def)
qed simp

text \<open>
  C13: No expiry is lost: in whatever way adding, removing, getting, expiring, the tasks and
  the cleaner interleave, as long as peers are added alive, the steps still outstanding of the
  posted tasks and of a running cleaner alone remove every expired peer from the registry.
\<close>

theorem expired_peers_are_swept:
  assumes "s = fst (run preg_step (init_preg told) es)" and "live_adds (init_preg told) es"
    and "pg_cleaner s \<noteq> NoWorker" "\<not> pg_stopped s"
  shows "snd ` set (pg_peers (fst (run preg_step s (drain s)))) \<inter>
     pg_expired (fst (run preg_step s (drain s))) = {}"
proof -
  have "expiry_inv (init_preg told)" by (simp add: expiry_inv_def init_preg_def)
  from expiry_inv_run [OF this assms(2)] have inv: "expiry_inv s" by (simp add: assms(1))
  show ?thesis
    using inv assms(3,4)
    by (cases "pg_cleaner s")
       (auto simp: drain_def fst_run_append run_tasks expiry_inv_def on_its_way_def SweepErase_def SweepTell_def CleanerWake_def)
qed

theorem expired_peers_are_swept_witness:
  "snd ` set (pg_peers (fst (run preg_step (fst (run preg_step (init_preg True)
       [PgStart, PgAddListen 1, PgAddInsert ''a'' 1, PgAddListen 2, PgAddInsert ''b'' 2, PgExpire 1]))
       (drain (fst (run preg_step (init_preg True)
       [PgStart, PgAddListen 1, PgAddInsert ''a'' 1, PgAddListen 2, PgAddInsert ''b'' 2, PgExpire 1])))))) \<inter>
     pg_expired (fst (run preg_step (fst (run preg_step (init_preg True)
       [PgStart, PgAddListen 1, PgAddInsert ''a'' 1, PgAddListen 2, PgAddInsert ''b'' 2, PgExpire 1]))
       (drain (fst (run preg_step (init_preg True)
       [PgStart, PgAddListen 1, PgAddInsert ''a'' 1, PgAddListen 2, PgAddInsert ''b'' 2, PgExpire 1]))))) = {}"
  by (rule expired_peers_are_swept [OF refl]) (simp_all add: preg_ops init_preg_def)

section \<open>The window inside Add\<close>

definition cleaner_event :: "preg_event \<Rightarrow> bool" where
  "cleaner_event e \<longleftrightarrow> e \<in> {PgTask, PgWake, PgErase, PgTell}"

definition asleep :: "preg \<Rightarrow> bool" where
  "asleep s \<longleftrightarrow> pg_tasks s = [] \<and> \<not> pg_expiry_pending s \<and> pg_cleaner s = AtWait"

lemma asleep_step: "asleep s \<Longrightarrow> cleaner_event e \<Longrightarrow> preg_step s e = (s, [])"
  by (auto simp: asleep_def cleaner_event_def RunTask_def CleanerWake_def SweepErase_def SweepTell_def)

lemma asleep_run: "asleep s \<Longrightarrow> list_all cleaner_event es \<Longrightarrow> run preg_step s es = (s, [])"
proof (induction es)
  case (Cons e es)
  then show ?case by (simp add: prod_eq_iff asleep_step)
qed simp

text \<open>
  \<open>Add\<close> sets the listener before it inserts the peer. If the peer expires in between and
  its notification is handled at once, the peer is inserted expired: the cleaner then sleeps,
  and nothing it does of its own accord ever removes that peer.
\<close>

theorem peer_expiring_during_add_is_never_swept:
  assumes "list_all cleaner_event es"
  shows "omap_get (pg_peers (fst (run preg_step (init_preg told)
     ([PgStart, PgAddListen p, PgExpire p, PgTask, PgWake, PgErase, PgTell, PgAddInsert i p] @ es)))) i = Some p \<and>
     p \<in> pg_expired (fst (run preg_step (init_preg told)
     ([PgStart, PgAddListen p, PgExpire p, PgTask, PgWake, PgErase, PgTell, PgAddInsert i p] @ es)))"
proof -
  let ?s = "fst (run preg_step (init_preg told)
     [PgStart, PgAddListen p, PgExpire p, PgTask, PgWake, PgErase, PgTell, PgAddInsert i p])"
  have s: "?s = (init_preg told)\<lparr>pg_peers := [(i, p)], pg_expired := {p}, pg_listening := {p}, pg_cleaner := AtWait\<rparr>"
    by (simp add: preg_ops init_preg_def)
  then have "asleep ?s" by (simp add: asleep_def init_preg_def)
  from asleep_run [OF this assms] have "fst (run preg_step (init_preg told)
     ([PgStart, PgAddListen p, PgExpire p, PgTask, PgWake, PgErase, PgTell, PgAddInsert i p] @ es)) = ?s"
    by (simp only: fst_run_append fst_conv)
  then show ?thesis
    by (simp only: s) (simp add: omap_get_def)
qed

theorem peer_expiring_during_add_is_never_swept_witness:
  "omap_get (pg_peers (fst (run preg_step (init_preg True)
     ([PgStart, PgAddListen 1, PgExpire 1, PgTask, PgWake, PgErase, PgTell, PgAddInsert ''a'' 1] @ [PgWake, PgErase])))) ''a'' = Some 1 \<and>
     1 \<in> pg_expired (fst (run preg_step (init_preg True)
     ([PgStart, PgAddListen 1, PgExpire 1, PgTask, PgWake, PgErase, PgTell, PgAddInsert ''a'' 1] @ [PgWake, PgErase])))"
  by (rule peer_expiring_during_add_is_never_swept) (simp add: cleaner_event_def)

section \<open>The listener is told once\<close>

definition swept_ids :: "preg \<Rightarrow> string list" where
  "swept_ids s = (case pg_cleaner s of Swept gone \<Rightarrow> map fst gone | _ \<Rightarrow> [])"

definition due :: "string \<Rightarrow> preg \<Rightarrow> nat" where
  "due i s = length (filter ((=) i) (swept_ids s)) + of_bool (i \<in> set (omap_keys (pg_peers s)))"

definition adds :: "string \<Rightarrow> preg_event list \<Rightarrow> nat" where
  "adds i es = length (filter (\<lambda>e. \<exists>p. e = PgAddInsert i p) es)"

lemma terminated_not_told [simp]: "count_out ((=) (Told i)) (map (\<lambda>(_, p). Terminated p) gone) = 0"
  by (auto simp: count_out_def filter_empty_conv)

lemma count_told: "count_out ((=) (Told i)) (map (\<lambda>(_, p). Terminated p) gone @ (if b then map (\<lambda>(j, _). Told j) gone else []))
    \<le> length (filter ((=) i) (map fst gone))"
proof -
  have 2: "count_out ((=) (Told i)) (map (\<lambda>(j, _). Told j) gone) = length (filter ((=) i) (map fst gone))"
    by (induction gone) (auto split: prod.split)
  show ?thesis by (simp add: 2)
qed

lemma split_keys:
  assumes "omap_ok m"
  shows "length (filter ((=) i) (map fst (filter P m))) + of_bool (i \<in> set (omap_keys (filter (\<lambda>x. \<not> P x) m)))
     \<le> of_bool (i \<in> set (omap_keys m))"
proof -
  have d: "distinct (map fst m)" using omap_distinct [OF assms] by (simp add: omap_keys_def)
  then show ?thesis
    by (induction m) (auto simp: omap_keys_def filter_empty_conv of_bool_def image_iff split: if_splits)
qed

lemma due_step:
  assumes "omap_ok (pg_peers s)"
  shows "count_out ((=) (Told i)) (snd (preg_step s e)) + due i (fst (preg_step s e)) \<le> due i s + adds i [e]"
proof (cases e)
  case PgErase
  have "filter (\<lambda>(_, p). p \<notin> pg_expired s) (pg_peers s) = filter (\<lambda>x. \<not> (case x of (_, p) \<Rightarrow> p \<in> pg_expired s)) (pg_peers s)"
    by (rule filter_cong) auto
  then show ?thesis
    using split_keys [OF assms, of i "\<lambda>(_, p). p \<in> pg_expired s"] PgErase
    by (auto simp: due_def SweepErase_def swept_ids_def adds_def)
next
  case PgTell
  show ?thesis
  proof (cases "pg_cleaner s")
    case (Swept gone)
    then show ?thesis
      using count_told [of i gone "pg_on_expired s"] PgTell
      by (simp add: due_def SweepTell_def swept_ids_def adds_def del: count_out_simps)
  qed (use PgTell in \<open>simp_all add: SweepTell_def due_def\<close>)
next
  case (PgAddInsert j p)
  then show ?thesis by (auto simp: due_def AddInsert_def swept_ids_def adds_def omap_keys_put)
next
  case (PgRemove j)
  then show ?thesis by (auto simp: due_def Remove_def swept_ids_def adds_def split: option.split)
next
  case PgStopClear
  then show ?thesis
    by (auto simp: due_def StopClear_def swept_ids_def adds_def omap_keys_def)
qed (auto simp: due_def swept_ids_def adds_def RegStart_def CleanerWake_def StopFlag_def StopJoin_def
      AddListen_def PeerExpires_def RunTask_def split: list.split cleaner_pc.split)

lemma preg_map_ok: "omap_ok (pg_peers s) \<Longrightarrow> omap_ok (pg_peers (fst (preg_step s e)))"
  by (cases e) (auto simp: preg_ops omap_filter_ok split: option.split list.split cleaner_pc.split)

interpretation preg: machine preg_step "\<lambda>s. omap_ok (pg_peers s)"
  by unfold_locales (rule preg_map_ok)

lemma due_run:
  "omap_ok (pg_peers s) \<Longrightarrow>
   count_out ((=) (Told i)) (snd (run preg_step s es)) + due i (fst (run preg_step s es)) \<le> due i s + adds i es"
proof (induction es arbitrary: s)
  case (Cons e es)
  have "adds i (e # es) = adds i [e] + adds i es" by (simp add: adds_def)
  with due_step [OF Cons.prems, of i e] Cons.IH [OF preg_map_ok [OF Cons.prems, of e]] show ?case by simp
qed (simp add: adds_def)

text \<open>
  The listener is told about a peer at most once for every time the peer was added, and a
  lookup only ever finds a peer that is registered under that id and has not expired.
\<close>

theorem told_at_most_once_per_add:
  "count_out ((=) (Told i)) (snd (run preg_step (init_preg told) es)) \<le> adds i es \<and>
   (Get j (fst (run preg_step (init_preg told) es)) = Some p \<longrightarrow>
      (j, p) \<in> set (pg_peers (fst (run preg_step (init_preg told) es))) \<and>
      p \<notin> pg_expired (fst (run preg_step (init_preg told) es)))"
proof -
  have "omap_ok (pg_peers (init_preg told))" "due i (init_preg told) = 0"
    by (simp_all add: init_preg_def due_def swept_ids_def omap_keys_def)
  with due_run [of "init_preg told" i es] preg.inv_run [of "init_preg told" es] show ?thesis
    by (auto simp: Get_def omap_in_set_iff split: option.splits if_splits)
qed

end
