(* ===== verification/WebSocket.thy ===== *)
theory WebSocket
  imports Prelude
begin

text \<open>
  \<open>WebSocketClient\<close> (src/src/signaling/websocket_client.cpp): the url parser, and one
  connection as a machine. Every method and every completion handler runs on the io_context
  thread, so one event is one handler; what the callbacks \<open>on_open\<close> and \<open>on_message\<close>
  do to the client while they run is part of the event. Boost.Beast is outside the repository:
  the calls to it are outputs, its completions events.
\<close>

section \<open>Urls\<close>

record ws_url =
  use_tls :: bool
  url_host :: string
  url_port :: "16 word"
  url_target :: string

fun ParseAuthority :: "string \<Rightarrow> 16 word \<Rightarrow> (string \<times> 16 word) option" where
  "ParseAuthority authority default_port =
     (if authority \<noteq> [] \<and> hd authority = CHR ''[''
      then (case find_char (CHR '']'') authority of
              None \<Rightarrow> None
            | Some bracket_end \<Rightarrow>
                (let host = take (bracket_end - 1) (drop 1 authority)
                 in if bracket_end + 1 < length authority \<and> authority ! (bracket_end + 1) = CHR '':''
                    then map_option (\<lambda>p. (host, of_int p)) (stoi (drop (bracket_end + 2) authority))
                    else Some (host, default_port)))
      else (case find_char (CHR '':'') authority of
              None \<Rightarrow> Some (authority, default_port)
            | Some colon \<Rightarrow>
                map_option (\<lambda>p. (take colon authority, of_int p)) (stoi (drop (colon + 1) authority))))"

definition ParseWsUrl :: "string \<Rightarrow> ws_url option" where
  "ParseWsUrl url =
     (case find_sub ''://'' url of
        None \<Rightarrow> None
      | Some scheme_end \<Rightarrow>
          (let scheme = map tolower (take scheme_end url);
               rest = drop (scheme_end + 3) url;
               path_start = find_first_of {CHR ''/'', CHR ''?''} rest;
               authority = (case path_start of None \<Rightarrow> rest | Some n \<Rightarrow> take n rest);
               target = (case path_start of None \<Rightarrow> ''/'' | Some n \<Rightarrow> drop n rest);
               target' = (if hd target = CHR ''?'' then CHR ''/'' # target else target)
           in if scheme \<noteq> ''ws'' \<and> scheme \<noteq> ''wss'' then None
              else (case ParseAuthority authority (if scheme = ''ws'' then 80 else 443) of
                      None \<Rightarrow> None
                    | Some (host, port) \<Rightarrow>
                        (if host = [] then None
                         else Some \<lparr>use_tls = (scheme = ''wss''), url_host = host, url_port = port,
                                    url_target = target'\<rparr>))))"

text \<open>The Host header \<open>Open\<close> builds.\<close>

definition HostHeader :: "ws_url \<Rightarrow> string" where
  "HostHeader u =
     (let h = (if find_char (CHR '':'') (url_host u) \<noteq> None then ''['' @ url_host u @ '']'' else url_host u)
      in if \<not> (url_port u = 80 \<and> \<not> use_tls u) \<and> \<not> (url_port u = 443 \<and> use_tls u)
         then h @ '':'' @ to_digits (unat (url_port u)) else h)"

text \<open>A url printed the way \<open>Open\<close> prints the Host header.\<close>

definition print_url :: "ws_url \<Rightarrow> string" where
  "print_url u = (if use_tls u then ''wss://'' else ''ws://'') @ HostHeader u @ url_target u"

definition url_ok :: "ws_url \<Rightarrow> bool" where
  "url_ok u \<longleftrightarrow> url_host u \<noteq> [] \<and> set (url_host u) \<inter> {CHR ''/'', CHR ''?'', CHR ''['', CHR '']''} = {} \<and>
     url_target u \<noteq> [] \<and> hd (url_target u) = CHR ''/''"

lemma to_digits_no: "\<not> is_digit c \<Longrightarrow> c \<notin> set (to_digits n)"
  using to_digits_digits [of n] by (auto simp: list_all_iff)

lemma digit_not: "\<not> is_digit (CHR ''/'')" "\<not> is_digit (CHR ''?'')" "\<not> is_digit (CHR '':'')"
  by (simp_all add: is_digit_def)

lemma ParseAuthority_plain:
  assumes "CHR '':'' \<notin> set h" "h \<noteq> []" "hd h \<noteq> CHR ''[''"
  shows "ParseAuthority h d = Some (h, d)"
    and "n < 2 ^ 31 \<Longrightarrow> ParseAuthority (h @ '':'' @ to_digits n) d = Some (h, of_nat n)"
  using assms stoi_to_digits [of n "[]"] find_char_append [OF assms(1), of "to_digits n"]
  by (simp_all add: find_char_None [THEN iffD2, OF assms(1)])

lemma find_char_bracket:
  "CHR '']'' \<notin> set h \<Longrightarrow> find_char (CHR '']'') (CHR ''['' # h @ CHR '']'' # t) = Some (Suc (length h))"
  by (simp add: find_char_append)

lemma ParseAuthority_v6:
  assumes "CHR '']'' \<notin> set h"
  shows "ParseAuthority (''['' @ h @ '']'') d = Some (h, d)"
    and "n < 2 ^ 31 \<Longrightarrow> ParseAuthority (''['' @ h @ '']:'' @ to_digits n) d = Some (h, of_nat n)"
  using assms stoi_to_digits [of n "[]"] find_char_bracket [OF assms, of "[]"]
    find_char_bracket [OF assms, of "CHR '':'' # to_digits n"]
  by (simp_all add: Let_def nth_append)

text \<open>
  C16: Urls round-trip: whatever host (a name, an IPv4 or an IPv6 address), port and target a
  connection goes to, the parser reads back all of them from the url printed with the Host
  header \<open>Open\<close> sends, the port being left out exactly when it is the scheme's default.
\<close>

theorem ws_url_round_trip:
  assumes "url_ok u"
  shows "ParseWsUrl (print_url u) = Some u"
proof -
  let ?h = "url_host u" and ?p = "unat (url_port u)" and ?d = "if use_tls u then 443 else 80 :: 16 word"
  have port: "?p < 2 ^ 31" using unsigned_less [where 'a = nat and w = "url_port u"] by simp
  have host: "?h \<noteq> []" "CHR ''/'' \<notin> set ?h" "CHR ''?'' \<notin> set ?h" "CHR '']'' \<notin> set ?h" "hd ?h \<noteq> CHR ''[''"
    using assms by (auto simp: url_ok_def) (metis hd_in_set)
  have auth: "ParseAuthority (HostHeader u) ?d = Some (?h, url_port u)"
  proof (cases "CHR '':'' \<in> set ?h")
    case True
    then show ?thesis
      using ParseAuthority_v6 [OF host(4)] port by (auto simp: HostHeader_def Let_def simp del: ParseAuthority.simps)
  next
    case False
    then show ?thesis
      using ParseAuthority_plain [OF False host(1,5)] port by (auto simp: HostHeader_def Let_def simp del: ParseAuthority.simps)
  qed
  have no_path: "\<forall>c \<in> set (HostHeader u). c \<notin> {CHR ''/'', CHR ''?''}"
    using host to_digits_no [OF digit_not(1)] to_digits_no [OF digit_not(2)] by (auto simp: HostHeader_def Let_def)
  obtain t where t: "url_target u = CHR ''/'' # t" using assms by (cases "url_target u") (auto simp: url_ok_def)
  have path: "find_first_of {CHR ''/'', CHR ''?''} (HostHeader u @ url_target u) = Some (length (HostHeader u))"
    using find_first_of_append [OF no_path] t by simp
  have scheme: "find_sub ''://'' (print_url u) = Some (if use_tls u then 3 else 2)"
    by (simp add: print_url_def starts_with_def)
  have low: "map tolower ''ws'' = ''ws''" "map tolower ''wss'' = ''wss''" by (simp_all add: tolower_def)
  show ?thesis
    using scheme path auth host(1) t low
    by (cases "use_tls u") (simp_all add: ParseWsUrl_def print_url_def Let_def del: ParseAuthority.simps)
qed

theorem ws_url_round_trip_witness:
  "ParseWsUrl (print_url \<lparr>use_tls = True, url_host = ''fe80::1'', url_port = 8443, url_target = ''/whep?x=1''\<rparr>) =
     Some \<lparr>use_tls = True, url_host = ''fe80::1'', url_port = 8443, url_target = ''/whep?x=1''\<rparr>"
  by (rule ws_url_round_trip) (simp add: url_ok_def)

section \<open>The connection\<close>

record ws_client =
  ws_stream :: bool                    \<comment> \<open>\<open>ws_\<close> holds a stream\<close>
  ws_url_of :: "ws_url option"
  ws_open :: bool
  ws_writing :: bool
  ws_closing :: bool
  ws_finished :: bool
  ws_close_code :: int
  ws_close_reason :: string
  ws_queue :: "(bytes \<times> bool) list"   \<comment> \<open>frames, with \<open>text\<close>\<close>
  ws_on_open :: bool
  ws_on_message :: bool
  ws_on_close :: bool
  ws_accepted :: "(bytes \<times> bool) list"   \<comment> \<open>every frame ever queued\<close>

datatype ws_out =
    PostFinish
  | AsyncResolve string string
  | AsyncConnect
  | AsyncTlsHandshake
  | AsyncHandshake string string
  | AsyncRead
  | AsyncWrite bytes bool
  | AsyncClose int string
  | SetPingTimer
  | SetSilenceTimer
  | CancelAll
  | CloseSocket
  | CalledOpen
  | CalledMessage bytes
  | CalledClose int string

definition kPingIntervalSec :: int where "kPingIntervalSec = 15"
definition kSilenceTimeoutSec :: int where "kSilenceTimeoutSec = 35"

definition init_ws :: "bool \<Rightarrow> bool \<Rightarrow> bool \<Rightarrow> ws_client" where
  "init_ws on_open on_message on_close =
     \<lparr>ws_stream = False, ws_url_of = None, ws_open = False, ws_writing = False, ws_closing = False,
      ws_finished = False, ws_close_code = 1000, ws_close_reason = [], ws_queue = [],
      ws_on_open = on_open, ws_on_message = on_message, ws_on_close = on_close,
      ws_accepted = []\<rparr>"

definition Finish :: "int \<Rightarrow> string \<Rightarrow> ws_client \<Rightarrow> ws_client \<times> ws_out list" where
  "Finish code reason s =
     (if ws_finished s then (s, [])
      else (s\<lparr>ws_finished := True, ws_open := False,
              ws_queue := (if ws_writing s then take 1 (ws_queue s) else []),
              ws_on_open := False, ws_on_message := False, ws_on_close := False\<rparr>,
            CancelAll # (if ws_stream s then [CloseSocket] else []) @
            (if ws_on_close s then [CalledClose code reason] else [])))"

definition DoWrite :: "ws_client \<Rightarrow> ws_client \<times> ws_out list" where
  "DoWrite s =
     (if ws_writing s \<or> ws_finished s \<or> \<not> ws_open s then (s, [])
      else (case ws_queue s of
              [] \<Rightarrow> (s, if ws_closing s then [AsyncClose (ws_close_code s) (ws_close_reason s)] else [])
            | (data, text) # _ \<Rightarrow> (s\<lparr>ws_writing := True\<rparr>, [AsyncWrite data text])))"

definition Queue :: "bytes \<Rightarrow> bool \<Rightarrow> ws_client \<Rightarrow> ws_client \<times> ws_out list" where
  "Queue data text s =
     (if ws_finished s \<or> ws_closing s then (s, [])
      else if \<not> ws_open s then (s, [])
      else DoWrite (s\<lparr>ws_queue := ws_queue s @ [(data, text)], ws_accepted := ws_accepted s @ [(data, text)]\<rparr>))"

definition Send :: "bytes \<Rightarrow> ws_client \<Rightarrow> ws_client \<times> ws_out list" where
  "Send data s = Queue data False s"

definition Close :: "int \<Rightarrow> string \<Rightarrow> ws_client \<Rightarrow> ws_client \<times> ws_out list" where
  "Close code reason s =
     (if ws_finished s \<or> ws_closing s then (s, [])
      else let s' = s\<lparr>ws_closing := True, ws_close_code := code, ws_close_reason := reason\<rparr>
        in if \<not> ws_open s' then Finish code (if reason = [] then ''closed before it opened'' else reason) s'
           else DoWrite s')"

text \<open>What a callback does to the client while it runs.\<close>

datatype ws_op = OpSend bytes | OpClose int string

fun ws_do :: "ws_client \<Rightarrow> ws_op \<Rightarrow> ws_client \<times> ws_out list" where
  "ws_do s (OpSend data) = Send data s"
| "ws_do s (OpClose code reason) = Close code reason s"

definition Open :: "string \<Rightarrow> ws_client \<Rightarrow> ws_client \<times> ws_out list" where
  "Open url s =
     (case ParseWsUrl url of
        None \<Rightarrow> (s, [PostFinish])
      | Some u \<Rightarrow> (s\<lparr>ws_stream := True, ws_url_of := Some u\<rparr>,
                   [AsyncResolve (url_host u) (to_digits (unat (url_port u)))]))"

definition host_of :: "ws_client \<Rightarrow> string" where
  "host_of s = (case ws_url_of s of None \<Rightarrow> [] | Some u \<Rightarrow> url_host u)"

definition header_of :: "ws_client \<Rightarrow> string" where
  "header_of s = (case ws_url_of s of None \<Rightarrow> [] | Some u \<Rightarrow> HostHeader u)"

text \<open>Completion handlers; an error is its message.\<close>

definition OnResolve :: "string option \<Rightarrow> ws_client \<Rightarrow> ws_client \<times> ws_out list" where
  "OnResolve ec s =
     (if ws_finished s then (s, [])
      else (case ec of
              Some e \<Rightarrow> Finish 0 (''could not resolve '' @ host_of s @ '': '' @ e) s
            | None \<Rightarrow> (s, if ws_stream s then [AsyncConnect] else [])))"

definition Handshake :: "ws_client \<Rightarrow> ws_client \<times> ws_out list" where
  "Handshake s =
     (s, case ws_url_of s of None \<Rightarrow> [] | Some u \<Rightarrow> [AsyncHandshake (HostHeader u) (url_target u)])"

text \<open>\<open>sni\<close>: whether \<open>SSL_set_tlsext_host_name\<close> accepts the name.\<close>

definition OnConnect :: "string option \<Rightarrow> bool \<Rightarrow> ws_client \<Rightarrow> ws_client \<times> ws_out list" where
  "OnConnect ec sni s =
     (if ws_finished s then (s, [])
      else (case ec of
              Some e \<Rightarrow> Finish 0 (''could not connect to '' @ header_of s @ '': '' @ e) s
            | None \<Rightarrow>
                (case ws_url_of s of
                   Some u \<Rightarrow> (if \<not> use_tls u then Handshake s
                              else if \<not> sni then Finish 0 ''could not set the TLS server name'' s
                              else (s, [AsyncTlsHandshake]))
                 | None \<Rightarrow> (s, []))))"

definition OnTlsHandshake :: "string option \<Rightarrow> ws_client \<Rightarrow> ws_client \<times> ws_out list" where
  "OnTlsHandshake ec s =
     (if ws_finished s then (s, [])
      else (case ec of Some e \<Rightarrow> Finish 0 (''TLS handshake with '' @ host_of s @ '' failed: '' @ e) s | None \<Rightarrow> Handshake s))"

definition OnHandshake :: "string option \<Rightarrow> ws_op list \<Rightarrow> ws_client \<Rightarrow> ws_client \<times> ws_out list" where
  "OnHandshake ec ops s =
     (if ws_finished s then (s, [])
      else (case ec of
              Some e \<Rightarrow> Finish 0 (''WebSocket handshake with '' @ header_of s @ '' failed: '' @ e) s
            | None \<Rightarrow>
                andthen (andthen (s\<lparr>ws_open := True\<rparr>, [SetPingTimer, SetSilenceTimer, AsyncRead])
                  (\<lambda>s1. if ws_on_open s1 then andthen (s1, [CalledOpen]) (\<lambda>s2. run ws_do s2 ops) else (s1, [])))
                DoWrite))"

datatype read_result = ReadClosed int string | ReadFailed string | ReadFrame bool bytes

definition OnRead :: "read_result \<Rightarrow> ws_op list \<Rightarrow> ws_client \<Rightarrow> ws_client \<times> ws_out list" where
  "OnRead res ops s =
     (if ws_finished s then (s, [])
      else (case res of
              ReadClosed code reason \<Rightarrow> Finish code (if reason = [] then ''closed by the server'' else reason) s
            | ReadFailed e \<Rightarrow>
                (if ws_closing s then Finish (ws_close_code s) (ws_close_reason s) s
                 else Finish 0 (''connection lost: '' @ e) s)
            | ReadFrame got_text data \<Rightarrow>
                andthen (andthen (s, [SetSilenceTimer])
                  (\<lambda>s1. if \<not> got_text \<and> ws_on_message s1
                        then andthen (s1, [CalledMessage data]) (\<lambda>s2. run ws_do s2 ops) else (s1, [])))
                (\<lambda>s3. (s3, if ws_finished s3 then [] else [AsyncRead]))))"

definition OnWritten :: "string option \<Rightarrow> ws_client \<Rightarrow> ws_client \<times> ws_out list" where
  "OnWritten ec s =
     (let s1 = s\<lparr>ws_writing := False\<rparr>
      in if ws_finished s1 then (s1\<lparr>ws_queue := []\<rparr>, [])
         else (case ec of
                 Some e \<Rightarrow> Finish 0 (''could not send: '' @ e) s1
               | None \<Rightarrow> DoWrite (s1\<lparr>ws_queue := tl (ws_queue s1)\<rparr>)))"

definition OnCloseSent :: "ws_client \<Rightarrow> ws_client \<times> ws_out list" where
  "OnCloseSent s = Finish (ws_close_code s) (ws_close_reason s) s"

definition OnPing :: "ws_client \<Rightarrow> ws_client \<times> ws_out list" where
  "OnPing s =
     (if ws_finished s \<or> ws_closing s then (s, [])
      else andthen (Queue ''ping'' True s) (\<lambda>s1. (s1, [SetPingTimer])))"

definition OnSilence :: "ws_client \<Rightarrow> ws_client \<times> ws_out list" where
  "OnSilence s = (if ws_finished s then (s, []) else Finish 0 ''no pong for 35 seconds'' s)"

datatype ws_event =
    WsOpen string | WsCall ws_op | WsPosted
  | WsResolved "string option" | WsConnected "string option" bool | WsTls "string option"
  | WsHandshake "string option" "ws_op list" | WsRead read_result "ws_op list"
  | WsWritten "string option" | WsCloseSent | WsPing | WsSilence

fun ws_step :: "ws_client \<Rightarrow> ws_event \<Rightarrow> ws_client \<times> ws_out list" where
  "ws_step s (WsOpen url) = Open url s"
| "ws_step s (WsCall op) = ws_do s op"
| "ws_step s WsPosted = Finish 0 ''the url is not a ws:// or wss:// url'' s"
| "ws_step s (WsResolved ec) = OnResolve ec s"
| "ws_step s (WsConnected ec sni) = OnConnect ec sni s"
| "ws_step s (WsTls ec) = OnTlsHandshake ec s"
| "ws_step s (WsHandshake ec ops) = OnHandshake ec ops s"
| "ws_step s (WsRead res ops) = OnRead res ops s"
| "ws_step s (WsWritten ec) = OnWritten ec s"
| "ws_step s WsCloseSent = OnCloseSent s"
| "ws_step s WsPing = OnPing s"
| "ws_step s WsSilence = OnSilence s"


section \<open>The close callback\<close>

fun is_close_call :: "ws_out \<Rightarrow> bool" where
  "is_close_call (CalledClose _ _) = True"
| "is_close_call _ = False"

text \<open>
  An operation calls \<open>on_close\<close> exactly when it clears it, and it clears it when it finishes.
\<close>

definition done_ok :: "ws_client \<Rightarrow> bool" where
  "done_ok s \<longleftrightarrow> (ws_finished s \<longrightarrow> \<not> ws_on_close s)"

definition close_owed :: "ws_client \<Rightarrow> ws_client \<times> ws_out list \<Rightarrow> bool" where
  "close_owed s r \<longleftrightarrow> count_out is_close_call (snd r) + of_bool (ws_on_close (fst r)) = of_bool (ws_on_close s) \<and>
     (done_ok s \<longrightarrow> done_ok (fst r))"

lemma close_owed_andthen: "close_owed s r \<Longrightarrow> close_owed (fst r) (f (fst r)) \<Longrightarrow> close_owed s (andthen r f)"
  by (simp add: close_owed_def)

lemma close_owed_none:
  "ws_on_close s' = ws_on_close s \<Longrightarrow> ws_finished s' = ws_finished s \<Longrightarrow>
   list_all (\<lambda>x. \<not> is_close_call x) os \<Longrightarrow> close_owed s (s', os)"
  by (auto simp: close_owed_def done_ok_def count_out_def filter_empty_conv list_all_iff)

lemma close_owed_Finish:
  "ws_on_close s0 = ws_on_close s \<Longrightarrow> ws_finished s0 = ws_finished s \<Longrightarrow> close_owed s (Finish code reason s0)"
  by (auto simp: close_owed_def done_ok_def Finish_def)

lemma close_owed_DoWrite:
  "ws_on_close s0 = ws_on_close s \<Longrightarrow> ws_finished s0 = ws_finished s \<Longrightarrow> close_owed s (DoWrite s0)"
  by (auto simp: DoWrite_def intro!: close_owed_none split: list.split)

lemma close_owed_Queue:
  "ws_on_close s0 = ws_on_close s \<Longrightarrow> ws_finished s0 = ws_finished s \<Longrightarrow> close_owed s (Queue data text s0)"
  by (auto simp: Queue_def intro!: close_owed_none close_owed_DoWrite)

lemma close_owed_do: "close_owed s (ws_do s op)"
  by (cases op) (auto simp: Send_def Close_def Let_def intro!: close_owed_none close_owed_Queue close_owed_Finish close_owed_DoWrite)

lemma close_owed_ops: "close_owed s (run ws_do s ops)"
proof (induction ops arbitrary: s)
  case (Cons op ops)
  from close_owed_do [of s op] Cons [of "fst (ws_do s op)"] show ?case
    by (simp add: close_owed_def)
qed (simp add: close_owed_def)

lemma close_owed_step: "close_owed s (ws_step s e)"
proof (cases e)
  case (WsHandshake ec ops)
  have "close_owed (s\<lparr>ws_open := True\<rparr>) (andthen (s\<lparr>ws_open := True\<rparr>, [CalledOpen]) (\<lambda>s2. run ws_do s2 ops))"
    by (intro close_owed_andthen close_owed_none) (simp_all add: close_owed_ops)
  then show ?thesis
    using WsHandshake
    by (auto simp: OnHandshake_def close_owed_Finish intro!: close_owed_andthen close_owed_none close_owed_DoWrite
        split: option.split)
next
  case (WsRead res ops)
  have "close_owed s (andthen (s, [CalledMessage data]) (\<lambda>s2. run ws_do s2 ops))" for data
    by (intro close_owed_andthen close_owed_none) (simp_all add: close_owed_ops)
  then show ?thesis
    using WsRead
    by (auto simp: OnRead_def close_owed_Finish intro!: close_owed_andthen close_owed_none split: read_result.split)
qed (auto simp: Open_def close_owed_do OnResolve_def OnConnect_def Handshake_def OnTlsHandshake_def OnWritten_def
      OnCloseSent_def OnPing_def OnSilence_def Let_def intro!: close_owed_none close_owed_Finish close_owed_DoWrite
      close_owed_andthen close_owed_Queue split: option.split)

lemma close_owed_le: "count_out is_close_call (snd (ws_step s e)) + of_bool (ws_on_close (fst (ws_step s e))) \<le> of_bool (ws_on_close s)"
  using close_owed_step [of s e] unfolding close_owed_def by linarith

interpretation on_close: once_machine ws_step "\<lambda>_. True" ws_on_close is_close_call
  by unfold_locales (simp, rule close_owed_le)

text \<open>After the connection is finished nothing is read, written, closed or called back any more.\<close>

fun connection_out :: "ws_out \<Rightarrow> bool" where
  "connection_out PostFinish = False"
| "connection_out (AsyncResolve _ _) = False"
| "connection_out _ = True"

lemma finished_do: "ws_finished s \<Longrightarrow> ws_do s op = (s, [])"
  by (cases op) (simp_all add: Send_def Queue_def Close_def)

lemma finished_step:
  "ws_finished s \<Longrightarrow> ws_finished (fst (ws_step s e)) \<and> list_all (\<lambda>x. \<not> connection_out x) (snd (ws_step s e))"
  by (cases e) (auto simp: finished_do Open_def Finish_def OnResolve_def OnConnect_def OnTlsHandshake_def
      OnHandshake_def OnRead_def OnWritten_def OnCloseSent_def OnPing_def OnSilence_def Let_def split: option.split)

interpretation finished: quiet_machine ws_step "\<lambda>_. True" ws_finished connection_out
  by unfold_locales (use finished_step in auto)

lemma close_run:
  "done_ok s \<Longrightarrow> count_out is_close_call (snd (run ws_step s es)) + of_bool (ws_on_close (fst (run ws_step s es))) =
     of_bool (ws_on_close s) \<and> done_ok (fst (run ws_step s es))"
proof (induction es arbitrary: s)
  case (Cons e es)
  let ?s = "fst (ws_step s e)"
  have step: "count_out is_close_call (snd (ws_step s e)) + of_bool (ws_on_close ?s) = of_bool (ws_on_close s)"
    and "done_ok ?s"
    using close_owed_step [of s e] Cons.prems by (simp_all add: close_owed_def)
  from Cons.IH [OF this(2)] step show ?case by simp
qed simp

text \<open>
  C17: \<open>OnClose\<close> fires once: at most once in any run, and when the connection is finished it
  has fired if it was set; from then on the client neither reads, writes, closes nor calls
  back, whatever its owner or the network do.
\<close>

theorem on_close_fires_once:
  "count_out is_close_call (snd (run ws_step (init_ws on_open on_message on_close) es)) \<le> 1 \<and>
   (ws_finished (fst (run ws_step (init_ws on_open on_message on_close) es)) \<longrightarrow>
      count_out is_close_call (snd (run ws_step (init_ws on_open on_message on_close) es)) = of_bool on_close \<and>
      list_all (\<lambda>x. \<not> connection_out x) (snd (run ws_step (fst (run ws_step (init_ws on_open on_message on_close) es)) es')))"
proof (intro conjI impI)
  show "count_out is_close_call (snd (run ws_step (init_ws on_open on_message on_close) es)) \<le> 1"
    by (rule on_close.at_most_once) simp
  assume fin: "ws_finished (fst (run ws_step (init_ws on_open on_message on_close) es))"
  then show "list_all (\<lambda>x. \<not> connection_out x)
      (snd (run ws_step (fst (run ws_step (init_ws on_open on_message on_close) es)) es'))"
    by (intro finished.silent_run) simp_all
  have "done_ok (init_ws on_open on_message on_close)" "ws_on_close (init_ws on_open on_message on_close) = on_close"
    by (simp_all add: done_ok_def init_ws_def)
  from close_run [OF this(1), of es] fin this(2)
  show "count_out is_close_call (snd (run ws_step (init_ws on_open on_message on_close) es)) = of_bool on_close"
    by (metis add.right_neutral done_ok_def of_bool_eq(1))
qed

definition silent_run :: "ws_event list" where
  "silent_run = [WsOpen ''ws://h/'', WsHandshake None [], WsSilence]"

theorem on_close_fires_once_witness:
  "count_out is_close_call (snd (run ws_step (init_ws True True True) silent_run)) = 1 \<and>
   list_all (\<lambda>x. \<not> connection_out x)
     (snd (run ws_step (fst (run ws_step (init_ws True True True) silent_run)) [WsCall (OpSend ''a'')]))"
proof -
  have "ws_finished (fst (run ws_step (init_ws True True True) silent_run))" by code_simp
  with on_close_fires_once [of True True True silent_run "[WsCall (OpSend ''a'')]"] show ?thesis by simp
qed

section \<open>The order of frames\<close>

fun frames :: "ws_out list \<Rightarrow> (bytes \<times> bool) list" where
  "frames [] = []"
| "frames (AsyncWrite data text # os) = (data, text) # frames os"
| "frames (_ # os) = frames os"

fun is_close_frame :: "ws_out \<Rightarrow> bool" where
  "is_close_frame (AsyncClose _ _) = True"
| "is_close_frame _ = False"

lemma frames_append [simp]: "frames (xs @ ys) = frames xs @ frames ys"
  by (induction xs rule: frames.induct) auto

text \<open>Frames accepted and not handed to the stream yet; the first of a write in progress has been.\<close>

definition pending :: "ws_client \<Rightarrow> (bytes \<times> bool) list" where
  "pending s = (if ws_writing s then tl (ws_queue s) else ws_queue s)"

definition queue_ok :: "ws_client \<Rightarrow> bool" where
  "queue_ok s \<longleftrightarrow> (ws_writing s \<longrightarrow> ws_queue s \<noteq> [])"

text \<open>
  What an operation does to the frames: it accepts some, and hands over a beginning of what is
  pending; a close frame goes out only when nothing is pending and no write is in progress.
\<close>

definition fifo_by :: "(bytes \<times> bool) list \<Rightarrow> (bytes \<times> bool) list \<Rightarrow> ws_client \<Rightarrow> ws_client \<times> ws_out list \<Rightarrow> bool" where
  "fifo_by new rest s r \<longleftrightarrow> ws_accepted (fst r) = ws_accepted s @ new \<and>
     pending s @ new = frames (snd r) @ rest \<and>
     (\<not> ws_finished (fst r) \<longrightarrow> rest = pending (fst r)) \<and>
     (ws_finished s \<or> ws_closing s \<longrightarrow> new = []) \<and>
     (ws_finished s \<longrightarrow> frames (snd r) = [] \<and> \<not> list_ex is_close_frame (snd r)) \<and>
     (list_ex is_close_frame (snd r) \<longrightarrow> rest = [] \<and> ws_closing (fst r))"

definition forward :: "ws_client \<Rightarrow> ws_client \<Rightarrow> bool" where
  "forward s s' \<longleftrightarrow> (ws_finished s \<longrightarrow> ws_finished s') \<and> (ws_closing s \<longrightarrow> ws_closing s') \<and>
     (queue_ok s \<longrightarrow> queue_ok s')"

definition fifo :: "ws_client \<Rightarrow> ws_client \<times> ws_out list \<Rightarrow> bool" where
  "fifo s r \<longleftrightarrow> (queue_ok s \<longrightarrow> (\<exists>new rest. fifo_by new rest s r)) \<and> forward s (fst r)"

lemma fifo_by_andthen:
  assumes 1: "fifo_by n1 r1 s r" and 2: "fifo_by n2 r2 (fst r) (f (fst r))"
    and fw: "forward s (fst r)" "forward (fst r) (fst (f (fst r)))"
  shows "fifo_by (n1 @ n2) (if ws_finished (fst r) then r1 else r2) s (andthen r f)"
proof (cases "ws_finished (fst r)")
  case False
  then have "r1 = pending (fst r)" using 1 by (simp add: fifo_by_def)
  then have b: "pending s @ n1 @ n2 = (frames (snd r) @ frames (snd (f (fst r)))) @ r2"
    using 1 2 unfolding fifo_by_def by (metis append.assoc)
  have c: "list_ex is_close_frame (snd r) \<longrightarrow> r2 = [] \<and> ws_closing (fst (f (fst r)))"
    using 1 2 fw(2) False \<open>r1 = pending (fst r)\<close> unfolding fifo_by_def forward_def by auto
  have d: "\<not> ws_finished s" using fw(1) False by (auto simp: forward_def)
  show ?thesis
    using 1 2 b c d False fw unfolding fifo_by_def forward_def andthen_simps frames_append list_ex_append
    by (simp only: if_False) (metis append.assoc append_Nil)
next
  case True
  with 2 have n: "n2 = []" "frames (snd (f (fst r))) = []" "\<not> list_ex is_close_frame (snd (f (fst r)))"
    unfolding fifo_by_def by auto
  have "ws_finished (fst (f (fst r)))" using True fw(2) by (simp add: forward_def)
  then show ?thesis
    using 1 2 n True fw(2) unfolding fifo_by_def forward_def andthen_simps frames_append list_ex_append
    by (simp only: if_True append_Nil2) blast
qed

lemma fifo_andthen:
  assumes "fifo s r" "fifo (fst r) (f (fst r))"
  shows "fifo s (andthen r f)"
proof -
  have "forward s (fst (f (fst r)))" using assms unfolding fifo_def forward_def by blast
  moreover have "queue_ok s \<longrightarrow> queue_ok (fst r)" using assms(1) unfolding fifo_def forward_def by blast
  ultimately show ?thesis
    using assms fifo_by_andthen unfolding fifo_def by (metis andthen_simps(1))
qed

lemma fifo_skip:
  "ws_accepted s' = ws_accepted s \<Longrightarrow> ws_queue s' = ws_queue s \<Longrightarrow> ws_writing s' = ws_writing s \<Longrightarrow>
   ws_finished s' = ws_finished s \<Longrightarrow> (ws_closing s \<longrightarrow> ws_closing s') \<Longrightarrow>
   frames os = [] \<Longrightarrow> \<not> list_ex is_close_frame os \<Longrightarrow> fifo s (s', os)"
  unfolding fifo_def forward_def
  by (intro conjI exI [of _ "[]"] exI [of _ "pending s"]) (auto simp: fifo_by_def pending_def queue_ok_def)

lemma fifo_Finish: "fifo s (Finish code reason s)"
proof (cases "ws_finished s")
  case False
  have "fifo_by [] (pending s) s (Finish code reason s)"
    using False by (auto simp: fifo_by_def pending_def Finish_def)
  moreover have "forward s (fst (Finish code reason s))"
    using False by (auto simp: forward_def Finish_def queue_ok_def)
  ultimately show ?thesis unfolding fifo_def by blast
qed (simp add: Finish_def fifo_skip)

lemma fifo_DoWrite: "fifo s (DoWrite s)"
proof (cases "ws_writing s \<or> ws_finished s \<or> \<not> ws_open s")
  case False
  have "fifo_by [] (tl (ws_queue s)) s (DoWrite s)"
    using False by (cases "ws_queue s") (auto simp: fifo_by_def pending_def DoWrite_def)
  moreover have "forward s (fst (DoWrite s))"
    using False by (cases "ws_queue s") (auto simp: forward_def DoWrite_def queue_ok_def)
  ultimately show ?thesis unfolding fifo_def by blast
qed (simp add: DoWrite_def fifo_skip)

lemma fifo_Queue: "fifo s (Queue data text s)"
proof (cases "ws_finished s \<or> ws_closing s \<or> \<not> ws_open s")
  case False
  have fw: "forward s (fst (Queue data text s))"
    using False by (cases "ws_queue s") (auto simp: forward_def Queue_def DoWrite_def queue_ok_def)
  have "\<exists>rest. fifo_by [(data, text)] rest s (Queue data text s)" if q: "queue_ok s"
  proof (cases "ws_writing s")
    case True
    with q have "ws_queue s \<noteq> []" by (simp add: queue_ok_def)
    then have "fifo_by [(data, text)] (pending s @ [(data, text)]) s (Queue data text s)"
      using False True by (auto simp: fifo_by_def pending_def Queue_def DoWrite_def)
    then show ?thesis by blast
  next
    case nw: False
    have "fifo_by [(data, text)] (tl (ws_queue s @ [(data, text)])) s (Queue data text s)"
      using False nw by (cases "ws_queue s") (auto simp: fifo_by_def pending_def Queue_def DoWrite_def)
    then show ?thesis by blast
  qed
  with fw show ?thesis unfolding fifo_def by blast
qed (auto simp: Queue_def fifo_skip)

lemma fifo_do: "fifo s (ws_do s op)"
proof (cases op)
  case (OpClose code reason)
  have "fifo s (andthen (s\<lparr>ws_closing := True, ws_close_code := code, ws_close_reason := reason\<rparr>, []) f)"
    if "\<And>s'. fifo s' (f s')" for f
    using that by (intro fifo_andthen fifo_skip) simp_all
  from this [of DoWrite] this [of "Finish code (if reason = [] then ''closed before it opened'' else reason)"]
  show ?thesis
    using OpClose by (cases "reason = []") (simp_all add: Close_def Let_def fifo_DoWrite fifo_Finish fifo_skip andthen_def)
qed (simp add: Send_def fifo_Queue)

lemma fifo_ops: "fifo s (run ws_do s ops)"
proof (induction ops arbitrary: s)
  case Nil
  then show ?case by (simp add: fifo_skip)
next
  case (Cons op ops)
  have "run ws_do s (op # ops) = andthen (ws_do s op) (\<lambda>s1. run ws_do s1 ops)"
    by (simp add: andthen_def run.simps(2))
  then show ?case by (simp add: fifo_andthen fifo_do Cons)
qed

text \<open>A completed write was in progress.\<close>

fun genuine :: "ws_client \<Rightarrow> ws_event \<Rightarrow> bool" where
  "genuine s (WsWritten _) = ws_writing s"
| "genuine s _ = True"


lemma fifo_OnHandshake: "fifo s (OnHandshake ec ops s)"
proof -
  have "fifo s (andthen (andthen (s\<lparr>ws_open := True\<rparr>, [SetPingTimer, SetSilenceTimer, AsyncRead])
      (\<lambda>s1. if ws_on_open s1 then andthen (s1, [CalledOpen]) (\<lambda>s2. run ws_do s2 ops) else (s1, []))) DoWrite)"
    by (auto intro!: fifo_andthen fifo_DoWrite fifo_ops fifo_skip)
  then show ?thesis
    by (auto simp: OnHandshake_def fifo_Finish fifo_skip split: option.split)
qed

lemma fifo_OnRead: "fifo s (OnRead res ops s)"
proof -
  have "fifo s (andthen (andthen (s, [SetSilenceTimer])
      (\<lambda>s1. if \<not> got_text \<and> ws_on_message s1 then andthen (s1, [CalledMessage data]) (\<lambda>s2. run ws_do s2 ops) else (s1, [])))
      (\<lambda>s3. (s3, if ws_finished s3 then [] else [AsyncRead])))" for got_text data
    by (auto intro!: fifo_andthen fifo_ops fifo_skip split: if_splits)
  then show ?thesis
    by (auto simp: OnRead_def fifo_Finish fifo_skip split: read_result.split)
qed

lemma fifo_OnWritten: "ws_writing s \<Longrightarrow> fifo s (OnWritten ec s)"
proof -
  assume w: "ws_writing s"
  let ?s = "s\<lparr>ws_writing := False\<rparr>"
  have move: "fifo s (?s\<lparr>ws_queue := tl (ws_queue s)\<rparr>, [])"
    unfolding fifo_def using w
    by (intro conjI impI exI [of _ "[]"] exI [of _ "tl (ws_queue s)"])
       (auto simp: fifo_by_def forward_def pending_def queue_ok_def)
  have fin: "fifo s (s\<lparr>ws_writing := False, ws_queue := []\<rparr>, [])" if "ws_finished s"
    unfolding fifo_def using w that
    by (intro conjI impI exI [of _ "[]"] exI [of _ "pending s"])
       (auto simp: fifo_by_def forward_def pending_def queue_ok_def)
  have err: "fifo s (Finish 0 m ?s)" if "\<not> ws_finished s" for m
    unfolding fifo_def using w that
    by (intro conjI impI exI [of _ "[]"] exI [of _ "pending s"])
       (auto simp: fifo_by_def forward_def pending_def queue_ok_def Finish_def)
  have "fifo s (andthen (?s\<lparr>ws_queue := tl (ws_queue s)\<rparr>, []) DoWrite)"
    by (intro fifo_andthen move fifo_DoWrite)
  then have "fifo s (DoWrite (?s\<lparr>ws_queue := tl (ws_queue s)\<rparr>))"
    by (simp add: andthen_def)
  then show ?thesis
    using fin err by (auto simp: OnWritten_def Let_def split: option.split)
qed

lemma fifo_step: "genuine s e \<Longrightarrow> fifo s (ws_step s e)"
proof (cases e)
  case WsPing
  then show ?thesis
    by (auto simp: OnPing_def intro!: fifo_andthen fifo_Queue fifo_skip)
qed (auto simp: Open_def fifo_do OnResolve_def OnConnect_def Handshake_def OnTlsHandshake_def fifo_OnHandshake
      fifo_OnRead fifo_OnWritten OnCloseSent_def OnSilence_def fifo_Finish intro!: fifo_skip split: option.split)

fun genuine_run :: "ws_client \<Rightarrow> ws_event list \<Rightarrow> bool" where
  "genuine_run s [] = True"
| "genuine_run s (e # es) = (genuine s e \<and> genuine_run (fst (ws_step s e)) es)"

lemma fifo_run: "genuine_run s es \<Longrightarrow> fifo s (run ws_step s es)"
proof (induction es arbitrary: s)
  case Nil
  then show ?case by (simp add: fifo_skip)
next
  case (Cons e es)
  have "run ws_step s (e # es) = andthen (ws_step s e) (\<lambda>s1. run ws_step s1 es)"
    by (simp add: andthen_def run.simps(2))
  with Cons show ?case by (simp add: fifo_andthen fifo_step)
qed

text \<open>
  C18: Frames go out in the order they were accepted, each once: what was handed to the stream
  is always a beginning of what was accepted, and once the close frame has been sent it is all
  of it, so \<open>Close\<close> never cuts off an accepted frame.
\<close>

theorem frames_in_order_before_close:
  assumes "genuine_run (init_ws on_open on_message on_close) es"
  shows "take (length (frames (snd (run ws_step (init_ws on_open on_message on_close) es))))
      (ws_accepted (fst (run ws_step (init_ws on_open on_message on_close) es))) =
      frames (snd (run ws_step (init_ws on_open on_message on_close) es)) \<and>
    (list_ex is_close_frame (snd (run ws_step (init_ws on_open on_message on_close) es)) \<longrightarrow>
      frames (snd (run ws_step (init_ws on_open on_message on_close) es)) =
      ws_accepted (fst (run ws_step (init_ws on_open on_message on_close) es)))"
proof -
  let ?s = "init_ws on_open on_message on_close"
  have "queue_ok ?s" "pending ?s = []" "ws_accepted ?s = []"
    by (simp_all add: queue_ok_def pending_def init_ws_def)
  moreover obtain new rest where "fifo_by new rest ?s (run ws_step ?s es)"
    using fifo_run [OF assms] \<open>queue_ok ?s\<close> unfolding fifo_def by blast
  ultimately show ?thesis unfolding fifo_by_def by auto
qed

definition two_frames_run :: "ws_event list" where
  "two_frames_run =
     [WsOpen ''ws://h/'', WsHandshake None [OpSend ''a'', OpSend ''b''], WsCall (OpClose 1000 []),
      WsWritten None, WsWritten None]"

theorem frames_in_order_before_close_witness:
  "frames (snd (run ws_step (init_ws True True True) two_frames_run)) =
     ws_accepted (fst (run ws_step (init_ws True True True) two_frames_run))"
proof -
  have "genuine_run (init_ws True True True) two_frames_run" by code_simp
  moreover have "list_ex is_close_frame (snd (run ws_step (init_ws True True True) two_frames_run))" by code_simp
  ultimately show ?thesis using frames_in_order_before_close [of True True True two_frames_run] by simp
qed

section \<open>One write at a time\<close>

definition one_write :: "ws_client \<Rightarrow> ws_client \<times> ws_out list \<Rightarrow> bool" where
  "one_write s r \<longleftrightarrow> length (frames (snd r)) + of_bool (ws_writing s) = of_bool (ws_writing (fst r))"

lemma one_write_andthen: "one_write s r \<Longrightarrow> one_write (fst r) (f (fst r)) \<Longrightarrow> one_write s (andthen r f)"
  by (simp add: one_write_def)

lemma one_write_none: "ws_writing s' = ws_writing s \<Longrightarrow> frames os = [] \<Longrightarrow> one_write s (s', os)"
  by (simp add: one_write_def)

lemma one_write_Finish: "ws_writing s0 = ws_writing s \<Longrightarrow> one_write s (Finish code reason s0)"
  by (simp add: one_write_def Finish_def)

lemma one_write_DoWrite: "ws_writing s0 = ws_writing s \<Longrightarrow> one_write s (DoWrite s0)"
  by (auto simp: one_write_def DoWrite_def split: list.split)

lemma one_write_Queue: "one_write s (Queue data text s)"
  by (simp add: Queue_def one_write_none one_write_DoWrite)

lemma one_write_do: "one_write s (ws_do s op)"
  by (cases op) (simp_all add: Send_def one_write_Queue Close_def Let_def one_write_none one_write_Finish one_write_DoWrite)

lemma one_write_ops: "one_write s (run ws_do s ops)"
proof (induction ops arbitrary: s)
  case (Cons op ops)
  from one_write_do [of s op] Cons [of "fst (ws_do s op)"] show ?case by (simp add: one_write_def)
qed (simp add: one_write_def)

fun completes :: "ws_event \<Rightarrow> nat" where
  "completes (WsWritten _) = 1"
| "completes _ = 0"

lemma one_write_step:
  "genuine s e \<Longrightarrow> length (frames (snd (ws_step s e))) + of_bool (ws_writing s) = completes e + of_bool (ws_writing (fst (ws_step s e)))"
proof (cases "completes e = 0")
  case True
  have "one_write s (ws_step s e)"
  proof (cases e)
    case (WsHandshake ec ops)
    then show ?thesis
      by (auto simp: OnHandshake_def one_write_Finish intro!: one_write_andthen one_write_none one_write_DoWrite
          one_write_ops split: option.split)
  next
    case (WsRead res ops)
    then show ?thesis
      by (auto simp: OnRead_def one_write_Finish intro!: one_write_andthen one_write_none one_write_ops
          split: read_result.split)
  next
    case WsPing
    then show ?thesis
      by (auto simp: OnPing_def intro!: one_write_andthen one_write_none one_write_Queue)
  next
    case (WsWritten ec)
    with True show ?thesis by simp
  qed (auto simp: Open_def one_write_do OnResolve_def OnConnect_def Handshake_def OnTlsHandshake_def OnCloseSent_def
      OnSilence_def one_write_Finish intro!: one_write_none split: option.split)
  with True show ?thesis by (simp add: one_write_def)
next
  case False
  assume g: "genuine s e"
  from False obtain ec where e: "e = WsWritten ec" by (cases e) auto
  have "one_write (s\<lparr>ws_writing := False\<rparr>) (ws_step s e)"
    unfolding e by (auto simp: OnWritten_def Let_def intro!: one_write_none one_write_Finish one_write_DoWrite split: option.split)
  with g e show ?thesis by (simp add: one_write_def)
qed

text \<open>
  Writes never overlap: in every run, the frames handed to the stream outnumber the
  completed writes by at most one, namely the write in progress.
\<close>

theorem one_write_at_a_time:
  assumes "genuine_run (init_ws on_open on_message on_close) es"
  shows "length (frames (snd (run ws_step (init_ws on_open on_message on_close) es))) =
     sum_list (map completes es) + of_bool (ws_writing (fst (run ws_step (init_ws on_open on_message on_close) es)))"
proof -
  have "genuine_run s es \<Longrightarrow> length (frames (snd (run ws_step s es))) + of_bool (ws_writing s) =
     sum_list (map completes es) + of_bool (ws_writing (fst (run ws_step s es)))" for s
  proof (induction es arbitrary: s)
    case (Cons e es)
    then have g: "genuine s e" and gs: "genuine_run (fst (ws_step s e)) es" by simp_all
    from one_write_step [OF g] Cons.IH [OF gs] show ?case
      by (simp only: run_Cons frames_append length_append list.map sum_list.Cons)
  qed simp
  from this [OF assms] show ?thesis by (simp add: init_ws_def)
qed

theorem one_write_at_a_time_witness:
  "length (frames (snd (run ws_step (init_ws True True True)
       [WsOpen ''ws://h/'', WsHandshake None [OpSend ''a'', OpSend ''b''], WsWritten None]))) =
     sum_list (map completes [WsOpen ''ws://h/'', WsHandshake None [OpSend ''a'', OpSend ''b''], WsWritten None]) +
     of_bool (ws_writing (fst (run ws_step (init_ws True True True)
       [WsOpen ''ws://h/'', WsHandshake None [OpSend ''a'', OpSend ''b''], WsWritten None])))"
  by (rule one_write_at_a_time) code_simp

text \<open>
  A close frame must not be sent twice, yet closing an idle connection from inside
  \<open>on_open\<close> sends it twice: once by \<open>Close\<close>, and once more by the \<open>DoWrite\<close> that ends
  \<open>OnHandshake\<close>.
\<close>

theorem close_in_on_open_sends_close_twice:
  assumes "\<not> ws_finished s" "\<not> ws_closing s" "\<not> ws_writing s" "ws_queue s = []" "ws_on_open s"
  shows "count_out is_close_frame (snd (ws_step s (WsHandshake None [OpClose code reason]))) = 2"
  using assms by (simp add: OnHandshake_def Close_def DoWrite_def Let_def)

theorem close_in_on_open_sends_close_twice_witness:
  "count_out is_close_frame (snd (ws_step (fst (run ws_step (init_ws True True True) [WsOpen ''ws://h/'', WsResolved None]))
     (WsHandshake None [OpClose 1000 []]))) = 2"
  by (rule close_in_on_open_sends_close_twice) code_simp+

end
