(* ===== verification/Cloudflare.thy ===== *)
theory Cloudflare
  imports DataChannel
begin

text \<open>
  \<open>CloudflareService\<close> (src/src/signaling/cloudflare_service.cpp): publishing through a
  Cloudflare worker. Every handler runs on the io_context thread, so the service is a machine
  whose events are the HTTP response, the callbacks of the WebSocket, the posted callbacks of
  the peer, and the timers. A handler whose timer was cancelled may still have been queued, so
  timer events are possible in every state. Sockets are numbered by \<open>connection_\<close>, peers by
  \<open>publication_\<close>. The protobuf messages are given by their parsed content.
\<close>

section \<open>Configuration, messages and state\<close>

record cf_config =
  cfg_conductor :: bool            \<comment> \<open>\<open>conductor_\<close> is set\<close>
  cfg_enable_ipc :: bool
  cfg_no_audio :: bool
  cfg_code_replaced :: int         \<comment> \<open>\<open>CLOSE_CODE_REPLACED\<close>\<close>
  cfg_code_in_use :: int           \<comment> \<open>\<open>CLOSE_CODE_ID_IN_USE\<close>\<close>

datatype device_state = DeviceSleeping | DeviceOther

datatype signal_error = NoDataChannels | WakeStale | OtherError

record ice_server =
  is_urls :: "string list"
  is_username :: string
  is_password :: string

datatype device_response =
    Joined "ice_server list" device_state
  | Wake
  | Answer string "32 word"                      \<comment> \<open>sdp, generation\<close>
  | Sleep
  | SignalError string signal_error              \<comment> \<open>request, code\<close>
  | Channels "(string \<times> int) list"              \<comment> \<open>label, id\<close>
  | Control
  | VoicesOffer string
  | UnknownMessage

datatype device_request =
    RequestReady
  | RequestOffer string "(string \<times> string) list" bool bool   \<comment> \<open>sdp, tracks, data_channels, voices\<close>
  | RequestAnswer string

datatype cf_out =
    PostToken "32 word option"
  | OpenSock nat string
  | CloseSock int string
  | SendMsg device_request
  | ArmReconnect int                             \<comment> \<open>milliseconds\<close>
  | CancelReconnect
  | ArmHealth nat
  | ArmRetry int                                 \<comment> \<open>seconds\<close>
  | CancelTimers
  | CreatePeer nat "ice_server list"
  | AddServerEvents nat
  | PeerCreateOffer nat
  | PeerTerminate nat
  | PeerSetRemoteSdp nat string string
  | PeerCreateChannel nat channel_role int

record cf =
  cf_socket :: "nat option"
  cf_socket_open :: bool
  cf_peer :: "nat option"
  cf_ice_servers :: "ice_server list"
  cf_publishing :: bool
  cf_generation :: "32 word"
  cf_unanswered :: int
  cf_offer_sent :: bool
  cf_retry_count :: int
  cf_stopped :: bool
  cf_reconnect_pending :: bool
  cf_ready_sent :: bool
  cf_peer_was_connected :: bool
  cf_peer_down_since :: time         \<comment> \<open>0 is unset\<close>
  cf_connection :: nat
  cf_publication :: nat

definition init_cf :: cf where
  "init_cf = \<lparr>cf_socket = None, cf_socket_open = False, cf_peer = None, cf_ice_servers = [],
     cf_publishing = False, cf_generation = 0, cf_unanswered = 0, cf_offer_sent = False, cf_retry_count = 0,
     cf_stopped = False, cf_reconnect_pending = False, cf_ready_sent = False, cf_peer_was_connected = False,
     cf_peer_down_since = 0, cf_connection = 0, cf_publication = 0\<rparr>"

definition kMinReconnectDelaySec :: int where "kMinReconnectDelaySec = 1"
definition kMaxReconnectDelaySec :: int where "kMaxReconnectDelaySec = 30"
definition kCloseReconnecting :: int where "kCloseReconnecting = 3000"
definition kConnectTimeoutSec :: int where "kConnectTimeoutSec = 20"
definition kPeerDownGraceSec :: int where "kPeerDownGraceSec = 10"
definition kPublishRetrySec :: int where "kPublishRetrySec = 3"

section \<open>Publishing\<close>

definition StopPublishing :: "cf \<Rightarrow> cf \<times> cf_out list" where
  "StopPublishing s =
     (s\<lparr>cf_publication := cf_publication s + 1, cf_peer := None, cf_generation := 0, cf_offer_sent := False,
        cf_ready_sent := False, cf_peer_was_connected := False, cf_peer_down_since := 0\<rparr>,
      CancelTimers # (case cf_peer s of None \<Rightarrow> [] | Some p \<Rightarrow> [PeerTerminate p]))"

definition RetryPublishing :: "int \<Rightarrow> cf \<Rightarrow> cf \<times> cf_out list" where
  "RetryPublishing delay_sec s =
     (if \<not> cf_publishing s then (s, [])
      else andthen (StopPublishing s) (\<lambda>s1. (s1, [ArmRetry delay_sec])))"

text \<open>\<open>created\<close>: whether \<open>CreatePeerConnection\<close> returns a peer.\<close>

definition StartPublishing :: "cf_config \<Rightarrow> bool \<Rightarrow> cf \<Rightarrow> cf \<times> cf_out list" where
  "StartPublishing cfg created s =
     andthen (StopPublishing s) (\<lambda>s1.
       if \<not> cfg_conductor cfg then (s1, [])
       else andthen (s1, [CreatePeer (cf_publication s1) (cf_ice_servers s1)]) (\<lambda>s2.
         if \<not> created then RetryPublishing kPublishRetrySec s2
         else (s2\<lparr>cf_peer := Some (cf_publication s2)\<rparr>,
               (if cfg_enable_ipc cfg then [AddServerEvents (cf_publication s2)] else []) @
               [PeerCreateOffer (cf_publication s2), ArmHealth (cf_publication s2)])))"

section \<open>The connection to the worker\<close>

definition DropSocket :: "int \<Rightarrow> string \<Rightarrow> cf \<Rightarrow> cf \<times> cf_out list" where
  "DropSocket code reason s =
     (case cf_socket s of
        None \<Rightarrow> (s, [])
      | Some _ \<Rightarrow> (s\<lparr>cf_socket := None, cf_socket_open := False\<rparr>, [CloseSock code reason]))"

definition ReconnectDelay :: "int \<Rightarrow> int" where
  "ReconnectDelay retry_count =
     min (kMinReconnectDelaySec * 2 ^ nat (min retry_count 5)) kMaxReconnectDelaySec"

text \<open>\<open>rnd\<close> is what \<open>std::rand()\<close> returns.\<close>

definition ScheduleReconnect :: "nat \<Rightarrow> cf \<Rightarrow> cf \<times> cf_out list" where
  "ScheduleReconnect rnd s =
     (if cf_stopped s \<or> cf_reconnect_pending s then (s, [])
      else andthen (DropSocket kCloseReconnecting ''reconnecting''
             (s\<lparr>cf_reconnect_pending := True, cf_connection := cf_connection s + 1\<rparr>)) (\<lambda>s1.
        (s1\<lparr>cf_retry_count := cf_retry_count s1 + 1\<rparr>,
         [ArmReconnect (ReconnectDelay (cf_retry_count s1) * 1000 + int (rnd mod 500))])))"

definition RequestToken :: "cf \<Rightarrow> cf \<times> cf_out list" where
  "RequestToken s =
     (s, [PostToken (if cf_publishing s \<and> cf_generation s > 0 then Some (cf_generation s) else None)])"

definition StartConnection :: "cf \<Rightarrow> cf \<times> cf_out list" where
  "StartConnection s =
     (if cf_stopped s then (s, [])
      else RequestToken (s\<lparr>cf_reconnect_pending := False, cf_connection := cf_connection s + 1\<rparr>))"

text \<open>The token and url of a token response, when it has both.\<close>

definition OpenSocket :: "string \<Rightarrow> string \<Rightarrow> cf \<Rightarrow> cf \<times> cf_out list" where
  "OpenSocket url token s =
     (s\<lparr>cf_socket := Some (cf_connection s), cf_socket_open := False\<rparr>,
      [OpenSock (cf_connection s)
        (url @ (if CHR ''?'' \<in> set url then ''&'' else ''?'') @ ''access_token='' @ token)])"

definition OnTokenResponse :: "nat \<Rightarrow> (string \<times> string) option \<Rightarrow> nat \<Rightarrow> cf \<Rightarrow> cf \<times> cf_out list" where
  "OnTokenResponse connection token_url rnd s =
     (if cf_stopped s \<or> connection \<noteq> cf_connection s then (s, [])
      else (case token_url of
              None \<Rightarrow> ScheduleReconnect rnd s
            | Some (token, url) \<Rightarrow>
                (if token = [] \<or> url = [] then ScheduleReconnect rnd s else OpenSocket url token s)))"

definition OnSocketClosed :: "cf_config \<Rightarrow> int \<Rightarrow> nat \<Rightarrow> cf \<Rightarrow> cf \<times> cf_out list" where
  "OnSocketClosed cfg code rnd s =
     andthen (s\<lparr>cf_socket := None, cf_socket_open := False\<rparr>, []) (\<lambda>s1.
       andthen (if code = cfg_code_replaced cfg \<or> code = cfg_code_in_use cfg
                then andthen (StopPublishing s1) (\<lambda>s2.
                       (s2\<lparr>cf_publishing := False, cf_retry_count := max (cf_retry_count s2) 4\<rparr>, []))
                else (s1, []))
         (ScheduleReconnect rnd))"

definition SendRequest :: "device_request \<Rightarrow> cf \<Rightarrow> bool \<times> cf_out list" where
  "SendRequest req s =
     (if cf_socket s = None \<or> \<not> cf_socket_open s then (False, []) else (True, [SendMsg req]))"

definition SendReady :: "cf \<Rightarrow> cf \<times> cf_out list" where
  "SendReady s = (s\<lparr>cf_ready_sent := True\<rparr>, snd (SendRequest RequestReady s))"

definition Connect :: "cf \<Rightarrow> cf \<times> cf_out list" where
  "Connect s = StartConnection s"

definition Disconnect :: "cf \<Rightarrow> cf \<times> cf_out list" where
  "Disconnect s =
     andthen (andthen (s\<lparr>cf_stopped := True, cf_connection := cf_connection s + 1\<rparr>, [CancelReconnect]) StopPublishing)
       (\<lambda>s1. DropSocket 1000 ''device stopped'' (s1\<lparr>cf_publishing := False\<rparr>))"

section \<open>Worker messages\<close>

text \<open>\<open>connected\<close>: what \<open>peer_->is_connected()\<close> says.\<close>

definition OnJoined :: "bool \<Rightarrow> ice_server list \<Rightarrow> device_state \<Rightarrow> cf \<Rightarrow> cf \<times> cf_out list" where
  "OnJoined connected servers st s =
     (let s1 = s\<lparr>cf_retry_count := 0, cf_ice_servers := filter (\<lambda>i. is_urls i \<noteq> []) servers, cf_unanswered := 0\<rparr>
      in if \<not> cf_publishing s1 then (s1, [])
         else if st = DeviceSleeping
         then andthen (StopPublishing s1) (\<lambda>s2. (s2\<lparr>cf_publishing := False\<rparr>, []))
         else if cf_peer s1 \<noteq> None \<and> connected then SendReady s1 else (s1, []))"

definition OnWake :: "cf_config \<Rightarrow> bool \<Rightarrow> cf \<Rightarrow> cf \<times> cf_out list" where
  "OnWake cfg created s = StartPublishing cfg created (s\<lparr>cf_publishing := True\<rparr>)"

definition OnAnswer :: "string \<Rightarrow> 32 word \<Rightarrow> cf \<Rightarrow> cf \<times> cf_out list" where
  "OnAnswer sdp gen s =
     (let s1 = s\<lparr>cf_unanswered := max 0 (cf_unanswered s - 1)\<rparr>
      in (case cf_peer s1 of
            None \<Rightarrow> (s1, [])
          | Some p \<Rightarrow>
              (if \<not> cf_offer_sent s1 \<or> cf_unanswered s1 > 0 then (s1, [])
               else (s1\<lparr>cf_generation := gen\<rparr>, [PeerSetRemoteSdp p sdp ''answer'']))))"

definition OnSleep :: "cf \<Rightarrow> cf \<times> cf_out list" where
  "OnSleep s = andthen (StopPublishing s) (\<lambda>s1. (s1\<lparr>cf_publishing := False\<rparr>, []))"

definition OnError :: "string \<Rightarrow> signal_error \<Rightarrow> cf \<Rightarrow> cf \<times> cf_out list" where
  "OnError request code s =
     (if request \<noteq> ''offer'' \<or> code = NoDataChannels then (s, [])
      else let s1 = s\<lparr>cf_unanswered := max 0 (cf_unanswered s - 1)\<rparr>
        in if \<not> cf_offer_sent s1 \<or> cf_unanswered s1 > 0 then (s1, [])
           else if code = WakeStale then andthen (StopPublishing s1) (\<lambda>s2. (s2\<lparr>cf_publishing := False\<rparr>, []))
           else RetryPublishing kPublishRetrySec s1)"

text \<open>\<open>has\<close>: the roles for which the peer already has a channel.\<close>

fun open_channels :: "nat \<Rightarrow> channel_role set \<Rightarrow> (string \<times> int) list \<Rightarrow> cf_out list" where
  "open_channels p has [] = []"
| "open_channels p has ((label, i) # rest) =
     (case RoleFromLabel label of
        Some role \<Rightarrow>
          (if role \<in> {Lossy, Reliable} \<and> role \<notin> has
           then PeerCreateChannel p role i # open_channels p (insert role has) rest
           else open_channels p has rest)
      | None \<Rightarrow> open_channels p has rest)"

definition OnChannels :: "channel_role set \<Rightarrow> (string \<times> int) list \<Rightarrow> cf \<Rightarrow> cf \<times> cf_out list" where
  "OnChannels has channels s =
     (case cf_peer s of
        None \<Rightarrow> (s, [])
      | Some p \<Rightarrow> (s, if cf_generation s = 0 \<or> cf_unanswered s > 0 then [] else open_channels p has channels))"

definition OnVoicesOffer :: "string \<Rightarrow> cf \<Rightarrow> cf \<times> cf_out list" where
  "OnVoicesOffer sdp s =
     (case cf_peer s of
        None \<Rightarrow> (s, [])
      | Some p \<Rightarrow> (s, if cf_generation s = 0 \<or> cf_unanswered s > 0 then [] else [PeerSetRemoteSdp p sdp ''offer'']))"

text \<open>What the peer and the conductor answer while one message is handled.\<close>

record cf_env =
  ce_created :: bool
  ce_connected :: bool
  ce_has :: "channel_role set"

definition OnWorkerMessage :: "cf_config \<Rightarrow> cf_env \<Rightarrow> device_response option \<Rightarrow> cf \<Rightarrow> cf \<times> cf_out list" where
  "OnWorkerMessage cfg env msg s =
     (case msg of
        None \<Rightarrow> (s, [])
      | Some (Joined servers st) \<Rightarrow> OnJoined (ce_connected env) servers st s
      | Some Wake \<Rightarrow> OnWake cfg (ce_created env) s
      | Some (Answer sdp gen) \<Rightarrow> OnAnswer sdp gen s
      | Some Sleep \<Rightarrow> OnSleep s
      | Some (SignalError req code) \<Rightarrow> OnError req code s
      | Some (Channels cs) \<Rightarrow> OnChannels (ce_has env) cs s
      | Some (VoicesOffer sdp) \<Rightarrow> OnVoicesOffer sdp s
      | Some Control \<Rightarrow> (s, [])
      | Some UnknownMessage \<Rightarrow> (s, []))"

section \<open>What the peer posts to the io context\<close>

text \<open>
  The callbacks of the peer run on the signaling thread and post to the io context with the
  publication they belong to; the posted part drops what an older publication posted.
  \<open>tracks\<close> are the mids and names of the local tracks in the offer.
\<close>

definition OnLocalOffer ::
  "cf_config \<Rightarrow> nat \<Rightarrow> string \<Rightarrow> (string \<times> string) list \<Rightarrow> cf \<Rightarrow> cf \<times> cf_out list" where
  "OnLocalOffer cfg publication sdp tracks s =
     (if cf_stopped s \<or> publication \<noteq> cf_publication s then (s, [])
      else if tracks = [] then RetryPublishing kPublishRetrySec s
      else case SendRequest (RequestOffer sdp tracks (cfg_enable_ipc cfg) (\<not> cfg_no_audio cfg)) s of
             (True, os) \<Rightarrow> (s\<lparr>cf_unanswered := cf_unanswered s + 1, cf_offer_sent := True\<rparr>, os)
           | (False, os) \<Rightarrow> (s, os))"

definition OnLocalAnswer :: "nat \<Rightarrow> string \<Rightarrow> cf \<Rightarrow> cf \<times> cf_out list" where
  "OnLocalAnswer publication sdp s =
     (if cf_stopped s \<or> publication \<noteq> cf_publication s then (s, [])
      else (s, snd (SendRequest (RequestAnswer sdp) s)))"

datatype peer_state = PeerConnected | PeerFailed | PeerOther

definition OnPeerState :: "peer_state \<Rightarrow> cf \<Rightarrow> cf \<times> cf_out list" where
  "OnPeerState st s =
     (case st of
        PeerConnected \<Rightarrow>
          (let s1 = s\<lparr>cf_peer_was_connected := True, cf_peer_down_since := 0\<rparr>
           in if \<not> cf_ready_sent s1 then SendReady s1 else (s1, []))
      | PeerFailed \<Rightarrow> RetryPublishing 0 s
      | PeerOther \<Rightarrow> (s, []))"

definition OnConnectionState :: "nat \<Rightarrow> peer_state \<Rightarrow> cf \<Rightarrow> cf \<times> cf_out list" where
  "OnConnectionState publication st s =
     (if cf_stopped s \<or> publication \<noteq> cf_publication s then (s, []) else OnPeerState st s)"

text \<open>
  One run of the health timer's handler. \<open>expired\<close> and \<open>connected\<close> are what the peer says,
  \<open>now\<close> is the steady clock in milliseconds.
\<close>

definition HealthFires :: "nat \<Rightarrow> bool \<Rightarrow> bool \<Rightarrow> time \<Rightarrow> cf \<Rightarrow> cf \<times> cf_out list" where
  "HealthFires publication expired connected now s =
     (if cf_stopped s \<or> publication \<noteq> cf_publication s then (s, [])
      else if cf_peer s = None \<or> expired then RetryPublishing kPublishRetrySec s
      else if connected
      then (s\<lparr>cf_peer_was_connected := True, cf_peer_down_since := 0\<rparr>, [ArmHealth publication])
      else let s1 = (if cf_peer_down_since s = 0 then s\<lparr>cf_peer_down_since := now\<rparr> else s);
               limit = (if cf_peer_was_connected s1 then kPeerDownGraceSec else kConnectTimeoutSec)
           in if (now - cf_peer_down_since s1) div 1000 \<ge> limit then RetryPublishing 0 s1
              else (s1, [ArmHealth publication]))"

definition RetryFires :: "cf_config \<Rightarrow> bool \<Rightarrow> cf \<Rightarrow> cf \<times> cf_out list" where
  "RetryFires cfg created s =
     (if cf_stopped s \<or> \<not> cf_publishing s then (s, []) else StartPublishing cfg created s)"

section \<open>The whole service\<close>

text \<open>
  The callbacks of a socket carry the connection they were registered for. \<open>SocketOpened\<close> is
  the moment \<open>is_open()\<close> of the current socket becomes true.
\<close>

datatype cf_event =
    CallConnect
  | CallDisconnect
  | TokenResponse nat "(string \<times> string) option" nat
  | SocketOpened nat
  | SocketMessage nat cf_env "device_response option"
  | SocketClosed nat int nat
  | LocalOffer nat string "(string \<times> string) list"
  | LocalAnswer nat string
  | ConnectionState nat peer_state
  | HealthTimer nat bool bool time
  | RetryTimer bool
  | ReconnectTimer

fun cf_step :: "cf_config \<Rightarrow> cf \<Rightarrow> cf_event \<Rightarrow> cf \<times> cf_out list" where
  "cf_step cfg s CallConnect = Connect s"
| "cf_step cfg s CallDisconnect = Disconnect s"
| "cf_step cfg s (TokenResponse c tu rnd) = OnTokenResponse c tu rnd s"
| "cf_step cfg s (SocketOpened c) = (if cf_socket s = Some c then s\<lparr>cf_socket_open := True\<rparr> else s, [])"
| "cf_step cfg s (SocketMessage c env msg) =
     (if cf_stopped s \<or> c \<noteq> cf_connection s then (s, []) else OnWorkerMessage cfg env msg s)"
| "cf_step cfg s (SocketClosed c code rnd) =
     (if cf_stopped s \<or> c \<noteq> cf_connection s then (s, []) else OnSocketClosed cfg code rnd s)"
| "cf_step cfg s (LocalOffer p sdp tracks) = OnLocalOffer cfg p sdp tracks s"
| "cf_step cfg s (LocalAnswer p sdp) = OnLocalAnswer p sdp s"
| "cf_step cfg s (ConnectionState p st) = OnConnectionState p st s"
| "cf_step cfg s (HealthTimer p expired connected now) = HealthFires p expired connected now s"
| "cf_step cfg s (RetryTimer created) = RetryFires cfg created s"
| "cf_step cfg s ReconnectTimer = StartConnection s"

section \<open>Invariant\<close>

text \<open>
  A stopped service has no peer and no socket; a peer exists only while publishing; an answer
  was applied only for an offer of the peer that exists now.
\<close>

definition cf_inv :: "cf \<Rightarrow> bool" where
  "cf_inv s \<longleftrightarrow>
     (cf_peer s \<noteq> None \<longrightarrow> cf_publishing s \<and> cf_peer s = Some (cf_publication s)) \<and>
     (cf_generation s \<noteq> 0 \<longrightarrow> cf_peer s \<noteq> None \<and> cf_offer_sent s) \<and>
     (cf_stopped s \<longrightarrow> cf_peer s = None \<and> cf_socket s = None \<and> \<not> cf_publishing s) \<and>
     (cf_socket_open s \<longrightarrow> cf_socket s \<noteq> None) \<and>
     cf_retry_count s \<ge> 0 \<and> cf_unanswered s \<ge> 0"

lemmas cf_defs = StopPublishing_def RetryPublishing_def StartPublishing_def DropSocket_def
  ScheduleReconnect_def RequestToken_def StartConnection_def OpenSocket_def SendRequest_def
  SendReady_def

lemma StopPublishing_simps [simp]:
  "fst (StopPublishing s) =
     s\<lparr>cf_publication := cf_publication s + 1, cf_peer := None, cf_generation := 0, cf_offer_sent := False,
       cf_ready_sent := False, cf_peer_was_connected := False, cf_peer_down_since := 0\<rparr>"
  "snd (StopPublishing s) = CancelTimers # (case cf_peer s of None \<Rightarrow> [] | Some p \<Rightarrow> [PeerTerminate p])"
  by (simp_all add: StopPublishing_def)

lemma RetryPublishing_inv: "cf_inv s \<Longrightarrow> cf_inv (fst (RetryPublishing d s))"
  by (auto simp: RetryPublishing_def cf_inv_def)

lemma StartPublishing_inv: "cf_inv s \<Longrightarrow> cf_publishing s \<Longrightarrow> cf_inv (fst (StartPublishing cfg created s))"
  by (auto simp: StartPublishing_def RetryPublishing_def cf_inv_def)

lemma ScheduleReconnect_inv: "cf_inv s \<Longrightarrow> cf_inv (fst (ScheduleReconnect rnd s))"
  by (auto simp: ScheduleReconnect_def DropSocket_def cf_inv_def split: option.splits)

lemma StartConnection_inv: "cf_inv s \<Longrightarrow> cf_inv (fst (StartConnection s))"
  by (auto simp: StartConnection_def RequestToken_def cf_inv_def)

lemma OnTokenResponse_inv: "cf_inv s \<Longrightarrow> cf_inv (fst (OnTokenResponse c tu rnd s))"
  by (auto simp: OnTokenResponse_def ScheduleReconnect_inv split: option.splits)
     (auto simp: OpenSocket_def cf_inv_def)

lemma OnSocketClosed_inv: "cf_inv s \<Longrightarrow> cf_inv (fst (OnSocketClosed cfg code rnd s))"
  unfolding OnSocketClosed_def andthen_simps
  by (rule ScheduleReconnect_inv) (auto simp: cf_inv_def)

lemma Disconnect_inv: "cf_inv s \<Longrightarrow> cf_inv (fst (Disconnect s))"
  by (auto simp: Disconnect_def DropSocket_def cf_inv_def split: option.splits)

lemma OnSleep_inv: "cf_inv s \<Longrightarrow> cf_inv (fst (OnSleep s))"
  by (auto simp: OnSleep_def cf_inv_def)

lemma OnJoined_inv: "cf_inv s \<Longrightarrow> cf_inv (fst (OnJoined con srv st s))"
  by (auto simp: OnJoined_def SendReady_def Let_def cf_inv_def)

lemma OnWake_inv: "cf_inv s \<Longrightarrow> \<not> cf_stopped s \<Longrightarrow> cf_inv (fst (OnWake cfg created s))"
  unfolding OnWake_def by (rule StartPublishing_inv) (auto simp: cf_inv_def)

lemma OnAnswer_inv: "cf_inv s \<Longrightarrow> cf_inv (fst (OnAnswer sdp gen s))"
  by (auto simp: OnAnswer_def Let_def cf_inv_def split: option.splits)

lemma OnError_inv:
  assumes "cf_inv s"
  shows "cf_inv (fst (OnError req code s))"
proof -
  have "cf_inv (s\<lparr>cf_unanswered := max 0 (cf_unanswered s - 1)\<rparr>)"
    using assms by (simp add: cf_inv_def)
  from RetryPublishing_inv [OF this, of kPublishRetrySec] this assms show ?thesis
    by (simp add: OnError_def Let_def) (simp add: cf_inv_def)
qed

lemma OnChannels_state [simp]: "fst (OnChannels has cs s) = s"
  by (simp add: OnChannels_def split: option.splits)

lemma OnVoicesOffer_state [simp]: "fst (OnVoicesOffer sdp s) = s"
  by (simp add: OnVoicesOffer_def split: option.splits)

lemma OnWorkerMessage_inv: "cf_inv s \<Longrightarrow> \<not> cf_stopped s \<Longrightarrow> cf_inv (fst (OnWorkerMessage cfg env msg s))"
  by (simp add: OnWorkerMessage_def OnJoined_inv OnWake_inv OnAnswer_inv OnSleep_inv OnError_inv
      split: option.splits device_response.splits)

lemma OnLocalOffer_inv: "cf_inv s \<Longrightarrow> cf_inv (fst (OnLocalOffer cfg p sdp tracks s))"
  by (simp add: OnLocalOffer_def RetryPublishing_inv SendRequest_def) (simp add: cf_inv_def)

lemma OnConnectionState_inv: "cf_inv s \<Longrightarrow> cf_inv (fst (OnConnectionState p st s))"
  by (simp add: OnConnectionState_def OnPeerState_def RetryPublishing_inv SendReady_def Let_def
      split: peer_state.splits) (simp add: cf_inv_def)

lemma HealthFires_inv:
  assumes "cf_inv s"
  shows "cf_inv (fst (HealthFires p expired connected now s))"
proof -
  have "cf_inv (s\<lparr>cf_peer_down_since := now\<rparr>)" "cf_inv (s\<lparr>cf_peer_was_connected := True, cf_peer_down_since := 0\<rparr>)"
    using assms by (simp_all add: cf_inv_def)
  then show ?thesis using assms by (simp add: HealthFires_def RetryPublishing_inv Let_def)
qed

lemma cf_step_inv: "cf_inv s \<Longrightarrow> cf_inv (fst (cf_step cfg s e))"
proof (cases e)
  case (SocketOpened c)
  moreover assume "cf_inv s"
  ultimately show ?thesis by (auto simp: cf_inv_def)
next
  case (RetryTimer created)
  moreover assume "cf_inv s"
  ultimately show ?thesis by (simp add: RetryFires_def StartPublishing_inv)
qed (auto simp: Connect_def StartConnection_inv Disconnect_inv OnTokenResponse_inv OnWorkerMessage_inv
      OnSocketClosed_inv OnLocalOffer_inv OnLocalAnswer_def OnConnectionState_inv HealthFires_inv)

lemma init_cf_inv: "cf_inv init_cf"
  by (simp add: cf_inv_def init_cf_def)

section \<open>Silence after Disconnect\<close>

fun cf_loud :: "cf_out \<Rightarrow> bool" where
  "cf_loud CancelTimers = False"
| "cf_loud CancelReconnect = False"
| "cf_loud _ = True"

lemma stopped_stays:
  "cf_inv s \<Longrightarrow> cf_stopped s \<Longrightarrow>
   cf_stopped (fst (cf_step cfg s e)) \<and> list_all (\<lambda>x. \<not> cf_loud x) (snd (cf_step cfg s e))"
  by (cases e)
     (simp_all add: Connect_def StartConnection_def Disconnect_def DropSocket_def OnTokenResponse_def
       OnLocalOffer_def OnLocalAnswer_def OnConnectionState_def HealthFires_def RetryFires_def cf_inv_def)

interpretation stopped: quiet_machine "cf_step cfg" cf_inv cf_stopped cf_loud
  by unfold_locales (simp_all add: cf_step_inv stopped_stays)

section \<open>Delays\<close>

fun cf_delay_ok :: "cf_out \<Rightarrow> bool" where
  "cf_delay_ok (ArmReconnect ms) = (1000 \<le> ms \<and> ms < 30500)"
| "cf_delay_ok (ArmRetry sec) = (sec = 0 \<or> sec = 3)"
| "cf_delay_ok (CloseSock code reason) = (code = 1000 \<or> code = 3000)"
| "cf_delay_ok _ = True"

lemma ReconnectDelay_bounds: "1 \<le> ReconnectDelay n" "ReconnectDelay n \<le> 30"
  by (simp_all add: ReconnectDelay_def kMinReconnectDelaySec_def kMaxReconnectDelaySec_def)

lemma StopPublishing_delays: "list_all cf_delay_ok (snd (StopPublishing s))"
  by (simp split: option.splits)

lemma RetryPublishing_delays: "d = 0 \<or> d = kPublishRetrySec \<Longrightarrow> list_all cf_delay_ok (snd (RetryPublishing d s))"
  using StopPublishing_delays [of s] by (auto simp: RetryPublishing_def kPublishRetrySec_def)

lemma StartPublishing_delays: "list_all cf_delay_ok (snd (StartPublishing cfg created s))"
  using StopPublishing_delays [of s] by (auto simp: StartPublishing_def RetryPublishing_delays)

lemma DropSocket_delays: "code = 1000 \<or> code = 3000 \<Longrightarrow> list_all cf_delay_ok (snd (DropSocket code r s))"
  by (auto simp: DropSocket_def split: option.splits)

lemma jitter_bounds: "0 \<le> int (rnd mod 500)" "int (rnd mod 500) < 500"
  by simp_all

lemma ReconnectDelay_ms:
  "1000 \<le> ReconnectDelay n * 1000 + int (rnd mod 500) \<and> ReconnectDelay n * 1000 + int (rnd mod 500) < 30500"
  using jitter_bounds [of rnd] ReconnectDelay_bounds [of n] by linarith

lemma ScheduleReconnect_delays: "list_all cf_delay_ok (snd (ScheduleReconnect rnd s))"
  using ReconnectDelay_ms [of _ rnd]
  by (simp add: ScheduleReconnect_def kCloseReconnecting_def DropSocket_delays)

lemma OnSocketClosed_delays: "list_all cf_delay_ok (snd (OnSocketClosed cfg code rnd s))"
  using StopPublishing_delays by (simp add: OnSocketClosed_def ScheduleReconnect_delays)

lemma Disconnect_delays: "list_all cf_delay_ok (snd (Disconnect s))"
  using StopPublishing_delays by (simp add: Disconnect_def DropSocket_delays)

lemma open_channels_delays: "list_all cf_delay_ok (open_channels p has cs)"
  by (induction p has cs rule: open_channels.induct) (auto split: option.splits)

lemma OnError_delays: "list_all cf_delay_ok (snd (OnError req code s))"
  using StopPublishing_delays [of "s\<lparr>cf_unanswered := max 0 (cf_unanswered s - 1)\<rparr>"]
  by (simp add: OnError_def Let_def RetryPublishing_delays)

lemma OnJoined_delays: "list_all cf_delay_ok (snd (OnJoined con srv st s))"
  by (simp add: OnJoined_def Let_def SendReady_def SendRequest_def split: option.splits)

lemma OnWorkerMessage_delays: "list_all cf_delay_ok (snd (OnWorkerMessage cfg env msg s))"
  using StopPublishing_delays [of s]
  by (simp add: OnWorkerMessage_def OnJoined_delays OnWake_def StartPublishing_delays OnAnswer_def Let_def
      OnSleep_def OnError_delays OnChannels_def open_channels_delays OnVoicesOffer_def
      split: option.splits device_response.splits)

lemma posted_delays:
  "list_all cf_delay_ok (snd (OnLocalOffer cfg p sdp tracks s))"
  "list_all cf_delay_ok (snd (OnLocalAnswer p sdp s))"
  "list_all cf_delay_ok (snd (OnConnectionState p st s))"
  by (simp_all add: OnLocalOffer_def OnLocalAnswer_def OnConnectionState_def OnPeerState_def SendReady_def
      SendRequest_def RetryPublishing_delays Let_def split: peer_state.splits)

lemma timer_delays:
  "list_all cf_delay_ok (snd (HealthFires p expired connected now s))"
  "list_all cf_delay_ok (snd (RetryFires cfg created s))"
  "list_all cf_delay_ok (snd (StartConnection s))"
  "list_all cf_delay_ok (snd (OnTokenResponse c tu rnd s))"
  by (simp_all add: HealthFires_def RetryFires_def StartConnection_def RequestToken_def OnTokenResponse_def
      OpenSocket_def Let_def RetryPublishing_delays StartPublishing_delays ScheduleReconnect_delays
      split: option.splits)

lemma cf_step_delays: "list_all cf_delay_ok (snd (cf_step cfg s e))"
  by (cases e) (simp_all add: Connect_def Disconnect_delays OnSocketClosed_delays OnWorkerMessage_delays
      posted_delays timer_delays)

interpretation delays: guarded_machine "cf_step cfg" cf_inv cf_delay_ok
  by unfold_locales (simp_all add: cf_step_inv cf_step_delays)

section \<open>Properties\<close>

text \<open>
  C14: once \<open>Disconnect\<close> has run, whatever happened before and whatever still arrives (queued
  timer handlers, token responses, frames, callbacks of the peer), the service has no peer and no
  socket, is not publishing, and emits nothing but the cancelling of its timers.
\<close>

theorem disconnected_service_is_silent:
  "let s = fst (run (cf_step cfg) init_cf (es @ [CallDisconnect])); r = run (cf_step cfg) s later
   in cf_peer (fst r) = None \<and> cf_socket (fst r) = None \<and> \<not> cf_publishing (fst r) \<and>
      list_all (\<lambda>x. \<not> cf_loud x) (snd r)"
proof -
  define s where "s = fst (run (cf_step cfg) init_cf (es @ [CallDisconnect]))"
  have inv: "cf_inv s" unfolding s_def by (rule stopped.inv_run) (rule init_cf_inv)
  have "cf_stopped s"
    by (simp add: s_def fst_run_append Disconnect_def DropSocket_def split: option.splits)
  from stopped.quiet_run [OF inv this] stopped.silent_run [OF inv this] stopped.inv_run [OF inv]
  show ?thesis by (simp add: s_def [symmetric] Let_def cf_inv_def)
qed

text \<open>One failed attempt: the reconnect timer fires and the token request of it fails.\<close>

definition failed_attempt :: "nat \<Rightarrow> nat \<Rightarrow> cf_event list" where
  "failed_attempt rnd connection = [ReconnectTimer, TokenResponse connection None rnd]"

fun failed_attempts :: "nat list \<Rightarrow> nat \<Rightarrow> cf_event list" where
  "failed_attempts [] c = []"
| "failed_attempts (rnd # rnds) c = failed_attempt rnd (c + 1) @ failed_attempts rnds (c + 2)"

fun reconnect_delays :: "cf_out list \<Rightarrow> int list" where
  "reconnect_delays [] = []"
| "reconnect_delays (ArmReconnect ms # os) = ms # reconnect_delays os"
| "reconnect_delays (_ # os) = reconnect_delays os"

lemma reconnect_delays_append [simp]:
  "reconnect_delays (xs @ ys) = reconnect_delays xs @ reconnect_delays ys"
  by (induction xs rule: reconnect_delays.induct) auto

definition jittered :: "int \<Rightarrow> nat \<Rightarrow> int" where
  "jittered sec rnd = sec * 1000 + int (rnd mod 500)"

lemma failed_attempt_run:
  assumes "\<not> cf_stopped s" "cf_socket s = None"
  shows "fst (run (cf_step cfg) s (failed_attempt rnd (cf_connection s + 1))) =
           s\<lparr>cf_reconnect_pending := True, cf_connection := cf_connection s + 2, cf_retry_count := cf_retry_count s + 1\<rparr>"
    and "reconnect_delays (snd (run (cf_step cfg) s (failed_attempt rnd (cf_connection s + 1)))) =
           [jittered (ReconnectDelay (cf_retry_count s)) rnd]"
  using assms
  by (simp_all add: failed_attempt_def StartConnection_def RequestToken_def OnTokenResponse_def
      ScheduleReconnect_def DropSocket_def jittered_def)

lemma failed_attempts_delays:
  "\<not> cf_stopped s \<Longrightarrow> cf_socket s = None \<Longrightarrow>
   reconnect_delays (snd (run (cf_step cfg) s (failed_attempts rnds (cf_connection s)))) =
     map (\<lambda>i. jittered (ReconnectDelay (cf_retry_count s + int i)) (rnds ! i)) [0..<length rnds]"
proof (induction rnds arbitrary: s)
  case (Cons rnd rnds)
  let ?s = "s\<lparr>cf_reconnect_pending := True, cf_connection := cf_connection s + 2, cf_retry_count := cf_retry_count s + 1\<rparr>"
  have "reconnect_delays (snd (run (cf_step cfg) ?s (failed_attempts rnds (cf_connection ?s)))) =
     map (\<lambda>i. jittered (ReconnectDelay (cf_retry_count ?s + int i)) (rnds ! i)) [0..<length rnds]"
    using Cons.prems by (intro Cons.IH) simp_all
  with failed_attempt_run [OF Cons.prems, of cfg rnd] Cons.prems show ?case
    by (simp add: snd_run_append upt_conv_Cons map_Suc_upt [symmetric] add.assoc del: upt_Suc run_Cons)
qed simp

text \<open>
  the n-th failed attempt in a row waits \<open>2\<^sup>n\<close> seconds, at most 30, plus less than half a
  second of jitter, counted from the last \<open>joined\<close>; and in every run of the service every delay
  it ever arms lies in the range from 1 s to 30.5 s.
\<close>

theorem reconnects_back_off:
  assumes "\<not> cf_stopped s" "cf_socket s = None" "cf_retry_count s = 0"
  shows "reconnect_delays (snd (run (cf_step cfg) s (failed_attempts rnds (cf_connection s)))) =
           map (\<lambda>i. min (2 ^ i) 30 * 1000 + int (rnds ! i mod 500)) [0..<length rnds]
         \<and> list_all cf_delay_ok (snd (run (cf_step cfg) init_cf es))"
proof -
  have "ReconnectDelay (int i) = min (2 ^ i) 30" for i
  proof (cases "i \<le> 5")
    case False
    then have "(2::int) ^ 5 \<le> 2 ^ i" by (intro power_increasing) auto
    with False show ?thesis
      by (simp add: ReconnectDelay_def kMinReconnectDelaySec_def kMaxReconnectDelaySec_def)
  qed (simp add: ReconnectDelay_def kMinReconnectDelaySec_def kMaxReconnectDelaySec_def min_def)
  with failed_attempts_delays [OF assms(1,2), of cfg rnds] delays.good_run [OF init_cf_inv, of cfg es] assms(3)
  show ?thesis by (simp add: jittered_def)
qed

definition demo_cfg :: cf_config where
  "demo_cfg = \<lparr>cfg_conductor = True, cfg_enable_ipc = True, cfg_no_audio = False, cfg_code_replaced = 4001,
     cfg_code_in_use = 4002\<rparr>"

lemma reconnects_back_off_witness:
  "reconnect_delays (snd (run (cf_step demo_cfg) init_cf (failed_attempts [7, 0, 0, 0, 0, 0, 501] 0))) =
     [1007, 2000, 4000, 8000, 16000, 30000, 30001]"
proof -
  have *: "\<not> cf_stopped init_cf" "cf_socket init_cf = None" "cf_retry_count init_cf = 0" "cf_connection init_cf = 0"
    by (simp_all add: init_cf_def)
  have "[0..<length [7, 0, 0, 0, 0, 0, 501 :: nat]] = [0, 1, 2, 3, 4, 5, 6]" by (simp add: upt_rec)
  with reconnects_back_off [OF *(1-3), of demo_cfg "[7, 0, 0, 0, 0, 0, 501]" "[]"] *(4) show ?thesis
    by simp
qed

text \<open>
  C15: when the token request of the current connection fails, or its socket closes for any
  reason but a duplicate id, the publication goes on untouched (same peer, same generation, same
  offer state), the socket is gone, exactly one reconnect is armed, and the token request of that
  reconnect carries the generation of the answer, which keeps the stream at the worker.
\<close>

theorem stream_survives_reconnect:
  assumes "\<not> cf_stopped s" "\<not> cf_reconnect_pending s"
    and "e = TokenResponse (cf_connection s) None rnd \<or>
         (e = SocketClosed (cf_connection s) code rnd \<and>
          code \<noteq> cfg_code_replaced cfg \<and> code \<noteq> cfg_code_in_use cfg)"
  shows "let s1 = fst (cf_step cfg s e)
         in cf_peer s1 = cf_peer s \<and> cf_publication s1 = cf_publication s \<and> cf_publishing s1 = cf_publishing s \<and>
            cf_generation s1 = cf_generation s \<and> cf_offer_sent s1 = cf_offer_sent s \<and>
            cf_socket s1 = None \<and> cf_reconnect_pending s1 \<and>
            length (reconnect_delays (snd (cf_step cfg s e))) = 1 \<and>
            snd (cf_step cfg s1 ReconnectTimer) =
              [PostToken (if cf_publishing s \<and> cf_generation s > 0 then Some (cf_generation s) else None)]"
  using assms
  by (auto simp: OnTokenResponse_def OnSocketClosed_def ScheduleReconnect_def DropSocket_def StartConnection_def
      RequestToken_def Let_def split: option.splits)

definition live_cf :: cf where
  "live_cf = init_cf\<lparr>cf_socket := Some 1, cf_socket_open := True, cf_connection := 1, cf_publishing := True,
     cf_publication := 2, cf_peer := Some 2, cf_offer_sent := True, cf_generation := 7\<rparr>"

lemma stream_survives_reconnect_witness:
  "cf_peer (fst (cf_step demo_cfg live_cf (SocketClosed 1 1006 0))) = Some 2 \<and>
   snd (cf_step demo_cfg (fst (cf_step demo_cfg live_cf (SocketClosed 1 1006 0))) ReconnectTimer) =
     [PostToken (Some 7)]"
  using stream_survives_reconnect [of live_cf "SocketClosed 1 1006 0" 0 1006 demo_cfg]
  by (simp add: live_cf_def init_cf_def demo_cfg_def Let_def)

section \<open>Offers and their replies\<close>

text \<open>
  The worker replies to every offer of a connection, with an answer or an error. A reply is
  counted when the service handles it; \<open>joined\<close> starts a new connection.
\<close>

fun replies :: "cf \<Rightarrow> cf_event \<Rightarrow> bool" where
  "replies s (SocketMessage c env (Some (Answer sdp gen))) = (\<not> cf_stopped s \<and> c = cf_connection s)"
| "replies s (SocketMessage c env (Some (SignalError req code))) =
     (\<not> cf_stopped s \<and> c = cf_connection s \<and> req = ''offer'' \<and> code \<noteq> NoDataChannels)"
| "replies s _ = False"

fun is_joined :: "cf_event \<Rightarrow> bool" where
  "is_joined (SocketMessage c env (Some (Joined servers st))) = True"
| "is_joined _ = False"

fun is_offer :: "cf_out \<Rightarrow> bool" where
  "is_offer (SendMsg (RequestOffer sdp tracks dc voices)) = True"
| "is_offer _ = False"

fun reply_count :: "cf_config \<Rightarrow> cf \<Rightarrow> cf_event list \<Rightarrow> nat" where
  "reply_count cfg s [] = 0"
| "reply_count cfg s (e # es) = of_bool (replies s e) + reply_count cfg (fst (cf_step cfg s e)) es"

definition offer_count :: "cf_config \<Rightarrow> cf \<Rightarrow> cf_event list \<Rightarrow> nat" where
  "offer_count cfg s es = count_out is_offer (snd (run (cf_step cfg) s es))"

text \<open>No reply without an offer it replies to, and no \<open>joined\<close>.\<close>

definition one_connection :: "cf_config \<Rightarrow> cf \<Rightarrow> cf_event list \<Rightarrow> bool" where
  "one_connection cfg s es \<longleftrightarrow>
     list_all (\<lambda>e. \<not> is_joined e) es \<and>
     list_all (\<lambda>n. reply_count cfg s (take n es) \<le> offer_count cfg s (take n es)) [0..<length es + 1]"

lemma StopPublishing_no_offer [simp]: "count_out is_offer (snd (StopPublishing s)) = 0"
  by (simp split: option.splits)

lemma RetryPublishing_no_offer [simp]:
  "count_out is_offer (snd (RetryPublishing d s)) = 0"
  "cf_unanswered (fst (RetryPublishing d s)) = cf_unanswered s"
  by (auto simp: RetryPublishing_def split: option.splits)

lemma StartPublishing_no_offer [simp]:
  "count_out is_offer (snd (StartPublishing cfg created s)) = 0"
  "cf_unanswered (fst (StartPublishing cfg created s)) = cf_unanswered s"
  using StopPublishing_no_offer [of s] by (simp_all add: StartPublishing_def del: StopPublishing_simps(2))

lemma DropSocket_no_offer [simp]:
  "count_out is_offer (snd (DropSocket code r s)) = 0"
  "cf_unanswered (fst (DropSocket code r s)) = cf_unanswered s"
  by (simp_all add: DropSocket_def split: option.splits)

lemma ScheduleReconnect_no_offer [simp]:
  "count_out is_offer (snd (ScheduleReconnect rnd s)) = 0"
  "cf_unanswered (fst (ScheduleReconnect rnd s)) = cf_unanswered s"
  by (simp_all add: ScheduleReconnect_def)

lemma open_channels_no_offer [simp]: "count_out is_offer (open_channels p has cs) = 0"
  by (induction p has cs rule: open_channels.induct) (auto split: option.splits)

lemmas no_offer_defs = Connect_def StartConnection_def RequestToken_def Disconnect_def OnTokenResponse_def
  OpenSocket_def OnSocketClosed_def OnLocalAnswer_def OnConnectionState_def OnPeerState_def SendReady_def
  SendRequest_def HealthFires_def RetryFires_def OnWake_def OnSleep_def OnChannels_def OnVoicesOffer_def

lemma OnWorkerMessage_unanswered:
  assumes "cf_inv s" "\<not> (\<exists>servers st. msg = Some (Joined servers st))"
  shows "count_out is_offer (snd (OnWorkerMessage cfg env msg s)) = 0"
    "cf_unanswered (fst (OnWorkerMessage cfg env msg s)) =
       max 0 (cf_unanswered s - of_bool ((\<exists>sdp gen. msg = Some (Answer sdp gen)) \<or>
         (\<exists>code. msg = Some (SignalError ''offer'' code) \<and> code \<noteq> NoDataChannels)))"
proof -
  have "cf_unanswered s \<ge> 0" using assms(1) by (simp add: cf_inv_def)
  with assms(2) show
    "count_out is_offer (snd (OnWorkerMessage cfg env msg s)) = 0"
    "cf_unanswered (fst (OnWorkerMessage cfg env msg s)) =
       max 0 (cf_unanswered s - of_bool ((\<exists>sdp gen. msg = Some (Answer sdp gen)) \<or>
         (\<exists>code. msg = Some (SignalError ''offer'' code) \<and> code \<noteq> NoDataChannels)))"
    by (simp_all add: OnWorkerMessage_def no_offer_defs OnAnswer_def OnError_def Let_def
        split: option.splits device_response.splits)
qed

lemma cf_step_unanswered:
  assumes "cf_inv s" "\<not> is_joined e" "replies s e \<Longrightarrow> cf_unanswered s > 0"
  shows "cf_unanswered (fst (cf_step cfg s e)) =
           cf_unanswered s + int (count_out is_offer (snd (cf_step cfg s e))) - of_bool (replies s e)"
proof (cases e)
  case (SocketMessage c env msg)
  have "\<not> (\<exists>servers st. msg = Some (Joined servers st))" using assms(2) SocketMessage by auto
  note * = OnWorkerMessage_unanswered [OF assms(1) this]
  have "replies s e \<longleftrightarrow> \<not> cf_stopped s \<and> c = cf_connection s \<and> ((\<exists>sdp gen. msg = Some (Answer sdp gen)) \<or>
         (\<exists>code. msg = Some (SignalError ''offer'' code) \<and> code \<noteq> NoDataChannels))"
    using SocketMessage by (cases "(s, e)" rule: replies.cases) auto
  moreover have "cf_unanswered s \<ge> 0" using assms(1) by (simp add: cf_inv_def)
  ultimately show ?thesis using SocketMessage * assms(3) by (auto simp: of_bool_def max_def)
next
  case (LocalOffer p sdp tracks)
  then show ?thesis by (simp add: OnLocalOffer_def SendRequest_def)
qed (simp_all add: no_offer_defs Let_def split: option.splits peer_state.splits)

lemma reply_count_append:
  "reply_count cfg s (xs @ ys) = reply_count cfg s xs + reply_count cfg (fst (run (cf_step cfg) s xs)) ys"
  by (induction xs arbitrary: s) (auto simp: of_bool_def)

lemma offer_count_snoc:
  "offer_count cfg s (es @ [e]) =
     offer_count cfg s es + count_out is_offer (snd (cf_step cfg (fst (run (cf_step cfg) s es)) e))"
  by (simp add: offer_count_def snd_run_append)

lemma one_connection_snoc:
  "one_connection cfg s (es @ [e]) \<longleftrightarrow>
     one_connection cfg s es \<and> \<not> is_joined e \<and> reply_count cfg s (es @ [e]) \<le> offer_count cfg s (es @ [e])"
  by (auto simp: one_connection_def list_all_iff less_Suc_eq le_Suc_eq)

lemma reply_sends_no_offer:
  assumes "cf_inv s" "replies s e"
  shows "count_out is_offer (snd (cf_step cfg s e)) = 0"
proof (cases e)
  case (SocketMessage c env msg)
  with assms(2) have "\<not> (\<exists>servers st. msg = Some (Joined servers st))"
    by (cases "(s, e)" rule: replies.cases) auto
  from OnWorkerMessage_unanswered(1) [OF assms(1) this] SocketMessage show ?thesis by simp
qed (use assms(2) in simp_all)

lemma unanswered_counts:
  assumes "cf_inv s" "cf_unanswered s = 0" "one_connection cfg s es"
  shows "cf_unanswered (fst (run (cf_step cfg) s es)) = int (offer_count cfg s es) - int (reply_count cfg s es)"
  using assms(3)
proof (induction es rule: rev_induct)
  case (snoc e es)
  let ?s = "fst (run (cf_step cfg) s es)"
  have inv: "cf_inv ?s" using assms(1) by (rule stopped.inv_run)
  have IH: "cf_unanswered ?s = int (offer_count cfg s es) - int (reply_count cfg s es)"
    using snoc by (simp add: one_connection_snoc)
  have le: "reply_count cfg s (es @ [e]) \<le> offer_count cfg s (es @ [e])" and e: "\<not> is_joined e"
    using snoc.prems by (simp_all add: one_connection_snoc)
  have "cf_unanswered ?s > 0" if "replies ?s e"
    using that le IH reply_sends_no_offer [OF inv that, of cfg] by (simp add: reply_count_append offer_count_snoc)
  from cf_step_unanswered [OF inv e this, of cfg] IH show ?case
    by (simp add: fst_run_append reply_count_append offer_count_snoc)
qed (simp add: assms offer_count_def)

text \<open>
  on one connection (counted from its \<open>joined\<close>, the worker replying at most once to each
  offer), an answer is handed to the peer exactly when the current publication has sent an offer
  and this reply is the last one outstanding, so that it answers the latest offer; an answer to
  an older offer is never applied to the new PeerConnection.
\<close>

theorem answer_belongs_to_latest_offer:
  assumes "cf_inv s" "cf_unanswered s = 0"
    and "e = SocketMessage (cf_connection s1) env (Some (Answer sdp gen))" "\<not> cf_stopped s1"
    and "one_connection cfg s (es @ [e])" "s1 = fst (run (cf_step cfg) s es)"
  shows "snd (cf_step cfg s1 e) =
           (case cf_peer s1 of
              None \<Rightarrow> []
            | Some p \<Rightarrow> if cf_offer_sent s1 \<and> reply_count cfg s (es @ [e]) = offer_count cfg s (es @ [e])
                        then [PeerSetRemoteSdp p sdp ''answer''] else [])"
proof -
  have inv: "cf_inv s1" unfolding assms(6) using assms(1) by (rule stopped.inv_run)
  have r: "replies s1 e" using assms(3,4) by simp
  have "one_connection cfg s es" "reply_count cfg s (es @ [e]) \<le> offer_count cfg s (es @ [e])"
    using assms(5) by (simp_all add: one_connection_snoc)
  with unanswered_counts [OF assms(1,2) this(1)] reply_sends_no_offer [OF inv r, of cfg] r
  show ?thesis unfolding assms(6)
    by (auto simp: assms(3)[unfolded assms(6)] assms(4)[unfolded assms(6)] OnWorkerMessage_def OnAnswer_def Let_def
        reply_count_append offer_count_snoc split: option.splits)
qed

text \<open>Two offers of two publications of one connection; then the replies to both.\<close>

definition env0 :: cf_env where
  "env0 = \<lparr>ce_created = True, ce_connected = False, ce_has = {}\<rparr>"

definition two_offers :: "cf_event list" where
  "two_offers =
     [SocketMessage 1 env0 (Some Wake), LocalOffer 2 ''o2'' [(''0'', ''v'')],
      SocketMessage 1 env0 (Some Wake), LocalOffer 3 ''o3'' [(''0'', ''v'')],
      SocketMessage 1 env0 (Some (Answer ''a2'' 1))]"

definition joined_cf :: cf where
  "joined_cf = init_cf\<lparr>cf_socket := Some 1, cf_socket_open := True, cf_connection := 1, cf_publication := 1\<rparr>"

lemmas demo_simps = joined_cf_def init_cf_def demo_cfg_def env0_def StartPublishing_def OnWorkerMessage_def
  OnWake_def OnAnswer_def OnLocalOffer_def SendRequest_def Let_def

lemma two_offers_run:
  "fst (run (cf_step demo_cfg) joined_cf two_offers) =
     joined_cf\<lparr>cf_publishing := True, cf_publication := 3, cf_peer := Some 3, cf_offer_sent := True, cf_unanswered := 1\<rparr>"
  by (simp add: two_offers_def demo_simps)

lemma two_offers_counts:
  "one_connection demo_cfg joined_cf (two_offers @ [SocketMessage 1 env0 (Some (Answer ''a3'' 2))])"
  "reply_count demo_cfg joined_cf (two_offers @ [SocketMessage 1 env0 (Some (Answer ''a3'' 2))]) = 2"
  "offer_count demo_cfg joined_cf (two_offers @ [SocketMessage 1 env0 (Some (Answer ''a3'' 2))]) = 2"
  by (simp_all add: one_connection_def offer_count_def upt_rec two_offers_def demo_simps)

lemma answer_belongs_to_latest_offer_witness:
  "snd (cf_step demo_cfg (fst (run (cf_step demo_cfg) joined_cf two_offers))
      (SocketMessage 1 env0 (Some (Answer ''a3'' 2)))) = [PeerSetRemoteSdp 3 ''a3'' ''answer'']"
proof -
  let ?s1 = "fst (run (cf_step demo_cfg) joined_cf two_offers)"
  have c: "cf_connection ?s1 = 1" "\<not> cf_stopped ?s1" "cf_peer ?s1 = Some 3" "cf_offer_sent ?s1"
    unfolding two_offers_run by (simp_all add: joined_cf_def init_cf_def)
  have "cf_inv joined_cf" "cf_unanswered joined_cf = 0" by (simp_all add: cf_inv_def joined_cf_def init_cf_def)
  from answer_belongs_to_latest_offer 
      [OF this refl c(2), where cfg = demo_cfg and es = two_offers and env = env0 and sdp = "''a3''" and gen = 2] show ?thesis
    using two_offers_counts c by simp
qed

text \<open>
  \<open>joined\<close> forgets the offers of its own connection as well: an offer sent after the socket
  opened and before \<open>joined\<close> arrived is not counted, so that after another wake its answer is
  applied to the PeerConnection of a later offer.
\<close>

theorem offer_before_joined_gets_stale_answer:
  "snd (run (cf_step demo_cfg) (joined_cf\<lparr>cf_publishing := True, cf_peer := Some 1\<rparr>)
     [LocalOffer 1 ''o1'' [(''0'', ''v'')],
      SocketMessage 1 env0 (Some (Joined [] DeviceOther)),
      SocketMessage 1 env0 (Some Wake),
      LocalOffer 2 ''o2'' [(''0'', ''v'')],
      SocketMessage 1 env0 (Some (Answer ''answer to o1'' 5))]) =
   [SendMsg (RequestOffer ''o1'' [(''0'', ''v'')] True True),
    CancelTimers, PeerTerminate 1, CreatePeer 2 [], AddServerEvents 2, PeerCreateOffer 2, ArmHealth 2,
    SendMsg (RequestOffer ''o2'' [(''0'', ''v'')] True True),
    PeerSetRemoteSdp 2 ''answer to o1'' ''answer'']"
  by (simp add: demo_simps OnJoined_def)

end
