(* ===== verification/Whep.thy ===== *)
theory Whep
  imports SdpText PeerRegistry
begin

text \<open>
  The WHEP server (src/src/signaling/whep_service.cpp): the parsing of targets, media types,
  entity tags and ICE fragments, and one \<open>HttpSession\<close> over the service's registry of peers.
  A session reads one request; its answer may wait for a local description, which the peer
  hands over on its own thread and which is then posted to the session. Boost.Beast is the
  environment; what the conductor and libwebrtc answer is given by \<open>whep_env\<close>.
\<close>

section \<open>Text\<close>

definition kSdpType :: string where "kSdpType = ''application/sdp''"
definition kTrickleIceType :: string where "kTrickleIceType = ''application/trickle-ice-sdpfrag''"
definition kSessionSegment :: string where "kSessionSegment = ''sessions''"

definition blank :: "char \<Rightarrow> bool" where
  "blank c \<longleftrightarrow> c = CHR '' '' \<or> c = CHR 0x09"

text \<open>The part before the first \<open>;\<close>, without blanks around it, in lower case.\<close>

definition MediaTypeOf :: "string \<Rightarrow> string" where
  "MediaTypeOf v =
     (let type = takeWhile (\<lambda>c. c \<noteq> CHR '';'') v
      in map tolower (rev (dropWhile blank (rev (dropWhile blank type)))))"

text \<open>The first match of a regular expression: its first capture.\<close>

fun regex_search :: "(string \<Rightarrow> (nat \<times> string) option) \<Rightarrow> string \<Rightarrow> string option" where
  "regex_search m [] = None"
| "regex_search m (c # s) = (case m (c # s) of Some (_, v) \<Rightarrow> Some v | None \<Rightarrow> regex_search m s)"

definition EntityTagOf :: "string \<Rightarrow> string" where
  "EntityTagOf sdp =
     (case regex_search (attr_regex ''a=ice-ufrag:'') sdp of
        None \<Rightarrow> []
      | Some ufrag \<Rightarrow> [CHR 0x22] @ ufrag @ [CHR 0x22])"

definition pop_cr :: "string \<Rightarrow> string" where
  "pop_cr l = (if l \<noteq> [] \<and> last l = CHR 0x0D then butlast l else l)"

definition SdpLinesOf :: "string \<Rightarrow> string list" where
  "SdpLinesOf sdp = map pop_cr (getlines (CHR 0x0A) sdp)"

definition kSessionLines :: "string list" where
  "kSessionLines = [''a=ice-lite'', ''a=ice-options:'', ''a=group:BUNDLE'']"

definition kMediaLines :: "string list" where
  "kMediaLines = [''a=mid:'', ''a=ice-ufrag:'', ''a=ice-pwd:'', ''a=ice-options:'', ''a=candidate:'', ''a=end-of-candidates'']"

fun ice_fragment :: "bool \<Rightarrow> string list \<Rightarrow> string" where
  "ice_fragment in_media [] = []"
| "ice_fragment in_media (l # ls) =
     (if starts_with l ''m=''
      then (if in_media then [] else l @ crlf @ ice_fragment True ls)
      else (if list_ex (starts_with l) (if in_media then kMediaLines else kSessionLines)
            then l @ crlf @ ice_fragment in_media ls else ice_fragment in_media ls))"

definition IceFragmentOf :: "string \<Rightarrow> string" where
  "IceFragmentOf sdp = ice_fragment False (SdpLinesOf sdp)"

text \<open>Candidates are given with their media id and without \<open>a=\<close>.\<close>

record ice_candidates =
  ice_ufrag :: string
  ice_pwd :: string
  candidates :: "(string \<times> string) list"

fun parse_candidates :: "string \<Rightarrow> ice_candidates \<Rightarrow> string list \<Rightarrow> ice_candidates" where
  "parse_candidates mid res [] = res"
| "parse_candidates mid res (l # ls) =
     (if starts_with l ''a=mid:'' then parse_candidates (drop 6 l) res ls
      else if starts_with l ''a=candidate:''
      then parse_candidates mid (res\<lparr>candidates := candidates res @ [(mid, drop 2 l)]\<rparr>) ls
      else if starts_with l ''a=ice-ufrag:'' then parse_candidates mid (res\<lparr>ice_ufrag := drop 12 l\<rparr>) ls
      else if starts_with l ''a=ice-pwd:'' then parse_candidates mid (res\<lparr>ice_pwd := drop 10 l\<rparr>) ls
      else parse_candidates mid res ls)"

definition no_candidates :: ice_candidates where
  "no_candidates = \<lparr>ice_ufrag = [], ice_pwd = [], candidates = []\<rparr>"

definition ParseCandidates :: "string \<Rightarrow> ice_candidates" where
  "ParseCandidates sdp = parse_candidates [] no_candidates (SdpLinesOf sdp)"

section \<open>Targets\<close>

datatype whep_target = Invalid | Endpoint string | Session string

definition TargetParse :: "string \<Rightarrow> whep_target" where
  "TargetParse target =
     (let segments = filter (\<lambda>s. s \<noteq> []) (getlines (CHR ''/'') (takeWhile (\<lambda>c. c \<noteq> CHR ''?'') target))
      in case segments of
           [] \<Rightarrow> Endpoint []
         | [s] \<Rightarrow> (if s \<noteq> kSessionSegment then Endpoint s else Invalid)
         | [s, i] \<Rightarrow> (if s = kSessionSegment then Session i else Invalid)
         | _ \<Rightarrow> Invalid)"

section \<open>Requests and responses\<close>

datatype verb = OPTIONS | GET | HEAD | POST | PATCH | DELETE | OtherVerb

datatype header = ContentType | IfMatch | PrivateNetwork | OtherHeader string

record http_request =
  rq_method :: verb
  rq_target :: string
  rq_fields :: "(header \<times> string) list"
  rq_body :: string

record http_response =
  rs_status :: nat
  rs_fields :: "(string \<times> string) list"
  rs_body :: string

definition Header :: "header \<Rightarrow> http_request \<Rightarrow> string" where
  "Header h req = (case map_of (rq_fields req) h of None \<Rightarrow> [] | Some v \<Rightarrow> v)"

definition has_header :: "header \<Rightarrow> http_request \<Rightarrow> bool" where
  "has_header h req \<longleftrightarrow> map_of (rq_fields req) h \<noteq> None"

definition CreateResponse :: "nat \<Rightarrow> http_response" where
  "CreateResponse status =
     \<lparr>rs_status = status,
      rs_fields = [(''Server'', ''pi-webrtc.whep''), (''Access-Control-Allow-Origin'', ''*''),
        (''Access-Control-Expose-Headers'', ''Location, ETag, Link, Accept-Post'')],
      rs_body = []\<rparr>"

definition set_field :: "string \<Rightarrow> string \<Rightarrow> http_response \<Rightarrow> http_response" where
  "set_field name v res = res\<lparr>rs_fields := rs_fields res @ [(name, v)]\<rparr>"

definition field_of :: "string \<Rightarrow> http_response \<Rightarrow> string option" where
  "field_of name res = map_of (rs_fields res) name"

definition etag_field :: "string \<Rightarrow> http_response \<Rightarrow> http_response" where
  "etag_field sdp res = (if EntityTagOf sdp \<noteq> [] then set_field ''ETag'' (EntityTagOf sdp) res else res)"

definition created_response :: "string \<Rightarrow> string \<Rightarrow> http_response" where
  "created_response peer_id sdp =
     (etag_field sdp (set_field ''Location'' (''/'' @ kSessionSegment @ ''/'' @ peer_id)
        (set_field ''Content-Type'' kSdpType (CreateResponse 201))))\<lparr>rs_body := sdp\<rparr>"

definition restarted_response :: "string \<Rightarrow> http_response" where
  "restarted_response sdp =
     (etag_field sdp (set_field ''Content-Type'' kTrickleIceType (CreateResponse 200)))\<lparr>rs_body := IceFragmentOf sdp\<rparr>"

definition error_response :: "nat \<Rightarrow> string \<Rightarrow> http_response" where
  "error_response status message =
     (set_field ''Content-Type'' ''text/plain'' (CreateResponse status))\<lparr>rs_body := message\<rparr>"

definition not_allowed_response :: "whep_target \<Rightarrow> http_response" where
  "not_allowed_response target =
     (set_field ''Content-Type'' ''text/plain''
       (set_field ''Allow''
         (case target of Session _ \<Rightarrow> ''OPTIONS, GET, HEAD, PATCH, DELETE'' | _ \<Rightarrow> ''OPTIONS, GET, HEAD, POST'')
         (CreateResponse 405)))\<lparr>rs_body := ''This method is not allowed on this path.''\<rparr>"

section \<open>A session\<close>

text \<open>
  What \<open>AwaitLocalSdp\<close> waits for: the answer to an offer of a new peer, or the answer to an
  ICE restart. \<open>hs_posted\<close> are the descriptions posted to the session.
\<close>

datatype await = AwaitAnswer string | AwaitRestart

record whep =
  hs_reading :: bool
  hs_responded :: bool
  hs_target :: whep_target
  hs_await :: "await option"
  hs_posted :: "string list"
  hs_timer :: bool                 \<comment> \<open>the answer timer was armed\<close>
  hs_reg :: preg                   \<comment> \<open>the service's \<open>peer_registry_\<close>\<close>

datatype whep_out =
    Respond http_response
  | ArmAnswerTimer nat
  | CancelAnswerTimer
  | OfferToPeer nat string
  | RestartPeer nat string string
  | IceToPeer nat string string
  | RegOut preg_out

text \<open>
  \<open>we_alias\<close>: \<open>ResolveWebrtcAlias\<close> of the conductor, if there is one. \<open>we_created\<close>: the id and
  number of the peer it creates. \<open>we_local\<close>: \<open>LocalSdpOf\<close>. \<open>we_restart\<close>: \<open>RestartIce\<close>.
\<close>

record whep_env =
  we_alias :: "(string \<Rightarrow> string option) option"
  we_created :: "(string \<times> nat) option"
  we_local :: "nat \<Rightarrow> string"
  we_restart :: bool

definition kAnswerTimeoutSec :: nat where "kAnswerTimeoutSec = 10"

definition init_whep :: "bool \<Rightarrow> whep" where
  "init_whep on_expired = \<lparr>hs_reading = True, hs_responded = False, hs_target = Invalid, hs_await = None,
     hs_posted = [], hs_timer = False, hs_reg = init_preg on_expired\<rparr>"

definition SendResponse :: "http_response \<Rightarrow> whep \<Rightarrow> whep \<times> whep_out list" where
  "SendResponse res s = (s\<lparr>hs_responded := True\<rparr>, [CancelAnswerTimer, Respond res])"

definition RespondError :: "nat \<Rightarrow> string \<Rightarrow> whep \<Rightarrow> whep \<times> whep_out list" where
  "RespondError status message = SendResponse (error_response status message)"

definition ResolveStream :: "whep_env \<Rightarrow> string \<Rightarrow> string option" where
  "ResolveStream env stream = (case we_alias env of None \<Rightarrow> None | Some f \<Rightarrow> f stream)"

text \<open>\<open>CreatePeer\<close>: nothing without a conductor or a peer, else the peer is added.\<close>

definition CreatePeer :: "whep_env \<Rightarrow> whep \<Rightarrow> (string \<times> nat) option \<times> whep" where
  "CreatePeer env s =
     (case we_alias env of
        None \<Rightarrow> (None, s)
      | Some _ \<Rightarrow>
          (case we_created env of
             None \<Rightarrow> (None, s)
           | Some (i, p) \<Rightarrow> (Some (i, p), s\<lparr>hs_reg := AddInsert i p (AddListen p (hs_reg s))\<rparr>)))"

definition RemovePeer :: "string \<Rightarrow> whep \<Rightarrow> whep \<times> whep_out list" where
  "RemovePeer peer_id s =
     (case Remove peer_id (hs_reg s) of (reg, os) \<Rightarrow> (s\<lparr>hs_reg := reg\<rparr>, map RegOut os))"

definition AwaitLocalSdp :: "await \<Rightarrow> whep \<Rightarrow> whep \<times> whep_out list" where
  "AwaitLocalSdp a s = (s\<lparr>hs_await := Some a, hs_timer := True\<rparr>, [ArmAnswerTimer kAnswerTimeoutSec])"

definition HandlePostRequest :: "whep_env \<Rightarrow> http_request \<Rightarrow> whep \<Rightarrow> whep \<times> whep_out list" where
  "HandlePostRequest env req s =
     (if MediaTypeOf (Header ContentType req) \<noteq> kSdpType
      then RespondError 415 ''The offer must be sent with Content-Type `application/sdp`.'' s
      else case CreatePeer env s of
             (None, s1) \<Rightarrow> RespondError 500 ''Failed to create the peer connection.'' s1
           | (Some (i, p), s1) \<Rightarrow>
               andthen (AwaitLocalSdp (AwaitAnswer i) s1) (\<lambda>s2. (s2, [OfferToPeer p (rq_body req)])))"

definition ice_to_peer :: "nat \<Rightarrow> ice_candidates \<Rightarrow> whep_out list" where
  "ice_to_peer p ice = map (\<lambda>(mid, line). IceToPeer p mid line) (candidates ice)"

definition HandlePatchRequest :: "whep_env \<Rightarrow> http_request \<Rightarrow> nat \<Rightarrow> whep \<Rightarrow> whep \<times> whep_out list" where
  "HandlePatchRequest env req p s =
     (let content_type = MediaTypeOf (Header ContentType req);
          if_match = Header IfMatch req;
          ice_group = ParseCandidates (rq_body req)
      in if content_type = kSdpType
         then RespondError 422 ''This session sent no counter-offer, so it expects no SDP answer.'' s
         else if content_type \<noteq> kTrickleIceType
         then RespondError 415 ''ICE updates must be sent with Content-Type `application/trickle-ice-sdpfrag`.'' s
         else if \<not> has_header IfMatch req
         then RespondError 428 ''PATCH requires an If-Match header with the session's ETag, or `*` to restart ICE.'' s
         else if if_match = ''*''
         then andthen (AwaitLocalSdp AwaitRestart s) (\<lambda>s1.
                andthen (s1, [RestartPeer p (ice_ufrag ice_group) (ice_pwd ice_group)]) (\<lambda>s2.
                  if \<not> we_restart env then RespondError 422 ''The ICE restart failed.'' s2
                  else (s2, ice_to_peer p ice_group)))
         else if if_match \<noteq> EntityTagOf (we_local env p)
         then RespondError 412 ''If-Match does not name this session's current ICE session.'' s
         else andthen (s, ice_to_peer p ice_group) (SendResponse (CreateResponse 204)))"

definition HandleOptionsRequest :: "http_request \<Rightarrow> whep \<Rightarrow> whep \<times> whep_out list" where
  "HandleOptionsRequest req s =
     (let r0 = set_field ''Access-Control-Max-Age'' ''86400''
                (set_field ''Access-Control-Allow-Headers'' ''Content-Type, Authorization, If-Match''
                  (set_field ''Access-Control-Allow-Methods'' ''OPTIONS, GET, HEAD, POST, PATCH, DELETE'' (CreateResponse 200)));
          r1 = (case hs_target s of Endpoint _ \<Rightarrow> set_field ''Accept-Post'' kSdpType r0 | _ \<Rightarrow> r0);
          r2 = (if has_header PrivateNetwork req
                then set_field ''Access-Control-Allow-Private-Network'' ''true'' r1 else r1)
      in SendResponse r2 s)"

definition HandleDeleteRequest :: "string \<Rightarrow> whep \<Rightarrow> whep \<times> whep_out list" where
  "HandleDeleteRequest peer_id s = andthen (RemovePeer peer_id s) (SendResponse (CreateResponse 200))"

definition RespondMethodNotAllowed :: "whep \<Rightarrow> whep \<times> whep_out list" where
  "RespondMethodNotAllowed s = SendResponse (not_allowed_response (hs_target s)) s"

definition HandleEndpointRequest :: "whep_env \<Rightarrow> http_request \<Rightarrow> string \<Rightarrow> whep \<Rightarrow> whep \<times> whep_out list" where
  "HandleEndpointRequest env req stream s =
     (case ResolveStream env stream of
        None \<Rightarrow> RespondError 404 ''No camera is published at this path.'' s
      | Some camera_alias \<Rightarrow>
          (case rq_method req of
             POST \<Rightarrow> HandlePostRequest env req s
           | GET \<Rightarrow> SendResponse (set_field ''Link'' ''<urn:ietf:params:whep>; rel=\"profile\"''
                      (set_field ''Content-Type'' kSdpType (CreateResponse 200))) s
           | HEAD \<Rightarrow> SendResponse (set_field ''Link'' ''<urn:ietf:params:whep>; rel=\"profile\"''
                      (set_field ''Content-Type'' kSdpType (CreateResponse 200))) s
           | _ \<Rightarrow> RespondMethodNotAllowed s))"

definition HandleSessionRequest :: "whep_env \<Rightarrow> http_request \<Rightarrow> string \<Rightarrow> whep \<Rightarrow> whep \<times> whep_out list" where
  "HandleSessionRequest env req peer_id s =
     (case Get peer_id (hs_reg s) of
        None \<Rightarrow> RespondError 404 ''The WHEP session does not exist.'' s
      | Some p \<Rightarrow>
          (case rq_method req of
             PATCH \<Rightarrow> HandlePatchRequest env req p s
           | DELETE \<Rightarrow> HandleDeleteRequest peer_id s
           | GET \<Rightarrow> SendResponse (CreateResponse 204) s
           | HEAD \<Rightarrow> SendResponse (CreateResponse 204) s
           | _ \<Rightarrow> RespondMethodNotAllowed s))"

definition HandleRequest :: "whep_env \<Rightarrow> http_request \<Rightarrow> whep \<Rightarrow> whep \<times> whep_out list" where
  "HandleRequest env req s =
     (let s1 = s\<lparr>hs_target := TargetParse (rq_target req)\<rparr>
      in if rq_method req = OPTIONS then HandleOptionsRequest req s1
         else case hs_target s1 of
                Endpoint stream \<Rightarrow> HandleEndpointRequest env req stream s1
              | Session peer_id \<Rightarrow> HandleSessionRequest env req peer_id s1
              | Invalid \<Rightarrow> RespondError 404 ''No WHEP resource at this path.'' s1)"

text \<open>The read completes once. \<open>LocalSdpOnPeer\<close> is the peer's callback, \<open>RunPosted\<close> what it posts.\<close>

definition OnReadRequest :: "whep_env \<Rightarrow> http_request option \<Rightarrow> whep \<Rightarrow> whep \<times> whep_out list" where
  "OnReadRequest env req s =
     (if \<not> hs_reading s then (s, [])
      else case req of
             None \<Rightarrow> (s\<lparr>hs_reading := False\<rparr>, [])
           | Some r \<Rightarrow> HandleRequest env r (s\<lparr>hs_reading := False\<rparr>))"

definition LocalSdpOnPeer :: "string \<Rightarrow> whep \<Rightarrow> whep" where
  "LocalSdpOnPeer sdp s = (if hs_await s = None then s else s\<lparr>hs_posted := hs_posted s @ [sdp]\<rparr>)"

definition RunPosted :: "whep \<Rightarrow> whep \<times> whep_out list" where
  "RunPosted s =
     (case (hs_posted s, hs_await s) of
        (sdp # rest, Some a) \<Rightarrow>
          (let s1 = s\<lparr>hs_posted := rest\<rparr>
           in if hs_responded s1 then (s1, [])
              else case a of
                     AwaitAnswer i \<Rightarrow> SendResponse (created_response i sdp) s1
                   | AwaitRestart \<Rightarrow> SendResponse (restarted_response sdp) s1)
      | _ \<Rightarrow> (s, []))"

definition AnswerTimeout :: "whep \<Rightarrow> whep \<times> whep_out list" where
  "AnswerTimeout s =
     (if \<not> hs_timer s \<or> hs_responded s then (s, [])
      else case hs_await s of
             None \<Rightarrow> (s, [])
           | Some (AwaitAnswer i) \<Rightarrow>
               andthen (RemovePeer i s) (RespondError 503 ''Timed out creating the SDP answer for this offer.'')
           | Some AwaitRestart \<Rightarrow> RespondError 503 ''Timed out creating the answer for this ICE restart.'' s)"

text \<open>Everything else that happens to the registry meanwhile is an event of the registry.\<close>

datatype whep_event =
    ReadDone whep_env "http_request option"
  | PeerLocalSdp string
  | PostedSdp
  | TimerDone
  | Registry preg_event

fun whep_step :: "whep \<Rightarrow> whep_event \<Rightarrow> whep \<times> whep_out list" where
  "whep_step s (ReadDone env req) = OnReadRequest env req s"
| "whep_step s (PeerLocalSdp sdp) = (LocalSdpOnPeer sdp s, [])"
| "whep_step s PostedSdp = RunPosted s"
| "whep_step s TimerDone = AnswerTimeout s"
| "whep_step s (Registry e) =
     (case preg_step (hs_reg s) e of (reg, os) \<Rightarrow> (s\<lparr>hs_reg := reg\<rparr>, map RegOut os))"

section \<open>One response to every request\<close>

fun is_response :: "whep_out \<Rightarrow> bool" where
  "is_response (Respond _) = True"
| "is_response _ = False"

definition whep_inv :: "whep \<Rightarrow> bool" where
  "whep_inv s \<longleftrightarrow> (hs_reading s \<longrightarrow> \<not> hs_responded s \<and> hs_await s = None \<and> \<not> hs_timer s)"

text \<open>A response was sent, or the answer timer will send one.\<close>

definition answered :: "whep \<Rightarrow> bool" where
  "answered s \<longleftrightarrow> \<not> hs_reading s \<and> (hs_responded s \<or> hs_timer s \<and> hs_await s \<noteq> None)"

text \<open>A handler that runs in a session that has not responded.\<close>

definition handles :: "whep \<times> whep_out list \<Rightarrow> bool" where
  "handles r \<longleftrightarrow> answered (fst r) \<and> count_out is_response (snd r) = of_bool (hs_responded (fst r))"

lemma reg_outs_no_response [simp]: "count_out is_response (map RegOut os) = 0"
  by (induction os) auto

lemma ice_to_peer_no_response [simp]: "count_out is_response (ice_to_peer p ice) = 0"
  by (simp add: ice_to_peer_def count_out_def filter_empty_conv case_prod_unfold)

lemma RemovePeer_simps [simp]:
  "hs_reading (fst (RemovePeer i s)) = hs_reading s" "hs_responded (fst (RemovePeer i s)) = hs_responded s"
  "hs_await (fst (RemovePeer i s)) = hs_await s" "hs_timer (fst (RemovePeer i s)) = hs_timer s"
  "count_out is_response (snd (RemovePeer i s)) = 0"
  by (simp_all add: RemovePeer_def case_prod_unfold)

lemma SendResponse_simps [simp]:
  "fst (SendResponse res s) = s\<lparr>hs_responded := True\<rparr>"
  "snd (SendResponse res s) = [CancelAnswerTimer, Respond res]"
  by (simp_all add: SendResponse_def)

lemma RespondError_simps [simp]:
  "fst (RespondError st msg s) = s\<lparr>hs_responded := True\<rparr>"
  "snd (RespondError st msg s) = [CancelAnswerTimer, Respond (error_response st msg)]"
  by (simp_all add: RespondError_def)

lemma CreatePeer_simps [simp]:
  "hs_reading (snd (CreatePeer env s)) = hs_reading s" "hs_responded (snd (CreatePeer env s)) = hs_responded s"
  by (auto simp: CreatePeer_def split: option.splits prod.splits)

lemma HandlePost_handles:
  "\<not> hs_reading s \<Longrightarrow> \<not> hs_responded s \<Longrightarrow> handles (HandlePostRequest env req s)"
  using CreatePeer_simps [of env s]
  by (auto simp: HandlePostRequest_def handles_def answered_def AwaitLocalSdp_def simp del: CreatePeer_simps
      split: option.splits prod.splits)

lemma HandlePatch_handles:
  "\<not> hs_reading s \<Longrightarrow> \<not> hs_responded s \<Longrightarrow> handles (HandlePatchRequest env req p s)"
  by (simp add: HandlePatchRequest_def handles_def answered_def AwaitLocalSdp_def Let_def)

lemma HandleEndpoint_handles:
  "\<not> hs_reading s \<Longrightarrow> \<not> hs_responded s \<Longrightarrow> handles (HandleEndpointRequest env req stream s)"
  by (simp add: HandleEndpointRequest_def HandlePost_handles split: option.splits verb.splits)
     (simp add: handles_def answered_def RespondMethodNotAllowed_def)

lemma HandleSession_handles:
  "\<not> hs_reading s \<Longrightarrow> \<not> hs_responded s \<Longrightarrow> handles (HandleSessionRequest env req i s)"
  by (simp add: HandleSessionRequest_def HandlePatch_handles split: option.splits verb.splits)
     (simp add: handles_def answered_def RespondMethodNotAllowed_def HandleDeleteRequest_def)

lemma HandleRequest_handles:
  assumes "\<not> hs_reading s" "\<not> hs_responded s"
  shows "handles (HandleRequest env req s)"
proof -
  let ?s = "s\<lparr>hs_target := TargetParse (rq_target req)\<rparr>"
  have "handles (HandleOptionsRequest req ?s)" "handles (RespondError st msg ?s)" for st msg
    using assms by (simp_all add: HandleOptionsRequest_def Let_def handles_def answered_def)
  moreover have "handles (HandleEndpointRequest env req stream ?s)" "handles (HandleSessionRequest env req i ?s)" for stream i
    using assms by (simp_all add: HandleEndpoint_handles HandleSession_handles)
  ultimately show ?thesis
    by (cases "TargetParse (rq_target req)") (simp_all add: HandleRequest_def Let_def)
qed

lemma OnRead_answered:
  "whep_inv s \<Longrightarrow> hs_reading s \<Longrightarrow> handles (OnReadRequest env (Some req) s)"
  using HandleRequest_handles [of "s\<lparr>hs_reading := False\<rparr>" env req]
  by (simp add: OnReadRequest_def whep_inv_def handles_def)

lemma Registry_simps [simp]:
  "hs_reading (fst (whep_step s (Registry e))) = hs_reading s"
  "hs_responded (fst (whep_step s (Registry e))) = hs_responded s"
  "hs_await (fst (whep_step s (Registry e))) = hs_await s"
  "hs_timer (fst (whep_step s (Registry e))) = hs_timer s"
  "count_out is_response (snd (whep_step s (Registry e))) = 0"
  by (simp_all add: case_prod_unfold)

lemma late_step:
  assumes "\<not> hs_reading s"
  shows "\<not> hs_reading (fst (whep_step s e)) \<and> (answered s \<longrightarrow> answered (fst (whep_step s e))) \<and>
    count_out is_response (snd (whep_step s e)) + of_bool (\<not> hs_responded (fst (whep_step s e))) = of_bool (\<not> hs_responded s)"
proof (cases e)
  case (Registry e')
  then show ?thesis using assms by (simp add: answered_def del: whep_step.simps(5))
qed (use assms in \<open>auto simp: OnReadRequest_def LocalSdpOnPeer_def RunPosted_def AnswerTimeout_def answered_def Let_def
       split: list.splits option.splits await.splits\<close>)

lemma whep_step_once:
  assumes "whep_inv s"
  shows "whep_inv (fst (whep_step s e)) \<and>
    count_out is_response (snd (whep_step s e)) + of_bool (\<not> hs_responded (fst (whep_step s e))) \<le> of_bool (\<not> hs_responded s)"
proof (cases "hs_reading s")
  case False
  with late_step [OF this, of e] show ?thesis by (simp add: whep_inv_def)
next
  case True
  show ?thesis
  proof (cases e)
    case (ReadDone env req)
    with OnRead_answered [OF assms True, of env] assms True show ?thesis
      by (cases req) (auto simp: handles_def answered_def whep_inv_def OnReadRequest_def)
  next
    case (Registry e')
    then show ?thesis using assms by (simp add: whep_inv_def del: whep_step.simps(5))
  qed (use assms True in \<open>auto simp: LocalSdpOnPeer_def RunPosted_def AnswerTimeout_def whep_inv_def split: list.splits option.splits\<close>)
qed

interpretation whep: once_machine whep_step whep_inv "\<lambda>s. \<not> hs_responded s" is_response
  using whep_step_once by unfold_locales blast+

interpretation waiting: machine whep_step answered
proof
  fix s e
  assume a: "answered s"
  then have "\<not> hs_reading s" by (simp add: answered_def)
  from late_step [OF this, of e] a show "answered (fst (whep_step s e))" by simp
qed

lemma late_run_count:
  "\<not> hs_reading s \<Longrightarrow>
   count_out is_response (snd (run whep_step s es)) + of_bool (\<not> hs_responded (fst (run whep_step s es))) = of_bool (\<not> hs_responded s)"
proof (induction es arbitrary: s)
  case (Cons e es)
  let ?s = "fst (whep_step s e)"
  have "\<not> hs_reading ?s" using late_step [OF Cons.prems, of e] by simp
  from Cons.IH [OF this] late_step [OF Cons.prems, of e] show ?case
    unfolding run_Cons count_out_simps(3) by linarith
qed simp

text \<open>
  C19: a session never sends two responses, whatever the order in which the request, the
  peer's descriptions, the answer timer and events of the registry arrive; and a request is
  always answered: once the answer timer's handler has run there is exactly one response.
\<close>

theorem one_response_per_request:
  "count_out is_response (snd (run whep_step (init_whep on_expired) es)) \<le> 1 \<and>
   count_out is_response
     (snd (run whep_step (init_whep on_expired) (ReadDone env (Some req) # es @ [TimerDone]))) = 1"
proof
  have inv: "whep_inv (init_whep on_expired)" by (simp add: whep_inv_def init_whep_def)
  then show "count_out is_response (snd (run whep_step (init_whep on_expired) es)) \<le> 1"
    by (rule whep.at_most_once)
  define s1 where "s1 = fst (whep_step (init_whep on_expired) (ReadDone env (Some req)))"
  define s2 where "s2 = fst (run whep_step s1 es)"
  have r: "handles (whep_step (init_whep on_expired) (ReadDone env (Some req)))"
    using OnRead_answered [OF inv] by (simp add: init_whep_def)
  then have s1: "answered s1" "\<not> hs_reading s1" by (auto simp: s1_def handles_def answered_def)
  have s2: "answered s2" unfolding s2_def using s1(1) by (rule waiting.inv_run)
  then have "hs_responded (fst (whep_step s2 TimerDone))"
    by (auto simp: answered_def AnswerTimeout_def split: await.splits)
  then have "count_out is_response (snd (run whep_step s1 (es @ [TimerDone]))) = of_bool (\<not> hs_responded s1)"
    using late_run_count [OF s1(2), of "es @ [TimerDone]"] by (simp add: fst_run_append s2_def)
  with r show "count_out is_response
     (snd (run whep_step (init_whep on_expired) (ReadDone env (Some req) # es @ [TimerDone]))) = 1"
    by (simp add: handles_def s1_def del: whep_step.simps)
qed

section \<open>The location of a session\<close>

definition segment :: "string \<Rightarrow> bool" where
  "segment s \<longleftrightarrow> s \<noteq> [] \<and> CHR ''/'' \<notin> set s \<and> CHR ''?'' \<notin> set s"

lemma before_query: "CHR ''?'' \<notin> set p \<Longrightarrow> query = [] \<or> hd query = CHR ''?'' \<Longrightarrow>
   takeWhile (\<lambda>c. c \<noteq> CHR ''?'') (p @ query) = p"
  by (cases query) (auto simp: takeWhile_append2 takeWhile_tail)

lemma getlines_slash: "getlines (CHR ''/'') (CHR ''/'' # s) = [] # getlines (CHR ''/'') s"
  using getlines_line [of "CHR ''/''" "[]" s] by simp

lemma TargetParse_session:
  assumes "segment i" "query = [] \<or> hd query = CHR ''?''"
  shows "TargetParse (''/sessions/'' @ i @ query) = Session i"
proof -
  have "takeWhile (\<lambda>c. c \<noteq> CHR ''?'') ((''/sessions/'' @ i) @ query) = ''/sessions/'' @ i"
    using assms by (intro before_query) (auto simp: segment_def)
  moreover have "getlines (CHR ''/'') (''sessions'' @ CHR ''/'' # i) = ''sessions'' # getlines (CHR ''/'') i"
    by (rule getlines_line) simp
  moreover have "getlines (CHR ''/'') i = [i]" using assms by (intro getlines_end) (auto simp: segment_def)
  ultimately show ?thesis
    using assms(1) by (simp add: TargetParse_def kSessionSegment_def getlines_slash segment_def)
qed

lemma TargetParse_stream:
  assumes "segment s" "s \<noteq> kSessionSegment" "query = [] \<or> hd query = CHR ''?''"
  shows "TargetParse (''/'' @ s @ query) = Endpoint s"
proof -
  have "takeWhile (\<lambda>c. c \<noteq> CHR ''?'') ((''/'' @ s) @ query) = ''/'' @ s"
    using assms by (intro before_query) (auto simp: segment_def)
  moreover have "getlines (CHR ''/'') s = [s]" using assms by (intro getlines_end) (auto simp: segment_def)
  ultimately show ?thesis using assms by (simp add: TargetParse_def getlines_slash segment_def)
qed

definition request :: "verb \<Rightarrow> string \<Rightarrow> (header \<times> string) list \<Rightarrow> string \<Rightarrow> http_request" where
  "request v target hs content = \<lparr>rq_method = v, rq_target = target, rq_fields = hs, rq_body = content\<rparr>"

text \<open>
  the location of a session works. A POST of an offer creates a peer; the response the
  session sends when the peer's description arrives carries a \<open>Location\<close> and the peer's
  description; a DELETE at that location (with or without a query), in another session of the
  service, terminates exactly that peer, takes it out of the registry and answers 200; a second
  one finds nothing and answers 404.
\<close>

theorem location_names_the_peer:
  assumes "segment i" "p \<notin> pg_expired (hs_reg s)" "query = [] \<or> hd query = CHR ''?''"
    and "hs_reading s" "whep_inv s" "hs_posted s = []"
    and "MediaTypeOf (Header ContentType req) = kSdpType" "rq_method req = POST"
    and "TargetParse (rq_target req) = Endpoint stream"
    and "we_alias env = Some aliases" "aliases stream = Some camera" "we_created env = Some (i, p)"
    and "r = run whep_step s [ReadDone env (Some req), PeerLocalSdp sdp, PostedSdp]"
  shows "snd r = [ArmAnswerTimer 10, OfferToPeer p (rq_body req), CancelAnswerTimer, Respond (created_response i sdp)] \<and>
    rs_body (created_response i sdp) = sdp \<and>
    field_of ''Location'' (created_response i sdp) = Some (''/sessions/'' @ i) \<and>
    (let s1 = (init_whep on_expired)\<lparr>hs_reg := hs_reg (fst r)\<rparr>;
         del = ReadDone env' (Some (request DELETE (''/sessions/'' @ i @ query) hs []));
         r1 = whep_step s1 del;
         r2 = whep_step (s1\<lparr>hs_reg := hs_reg (fst r1)\<rparr>) del
     in snd r1 = [RegOut (Terminated p), CancelAnswerTimer, Respond (CreateResponse 200)] \<and>
        omap_get (pg_peers (hs_reg (fst r1))) i = None \<and>
        snd r2 = [CancelAnswerTimer, Respond (error_response 404 ''The WHEP session does not exist.'')])"
proof -
  note [simp] = OnReadRequest_def HandleRequest_def Let_def LocalSdpOnPeer_def RunPosted_def
  have st: "snd r = [ArmAnswerTimer 10, OfferToPeer p (rq_body req), CancelAnswerTimer, Respond (created_response i sdp)]"
    "hs_reg (fst r) = AddInsert i p (AddListen p (hs_reg s))"
    unfolding assms(13) using assms
    by (simp_all add: HandleEndpointRequest_def ResolveStream_def HandlePostRequest_def CreatePeer_def
        AwaitLocalSdp_def kAnswerTimeoutSec_def whep_inv_def)
  have loc: "field_of ''Location'' (created_response i sdp) = Some (''/sessions/'' @ i)" "rs_body (created_response i sdp) = sdp"
    by (simp_all add: created_response_def etag_field_def field_of_def set_field_def CreateResponse_def kSessionSegment_def)
  let ?reg = "hs_reg (fst r)"
  have g: "Get i ?reg = Some p" "omap_get (pg_peers ?reg) i = Some p"
    using assms(2) by (simp_all add: st(2) Get_def AddInsert_def AddListen_def)
  note tp = TargetParse_session [OF assms(1,3)]
  show ?thesis
    using tp g st(1) loc
    by (simp add: init_whep_def request_def HandleSessionRequest_def HandleDeleteRequest_def RemovePeer_def Remove_def Get_def)
qed

definition demo_whep_env :: whep_env where
  "demo_whep_env = \<lparr>we_alias = Some (\<lambda>s. if s = [] then Some ''cam'' else None), we_created = Some (''p1'', 7),
     we_local = (\<lambda>_. ''a=ice-ufrag:u1''), we_restart = True\<rparr>"

theorem location_names_the_peer_witness:
  "snd (whep_step ((init_whep True)\<lparr>hs_reg := hs_reg (fst (run whep_step (init_whep True)
        [ReadDone demo_whep_env (Some (request POST ''/'' [(ContentType, ''Application/SDP; x=1'')] ''v=0'')),
         PeerLocalSdp ''v=1'', PostedSdp]))\<rparr>)
      (ReadDone demo_whep_env (Some (request DELETE ''/sessions/p1?x'' [] [])))) =
   [RegOut (Terminated 7), CancelAnswerTimer, Respond (CreateResponse 200)]"
proof -
  let ?req = "request POST ''/'' [(ContentType, ''Application/SDP; x=1'')] ''v=0''"
  have *: "MediaTypeOf (Header ContentType ?req) = kSdpType"
    by code_simp
  have "segment ''p1''" "whep_inv (init_whep True)"
    by (simp_all add: segment_def whep_inv_def init_whep_def)
  moreover have "TargetParse ''/'' = Endpoint []"
    by (simp add: TargetParse_def getlines_slash)
  ultimately show ?thesis
    using location_names_the_peer [of "''p1''" 7 "init_whep True" "''?x''" ?req "[]" demo_whep_env
        "\<lambda>s. if s = [] then Some ''cam'' else None" "''cam''" _ "''v=1''" True demo_whep_env "[]"] *
    by (simp add: init_whep_def init_preg_def demo_whep_env_def Let_def request_def del: run_Cons whep_step.simps)
qed

section \<open>Candidates and entity tags\<close>

text \<open>
  C20: a PATCH hands candidates to the peer exactly when it has the trickle type and an
  \<open>If-Match\<close> that is \<open>*\<close> (with an ICE restart that succeeded) or the entity tag of the peer's
  current description, and then exactly the candidates of its body, in their order; a request
  without the right tag is refused with 412 or 428 and never reaches the peer.
\<close>

theorem patch_needs_current_tag:
  "filter (\<lambda>x. \<exists>q mid line. x = IceToPeer q mid line) (snd (HandlePatchRequest env req p s)) =
     (if MediaTypeOf (Header ContentType req) = kTrickleIceType \<and> has_header IfMatch req \<and>
         (if Header IfMatch req = ''*'' then we_restart env
          else Header IfMatch req = EntityTagOf (we_local env p))
      then map (\<lambda>(mid, line). IceToPeer p mid line) (candidates (ParseCandidates (rq_body req))) else []) \<and>
   (MediaTypeOf (Header ContentType req) = kTrickleIceType \<and> Header IfMatch req \<noteq> ''*'' \<and>
    (\<not> has_header IfMatch req \<or> Header IfMatch req \<noteq> EntityTagOf (we_local env p)) \<longrightarrow>
    (\<exists>status msg. status \<in> {412, 428} \<and>
       snd (HandlePatchRequest env req p s) = [CancelAnswerTimer, Respond (error_response status msg)]))"
proof -
  have "filter (\<lambda>x. \<exists>q mid line. x = IceToPeer q mid line) (ice_to_peer p ice) =
      map (\<lambda>(mid, line). IceToPeer p mid line) (candidates ice)" for ice
    by (simp add: ice_to_peer_def filter_id_conv case_prod_unfold)
  moreover have "kTrickleIceType \<noteq> kSdpType" by (simp add: kTrickleIceType_def kSdpType_def)
  ultimately show ?thesis
    by (auto simp: HandlePatchRequest_def Let_def AwaitLocalSdp_def)
qed

theorem patch_needs_current_tag_witness:
  "\<exists>status msg. status \<in> {412, 428} \<and>
     snd (HandlePatchRequest demo_whep_env
       (request PATCH ''/sessions/p1'' [(ContentType, kTrickleIceType), (IfMatch, ''u1'')] ''a=candidate:1'') 7 (init_whep True)) =
     [CancelAnswerTimer, Respond (error_response status msg)]"
proof -
  let ?req = "request PATCH ''/sessions/p1'' [(ContentType, kTrickleIceType), (IfMatch, ''u1'')] ''a=candidate:1''"
  have "MediaTypeOf (Header ContentType ?req) = kTrickleIceType \<and> Header IfMatch ?req \<noteq> ''*'' \<and>
      Header IfMatch ?req \<noteq> EntityTagOf (we_local demo_whep_env 7)" by code_simp
  with patch_needs_current_tag [of demo_whep_env ?req 7 "init_whep True"] show ?thesis by blast
qed

section \<open>ICE fragments\<close>

text \<open>The lines of the first media section.\<close>

definition is_media :: "string \<Rightarrow> bool" where
  "is_media l \<longleftrightarrow> starts_with l ''m=''"

definition first_media :: "string list \<Rightarrow> string list" where
  "first_media ls = takeWhile (\<lambda>l. \<not> is_media l) (drop 1 (dropWhile (\<lambda>l. \<not> is_media l) ls))"

definition kept_lines :: "bool \<Rightarrow> string list \<Rightarrow> string list" where
  "kept_lines in_media = filter (\<lambda>l. list_ex (starts_with l) (if in_media then kMediaLines else kSessionLines))"

definition no_eol :: "string \<Rightarrow> bool" where
  "no_eol l \<longleftrightarrow> CHR 0x0A \<notin> set l \<and> CHR 0x0D \<notin> set l"

lemma SdpLinesOf_text: "list_all no_eol ls \<Longrightarrow> SdpLinesOf (sdp_text ls) = ls"
proof -
  assume ok: "list_all no_eol ls"
  have "sdp_text ls = concat (map (\<lambda>l. l @ [CHR 0x0A]) (map (\<lambda>l. l @ [CHR 0x0D]) ls))"
    by (simp add: sdp_text_def crlf_def comp_def)
  moreover have "\<forall>l \<in> set (map (\<lambda>l. l @ [CHR 0x0D]) ls). CHR 0x0A \<notin> set l"
    using ok by (auto simp: list_all_iff no_eol_def)
  ultimately have "getlines (CHR 0x0A) (sdp_text ls) = map (\<lambda>l. l @ [CHR 0x0D]) ls"
    by (simp only: getlines_lines)
  then show ?thesis by (simp add: SdpLinesOf_def pop_cr_def comp_def)
qed

lemma sdp_text_simps [simp]:
  "sdp_text [] = []" "sdp_text (l # ls) = l @ crlf @ sdp_text ls" "sdp_text (xs @ ys) = sdp_text xs @ sdp_text ys"
  by (simp_all add: sdp_text_def)

lemma ice_fragment_media:
  "ice_fragment True ls = sdp_text (kept_lines True (takeWhile (\<lambda>l. \<not> is_media l) ls))"
  by (induction ls) (simp_all add: kept_lines_def is_media_def)

lemma ice_fragment_session:
  "ice_fragment False ls =
     sdp_text (kept_lines False (takeWhile (\<lambda>l. \<not> is_media l) ls) @
       take 1 (dropWhile (\<lambda>l. \<not> is_media l) ls) @ kept_lines True (first_media ls))"
  by (induction ls) (simp_all add: kept_lines_def is_media_def first_media_def ice_fragment_media del: sdp_text_simps(3))

text \<open>Lines that \<open>parse_candidates\<close> reads.\<close>

definition ice_line :: "string \<Rightarrow> bool" where
  "ice_line l \<longleftrightarrow> list_ex (starts_with l) [''a=mid:'', ''a=candidate:'', ''a=ice-ufrag:'', ''a=ice-pwd:'']"

lemma parse_skips: "list_all (\<lambda>l. \<not> ice_line l) ls \<Longrightarrow> parse_candidates mid res (ls @ rest) = parse_candidates mid res rest"
  by (induction ls) (auto simp: ice_line_def)

lemma parse_filter:
  "(\<And>l. ice_line l \<Longrightarrow> P l) \<Longrightarrow> parse_candidates mid res (filter P ls) = parse_candidates mid res ls"
  by (induction ls arbitrary: mid res) (auto simp: ice_line_def)

lemma session_lines_skipped: "list_all (\<lambda>l. \<not> ice_line l) (kept_lines False ls)"
proof -
  have "\<not> ice_line l" if "list_ex (starts_with l) kSessionLines" for l
    using that by (auto simp: kSessionLines_def ice_line_def starts_with_iff)
  then show ?thesis by (simp add: kept_lines_def list_all_iff)
qed

text \<open>
  the body of an ICE restart's answer says the same about ICE as the answer itself: for
  every description, parsing its fragment gives the credentials and the candidates (with their
  media ids) that parsing its first media section gives, and nothing of the later sections.
\<close>

theorem fragment_keeps_first_media:
  assumes "list_all no_eol ls"
  shows "ParseCandidates (IceFragmentOf (sdp_text ls)) = ParseCandidates (sdp_text (first_media ls))"
proof -
  let ?s = "kept_lines False (takeWhile (\<lambda>l. \<not> is_media l) ls)" and ?m = "take 1 (dropWhile (\<lambda>l. \<not> is_media l) ls)"
  let ?k = "kept_lines True (first_media ls)"
  have sub: "set ?s \<subseteq> set ls" "set ?m \<subseteq> set ls" "set ?k \<subseteq> set ls" "set (first_media ls) \<subseteq> set ls"
    by (auto simp: kept_lines_def first_media_def dest!: set_takeWhileD in_set_takeD in_set_dropD set_dropWhileD)
  then have ok: "list_all no_eol (?s @ ?m @ ?k)" "list_all no_eol (first_media ls)"
    using assms unfolding list_all_iff by auto
  have m: "list_all (\<lambda>l. \<not> ice_line l) ?m"
  proof (cases "dropWhile (\<lambda>l. \<not> is_media l) ls")
    case (Cons l rest)
    then have "is_media l" by (metis dropWhile_eq_Cons_conv)
    then have "\<not> ice_line l" by (auto simp: is_media_def ice_line_def starts_with_iff)
    with Cons show ?thesis by simp
  qed (simp only: take_Nil list.pred_inject)
  have k: "parse_candidates mid res ?k = parse_candidates mid res (first_media ls)" for mid res
    unfolding kept_lines_def by (rule parse_filter) (auto simp: ice_line_def kMediaLines_def)
  have "IceFragmentOf (sdp_text ls) = sdp_text (?s @ ?m @ ?k)"
    unfolding IceFragmentOf_def SdpLinesOf_text [OF assms] by (rule ice_fragment_session)
  then show ?thesis
    using SdpLinesOf_text [OF ok(1)] SdpLinesOf_text [OF ok(2)] parse_skips [OF session_lines_skipped] parse_skips [OF m] k
    by (simp only: ParseCandidates_def)
qed

theorem fragment_keeps_first_media_witness:
  "ParseCandidates (IceFragmentOf (sdp_text
     [''v=0'', ''a=ice-lite'', ''m=video'', ''a=mid:0'', ''a=ice-ufrag:u'', ''a=sendonly'', ''a=candidate:1'', ''m=audio'', ''a=mid:1'', ''a=candidate:2''])) =
   \<lparr>ice_ufrag = ''u'', ice_pwd = [], candidates = [(''0'', ''candidate:1'')]\<rparr>"
  by (subst fragment_keeps_first_media) code_simp+

end
