(* ===== verification/RecordingFiles.thy ===== *)
theory RecordingFiles
  imports Prelude "HOL-Library.Sublist"
begin

text \<open>
  The files of the recorder (src/src/recorder/recorder_manager.cpp): the path of a new file
  (\<open>PrefixZero\<close>, \<open>FileInfo\<close>), and \<open>RotateFiles\<close>, which frees space by deleting the oldest
  recording. A folder is a map from names to nodes, sorted by name; the order in which the
  directory iterator visits it does not matter, as the code looks for the least name. The
  system calls are taken to succeed, but \<open>fs::remove\<close> throws on a folder that is not empty.
\<close>

section \<open>File names\<close>

text \<open>\<open>digits - str.length()\<close> is unsigned: it is enormous when the number is too long, and the
  string constructor throws (\<open>None\<close>).\<close>

definition PrefixZero :: "nat \<Rightarrow> nat \<Rightarrow> string option" where
  "PrefixZero src n_digits =
     (let str = to_digits src
      in if length str \<le> n_digits then Some (replicate (n_digits - length str) (CHR ''0'') @ str) else None)"

text \<open>The fields of \<open>struct tm\<close>; \<open>tm_year\<close> counts from 1900, \<open>tm_mon\<close> from 0.\<close>

record tm =
  tm_year :: nat
  tm_mon :: nat
  tm_mday :: nat
  tm_hour :: nat
  tm_min :: nat
  tm_sec :: nat

record file_info =
  fi_root :: string
  fi_date :: string
  fi_hour :: string
  fi_filename :: string
  fi_extension :: string

definition FileInfo :: "string \<Rightarrow> string \<Rightarrow> tm \<Rightarrow> file_info option" where
  "FileInfo root extension ltm =
     (case (PrefixZero (1900 + tm_year ltm) 4, PrefixZero (1 + tm_mon ltm) 2, PrefixZero (tm_mday ltm) 2,
            PrefixZero (tm_hour ltm) 2, PrefixZero (tm_min ltm) 2, PrefixZero (tm_sec ltm) 2) of
        (Some year, Some month, Some day, Some hour, Some mins, Some sec) \<Rightarrow>
          Some \<lparr>fi_root = root, fi_date = year @ month @ day, fi_hour = hour,
                fi_filename = year @ month @ day @ ''_'' @ hour @ mins @ sec, fi_extension = extension\<rparr>
      | _ \<Rightarrow> None)"

text \<open>\<open>fs::path / fs::path\<close> for a relative right side.\<close>

definition path_join :: "string \<Rightarrow> string \<Rightarrow> string" where
  "path_join a b = (if a = [] \<or> last a = CHR ''/'' then a @ b else a @ ''/'' @ b)"

definition GetFolderPath :: "file_info \<Rightarrow> string" where
  "GetFolderPath f = path_join (path_join (fi_root f) (fi_date f)) (fi_hour f)"

definition GetFullPath :: "file_info \<Rightarrow> string" where
  "GetFullPath f = path_join (GetFolderPath f) (fi_filename f @ ''.'' @ fi_extension f)"

text \<open>\<open>url.find_last_of('.')\<close>: the text before the last dot, when there is one.\<close>

definition before_last_dot :: "string \<Rightarrow> string option" where
  "before_last_dot s =
     (if CHR ''.'' \<in> set s then Some (rev (drop 1 (dropWhile (\<lambda>c. c \<noteq> CHR ''.'') (rev s)))) else None)"

definition ReplaceExtension :: "string \<Rightarrow> string \<Rightarrow> string" where
  "ReplaceExtension url new_extension =
     (case before_last_dot url of None \<Rightarrow> url @ new_extension | Some stem \<Rightarrow> stem @ new_extension)"

section \<open>Folders\<close>

datatype node = File | Dir "(string \<times> node) list"

type_synonym folder = "(string, node) omap"

fun is_dir :: "node \<Rightarrow> bool" where
  "is_dir (Dir _) = True"
| "is_dir File = False"

text \<open>\<open>path::extension()\<close> and \<open>path::stem()\<close> of a file name: a leading dot starts no extension.\<close>

definition fs_stem :: "string \<Rightarrow> string" where
  "fs_stem name = (case before_last_dot name of Some s \<Rightarrow> if s = [] then name else s | None \<Rightarrow> name)"

definition fs_extension :: "string \<Rightarrow> string" where
  "fs_extension name = drop (length (fs_stem name)) name"

text \<open>\<open>fs::remove\<close>: whether something was removed, or an exception.\<close>

definition fs_remove :: "string \<Rightarrow> folder \<Rightarrow> (bool \<times> folder) option" where
  "fs_remove name d =
     (case omap_get d name of
        None \<Rightarrow> Some (False, d)
      | Some File \<Rightarrow> Some (True, omap_del name d)
      | Some (Dir []) \<Rightarrow> Some (True, omap_del name d)
      | Some (Dir _) \<Rightarrow> None)"

section \<open>RotateFiles\<close>

text \<open>The loops over a folder that look for the least name.\<close>

fun least_name :: "(string \<Rightarrow> node \<Rightarrow> bool) \<Rightarrow> string option \<Rightarrow> (string \<times> node) list \<Rightarrow> string option" where
  "least_name p best [] = best"
| "least_name p best ((name, n) # es) =
     least_name p
       (if p name n then (case best of None \<Rightarrow> Some name | Some b \<Rightarrow> if name < b then Some name else best) else best) es"

definition oldest_folder :: "folder \<Rightarrow> string option" where
  "oldest_folder d = least_name (\<lambda>name n. is_dir n) None d"

definition is_media_file :: "string \<Rightarrow> node \<Rightarrow> bool" where
  "is_media_file name n \<longleftrightarrow> n = File \<and> (fs_extension name = ''.mp4'' \<or> fs_extension name = ''.jpg'')"

definition oldest_media :: "folder \<Rightarrow> string option" where
  "oldest_media d = least_name is_media_file None d"

fun entries_of :: "node option \<Rightarrow> folder" where
  "entries_of (Some (Dir d)) = d"
| "entries_of _ = []"

definition counterpart :: "string \<Rightarrow> string" where
  "counterpart name = fs_stem name @ (if fs_extension name = ''.mp4'' then ''.jpg'' else ''.mp4'')"

text \<open>\<open>fs::is_empty\<close> and removal of the hour folder, then of the date folder.\<close>

definition drop_empty :: "string \<Rightarrow> string \<Rightarrow> folder \<Rightarrow> folder \<Rightarrow> folder \<Rightarrow> folder" where
  "drop_empty date hour files hours root =
     (if files = []
      then let hours' = omap_del hour hours
           in if hours' = [] then omap_del date root else omap_put date (Dir hours') root
      else omap_put date (Dir (omap_put hour (Dir files) hours)) root)"

definition RotateFiles :: "folder \<Rightarrow> folder" where
  "RotateFiles root =
     (case oldest_folder root of
        None \<Rightarrow> root
      | Some date \<Rightarrow>
          (let hours = entries_of (omap_get root date)
           in case oldest_folder hours of
                None \<Rightarrow> omap_del date root
              | Some hour \<Rightarrow>
                  (let files = entries_of (omap_get hours hour)
                   in case oldest_media files of
                        None \<Rightarrow> omap_put date (Dir (omap_del hour hours)) root
                      | Some file \<Rightarrow>
                          (let files1 = omap_del file files
                           in case fs_remove (counterpart file) files1 of
                                None \<Rightarrow> omap_put date (Dir (omap_put hour (Dir files1) hours)) root
                              | Some (_, files2) \<Rightarrow> drop_empty date hour files2 hours root))))"

text \<open>
  The body of the rotation thread once it was woken: it deletes until there is space.
  \<open>enough\<close> is \<open>CheckDriveSpace\<close> of the folder, \<open>fuel\<close> the number of turns it is given.
\<close>

fun rotate_until :: "(folder \<Rightarrow> bool) \<Rightarrow> nat \<Rightarrow> folder \<Rightarrow> folder option" where
  "rotate_until enough 0 root = (if enough root then Some root else None)"
| "rotate_until enough (Suc fuel) root =
     (if enough root then Some root else rotate_until enough fuel (RotateFiles root))"

section \<open>The order of names is the order of time\<close>

lemma to_digits_bound: "n < 10 ^ k \<Longrightarrow> 0 < k \<Longrightarrow> length (to_digits n) \<le> k"
proof (induction n arbitrary: k rule: to_digits.induct)
  case (1 n)
  show ?case
  proof (cases "n < 10")
    case False
    with 1(2) have "k \<noteq> 1" by auto
    with 1(3) obtain k' where k: "k = Suc k'" "0 < k'" by (cases k) auto
    with 1(2) have "n div 10 < 10 ^ k'" by (simp add: less_mult_imp_div_less mult.commute)
    from 1(1) [OF False this k(2)] False k show ?thesis by (simp add: to_digits.simps [of n])
  qed (use 1 in \<open>simp add: to_digits.simps [of n]\<close>)
qed

text \<open>The digits of a number, filled with zeros.\<close>

definition padded :: "nat \<Rightarrow> nat \<Rightarrow> string" where
  "padded k n = replicate (k - length (to_digits n)) (CHR ''0'') @ to_digits n"

lemma PrefixZero_padded: "n < 10 ^ k \<Longrightarrow> 0 < k \<Longrightarrow> PrefixZero n k = Some (padded k n)"
  by (simp add: PrefixZero_def padded_def Let_def to_digits_bound)

lemma length_padded: "n < 10 ^ k \<Longrightarrow> 0 < k \<Longrightarrow> length (padded k n) = k"
  using to_digits_bound [of n k] by (simp add: padded_def)

lemma padded_Suc:
  assumes "n < 10 ^ Suc k" "0 < k"
  shows "padded (Suc k) n = padded k (n div 10) @ [''0123456789'' ! (n mod 10)]"
proof (cases "n < 10")
  case True
  then have "to_digits (n div 10) = ''0''" by (simp add: to_digits.simps)
  with True assms show ?thesis
    by (cases k) (simp_all add: padded_def to_digits.simps [of n] replicate_append_same [symmetric])
next
  case False
  then show ?thesis by (simp add: padded_def to_digits.simps [of n])
qed

lemma snoc_less:
  fixes x y :: "'a::linorder"
  shows "length xs = length ys \<Longrightarrow> xs @ [x] < ys @ [y] \<longleftrightarrow> xs < ys \<or> xs = ys \<and> x < y"
  by (induction xs ys rule: list_induct2) auto

lemma append_less:
  fixes xs :: "'a::linorder list"
  shows "length xs = length ys \<Longrightarrow> xs @ us < ys @ vs \<longleftrightarrow> xs < ys \<or> xs = ys \<and> us < vs"
  by (induction xs ys rule: list_induct2) auto

lemma digit_less: "a < 10 \<Longrightarrow> b < 10 \<Longrightarrow> ''0123456789'' ! a < ''0123456789'' ! b \<longleftrightarrow> a < b"
proof -
  assume "a < 10" "b < 10"
  then have "a \<in> {0, 1, 2, 3, 4, 5, 6, 7, 8, 9}" "b \<in> {0, 1, 2, 3, 4, 5, 6, 7, 8, 9}" by auto
  then show ?thesis by (auto simp: less_char_def)
qed

lemma div_mod_less: "(a::nat) div 10 < b div 10 \<or> a div 10 = b div 10 \<and> a mod 10 < b mod 10 \<longleftrightarrow> a < b"
proof -
  have "a = 10 * (a div 10) + a mod 10" "b = 10 * (b div 10) + b mod 10" "a mod 10 < 10" "b mod 10 < 10" by simp_all
  then show ?thesis by linarith
qed

lemma padded_less:
  "0 < k \<Longrightarrow> a < 10 ^ k \<Longrightarrow> b < 10 ^ k \<Longrightarrow> padded k a < padded k b \<longleftrightarrow> a < b"
proof (induction k arbitrary: a b)
  case (Suc k)
  show ?case
  proof (cases "k = 0")
    case True
    with Suc.prems show ?thesis by (simp add: padded_def to_digits.simps digit_less)
  next
    case False
    then have k: "0 < k" by simp
    have d: "a div 10 < 10 ^ k" "b div 10 < 10 ^ k"
      using Suc.prems by (simp_all only: power_Suc2 less_mult_imp_div_less)
    have eq: "padded k (a div 10) = padded k (b div 10) \<longleftrightarrow> a div 10 = b div 10"
      using Suc.IH [OF k d] Suc.IH [OF k d(2) d(1)] by (metis neq_iff)
    have "padded (Suc k) a < padded (Suc k) b \<longleftrightarrow>
        a div 10 < b div 10 \<or> a div 10 = b div 10 \<and> a mod 10 < b mod 10"
      unfolding padded_Suc [OF Suc.prems(2) k] padded_Suc [OF Suc.prems(3) k]
        snoc_less [OF trans [OF length_padded [OF d(1) k] length_padded [OF d(2) k, symmetric]]]
        Suc.IH [OF k d] eq
      by (simp only: digit_less [OF mod_less_divisor mod_less_divisor] zero_less_numeral)
    also have "\<dots> \<longleftrightarrow> a < b" by (rule div_mod_less)
    finally show ?thesis .
  qed
qed simp

lemma padded_eq: "0 < k \<Longrightarrow> a < 10 ^ k \<Longrightarrow> b < 10 ^ k \<Longrightarrow> padded k a = padded k b \<longleftrightarrow> a = b"
  using padded_less [of k a b] padded_less [of k b a] by (metis neq_iff)

lemma digits_need_bound: "length (to_digits n) \<le> k \<Longrightarrow> n < 10 ^ k"
proof (induction n arbitrary: k rule: to_digits.induct)
  case (1 n)
  have len: "length (to_digits n) > 0" using to_digits_digits [of n] by simp
  show ?case
  proof (cases "n < 10")
    case True
    from 1(2) len have "1 \<le> k" by linarith
    then have "(10::nat) ^ 1 \<le> 10 ^ k" by (intro power_increasing) auto
    with True show ?thesis by simp
  next
    case False
    with 1(2) obtain k' where k: "k = Suc k'" "length (to_digits (n div 10)) \<le> k'"
      by (cases k) (simp_all add: to_digits.simps [of n])
    from 1(1) [OF False k(2)] k(1) show ?thesis by simp
  qed
qed

lemma PrefixZero_Some: "PrefixZero n k = Some s \<longleftrightarrow> length (to_digits n) \<le> k \<and> s = padded k n"
  by (auto simp: PrefixZero_def padded_def Let_def)

type_synonym instant = "nat \<times> nat \<times> nat \<times> nat \<times> nat \<times> nat"

definition instant_of :: "tm \<Rightarrow> instant" where
  "instant_of t = (tm_year t, tm_mon t, tm_mday t, tm_hour t, tm_min t, tm_sec t)"

text \<open>The fields of a name: four digits and five times two digits.\<close>

definition name_fields :: "tm \<Rightarrow> string list" where
  "name_fields t = [padded 4 (1900 + tm_year t), padded 2 (1 + tm_mon t), padded 2 (tm_mday t),
     padded 2 (tm_hour t), padded 2 (tm_min t), padded 2 (tm_sec t)]"

lemma FileInfo_fields:
  assumes "FileInfo root ext t = Some f"
  shows "fi_date f = concat (take 3 (name_fields t))" "fi_hour f = name_fields t ! 3"
    "fi_filename f = fi_date f @ ''_'' @ fi_hour f @ concat (drop 4 (name_fields t))"
    "map length (name_fields t) = [4, 2, 2, 2, 2, 2]"
    "1900 + tm_year t < 10 ^ 4" "1 + tm_mon t < 10 ^ 2" "tm_mday t < 10 ^ 2" "tm_hour t < 10 ^ 2"
    "tm_min t < 10 ^ 2" "tm_sec t < 10 ^ 2"
  using assms digits_need_bound
  by (auto simp: FileInfo_def PrefixZero_Some name_fields_def length_padded numeral_2_eq_2 numeral_3_eq_3
      eval_nat_numeral simp del: power.simps split: option.splits)

lemma name_less:
  assumes "FileInfo root ext t1 = Some f1" "FileInfo root ext t2 = Some f2"
  shows "fi_filename f1 < fi_filename f2 \<longleftrightarrow> instant_of t1 < instant_of t2"
    and "fi_date f1 < fi_date f2 \<Longrightarrow> fi_filename f1 < fi_filename f2"
    and "fi_date f1 = fi_date f2 \<Longrightarrow> fi_hour f1 < fi_hour f2 \<Longrightarrow> fi_filename f1 < fi_filename f2"
proof -
  note f1 = FileInfo_fields [OF assms(1)] and f2 = FileInfo_fields [OF assms(2)]
  have len: "length (fi_date f1) = length (fi_date f2)" "length (fi_hour f1) = length (fi_hour f2)"
    using f1(1,2,4) f2(1,2,4) by (simp_all add: name_fields_def numeral_3_eq_3)
  show "fi_date f1 < fi_date f2 \<Longrightarrow> fi_filename f1 < fi_filename f2"
    by (simp add: f1(3) f2(3) append_less len)
  show "fi_date f1 = fi_date f2 \<Longrightarrow> fi_hour f1 < fi_hour f2 \<Longrightarrow> fi_filename f1 < fi_filename f2"
    by (simp add: f1(3) f2(3) append_less len)
  have e: "fi_filename f = padded 4 (1900 + tm_year t) @ padded 2 (1 + tm_mon t) @ padded 2 (tm_mday t) @ ''_'' @
      padded 2 (tm_hour t) @ padded 2 (tm_min t) @ padded 2 (tm_sec t)" if "FileInfo root ext t = Some f" for t f
    using FileInfo_fields(1-3) [OF that] by (simp add: name_fields_def numeral_3_eq_3 eval_nat_numeral)
  show "fi_filename f1 < fi_filename f2 \<longleftrightarrow> instant_of t1 < instant_of t2"
    unfolding e [OF assms(1)] e [OF assms(2)] instant_of_def
    using f1(5-10) f2(5-10) by (simp add: append_less length_padded padded_less padded_eq le_less) blast
qed

text \<open>
  the names of recordings are chronological. For any two instants for which file names can
  be formed, the names compare like the instants, and so do the paths compared folder by folder,
  which is what rotation and the file queries rely on.
\<close>

theorem file_names_are_chronological:
  assumes "FileInfo root ext t1 = Some f1" "FileInfo root ext t2 = Some f2"
  shows "(fi_filename f1 < fi_filename f2) = (instant_of t1 < instant_of t2) \<and>
    ((fi_date f1, fi_hour f1, fi_filename f1) < (fi_date f2, fi_hour f2, fi_filename f2)) = (instant_of t1 < instant_of t2)"
proof -
  note l = name_less [OF assms] and r = name_less [OF assms(2,1)]
  consider "fi_date f1 = fi_date f2" "fi_hour f1 = fi_hour f2" | "fi_date f1 < fi_date f2" | "fi_date f2 < fi_date f1"
    | "fi_date f1 = fi_date f2" "fi_hour f1 < fi_hour f2" | "fi_date f1 = fi_date f2" "fi_hour f2 < fi_hour f1"
    by (meson neq_iff)
  then have "((fi_date f1, fi_hour f1, fi_filename f1) < (fi_date f2, fi_hour f2, fi_filename f2)) = (fi_filename f1 < fi_filename f2)"
  proof cases
    case 1 then show ?thesis by simp
  next
    case 2 with l(2) [OF 2] show ?thesis by simp
  next
    case 3 with r(2) [OF 3] show ?thesis by (simp add: not_less less_imp_le leD)
  next
    case 4 with l(3) [OF 4] show ?thesis by simp
  next
    case 5 with r(3) [OF 5(1) [symmetric] 5(2)] show ?thesis by (simp add: not_less less_imp_le leD)
  qed
  with l(1) show ?thesis by simp
qed

theorem file_names_are_chronological_witness:
  "(''20240229_235959'' < ''20240301_000000'') =
     (instant_of \<lparr>tm_year = 124, tm_mon = 1, tm_mday = 29, tm_hour = 23, tm_min = 59, tm_sec = 59\<rparr> <
      instant_of \<lparr>tm_year = 124, tm_mon = 2, tm_mday = 1, tm_hour = 0, tm_min = 0, tm_sec = 0\<rparr>)"
proof -
  have "FileInfo ''/r'' ''mp4'' \<lparr>tm_year = 124, tm_mon = 1, tm_mday = 29, tm_hour = 23, tm_min = 59, tm_sec = 59\<rparr> =
      Some \<lparr>fi_root = ''/r'', fi_date = ''20240229'', fi_hour = ''23'', fi_filename = ''20240229_235959'', fi_extension = ''mp4''\<rparr>"
    "FileInfo ''/r'' ''mp4'' \<lparr>tm_year = 124, tm_mon = 2, tm_mday = 1, tm_hour = 0, tm_min = 0, tm_sec = 0\<rparr> =
      Some \<lparr>fi_root = ''/r'', fi_date = ''20240301'', fi_hour = ''00'', fi_filename = ''20240301_000000'', fi_extension = ''mp4''\<rparr>"
    by code_simp+
  from file_names_are_chronological [OF this] show ?thesis by simp
qed

section \<open>Rotation deletes the oldest recording\<close>

lemma Min_insert_two:
  fixes a b :: "'a::linorder"
  shows "finite S \<Longrightarrow> Min (insert a (insert b S)) = Min (insert (if b < a then b else a) S)"
  by (cases "S = {}") (auto simp: min_def)

definition names_with :: "(string \<Rightarrow> node \<Rightarrow> bool) \<Rightarrow> (string \<times> node) list \<Rightarrow> string set" where
  "names_with p es = {name. \<exists>n. (name, n) \<in> set es \<and> p name n}"

lemma names_with_simps [simp]:
  "names_with p [] = {}"
  "names_with p ((name, n) # es) = (if p name n then insert name (names_with p es) else names_with p es)"
  "finite (names_with p es)"
proof -
  show "finite (names_with p es)"
    by (rule finite_subset [of _ "fst ` set es"]) (force simp: names_with_def)+
qed (auto simp: names_with_def)

lemma least_name_eq:
  "least_name p best es =
     (if best = None \<and> names_with p es = {} then None else Some (Min (set_option best \<union> names_with p es)))"
proof (induction es arbitrary: best)
  case (Cons e es)
  obtain name n where "e = (name, n)" by (cases e)
  with Cons show ?case by (cases best) (simp_all add: Min_insert_two del: Min_insert)
qed auto

text \<open>
  A folder as the recorder fills it: folders of folders of recordings, none empty, each file
  an \<open>.mp4\<close> or \<open>.jpg\<close> whose name without it has the length of \<open>YYYYMMDD_HHMMSS\<close>.
\<close>

definition hour_ok :: "folder \<Rightarrow> bool" where
  "hour_ok files \<longleftrightarrow> files \<noteq> [] \<and> omap_ok files \<and>
     list_all (\<lambda>(f, n). n = File \<and> fs_extension f \<in> {''.mp4'', ''.jpg''} \<and> length (fs_stem f) = 15) files"

definition date_ok :: "folder \<Rightarrow> bool" where
  "date_ok hours \<longleftrightarrow> hours \<noteq> [] \<and> omap_ok hours \<and> list_all (\<lambda>(h, n). is_dir n \<and> hour_ok (entries_of (Some n))) hours"

definition tree_ok :: "folder \<Rightarrow> bool" where
  "tree_ok root \<longleftrightarrow> omap_ok root \<and> list_all (\<lambda>(d, n). is_dir n \<and> date_ok (entries_of (Some n))) root"

text \<open>A recording: its date folder, its hour folder and its name without extension.\<close>

definition stems :: "folder \<Rightarrow> string set" where
  "stems files = fs_stem ` fst ` set files"

definition recordings :: "folder \<Rightarrow> (string \<times> string \<times> string) set" where
  "recordings root = {(d, h, s). \<exists>hours files. omap_get root d = Some (Dir hours) \<and>
     omap_get hours h = Some (Dir files) \<and> s \<in> stems files}"

lemma is_dirE: "is_dir n \<Longrightarrow> \<exists>d. n = Dir d"
  by (cases n) auto

lemma tree_getD:
  assumes "tree_ok root" "omap_get root d = Some n"
  obtains hours where "n = Dir hours" "date_ok hours"
  using assms by (auto simp: tree_ok_def list_all_iff omap_in_set_iff [symmetric] dest!: is_dirE)

lemma date_getD:
  assumes "date_ok hours" "omap_get hours h = Some n"
  obtains files where "n = Dir files" "hour_ok files"
  using assms by (auto simp: date_ok_def list_all_iff omap_in_set_iff [symmetric] dest!: is_dirE)

lemma hour_getD:
  assumes "hour_ok files" "omap_get files f = Some n"
  shows "n = File" "fs_extension f \<in> {''.mp4'', ''.jpg''}" "length (fs_stem f) = 15"
  using assms by (auto simp: hour_ok_def list_all_iff omap_in_set_iff [symmetric])

text \<open>The least name is the first key of a sorted folder all of whose entries qualify.\<close>

lemma least_name_all:
  assumes "list_all (\<lambda>(name, n). p name n) es"
  shows "least_name p None es = (if es = [] then None else Some (Min (set (omap_keys es))))"
proof -
  have "names_with p es = set (omap_keys es)"
    using assms by (force simp: names_with_def omap_keys_def list_all_iff)
  then show ?thesis by (simp add: least_name_eq omap_keys_def)
qed

lemma oldest_folder_tree: "tree_ok root \<Longrightarrow> oldest_folder root = (if root = [] then None else Some (Min (set (omap_keys root))))"
  unfolding oldest_folder_def by (rule least_name_all) (auto simp: tree_ok_def list_all_iff)

lemma oldest_folder_date: "date_ok hours \<Longrightarrow> oldest_folder hours = Some (Min (set (omap_keys hours)))"
  unfolding oldest_folder_def by (subst least_name_all) (auto simp: date_ok_def list_all_iff)

lemma oldest_media_hour: "hour_ok files \<Longrightarrow> oldest_media files = Some (Min (set (omap_keys files)))"
  unfolding oldest_media_def
  by (subst least_name_all) (auto simp: hour_ok_def list_all_iff is_media_file_def)

lemma stem_ext: "fs_stem f @ fs_extension f = f"
proof -
  have "take (length (fs_stem f)) f = fs_stem f"
  proof (cases "before_last_dot f")
    case (Some s)
    have "suffix (drop 1 (dropWhile (\<lambda>c. c \<noteq> CHR ''.'') (rev f))) (rev f)"
      by (rule suffix_order.trans [OF suffix_drop suffix_dropWhile])
    then have "prefix s f"
      using Some by (auto simp: before_last_dot_def suffix_to_prefix split: if_splits)
    then show ?thesis using Some by (auto simp: fs_stem_def prefix_def)
  qed (simp add: fs_stem_def)
  then show ?thesis unfolding fs_extension_def by (metis append_take_drop_id)
qed

text \<open>The two names of a recording are the ones the code deletes.\<close>

lemma same_stem:
  assumes "hour_ok files" "f \<in> set (omap_keys files)" "g \<in> set (omap_keys files)"
  shows "fs_stem g = fs_stem f \<longleftrightarrow> g = f \<or> g = counterpart f"
proof -
  have get: "\<exists>n. omap_get files x = Some n" if "x \<in> set (omap_keys files)" for x
    using that omap_get_None_iff [of files x] by auto
  note F = hour_getD [OF assms(1)] and ext = stem_ext [of f] stem_ext [of g]
  have ef: "fs_extension f \<in> {''.mp4'', ''.jpg''}" "length (fs_stem f) = 15"
    and eg: "fs_extension g \<in> {''.mp4'', ''.jpg''}" "length (fs_stem g) = 15"
    using get [OF assms(2)] get [OF assms(3)] F by blast+
  show ?thesis
  proof
    assume "fs_stem g = fs_stem f"
    with ext ef(1) eg(1) show "g = f \<or> g = counterpart f" by (auto simp: counterpart_def)
  next
    assume "g = f \<or> g = counterpart f"
    then show "fs_stem g = fs_stem f"
    proof
      assume "g = counterpart f"
      with ext(2) have "fs_stem g @ fs_extension g = fs_stem f @ (if fs_extension f = ''.mp4'' then ''.jpg'' else ''.mp4'')"
        by (simp add: counterpart_def)
      moreover have "length (fs_stem g) = length (fs_stem f)" using ef(2) eg(2) by simp
      ultimately show ?thesis by (metis append_eq_append_conv)
    qed simp
  qed
qed

definition drop_stem :: "string \<Rightarrow> folder \<Rightarrow> folder" where
  "drop_stem s files = filter (\<lambda>(g, _). fs_stem g \<noteq> s) files"

lemma hour_rotation:
  assumes "hour_ok files" "f \<in> set (omap_keys files)"
  shows "\<exists>b. fs_remove (counterpart f) (omap_del f files) = Some (b, drop_stem (fs_stem f) files)"
proof -
  have k: "g \<in> set (omap_keys files)" if "(g, n) \<in> set files" for g n
    using that by (force simp: omap_keys_def)
  have two: "filter (\<lambda>(g, _). g \<noteq> f \<and> g \<noteq> counterpart f) files = drop_stem (fs_stem f) files"
    unfolding drop_stem_def using same_stem [OF assms] k by (intro filter_cong) auto
  show ?thesis
  proof (cases "omap_get (omap_del f files) (counterpart f)")
    case None
    then have "filter (\<lambda>(g, _). g \<noteq> f) files = filter (\<lambda>(g, _). g \<noteq> f \<and> g \<noteq> counterpart f) files"
      using k omap_get_None_iff [of files "counterpart f"] by (intro filter_cong) (auto split: if_splits)
    with None two show ?thesis by (simp add: fs_remove_def omap_del_def) blast
  next
    case (Some n)
    with hour_getD(1) [OF assms(1)] have "n = File" by (auto split: if_splits)
    with Some two show ?thesis by (auto simp: fs_remove_def omap_del_def case_prod_unfold conj_commute)
  qed
qed

lemma least_stem:
  assumes "hour_ok files"
  shows "fs_stem (Min (set (omap_keys files))) = Min (stems files)" "Min (set (omap_keys files)) \<in> set (omap_keys files)"
proof -
  let ?f = "Min (set (omap_keys files))"
  have ne: "set (omap_keys files) \<noteq> {}" using assms by (auto simp: hour_ok_def omap_keys_def)
  then show f: "?f \<in> set (omap_keys files)" by (intro Min_in) auto
  have len: "length (fs_stem g) = 15" if "g \<in> set (omap_keys files)" for g
    using that hour_getD(3) [OF assms] omap_get_None_iff [of files g] by auto
  have st: "stems files = fs_stem ` set (omap_keys files)" by (simp add: stems_def omap_keys_def)
  show "fs_stem ?f = Min (stems files)" unfolding st
  proof (rule Min_eqI [symmetric])
    fix s assume "s \<in> fs_stem ` set (omap_keys files)"
    then obtain g where g: "g \<in> set (omap_keys files)" "s = fs_stem g" by auto
    then have "\<not> g < ?f" by (simp add: not_less)
    then have "\<not> fs_stem g @ fs_extension g < fs_stem ?f @ fs_extension ?f" by (simp only: stem_ext not_False_eq_True)
    then show "fs_stem ?f \<le> s" using len [OF g(1)] len [OF f] by (auto simp: append_less g(2) not_less)
  qed (use f in auto)
qed

lemma drop_stem_ok: "hour_ok files \<Longrightarrow> drop_stem s files \<noteq> [] \<Longrightarrow> hour_ok (drop_stem s files)"
  unfolding hour_ok_def drop_stem_def by (auto simp: omap_filter_ok list_all_iff)

lemma stems_drop [simp]: "stems (drop_stem s files) = stems files - {s}"
proof -
  have "stems (drop_stem s files) = {fs_stem g |g n. (g, n) \<in> set files \<and> fs_stem g \<noteq> s}"
    "stems files = {fs_stem g |g n. (g, n) \<in> set files}"
    by (force simp: stems_def drop_stem_def)+
  then show ?thesis by auto
qed

definition in_hour :: "folder \<Rightarrow> string \<Rightarrow> string \<Rightarrow> string set" where
  "in_hour root d h =
     (case omap_get root d of
        Some (Dir hours) \<Rightarrow> (case omap_get hours h of Some (Dir files) \<Rightarrow> stems files | _ \<Rightarrow> {})
      | _ \<Rightarrow> {})"

lemma recordings_iff: "(d, h, s) \<in> recordings root \<longleftrightarrow> s \<in> in_hour root d h"
  by (auto simp: recordings_def in_hour_def split: option.splits node.splits)

lemma in_hour_drop_empty:
  assumes "omap_get root d = Some (Dir hours)"
  shows "in_hour (drop_empty d h files hours root) d' h' = (if d' = d \<and> h' = h then stems files else in_hour root d' h')"
proof -
  have "omap_get hours h' = None" if "omap_del h hours = []" "h' \<noteq> h"
    using omap_get_del [of h hours h'] that by simp
  then show ?thesis
    using assms by (auto simp: in_hour_def drop_empty_def Let_def stems_def split: option.splits node.splits)
qed

lemma finite_recordings: "finite (recordings root)"
proof (rule finite_subset)
  show "recordings root \<subseteq> (\<Union>(d, n) \<in> set root. \<Union>(h, m) \<in> set (entries_of (Some n)). {d} \<times> {h} \<times> stems (entries_of (Some m)))"
    by (force simp: recordings_def omap_get_def dest!: map_of_SomeD)
qed (auto simp: stems_def)

lemma oldest_path:
  assumes "tree_ok root" "root \<noteq> []"
  obtains d hours h files where "omap_get root d = Some (Dir hours)" "date_ok hours"
    "omap_get hours h = Some (Dir files)" "hour_ok files"
    "d = Min (set (omap_keys root))" "h = Min (set (omap_keys hours))"
    "RotateFiles root = drop_empty d h (drop_stem (Min (stems files)) files) hours root"
proof -
  have key: "\<exists>n. omap_get m (Min (set (omap_keys m))) = Some n" if "m \<noteq> []" for m :: folder
    using that Min_in [of "set (omap_keys m)"] omap_get_None_iff [of m "Min (set (omap_keys m))"]
    by (auto simp: omap_keys_def)
  obtain hours where d: "omap_get root (Min (set (omap_keys root))) = Some (Dir hours)" "date_ok hours"
    using key [OF assms(2)] tree_getD [OF assms(1)] by metis
  then have "hours \<noteq> []" by (simp add: date_ok_def)
  then obtain files where h: "omap_get hours (Min (set (omap_keys hours))) = Some (Dir files)" "hour_ok files"
    using key date_getD [OF d(2)] by metis
  note ls = least_stem [OF h(2)]
  obtain b where "fs_remove (counterpart (Min (set (omap_keys files)))) (omap_del (Min (set (omap_keys files))) files) =
      Some (b, drop_stem (Min (stems files)) files)"
    using hour_rotation [OF h(2) ls(2)] ls(1) by auto
  then have "RotateFiles root = drop_empty (Min (set (omap_keys root))) (Min (set (omap_keys hours)))
      (drop_stem (Min (stems files)) files) hours root"
    using assms d h by (simp add: RotateFiles_def Let_def oldest_folder_tree oldest_folder_date oldest_media_hour)
  with that d h show ?thesis by blast
qed

lemma omap_all_iff: "omap_ok m \<Longrightarrow> list_all (\<lambda>(k, v). P k v) m \<longleftrightarrow> (\<forall>k v. omap_get m k = Some v \<longrightarrow> P k v)"
  by (auto simp: list_all_iff omap_in_set_iff)

lemma omap_all_put: "omap_ok m \<Longrightarrow> list_all (\<lambda>(k, v). P k v) m \<Longrightarrow> P k v \<Longrightarrow> list_all (\<lambda>(k, v). P k v) (omap_put k v m)"
  by (simp add: omap_all_iff)

lemma omap_all_del: "omap_ok m \<Longrightarrow> list_all (\<lambda>(k, v). P k v) m \<Longrightarrow> list_all (\<lambda>(k, v). P k v) (omap_del k m)"
  by (simp add: omap_all_iff)

lemma tree_put: "tree_ok root \<Longrightarrow> date_ok hours \<Longrightarrow> tree_ok (omap_put d (Dir hours) root)"
  by (simp add: tree_ok_def omap_all_put)

lemma tree_del: "tree_ok root \<Longrightarrow> tree_ok (omap_del d root)"
  by (simp add: tree_ok_def omap_all_del)

lemma omap_put_not_Nil [simp]: "omap_put k v m \<noteq> []"
  using omap_get_put [of k v m k] by force

lemma date_put: "date_ok hours \<Longrightarrow> hour_ok files \<Longrightarrow> date_ok (omap_put h (Dir files) hours)"
  by (simp add: date_ok_def omap_all_put)

lemma date_del: "date_ok hours \<Longrightarrow> omap_del h hours \<noteq> [] \<Longrightarrow> date_ok (omap_del h hours)"
  by (simp add: date_ok_def omap_all_del)

lemma drop_empty_tree:
  "tree_ok root \<Longrightarrow> date_ok hours \<Longrightarrow> files = [] \<or> hour_ok files \<Longrightarrow> tree_ok (drop_empty d h files hours root)"
  by (auto simp: drop_empty_def Let_def tree_put tree_del date_put date_del)

lemma rotation:
  assumes "tree_ok root" "root \<noteq> []"
  shows "tree_ok (RotateFiles root)" "recordings (RotateFiles root) = recordings root - {Min (recordings root)}"
    "recordings root \<noteq> {}"
proof -
  obtain d hours h files where p: "omap_get root d = Some (Dir hours)" "date_ok hours"
    "omap_get hours h = Some (Dir files)" "hour_ok files"
    "d = Min (set (omap_keys root))" "h = Min (set (omap_keys hours))"
    "RotateFiles root = drop_empty d h (drop_stem (Min (stems files)) files) hours root"
    using oldest_path [OF assms] by metis
  show "tree_ok (RotateFiles root)"
    unfolding p(7) using assms(1) p(2,4) drop_stem_ok by (intro drop_empty_tree) auto
  have fin: "finite (stems files)" "stems files \<noteq> {}" using p(4) by (auto simp: stems_def hour_ok_def)
  let ?x = "(d, h, Min (stems files))"
  have inh: "in_hour root d h = stems files" using p by (simp add: in_hour_def)
  then have x: "?x \<in> recordings root" using Min_in [OF fin] by (simp add: recordings_iff)
  then show "recordings root \<noteq> {}" by auto
  have "?x \<le> y" if "y \<in> recordings root" for y
  proof -
    obtain d' h' s where y: "y = (d', h', s)" by (cases y)
    with that obtain hours' files' where g: "omap_get root d' = Some (Dir hours')" "omap_get hours' h' = Some (Dir files')" "s \<in> stems files'"
      by (auto simp: recordings_def)
    have "d \<le> d'" using g(1) omap_get_None_iff [of root d'] unfolding p(5) by (intro Min_le) auto
    moreover have "h \<le> h'" if "d' = d"
      using g p(1) that omap_get_None_iff [of hours h'] unfolding p(6) by (intro Min_le) auto
    moreover have "Min (stems files) \<le> s" if "d' = d" "h' = h"
      using g p(1,3) that fin by (intro Min_le) auto
    ultimately show ?thesis unfolding y by (auto simp: less_eq_prod_simp le_less)
  qed
  then have m: "Min (recordings root) = ?x" by (intro Min_eqI finite_recordings x) auto
  show "recordings (RotateFiles root) = recordings root - {Min (recordings root)}"
    unfolding m p(7) using inh
    by (auto simp: recordings_iff in_hour_drop_empty [OF p(1)] split: if_splits)
qed


definition demo_tree :: folder where
  "demo_tree =
     [(''20240229'', Dir [(''23'', Dir [(''20240229_235900.jpg'', File), (''20240229_235900.mp4'', File)])]),
      (''20240301'', Dir [(''00'', Dir [(''20240301_000000.mp4'', File)])])]"

lemma demo_tree_ok: "tree_ok demo_tree" "demo_tree \<noteq> []"
  by code_simp+


lemma no_recordings: "tree_ok root \<Longrightarrow> recordings root = {} \<Longrightarrow> root = []"
  using rotation(3) by blast



text \<open>
  A folder of the record path without hour folders is deleted with everything in it, although
  the log calls it an empty date folder, and an hour folder without recordings likewise.
\<close>

lemma rotation_deletes_other_files:
  "RotateFiles [(''notes'', Dir [(''important.txt'', File)])] = []"
  "RotateFiles [(''a'', Dir [(''b'', Dir [(''important.txt'', File)])])] = [(''a'', Dir [])]"
  by code_simp+

end
