(* ===== verification/Recorder.thy ===== *)
theory Recorder
  imports RecordingFiles
begin

text \<open>
  \<open>RecorderManager\<close> (src/src/recorder/recorder_manager.cpp): the files it opens, writes and
  closes, as a machine over the frames of the camera and the microphone, the packets of the
  encoders and the calls of the on-demand commands. Containers are numbered in the order they
  are allocated; libavformat is the environment, and its mp4 muxer needs a file. The operations are
  composed of the sections that the code has: \<open>ctx_mux\<close> is held while a container is opened
  (\<open>OpenContainer\<close>), written (\<open>WriteIntoFile\<close>) or closed (\<open>CloseContainer\<close>), and nothing is locked between them.
  \<open>rm_step\<close> runs whole operations; \<open>rm_conc\<close> runs the sections of any number of threads in any order. The elapsed time is compared in
  whole microseconds; the code's division by \<open>1e6\<close> in \<open>double\<close> compares the same as long as
  the time is below \<open>2\<^sup>5\<^sup>3\<close> microseconds.
\<close>

datatype record_type = Both | Video | Snapshot

record rm_config =
  rc_type :: record_type
  rc_path :: string
  rc_duration :: int               \<comment> \<open>\<open>file_duration\<close>, seconds\<close>
  rc_auto :: bool                  \<comment> \<open>\<open>auto_start_\<close>\<close>
  rc_video :: bool                 \<comment> \<open>a video recorder was created\<close>
  rc_audio :: bool

record packet_info =
  pk_key :: bool                   \<comment> \<open>\<open>AV_PKT_FLAG_KEY\<close>\<close>
  pk_stream :: nat
  pk_data :: string

text \<open>What the system answers while a file is started.\<close>

record start_env =
  se_space :: bool                 \<comment> \<open>\<open>CheckDriveSpace\<close>\<close>
  se_now :: tm
  se_alloc :: bool
  se_open :: bool

datatype rm_out =
    RequestRotation
  | CreateFolder string
  | AllocContext nat string
  | OpenIo nat
  | CloseIo nat
  | FreeContext nat
  | WriteHeader nat bool           \<comment> \<open>whether it succeeded\<close>
  | WriteFrame nat packet_info
  | WriteTrailer nat
  | StartRecorders
  | StopRecorders
  | MakePreviewImage string
  | EncodeVideo
  | EncodeAudio
  | LengthError                    \<comment> \<open>thrown by \<open>PrefixZero\<close>\<close>

record rm =
  rm_ctx :: "nat option"           \<comment> \<open>\<open>fmt_ctx\<close>\<close>
  rm_header_written :: bool
  rm_is_recording :: bool
  rm_file_number :: int
  rm_base :: "int \<times> int"        \<comment> \<open>seconds and microseconds\<close>
  rm_filepath :: string
  rm_next :: nat

definition init_rm :: rm where
  "init_rm = \<lparr>rm_ctx = None, rm_header_written = False, rm_is_recording = False, rm_file_number = 0,
     rm_base = (0, 0), rm_filepath = [], rm_next = 0\<rparr>"

definition nb_streams :: "rm_config \<Rightarrow> nat" where
  "nb_streams cfg = of_bool (rc_video cfg) + of_bool (rc_audio cfg)"

definition recorders :: "rm_config \<Rightarrow> rm_out \<Rightarrow> rm_out list" where
  "recorders cfg out = (if rc_video cfg \<or> rc_audio cfg then [out] else [])"

text \<open>
  \<open>Start\<close>: the name of the file (without a lock; \<open>False\<close>: \<open>PrefixZero\<close> has thrown), the container
  (under the lock; whether \<open>Start\<close> goes on), the recorders, and the end.
\<close>

definition StartName :: "rm_config \<Rightarrow> start_env \<Rightarrow> rm \<Rightarrow> bool \<times> rm \<times> rm_out list" where
  "StartName cfg env s =
     (let os = (if se_space env then [] else [RequestRotation])
      in case FileInfo (rc_path cfg) ''mp4'' (se_now env) of
           None \<Rightarrow> (False, s, os @ [LengthError])
         | Some f \<Rightarrow> (True, s\<lparr>rm_filepath := GetFullPath f\<rparr>, os @ [CreateFolder (GetFolderPath f)]))"

definition OpenContainer :: "start_env \<Rightarrow> rm \<Rightarrow> bool \<times> rm \<times> rm_out list" where
  "OpenContainer env s =
     (if \<not> se_alloc env then (False, s\<lparr>rm_ctx := None\<rparr>, [])
      else let n = rm_next s; s1 = s\<lparr>rm_next := n + 1\<rparr>
        in if \<not> se_open env then (False, s1\<lparr>rm_ctx := None\<rparr>, [AllocContext n (rm_filepath s), FreeContext n])
           else (True, s1\<lparr>rm_ctx := Some n, rm_header_written := False\<rparr>, [AllocContext n (rm_filepath s), OpenIo n]))"

definition RunRecorders :: "rm_config \<Rightarrow> rm \<Rightarrow> rm \<times> rm_out list" where
  "RunRecorders cfg s = (s, recorders cfg StartRecorders)"

definition StartEnd :: "rm_config \<Rightarrow> rm \<Rightarrow> rm \<times> rm_out list" where
  "StartEnd cfg s =
     (s\<lparr>rm_is_recording := True\<rparr>,
      if rc_type cfg = Video then [] else [MakePreviewImage (ReplaceExtension (rm_filepath s) ''.jpg'')])"

definition RecorderStart :: "rm_config \<Rightarrow> start_env \<Rightarrow> rm \<Rightarrow> rm \<times> rm_out list" where
  "RecorderStart cfg env s =
     (case StartName cfg env s of (named, s1, os1) \<Rightarrow>
        if \<not> named then (s1, os1)
        else (case (if rc_type cfg = Snapshot then (True, s1, []) else OpenContainer env s1) of (go, s2, os2) \<Rightarrow>
          if \<not> go then (s2, os1 @ os2)
          else andthen (andthen (s2, os1 @ os2) (RunRecorders cfg)) (StartEnd cfg)))"

text \<open>\<open>CloseCurrentFile\<close>: the flag and the path, the recorders, and the container (under the lock).\<close>

definition CloseMark :: "rm \<Rightarrow> rm" where
  "CloseMark s = s\<lparr>rm_is_recording := False, rm_filepath := []\<rparr>"

definition CloseContainer :: "rm \<Rightarrow> rm \<times> rm_out list" where
  "CloseContainer s =
     (s\<lparr>rm_ctx := None, rm_header_written := False\<rparr>,
      case rm_ctx s of
        None \<Rightarrow> []
      | Some n \<Rightarrow> (if rm_header_written s then [WriteTrailer n] else []) @ [CloseIo n, FreeContext n])"

definition CloseCurrentFile :: "rm_config \<Rightarrow> rm \<Rightarrow> rm \<times> rm_out list" where
  "CloseCurrentFile cfg s = andthen (CloseMark s, recorders cfg StopRecorders) CloseContainer"

definition RecorderStop :: "rm_config \<Rightarrow> rm \<Rightarrow> rm \<times> rm_out list" where
  "RecorderStop cfg s = andthen (CloseCurrentFile cfg s) (\<lambda>s1. (s1\<lparr>rm_file_number := 0\<rparr>, []))"

definition WriteIntoFile :: "rm_config \<Rightarrow> packet_info \<Rightarrow> bool \<Rightarrow> rm \<Rightarrow> rm \<times> rm_out list" where
  "WriteIntoFile cfg pkt header_ok s =
     (case rm_ctx s of
        None \<Rightarrow> (s, [])
      | Some n \<Rightarrow>
          (let frame = (if pk_stream pkt < nb_streams cfg then [WriteFrame n pkt] else [])
           in if \<not> rm_is_recording s then (s, [])
              else if rm_header_written s then (s, frame)
              else if \<not> pk_key pkt then (s, [])
              else if \<not> header_ok
              then (s\<lparr>rm_ctx := None\<rparr>, [WriteHeader n False, CloseIo n, FreeContext n])
              else (s\<lparr>rm_header_written := True\<rparr>, WriteHeader n True # frame)))"

definition elapsed_us :: "int \<times> int \<Rightarrow> int \<times> int \<Rightarrow> int" where
  "elapsed_us t base = (fst t - fst base) * 1000000 + (snd t - snd base)"

text \<open>The callback of the camera, in four parts.\<close>

definition AutoStart :: "rm_config \<Rightarrow> start_env \<Rightarrow> rm \<Rightarrow> rm \<times> rm_out list" where
  "AutoStart cfg env s = (if rc_auto cfg \<and> \<not> rm_is_recording s then RecorderStart cfg env s else (s, []))"

definition FirstFrame :: "int \<times> int \<Rightarrow> rm \<Rightarrow> rm" where
  "FirstFrame t s = (if rm_file_number s = 0 then s\<lparr>rm_base := t, rm_file_number := 1\<rparr> else s)"

definition NextFile :: "rm_config \<Rightarrow> int \<times> int \<Rightarrow> start_env \<Rightarrow> rm \<Rightarrow> rm \<times> rm_out list" where
  "NextFile cfg t env s =
     (if elapsed_us t (rm_base s) \<ge> rm_file_number s * rc_duration cfg * 1000000
      then andthen (andthen (CloseCurrentFile cfg s) (RecorderStart cfg env))
             (\<lambda>s1. (s1\<lparr>rm_file_number := rm_file_number s1 + 1\<rparr>, []))
      else (s, []))"

definition OnVideoBuffer :: "rm_config \<Rightarrow> int \<times> int \<Rightarrow> start_env \<Rightarrow> start_env \<Rightarrow> rm \<Rightarrow> rm \<times> rm_out list" where
  "OnVideoBuffer cfg t env1 env2 s =
     andthen (AutoStart cfg env1 s) (\<lambda>s1.
       if \<not> rm_is_recording s1 then (s1, [])
       else andthen (NextFile cfg t env2 (FirstFrame t s1)) (\<lambda>s2. (s2, if rc_video cfg then [EncodeVideo] else [])))"

definition OnAudioBuffer :: "rm_config \<Rightarrow> rm \<Rightarrow> rm \<times> rm_out list" where
  "OnAudioBuffer cfg s = (s, if rc_audio cfg \<and> rm_is_recording s then [EncodeAudio] else [])"

datatype rm_event =
    VideoBuffer "int \<times> int" start_env start_env
  | AudioBuffer
  | PacketReady packet_info bool
  | CallStart start_env
  | CallStop

fun rm_step :: "rm_config \<Rightarrow> rm \<Rightarrow> rm_event \<Rightarrow> rm \<times> rm_out list" where
  "rm_step cfg s (VideoBuffer t env1 env2) = OnVideoBuffer cfg t env1 env2 s"
| "rm_step cfg s AudioBuffer = OnAudioBuffer cfg s"
| "rm_step cfg s (PacketReady pkt header_ok) = WriteIntoFile cfg pkt header_ok s"
| "rm_step cfg s (CallStart env) = RecorderStart cfg env s"
| "rm_step cfg s CallStop = RecorderStop cfg s"

section \<open>Threads\<close>

text \<open>
  The sections that the threads of the camera, the commands and the destructor still have to run. No
  lock is held from one section to the next.
\<close>

datatype rm_act =
    AVideo "int \<times> int"            \<comment> \<open>the callback of the camera: start by itself?\<close>
  | ATest "int \<times> int"             \<comment> \<open>recording? and the first frame\<close>
  | ARotate "int \<times> int"
  | AEncode
  | ANumber                        \<comment> \<open>\<open>++file_number_\<close>\<close>
  | AName
  | AOpen
  | ARecorders
  | AEnd
  | AMark
  | AStopRecorders
  | AClose
  | AZero                          \<comment> \<open>\<open>file_number_ = 0\<close>\<close>

text \<open>One section: the state, the outputs, and what the thread runs next (\<open>None\<close>: the exception ends it all).\<close>

fun rm_section :: "rm_config \<Rightarrow> start_env \<Rightarrow> rm_act \<Rightarrow> rm \<Rightarrow> rm \<times> rm_out list \<times> rm_act list option" where
  "rm_section cfg env (AVideo t) s = (s, [], Some (if rc_auto cfg \<and> \<not> rm_is_recording s then [AName, ATest t] else [ATest t]))"
| "rm_section cfg env (ATest t) s = (if \<not> rm_is_recording s then (s, [], Some []) else (FirstFrame t s, [], Some [ARotate t]))"
| "rm_section cfg env (ARotate t) s =
     (s, [], Some ((if elapsed_us t (rm_base s) \<ge> rm_file_number s * rc_duration cfg * 1000000
                    then [AMark, AStopRecorders, AClose, AName, ANumber] else []) @ [AEncode]))"
| "rm_section cfg env AEncode s = (s, if rc_video cfg then [EncodeVideo] else [], Some [])"
| "rm_section cfg env ANumber s = (s\<lparr>rm_file_number := rm_file_number s + 1\<rparr>, [], Some [])"
| "rm_section cfg env AName s =
     (case StartName cfg env s of (named, s1, os) \<Rightarrow>
        (s1, os, if \<not> named then None else Some (if rc_type cfg = Snapshot then [ARecorders, AEnd] else [AOpen])))"
| "rm_section cfg env AOpen s = (case OpenContainer env s of (go, s1, os) \<Rightarrow> (s1, os, Some (if go then [ARecorders, AEnd] else [])))"
| "rm_section cfg env ARecorders s = (case RunRecorders cfg s of (s1, os) \<Rightarrow> (s1, os, Some []))"
| "rm_section cfg env AEnd s = (case StartEnd cfg s of (s1, os) \<Rightarrow> (s1, os, Some []))"
| "rm_section cfg env AMark s = (CloseMark s, [], Some [])"
| "rm_section cfg env AStopRecorders s = (s, recorders cfg StopRecorders, Some [])"
| "rm_section cfg env AClose s = (case CloseContainer s of (s1, os) \<Rightarrow> (s1, os, Some []))"
| "rm_section cfg env AZero s = (s\<lparr>rm_file_number := 0\<rparr>, [], Some [])"

datatype rm_call = VideoCall "int \<times> int" | StartCall | StopCall

fun rm_entry :: "rm_call \<Rightarrow> rm_act list" where
  "rm_entry (VideoCall t) = [AVideo t]"
| "rm_entry StartCall = [AName]"
| "rm_entry StopCall = [AMark, AStopRecorders, AClose, AZero]"

record rm_threads =
  rt_rm :: rm
  rt_todo :: "nat \<Rightarrow> rm_act list"

definition init_threads :: rm_threads where
  "init_threads = \<lparr>rt_rm = init_rm, rt_todo = (\<lambda>_. [])\<rparr>"

text \<open>A thread enters an operation, or runs its next section; packets and audio come from threads of their own.\<close>

datatype conc_event = Enter nat rm_call | Tick nat start_env | Packet packet_info bool | Audio

fun rm_conc :: "rm_config \<Rightarrow> rm_threads \<Rightarrow> conc_event \<Rightarrow> rm_threads \<times> rm_out list" where
  "rm_conc cfg c (Enter i call) = (if rt_todo c i = [] then (c\<lparr>rt_todo := (rt_todo c)(i := rm_entry call)\<rparr>, []) else (c, []))"
| "rm_conc cfg c (Tick i env) =
     (case rt_todo c i of
        [] \<Rightarrow> (c, [])
      | a # rest \<Rightarrow>
          (case rm_section cfg env a (rt_rm c) of (s1, os, next) \<Rightarrow>
             (c\<lparr>rt_rm := s1, rt_todo := (rt_todo c)(i := (case next of None \<Rightarrow> [] | Some as \<Rightarrow> as @ rest))\<rparr>, os)))"
| "rm_conc cfg c (Packet pkt header_ok) =
     (case WriteIntoFile cfg pkt header_ok (rt_rm c) of (s1, os) \<Rightarrow> (c\<lparr>rt_rm := s1\<rparr>, os))"
| "rm_conc cfg c Audio = (case OnAudioBuffer cfg (rt_rm c) of (s1, os) \<Rightarrow> (c\<lparr>rt_rm := s1\<rparr>, os))"

section \<open>The life of a container\<close>

datatype phase = Absent | Allocated | Opened | Headed | Trailed | IoClosed | Freed | Broken

text \<open>What libavformat allows, for container \<open>n\<close>.\<close>

fun advance :: "nat \<Rightarrow> phase \<Rightarrow> rm_out \<Rightarrow> phase" where
  "advance n ph (AllocContext m _) = (if m \<noteq> n then ph else if ph = Absent then Allocated else Broken)"
| "advance n ph (OpenIo m) = (if m \<noteq> n then ph else if ph = Allocated then Opened else Broken)"
| "advance n ph (WriteHeader m ok) = (if m \<noteq> n then ph else if ph = Opened then (if ok then Headed else Opened) else Broken)"
| "advance n ph (WriteFrame m _) = (if m \<noteq> n then ph else if ph = Headed then Headed else Broken)"
| "advance n ph (WriteTrailer m) = (if m \<noteq> n then ph else if ph = Headed then Trailed else Broken)"
| "advance n ph (CloseIo m) = (if m \<noteq> n then ph else if ph \<in> {Opened, Trailed} then IoClosed else Broken)"
| "advance n ph (FreeContext m) = (if m \<noteq> n then ph else if ph \<in> {Allocated, IoClosed} then Freed else Broken)"
| "advance n ph _ = ph"

definition phase_of :: "nat \<Rightarrow> rm_out list \<Rightarrow> phase" where
  "phase_of n os = foldl (advance n) Absent os"

text \<open>The phase that the state of the manager stands for.\<close>

definition expected :: "nat \<Rightarrow> rm \<Rightarrow> phase" where
  "expected n s =
     (if rm_ctx s = Some n then (if rm_header_written s then Headed else Opened)
      else if n < rm_next s then Freed else Absent)"

definition rm_inv :: "rm \<Rightarrow> bool" where
  "rm_inv s \<longleftrightarrow> (\<forall>n. rm_ctx s = Some n \<longrightarrow> n < rm_next s) \<and> (rm_header_written s \<longrightarrow> rm_ctx s \<noteq> None) \<and>
     (rm_ctx s \<noteq> None \<longrightarrow> rm_is_recording s)"

lemmas Start_sections = RecorderStart_def StartName_def RunRecorders_def StartEnd_def
lemmas Close_sections = CloseCurrentFile_def CloseMark_def CloseContainer_def

text \<open>A step of the manager keeps the correspondence, and the invariant.\<close>

definition tracks :: "rm \<Rightarrow> rm \<times> rm_out list \<Rightarrow> bool" where
  "tracks s r \<longleftrightarrow> (rm_inv s \<longrightarrow> rm_inv (fst r) \<and> (\<forall>n. foldl (advance n) (expected n s) (snd r) = expected n (fst r)))"

lemma tracks_andthen: "tracks s r \<Longrightarrow> tracks (fst r) (f (fst r)) \<Longrightarrow> tracks s (andthen r f)"
  by (auto simp: tracks_def)

lemma tracks_quiet:
  "rm_ctx s' = rm_ctx s \<Longrightarrow> rm_next s' = rm_next s \<Longrightarrow> rm_header_written s' = rm_header_written s \<Longrightarrow>
   rm_is_recording s' = rm_is_recording s \<Longrightarrow> \<forall>n ph. foldl (advance n) ph os = ph \<Longrightarrow> tracks s (s', os)"
  by (simp add: tracks_def rm_inv_def expected_def)

lemma recorders_quiet [simp]:
  "foldl (advance n) ph (recorders cfg StartRecorders) = ph"
  "foldl (advance n) ph (recorders cfg StopRecorders) = ph"
  by (simp_all add: recorders_def)

lemma Start_tracks: "rm_ctx s = None \<Longrightarrow> tracks s (RecorderStart cfg env s)"
  by (auto simp: tracks_def Start_sections OpenContainer_def Let_def rm_inv_def expected_def
      split: option.splits prod.splits if_splits)

lemma Close_tracks: "tracks s (CloseCurrentFile cfg s)"
  by (auto simp: tracks_def Close_sections rm_inv_def expected_def split: option.splits)

lemma Close_ctx [simp]: "rm_ctx (fst (CloseCurrentFile cfg s)) = None"
  by (simp add: Close_sections)

lemma Stop_tracks: "tracks s (RecorderStop cfg s)"
  unfolding RecorderStop_def by (intro tracks_andthen Close_tracks tracks_quiet) simp_all

lemma Write_tracks: "tracks s (WriteIntoFile cfg pkt ok s)"
  by (auto simp: tracks_def WriteIntoFile_def Let_def rm_inv_def expected_def split: option.splits)

lemma not_recording_no_ctx: "rm_inv s \<Longrightarrow> \<not> rm_is_recording s \<Longrightarrow> rm_ctx s = None"
  by (auto simp: rm_inv_def)

lemma tracks_inv: "(rm_inv s \<Longrightarrow> tracks s r) \<Longrightarrow> tracks s r"
  by (auto simp: tracks_def)

lemma Auto_tracks: "tracks s (AutoStart cfg env s)"
  by (rule tracks_inv) (simp add: AutoStart_def Start_tracks not_recording_no_ctx tracks_quiet)

lemma First_tracks [simp]: "tracks (FirstFrame t s) r = tracks s r"
  by (simp add: tracks_def rm_inv_def expected_def FirstFrame_def)

lemma Next_tracks: "tracks s (NextFile cfg t env s)"
  unfolding NextFile_def
  by (cases "elapsed_us t (rm_base s) \<ge> rm_file_number s * rc_duration cfg * 1000000")
     (simp_all only: if_True if_False, auto intro!: tracks_andthen Close_tracks Start_tracks tracks_quiet)

lemma Video_tracks: "tracks s (OnVideoBuffer cfg t env1 env2 s)"
  unfolding OnVideoBuffer_def
proof (rule tracks_andthen [OF Auto_tracks])
  let ?s = "fst (AutoStart cfg env1 s)"
  have "tracks ?s (andthen (NextFile cfg t env2 (FirstFrame t ?s)) (\<lambda>s2. (s2, if rc_video cfg then [EncodeVideo] else [])))"
    by (rule tracks_andthen) (use Next_tracks [of "FirstFrame t ?s" cfg t env2] in \<open>auto intro: tracks_quiet\<close>)
  then show "tracks ?s (if \<not> rm_is_recording ?s then (?s, [])
      else andthen (NextFile cfg t env2 (FirstFrame t ?s)) (\<lambda>s2. (s2, if rc_video cfg then [EncodeVideo] else [])))"
    by (simp add: tracks_quiet)
qed

lemma step_tracks: "(\<And>env. e = CallStart env \<Longrightarrow> rm_ctx s = None) \<Longrightarrow> tracks s (rm_step cfg s e)"
  by (cases e) (simp_all add: Video_tracks Start_tracks Stop_tracks Write_tracks, auto intro!: tracks_quiet simp: OnAudioBuffer_def)

text \<open>The command to start a recording only comes while no file is open.\<close>

fun starts_when_closed :: "rm_config \<Rightarrow> rm \<Rightarrow> rm_event list \<Rightarrow> bool" where
  "starts_when_closed cfg s [] = True"
| "starts_when_closed cfg s (e # es) =
     ((case e of CallStart _ \<Rightarrow> rm_ctx s = None | _ \<Rightarrow> True) \<and> starts_when_closed cfg (fst (rm_step cfg s e)) es)"

lemma run_tracks: "starts_when_closed cfg s es \<Longrightarrow> tracks s (run (rm_step cfg) s es)"
proof (induction es arbitrary: s)
  case (Cons e es)
  have "tracks s (rm_step cfg s e)" using Cons.prems by (intro step_tracks) auto
  moreover have "tracks (fst (rm_step cfg s e)) (run (rm_step cfg) (fst (rm_step cfg s e)) es)"
    using Cons by simp
  ultimately show ?case by (auto simp: tracks_def)
qed (simp add: tracks_def)

lemma starts_append: "starts_when_closed cfg s (xs @ ys) \<longleftrightarrow>
    starts_when_closed cfg s xs \<and> starts_when_closed cfg (fst (run (rm_step cfg) s xs)) ys"
  by (induction xs arbitrary: s) auto

subsection \<open>Section by section\<close>

text \<open>
  Between the sections of different threads the invariant above does not hold. What does: a container that
  is not the current one is freed, or \<open>Start\<close> has replaced it while it was open, and then nothing touches it again.
\<close>

definition rm_ok :: "rm \<Rightarrow> bool" where
  "rm_ok s \<longleftrightarrow> (\<forall>n. rm_ctx s = Some n \<longrightarrow> n < rm_next s)"

definition corr :: "nat \<Rightarrow> rm \<Rightarrow> phase \<Rightarrow> bool" where
  "corr n s ph \<longleftrightarrow> ph = expected n s \<or> (rm_ctx s \<noteq> Some n \<and> n < rm_next s \<and> ph \<in> {Opened, Headed})"

definition follows :: "rm \<Rightarrow> rm \<times> rm_out list \<Rightarrow> bool" where
  "follows s r \<longleftrightarrow> rm_ok s \<longrightarrow> rm_ok (fst r) \<and> (\<forall>n ph. corr n s ph \<longrightarrow> corr n (fst r) (foldl (advance n) ph (snd r)))"

definition exactly :: "rm \<Rightarrow> rm \<times> rm_out list \<Rightarrow> bool" where
  "exactly s r \<longleftrightarrow> rm_ok s \<longrightarrow> (\<forall>n. foldl (advance n) (expected n s) (snd r) = expected n (fst r))"

lemma follows_quiet:
  assumes "rm_ctx s' = rm_ctx s" "rm_next s' = rm_next s" "rm_header_written s' = rm_header_written s"
    "\<And>n ph. foldl (advance n) ph os = ph"
  shows "follows s (s', os)" "exactly s (s', os)"
  using assms by (simp_all add: follows_def exactly_def rm_ok_def corr_def expected_def)

lemma Open_follows: "follows s (snd (OpenContainer env s))"
  by (auto simp: follows_def OpenContainer_def rm_ok_def corr_def expected_def Let_def)

lemma Open_exactly: "rm_ctx s = None \<Longrightarrow> exactly s (snd (OpenContainer env s))"
  by (auto simp: exactly_def OpenContainer_def rm_ok_def expected_def Let_def)

lemma CloseContainer_follows: "follows s (CloseContainer s)" "exactly s (CloseContainer s)"
  by (auto simp: follows_def exactly_def CloseContainer_def rm_ok_def corr_def expected_def split: option.splits)

lemma WriteIntoFile_follows: "follows s (WriteIntoFile cfg pkt ok s)" "exactly s (WriteIntoFile cfg pkt ok s)"
  by (auto simp: follows_def exactly_def WriteIntoFile_def rm_ok_def corr_def expected_def Let_def split: option.splits)

definition section_result :: "rm_config \<Rightarrow> start_env \<Rightarrow> rm_act \<Rightarrow> rm \<Rightarrow> rm \<times> rm_out list" where
  "section_result cfg env a s = (case rm_section cfg env a s of (s1, os, _) \<Rightarrow> (s1, os))"

lemma section_quiet:
  assumes "a \<noteq> AOpen" "a \<noteq> AClose"
  shows "follows s (section_result cfg env a s) \<and> exactly s (section_result cfg env a s)"
  using assms
  by (cases a) (auto intro!: follows_quiet simp: section_result_def FirstFrame_def StartName_def RunRecorders_def StartEnd_def
      CloseMark_def recorders_def Let_def split: option.split)

lemma section_follows: "follows s (section_result cfg env a s)"
proof (cases "a = AOpen \<or> a = AClose")
  case True
  then show ?thesis
    using Open_follows [of s env] CloseContainer_follows(1) [of s] by (auto simp: section_result_def split_beta)
qed (use section_quiet in blast)

lemma section_exactly: "(a = AOpen \<Longrightarrow> rm_ctx s = None) \<Longrightarrow> exactly s (section_result cfg env a s)"
proof (cases "a = AOpen \<or> a = AClose")
  case True
  assume "a = AOpen \<Longrightarrow> rm_ctx s = None"
  with True show ?thesis
    using Open_exactly [of s env] CloseContainer_follows(2) [of s] by (auto simp: section_result_def split_beta)
qed (use section_quiet in blast)

text \<open>A step of any thread is a section, a packet, or nothing.\<close>

lemma conc_step:
  "(rt_rm (fst (rm_conc cfg c e)), snd (rm_conc cfg c e)) =
     (case e of
        Tick i env \<Rightarrow> (case rt_todo c i of [] \<Rightarrow> (rt_rm c, []) | a # _ \<Rightarrow> section_result cfg env a (rt_rm c))
      | Packet pkt ok \<Rightarrow> WriteIntoFile cfg pkt ok (rt_rm c)
      | Audio \<Rightarrow> (rt_rm c, snd (OnAudioBuffer cfg (rt_rm c)))
      | Enter _ _ \<Rightarrow> (rt_rm c, []))"
  by (cases e) (auto simp: section_result_def split_beta OnAudioBuffer_def split: list.split)

lemma audio_quiet: "foldl (advance n) ph (snd (OnAudioBuffer cfg s)) = ph"
  by (simp add: OnAudioBuffer_def)

lemma conc_follows: "follows (rt_rm c) (rt_rm (fst (rm_conc cfg c e)), snd (rm_conc cfg c e))"
  unfolding conc_step
  by (auto intro: follows_quiet simp: section_follows WriteIntoFile_follows audio_quiet split: conc_event.split list.split)

text \<open>No section opens a container while another one is open.\<close>

fun opens_over :: "rm_threads \<Rightarrow> conc_event \<Rightarrow> bool" where
  "opens_over c (Tick i env) = (rt_todo c i \<noteq> [] \<and> hd (rt_todo c i) = AOpen \<and> rm_ctx (rt_rm c) \<noteq> None)"
| "opens_over c _ = False"

fun opens_when_closed :: "rm_config \<Rightarrow> rm_threads \<Rightarrow> conc_event list \<Rightarrow> bool" where
  "opens_when_closed cfg c [] = True"
| "opens_when_closed cfg c (e # es) = (\<not> opens_over c e \<and> opens_when_closed cfg (fst (rm_conc cfg c e)) es)"

lemma conc_exactly: "\<not> opens_over c e \<Longrightarrow> exactly (rt_rm c) (rt_rm (fst (rm_conc cfg c e)), snd (rm_conc cfg c e))"
  unfolding conc_step
  by (auto intro: follows_quiet intro!: section_exactly simp: WriteIntoFile_follows audio_quiet split: conc_event.split list.split)

lemma conc_run:
  "rm_ok (rt_rm c) \<Longrightarrow> rm_ok (rt_rm (fst (run (rm_conc cfg) c es))) \<and>
   (corr n (rt_rm c) ph \<longrightarrow> corr n (rt_rm (fst (run (rm_conc cfg) c es))) (foldl (advance n) ph (snd (run (rm_conc cfg) c es)))) \<and>
   (opens_when_closed cfg c es \<longrightarrow>
      foldl (advance n) (expected n (rt_rm c)) (snd (run (rm_conc cfg) c es)) = expected n (rt_rm (fst (run (rm_conc cfg) c es))))"
proof (induction es arbitrary: c ph)
  case (Cons e es)
  let ?c = "fst (rm_conc cfg c e)" and ?os = "snd (rm_conc cfg c e)"
  have ok: "rm_ok (rt_rm ?c)" and co: "corr n (rt_rm c) ph \<Longrightarrow> corr n (rt_rm ?c) (foldl (advance n) ph ?os)"
    using conc_follows [of c cfg e] Cons.prems by (auto simp: follows_def)
  have ex: "\<not> opens_over c e \<Longrightarrow> foldl (advance n) (expected n (rt_rm c)) ?os = expected n (rt_rm ?c)"
    using conc_exactly [of c e cfg] Cons.prems by (auto simp: exactly_def)
  show ?case using Cons.IH [OF ok, of "foldl (advance n) ph ?os"] co ex by (simp del: rm_conc.simps)
qed simp

lemma opens_append: "opens_when_closed cfg c (xs @ ys) \<longleftrightarrow>
    opens_when_closed cfg c xs \<and> opens_when_closed cfg (fst (run (rm_conc cfg) c xs)) ys"
  by (induction xs arbitrary: c) auto

definition StopEvents :: "nat \<Rightarrow> start_env \<Rightarrow> conc_event list" where
  "StopEvents i env = [Enter i StopCall, Tick i env, Tick i env, Tick i env]"

lemma stop_closes:
  assumes "rt_todo c i = []"
  shows "rm_ctx (rt_rm (fst (run (rm_conc cfg) c (StopEvents i env)))) = None"
    "rm_next (rt_rm (fst (run (rm_conc cfg) c (StopEvents i env)))) = rm_next (rt_rm c)"
    "opens_when_closed cfg c (StopEvents i env)"
  using assms by (simp_all add: StopEvents_def CloseMark_def CloseContainer_def)


definition demo_rm_cfg :: rm_config where
  "demo_rm_cfg = \<lparr>rc_type = Both, rc_path = ''/rec'', rc_duration = 60, rc_auto = True, rc_video = True, rc_audio = False\<rparr>"

definition ok_env :: start_env where
  "ok_env = \<lparr>se_space = True, se_now = \<lparr>tm_year = 124, tm_mon = 1, tm_mday = 29, tm_hour = 12, tm_min = 0, tm_sec = 0\<rparr>,
     se_alloc = True, se_open = True\<rparr>"

definition key_packet :: packet_info where
  "key_packet = \<lparr>pk_key = True, pk_stream = 0, pk_data = ''k''\<rparr>"

text \<open>The camera's thread opens a file, a header fails, a stop comes in the middle of the next callback.\<close>

definition recording_run :: "conc_event list" where
  "recording_run = Enter 0 (VideoCall (100, 0)) # replicate 8 (Tick 0 ok_env) @
     [Packet key_packet True, Enter 0 (VideoCall (160, 1)), Tick 0 ok_env, Tick 0 ok_env, Enter 1 StopCall, Tick 0 ok_env,
      Tick 1 ok_env, Tick 0 ok_env, Tick 0 ok_env, Tick 0 ok_env, Tick 1 ok_env, Tick 0 ok_env, Packet key_packet False,
      Tick 1 ok_env, Tick 1 ok_env] @ replicate 6 (Tick 0 ok_env)"


text \<open>
  If the camera is the only one that starts files, as in the background mode, no file is ever opened over
  another one: what its thread still has to run tells what it knows.
\<close>

definition closed_or_recording :: "rm \<Rightarrow> bool" where
  "closed_or_recording s \<longleftrightarrow> rm_is_recording s \<or> rm_ctx s = None"

definition after_start :: "rm_act list \<Rightarrow> bool" where
  "after_start as \<longleftrightarrow> as = [ANumber, AEncode] \<or> (\<exists>t. as = [ATest t])"

fun camera_knows :: "rm \<Rightarrow> rm_act list \<Rightarrow> bool" where
  "camera_knows s (AName # as) = (rm_ctx s = None \<and> after_start as)"
| "camera_knows s (AOpen # as) = (rm_ctx s = None \<and> after_start as)"
| "camera_knows s (ARecorders # as) = (\<exists>bs. as = AEnd # bs \<and> after_start bs)"
| "camera_knows s (AEnd # as) = after_start as"
| "camera_knows s (AMark # as) = (as = [AStopRecorders, AClose, AName, ANumber, AEncode])"
| "camera_knows s (AStopRecorders # as) = (as = [AClose, AName, ANumber, AEncode])"
| "camera_knows s (AClose # as) = (as = [AName, ANumber, AEncode])"
| "camera_knows s as = (closed_or_recording s \<and> (as \<in> {[], [AEncode], [ANumber, AEncode]} \<or> (\<exists>t. as \<in> {[AVideo t], [ATest t], [ARotate t]})))"

definition camera_inv :: "rm_threads \<Rightarrow> bool" where
  "camera_inv c \<longleftrightarrow> (\<forall>i. i \<noteq> 0 \<longrightarrow> rt_todo c i = []) \<and> camera_knows (rt_rm c) (rt_todo c 0)"

lemma after_start_knows: "after_start as \<Longrightarrow> closed_or_recording s \<Longrightarrow> camera_knows s as"
  by (auto simp: after_start_def)

lemma camera_section:
  "camera_knows s (a # as) \<Longrightarrow>
   (case rm_section cfg env a s of (s1, os, next) \<Rightarrow> camera_knows s1 (case next of None \<Rightarrow> [] | Some bs \<Rightarrow> bs @ as))"
proof (cases a)
  case AOpen
  assume "camera_knows s (a # as)"
  then have "rm_ctx s = None" "after_start as" using AOpen by simp_all
  then show ?thesis
    using after_start_knows [of as] by (auto simp: AOpen OpenContainer_def Let_def closed_or_recording_def)
next
  case AEnd
  assume "camera_knows s (a # as)"
  then show ?thesis using AEnd after_start_knows [of as] by (simp add: StartEnd_def closed_or_recording_def)
qed (auto simp: StartName_def RunRecorders_def CloseMark_def CloseContainer_def FirstFrame_def after_start_def
       closed_or_recording_def Let_def split: option.splits)

lemma camera_knows_closed:
  "camera_knows s as \<Longrightarrow> rm_ctx s' = None \<Longrightarrow> camera_knows s' as"
  by (induction s as rule: camera_knows.induct) (auto simp: closed_or_recording_def)

lemma camera_knows_same:
  "rm_ctx s' = rm_ctx s \<Longrightarrow> rm_is_recording s' = rm_is_recording s \<Longrightarrow> camera_knows s' as = camera_knows s as"
  by (induction s as rule: camera_knows.induct) (auto simp: closed_or_recording_def)

fun camera_only :: "conc_event \<Rightarrow> bool" where
  "camera_only (Enter i call) = (i = 0 \<and> (\<exists>t. call = VideoCall t))"
| "camera_only _ = True"

lemma camera_step:
  assumes "camera_inv c" "camera_only e"
  shows "\<not> opens_over c e \<and> camera_inv (fst (rm_conc cfg c e))"
proof (cases e)
  case (Enter i call)
  with assms show ?thesis by (auto simp: camera_inv_def)
next
  case (Tick i env)
  show ?thesis
  proof (cases "rt_todo c i")
    case Nil
    then show ?thesis using assms Tick by simp
  next
    case (Cons a as)
    then have i: "i = 0" using assms(1) by (auto simp: camera_inv_def)
    then have k: "camera_knows (rt_rm c) (a # as)" using Cons assms(1) by (simp add: camera_inv_def)
    obtain s1 os nx where r: "rm_section cfg env a (rt_rm c) = (s1, os, nx)" by (rule prod_cases3)
    let ?todo = "case nx of None \<Rightarrow> [] | Some bs \<Rightarrow> bs @ as"
    have "camera_knows s1 ?todo" using camera_section [OF k, of cfg env] by (simp only: r prod.case)
    moreover have "fst (rm_conc cfg c e) = c\<lparr>rt_rm := s1, rt_todo := (rt_todo c)(i := ?todo)\<rparr>"
      by (simp add: Tick Cons r del: rm_section.simps)
    ultimately have "camera_inv (fst (rm_conc cfg c e))" using assms(1) i by (simp add: camera_inv_def)
    moreover have "\<not> opens_over c e"
    proof (cases "a = AOpen")
      case True
      then show ?thesis using k by (simp add: Tick)
    qed (simp add: Tick Cons)
    ultimately show ?thesis by blast
  qed
next
  case (Packet pkt ok)
  let ?s = "fst (WriteIntoFile cfg pkt ok (rt_rm c))"
  have k: "camera_knows (rt_rm c) (rt_todo c 0)" using assms(1) by (simp add: camera_inv_def)
  have "rm_ctx ?s = None \<or> (rm_ctx ?s = rm_ctx (rt_rm c) \<and> rm_is_recording ?s = rm_is_recording (rt_rm c))"
    by (auto simp: WriteIntoFile_def Let_def split: option.split)
  then have "camera_knows ?s (rt_todo c 0)"
    using camera_knows_closed [OF k] camera_knows_same [THEN iffD2, OF _ _ k] by blast
  moreover have "fst (rm_conc cfg c e) = c\<lparr>rt_rm := ?s\<rparr>" by (simp add: Packet split_beta)
  ultimately show ?thesis using assms(1) by (simp add: Packet camera_inv_def)
next
  case Audio
  with assms show ?thesis by (simp add: camera_inv_def OnAudioBuffer_def)
qed

lemma camera_alone_opens_when_closed:
  "list_all camera_only es \<Longrightarrow> opens_when_closed cfg init_threads es"
proof -
  have "camera_inv c \<Longrightarrow> list_all camera_only es \<Longrightarrow> opens_when_closed cfg c es" for c
    by (induction es arbitrary: c) (simp_all add: camera_step del: rm_conc.simps)
  moreover have "camera_inv init_threads"
    by (simp add: camera_inv_def init_threads_def init_rm_def closed_or_recording_def)
  ultimately show "list_all camera_only es \<Longrightarrow> opens_when_closed cfg init_threads es" by blast
qed

text \<open>
  The destructor stops the recording while the subscription to the camera is still there: a frame that comes
  now finds the manager idle, starts a new file by itself, and nothing closes it any more.
\<close>

lemma frame_during_destruction_opens_a_file:
  "phase_of 1 (snd (run (rm_conc demo_rm_cfg) init_threads
     (Enter 0 (VideoCall (100, 0)) # replicate 8 (Tick 0 ok_env) @ StopEvents 1 ok_env @ Tick 1 ok_env #
      Enter 0 (VideoCall (101, 0)) # replicate 8 (Tick 0 ok_env)))) = Opened"
  by code_simp

text \<open>A thread that is not interrupted runs whole operations.\<close>

lemma Start_uninterrupted:
  assumes "rt_todo c i = AName # rest" "FileInfo (rc_path cfg) ''mp4'' (se_now env) \<noteq> None"
    and "k = (if rc_type cfg = Snapshot then 3 else if se_alloc env \<and> se_open env then 4 else 2)"
  shows "fst (run (rm_conc cfg) c (replicate k (Tick i env))) =
      c\<lparr>rt_rm := fst (RecorderStart cfg env (rt_rm c)), rt_todo := (rt_todo c)(i := rest)\<rparr>"
    "snd (run (rm_conc cfg) c (replicate k (Tick i env))) = snd (RecorderStart cfg env (rt_rm c))"
proof -
  obtain f where "FileInfo (rc_path cfg) ''mp4'' (se_now env) = Some f" using assms(2) by auto
  then have "fst (run (rm_conc cfg) c (replicate k (Tick i env))) =
      c\<lparr>rt_rm := fst (RecorderStart cfg env (rt_rm c)), rt_todo := (rt_todo c)(i := rest)\<rparr> \<and>
    snd (run (rm_conc cfg) c (replicate k (Tick i env))) = snd (RecorderStart cfg env (rt_rm c))"
    using assms(1,3)
    by (cases "rc_type cfg = Snapshot"; cases "se_alloc env"; cases "se_open env")
       (simp_all add: Start_sections OpenContainer_def Let_def run_Cons numeral_eq_Suc)
  then show "fst (run (rm_conc cfg) c (replicate k (Tick i env))) =
      c\<lparr>rt_rm := fst (RecorderStart cfg env (rt_rm c)), rt_todo := (rt_todo c)(i := rest)\<rparr>"
    "snd (run (rm_conc cfg) c (replicate k (Tick i env))) = snd (RecorderStart cfg env (rt_rm c))" by blast+
qed

lemma Close_uninterrupted:
  assumes "rt_todo c i = AMark # AStopRecorders # AClose # rest"
  shows "fst (run (rm_conc cfg) c (replicate 3 (Tick i env))) =
      c\<lparr>rt_rm := fst (CloseCurrentFile cfg (rt_rm c)), rt_todo := (rt_todo c)(i := rest)\<rparr>"
    "snd (run (rm_conc cfg) c (replicate 3 (Tick i env))) = snd (CloseCurrentFile cfg (rt_rm c))"
  using assms by (simp_all add: Close_sections run_Cons numeral_eq_Suc)

section \<open>Starting twice\<close>

fun mentions :: "nat \<Rightarrow> rm_out \<Rightarrow> bool" where
  "mentions n (AllocContext m _) = (m = n)"
| "mentions n (OpenIo m) = (m = n)"
| "mentions n (WriteHeader m _) = (m = n)"
| "mentions n (WriteFrame m _) = (m = n)"
| "mentions n (WriteTrailer m) = (m = n)"
| "mentions n (CloseIo m) = (m = n)"
| "mentions n (FreeContext m) = (m = n)"
| "mentions n _ = False"

definition orphaned :: "nat \<Rightarrow> rm \<Rightarrow> bool" where
  "orphaned n s \<longleftrightarrow> rm_ctx s \<noteq> Some n \<and> n < rm_next s"

definition leaves_alone :: "nat \<Rightarrow> rm \<times> rm_out list \<Rightarrow> bool" where
  "leaves_alone n r \<longleftrightarrow> orphaned n (fst r) \<and> list_all (\<lambda>x. \<not> mentions n x) (snd r)"

lemma leaves_andthen: "leaves_alone n r \<Longrightarrow> leaves_alone n (f (fst r)) \<Longrightarrow> leaves_alone n (andthen r f)"
  by (auto simp: leaves_alone_def)

lemma Start_leaves: "orphaned n s \<Longrightarrow> leaves_alone n (RecorderStart cfg env s)"
  by (auto simp: leaves_alone_def orphaned_def Start_sections OpenContainer_def recorders_def Let_def
      split: option.splits prod.splits if_splits)

lemma Close_leaves: "orphaned n s \<Longrightarrow> leaves_alone n (CloseCurrentFile cfg s)"
  by (auto simp: leaves_alone_def orphaned_def Close_sections recorders_def split: option.splits)

lemma leaves_orphaned: "leaves_alone n r \<Longrightarrow> orphaned n (fst r)"
  by (simp add: leaves_alone_def)

lemma leaves_quiet: "orphaned n s' \<Longrightarrow> list_all (\<lambda>x. \<not> mentions n x) os \<Longrightarrow> leaves_alone n (s', os)"
  by (simp add: leaves_alone_def)

lemma First_orphaned [simp]: "orphaned n (FirstFrame t s) = orphaned n s"
  by (simp add: orphaned_def FirstFrame_def)

lemma Next_leaves:
  assumes "orphaned n s"
  shows "leaves_alone n (NextFile cfg t env s)"
proof -
  have c: "leaves_alone n (andthen (CloseCurrentFile cfg s) (RecorderStart cfg env))"
    by (intro leaves_andthen Close_leaves Start_leaves leaves_orphaned assms)
  then have "leaves_alone n (andthen (andthen (CloseCurrentFile cfg s) (RecorderStart cfg env))
      (\<lambda>s1. (s1\<lparr>rm_file_number := rm_file_number s1 + 1\<rparr>, [])))"
    using leaves_orphaned [OF c] by (intro leaves_andthen [OF c] leaves_quiet) (auto simp: orphaned_def)
  then show ?thesis using assms by (simp only: NextFile_def) (auto simp: leaves_quiet)
qed

lemma Video_leaves:
  assumes "orphaned n s"
  shows "leaves_alone n (OnVideoBuffer cfg t env1 env2 s)"
  unfolding OnVideoBuffer_def
proof (rule leaves_andthen)
  show a: "leaves_alone n (AutoStart cfg env1 s)"
    using assms by (simp add: AutoStart_def Start_leaves leaves_quiet)
  let ?s = "fst (AutoStart cfg env1 s)"
  have nx: "leaves_alone n (NextFile cfg t env2 (FirstFrame t ?s))"
    using leaves_orphaned [OF a] by (intro Next_leaves) simp
  then have "leaves_alone n (andthen (NextFile cfg t env2 (FirstFrame t ?s)) (\<lambda>s2. (s2, if rc_video cfg then [EncodeVideo] else [])))"
    using leaves_orphaned [OF nx] by (intro leaves_andthen leaves_quiet) auto
  then show "leaves_alone n (if \<not> rm_is_recording ?s then (?s, [])
      else andthen (NextFile cfg t env2 (FirstFrame t ?s)) (\<lambda>s2. (s2, if rc_video cfg then [EncodeVideo] else [])))"
    using leaves_orphaned [OF a] by (simp add: leaves_quiet)
qed

lemma step_leaves: "orphaned n s \<Longrightarrow> leaves_alone n (rm_step cfg s e)"
proof (cases e)
  case CallStop
  assume o: "orphaned n s"
  have "leaves_alone n (RecorderStop cfg s)" unfolding RecorderStop_def
    using leaves_orphaned [OF Close_leaves [OF o]]
    by (intro leaves_andthen Close_leaves o leaves_quiet) (auto simp: orphaned_def)
  with CallStop show ?thesis by simp
next
  case (PacketReady pkt ok)
  then show "orphaned n s \<Longrightarrow> ?thesis"
    by (auto simp: WriteIntoFile_def Let_def leaves_alone_def orphaned_def split: option.splits)
qed (auto simp: Video_leaves Start_leaves OnAudioBuffer_def intro: leaves_quiet)

interpretation orphan: guarded_machine "rm_step cfg" "orphaned n" "\<lambda>x. \<not> mentions n x"
  using step_leaves by unfold_locales (simp_all add: leaves_alone_def)

text \<open>
  \<open>Start\<close> does not look whether a file is open, and the command to start a recording calls
  it unconditionally. Starting a second time forgets the container of the first: whatever
  happens afterwards, stop and destruction included, it gets no trailer and is never closed.
\<close>

theorem second_start_orphans_container:
  assumes "rm_inv s" "rm_ctx s = Some n" "rc_type cfg \<noteq> Snapshot"
    and "FileInfo (rc_path cfg) ''mp4'' (se_now env) \<noteq> None"
  shows "rm_ctx (fst (rm_step cfg s (CallStart env))) \<noteq> Some n \<and>
    list_all (\<lambda>x. \<not> mentions n x) (snd (run (rm_step cfg) s (CallStart env # es)))"
proof -
  have "n < rm_next s" using assms(1,2) by (simp add: rm_inv_def)
  with assms have o: "orphaned n (fst (RecorderStart cfg env s))" "list_all (\<lambda>x. \<not> mentions n x) (snd (RecorderStart cfg env s))"
    by (auto simp: orphaned_def Start_sections OpenContainer_def Let_def recorders_def split: if_splits prod.splits)
  from orphan.good_run [OF o(1), of cfg es] o show ?thesis by (simp add: orphaned_def)
qed

theorem second_start_orphans_container_witness:
  "list_all (\<lambda>x. \<not> mentions 0 x)
     (snd (run (rm_step demo_rm_cfg) (fst (rm_step demo_rm_cfg init_rm (CallStart ok_env))) [CallStart ok_env, CallStop]))"
proof -
  let ?s = "fst (rm_step demo_rm_cfg init_rm (CallStart ok_env))"
  have s: "rm_ctx ?s = Some 0" "\<not> rm_header_written ?s" "rm_is_recording ?s" "rm_next ?s = 1" by code_simp+
  have "rm_inv ?s" unfolding rm_inv_def s(1,4) using s(2,3) by simp
  moreover have "rc_type demo_rm_cfg \<noteq> Snapshot" "FileInfo (rc_path demo_rm_cfg) ''mp4'' (se_now ok_env) \<noteq> None"
    by code_simp+
  ultimately show ?thesis
    using second_start_orphans_container [of ?s 0 demo_rm_cfg ok_env "[CallStop]"] s(1) by blast
qed

section \<open>The period of a file\<close>

definition good_env :: "rm_config \<Rightarrow> start_env \<Rightarrow> bool" where
  "good_env cfg env \<longleftrightarrow> se_alloc env \<and> se_open env \<and> FileInfo (rc_path cfg) ''mp4'' (se_now env) \<noteq> None"

fun new_file :: "rm_out \<Rightarrow> bool" where
  "new_file (CreateFolder _) = True"
| "new_file _ = False"

lemma Start_good:
  assumes "good_env cfg env"
  shows "rm_is_recording (fst (RecorderStart cfg env s))" "rm_file_number (fst (RecorderStart cfg env s)) = rm_file_number s"
    "rm_base (fst (RecorderStart cfg env s)) = rm_base s" "count_out new_file (snd (RecorderStart cfg env s)) = 1"
  using assms
  by (auto simp: good_env_def Start_sections OpenContainer_def Let_def recorders_def)

lemma Close_simps [simp]:
  "rm_file_number (fst (CloseCurrentFile cfg s)) = rm_file_number s" "rm_base (fst (CloseCurrentFile cfg s)) = rm_base s"
  "count_out new_file (snd (CloseCurrentFile cfg s)) = 0"
  by (auto simp: Close_sections recorders_def split: option.splits)

lemma frame_step:
  assumes "rm_is_recording s" "0 < rm_file_number s" "good_env cfg env2"
  shows "rm_is_recording (fst (OnVideoBuffer cfg t env1 env2 s))" "rm_base (fst (OnVideoBuffer cfg t env1 env2 s)) = rm_base s"
    "rm_file_number (fst (OnVideoBuffer cfg t env1 env2 s)) = rm_file_number s +
       of_bool (elapsed_us t (rm_base s) \<ge> rm_file_number s * rc_duration cfg * 1000000)"
    "count_out new_file (snd (OnVideoBuffer cfg t env1 env2 s)) =
       of_bool (elapsed_us t (rm_base s) \<ge> rm_file_number s * rc_duration cfg * 1000000)"
  using assms
  by (simp_all add: OnVideoBuffer_def AutoStart_def FirstFrame_def NextFile_def Start_good)

lemma first_frame:
  assumes "rc_auto cfg" "good_env cfg env1" "0 < rc_duration cfg"
  shows "rm_is_recording (fst (OnVideoBuffer cfg t env1 env2 init_rm))" "rm_base (fst (OnVideoBuffer cfg t env1 env2 init_rm)) = t"
    "rm_file_number (fst (OnVideoBuffer cfg t env1 env2 init_rm)) = 1"
    "count_out new_file (snd (OnVideoBuffer cfg t env1 env2 init_rm)) = 1"
  using assms Start_good [of cfg env1 init_rm]
  by (simp_all add: OnVideoBuffer_def AutoStart_def FirstFrame_def NextFile_def init_rm_def elapsed_us_def)

lemma div_between:
  fixes e d q :: int
  assumes "q * d \<le> e" "e < (q + 1) * d"
  shows "e div d = q"
  by (rule int_div_pos_eq [of e d q "e - q * d"]) (use assms in \<open>simp_all add: algebra_simps\<close>)

lemma next_number:
  fixes e e' d k :: int
  assumes "0 < d" "0 \<le> e" "k = e div d + 1" "e \<le> e'" "e' < e + d"
  shows "k + of_bool (e' \<ge> k * d) = e' div d + 1"
proof -
  define r where "r = e mod d"
  have r: "0 \<le> r" "r < d" using assms(1) by (simp_all add: r_def)
  have "(k - 1) * d = e - r" by (simp add: assms(3) r_def minus_mod_eq_div_mult)
  moreover have "(k + 1) * d = (k - 1) * d + 2 * d" by (simp add: algebra_simps)
  ultimately have lo: "(k - 1) * d \<le> e" and hi: "e' < (k + 1) * d" using r assms(4,5) by linarith+
  show ?thesis
  proof (cases "e' \<ge> k * d")
    case True
    then have "e' div d = k" using hi by (intro div_between) (simp_all add: mult.commute)
    with True show ?thesis by simp
  next
    case False
    then have "e' div d = k - 1" using lo assms(4) by (intro div_between) (simp_all add: mult.commute)
    with False show ?thesis by simp
  qed
qed

text \<open>Frames at the given times, with an environment in which files open.\<close>

definition frames_at :: "start_env \<Rightarrow> (int \<times> int) list \<Rightarrow> rm_event list" where
  "frames_at env ts = map (\<lambda>t. VideoBuffer t env env) ts"

text \<open>Time does not go back, and two frames are less than \<open>d\<close> microseconds apart.\<close>

fun steady :: "int \<Rightarrow> (int \<times> int) list \<Rightarrow> bool" where
  "steady d (a # b # ts) = (0 \<le> elapsed_us b a \<and> elapsed_us b a < d \<and> steady d (b # ts))"
| "steady d _ = True"

lemma elapsed_add: "elapsed_us c a = elapsed_us b a + elapsed_us c b"
  by (simp add: elapsed_us_def algebra_simps)

lemma period_run:
  assumes "good_env cfg env" "0 < rc_duration cfg"
  shows "rm_is_recording s \<Longrightarrow> 0 \<le> elapsed_us a (rm_base s) \<Longrightarrow>
    rm_file_number s = elapsed_us a (rm_base s) div (rc_duration cfg * 1000000) + 1 \<Longrightarrow>
    steady (rc_duration cfg * 1000000) (a # ts) \<Longrightarrow>
    rm_file_number (fst (run (rm_step cfg) s (frames_at env ts))) =
      elapsed_us (last (a # ts)) (rm_base s) div (rc_duration cfg * 1000000) + 1 \<and>
    int (count_out new_file (snd (run (rm_step cfg) s (frames_at env ts)))) =
      rm_file_number (fst (run (rm_step cfg) s (frames_at env ts))) - rm_file_number s"
proof (induction ts arbitrary: s a)
  case (Cons t ts)
  let ?d = "rc_duration cfg * 1000000" and ?s = "fst (OnVideoBuffer cfg t env env s)"
  have t: "0 \<le> elapsed_us t a" "elapsed_us t a < ?d" "steady ?d (t # ts)" using Cons.prems(4) by simp_all
  have d: "0 < ?d" using assms(2) by simp
  have pos: "0 < rm_file_number s"
    unfolding Cons.prems(3) using pos_imp_zdiv_nonneg_iff [OF d, of "elapsed_us a (rm_base s)"] Cons.prems(2) by linarith
  note f = frame_step [OF Cons.prems(1) pos assms(1), of t env]
  have e: "elapsed_us t (rm_base s) = elapsed_us a (rm_base s) + elapsed_us t a" by (rule elapsed_add)
  have n: "rm_file_number ?s = elapsed_us t (rm_base s) div ?d + 1"
    using next_number [OF d Cons.prems(2,3), of "elapsed_us t (rm_base s)"] t(1,2) e f(3) by (simp add: mult.assoc)
  have "0 \<le> elapsed_us t (rm_base ?s)" using e t(1) Cons.prems(2) f(2) by simp
  from Cons.IH [OF f(1) this _ t(3)] n f show ?case by (simp add: frames_at_def)
qed (simp add: frames_at_def)

text \<open>
  in the background mode, with files that can be opened and frames that come steadily, a
  file covers one period: after any number of frames the file being written is the one of the
  current period (the time since the first frame, divided by the duration), and exactly one file
  was started for every period so far.
\<close>

theorem file_covers_its_period:
  assumes "rc_auto cfg" "good_env cfg env" "0 < rc_duration cfg"
    and "steady (rc_duration cfg * 1000000) (t # ts)"
  shows "rm_file_number (fst (run (rm_step cfg) init_rm (frames_at env (t # ts)))) =
      elapsed_us (last (t # ts)) t div (rc_duration cfg * 1000000) + 1 \<and>
    int (count_out new_file (snd (run (rm_step cfg) init_rm (frames_at env (t # ts))))) =
      elapsed_us (last (t # ts)) t div (rc_duration cfg * 1000000) + 1"
proof -
  note f = first_frame [OF assms(1,2,3), of t env]
  have z: "elapsed_us t t = 0" by (simp add: elapsed_us_def)
  from period_run [OF assms(2,3) f(1), of t ts] f assms(3,4) z show ?thesis
    by (simp add: frames_at_def)
qed

theorem file_covers_its_period_witness:
  "rm_file_number (fst (run (rm_step demo_rm_cfg) init_rm (frames_at ok_env [(100, 0), (140, 0), (180, 0), (220, 5)]))) = 3"
proof -
  have "good_env demo_rm_cfg ok_env" unfolding good_env_def by code_simp
  moreover have "rc_auto demo_rm_cfg" "rc_duration demo_rm_cfg = 60" by (simp_all add: demo_rm_cfg_def)
  ultimately show ?thesis
    using file_covers_its_period [of demo_rm_cfg ok_env "(100, 0)" "[(140, 0), (180, 0), (220, 5)]"]
    by (simp add: elapsed_us_def)
qed

section \<open>A session\<close>

text \<open>The containers opened, and the times of the frames, in a list of outputs and of events.\<close>

fun opened :: "rm_out list \<Rightarrow> (nat \<times> string) list" where
  "opened (AllocContext n p # os) = (n, p) # opened os"
| "opened (_ # os) = opened os"
| "opened [] = []"

lemma opened_append [simp]: "opened (xs @ ys) = opened xs @ opened ys"
  by (induction xs rule: opened.induct) auto

lemma opened_recorders [simp]: "opened (recorders cfg StartRecorders) = []" "opened (recorders cfg StopRecorders) = []"
  by (simp_all add: recorders_def)

fun frame_times :: "rm_event list \<Rightarrow> (int \<times> int) list" where
  "frame_times (VideoBuffer t _ _ # es) = t # frame_times es"
| "frame_times (_ # es) = frame_times es"
| "frame_times [] = []"

text \<open>Frames, audio and packets; when a frame starts another file, it can be opened.\<close>

fun in_session :: "rm_config \<Rightarrow> rm_event \<Rightarrow> bool" where
  "in_session cfg (VideoBuffer t env1 env2) = good_env cfg env2"
| "in_session cfg AudioBuffer = True"
| "in_session cfg (PacketReady pkt ok) = True"
| "in_session cfg _ = False"

definition period_us :: "rm_config \<Rightarrow> int" where
  "period_us cfg = rc_duration cfg * 1000000"

text \<open>The number of the file fits the time of the last frame.\<close>

definition numbered :: "rm_config \<Rightarrow> (int \<times> int) option \<Rightarrow> rm \<Rightarrow> bool" where
  "numbered cfg p s \<longleftrightarrow> rm_is_recording s \<and>
     (case p of None \<Rightarrow> rm_file_number s = 0
      | Some a \<Rightarrow> 0 \<le> elapsed_us a (rm_base s) \<and> rm_file_number s = elapsed_us a (rm_base s) div period_us cfg + 1)"

definition files_follow :: "rm \<Rightarrow> rm \<times> rm_out list \<Rightarrow> bool" where
  "files_follow s r \<longleftrightarrow>
     rm_filepath (fst r) = (if opened (snd r) = [] then rm_filepath s else snd (last (opened (snd r)))) \<and>
     map fst (opened (snd r)) = [rm_next s..<rm_next (fst r)] \<and> rm_next s \<le> rm_next (fst r) \<and>
     int (length (opened (snd r))) = max 1 (rm_file_number (fst r)) - max 1 (rm_file_number s)"

lemma files_follow_trans:
  assumes "files_follow s (s1, os1)" "files_follow s1 (s2, os2)"
  shows "files_follow s (s2, os1 @ os2)"
proof -
  have "[rm_next s..<rm_next s1] @ [rm_next s1..<rm_next s2] = [rm_next s..<rm_next s2]"
    using assms upt_add_eq_append [of "rm_next s" "rm_next s1" "rm_next s2 - rm_next s1"] by (simp add: files_follow_def)
  then show ?thesis using assms by (auto simp: files_follow_def)
qed

lemma Start_opens:
  assumes "good_env cfg env" "rc_type cfg \<noteq> Snapshot"
  shows "opened (snd (RecorderStart cfg env s)) = [(rm_next s, rm_filepath (fst (RecorderStart cfg env s)))]"
    "rm_next (fst (RecorderStart cfg env s)) = rm_next s + 1"
    "FileInfo (rc_path cfg) ''mp4'' (se_now env) = Some f \<Longrightarrow> rm_filepath (fst (RecorderStart cfg env s)) = GetFullPath f"
  using assms by (auto simp: good_env_def Start_sections OpenContainer_def Let_def)

lemma Close_opens [simp]:
  "opened (snd (CloseCurrentFile cfg s)) = []" "rm_next (fst (CloseCurrentFile cfg s)) = rm_next s"
  by (simp_all add: Close_sections split: option.split)

lemma Next_follows:
  assumes "good_env cfg env" "rc_type cfg \<noteq> Snapshot" "0 < rm_file_number s" "rm_is_recording s"
  shows "files_follow s (NextFile cfg t env s)" "rm_is_recording (fst (NextFile cfg t env s))"
    "rm_base (fst (NextFile cfg t env s)) = rm_base s"
    "rm_file_number (fst (NextFile cfg t env s)) = rm_file_number s + of_bool (elapsed_us t (rm_base s) \<ge> rm_file_number s * rc_duration cfg * 1000000)"
  using assms Start_good [OF assms(1), of "fst (CloseCurrentFile cfg s)"] Start_opens(1,2) [OF assms(1,2), of "fst (CloseCurrentFile cfg s)"]
  by (simp_all add: NextFile_def files_follow_def)

lemma frame_in_session:
  assumes "rc_type cfg \<noteq> Snapshot" "0 < rc_duration cfg" "good_env cfg env2" "numbered cfg p s"
    and "steady (period_us cfg) (case p of None \<Rightarrow> [t] | Some a \<Rightarrow> [a, t])"
  shows "numbered cfg (Some t) (fst (OnVideoBuffer cfg t env1 env2 s)) \<and> files_follow s (OnVideoBuffer cfg t env1 env2 s) \<and>
    rm_base (fst (OnVideoBuffer cfg t env1 env2 s)) = (case p of None \<Rightarrow> t | Some _ \<Rightarrow> rm_base s)"
proof -
  let ?s = "FirstFrame t s"
  have d: "0 < period_us cfg" using assms(2) by (simp add: period_us_def)
  have rec: "rm_is_recording s" using assms(4) by (simp add: numbered_def)
  have z: "elapsed_us t t = 0" by (simp add: elapsed_us_def)
  have pos: "0 \<le> elapsed_us a b \<Longrightarrow> 0 \<le> elapsed_us a b div period_us cfg" for a b
    using pos_imp_zdiv_nonneg_iff [OF d] by simp
  have num: "p = Some a \<Longrightarrow> 0 < rm_file_number s" for a
    using assms(4) pos [of a "rm_base s"] by (simp add: numbered_def)
  have first: "rm_is_recording ?s" "rm_filepath ?s = rm_filepath s" "rm_next ?s = rm_next s"
    "0 < rm_file_number ?s" "max 1 (rm_file_number ?s) = max 1 (rm_file_number s)"
    "rm_base ?s = (case p of None \<Rightarrow> t | Some _ \<Rightarrow> rm_base s)"
    using assms(4) num rec by (cases p; simp add: FirstFrame_def numbered_def max_def)+
  have n: "rm_file_number ?s + of_bool (elapsed_us t (rm_base ?s) \<ge> rm_file_number ?s * rc_duration cfg * 1000000) =
      elapsed_us t (rm_base ?s) div period_us cfg + 1 \<and> 0 \<le> elapsed_us t (rm_base ?s)"
  proof (cases p)
    case None
    then show ?thesis using assms(2,4) z d by (simp add: numbered_def FirstFrame_def period_us_def)
  next
    case (Some a)
    have s: "?s = s" and b: "0 \<le> elapsed_us a (rm_base s)" "rm_file_number s = elapsed_us a (rm_base s) div period_us cfg + 1"
      using assms(4) pos [of a "rm_base s"] by (auto simp: Some numbered_def FirstFrame_def)
    have t: "0 \<le> elapsed_us t a" "elapsed_us t a < period_us cfg" using assms(5) by (simp_all add: Some)
    have e: "elapsed_us t (rm_base s) = elapsed_us a (rm_base s) + elapsed_us t a" by (rule elapsed_add)
    have "rm_file_number s + of_bool (elapsed_us t (rm_base s) \<ge> rm_file_number s * period_us cfg) =
        elapsed_us t (rm_base s) div period_us cfg + 1"
      by (rule next_number [OF d b]) (use e t in simp_all)
    then show ?thesis unfolding s using e b(1) t(1) by (simp add: period_us_def mult.assoc)
  qed
  note x = Next_follows [OF assms(3,1) first(4,1), of t]
  have "OnVideoBuffer cfg t env1 env2 s = andthen (NextFile cfg t env2 ?s) (\<lambda>s2. (s2, if rc_video cfg then [EncodeVideo] else []))"
    using rec by (simp add: OnVideoBuffer_def AutoStart_def andthen_def split_beta)
  then show ?thesis
    using x n first by (auto simp: numbered_def files_follow_def)
qed

lemma packet_follows:
  "files_follow s (WriteIntoFile cfg pkt ok s)" "rm_base (fst (WriteIntoFile cfg pkt ok s)) = rm_base s"
  "numbered cfg' p s \<Longrightarrow> numbered cfg' p (fst (WriteIntoFile cfg pkt ok s))"
  by (auto simp: WriteIntoFile_def files_follow_def numbered_def Let_def split: option.splits)

lemma session_run:
  assumes "rc_type cfg \<noteq> Snapshot" "0 < rc_duration cfg"
  shows "list_all (in_session cfg) es \<Longrightarrow> numbered cfg p s \<Longrightarrow>
    steady (period_us cfg) ((case p of None \<Rightarrow> [] | Some a \<Rightarrow> [a]) @ frame_times es) \<Longrightarrow>
    numbered cfg (if frame_times es = [] then p else Some (last (frame_times es))) (fst (run (rm_step cfg) s es)) \<and>
    files_follow s (run (rm_step cfg) s es) \<and>
    rm_base (fst (run (rm_step cfg) s es)) = (if frame_times es \<noteq> [] \<and> p = None then hd (frame_times es) else rm_base s)"
proof (induction es arbitrary: s p)
  case Nil
  then show ?case by (simp add: files_follow_def)
next
  case (Cons e es)
  let ?s = "fst (rm_step cfg s e)"
  obtain p' where p': "numbered cfg p' ?s" "files_follow s (rm_step cfg s e)"
      "steady (period_us cfg) ((case p' of None \<Rightarrow> [] | Some a \<Rightarrow> [a]) @ frame_times es)"
      "(if frame_times (e # es) = [] then p else Some (last (frame_times (e # es)))) = (if frame_times es = [] then p' else Some (last (frame_times es)))"
      "(if frame_times (e # es) \<noteq> [] \<and> p = None then hd (frame_times (e # es)) else rm_base s) =
       (if frame_times es \<noteq> [] \<and> p' = None then hd (frame_times es) else rm_base ?s)"
  proof (cases "\<exists>t env1 env2. e = VideoBuffer t env1 env2")
    case True
    then obtain t env1 env2 where e: "e = VideoBuffer t env1 env2" by blast
    have "good_env cfg env2" using Cons.prems(1) by (simp add: e)
    moreover have "steady (period_us cfg) (case p of None \<Rightarrow> [t] | Some a \<Rightarrow> [a, t])"
      using Cons.prems(3) by (cases p) (simp_all add: e)
    ultimately have *: "numbered cfg (Some t) ?s \<and> files_follow s (rm_step cfg s e) \<and> rm_base ?s = (case p of None \<Rightarrow> t | Some _ \<Rightarrow> rm_base s)"
      using frame_in_session [OF assms _ Cons.prems(2)] by (simp add: e)
    have "steady (period_us cfg) (t # frame_times es)" using Cons.prems(3) by (cases p) (simp_all add: e)
    with * show ?thesis by (intro that [of "Some t"]) (auto simp: e split: option.splits)
  next
    case False
    have "e = AudioBuffer \<or> (\<exists>pkt ok. e = PacketReady pkt ok)" using False Cons.prems(1) by (cases e) auto
    then show ?thesis
    proof
      assume e: "e = AudioBuffer"
      show ?thesis
        by (rule that [of p]) (use Cons.prems in \<open>simp_all add: e OnAudioBuffer_def files_follow_def\<close>)
    next
      assume "\<exists>pkt ok. e = PacketReady pkt ok"
      then obtain pkt ok where e: "e = PacketReady pkt ok" by blast
      show ?thesis
        by (rule that [of p]) (use Cons.prems packet_follows in \<open>simp_all add: e\<close>)
    qed
  qed
  have "list_all (in_session cfg) es" using Cons.prems(1) by simp
  note ih = Cons.IH [OF this p'(1,3)]
  have "files_follow s (run (rm_step cfg) s (e # es))"
    using files_follow_trans [of s ?s "snd (rm_step cfg s e)" "fst (run (rm_step cfg) ?s es)" "snd (run (rm_step cfg) ?s es)"] p'(2) ih
    by (simp add: files_follow_def run_Cons)
  then show ?case using ih p'(4,5) by (simp only: run_Cons)
qed

end
