(* ===== verification/MediaQuery.thy ===== *)
theory MediaQuery
  imports RecordingFiles
begin

text \<open>
  The queries over recorded files (src/src/recorder/media_query.cpp): the base64 encoder of the
  thumbnails, and the searches for the latest complete file and for older files. A file system
  is a tree with modification times; a path is the list of its components.
\<close>

section \<open>Base64\<close>

definition base64_chars :: string where
  "base64_chars = ''ABCDEFGHIJKLMNOPQRSTUVWXYZabcdefghijklmnopqrstuvwxyz0123456789+/''"

text \<open>
  \<open>val\<close> is a 32-bit \<open>int\<close>: shifting it left drops bits (C++20), and \<open>>>\<close> copies its sign.
\<close>

definition sextet :: "32 word \<Rightarrow> nat \<Rightarrow> char" where
  "sextet v n = base64_chars ! unat (and (signed_drop_bit n v) 0x3F)"

text \<open>The inner loop: it pushes a character as long as \<open>valb \<ge> 0\<close>.\<close>

function push_sextets :: "32 word \<Rightarrow> int \<Rightarrow> string \<Rightarrow> int \<times> string" where
  "push_sextets v valb out =
     (if valb \<ge> 0 then push_sextets v (valb - 6) (out @ [sextet v (nat valb)]) else (valb, out))"
  by pat_completeness auto
termination
  by (relation "measure (\<lambda>(v, valb, out). nat (valb + 6))") auto

declare push_sextets.simps [simp del]

fun encode_bytes :: "string \<Rightarrow> 32 word \<Rightarrow> int \<Rightarrow> string \<Rightarrow> 32 word \<times> int \<times> string" where
  "encode_bytes [] v valb out = (v, valb, out)"
| "encode_bytes (c # cs) v valb out =
     (let v1 = push_bit 8 v + of_nat (of_char c)
      in case push_sextets v1 (valb + 8) out of (valb1, out1) \<Rightarrow> encode_bytes cs v1 valb1 out1)"

definition pad_four :: "string \<Rightarrow> string" where
  "pad_four out = out @ replicate ((4 - length out mod 4) mod 4) (CHR ''='')"

definition ToBase64 :: "string \<Rightarrow> string" where
  "ToBase64 s =
     pad_four
       (case encode_bytes s 0 (-6) [] of (v, valb, out) \<Rightarrow>
          if valb > -6 then out @ [sextet (push_bit 8 v) (nat (valb + 8))] else out)"

text \<open>The standard (RFC 4648): groups of three bytes, each a number of 24 bits in four digits.\<close>

definition digit64 :: "nat \<Rightarrow> char" where
  "digit64 n = base64_chars ! (n mod 64)"

fun base64 :: "string \<Rightarrow> string" where
  "base64 [] = []"
| "base64 [a] = [digit64 (of_char a * 16 div 64), digit64 (of_char a * 16), CHR ''='', CHR ''='']"
| "base64 [a, b] =
     (let n = of_char a * 256 + of_char b
      in [digit64 (n * 4 div 64 div 64), digit64 (n * 4 div 64), digit64 (n * 4), CHR ''=''])"
| "base64 (a # b # c # s) =
     (let n = (of_char a * 256 + of_char b) * 256 + of_char c
      in digit64 (n div 64 div 64 div 64) # digit64 (n div 64 div 64) # digit64 (n div 64) # digit64 n # base64 s)"

lemma mask6: "(0x3F :: 32 word) = mask 6"
  by (simp add: mask_eq_exp_minus_1)

lemma sextet_digit: "n \<le> 6 \<Longrightarrow> sextet v n = digit64 (unat v div 2 ^ n)"
proof -
  assume n: "n \<le> 6"
  have "and (signed_drop_bit n v) 0x3F = take_bit 6 (drop_bit n v)"
  proof (rule bit_eqI)
    fix i assume "possible_bit TYPE(32 word) i"
    then show "bit (and (signed_drop_bit n v) 0x3F) i = bit (take_bit 6 (drop_bit n v)) i"
      using n by (auto simp: bit_simps bit_take_bit_iff mask6 bit_mask_iff)
  qed
  also have "unat \<dots> = unat v div 2 ^ n mod 64"
    by (simp add: unsigned_take_bit_eq unat_drop_bit_eq) (simp add: take_bit_eq_mod drop_bit_eq_div)
  finally show ?thesis by (simp only: sextet_def digit64_def)
qed

lemma digit64_mod: "n \<le> 6 \<Longrightarrow> digit64 (x mod 2 ^ 32 div 2 ^ n) = digit64 (x div 2 ^ n)"
proof -
  assume "n \<le> 6"
  then have "take_bit 6 (drop_bit n (take_bit 32 x)) = take_bit 6 (drop_bit n x)"
    by (simp add: drop_bit_take_bit min_absorb1)
  then have "x mod 2 ^ 32 div 2 ^ n mod 64 = x div 2 ^ n mod 64"
    by (simp add: take_bit_eq_mod drop_bit_eq_div)
  then show ?thesis by (simp only: digit64_def)
qed

definition shifted :: "32 word \<Rightarrow> char \<Rightarrow> 32 word" where
  "shifted v c = push_bit 8 v + of_nat (of_char c)"

lemma len32: "LENGTH(32) = 32"
  by simp

lemma unat_shifted: "unat (shifted v c) = (unat v * 256 + of_char c) mod 2 ^ 32"
proof -
  have "shifted v c = of_nat (unat v * 256 + of_char c)"
    by (simp add: shifted_def push_bit_eq_mult)
  then show ?thesis by (simp only: unat_of_nat take_bit_eq_mod len32)
qed

lemma sextet_shifted:
  "n \<le> 6 \<Longrightarrow> sextet (shifted v c) n = digit64 ((unat v * 256 + of_char c) div 2 ^ n)"
  by (simp only: sextet_digit digit64_mod unat_shifted)

lemma push_one: "push_sextets v 2 out = (-4, out @ [sextet v 2])"
  "push_sextets v 4 out = (-2, out @ [sextet v 4])"
  "push_sextets v 6 out = (-6, out @ [sextet v 6, sextet v 0])"
  by (simp_all add: push_sextets.simps)

lemma encode_one: "encode_bytes (c # cs) v valb out =
    (case push_sextets (shifted v c) (valb + 8) out of (valb1, out1) \<Rightarrow> encode_bytes cs (shifted v c) valb1 out1)"
  by (simp add: shifted_def Let_def)

lemma char_byte: "of_char c < (256 :: nat)"
  by (cases c) simp

lemma digit64_low:
  assumes "x mod 256 = y mod (256 :: nat)" "n \<le> 6"
  shows "digit64 ((x * 256 + b) div 2 ^ n) = digit64 ((y * 256 + b) div 2 ^ n)"
proof -
  have "take_bit 16 (u * 256 + b) = take_bit 16 (u mod 256 * 256 + b)" for u :: nat
  proof -
    have "u * 256 + b = u div 256 * 65536 + (u mod 256 * 256 + b)"
      using div_mult_mod_eq [of u 256] by linarith
    then have "(u * 256 + b) mod 65536 = (u mod 256 * 256 + b) mod 65536"
      by (simp only: mod_mult_self3)
    then show ?thesis by (simp add: take_bit_eq_mod)
  qed
  then have "take_bit 16 (x * 256 + b) = take_bit 16 (y * 256 + b)"
    using assms(1) by metis
  then have "take_bit 6 (drop_bit n (take_bit 16 (x * 256 + b))) = take_bit 6 (drop_bit n (take_bit 16 (y * 256 + b)))"
    by simp
  with assms(2) have "take_bit 6 (drop_bit n (x * 256 + b)) = take_bit 6 (drop_bit n (y * 256 + b))"
    by (simp add: drop_bit_take_bit min_absorb1)
  then have "(x * 256 + b) div 2 ^ n mod 64 = (y * 256 + b) div 2 ^ n mod 64"
    by (simp add: take_bit_eq_mod drop_bit_eq_div)
  then show ?thesis by (simp only: digit64_def)
qed

lemma shifted_low: "unat (shifted v c) mod 256 = of_char c"
proof -
  have "unat (shifted v c) mod 256 = (unat v * 256 + of_char c) mod 256"
    by (simp add: unat_shifted mod_mod_cancel)
  then show ?thesis using char_byte [of c] by simp
qed

lemma push_zero: "push_bit 8 v = shifted v (CHR 0x00)"
  by (simp add: shifted_def)

lemma sextet_first: "sextet (shifted v a) 2 = digit64 (of_char a div 4)"
proof -
  have "(unat v * 256 + of_char a) div 4 = unat v * 64 + of_char a div 4"
    by linarith
  then show ?thesis using sextet_shifted [of 2 v a] by (simp add: digit64_def)
qed

lemma sextet_second:
  "n \<le> 6 \<Longrightarrow> sextet (shifted (shifted v a) b) n = digit64 ((of_char a * 256 + of_char b) div 2 ^ n)"
  using digit64_low [of "unat (shifted v a)" "of_char a" n "of_char b"] char_byte [of a]
  by (simp add: sextet_shifted shifted_low)

lemma sextet_third:
  "n \<le> 6 \<Longrightarrow> sextet (shifted (shifted (shifted v a) b) c) n =
     digit64 (((of_char a * 256 + of_char b) * 256 + of_char c) div 2 ^ n)"
  using digit64_low [of "of_char b" "of_char a * 256 + of_char b" n "of_char c"] char_byte [of b]
  by (simp add: sextet_second)

lemma encode_three:
  "encode_bytes (a # b # c # s) v (-6) out =
     (let n = (of_char a * 256 + of_char b) * 256 + of_char c
      in encode_bytes s (shifted (shifted (shifted v a) b) c) (-6)
           (out @ [digit64 (of_char a div 4), digit64 ((of_char a * 256 + of_char b) div 2 ^ 4),
                   digit64 (n div 2 ^ 6), digit64 (n div 2 ^ 0)]))"
  by (simp add: encode_one push_one sextet_first sextet_second [of _ v a b] sextet_third [of _ v a b c] Let_def
      del: encode_bytes.simps(2))

lemma drop_byte: "y < 256 \<Longrightarrow> (x * 256 + y) div 16 div 64 = x div (4 :: nat)"
  using div_mult2_eq [of "x * 256 + y" 256 4] by (simp add: div_mult2_eq [symmetric])

lemma drop_two_bytes:
  "z < 256 \<Longrightarrow> ((x * 256 + y) * 256 + z) div 64 div 64 = (x * 256 + y) div (16 :: nat)"
  using div_mult2_eq [of "(x * 256 + y) * 256 + z" 256 16] by (simp add: div_mult2_eq [symmetric])

lemma replicate_two: "replicate 2 x = [x, x]"
  by (simp add: numeral_2_eq_2)

lemma pad_four_base64:
  "length out mod 4 = 0 \<Longrightarrow>
   pad_four (case encode_bytes s v (-6) out of (v, valb, out1) \<Rightarrow>
      if valb > -6 then out1 @ [sextet (push_bit 8 v) (nat (valb + 8))] else out1) = out @ base64 s"
proof (induction s arbitrary: v out rule: base64.induct)
  case 1
  then show ?case by (simp add: pad_four_def)
next
  case (2 a)
  have "(2 + length out) mod 4 = 2" "digit64 (of_char a * 256 div 2 ^ 4) = digit64 (of_char a * 16)"
    "digit64 (of_char a * 16 div 64) = digit64 (of_char a div 4)"
    using 2 by (presburger, simp_all add: digit64_def mult.commute)
  then show ?case
    by (simp add: encode_one push_one sextet_first push_zero sextet_second pad_four_def replicate_two del: encode_bytes.simps(2))
next
  case (3 a b)
  have "(3 + length out) mod 4 = 3"
    using 3 by presburger
  moreover have "(of_char a * 256 + of_char b) div 16 div 64 = of_char a div (4 :: nat)"
    using char_byte [of b] by (rule drop_byte)
  ultimately show ?case
    by (simp add: mult.commute encode_one push_one sextet_first push_zero sextet_second [of _ v a b] sextet_third [of _ v a b] pad_four_def Let_def del: encode_bytes.simps(2))
next
  case (4 a b c s)
  show ?case
    unfolding base64.simps(4) Let_def drop_two_bytes [OF char_byte] drop_byte [OF char_byte]
    by (simp add: encode_three Let_def 4 del: encode_bytes.simps(2))
qed

text \<open>
  C28: the base64 encoder is right. For every byte string, the loop that shifts bytes through a
  32-bit accumulator and emits six bits at a time, although it overflows after four bytes,
  produces exactly the encoding of RFC 4648, padding included.
\<close>

theorem base64_is_standard: "ToBase64 s = base64 s"
  using pad_four_base64 [of "[]" s 0] by (simp add: ToBase64_def)

section \<open>The recorded files\<close>

text \<open>Files and folders with their modification time; an absolute path is the list of its components.\<close>

datatype entry = Plain int | Folder int "(string \<times> entry) list"

type_synonym path = "string list"

fun last_write_time :: "entry \<Rightarrow> int" where
  "last_write_time (Plain t) = t"
| "last_write_time (Folder t es) = t"

fun lookup_path :: "entry \<Rightarrow> path \<Rightarrow> entry option" where
  "lookup_path e [] = Some e"
| "lookup_path (Plain t) (n # p) = None"
| "lookup_path (Folder t es) (n # p) = (case omap_get es n of None \<Rightarrow> None | Some e \<Rightarrow> lookup_path e p)"

fun is_folder :: "entry option \<Rightarrow> bool" where
  "is_folder (Some (Folder t es)) = True"
| "is_folder _ = False"

fun children :: "entry option \<Rightarrow> (string \<times> entry) list" where
  "children (Some (Folder t es)) = es"
| "children _ = []"

text \<open>\<open>path / name\<close> and \<open>filename()\<close>; joining the empty name leads to the same folder.\<close>

definition join :: "path \<Rightarrow> string \<Rightarrow> path" where
  "join p n = (if n = [] then p else p @ [n])"

definition filename :: "path \<Rightarrow> string" where
  "filename p = (if p = [] then [] else last p)"

type_synonym timed = "int \<times> path"

fun media_entry :: "path \<Rightarrow> string \<Rightarrow> string \<times> entry \<Rightarrow> timed option" where
  "media_entry p ext (n, Plain t) = (if fs_extension n = ext then Some (t, p @ [n]) else None)"
| "media_entry p ext (n, Folder t es) = None"

definition GetFiles :: "entry \<Rightarrow> path \<Rightarrow> string \<Rightarrow> timed list" where
  "GetFiles fs p ext =
     (if \<not> is_folder (lookup_path fs p) then []
      else List.map_filter (media_entry p ext) (children (lookup_path fs p)))"

text \<open>\<open>std::sort(..., std::greater<>())\<close>: newest first, by path among equals.\<close>

definition newest_first :: "timed list \<Rightarrow> timed list" where
  "newest_first files = rev (sort files)"

definition all_digits :: "nat \<Rightarrow> string \<Rightarrow> bool" where
  "all_digits n s \<longleftrightarrow> length s = n \<and> list_all is_digit s"

text \<open>The loops over a folder that keep the greatest folder name; \<open>[]\<close> when there is none.\<close>

fun greatest :: "(string \<Rightarrow> bool) \<Rightarrow> string \<Rightarrow> (string \<times> entry) list \<Rightarrow> string" where
  "greatest p best [] = best"
| "greatest p best ((n, Plain t) # es) = greatest p best es"
| "greatest p best ((n, Folder t d) # es) = greatest p (if p n \<and> best < n then n else best) es"

definition FindLatestSubDir :: "entry \<Rightarrow> path \<Rightarrow> string" where
  "FindLatestSubDir fs p =
     greatest (\<lambda>n. all_digits 8 n \<or> all_digits 2 n) [] (children (lookup_path fs p))"

definition find_prev_hour :: "entry \<Rightarrow> path \<Rightarrow> string \<Rightarrow> string" where
  "find_prev_hour fs date_path cur = greatest (\<lambda>n. n < cur) [] (children (lookup_path fs date_path))"

section \<open>The day before\<close>

text \<open>
  \<open>std::get_time\<close>, \<open>mktime\<close> and \<open>std::put_time\<close> for the dates of the Gregorian calendar of
  the years 1001 to 9999. What they make of a name that is no such date is the parameter
  \<open>other\<close>: after a failed \<open>get_time\<close> the fields of \<open>tm\<close> are not specified.
\<close>

definition leap :: "nat \<Rightarrow> bool" where
  "leap y \<longleftrightarrow> 4 dvd y \<and> (\<not> 100 dvd y \<or> 400 dvd y)"

definition days_in_month :: "nat \<Rightarrow> nat \<Rightarrow> nat" where
  "days_in_month y m = (if m = 2 then if leap y then 29 else 28 else if m \<in> {4, 6, 9, 11} then 30 else 31)"

definition parse_date :: "string \<Rightarrow> (nat \<times> nat \<times> nat) option" where
  "parse_date s =
     (let y = digits_value (take 4 s); m = digits_value (take 2 (drop 4 s)); d = digits_value (drop 6 s)
      in if all_digits 8 s \<and> 1000 < y \<and> 1 \<le> m \<and> m \<le> 12 \<and> 1 \<le> d \<and> d \<le> days_in_month y m
         then Some (y, m, d) else None)"

fun date_name :: "nat \<times> nat \<times> nat \<Rightarrow> string" where
  "date_name (y, m, d) = padded 4 y @ padded 2 m @ padded 2 d"

fun day_before :: "nat \<times> nat \<times> nat \<Rightarrow> nat \<times> nat \<times> nat" where
  "day_before (y, m, d) =
     (if 1 < d then (y, m, d - 1)
      else if 1 < m then (y, m - 1, days_in_month y (m - 1))
      else (y - 1, 12, 31))"

definition GetPreviousDate :: "(string \<Rightarrow> string) \<Rightarrow> string \<Rightarrow> string" where
  "GetPreviousDate other s = (case parse_date s of Some ymd \<Rightarrow> date_name (day_before ymd) | None \<Rightarrow> other s)"

section \<open>The searches\<close>

definition FindLatestCompleteFile :: "(string \<Rightarrow> string) \<Rightarrow> entry \<Rightarrow> path \<Rightarrow> string \<Rightarrow> path option" where
  "FindLatestCompleteFile other fs base_dir extension =
     (let latestDateDir = FindLatestSubDir fs base_dir
      in if latestDateDir = []
         then (case newest_first (GetFiles fs base_dir extension) of [] \<Rightarrow> None | f # _ \<Rightarrow> Some (snd f))
         else let datePath = join base_dir latestDateDir;
                  latestHourDir = FindLatestSubDir fs datePath
              in if latestHourDir = [] then None
                 else let files = GetFiles fs (join datePath latestHourDir) extension;
                          prevHourDir = find_prev_hour fs datePath latestHourDir;
                          files1 = (if length files < 2 \<and> prevHourDir \<noteq> []
                                    then files @ GetFiles fs (join datePath prevHourDir) extension else files);
                          prevDatePath = join base_dir (GetPreviousDate other latestDateDir);
                          files2 = (if length files1 < 2
                                    then files1 @ GetFiles fs (join prevDatePath (FindLatestSubDir fs prevDatePath)) extension
                                    else files1)
                      in (case newest_first files2 of _ # f # _ \<Rightarrow> Some (snd f) | _ \<Rightarrow> None))"

text \<open>The end of the body of both search loops: the hour folder to look into next.\<close>

definition prev_folder :: "(string \<Rightarrow> string) \<Rightarrow> entry \<Rightarrow> path \<Rightarrow> path \<Rightarrow> string \<Rightarrow> (path \<times> path) option" where
  "prev_folder other fs root_path date_path hour =
     (let prev_hour = find_prev_hour fs date_path hour
      in if prev_hour \<noteq> [] then Some (date_path, join date_path prev_hour)
         else let date_path1 = join root_path (GetPreviousDate other (filename date_path))
              in if lookup_path fs date_path1 = None then None
                 else let latest_hour = FindLatestSubDir fs date_path1
                      in if latest_hour = [] then None else Some (date_path1, join date_path1 latest_hour))"

text \<open>The loop over sorted files that collects older ones; the flag says that it returned early.\<close>

fun take_older :: "nat \<Rightarrow> int \<Rightarrow> timed list \<Rightarrow> path list \<Rightarrow> path list \<times> bool" where
  "take_older limit ft [] result = (result, False)"
| "take_older limit ft ((t, p) # files) result =
     (if t < ft
      then if length (result @ [p]) = limit then (result @ [p], True) else take_older limit ft files (result @ [p])
      else take_older limit ft files result)"

fun older_loop :: "(string \<Rightarrow> string) \<Rightarrow> entry \<Rightarrow> nat \<Rightarrow> int \<Rightarrow> string \<Rightarrow> path \<Rightarrow> nat \<Rightarrow>
    path \<Rightarrow> path \<Rightarrow> path list \<Rightarrow> path list option" where
  "older_loop other fs limit ft ext root_path 0 date_path hour_path result = None"
| "older_loop other fs limit ft ext root_path (Suc fuel) date_path hour_path result =
     (if length result < limit
      then case take_older limit ft (newest_first (GetFiles fs hour_path ext)) result of
             (r, True) \<Rightarrow> Some r
           | (r, False) \<Rightarrow>
               (case prev_folder other fs root_path date_path (filename hour_path) of
                  None \<Rightarrow> Some r
                | Some (d, h) \<Rightarrow> older_loop other fs limit ft ext root_path fuel d h r)
      else Some result)"

text \<open>\<open>request_num\<close> is an \<open>int\<close> that is cast to \<open>size_t\<close>.\<close>

definition FindOlderFiles :: "(string \<Rightarrow> string) \<Rightarrow> nat \<Rightarrow> entry \<Rightarrow> path \<Rightarrow> path \<Rightarrow> int \<Rightarrow> path list option" where
  "FindOlderFiles other fuel fs base_dir file_path request_num =
     (case lookup_path fs file_path of
        None \<Rightarrow> Some []
      | Some e \<Rightarrow>
          (let ft = last_write_time e; ext = fs_extension (filename file_path);
               limit = nat (request_num mod 2 ^ 64)
           in if butlast file_path = base_dir
              then Some (fst (take_older limit ft (newest_first (GetFiles fs base_dir ext)) []))
              else let hour_path = butlast file_path; date_path = butlast hour_path
                   in older_loop other fs limit ft ext (butlast date_path) fuel date_path hour_path []))"

definition first_before :: "int \<Rightarrow> timed list \<Rightarrow> path option" where
  "first_before time_limit files = map_option snd (find (\<lambda>(t, p). t < time_limit) files)"

fun datetime_loop :: "(string \<Rightarrow> string) \<Rightarrow> entry \<Rightarrow> int \<Rightarrow> nat \<Rightarrow> path \<Rightarrow> path option" where
  "datetime_loop other fs time_limit 0 hour_path = None"
| "datetime_loop other fs time_limit (Suc n) hour_path =
     (case first_before time_limit (newest_first (GetFiles fs hour_path ''.mp4'')) of
        Some p \<Rightarrow> Some p
      | None \<Rightarrow>
          (let date_path = butlast hour_path
           in case prev_folder other fs (butlast date_path) date_path (filename hour_path) of
                None \<Rightarrow> None
              | Some (d, h) \<Rightarrow> datetime_loop other fs time_limit n h))"

text \<open>\<open>parse_datetime\<close> stands for \<open>ParseDatetime\<close>, which depends on the time zone of the device.\<close>

definition FindFilesFromDatetime ::
  "(string \<Rightarrow> string) \<Rightarrow> (string \<Rightarrow> int) \<Rightarrow> entry \<Rightarrow> path \<Rightarrow> string \<Rightarrow> path option" where
  "FindFilesFromDatetime other parse_datetime fs root basename =
     (if length basename < 15 then None
      else let date = take 8 basename; hour = take 2 (drop 9 basename);
               is_nested = list_ex (\<lambda>(n, e). is_folder (Some e) \<and> all_digits 8 n) (children (lookup_path fs root));
               time_limit = parse_datetime basename
           in if \<not> is_nested then first_before time_limit (newest_first (GetFiles fs root ''.mp4''))
              else datetime_loop other fs time_limit 10 (join (join root date) hour))"

section \<open>The day before is the day before\<close>

lemma padded_value:
  "length ds = k \<Longrightarrow> 0 < k \<Longrightarrow> list_all is_digit ds \<Longrightarrow> padded k (digits_value ds) = ds \<and> digits_value ds < 10 ^ k"
proof (induction ds arbitrary: k rule: rev_induct)
  case (snoc c ds)
  have "c \<in> set ''0123456789''" using snoc.prems(3) by (auto simp only: is_digit_def list_all_iff set_append set_simps)
  then obtain i where c: "c = ''0123456789'' ! i" "i < 10"
    unfolding in_set_conv_nth by auto
  have v: "digits_value (ds @ [c]) = 10 * digits_value ds + i"
    using nth_digit [OF c(2)] c(1) by (simp add: digits_value_def)
  show ?case
  proof (cases "ds = []")
    case True
    with snoc.prems c v show ?thesis by (auto simp: digits_value_def padded_def to_digits.simps)
  next
    case False
    then have k: "k = Suc (length ds)" "0 < length ds" using snoc.prems(1) by auto
    have ih: "padded (length ds) (digits_value ds) = ds" "digits_value ds < 10 ^ length ds"
      using snoc.IH [OF refl k(2)] snoc.prems(3) by auto
    have lt: "10 * digits_value ds + i < 10 ^ Suc (length ds)" using ih(2) c(2) by simp
    have "(10 * digits_value ds + i) div 10 = digits_value ds" "(10 * digits_value ds + i) mod 10 = i"
      using c(2) by presburger+
    with padded_Suc [OF lt k(2)] ih(1) v k(1) lt c(1) show ?thesis by simp
  qed
qed simp

lemma take_take_drop: "take a s @ take b (drop a s) @ drop (a + b) s = s"
  by (metis add.commute append_take_drop_id drop_drop)

lemma parse_date_name:
  assumes "parse_date s = Some ymd"
  shows "s = date_name ymd" "fst ymd < 10 ^ 4" "fst (snd ymd) < 10 ^ 2" "snd (snd ymd) < 10 ^ 2"
proof -
  have d: "all_digits 8 s" "ymd = (digits_value (take 4 s), digits_value (take 2 (drop 4 s)), digits_value (drop 6 s))"
    using assms by (auto simp: parse_date_def Let_def split: if_splits)
  have l: "list_all is_digit (take n s)" "list_all is_digit (take m (drop n s))" "list_all is_digit (drop n s)" for n m
    using d(1) by (auto simp: all_digits_def list_all_iff dest: in_set_takeD in_set_dropD)
  have len: "length (take 4 s) = 4" "length (take 2 (drop 4 s)) = 2" "length (drop 6 s) = 2"
    using d(1) by (auto simp: all_digits_def)
  note v = padded_value [OF len(1) _ l(1)] padded_value [OF len(2) _ l(2)] padded_value [OF len(3) _ l(3)]
  have "take 4 s @ take 2 (drop 4 s) @ drop 6 s = s"
    using take_take_drop [of 4 s 2] by simp
  with v d(2) show "s = date_name ymd" "fst ymd < 10 ^ 4" "fst (snd ymd) < 10 ^ 2" "snd (snd ymd) < 10 ^ 2"
    by auto
qed

definition valid_date :: "nat \<times> nat \<times> nat \<Rightarrow> bool" where
  "valid_date ymd =
     (case ymd of (y, m, d) \<Rightarrow> 1 \<le> m \<and> m \<le> 12 \<and> 1 \<le> d \<and> d \<le> days_in_month y m)"

lemma days_bound: "28 \<le> days_in_month y m" "days_in_month y m \<le> 31"
  by (auto simp: days_in_month_def)

lemma day_before_valid:
  assumes "valid_date (y, m, d)" "0 < y"
  shows "valid_date (day_before (y, m, d)) \<and> day_before (y, m, d) < (y, m, d)"
proof -
  have "1 \<le> days_in_month y (m - 1)" "days_in_month (y - 1) 12 = 31"
    using days_bound(1) [of y "m - 1"] by (linarith, simp add: days_in_month_def)
  with assms show ?thesis by (auto simp: valid_date_def)
qed

lemma day_before_greatest:
  assumes "valid_date (y, m, d)" "valid_date (y', m', d')" "(y', m', d') < (y, m, d)"
  shows "(y', m', d') \<le> day_before (y, m, d)"
proof -
  have b: "1 \<le> m'" "m' \<le> 12" "1 \<le> d'" "d' \<le> days_in_month y' m'" "d' \<le> 31"
    using assms(2) days_bound(2) [of y' m'] by (auto simp: valid_date_def)
  from assms(3) consider "y' < y" | "y' = y" "m' < m" | "y' = y" "m' = m" "d' < d"
    by (cases "y' < y"; cases "m' < m") auto
  then show ?thesis
  proof cases
    case 1
    then show ?thesis using b by auto
  next
    case 2
    then show ?thesis using b by (cases "m' = m - 1") auto
  next
    case 3
    then show ?thesis using b by auto
  qed
qed

lemma date_name_less:
  assumes "fst a < 10 ^ 4" "fst (snd a) < 10 ^ 2" "snd (snd a) < 10 ^ 2"
    "fst b < 10 ^ 4" "fst (snd b) < 10 ^ 2" "snd (snd b) < 10 ^ 2"
  shows "date_name a < date_name b \<longleftrightarrow> a < b"
  using assms by (cases a; cases b) (auto simp: append_less length_padded padded_less padded_eq)

lemma parse_date_valid: "parse_date s = Some (y, m, d) \<Longrightarrow> valid_date (y, m, d) \<and> 1000 < y"
  by (auto simp: parse_date_def valid_date_def Let_def split: if_splits)

lemma day_before_bounds:
  assumes "valid_date (y, m, d)" "0 < y" "y < 10 ^ 4"
  shows "fst (day_before (y, m, d)) < 10 ^ 4" "fst (snd (day_before (y, m, d))) < 10 ^ 2"
    "snd (snd (day_before (y, m, d))) < 10 ^ 2"
  using assms days_bound(2) [of y m] days_bound(2) [of y "m - 1"] by (auto simp: valid_date_def)

lemma previous_date_less:
  assumes "parse_date s = Some a" "parse_date s' = Some b"
  shows "GetPreviousDate other s < s" "s' < s \<longleftrightarrow> s' \<le> GetPreviousDate other s"
proof -
  obtain y m d where a: "a = (y, m, d)" by (cases a)
  obtain y' m' d' where b: "b = (y', m', d')" by (cases b)
  note v = parse_date_valid [OF assms(1) [unfolded a]] parse_date_valid [OF assms(2) [unfolded b]]
  note na = parse_date_name [OF assms(1)] and nb = parse_date_name [OF assms(2)]
  have p: "GetPreviousDate other s = date_name (day_before a)"
    by (simp add: GetPreviousDate_def assms(1))
  have va: "valid_date (y, m, d)" "0 < y" and db: "day_before a < a"
    using v(1) day_before_valid [of y m d] a by auto
  have y: "y < 10 ^ 4" using na(2) a by simp
  note bb = day_before_bounds [OF va y, folded a]
  show "GetPreviousDate other s < s"
    using date_name_less [OF bb na(2-4)] db by (simp add: p na(1) [symmetric])
  have "s' < s \<longleftrightarrow> b < a"
    unfolding na(1) nb(1) by (rule date_name_less [OF nb(2-4) na(2-4)])
  also have "\<dots> \<longleftrightarrow> b \<le> day_before a"
    using day_before_greatest [OF va(1), of y' m' d'] v(2) db a b by auto
  also have "\<dots> \<longleftrightarrow> \<not> date_name (day_before a) < date_name b"
    unfolding date_name_less [OF bb nb(2-4)] by auto
  finally show "s' < s \<longleftrightarrow> s' \<le> GetPreviousDate other s"
    unfolding p nb(1) by auto
qed

text \<open>
  the previous date is the day before. For the name of any date of the calendar, with
  leap years and the ends of months and years, \<open>GetPreviousDate\<close> gives a smaller name with no
  date between the two: every other date name is smaller exactly when it is at most that one.
\<close>

theorem previous_date_is_the_day_before:
  assumes "parse_date s = Some ymd" "parse_date s' = Some ymd'"
  shows "GetPreviousDate other s < s \<and> (s' < s) = (s' \<le> GetPreviousDate other s)"
  using previous_date_less [OF assms] by blast

theorem previous_date_is_the_day_before_witness:
  "GetPreviousDate id ''20240301'' = ''20240229'' \<and> GetPreviousDate id ''20240301'' < ''20240301'' \<and>
   (''20231231'' < ''20240301'') = (''20231231'' \<le> GetPreviousDate id ''20240301'')"
proof -
  have "parse_date ''20240301'' = Some (2024, 3, 1)" "parse_date ''20231231'' = Some (2023, 12, 31)"
    "GetPreviousDate id ''20240301'' = ''20240229''"
    by code_simp+
  with previous_date_is_the_day_before [OF this(1,2), of id] show ?thesis by simp
qed

section \<open>The walk over the hour folders\<close>

text \<open>
  The reference for both loops: the hour folders they look into, in order, and what an hour
  folder holds that is older than a time, newest first.
\<close>

fun walk :: "(string \<Rightarrow> string) \<Rightarrow> entry \<Rightarrow> path \<Rightarrow> nat \<Rightarrow> path \<Rightarrow> path \<Rightarrow> path list" where
  "walk other fs root 0 d h = []"
| "walk other fs root (Suc n) d h =
     h # (case prev_folder other fs root d (filename h) of None \<Rightarrow> [] | Some (d', h') \<Rightarrow> walk other fs root n d' h')"

fun walk_ends :: "(string \<Rightarrow> string) \<Rightarrow> entry \<Rightarrow> path \<Rightarrow> nat \<Rightarrow> path \<Rightarrow> path \<Rightarrow> bool" where
  "walk_ends other fs root 0 d h = False"
| "walk_ends other fs root (Suc n) d h =
     (case prev_folder other fs root d (filename h) of None \<Rightarrow> True | Some (d', h') \<Rightarrow> walk_ends other fs root n d' h')"

definition older_in :: "entry \<Rightarrow> string \<Rightarrow> int \<Rightarrow> path \<Rightarrow> path list" where
  "older_in fs ext ft h = map snd (filter (\<lambda>(t, p). t < ft) (newest_first (GetFiles fs h ext)))"

lemma walk_mono: "walk_ends other fs root n d h \<Longrightarrow> n \<le> m \<Longrightarrow>
   walk other fs root m d h = walk other fs root n d h"
proof (induction n arbitrary: m d h)
  case (Suc n)
  then obtain m' where "m = Suc m'" "n \<le> m'" by (cases m) auto
  with Suc show ?case by (auto split: option.splits)
qed simp

lemma take_older_eq:
  "length r < limit \<Longrightarrow>
   take_older limit ft files r =
     (let whole = r @ map snd (filter (\<lambda>(t, p). t < ft) files) in (take limit whole, limit \<le> length whole))"
  by (induction limit ft files r rule: take_older.induct) (auto simp: Let_def not_less_eq_eq)

lemma take_older_zero: "fst (take_older 0 ft files r) = r @ map snd (filter (\<lambda>(t, p). t < ft) files)"
  by (induction files arbitrary: r) auto

lemma older_loop_eq:
  "length r < limit \<Longrightarrow> walk_ends other fs root n d h \<Longrightarrow>
   older_loop other fs limit ft ext root n d h r =
     Some (take limit (r @ concat (map (older_in fs ext ft) (walk other fs root n d h))))"
proof (induction n arbitrary: d h r)
  case (Suc n)
  show ?case
  proof (cases "limit \<le> length (r @ older_in fs ext ft h)")
    case True
    then show ?thesis using Suc.prems(1) by (simp add: take_older_eq Let_def older_in_def [symmetric])
  next
    case False
    then show ?thesis
      using Suc.prems Suc.IH [of "r @ older_in fs ext ft h"]
      by (auto simp: take_older_eq Let_def older_in_def [symmetric] split: option.splits)
  qed
qed simp

lemma find_filter: "find P xs = (case filter P xs of [] \<Rightarrow> None | x # _ \<Rightarrow> Some x)"
  by (induction xs) auto

lemma first_before_older:
  "first_before lim (newest_first (GetFiles fs h ''.mp4'')) = (case older_in fs ''.mp4'' lim h of [] \<Rightarrow> None | p # _ \<Rightarrow> Some p)"
  by (auto simp: first_before_def older_in_def find_filter split: list.splits)

lemma previous_date_nonempty: "[] \<notin> range other \<Longrightarrow> GetPreviousDate other s \<noteq> []"
proof -
  have "date_name x \<noteq> []" for x
    using to_digits_digits by (cases x) (simp add: padded_def)
  then show "[] \<notin> range other \<Longrightarrow> ?thesis"
    by (auto simp: GetPreviousDate_def split: option.splits) (metis rangeI)
qed

lemma prev_folder_shape:
  "prev_folder other fs root d hour = Some (d', h') \<Longrightarrow> root = butlast d \<Longrightarrow> d \<noteq> [] \<Longrightarrow>
   [] \<notin> range other \<Longrightarrow> butlast h' = d' \<and> butlast d' = root \<and> d' \<noteq> []"
  using previous_date_nonempty [of other "filename d"]
  by (auto simp: prev_folder_def join_def Let_def butlast_append split: if_splits)

text \<open>What the greatest name is: the start, or the name of a subfolder.\<close>

lemma greatest_cases:
  "greatest p best es = best \<or> (\<exists>t d. (greatest p best es, Folder t d) \<in> set es) \<and> p (greatest p best es)"
  by (induction p best es rule: greatest.induct) (auto split: if_splits)

text \<open>The hour folders below a root, as pairs of a date and an hour.\<close>

definition hour_folders :: "entry \<Rightarrow> path \<Rightarrow> (string \<times> string) list" where
  "hour_folders fs root =
     concat (map (\<lambda>(date, e). map (\<lambda>(hour, _). (date, hour)) (children (Some e))) (children (lookup_path fs root)))"

lemma lookup_append:
  "lookup_path fs (p @ q) = (case lookup_path fs p of None \<Rightarrow> None | Some e \<Rightarrow> lookup_path e q)"
  by (induction fs p rule: lookup_path.induct) (auto split: option.splits)

lemma lookup_child: "lookup_path fs (p @ [n]) = Some e \<Longrightarrow> (n, e) \<in> set (children (lookup_path fs p))"
proof -
  assume l: "lookup_path fs (p @ [n]) = Some e"
  then obtain e' where e': "lookup_path fs p = Some e'" "lookup_path e' [n] = Some e"
    by (auto simp: lookup_append split: option.splits)
  then show ?thesis
    by (cases e') (auto simp: omap_get_def dest: map_of_SomeD split: option.splits)
qed

lemma hour_folder_in:
  assumes "(hour, e) \<in> set (children (lookup_path fs (root @ [date])))"
  shows "(date, hour) \<in> set (hour_folders fs root)"
proof -
  obtain e' where e': "lookup_path fs (root @ [date]) = Some e'"
    using assms by (cases "lookup_path fs (root @ [date])") auto
  show ?thesis
    using lookup_child [OF e'] assms e' by (force simp: hour_folders_def)
qed

lemma length_filter_less_filter:
  assumes "x \<in> set xs" "Q x" "\<not> P x" "\<And>y. P y \<Longrightarrow> Q y"
  shows "length (filter P xs) < length (filter Q xs)"
proof -
  have "filter P xs = filter P (filter Q xs)" using assms(4) by (auto simp: conj_absorb intro: filter_cong)
  moreover have "x \<in> set (filter Q xs)" using assms by simp
  ultimately show ?thesis using assms(3) by (metis length_filter_less)
qed

text \<open>A step of the walk leads to an earlier hour folder, when the root holds only date folders.\<close>

definition only_dates :: "entry \<Rightarrow> path \<Rightarrow> bool" where
  "only_dates fs root \<longleftrightarrow> list_all (\<lambda>(n, e). parse_date n \<noteq> None) (children (lookup_path fs root))"

lemma prev_folder_earlier:
  assumes "prev_folder other fs root (root @ [date]) hour = Some (d', h')"
    "only_dates fs root" "parse_date date \<noteq> None" "[] \<notin> range other"
  shows "\<exists>date' hour'. d' = root @ [date'] \<and> h' = root @ [date', hour'] \<and>
    (date', hour') \<in> set (hour_folders fs root) \<and> (date', hour') < (date, hour) \<and> parse_date date' \<noteq> None"
proof (cases "find_prev_hour fs (root @ [date]) hour = []")
  case False
  then have "\<exists>t d. (find_prev_hour fs (root @ [date]) hour, Folder t d) \<in> set (children (lookup_path fs (root @ [date])))"
    "find_prev_hour fs (root @ [date]) hour < hour"
    using greatest_cases [of "\<lambda>n. n < hour" "[]"] unfolding find_prev_hour_def by blast+
  with False assms show ?thesis
    by (auto simp: prev_folder_def join_def intro: hour_folder_in)
next
  case True
  define date' where "date' = GetPreviousDate other date"
  have ne: "date' \<noteq> []" using assms(4) by (simp add: date'_def previous_date_nonempty)
  define hour' where "hour' = FindLatestSubDir fs (root @ [date'])"
  obtain e where e: "lookup_path fs (root @ [date']) = Some e" "hour' \<noteq> []" "d' = root @ [date']" "h' = root @ [date', hour']"
    using assms(1) True ne by (auto simp: prev_folder_def join_def filename_def Let_def date'_def hour'_def split: if_splits)
  have "\<exists>t d. (hour', Folder t d) \<in> set (children (lookup_path fs (root @ [date'])))"
    using greatest_cases [of "\<lambda>n. all_digits 8 n \<or> all_digits 2 n" "[]"] e(2)
    unfolding hour'_def FindLatestSubDir_def by blast
  then have "(date', hour') \<in> set (hour_folders fs root)" by (auto intro: hour_folder_in)
  moreover have "parse_date date' \<noteq> None"
    using lookup_child [OF e(1)] assms(2) by (auto simp: only_dates_def list_all_iff)
  moreover have "date' < date"
    using assms(3) previous_date_less(1) by (auto simp: date'_def)
  ultimately show ?thesis using e by auto
qed

lemma walk_ends_enough:
  assumes "only_dates fs root" "[] \<notin> range other" "parse_date date \<noteq> None"
    "length (filter (\<lambda>x. x < (date, hour)) (hour_folders fs root)) < n"
  shows "walk_ends other fs root n (root @ [date]) (root @ [date, hour])"
  using assms(3,4)
proof (induction n arbitrary: date hour)
  case (Suc n)
  show ?case
  proof (cases "prev_folder other fs root (root @ [date]) hour")
    case (Some p)
    then obtain date' hour' where p: "p = (root @ [date'], root @ [date', hour'])"
      "(date', hour') \<in> set (hour_folders fs root)" "(date', hour') < (date, hour)" "parse_date date' \<noteq> None"
      using prev_folder_earlier [OF _ assms(1) Suc.prems(1) assms(2)] by (cases p) blast
    have "length (filter (\<lambda>x. x < (date', hour')) (hour_folders fs root)) <
        length (filter (\<lambda>x. x < (date, hour)) (hour_folders fs root))"
      by (rule length_filter_less_filter [OF p(2)]) (use p(3) in auto)
    with Suc Some p show ?thesis by (simp add: filename_def)
  qed (simp add: filename_def)
qed simp

lemma older_files_walk:
  assumes "lookup_path fs (root @ [date, hour, name]) = Some e" "base_dir \<noteq> root @ [date, hour]"
    "only_dates fs root" "[] \<notin> range other" "0 < request_num" "request_num < 2 ^ 31"
    "length (hour_folders fs root) < fuel"
  shows "FindOlderFiles other fuel fs base_dir (root @ [date, hour, name]) request_num =
    Some (take (nat request_num)
      (concat (map (older_in fs (fs_extension name) (last_write_time e))
        (walk other fs root (Suc (length (hour_folders fs root))) (root @ [date]) (root @ [date, hour])))))"
proof -
  have bl: "butlast (root @ [date, hour, name]) = root @ [date, hour]" "butlast (root @ [date, hour]) = root @ [date]"
    by (simp_all add: butlast_append)
  obtain e' where "lookup_path fs (root @ [date]) = Some e'"
    using assms(1) lookup_append [of fs "root @ [date]" "[hour, name]"] by (auto split: option.splits)
  from lookup_child [OF this] have d: "parse_date date \<noteq> None"
    using assms(3) by (auto simp: only_dates_def list_all_iff)
  have ends: "walk_ends other fs root (Suc (length (hour_folders fs root))) (root @ [date]) (root @ [date, hour])"
    "walk_ends other fs root fuel (root @ [date]) (root @ [date, hour])"
    by (rule walk_ends_enough [OF assms(3,4) d], rule le_less_trans [OF length_filter_le], use assms(7) in simp)+
  have lim: "request_num mod 18446744073709551616 = request_num" using assms(5,6) by (intro mod_pos_pos_trivial) auto
  show ?thesis
    using older_loop_eq [OF _ ends(2), of "[]" "nat request_num"] walk_mono [OF ends(1), of fuel] assms(1,2,5,7)
    by (simp add: FindOlderFiles_def Let_def bl filename_def lim Suc_le_eq)
qed

text \<open>
  the search for older recordings is the walk over the hour folders. Below a root that
  holds only date folders, the loop of \<open>FindOlderFiles\<close> ends after at most one turn per hour
  folder, and what it returns are the first \<open>request_num\<close> of the files of the folders walked, of
  each folder those older than the given file, newest first.
\<close>

theorem older_files_follow_the_walk:
  assumes "lookup_path fs (root @ [date, hour, name]) = Some e" "base_dir \<noteq> root @ [date, hour]"
    "only_dates fs root" "[] \<notin> range other" "0 < request_num" "request_num < 2 ^ 31"
    "length (hour_folders fs root) < fuel"
  shows "FindOlderFiles other fuel fs base_dir (root @ [date, hour, name]) request_num =
    Some (take (nat request_num)
      (concat (map (older_in fs (fs_extension name) (last_write_time e))
        (walk other fs root (Suc (length (hour_folders fs root))) (root @ [date]) (root @ [date, hour])))))"
  using assms by (rule older_files_walk)

definition sample_tree :: entry where
  "sample_tree = Folder 0 [
     (''20240228'', Folder 0 [(''23'', Folder 0 [(''a.mp4'', Plain 1)])]),
     (''20240229'', Folder 0 [(''08'', Folder 0 [(''b.mp4'', Plain 2), (''b.jpg'', Plain 2)]),
                              (''10'', Folder 0 [(''c.mp4'', Plain 3), (''d.mp4'', Plain 4), (''e.mp4'', Plain 5)])])]"

theorem older_files_follow_the_walk_witness:
  "FindOlderFiles (\<lambda>s. ''x'') 9 sample_tree [] [''20240229'', ''10'', ''e.mp4''] 3 =
     Some [[''20240229'', ''10'', ''d.mp4''], [''20240229'', ''10'', ''c.mp4''], [''20240229'', ''08'', ''b.mp4'']]"
proof -
  have "lookup_path sample_tree ([] @ [''20240229'', ''10'', ''e.mp4'']) = Some (Plain 5)"
    "only_dates sample_tree []" "length (hour_folders sample_tree []) < 9"
    by code_simp+
  then have "FindOlderFiles (\<lambda>s. ''x'') 9 sample_tree [] ([] @ [''20240229'', ''10'', ''e.mp4'']) 3 =
    Some (take (nat 3)
      (concat (map (older_in sample_tree (fs_extension ''e.mp4'') (last_write_time (Plain 5)))
        (walk (\<lambda>s. ''x'') sample_tree [] (Suc (length (hour_folders sample_tree []))) ([] @ [''20240229'']) ([] @ [''20240229'', ''10''])))))"
    by (intro older_files_follow_the_walk) auto
  also have "\<dots> = Some [[''20240229'', ''10'', ''d.mp4''], [''20240229'', ''10'', ''c.mp4''], [''20240229'', ''08'', ''b.mp4'']]"
    by code_simp
  finally show ?thesis by simp
qed

text \<open>Every name occurs once in its folder.\<close>

fun names_ok :: "entry \<Rightarrow> bool" where
  "names_ok (Plain t) = True"
| "names_ok (Folder t es) = (distinct (map fst es) \<and> list_all (\<lambda>x. names_ok (snd x)) es)"

lemma names_ok_lookup: "names_ok fs \<Longrightarrow> lookup_path fs p = Some e \<Longrightarrow> names_ok e"
proof (induction fs p rule: lookup_path.induct)
  case (3 t es n p)
  then obtain e' where e': "omap_get es n = Some e'" "lookup_path e' p = Some e"
    by (auto split: option.splits)
  from e'(1) have "(n, e') \<in> set es" by (auto simp: omap_get_def dest: map_of_SomeD)
  with 3 e' show ?case by (force simp: list_all_iff)
qed auto

lemma GetFiles_in:
  assumes "names_ok fs" "(t, p) \<in> set (GetFiles fs h ext)"
  shows "lookup_path fs p = Some (Plain t) \<and> fs_extension (last p) = ext \<and> butlast p = h"
proof -
  obtain t' es where es: "lookup_path fs h = Some (Folder t' es)"
    using assms(2) by (auto simp: GetFiles_def split: if_splits elim: is_folder.elims)
  obtain n where n: "p = h @ [n]" "(n, Plain t) \<in> set es" "fs_extension n = ext"
    using assms(2) es by (auto simp: GetFiles_def List.map_filter_def elim!: media_entry.elims split: if_splits)
  have "distinct (map fst es)" using names_ok_lookup [OF assms(1) es] by simp
  with n(2) have "omap_get es n = Some (Plain t)" by (simp add: omap_get_def)
  with n es show ?thesis by (simp add: lookup_append)
qed

lemma older_in_sound:
  "names_ok fs \<Longrightarrow> p \<in> set (older_in fs ext ft h) \<Longrightarrow>
   \<exists>t. lookup_path fs p = Some (Plain t) \<and> t < ft \<and> fs_extension (last p) = ext"
  using GetFiles_in by (fastforce simp: older_in_def newest_first_def)

lemma take_older_set:
  "set (fst (take_older limit ft (newest_first (GetFiles fs h ext)) r)) \<subseteq> set r \<union> set (older_in fs ext ft h)"
proof -
  have "set (fst (take_older limit ft files r)) \<subseteq> set r \<union> set (map snd (filter (\<lambda>(t, p). t < ft) files))" for files
  proof (induction files arbitrary: r)
    case (Cons f files)
    obtain t p where f: "f = (t, p)" by (cases f)
    show ?case using Cons.IH [of "r @ [p]"] Cons.IH [of r] by (auto simp: f)
  qed simp
  then show ?thesis by (simp add: older_in_def)
qed

lemma older_loop_sound:
  assumes "names_ok fs"
  shows "older_loop other fs limit ft ext root n d h r = Some ps \<Longrightarrow> p \<in> set ps \<Longrightarrow>
    p \<in> set r \<or> (\<exists>t. lookup_path fs p = Some (Plain t) \<and> t < ft \<and> fs_extension (last p) = ext)"
proof (induction n arbitrary: d h r)
  case (Suc n)
  obtain r1 b where t: "take_older limit ft (newest_first (GetFiles fs h ext)) r = (r1, b)"
    by (cases "take_older limit ft (newest_first (GetFiles fs h ext)) r")
  have r1: "q \<in> set r \<or> (\<exists>t. lookup_path fs q = Some (Plain t) \<and> t < ft \<and> fs_extension (last q) = ext)"
    if "q \<in> set r1" for q
    using take_older_set [of limit ft fs h ext r] older_in_sound [OF assms, of q ext ft h] that t by auto
  show ?case
  proof (cases "length r < limit \<and> \<not> b")
    case True
    show ?thesis
    proof (cases "prev_folder other fs root d (filename h)")
      case None
      then show ?thesis using Suc.prems True t r1 by simp
    next
      case (Some x)
      then obtain d' h' where "prev_folder other fs root d (filename h) = Some (d', h')" by (cases x) auto
      then show ?thesis using Suc.prems True t r1 [of p] Suc.IH [of d' h' r1] by auto
    qed
  next
    case False
    then show ?thesis using Suc.prems t r1 [of p] by (auto split: if_splits bool.splits)
  qed
qed simp

text \<open>
  what the search for older recordings returns are older recordings. Whatever the folders
  look like, with dates missing or other folders between, each path returned is a file that
  exists, is strictly older than the given one and has its extension.
\<close>

theorem older_files_are_older:
  assumes "names_ok fs" "lookup_path fs file_path = Some e"
    "FindOlderFiles other fuel fs base_dir file_path request_num = Some ps"
  shows "list_all (\<lambda>p. \<exists>t. lookup_path fs p = Some (Plain t) \<and> t < last_write_time e \<and>
    fs_extension (last p) = fs_extension (filename file_path)) ps"
proof -
  let ?good = "\<lambda>p. \<exists>t. lookup_path fs p = Some (Plain t) \<and> t < last_write_time e \<and>
    fs_extension (last p) = fs_extension (filename file_path)"
  have "?good p" if p: "p \<in> set ps" for p
  proof (cases "butlast file_path = base_dir")
    case True
    then have "p \<in> set (older_in fs (fs_extension (filename file_path)) (last_write_time e) base_dir)"
      using assms(2,3) p take_older_set [where r = "[]"] by (fastforce simp: FindOlderFiles_def Let_def)
    then show ?thesis by (rule older_in_sound [OF assms(1)])
  next
    case False
    then show ?thesis
      using assms(2,3) p older_loop_sound [OF assms(1), where r = "[]" and p = p]
      by (fastforce simp: FindOlderFiles_def Let_def)
  qed
  then show ?thesis by (simp add: list_all_iff)
qed

theorem older_files_are_older_witness:
  "FindOlderFiles id 9 sample_tree [] [''20240229'', ''10'', ''c.mp4''] 5 =
     Some [[''20240229'', ''08'', ''b.mp4''], [''20240228'', ''23'', ''a.mp4'']] \<and>
   list_all (\<lambda>p. \<exists>t. lookup_path sample_tree p = Some (Plain t) \<and> t < 3 \<and> fs_extension (last p) = ''.mp4'')
     [[''20240229'', ''08'', ''b.mp4''], [''20240228'', ''23'', ''a.mp4'']]"
proof -
  have "names_ok sample_tree" "lookup_path sample_tree [''20240229'', ''10'', ''c.mp4''] = Some (Plain 3)"
    "FindOlderFiles id 9 sample_tree [] [''20240229'', ''10'', ''c.mp4''] 5 =
       Some [[''20240229'', ''08'', ''b.mp4''], [''20240228'', ''23'', ''a.mp4'']]"
    "fs_extension (filename [''20240229'', ''10'', ''c.mp4'']) = ''.mp4''"
    by code_simp+
  with older_files_are_older [OF this(1,2,3)] show ?thesis by simp
qed

text \<open>
  The first day without a folder ends the search: what was recorded before it is never found.
\<close>

lemma gap_ends_the_search:
  "FindOlderFiles id 9
     (Folder 0 [(''20240226'', Folder 0 [(''23'', Folder 0 [(''a.mp4'', Plain 1)])]),
                (''20240228'', Folder 0 [(''08'', Folder 0 [(''b.mp4'', Plain 2)])])])
     [] [''20240228'', ''08'', ''b.mp4''] 5 = Some []"
  by code_simp

section \<open>The search by date and the latest complete file\<close>

lemma datetime_loop_eq:
  assumes "[] \<notin> range other"
  shows "butlast h = d \<Longrightarrow> butlast d = root \<Longrightarrow> d \<noteq> [] \<Longrightarrow>
    datetime_loop other fs lim n h =
      (case concat (map (older_in fs ''.mp4'' lim) (walk other fs root n d h)) of [] \<Rightarrow> None | p # _ \<Rightarrow> Some p)"
proof (induction n arbitrary: d h)
  case (Suc n)
  show ?case
  proof (cases "older_in fs ''.mp4'' lim h")
    case Nil
    show ?thesis
    proof (cases "prev_folder other fs root d (filename h)")
      case None
      then show ?thesis using Nil Suc.prems by (simp add: first_before_older)
    next
      case (Some x)
      then obtain d' h' where x: "prev_folder other fs root d (filename h) = Some (d', h')" by (cases x) auto
      from prev_folder_shape [OF this Suc.prems(2) [symmetric] Suc.prems(3) assms]
      show ?thesis using Nil Suc.prems x Suc.IH [of h' d'] by (simp add: first_before_older)
    qed
  next
    case (Cons p ps)
    then show ?thesis by (simp add: first_before_older)
  qed
qed simp

text \<open>
  the search by date takes the first file of the walk. In a root with date folders, the file
  it finds for a name \<open>YYYYMMDD_HHMMSS\<close> is the first one of the at most ten hour folders walked,
  starting with the hour of the name: the newest file older than the time in the first folder
  that has one.
\<close>

theorem datetime_search_takes_first:
  assumes "[] \<notin> range other" "15 \<le> length basename"
    "list_ex (\<lambda>(n, e). is_folder (Some e) \<and> all_digits 8 n) (children (lookup_path fs root))"
  shows "FindFilesFromDatetime other parse_datetime fs root basename =
    (case concat (map (older_in fs ''.mp4'' (parse_datetime basename))
        (walk other fs root 10 (root @ [take 8 basename]) (root @ [take 8 basename, take 2 (drop 9 basename)]))) of
       [] \<Rightarrow> None | p # _ \<Rightarrow> Some p)"
proof -
  have "basename \<noteq> []" "drop 9 basename \<noteq> []" using assms(2) by auto
  then have j: "join (join root (take 8 basename)) (take 2 (drop 9 basename)) = root @ [take 8 basename, take 2 (drop 9 basename)]"
    by (simp add: join_def)
  show ?thesis
    using assms(2,3)
      datetime_loop_eq [OF assms(1), of "root @ [take 8 basename, take 2 (drop 9 basename)]" "root @ [take 8 basename]" root]
    by (simp add: FindFilesFromDatetime_def Let_def j butlast_append)
qed

theorem datetime_search_takes_first_witness:
  "FindFilesFromDatetime (\<lambda>s. ''x'') (\<lambda>s. 3) sample_tree [] ''20240229_103000'' = Some [''20240229'', ''08'', ''b.mp4'']"
proof -
  have "[] \<notin> range (\<lambda>s :: string. ''x'')" "15 \<le> length ''20240229_103000''"
    "list_ex (\<lambda>(n, e). is_folder (Some e) \<and> all_digits 8 n) (children (lookup_path sample_tree []))"
    by (auto, code_simp)
  note datetime_search_takes_first [OF this, of "\<lambda>s. 3"]
  also have "(case concat (map (older_in sample_tree ''.mp4'' 3)
      (walk (\<lambda>s. ''x'') sample_tree [] 10 ([] @ [take 8 ''20240229_103000''])
        ([] @ [take 8 ''20240229_103000'', take 2 (drop 9 ''20240229_103000'')]))) of
       [] \<Rightarrow> None | p # _ \<Rightarrow> Some p) = Some [''20240229'', ''08'', ''b.mp4'']"
    by code_simp
  finally show ?thesis .
qed

lemma distinct_files: "names_ok fs \<Longrightarrow> distinct (GetFiles fs p ext)"
proof -
  assume ok: "names_ok fs"
  have "distinct (List.map_filter (media_entry p ext) es)" if "distinct (map fst es)" for es
    using that
  proof (induction es)
    case (Cons e es)
    obtain n x where e: "e = (n, x)" by (cases e)
    have "(t, p @ [n]) \<notin> set (List.map_filter (media_entry p ext) es)" for t
      using Cons.prems e by (force simp: List.map_filter_def elim!: media_entry.elims split: if_splits)
    with Cons e show ?case by (cases x) (auto simp: List.map_filter_simps)
  qed (simp add: List.map_filter_simps)
  moreover have "distinct (map fst (children (lookup_path fs p)))"
    using names_ok_lookup [OF ok, of p] by (cases "lookup_path fs p" rule: children.cases) auto
  ultimately show "distinct (GetFiles fs p ext)" by (simp add: GetFiles_def)
qed

text \<open>Files gathered from different folders.\<close>

definition gathered :: "entry \<Rightarrow> string \<Rightarrow> timed list \<Rightarrow> path set \<Rightarrow> bool" where
  "gathered fs ext files hs \<longleftrightarrow> distinct files \<and>
     (\<forall>(t, p) \<in> set files. lookup_path fs p = Some (Plain t) \<and> fs_extension (last p) = ext \<and> butlast p \<in> hs)"

lemma gathered_GetFiles: "names_ok fs \<Longrightarrow> gathered fs ext (GetFiles fs h ext) {h}"
  using GetFiles_in by (fastforce simp: gathered_def distinct_files)

lemma gathered_add:
  "gathered fs ext xs hs \<Longrightarrow> names_ok fs \<Longrightarrow> h \<notin> hs \<Longrightarrow> gathered fs ext (xs @ GetFiles fs h ext) (insert h hs)"
  using gathered_GetFiles [of fs ext h] by (fastforce simp: gathered_def)

lemma gathered_mono: "gathered fs ext xs hs \<Longrightarrow> hs \<subseteq> hs' \<Longrightarrow> gathered fs ext xs hs'"
  by (fastforce simp: gathered_def)

lemma second_newest:
  assumes "gathered fs ext files hs" "newest_first files = x # y # zs"
  shows "\<exists>t q t'. lookup_path fs (snd y) = Some (Plain t) \<and> fs_extension (last (snd y)) = ext \<and>
    q \<noteq> snd y \<and> lookup_path fs q = Some (Plain t') \<and> fs_extension (last q) = ext \<and> t \<le> t'"
proof -
  have "sorted (rev (x # y # zs))" "set (x # y # zs) = set files" "distinct (x # y # zs)"
    using assms by (auto simp: newest_first_def gathered_def simp flip: assms(2))
  then have xy: "y \<le> x" "x \<in> set files" "y \<in> set files" "x \<noteq> y"
    by (auto simp: sorted_append)
  obtain t q t' p where e: "x = (t', q)" "y = (t, p)" by (cases x; cases y)
  with xy assms(1) have l: "lookup_path fs q = Some (Plain t')" "fs_extension (last q) = ext"
    "lookup_path fs p = Some (Plain t)" "fs_extension (last p) = ext"
    by (auto simp: gathered_def)
  have "q \<noteq> p" using l(1,3) xy(4) e by auto
  moreover have "t \<le> t'" using xy(1) e by auto
  ultimately show ?thesis using l e by auto
qed

text \<open>
  the file offered as the latest complete one is not the one being recorded. With date
  folders, the answer is an existing file of the wanted extension, and there is another such
  file that is at least as new.
\<close>

theorem latest_complete_is_not_newest:
  assumes "names_ok fs" "[] \<notin> range other" "parse_date (FindLatestSubDir fs base_dir) \<noteq> None"
    "FindLatestCompleteFile other fs base_dir ext = Some p"
  shows "\<exists>t q t'. lookup_path fs p = Some (Plain t) \<and> fs_extension (last p) = ext \<and>
    q \<noteq> p \<and> lookup_path fs q = Some (Plain t') \<and> fs_extension (last q) = ext \<and> t \<le> t'"
proof -
  define date where "date = FindLatestSubDir fs base_dir"
  have "date \<noteq> []" using assms(3) by (auto simp: date_def parse_date_def all_digits_def)
  define datePath where "datePath = base_dir @ [date]"
  define hour where "hour = FindLatestSubDir fs datePath"
  define prev where "prev = find_prev_hour fs datePath hour"
  define prevPath where "prevPath = base_dir @ [GetPreviousDate other date]"
  define prevDir where "prevDir = join prevPath (FindLatestSubDir fs prevPath)"
  define files where "files = GetFiles fs (datePath @ [hour]) ext"
  define files1 where "files1 = (if length files < 2 \<and> prev \<noteq> [] then files @ GetFiles fs (join datePath prev) ext else files)"
  define files2 where "files2 = (if length files1 < 2 then files1 @ GetFiles fs prevDir ext else files1)"
  have jd: "join base_dir date = datePath" "join base_dir (GetPreviousDate other date) = prevPath"
    using \<open>date \<noteq> []\<close> previous_date_nonempty [OF assms(2)] by (simp_all add: join_def datePath_def prevPath_def)
  have hour: "hour \<noteq> []" "join datePath hour = datePath @ [hour]"
    using assms(4) \<open>date \<noteq> []\<close> jd
    by (auto simp: FindLatestCompleteFile_def Let_def hour_def join_def date_def [symmetric] split: if_splits)
  have res: "(case newest_first files2 of _ # f # _ \<Rightarrow> Some (snd f) | _ \<Rightarrow> None) = Some p"
    using assms(4) \<open>date \<noteq> []\<close> hour jd
    unfolding FindLatestCompleteFile_def Let_def date_def [symmetric] jd hour_def [symmetric] prev_def [symmetric]
      prevDir_def [symmetric] hour(2) files_def [symmetric] files1_def [symmetric] files2_def [symmetric]
    by simp
  have "prev < hour" if "prev \<noteq> []"
    using greatest_cases [of "\<lambda>n. n < hour" "[]"] that unfolding prev_def find_prev_hour_def by blast
  then have ne: "join datePath prev \<notin> {datePath @ [hour]}"
    by (auto simp: join_def)
  have g: "gathered fs ext files {datePath @ [hour]}"
    unfolding files_def by (rule gathered_GetFiles [OF assms(1)])
  have g1: "gathered fs ext files1 {join datePath prev, datePath @ [hour]}"
    using gathered_add [OF g assms(1) ne] gathered_mono [OF g] by (simp add: files1_def)
  obtain a where a: "parse_date date = Some a" using assms(3) by (auto simp: date_def)
  have "GetPreviousDate other date \<noteq> date"
    using previous_date_less(1) [OF a a, of other] by simp
  then have ne2: "prevDir \<notin> {join datePath prev, datePath @ [hour]}"
    by (auto simp: prevDir_def prevPath_def datePath_def join_def)
  have "gathered fs ext files2 {prevDir, join datePath prev, datePath @ [hour]}"
    using gathered_add [OF g1 assms(1) ne2] gathered_mono [OF g1] by (simp add: files2_def subset_insertI)
  moreover obtain x y zs where "newest_first files2 = x # y # zs" "snd y = p"
    using res by (auto split: list.splits)
  ultimately show ?thesis using second_newest by blast
qed

theorem latest_complete_is_not_newest_witness:
  "FindLatestCompleteFile (\<lambda>s. ''x'') sample_tree [] ''.mp4'' = Some [''20240229'', ''10'', ''d.mp4''] \<and>
   (\<exists>t q t'. lookup_path sample_tree [''20240229'', ''10'', ''d.mp4''] = Some (Plain t) \<and>
      fs_extension (last [''20240229'', ''10'', ''d.mp4'']) = ''.mp4'' \<and> q \<noteq> [''20240229'', ''10'', ''d.mp4''] \<and>
      lookup_path sample_tree q = Some (Plain t') \<and> fs_extension (last q) = ''.mp4'' \<and> t \<le> t')"
proof -
  have "names_ok sample_tree" "parse_date (FindLatestSubDir sample_tree []) \<noteq> None"
    "FindLatestCompleteFile (\<lambda>s. ''x'') sample_tree [] ''.mp4'' = Some [''20240229'', ''10'', ''d.mp4'']"
    by code_simp+
  moreover have "[] \<notin> range (\<lambda>s :: string. ''x'')" by auto
  ultimately show ?thesis using latest_complete_is_not_newest [of sample_tree "\<lambda>s. ''x''" "[]" "''.mp4''"] by blast
qed

end
