(* ===== verification/Codec.thy ===== *)
theory Codec
  imports Prelude
begin

text \<open>
  The hardware codec pipeline: \<open>ThreadSafeQueue\<close> (src/src/common/thread_safe_queue.h) and
  \<open>V4L2Codec\<close> (src/src/codecs/v4l2/v4l2_codec.cpp), through which decoder, scaler and encoder
  hand frames to a V4L2 memory-to-memory device. \<open>EmplaceBuffer\<close> runs on the producer's thread,
  \<open>CaptureBuffer\<close> on the worker's; the parts between two operations on shared queues or on
  the device are events of their own. The device is the environment: it takes the input buffers
  it is given, returns them, and gives back one result per frame in order. Frames carry a number.
\<close>

section \<open>The queue\<close>

text \<open>A \<open>ThreadSafeQueue\<close> of at most \<open>max_size\<close> items; every operation holds its lock.\<close>

definition kMaxSize :: nat where "kMaxSize = 8"

definition tsq_push :: "nat \<Rightarrow> 'a \<Rightarrow> 'a list \<Rightarrow> bool \<times> 'a list" where
  "tsq_push max_size t q = (if max_size \<le> length q then (False, q) else (True, q @ [t]))"

definition tsq_pop :: "'a list \<Rightarrow> 'a option \<times> 'a list" where
  "tsq_pop q = (case q of [] \<Rightarrow> (None, []) | t # ts \<Rightarrow> (Some t, ts))"

definition tsq_front :: "'a list \<Rightarrow> 'a option" where
  "tsq_front q = (case q of [] \<Rightarrow> None | t # _ \<Rightarrow> Some t)"

definition tsq_full :: "nat \<Rightarrow> 'a list \<Rightarrow> bool" where
  "tsq_full max_size q \<longleftrightarrow> max_size \<le> length q"

lemma tsq_pop_simps [simp]: "tsq_pop [] = (None, [])" "tsq_pop (t # ts) = (Some t, ts)"
  by (simp_all add: tsq_pop_def)

lemma tsq_push_len: "length q \<le> m \<Longrightarrow> length (snd (tsq_push m t q)) \<le> m"
  by (simp add: tsq_push_def)

section \<open>Copying planes\<close>

text \<open>\<open>memcpy\<close> between two buffers; \<open>None\<close> when it would leave one of them.\<close>

definition memcpy :: "nat \<Rightarrow> nat \<Rightarrow> nat \<Rightarrow> 'a list \<Rightarrow> 'a list \<Rightarrow> 'a list option" where
  "memcpy dst_off src_off n src dst =
     (if dst_off + n \<le> length dst \<and> src_off + n \<le> length src
      then Some (take dst_off dst @ take n (drop src_off src) @ drop (dst_off + n) dst) else None)"

fun CopyRows :: "nat \<Rightarrow> nat \<Rightarrow> nat \<Rightarrow> nat \<Rightarrow> nat \<Rightarrow> nat \<Rightarrow> 'a list \<Rightarrow> 'a list \<Rightarrow> 'a list option" where
  "CopyRows dst_off dst_stride src_off src_stride row_bytes 0 src dst = Some dst"
| "CopyRows dst_off dst_stride src_off src_stride row_bytes (Suc rows) src dst =
     (case CopyRows dst_off dst_stride src_off src_stride row_bytes rows src dst of
        None \<Rightarrow> None
      | Some d \<Rightarrow> memcpy (dst_off + rows * dst_stride) (src_off + rows * src_stride) row_bytes src d)"

datatype pix_fmt = YUV420 | NV12 | OtherFmt nat

record vframe =
  vf_id :: nat
  vf_width :: nat
  vf_height :: nat
  vf_stride :: nat
  vf_plane_height :: nat
  vf_format :: pix_fmt
  vf_size :: nat
  vf_data :: "nat list"

record buffer_group =
  bg_dmabuf :: bool
  bg_height :: nat
  bg_bytesperline :: nat
  bg_sizeimage :: nat

definition NeedsRepack :: "buffer_group \<Rightarrow> vframe \<Rightarrow> bool" where
  "NeedsRepack g f \<longleftrightarrow> vf_format f \<in> {YUV420, NV12} \<and>
     (vf_stride f \<noteq> bg_bytesperline g \<or> vf_plane_height f \<noteq> bg_height g)"

definition CopyPlanes :: "buffer_group \<Rightarrow> vframe \<Rightarrow> nat list \<Rightarrow> nat list option" where
  "CopyPlanes g f dst =
     (let src = vf_data f; width = vf_width f; height = vf_height f;
          src_stride = vf_stride f; dst_stride = bg_bytesperline g;
          src_chroma = src_stride * vf_plane_height f; dst_chroma = dst_stride * bg_height g
      in case CopyRows 0 dst_stride 0 src_stride width height src dst of
           None \<Rightarrow> None
         | Some d \<Rightarrow>
             if vf_format f = NV12
             then CopyRows dst_chroma dst_stride src_chroma src_stride width (height div 2) src d
             else let src_u_size = (src_stride div 2) * (vf_plane_height f div 2);
                      dst_u_size = (dst_stride div 2) * (bg_height g div 2)
                  in case CopyRows dst_chroma (dst_stride div 2) src_chroma (src_stride div 2) (width div 2) (height div 2) src d of
                       None \<Rightarrow> None
                     | Some d2 \<Rightarrow>
                         CopyRows (dst_chroma + dst_u_size) (dst_stride div 2) (src_chroma + src_u_size) (src_stride div 2)
                           (width div 2) (height div 2) src d2)"

lemma memcpy_Some:
  assumes "memcpy o1 o2 n src dst = Some d"
  shows "length d = length dst" "i < length dst \<Longrightarrow> d ! i = (if o1 \<le> i \<and> i < o1 + n then src ! (o2 + (i - o1)) else dst ! i)"
proof -
  have a: "o1 + n \<le> length dst" "o2 + n \<le> length src"
    "d = take o1 dst @ take n (drop o2 src) @ drop (o1 + n) dst"
    using assms by (auto simp: memcpy_def split: if_splits)
  then have l: "length (take o1 dst) = o1" "length (take n (drop o2 src)) = n" by simp_all
  show "length d = length dst" using a by simp
  show "i < length dst \<Longrightarrow> d ! i = (if o1 \<le> i \<and> i < o1 + n then src ! (o2 + (i - o1)) else dst ! i)"
    unfolding a(3) nth_append l using a by auto
qed

text \<open>A byte of the destination after rows were copied: from the row that covers it, or as before.\<close>

lemma CopyRows_length: "CopyRows o1 s1 o2 s2 n rows src dst = Some d \<Longrightarrow> length d = length dst"
  by (induction rows arbitrary: d) (auto split: option.splits dest: memcpy_Some(1))

lemma CopyRows_outside:
  "CopyRows o1 s1 o2 s2 n rows src dst = Some d \<Longrightarrow> i < length dst \<Longrightarrow>
   i < o1 \<or> o1 + rows * s1 \<le> i \<Longrightarrow> n \<le> s1 \<Longrightarrow> d ! i = dst ! i"
proof (induction rows arbitrary: d)
  case (Suc rows)
  then obtain d' where d': "CopyRows o1 s1 o2 s2 n rows src dst = Some d'"
    "memcpy (o1 + rows * s1) (o2 + rows * s2) n src d' = Some d"
    by (auto split: option.splits)
  have "d' ! i = dst ! i" using Suc d'(1) by auto
  moreover have "d ! i = d' ! i"
    using memcpy_Some(2) [OF d'(2), of i] CopyRows_length [OF d'(1)] Suc.prems by auto
  ultimately show ?case by simp
qed simp

lemma CopyRows_inside:
  "CopyRows o1 s1 o2 s2 n rows src dst = Some d \<Longrightarrow> y < rows \<Longrightarrow> x < n \<Longrightarrow> n \<le> s1 \<Longrightarrow>
   d ! (o1 + y * s1 + x) = src ! (o2 + y * s2 + x)"
proof (induction rows arbitrary: d)
  case (Suc rows)
  then obtain d' where d': "CopyRows o1 s1 o2 s2 n rows src dst = Some d'"
    "memcpy (o1 + rows * s1) (o2 + rows * s2) n src d' = Some d"
    by (auto split: option.splits)
  have bound: "o1 + rows * s1 + n \<le> length d'" using d'(2) by (auto simp: memcpy_def split: if_splits)
  show ?case
  proof (cases "y = rows")
    case True
    then show ?thesis using memcpy_Some(2) [OF d'(2), of "o1 + y * s1 + x"] bound Suc.prems by auto
  next
    case False
    then have y: "y < rows" using Suc.prems by simp
    then have "y * s1 + s1 \<le> rows * s1" using mult_le_mono1 [of "Suc y" rows s1] by simp
    then have "d ! (o1 + y * s1 + x) = d' ! (o1 + y * s1 + x)"
      using memcpy_Some(2) [OF d'(2), of "o1 + y * s1 + x"] bound Suc.prems by auto
    then show ?thesis using Suc.IH [OF d'(1) y] Suc.prems by simp
  qed
qed simp

text \<open>\<open>CopyRows\<close> stays inside when the last row of both sides does.\<close>

lemma CopyRows_ok:
  assumes "n \<le> s1" "n \<le> s2" "o1 + rows * s1 \<le> length dst" "o2 + rows * s2 \<le> length src"
  shows "\<exists>d. CopyRows o1 s1 o2 s2 n rows src dst = Some d"
  using assms
proof (induction rows)
  case (Suc rows)
  then obtain d where d: "CopyRows o1 s1 o2 s2 n rows src dst = Some d" by auto
  with Suc.prems CopyRows_length [OF d] show ?case by (simp add: memcpy_def)
qed simp

text \<open>
  The layout of a frame in memory, plane by plane: where a plane starts and how far apart its
  rows are, and how many columns and rows of it belong to the picture.
\<close>

definition planes :: "pix_fmt \<Rightarrow> nat \<Rightarrow> nat \<Rightarrow> (nat \<times> nat) list" where
  "planes fmt stride plane_height =
     (if fmt = NV12 then [(0, stride), (stride * plane_height, stride)]
      else [(0, stride), (stride * plane_height, stride div 2),
            (stride * plane_height + (stride div 2) * (plane_height div 2), stride div 2)])"

definition extents :: "pix_fmt \<Rightarrow> nat \<Rightarrow> nat \<Rightarrow> (nat \<times> nat) list" where
  "extents fmt width height =
     (if fmt = NV12 then [(width, height), (width, height div 2)]
      else [(width, height), (width div 2, height div 2), (width div 2, height div 2)])"

definition frame_bytes :: "pix_fmt \<Rightarrow> nat \<Rightarrow> nat \<Rightarrow> nat" where
  "frame_bytes fmt stride plane_height =
     stride * plane_height + (if fmt = NV12 then stride else 2 * (stride div 2)) * (plane_height div 2)"

definition pixel :: "nat list \<Rightarrow> nat \<times> nat \<Rightarrow> nat \<Rightarrow> nat \<Rightarrow> nat" where
  "pixel data plane y x = data ! (fst plane + y * snd plane + x)"

definition frame_fits :: "buffer_group \<Rightarrow> vframe \<Rightarrow> nat list \<Rightarrow> bool" where
  "frame_fits g f dst \<longleftrightarrow> vf_format f \<in> {YUV420, NV12} \<and>
     vf_width f \<le> vf_stride f \<and> vf_width f \<le> bg_bytesperline g \<and>
     vf_height f \<le> vf_plane_height f \<and> vf_height f \<le> bg_height g \<and>
     frame_bytes (vf_format f) (vf_stride f) (vf_plane_height f) \<le> length (vf_data f) \<and>
     frame_bytes (vf_format f) (bg_bytesperline g) (bg_height g) \<le> length dst"

lemma row_end: "y < (h :: nat) \<Longrightarrow> h \<le> H \<Longrightarrow> x < s \<Longrightarrow> o1 + y * s + x < o1 + H * s"
proof -
  assume "y < h" "h \<le> H" "x < s"
  then have "Suc y * s \<le> H * s" by (intro mult_le_mono1) simp
  then show ?thesis using \<open>x < s\<close> by simp
qed

lemma CopyPlanes_NV12:
  assumes "frame_fits g f dst" "vf_format f = NV12"
  shows "\<exists>d. CopyPlanes g f dst = Some d \<and>
    (y < vf_height f \<and> x < vf_width f \<longrightarrow>
       d ! (y * bg_bytesperline g + x) = vf_data f ! (y * vf_stride f + x)) \<and>
    (y < vf_height f div 2 \<and> x < vf_width f \<longrightarrow>
       d ! (bg_bytesperline g * bg_height g + y * bg_bytesperline g + x) =
       vf_data f ! (vf_stride f * vf_plane_height f + y * vf_stride f + x))"
proof -
  let ?ds = "bg_bytesperline g" and ?ss = "vf_stride f" and ?w = "vf_width f" and ?h = "vf_height f" and ?src = "vf_data f"
  have b: "?w \<le> ?ss" "?w \<le> ?ds" "?h \<le> vf_plane_height f" "?h \<le> bg_height g"
    "?ss * vf_plane_height f + ?ss * (vf_plane_height f div 2) \<le> length ?src"
    "?ds * bg_height g + ?ds * (bg_height g div 2) \<le> length dst"
    using assms by (auto simp: frame_fits_def frame_bytes_def)
  have m: "?h * ?ds \<le> ?ds * bg_height g" "?h * ?ss \<le> ?ss * vf_plane_height f"
    "?h div 2 * ?ds \<le> ?ds * (bg_height g div 2)" "?h div 2 * ?ss \<le> ?ss * (vf_plane_height f div 2)"
    using b(3,4) by (simp_all add: mult.commute mult_le_mono div_le_mono)
  obtain d where d: "CopyRows 0 ?ds 0 ?ss ?w ?h ?src dst = Some d"
    using CopyRows_ok [of ?w ?ds ?ss 0 ?h dst 0 ?src] b m by auto
  obtain d2 where d2: "CopyRows (?ds * bg_height g) ?ds (?ss * vf_plane_height f) ?ss ?w (?h div 2) ?src d = Some d2"
    using CopyRows_ok [of ?w ?ds ?ss "?ds * bg_height g" "?h div 2" d "?ss * vf_plane_height f" ?src]
      b m CopyRows_length [OF d] by auto
  have "d2 ! (y * ?ds + x) = ?src ! (y * ?ss + x)" if "y < ?h" "x < ?w"
  proof -
    have lt: "y * ?ds + x < ?ds * bg_height g"
      using row_end [OF that(1) b(4), of x ?ds 0] that b(2) by (simp add: mult.commute)
    then show ?thesis
      using CopyRows_outside [OF d2, of "y * ?ds + x"] CopyRows_inside [OF d that b(2)] CopyRows_length [OF d] b by simp
  qed
  then show ?thesis using d d2 assms(2) CopyRows_inside [OF d2 _ _ b(2)] by (simp add: CopyPlanes_def Let_def)
qed

lemma CopyPlanes_I420:
  assumes "frame_fits g f dst" "vf_format f = YUV420"
  defines "ds \<equiv> bg_bytesperline g" and "ss \<equiv> vf_stride f" and "w \<equiv> vf_width f" and "h \<equiv> vf_height f"
    and "H \<equiv> bg_height g" and "P \<equiv> vf_plane_height f"
  shows "\<exists>d. CopyPlanes g f dst = Some d \<and>
    (y < h \<and> x < w \<longrightarrow> d ! (y * ds + x) = vf_data f ! (y * ss + x)) \<and>
    (y < h div 2 \<and> x < w div 2 \<longrightarrow>
       d ! (ds * H + y * (ds div 2) + x) = vf_data f ! (ss * P + y * (ss div 2) + x)) \<and>
    (y < h div 2 \<and> x < w div 2 \<longrightarrow>
       d ! (ds * H + ds div 2 * (H div 2) + y * (ds div 2) + x) =
       vf_data f ! (ss * P + ss div 2 * (P div 2) + y * (ss div 2) + x))"
proof -
  let ?src = "vf_data f" and ?cd = "ds div 2" and ?cs = "ss div 2"
  have b: "w \<le> ss" "w \<le> ds" "h \<le> P" "h \<le> H" "w div 2 \<le> ?cs" "w div 2 \<le> ?cd" "h div 2 \<le> H div 2" "h div 2 \<le> P div 2"
    "ss * P + 2 * ?cs * (P div 2) \<le> length ?src" "ds * H + 2 * ?cd * (H div 2) \<le> length dst"
    using assms(1,2) by (auto simp: frame_fits_def frame_bytes_def ds_def ss_def w_def h_def H_def P_def div_le_mono)
  have m: "h * ds \<le> ds * H" "h * ss \<le> ss * P" "h div 2 * ?cd \<le> ?cd * (H div 2)" "h div 2 * ?cs \<le> ?cs * (P div 2)"
    using b(3,4,7,8) by (simp_all add: mult.commute mult_le_mono)
  obtain d where d: "CopyRows 0 ds 0 ss w h ?src dst = Some d"
    using CopyRows_ok [of w ds ss 0 h dst 0 ?src] b m by auto
  note ld = CopyRows_length [OF d]
  obtain d2 where d2: "CopyRows (ds * H) ?cd (ss * P) ?cs (w div 2) (h div 2) ?src d = Some d2"
    using CopyRows_ok [of "w div 2" ?cd ?cs "ds * H" "h div 2" d "ss * P" ?src] b m ld by auto
  note ld2 = CopyRows_length [OF d2]
  obtain d3 where d3: "CopyRows (ds * H + ?cd * (H div 2)) ?cd (ss * P + ?cs * (P div 2)) ?cs (w div 2) (h div 2) ?src d2 = Some d3"
    using CopyRows_ok [of "w div 2" ?cd ?cs "ds * H + ?cd * (H div 2)" "h div 2" d2 "ss * P + ?cs * (P div 2)" ?src] b m ld ld2 by auto
  have cp: "CopyPlanes g f dst = Some d3"
    using d d2 d3 assms(2) by (simp add: CopyPlanes_def Let_def ds_def ss_def w_def h_def H_def P_def)
  have y0: "d3 ! (y * ds + x) = ?src ! (y * ss + x)" if "y < h" "x < w"
  proof -
    have lt: "y * ds + x < ds * H"
      using row_end [OF that(1) b(4), of x ds 0] that b(2) by (simp add: mult.commute)
    show ?thesis
      using CopyRows_outside [OF d3, of "y * ds + x"] CopyRows_outside [OF d2, of "y * ds + x"]
        CopyRows_inside [OF d that b(2)] ld ld2 b lt by simp
  qed
  have y1: "d3 ! (ds * H + y * ?cd + x) = ?src ! (ss * P + y * ?cs + x)" if "y < h div 2" "x < w div 2"
  proof -
    have lt: "ds * H + y * ?cd + x < ds * H + ?cd * (H div 2)"
      using row_end [OF that(1) b(7), of x ?cd "ds * H"] that b(6) by (simp add: mult.commute)
    show ?thesis
      using CopyRows_outside [OF d3, of "ds * H + y * ?cd + x"] CopyRows_inside [OF d2 that b(6)] ld ld2 b lt by simp
  qed
  show ?thesis using cp y0 y1 CopyRows_inside [OF d3 _ _ b(6)] by blast
qed

text \<open>
  repacking keeps the picture. When a frame's rows or planes are laid out differently from
  the input buffer's, \<open>CopyPlanes\<close> stays inside both buffers, and every pixel of every plane of the
  picture is found at its place in the layout of the buffer.
\<close>

theorem repack_keeps_picture:
  assumes "frame_fits g f dst" "p < length (extents (vf_format f) (vf_width f) (vf_height f))"
    "(cols, rows) = extents (vf_format f) (vf_width f) (vf_height f) ! p" "y < rows" "x < cols"
  shows "\<exists>d. CopyPlanes g f dst = Some d \<and>
    pixel d (planes (vf_format f) (bg_bytesperline g) (bg_height g) ! p) y x =
    pixel (vf_data f) (planes (vf_format f) (vf_stride f) (vf_plane_height f) ! p) y x"
proof (cases "vf_format f = NV12")
  case True
  from CopyPlanes_NV12 [OF assms(1) True, of y x] show ?thesis
    using assms(2-5) True less_2_cases [of p] by (auto simp: extents_def planes_def pixel_def)
next
  case False
  with assms(1) have fmt: "vf_format f = YUV420" by (auto simp: frame_fits_def)
  from assms(2) fmt have "p = 0 \<or> p = 1 \<or> p = 2" by (auto simp: extents_def)
  then show ?thesis
    using CopyPlanes_I420 [OF assms(1) fmt, of y x] assms(3-5) fmt
    by (auto simp: extents_def planes_def pixel_def)
qed

definition tiny_frame :: vframe where
  "tiny_frame = \<lparr>vf_id = 1, vf_width = 2, vf_height = 2, vf_stride = 3, vf_plane_height = 2, vf_format = YUV420,
     vf_size = 9, vf_data = [1, 2, 0, 3, 4, 0, 5, 6, 0]\<rparr>"

theorem repack_keeps_picture_witness:
  "\<exists>d. CopyPlanes \<lparr>bg_dmabuf = False, bg_height = 2, bg_bytesperline = 4, bg_sizeimage = 12\<rparr> tiny_frame (replicate 12 9) = Some d \<and>
    pixel d (planes YUV420 4 2 ! 2) 0 0 = pixel [1, 2, 0, 3, 4, 0, 5, 6, 0] (planes YUV420 3 2 ! 2) 0 0"
proof -
  have "frame_fits \<lparr>bg_dmabuf = False, bg_height = 2, bg_bytesperline = 4, bg_sizeimage = 12\<rparr> tiny_frame (replicate 12 9)"
    "2 < length (extents (vf_format tiny_frame) (vf_width tiny_frame) (vf_height tiny_frame))"
    "(1, 1) = extents (vf_format tiny_frame) (vf_width tiny_frame) (vf_height tiny_frame) ! 2"
    by code_simp+
  from repack_keeps_picture [OF this, of 0 0] show ?thesis by (simp add: tiny_frame_def)
qed

section \<open>The pipeline\<close>

text \<open>
  \<open>cd_free\<close> is \<open>output_buffer_index_\<close>, \<open>cd_tasks\<close> is \<open>capturing_tasks_\<close> (a callback is the
  number of its frame), \<open>cd_mem\<close> the memory of the input buffers. Of the device: the input
  buffers it holds, the frames it has taken and not yet given back, and its capture buffers.
  \<open>cd_pc\<close> is where the producer stands inside \<open>EmplaceBuffer\<close>.
\<close>

datatype emplace_pc = PIdle | PFill nat vframe | PTask nat

record codec =
  cd_group :: buffer_group
  cd_abort :: bool
  cd_free :: "nat list"
  cd_tasks :: "nat list"
  cd_mem :: "nat \<Rightarrow> nat list"
  cd_queued :: "nat list"
  cd_hw :: "nat list"
  cd_cap :: "nat list"
  cd_pc :: emplace_pc

datatype codec_out =
    Dropped nat                    \<comment> \<open>the frame was not submitted\<close>
  | Submitted nat nat              \<comment> \<open>a frame and the \<open>bytesused\<close> of its buffer\<close>
  | Outside nat                    \<comment> \<open>a copy left its buffer: undefined behaviour\<close>
  | Deliver nat nat                \<comment> \<open>the callback of one frame is called with the result of another or the same\<close>

text \<open>\<open>PrepareBuffer\<close> and \<open>Start\<close>: the indices of the input buffers, all capture buffers queued.\<close>

definition push_all :: "nat list \<Rightarrow> nat list \<Rightarrow> nat list" where
  "push_all is q = fold (\<lambda>i q. snd (tsq_push kMaxSize i q)) is q"

definition CodecStart :: "buffer_group \<Rightarrow> nat \<Rightarrow> nat \<Rightarrow> nat \<Rightarrow> codec" where
  "CodecStart g mem_size buffer_num capture_num =
     \<lparr>cd_group = g, cd_abort = False, cd_free = push_all [0..<buffer_num] [], cd_tasks = [],
      cd_mem = (\<lambda>i. replicate mem_size 0), cd_queued = [], cd_hw = [], cd_cap = [0..<capture_num], cd_pc = PIdle\<rparr>"

text \<open>\<open>EmplaceBuffer\<close>: a free index or nothing; the copy and \<open>QueueBuffer\<close>; the callback.\<close>

definition EmplacePop :: "vframe \<Rightarrow> codec \<Rightarrow> codec \<times> codec_out list" where
  "EmplacePop f s =
     (if cd_pc s \<noteq> PIdle then (s, [])
      else case tsq_pop (cd_free s) of
             (None, _) \<Rightarrow> (s, [Dropped (vf_id f)])
           | (Some i, q) \<Rightarrow> (s\<lparr>cd_free := q, cd_pc := PFill i f\<rparr>, []))"

datatype filled = Fits nat "nat list" | TooBig | OutOfBounds

definition fill_buffer :: "buffer_group \<Rightarrow> vframe \<Rightarrow> nat list \<Rightarrow> filled" where
  "fill_buffer g f mem =
     (if bg_dmabuf g then Fits (vf_size f) mem
      else if NeedsRepack g f
      then (case CopyPlanes g f mem of None \<Rightarrow> OutOfBounds | Some d \<Rightarrow> Fits (bg_sizeimage g) d)
      else if length mem < vf_size f then TooBig
      else (case memcpy 0 0 (vf_size f) (vf_data f) mem of None \<Rightarrow> OutOfBounds | Some d \<Rightarrow> Fits (vf_size f) d))"

definition give_back :: "nat \<Rightarrow> codec \<Rightarrow> codec" where
  "give_back i s = s\<lparr>cd_free := snd (tsq_push kMaxSize i (cd_free s)), cd_pc := PIdle\<rparr>"

definition EmplaceQueue :: "bool \<Rightarrow> codec \<Rightarrow> codec \<times> codec_out list" where
  "EmplaceQueue queue_ok s =
     (case cd_pc s of
        PFill i f \<Rightarrow>
          (case fill_buffer (cd_group s) f (cd_mem s i) of
             TooBig \<Rightarrow> (give_back i s, [Dropped (vf_id f)])
           | OutOfBounds \<Rightarrow> (give_back i s, [Outside (vf_id f)])
           | Fits bytesused d \<Rightarrow>
               (let s1 = s\<lparr>cd_mem := (cd_mem s)(i := d)\<rparr>
                in if queue_ok
                   then (s1\<lparr>cd_queued := cd_queued s @ [i], cd_hw := cd_hw s @ [vf_id f], cd_pc := PTask (vf_id f)\<rparr>,
                         [Submitted (vf_id f) bytesused])
                   else (give_back i s1, [Dropped (vf_id f)])))
      | _ \<Rightarrow> (s, []))"

definition EmplaceTask :: "codec \<Rightarrow> codec \<times> codec_out list" where
  "EmplaceTask s =
     (case cd_pc s of
        PTask f \<Rightarrow> (s\<lparr>cd_tasks := snd (tsq_push kMaxSize f (cd_tasks s)), cd_pc := PIdle\<rparr>, [])
      | _ \<Rightarrow> (s, []))"

text \<open>
  One turn of \<open>CaptureBuffer\<close>. What \<open>select\<close> and the driver answer is given: whether something
  is ready, the input buffer it returns (\<open>Some None\<close>: \<open>DQBUF\<close> failed), the capture buffer it
  returns and whether it takes it back, and whether the frame size changed. \<open>abort_\<close> is read three
  times; another thread may set it in between.
\<close>

record capture_env =
  ce_ready :: bool
  ce_abort1 :: bool
  ce_abort2 :: bool
  ce_out :: "nat option option"
  ce_in :: "(nat \<times> bool) option option"
  ce_source_change :: bool

definition ReturnInput :: "nat option option \<Rightarrow> codec \<Rightarrow> codec" where
  "ReturnInput r s =
     (case r of
        Some (Some i) \<Rightarrow>
          if i \<in> set (cd_queued s)
          then s\<lparr>cd_queued := remove1 i (cd_queued s), cd_free := snd (tsq_push kMaxSize i (cd_free s))\<rparr> else s
      | _ \<Rightarrow> s)"

text \<open>The captured frame: dequeued, given to the next callback if there is one, queued again.\<close>

definition CaptureFrame :: "bool \<Rightarrow> nat \<Rightarrow> bool \<Rightarrow> codec \<Rightarrow> codec \<times> codec_out list" where
  "CaptureFrame aborted j requeue_ok s =
     (case cd_hw s of
        [] \<Rightarrow> (s, [])
      | g # hw \<Rightarrow>
          if j \<notin> set (cd_cap s) then (s, [])
          else let s1 = s\<lparr>cd_hw := hw, cd_cap := remove1 j (cd_cap s)\<rparr>
               in if aborted then (s1, [])
                  else let s2 = s1\<lparr>cd_tasks := snd (tsq_pop (cd_tasks s1)),
                                   cd_cap := (if requeue_ok then cd_cap s1 @ [j] else cd_cap s1)\<rparr>
                       in (s2, case fst (tsq_pop (cd_tasks s1)) of None \<Rightarrow> [] | Some f \<Rightarrow> [Deliver f g]))"

text \<open>\<open>HandleEvent\<close> for a source change: the stream is turned off, the capture buffers are freed
  and allocated anew, and the stream is turned on; they are not queued.\<close>

definition HandleSourceChange :: "codec \<Rightarrow> codec" where
  "HandleSourceChange s = s\<lparr>cd_cap := []\<rparr>"

definition CaptureBuffer :: "capture_env \<Rightarrow> codec \<Rightarrow> codec \<times> codec_out list" where
  "CaptureBuffer e s =
     (if cd_abort s then (s, [])
      else let s0 = s\<lparr>cd_abort := ce_abort1 e \<or> ce_abort2 e\<rparr>
           in if ce_abort1 e \<or> \<not> ce_ready e then (s0, [])
              else let s1 = ReturnInput (ce_out e) s0;
                       change = (\<lambda>s. if ce_source_change e then HandleSourceChange s else s)
                   in case ce_in e of
                        None \<Rightarrow> (change s1, [])
                      | Some None \<Rightarrow> (s1, [])
                      | Some (Some (j, requeue_ok)) \<Rightarrow>
                          (case CaptureFrame (ce_abort2 e) j requeue_ok s1 of
                             (s2, os) \<Rightarrow> (if ce_abort2 e \<or> \<not> requeue_ok then s2 else change s2, os)))"

datatype codec_event = CdPop vframe | CdQueue bool | CdTask | CdCapture capture_env | CdAbort

fun codec_step :: "codec \<Rightarrow> codec_event \<Rightarrow> codec \<times> codec_out list" where
  "codec_step s (CdPop f) = EmplacePop f s"
| "codec_step s (CdQueue ok) = EmplaceQueue ok s"
| "codec_step s CdTask = EmplaceTask s"
| "codec_step s (CdCapture e) = CaptureBuffer e s"
| "codec_step s CdAbort = (s\<lparr>cd_abort := True\<rparr>, [])"

lemmas codec_ops = EmplacePop_def EmplaceQueue_def give_back_def EmplaceTask_def ReturnInput_def
  CaptureFrame_def HandleSourceChange_def CaptureBuffer_def

section \<open>Every input buffer is in one place\<close>

fun held :: "emplace_pc \<Rightarrow> nat list" where
  "held (PFill i f) = [i]"
| "held _ = []"

definition buffers_inv :: "nat \<Rightarrow> codec \<Rightarrow> bool" where
  "buffers_inv n s \<longleftrightarrow> mset (cd_free s @ held (cd_pc s) @ cd_queued s) = mset [0..<n] \<and> distinct (cd_cap s)"

lemma push_room: "length q < m \<Longrightarrow> snd (tsq_push m t q) = q @ [t]"
  by (simp add: tsq_push_def)

lemma buffers_room:
  assumes "buffers_inv n s" "n \<le> kMaxSize" "held (cd_pc s) \<noteq> [] \<or> cd_queued s \<noteq> []"
  shows "length (cd_free s) < kMaxSize"
proof -
  have "length (cd_free s @ held (cd_pc s) @ cd_queued s) = n"
    using assms(1) by (metis buffers_inv_def diff_zero length_upt size_mset)
  with assms(2,3) show ?thesis by (cases "held (cd_pc s)"; cases "cd_queued s") auto
qed

lemma give_back_inv:
  "buffers_inv n s \<Longrightarrow> n \<le> kMaxSize \<Longrightarrow> cd_pc s = PFill i f \<Longrightarrow> buffers_inv n (give_back i s)"
  using buffers_room [of n s] by (auto simp: give_back_def push_room buffers_inv_def ac_simps)

lemma buffers_mem: "buffers_inv n (s\<lparr>cd_mem := m\<rparr>) = buffers_inv n s"
  by (simp add: buffers_inv_def)

lemma EmplaceQueue_inv:
  assumes "buffers_inv n s" "n \<le> kMaxSize"
  shows "buffers_inv n (fst (EmplaceQueue ok s))"
proof (cases "cd_pc s")
  case (PFill i f)
  let ?gb = "\<lambda>m. give_back i (s\<lparr>cd_mem := m\<rparr>)"
  have "buffers_inv n (give_back i s)" "buffers_inv n (?gb m)" for m
    using give_back_inv [OF assms PFill] give_back_inv [of n "s\<lparr>cd_mem := m\<rparr>" i f] assms PFill
    by (auto simp: buffers_mem)
  then show ?thesis
    using assms PFill by (auto simp: EmplaceQueue_def Let_def buffers_inv_def ac_simps split: filled.splits)
qed (use assms in \<open>auto simp: EmplaceQueue_def\<close>)

lemma ReturnInput_inv:
  assumes "buffers_inv n s" "n \<le> kMaxSize"
  shows "buffers_inv n (ReturnInput r s)"
proof -
  have "buffers_inv n (s\<lparr>cd_queued := remove1 i (cd_queued s), cd_free := snd (tsq_push kMaxSize i (cd_free s))\<rparr>)"
    if "i \<in> set (cd_queued s)" for i
  proof -
    have "length (cd_free s) < kMaxSize" using buffers_room [OF assms] that by (cases "cd_queued s") auto
    moreover have "mset (cd_queued s) = add_mset i (mset (remove1 i (cd_queued s)))" using that by simp
    ultimately show ?thesis using assms(1) by (simp add: buffers_inv_def push_room ac_simps del: mset_remove1)
  qed
  then show ?thesis using assms(1) by (auto simp: ReturnInput_def split: option.splits)
qed

lemma CaptureFrame_inv: "buffers_inv n s \<Longrightarrow> buffers_inv n (fst (CaptureFrame a j r s))"
  by (auto simp: CaptureFrame_def buffers_inv_def Let_def distinct_remove1 split: list.splits)

lemma buffers_flags: "buffers_inv n (s\<lparr>cd_abort := a\<rparr>) = buffers_inv n s"
  "buffers_inv n s \<Longrightarrow> buffers_inv n (HandleSourceChange s)"
  by (simp_all add: buffers_inv_def HandleSourceChange_def)

lemma CaptureBuffer_inv:
  assumes "buffers_inv n s" "n \<le> kMaxSize"
  shows "buffers_inv n (fst (CaptureBuffer e s))"
proof -
  let ?s1 = "ReturnInput (ce_out e) (s\<lparr>cd_abort := ce_abort1 e \<or> ce_abort2 e\<rparr>)"
  have "buffers_inv n ?s1" using ReturnInput_inv assms by (simp add: buffers_flags)
  moreover from this have "buffers_inv n (fst (CaptureFrame a j r ?s1))" for a j r
    by (rule CaptureFrame_inv)
  ultimately show ?thesis
    using assms buffers_flags(2)
    by (auto simp: CaptureBuffer_def Let_def buffers_flags(1) split: option.splits prod.splits) (metis fst_conv)+
qed

lemma codec_step_inv:
  assumes "n \<le> kMaxSize \<and> buffers_inv n s"
  shows "n \<le> kMaxSize \<and> buffers_inv n (fst (codec_step s e))"
proof (cases e)
  case (CdPop f)
  then show ?thesis
    using assms by (cases "cd_free s") (auto simp: EmplacePop_def buffers_inv_def)
next
  case CdTask
  then show ?thesis
    using assms by (cases "cd_pc s") (auto simp: EmplaceTask_def buffers_inv_def)
qed (use assms EmplaceQueue_inv CaptureBuffer_inv in \<open>auto simp: buffers_flags\<close>)

interpretation pipe: machine codec_step "\<lambda>s. n \<le> kMaxSize \<and> buffers_inv n s" for n
  by unfold_locales (rule codec_step_inv)

lemma push_all_app: "length q + length is \<le> kMaxSize \<Longrightarrow> push_all is q = q @ is"
  by (induction "is" arbitrary: q) (simp_all add: push_all_def push_room)

lemma CodecStart_inv: "n \<le> kMaxSize \<Longrightarrow> n \<le> kMaxSize \<and> buffers_inv n (CodecStart g sz n m)"
  by (simp add: CodecStart_def buffers_inv_def push_all_app)

text \<open>
  C30: no input buffer is lost and none is used twice. However producer and worker interleave,
  whatever the copies and the driver answer, each of the at most eight input buffers is in
  exactly one place: free, being filled, or with the device.
\<close>

theorem input_buffers_conserved:
  assumes "n \<le> kMaxSize" "s = fst (run codec_step (CodecStart g sz n m) es)"
  shows "mset (cd_free s @ held (cd_pc s) @ cd_queued s) = mset [0..<n]"
  using pipe.inv_run [OF CodecStart_inv [OF assms(1)], of g sz m es] assms(2) by (simp add: buffers_inv_def)

definition tiny_group :: buffer_group where
  "tiny_group = \<lparr>bg_dmabuf = False, bg_height = 2, bg_bytesperline = 4, bg_sizeimage = 12\<rparr>"

definition quiet_env :: capture_env where
  "quiet_env = \<lparr>ce_ready = True, ce_abort1 = False, ce_abort2 = False, ce_out = None, ce_in = None, ce_source_change = False\<rparr>"

definition frame_no :: "nat \<Rightarrow> vframe" where
  "frame_no i = tiny_frame\<lparr>vf_id := i\<rparr>"

theorem input_buffers_conserved_witness:
  "mset (cd_free (fst (run codec_step (CodecStart tiny_group 12 2 2)
      [CdPop (frame_no 1), CdQueue True, CdTask, CdPop (frame_no 2), CdQueue False, CdPop (frame_no 3)])) @ [1] @ [0]) = mset [0..<2]"
proof -
  define s where "s = fst (run codec_step (CodecStart tiny_group 12 2 2)
      [CdPop (frame_no 1), CdQueue True, CdTask, CdPop (frame_no 2), CdQueue False, CdPop (frame_no 3)])"
  have "held (cd_pc s) = [1]" "cd_queued s = [0]" unfolding s_def by code_simp+
  with input_buffers_conserved [OF _ s_def] show ?thesis unfolding s_def [symmetric] by (simp add: kMaxSize_def)
qed

section \<open>Callbacks and results\<close>

text \<open>
  The use that keeps callbacks and results together: \<open>EmplaceBuffer\<close> is through before the
  worker takes the result of its frame, and the device refuses a ninth frame.
\<close>

datatype sync_event = SEmplace vframe bool | SCapture capture_env

fun sync_step :: "codec \<Rightarrow> sync_event \<Rightarrow> codec \<times> codec_out list" where
  "sync_step s (SEmplace f ok) =
     andthen (andthen (EmplacePop f s) (EmplaceQueue (ok \<and> length (cd_hw s) < kMaxSize))) EmplaceTask"
| "sync_step s (SCapture e) = CaptureBuffer e s"

text \<open>
  The specification: a pipeline that is one queue of frames. The result of a frame goes to the
  callback of that frame. What fails is given by the event, as for the code.
\<close>

record pipe =
  pp_group :: buffer_group
  pp_abort :: bool
  pp_free :: "nat list"
  pp_mem :: "nat \<Rightarrow> nat list"
  pp_queued :: "nat list"
  pp_fifo :: "nat list"
  pp_cap :: "nat list"

datatype pipe_out = Taken nat | Result nat nat

fun visible :: "codec_out \<Rightarrow> pipe_out option" where
  "visible (Submitted f n) = Some (Taken f)"
| "visible (Deliver f g) = Some (Result f g)"
| "visible _ = None"

definition pipe_of :: "codec \<Rightarrow> pipe" where
  "pipe_of s = \<lparr>pp_group = cd_group s, pp_abort = cd_abort s, pp_free = cd_free s, pp_mem = cd_mem s,
     pp_queued = cd_queued s, pp_fifo = cd_hw s, pp_cap = cd_cap s\<rparr>"

definition pipe_take :: "vframe \<Rightarrow> bool \<Rightarrow> pipe \<Rightarrow> pipe \<times> pipe_out list" where
  "pipe_take f ok s =
     (case pp_free s of
        [] \<Rightarrow> (s, [])
      | i # q \<Rightarrow>
          (case fill_buffer (pp_group s) f (pp_mem s i) of
             Fits n d \<Rightarrow>
               (let s1 = s\<lparr>pp_mem := (pp_mem s)(i := d)\<rparr>
                in if ok \<and> length (pp_fifo s) < kMaxSize
                   then (s1\<lparr>pp_free := q, pp_queued := pp_queued s @ [i], pp_fifo := pp_fifo s @ [vf_id f]\<rparr>, [Taken (vf_id f)])
                   else (s1\<lparr>pp_free := snd (tsq_push kMaxSize i q)\<rparr>, []))
           | _ \<Rightarrow> (s\<lparr>pp_free := snd (tsq_push kMaxSize i q)\<rparr>, [])))"

definition pipe_return :: "nat option option \<Rightarrow> pipe \<Rightarrow> pipe" where
  "pipe_return r s =
     (case r of
        Some (Some i) \<Rightarrow>
          if i \<in> set (pp_queued s)
          then s\<lparr>pp_queued := remove1 i (pp_queued s), pp_free := snd (tsq_push kMaxSize i (pp_free s))\<rparr> else s
      | _ \<Rightarrow> s)"

definition pipe_result :: "bool \<Rightarrow> nat \<Rightarrow> bool \<Rightarrow> pipe \<Rightarrow> pipe \<times> pipe_out list" where
  "pipe_result aborted j requeue_ok s =
     (case pp_fifo s of
        [] \<Rightarrow> (s, [])
      | g # fifo \<Rightarrow>
          if j \<notin> set (pp_cap s) then (s, [])
          else let s1 = s\<lparr>pp_fifo := fifo, pp_cap := remove1 j (pp_cap s)\<rparr>
               in if aborted then (s1, [])
                  else (s1\<lparr>pp_cap := (if requeue_ok then pp_cap s1 @ [j] else pp_cap s1)\<rparr>, [Result g g]))"

definition pipe_capture :: "capture_env \<Rightarrow> pipe \<Rightarrow> pipe \<times> pipe_out list" where
  "pipe_capture e s =
     (if pp_abort s then (s, [])
      else let s0 = s\<lparr>pp_abort := ce_abort1 e \<or> ce_abort2 e\<rparr>
           in if ce_abort1 e \<or> \<not> ce_ready e then (s0, [])
              else let s1 = pipe_return (ce_out e) s0;
                       change = (\<lambda>s. if ce_source_change e then s\<lparr>pp_cap := []\<rparr> else s)
                   in case ce_in e of
                        None \<Rightarrow> (change s1, [])
                      | Some None \<Rightarrow> (s1, [])
                      | Some (Some (j, requeue_ok)) \<Rightarrow>
                          (case pipe_result (ce_abort2 e) j requeue_ok s1 of
                             (s2, os) \<Rightarrow> (if ce_abort2 e \<or> \<not> requeue_ok then s2 else change s2, os)))"

fun pipe_step :: "pipe \<Rightarrow> sync_event \<Rightarrow> pipe \<times> pipe_out list" where
  "pipe_step s (SEmplace f ok) = pipe_take f ok s"
| "pipe_step s (SCapture e) = pipe_capture e s"

definition sync_inv :: "codec \<Rightarrow> bool" where
  "sync_inv s \<longleftrightarrow> cd_pc s = PIdle \<and> length (cd_hw s) \<le> kMaxSize \<and> (cd_abort s \<or> cd_tasks s = cd_hw s)"

lemma pipe_of_simps [simp]:
  "pp_group (pipe_of s) = cd_group s" "pp_abort (pipe_of s) = cd_abort s" "pp_free (pipe_of s) = cd_free s"
  "pp_mem (pipe_of s) = cd_mem s" "pp_queued (pipe_of s) = cd_queued s" "pp_fifo (pipe_of s) = cd_hw s"
  "pp_cap (pipe_of s) = cd_cap s"
  by (simp_all add: pipe_of_def)

lemma pipe_eq: "pipe_of s = p \<longleftrightarrow> cd_group s = pp_group p \<and> cd_abort s = pp_abort p \<and> cd_free s = pp_free p \<and>
    cd_mem s = pp_mem p \<and> cd_queued s = pp_queued p \<and> cd_hw s = pp_fifo p \<and> cd_cap s = pp_cap p"
  by (cases p) (auto simp: pipe_of_def)

lemma visible_filter [simp]:
  "List.map_filter visible [] = []"
  "List.map_filter visible (x # xs) = (case visible x of None \<Rightarrow> List.map_filter visible xs | Some y \<Rightarrow> y # List.map_filter visible xs)"
  by (simp_all add: List.map_filter_simps)

lemma emplace_sync:
  fixes f :: vframe and ok :: bool
  assumes "sync_inv s"
  defines "r \<equiv> sync_step s (SEmplace f ok)"
  shows "sync_inv (fst r) \<and> pipe_of (fst r) = fst (pipe_take f ok (pipe_of s)) \<and>
    List.map_filter visible (snd r) = snd (pipe_take f ok (pipe_of s))"
proof (cases "cd_free s")
  case Nil
  then show ?thesis
    using assms(1) by (simp add: r_def sync_inv_def pipe_take_def EmplacePop_def EmplaceQueue_def EmplaceTask_def)
next
  case (Cons i q)
  then show ?thesis
    using assms(1)
    by (cases "fill_buffer (cd_group s) f (cd_mem s i)")
       (auto simp: r_def sync_inv_def pipe_take_def pipe_eq EmplacePop_def EmplaceQueue_def EmplaceTask_def
         give_back_def Let_def push_room)
qed

lemma return_sync: "pipe_of (ReturnInput r s) = pipe_return r (pipe_of s)"
  "cd_tasks (ReturnInput r s) = cd_tasks s" "cd_pc (ReturnInput r s) = cd_pc s"
  "cd_hw (ReturnInput r s) = cd_hw s" "cd_abort (ReturnInput r s) = cd_abort s"
  by (auto simp: ReturnInput_def pipe_return_def pipe_eq split: option.splits)

lemma frame_sync:
  fixes a rq :: bool and j :: nat
  assumes "cd_pc s = PIdle" "length (cd_hw s) \<le> kMaxSize" "cd_tasks s = cd_hw s" "a \<longrightarrow> cd_abort s"
  defines "r \<equiv> CaptureFrame a j rq s"
  shows "sync_inv (fst r) \<and> pipe_of (fst r) = fst (pipe_result a j rq (pipe_of s)) \<and>
    List.map_filter visible (snd r) = snd (pipe_result a j rq (pipe_of s))"
  using assms(1-4)
  by (cases "cd_hw s") (auto simp: r_def CaptureFrame_def pipe_result_def sync_inv_def pipe_eq Let_def)

lemma change_sync: "sync_inv s \<Longrightarrow> sync_inv (HandleSourceChange s)"
  "pipe_of (HandleSourceChange s) = (pipe_of s)\<lparr>pp_cap := []\<rparr>"
  by (auto simp: sync_inv_def HandleSourceChange_def pipe_eq)

lemma capture_sync:
  fixes e :: capture_env
  assumes "sync_inv s"
  defines "r \<equiv> CaptureBuffer e s"
  shows "sync_inv (fst r) \<and> pipe_of (fst r) = fst (pipe_capture e (pipe_of s)) \<and>
    List.map_filter visible (snd r) = snd (pipe_capture e (pipe_of s))"
proof -
  let ?s0 = "s\<lparr>cd_abort := ce_abort1 e \<or> ce_abort2 e\<rparr>"
  define s1 where "s1 = ReturnInput (ce_out e) ?s0"
  have p0: "pipe_of ?s0 = (pipe_of s)\<lparr>pp_abort := ce_abort1 e \<or> ce_abort2 e\<rparr>" by (simp add: pipe_eq)
  have p1: "pipe_of s1 = pipe_return (ce_out e) ((pipe_of s)\<lparr>pp_abort := ce_abort1 e \<or> ce_abort2 e\<rparr>)"
    unfolding s1_def return_sync p0 ..
  consider "cd_abort s" | "\<not> cd_abort s" "ce_abort1 e \<or> \<not> ce_ready e" | "\<not> cd_abort s" "\<not> ce_abort1 e" "ce_ready e"
    by blast
  then show ?thesis
  proof cases
    case 1
    then show ?thesis using assms(1) by (simp add: r_def CaptureBuffer_def pipe_capture_def)
  next
    case 2
    then show ?thesis
      using assms(1) by (auto simp: r_def CaptureBuffer_def pipe_capture_def p0 sync_inv_def)
  next
    case 3
    have i1: "cd_pc s1 = PIdle" "length (cd_hw s1) \<le> kMaxSize" "cd_tasks s1 = cd_hw s1" "ce_abort2 e \<longrightarrow> cd_abort s1"
      using assms(1) 3 by (simp_all add: s1_def return_sync sync_inv_def)
    then have inv1: "sync_inv s1" by (simp add: sync_inv_def)
    have s1': "ReturnInput (ce_out e) (s\<lparr>cd_abort := ce_abort2 e\<rparr>) = s1"
      "pipe_return (ce_out e) ((pipe_of s)\<lparr>pp_abort := ce_abort2 e\<rparr>) = pipe_of s1"
      using 3 p1 by (simp add: s1_def, simp)
    note p1' = s1'(2)
    have r: "r = (case ce_in e of
          None \<Rightarrow> (if ce_source_change e then HandleSourceChange s1 else s1, [])
        | Some None \<Rightarrow> (s1, [])
        | Some (Some (j, rq)) \<Rightarrow> (case CaptureFrame (ce_abort2 e) j rq s1 of (s2, os) \<Rightarrow>
            (if ce_abort2 e \<or> \<not> rq then s2 else if ce_source_change e then HandleSourceChange s2 else s2, os)))"
      using 3 by (simp add: r_def CaptureBuffer_def s1' Let_def cong: if_cong option.case_cong)
    have q: "pipe_capture e (pipe_of s) = (case ce_in e of
          None \<Rightarrow> (if ce_source_change e then (pipe_of s1)\<lparr>pp_cap := []\<rparr> else pipe_of s1, [])
        | Some None \<Rightarrow> (pipe_of s1, [])
        | Some (Some (j, rq)) \<Rightarrow> (case pipe_result (ce_abort2 e) j rq (pipe_of s1) of (s2, os) \<Rightarrow>
            (if ce_abort2 e \<or> \<not> rq then s2 else if ce_source_change e then s2\<lparr>pp_cap := []\<rparr> else s2, os)))"
      using 3 by (simp add: pipe_capture_def p1' Let_def cong: if_cong option.case_cong)
    show ?thesis
    proof (cases "\<exists>j rq. ce_in e = Some (Some (j, rq))")
      case True
      then obtain j rq where j: "ce_in e = Some (Some (j, rq))" by blast
      obtain s2 os where c: "CaptureFrame (ce_abort2 e) j rq s1 = (s2, os)" by fastforce
      from frame_sync [OF i1, of j rq] c
      have f: "sync_inv s2" "pipe_result (ce_abort2 e) j rq (pipe_of s1) = (pipe_of s2, List.map_filter visible os)"
        by (simp_all add: prod_eq_iff)
      show ?thesis unfolding r q j using c f change_sync by simp
    next
      case False
      then have "ce_in e = None \<or> ce_in e = Some None" by (cases "ce_in e"; cases "the (ce_in e)") auto
      then show ?thesis unfolding r q using inv1 change_sync by auto
    qed
  qed
qed

lemma sync_refines:
  assumes "sync_inv s"
  shows "sync_inv (fst (sync_step s e))" "pipe_of (fst (sync_step s e)) = fst (pipe_step (pipe_of s) e)"
    "List.map_filter visible (snd (sync_step s e)) = snd (pipe_step (pipe_of s) e)"
  using emplace_sync [OF assms] capture_sync [OF assms] by (cases e; simp)+

interpretation fifo: refinement sync_step sync_inv pipe_step pipe_of visible
  by unfold_locales (rule sync_refines; assumption)+

text \<open>In the specification results come back in the order the frames were taken.\<close>

definition taken :: "pipe_out list \<Rightarrow> nat list" where
  "taken os = List.map_filter (\<lambda>x. case x of Taken f \<Rightarrow> Some f | Result f g \<Rightarrow> None) os"

definition results :: "pipe_out list \<Rightarrow> (nat \<times> nat) list" where
  "results os = List.map_filter (\<lambda>x. case x of Taken f \<Rightarrow> None | Result f g \<Rightarrow> Some (f, g)) os"

definition delivered :: "codec_out list \<Rightarrow> (nat \<times> nat) list" where
  "delivered os = results (List.map_filter visible os)"

definition submitted :: "codec_out list \<Rightarrow> nat list" where
  "submitted os = taken (List.map_filter visible os)"

lemma pipe_step_outs:
  "(\<exists>f. snd (pipe_step s e) = [Taken f] \<and> pp_fifo (fst (pipe_step s e)) = pp_fifo s @ [f] \<and>
      pp_abort (fst (pipe_step s e)) = pp_abort s) \<or>
   (\<exists>g fifo. pp_fifo s = g # fifo \<and> \<not> pp_abort s \<and> snd (pipe_step s e) = [Result g g] \<and>
      pp_fifo (fst (pipe_step s e)) = fifo) \<or>
   snd (pipe_step s e) = [] \<and> (pp_abort s \<longrightarrow> pp_abort (fst (pipe_step s e))) \<and>
     (pp_fifo (fst (pipe_step s e)) = pp_fifo s \<or> pp_abort (fst (pipe_step s e)))"
proof (cases e)
  case (SEmplace f ok)
  then show ?thesis
    by (cases "pp_free s"; cases "fill_buffer (pp_group s) f (pp_mem s (hd (pp_free s)))")
       (auto simp: pipe_take_def Let_def)
next
  case (SCapture c)
  have ret: "pp_fifo (pipe_return r t) = pp_fifo t" "pp_abort (pipe_return r t) = pp_abort t" for r t
    by (auto simp: pipe_return_def split: option.splits)
  have res: "snd (pipe_result a j rq t) = [] \<and> pp_abort (fst (pipe_result a j rq t)) = pp_abort t \<and>
        (pp_fifo (fst (pipe_result a j rq t)) = pp_fifo t \<or> a) \<or>
      (\<exists>g fifo. pp_fifo t = g # fifo \<and> snd (pipe_result a j rq t) = [Result g g] \<and>
        pp_fifo (fst (pipe_result a j rq t)) = fifo)" for a j rq t
    by (auto simp: pipe_result_def Let_def split: list.splits)
  show ?thesis
  proof (cases "pp_abort s \<or> ce_abort1 c \<or> \<not> ce_ready c")
    case True
    then show ?thesis by (auto simp: SCapture pipe_capture_def Let_def)
  next
    case False
    define t where "t = pipe_return (ce_out c) (s\<lparr>pp_abort := ce_abort2 c\<rparr>)"
    have t: "pp_fifo t = pp_fifo s" "pp_abort t = ce_abort2 c" by (simp_all add: t_def ret)
    show ?thesis
    proof (cases "\<exists>j rq. ce_in c = Some (Some (j, rq))")
      case True
      then obtain j rq where "ce_in c = Some (Some (j, rq))" by blast
      then show ?thesis
        using False res [of "ce_abort2 c" j rq t] t
        by (auto simp: SCapture pipe_capture_def Let_def t_def [symmetric] split: prod.splits)
    next
      case c: False
      then have "ce_in c = None \<or> ce_in c = Some None" by (cases "ce_in c"; cases "the (ce_in c)") auto
      then show ?thesis using False by (auto simp: SCapture pipe_capture_def Let_def ret)
    qed
  qed
qed

definition in_order :: "pipe \<Rightarrow> pipe_out list \<Rightarrow> bool" where
  "in_order s os \<longleftrightarrow> (\<forall>(f, g) \<in> set (results os). f = g) \<and>
     (\<exists>rest. taken os = map snd (results os) @ rest \<and> (pp_abort s \<or> rest = pp_fifo s))"

lemma outs_app [simp]: "taken (xs @ ys) = taken xs @ taken ys" "results (xs @ ys) = results xs @ results ys"
  "taken [] = []" "results [] = []" "taken [Taken f] = [f]" "results [Taken f] = []"
  "taken [Result f g] = []" "results [Result f g] = [(f, g)]"
  by (simp_all add: taken_def results_def List.map_filter_def)

lemma in_order_step: "in_order s os \<Longrightarrow> in_order (fst (pipe_step s e)) (os @ snd (pipe_step s e))"
  using pipe_step_outs [of s e] by (elim disjE) (fastforce simp: in_order_def)+

lemma in_order_run: "in_order s os \<Longrightarrow> in_order (fst (run pipe_step s es)) (os @ snd (run pipe_step s es))"
proof (induction es arbitrary: s os)
  case (Cons e es)
  from Cons.IH [OF in_order_step [OF Cons.prems, of e]] show ?case by simp
qed simp


definition one_result :: capture_env where
  "one_result = quiet_env\<lparr>ce_out := Some (Some 0), ce_in := Some (Some (0, True))\<rparr>"

definition round_trip :: "nat \<Rightarrow> codec_event list" where
  "round_trip f = [CdPop (frame_no f), CdQueue True, CdTask, CdCapture one_result]"

definition late_callback :: "nat \<Rightarrow> codec_event list" where
  "late_callback f = [CdPop (frame_no f), CdQueue True, CdCapture one_result, CdTask]"

definition dma_group :: buffer_group where
  "dma_group = tiny_group\<lparr>bg_dmabuf := True\<rparr>"

definition behind :: "nat \<Rightarrow> codec \<Rightarrow> bool" where
  "behind a s \<longleftrightarrow> cd_pc s = PIdle \<and> cd_free s = [0] \<and> cd_queued s = [] \<and> cd_hw s = [] \<and> cd_cap s = [0] \<and>
     cd_tasks s = [a] \<and> \<not> cd_abort s \<and> cd_group s = dma_group"

lemmas codec_demo = round_trip_def late_callback_def one_result_def quiet_env_def frame_no_def tiny_frame_def
  dma_group_def tiny_group_def fill_buffer_def kMaxSize_def tsq_push_def

lemma round_trip_behind:
  "behind a s \<Longrightarrow> behind f (fst (run codec_step s (round_trip f))) \<and>
     delivered (snd (run codec_step s (round_trip f))) = [(a, f)]"
  by (simp add: codec_demo codec_ops behind_def Let_def delivered_def results_def List.map_filter_def)

lemma late_callback_behind:
  "behind a (fst (run codec_step (CodecStart dma_group 0 1 1) (late_callback a))) \<and>
   delivered (snd (run codec_step (CodecStart dma_group 0 1 1) (late_callback a))) = []"
  by (simp add: codec_demo codec_ops behind_def Let_def delivered_def CodecStart_def push_all_def)

lemma delivered_app: "delivered (xs @ ys) = delivered xs @ delivered ys"
  by (simp add: delivered_def results_def List.map_filter_def)

lemma behind_run: "behind a s \<Longrightarrow> delivered (snd (run codec_step s (concat (map round_trip fs)))) = zip (a # fs) fs"
proof (induction fs arbitrary: a s)
  case (Cons f fs)
  note r = round_trip_behind [OF Cons.prems, of f]
  show ?case using Cons.IH [OF conjunct1 [OF r]] r by (simp add: snd_run_append delivered_app del: run_Cons)
qed (simp add: delivered_def)

text \<open>
  a result that overtakes its callback shifts all later ones. The worker may take the result
  of a frame between the producer's \<open>QueueBuffer\<close> and its \<open>push\<close> of the callback; the result is
  then thrown away, its callback waits for the next result, and from then on every callback gets
  the result of the frame after its own.
\<close>

theorem late_callback_shifts_results:
  "delivered (snd (run codec_step (CodecStart dma_group 0 1 1) (late_callback a @ concat (map round_trip fs)))) = zip (a # fs) fs"
  using behind_run [OF conjunct1 [OF late_callback_behind [of a]]] late_callback_behind [of a]
  by (simp add: snd_run_append delivered_app del: run_Cons)

lemma no_cap_CaptureBuffer: "cd_cap s = [] \<Longrightarrow> cd_cap (fst (CaptureBuffer e s)) = [] \<and> snd (CaptureBuffer e s) = []"
proof -
  assume "cd_cap s = []"
  moreover have "cd_cap (ReturnInput r t) = cd_cap t" for r t by (auto simp: ReturnInput_def split: option.splits)
  moreover have "CaptureFrame a j rq t = (t, [])" if "cd_cap t = []" for a j rq t
    using that by (auto simp: CaptureFrame_def split: list.splits)
  ultimately show ?thesis
    by (auto simp: CaptureBuffer_def HandleSourceChange_def Let_def split: option.splits)
qed

lemma no_cap_step:
  "cd_cap s = [] \<Longrightarrow> cd_cap (fst (codec_step s e)) = [] \<and> delivered (snd (codec_step s e)) = []"
  using no_cap_CaptureBuffer [of s]
  by (cases e)
     (auto simp: EmplacePop_def EmplaceQueue_def EmplaceTask_def give_back_def Let_def delivered_def
       split: emplace_pc.splits filled.splits option.splits prod.splits)

text \<open>
  C31: a change of the frame size stops a decoder for good. \<open>HandleEvent\<close> frees and allocates the
  capture buffers but does not queue them, as \<open>PrepareBuffer\<close> does; without one in the device
  no result is ever delivered again, whatever is submitted.
\<close>

theorem source_change_stalls:
  "delivered (snd (run codec_step (HandleSourceChange s) es)) = []"
proof -
  have "delivered (snd (run codec_step t es)) = []" if "cd_cap t = []" for t
    using that
  proof (induction es arbitrary: t)
    case (Cons e es)
    with no_cap_step [OF Cons.prems, of e] show ?case by (simp add: delivered_app)
  qed (simp add: delivered_def)
  then show ?thesis by (simp add: HandleSourceChange_def)
qed

end
