(* ===== verification/Settings.thy ===== *)
theory Settings
  imports Prelude
begin

text \<open>
  The settings of the program: \<open>Args\<close> (src/src/args.h) and what \<open>Parser\<close> (src/src/parser.cpp)
  does to them after Boost.Program_options has read the command line and the configuration
  file: checks, defaults, the normalisation of urls, paths and bitrates, the LiveKit url and the
  camera. A check that calls \<open>exit\<close> or throws is a value on the left. The controls of libcamera
  are not modelled. What differs between builds, and what libwebrtc knows, is a \<open>platform\<close>.
\<close>

section \<open>Settings\<close>

datatype stop = Exit int | Throw string

datatype camera_source = LibCamera | LibArgus | V4L2 | Rtsp

datatype pixel_format = FmtNone | FmtMjpeg | FmtH264 | FmtI420 | FmtYuyv | FmtNv12

record args =
  num_streams :: int
  fps :: int
  width :: int
  height :: int
  cam_source :: camera_source
  cam_format :: pixel_format
  camera_id :: "32 word"
  camera :: string
  v4l2_format :: string
  sub_width :: int
  sub_height :: int
  record_source :: string
  webrtc_source :: string
  record_stream_idx :: int
  live_stream_idx :: int
  record_type_str :: string
  ar_record_type :: int
  record_mode_str :: string
  ar_record_mode :: int
  record_path :: string
  record_ondemand_path :: string
  enable_ipc :: bool
  enable_gamepad :: bool
  jpeg_quality :: int
  min_bitrate :: int
  start_bitrate :: int
  max_bitrate :: int
  hw_accel :: bool
  no_adaptive :: bool
  scalability_mode :: string
  min_playout_delay_ms :: int
  max_playout_delay_ms :: int
  latency_trace_interval :: int
  uid :: string
  stun_url :: string
  turn_url :: string
  use_mqtt :: bool
  mqtt_host :: string
  use_livekit :: bool
  livekit_url :: string
  livekit_use_tls :: bool
  livekit_port :: nat
  livekit_host :: string
  livekit_room :: string
  use_cloudflare :: bool
  cloudflare_rooms :: "string list"
  api_url :: string
  api_key :: string

text \<open>The defaults of the declaration.\<close>

definition default_args :: args where
  "default_args = \<lparr>num_streams = 1, fps = 30, width = 640, height = 480, cam_source = LibCamera, cam_format = FmtNone,
     camera_id = 0, camera = ''libcamera:0'', v4l2_format = ''i420'', sub_width = 0, sub_height = 0,
     record_source = ''main'', webrtc_source = ''main'', record_stream_idx = 0, live_stream_idx = 0,
     record_type_str = ''both'', ar_record_type = -1, record_mode_str = ''both'', ar_record_mode = -1,
     record_path = [], record_ondemand_path = [], enable_ipc = False, enable_gamepad = False,
     jpeg_quality = 30, min_bitrate = 0, start_bitrate = 0, max_bitrate = 0, hw_accel = False, no_adaptive = False,
     scalability_mode = [], min_playout_delay_ms = 0, max_playout_delay_ms = -1, latency_trace_interval = 5,
     uid = [], stun_url = ''stun:stun.l.google.com:19302'', turn_url = [], use_mqtt = False, mqtt_host = ''localhost'',
     use_livekit = False, livekit_url = [], livekit_use_tls = False, livekit_port = 0, livekit_host = [],
     livekit_room = [], use_cloudflare = False, cloudflare_rooms = [], api_url = [], api_key = []\<rparr>"

text \<open>
  The build, and of libwebrtc the scalability modes and the largest playout delay.
  \<open>pf_jetson_floor\<close> is the floating point \<open>frame_bits * fps / 1000\<close> for a frame of so many pixels.
\<close>

record platform =
  pf_libcamera :: bool
  pf_libargus :: bool
  pf_jetson :: bool
  pf_rpi :: bool
  pf_jetson_encoder :: bool
  pf_scalability :: "string \<Rightarrow> bool"
  pf_max_playout :: int
  pf_jetson_floor :: "int \<Rightarrow> int \<Rightarrow> int"

type_synonym parsed = "stop + args"

fun bind_ok :: "'e + 'a \<Rightarrow> ('a \<Rightarrow> 'e + 'b) \<Rightarrow> 'e + 'b" where
  "bind_ok (Inl e) f = Inl e"
| "bind_ok (Inr x) f = f x"

lemma bind_ok_Inr: "bind_ok r f = Inr y \<longleftrightarrow> (\<exists>x. r = Inr x \<and> f x = Inr y)"
  by (cases r) auto

definition clamp :: "int \<Rightarrow> int \<Rightarrow> int \<Rightarrow> int" where
  "clamp v lo hi = (if v < lo then lo else if hi < v then hi else v)"

definition ParseEnum :: "(string \<times> 'a) list \<Rightarrow> string \<Rightarrow> stop + 'a" where
  "ParseEnum table str = (case map_of table str of
     None \<Rightarrow> Inl (Throw (''Invalid enum string: '' @ str)) | Some v \<Rightarrow> Inr v)"

definition v4l2_fmt_table :: "(string \<times> pixel_format) list" where
  "v4l2_fmt_table = [(''mjpeg'', FmtMjpeg), (''h264'', FmtH264), (''i420'', FmtI420), (''yuyv'', FmtYuyv)]"

definition record_type_table :: "(string \<times> int) list" where
  "record_type_table = [(''both'', -1), (''video'', 0), (''snapshot'', 1)]"

definition record_mode_table :: "(string \<times> int) list" where
  "record_mode_table = [(''both'', -1), (''background'', 0), (''on-demand'', 1)]"

definition stream_source_table :: "(string \<times> int) list" where
  "stream_source_table = [(''main'', 0), (''sub'', 1)]"

section \<open>Checks\<close>

definition ParseScalability :: "platform \<Rightarrow> args \<Rightarrow> parsed" where
  "ParseScalability pf a =
     (if scalability_mode a \<noteq> [] \<and> \<not> pf_scalability pf (scalability_mode a) then Inl (Exit 1) else Inr a)"

definition ParseStreams :: "args \<Rightarrow> parsed" where
  "ParseStreams a =
     (if sub_height a > 0 \<and> sub_width a > 0
      then let a1 = (if sub_width a > width a \<or> sub_height a > height a
                     then a\<lparr>sub_width := width a, sub_height := height a\<rparr> else a)
           in bind_ok (ParseEnum stream_source_table (record_source a)) (\<lambda>r.
              bind_ok (ParseEnum stream_source_table (webrtc_source a)) (\<lambda>l.
              Inr (a1\<lparr>num_streams := num_streams a1 + 1, record_stream_idx := r, live_stream_idx := l\<rparr>)))
      else bind_ok (ParseEnum stream_source_table (record_source a)) (\<lambda>_.
           bind_ok (ParseEnum stream_source_table (webrtc_source a)) (\<lambda>_.
           Inr (a\<lparr>record_stream_idx := 0, live_stream_idx := 0\<rparr>))))"

definition ParseUid :: "args \<Rightarrow> parsed" where
  "ParseUid a = (if uid a = [] then Inl (Exit 1) else Inr a)"

text \<open>\<open>while (!url.empty() && url.back() == '/') url.pop_back()\<close>\<close>

definition strip_slashes :: "string \<Rightarrow> string" where
  "strip_slashes url = rev (dropWhile (\<lambda>c. c = CHR ''/'') (rev url))"

definition ParseApi :: "args \<Rightarrow> parsed" where
  "ParseApi a =
     (let a1 = a\<lparr>api_url := strip_slashes (api_url a)\<rparr>
      in if api_url a1 = [] then (if api_key a1 \<noteq> [] then Inl (Exit 1) else Inr a1)
         else if \<not> starts_with (api_url a1) ''https://'' \<and> \<not> starts_with (api_url a1) ''http://'' then Inl (Exit 1)
         else if api_key a1 = [] then Inl (Exit 1) else Inr a1)"

definition is_alnum :: "char \<Rightarrow> bool" where
  "is_alnum c \<longleftrightarrow> is_digit c \<or> (65 :: nat) \<le> of_char c \<and> of_char c \<le> (90 :: nat) \<or>
     (97 :: nat) \<le> of_char c \<and> of_char c \<le> (122 :: nat)"

definition IsWorkerId :: "string \<Rightarrow> bool" where
  "IsWorkerId s \<longleftrightarrow> s \<noteq> [] \<and> length s \<le> 64 \<and> is_alnum (hd s) \<and>
     list_all (\<lambda>c. is_alnum c \<or> c \<in> {CHR ''.'', CHR ''_'', CHR ''-''}) s"

definition kMaxCloudflareRooms :: nat where "kMaxCloudflareRooms = 4"

fun collect_rooms :: "string list \<Rightarrow> string list \<Rightarrow> stop + string list" where
  "collect_rooms rooms [] = Inr rooms"
| "collect_rooms rooms (r # rs) =
     (if \<not> IsWorkerId r then Inl (Exit 1)
      else collect_rooms (if r \<in> set rooms then rooms else rooms @ [r]) rs)"

definition ParseCloudflare :: "args \<Rightarrow> parsed" where
  "ParseCloudflare a =
     (if \<not> use_cloudflare a then Inr a
      else if api_url a = [] then Inl (Exit 1)
      else if \<not> IsWorkerId (uid a) then Inl (Exit 1)
      else bind_ok (collect_rooms [] (cloudflare_rooms a)) (\<lambda>rooms.
           if rooms = [] then Inl (Exit 1)
           else if kMaxCloudflareRooms < length rooms then Inl (Exit 1)
           else Inr (a\<lparr>cloudflare_rooms := rooms\<rparr>)))"

definition ParseMqtt :: "args \<Rightarrow> parsed" where
  "ParseMqtt a = (if use_mqtt a \<and> mqtt_host a = [] then Inl (Exit 1) else Inr a)"

section \<open>The LiveKit url\<close>

text \<open>Every complaint exits. The port is 0 when the url gives none.\<close>

definition split_authority :: "string \<Rightarrow> stop + string \<times> string" where
  "split_authority authority =
     (if authority \<noteq> [] \<and> hd authority = CHR ''[''
      then case find_char (CHR '']'') authority of
             None \<Rightarrow> Inl (Exit 1)
           | Some bracket_end \<Rightarrow>
               (let host = take (bracket_end - 1) (drop 1 authority)
                in if bracket_end + 1 < length authority
                   then if authority ! (bracket_end + 1) \<noteq> CHR '':'' then Inl (Exit 1)
                        else Inr (host, drop (bracket_end + 2) authority)
                   else Inr (host, []))
      else case find_char (CHR '':'') authority of
             None \<Rightarrow> Inr (authority, [])
           | Some colon \<Rightarrow> Inr (take colon authority, drop (colon + 1) authority))"

definition parse_port :: "string \<Rightarrow> stop + nat" where
  "parse_port port_str =
     (if port_str = [] then Inr 0
      else if \<not> list_all is_digit port_str then Inl (Exit 1)
      else let port = (if length port_str > 5 then 0 else digits_value port_str)
           in if port = 0 \<or> port > 65535 then Inl (Exit 1) else Inr port)"

definition ParseLivekitUrl :: "string \<Rightarrow> stop + bool \<times> string \<times> nat" where
  "ParseLivekitUrl url =
     (case find_sub ''://'' url of
        None \<Rightarrow> Inl (Exit 1)
      | Some scheme_end \<Rightarrow>
          (let scheme = map tolower (take scheme_end url);
               rest = drop (scheme_end + 3) url
           in if scheme \<notin> {''ws'', ''http'', ''wss'', ''https''} then Inl (Exit 1)
              else let authority = (case find_char (CHR ''/'') rest of None \<Rightarrow> rest | Some n \<Rightarrow> take n rest);
                       path = (case find_char (CHR ''/'') rest of None \<Rightarrow> ''/'' | Some n \<Rightarrow> drop n rest)
                   in if path \<noteq> ''/'' then Inl (Exit 1)
                      else bind_ok (split_authority authority) (\<lambda>(host, port_str).
                           if host = [] then Inl (Exit 1)
                           else bind_ok (parse_port port_str) (\<lambda>port.
                                Inr (scheme \<in> {''wss'', ''https''}, host, port)))))"

definition ParseLivekit :: "args \<Rightarrow> parsed" where
  "ParseLivekit a =
     (if \<not> use_livekit a then Inr a
      else if livekit_url a = [] then Inl (Exit 1)
      else bind_ok (ParseLivekitUrl (livekit_url a)) (\<lambda>(tls, host, port).
           if livekit_room a = [] then Inl (Exit 1)
           else Inr (a\<lparr>livekit_use_tls := tls, livekit_host := host, livekit_port := port\<rparr>)))"

definition ParseIceServers :: "args \<Rightarrow> parsed" where
  "ParseIceServers a =
     (if stun_url a \<noteq> [] \<and> take 4 (stun_url a) \<noteq> ''stun'' then Inl (Exit 1)
      else if turn_url a \<noteq> [] \<and> take 4 (turn_url a) \<noteq> ''turn'' then Inl (Exit 1) else Inr a)"

definition with_slash :: "string \<Rightarrow> string" where
  "with_slash p = (if p \<noteq> [] \<and> last p \<noteq> CHR ''/'' then p @ ''/'' else p)"

definition ParseRecordPath :: "args \<Rightarrow> parsed" where
  "ParseRecordPath a =
     (if record_path a \<noteq> [] \<and> hd (record_path a) \<noteq> CHR ''/'' then Inl (Exit 1)
      else Inr (a\<lparr>record_path := with_slash (record_path a)\<rparr>))"

definition ParseRanges :: "platform \<Rightarrow> args \<Rightarrow> args" where
  "ParseRanges pf a =
     (let a1 = a\<lparr>enable_ipc := (enable_gamepad a \<or> enable_ipc a),
                 jpeg_quality := clamp (jpeg_quality a) 0 100,
                 latency_trace_interval := clamp (latency_trace_interval a) 1 3600\<rparr>
      in if max_playout_delay_ms a1 \<ge> 0
         then let hi = clamp (max_playout_delay_ms a1) 0 (pf_max_playout pf)
              in a1\<lparr>max_playout_delay_ms := hi, min_playout_delay_ms := clamp (min_playout_delay_ms a1) 0 hi\<rparr>
         else a1)"

section \<open>Bitrates\<close>

text \<open>
  \<open>static_cast<int>(pixels * fps * 0.08 / 1000)\<close>: below \<open>2 ^ 31\<close> the doubles are exact enough for
  the truncation (the fraction is a multiple of 1/12500), and a negative value is never used.
\<close>

definition bpp_kbps :: "int \<Rightarrow> int \<Rightarrow> int" where
  "bpp_kbps pixels f = pixels * f * 8 div 100000"

definition live_pixels :: "args \<Rightarrow> int" where
  "live_pixels a = (if live_stream_idx a = 1 then sub_width a * sub_height a else width a * height a)"

definition DefaultBitrates :: "platform \<Rightarrow> args \<Rightarrow> args" where
  "DefaultBitrates pf a =
     (let a1 = (if \<not> no_adaptive a \<and> max_bitrate a \<le> 0
                then a\<lparr>max_bitrate := max 2500 (bpp_kbps (live_pixels a) (fps a))\<rparr> else a);
          a2 = (if pf_jetson_encoder pf \<and> hw_accel a1 \<and> no_adaptive a1 \<and> min_bitrate a1 \<le> 0
                then a1\<lparr>min_bitrate := pf_jetson_floor pf (live_pixels a1) (fps a1)\<rparr> else a1)
      in if \<not> no_adaptive a2 \<and> start_bitrate a2 \<le> 0
         then a2\<lparr>start_bitrate := max 1000 (min_bitrate a2)\<rparr> else a2)"

definition OrderBitrates :: "args \<Rightarrow> args" where
  "OrderBitrates a =
     (let a1 = (if max_bitrate a > 0
                then a\<lparr>start_bitrate := min (start_bitrate a) (max_bitrate a),
                       min_bitrate := min (min_bitrate a) (max_bitrate a)\<rparr> else a)
      in if start_bitrate a1 > 0 then a1\<lparr>min_bitrate := min (min_bitrate a1) (start_bitrate a1)\<rparr> else a1)"

definition ParseRecordModes :: "args \<Rightarrow> parsed" where
  "ParseRecordModes a =
     bind_ok (ParseEnum record_type_table (record_type_str a)) (\<lambda>t.
     bind_ok (ParseEnum record_mode_table (record_mode_str a)) (\<lambda>m.
       Inr (let a1 = a\<lparr>ar_record_type := t, ar_record_mode := m\<rparr>;
                p = (if m \<noteq> 0 \<and> record_ondemand_path a1 = [] \<and> record_path a1 \<noteq> []
                     then record_path a1 @ ''on-demand/'' else record_ondemand_path a1)
            in a1\<lparr>record_ondemand_path := with_slash p\<rparr>)))"

section \<open>The camera\<close>

definition ParseDevice :: "platform \<Rightarrow> args \<Rightarrow> parsed" where
  "ParseDevice pf a =
     (if starts_with (camera a) ''rtsp://'' \<or> starts_with (camera a) ''rtsps://'' then Inr (a\<lparr>cam_source := Rtsp\<rparr>)
      else case find_char (CHR '':'') (camera a) of
        None \<Rightarrow> Inl (Throw (''Invalid camera string: '' @ camera a @ ''. Expected format: libcamera:<id> or v4l2:<id>''))
      | Some pos \<Rightarrow>
          (let prefix = take pos (camera a); cid = drop (pos + 1) (camera a)
           in case stoi cid of
                None \<Rightarrow> Inl (Throw (''Invalid camera ID: '' @ cid))
              | Some n \<Rightarrow>
                  (let a1 = a\<lparr>camera_id := of_int n\<rparr>
                   in if prefix = ''libcamera''
                      then if pf_libcamera pf then Inr (a1\<lparr>cam_source := LibCamera, cam_format := FmtI420\<rparr>)
                           else if pf_jetson pf
                           then Inl (Throw ''Jetson does not support libcamera. Use v4l2:<id> instead.'')
                           else Inl (Throw ''libcamera is not supported on this platform.'')
                      else if prefix = ''libargus''
                      then if pf_libargus pf then Inr (a1\<lparr>cam_source := LibArgus, cam_format := FmtNv12\<rparr>)
                           else if pf_rpi pf
                           then Inl (Throw ''Raspberry Pi does not support libargus. Use v4l2:<id> instead.'')
                           else Inl (Throw ''libargus is not supported on this platform.'')
                      else if prefix = ''v4l2''
                      then bind_ok (ParseEnum v4l2_fmt_table (v4l2_format a1)) (\<lambda>fmt.
                           Inr (a1\<lparr>cam_source := V4L2, cam_format := fmt\<rparr>))
                      else Inl (Throw (''Unknown camera type: '' @ prefix @
                             ''. Expected 'libcamera', 'libargus', 'v4l2' or an rtsp:// URL'')))))"

text \<open>\<open>Parser::ParseArgs\<close> from the point where the options have been stored.\<close>

definition ParseArgs :: "platform \<Rightarrow> args \<Rightarrow> parsed" where
  "ParseArgs pf a =
     bind_ok (ParseScalability pf a) (\<lambda>a. bind_ok (ParseStreams a) (\<lambda>a. bind_ok (ParseUid a) (\<lambda>a.
     bind_ok (ParseApi a) (\<lambda>a. bind_ok (ParseCloudflare a) (\<lambda>a. bind_ok (ParseMqtt a) (\<lambda>a.
     bind_ok (ParseLivekit a) (\<lambda>a. bind_ok (ParseIceServers a) (\<lambda>a. bind_ok (ParseRecordPath a) (\<lambda>a.
     bind_ok (ParseRecordModes (OrderBitrates (DefaultBitrates pf (ParseRanges pf a)))) (ParseDevice pf))))))))))"

section \<open>Accepted settings are consistent\<close>

text \<open>What libwebrtc asks of bitrates of which a value up to 0 is not set.\<close>

definition bitrates_ok :: "int \<Rightarrow> int \<Rightarrow> int \<Rightarrow> bool" where
  "bitrates_ok lo st hi \<longleftrightarrow> (0 < lo \<and> 0 < st \<longrightarrow> lo \<le> st) \<and> (0 < st \<and> 0 < hi \<longrightarrow> st \<le> hi) \<and> (0 < lo \<and> 0 < hi \<longrightarrow> lo \<le> hi)"

fun ordered :: "int \<Rightarrow> int \<Rightarrow> int \<Rightarrow> int \<times> int" where
  "ordered lo st hi =
     (let st1 = (if hi > 0 then min st hi else st); lo1 = (if hi > 0 then min lo hi else lo)
      in (if st1 > 0 then min lo1 st1 else lo1, st1))"

lemma OrderBitrates_eq:
  "OrderBitrates a = a\<lparr>start_bitrate := snd (ordered (min_bitrate a) (start_bitrate a) (max_bitrate a)),
     min_bitrate := fst (ordered (min_bitrate a) (start_bitrate a) (max_bitrate a))\<rparr>"
  by (simp add: OrderBitrates_def Let_def)

lemma ordered_twice: "ordered lo st hi = (lo', st') \<Longrightarrow> ordered lo' st' hi = (lo', st')"
  by (auto simp: Let_def min_def split: if_splits)

lemma OrderBitrates_twice: "OrderBitrates (OrderBitrates a) = OrderBitrates a"
proof -
  obtain lo st where o: "ordered (min_bitrate a) (start_bitrate a) (max_bitrate a) = (lo, st)"
    by (cases "ordered (min_bitrate a) (start_bitrate a) (max_bitrate a)")
  have b: "OrderBitrates a = a\<lparr>start_bitrate := st, min_bitrate := lo\<rparr>" by (simp add: OrderBitrates_eq o del: ordered.simps)
  show ?thesis using OrderBitrates_eq [of "OrderBitrates a"] by (simp add: b ordered_twice [OF o] del: ordered.simps)
qed

lemma OrderBitrates_ok:
  "bitrates_ok (min_bitrate (OrderBitrates a)) (start_bitrate (OrderBitrates a)) (max_bitrate (OrderBitrates a))"
  by (auto simp: bitrates_ok_def OrderBitrates_def Let_def)

text \<open>
  bitrates are pulled into order. Whatever the command line gives, the bounds that are set
  come out ordered, as libwebrtc demands, the maximum is not changed, no bound is raised, and
  what is in order stays as it is: doing it twice is doing it once.
\<close>

theorem bitrates_are_ordered:
  "bitrates_ok (min_bitrate (OrderBitrates a)) (start_bitrate (OrderBitrates a)) (max_bitrate (OrderBitrates a)) \<and>
   max_bitrate (OrderBitrates a) = max_bitrate a \<and> start_bitrate (OrderBitrates a) \<le> start_bitrate a \<and>
   min_bitrate (OrderBitrates a) \<le> min_bitrate a \<and> OrderBitrates (OrderBitrates a) = OrderBitrates a"
  using OrderBitrates_ok [of a] by (auto simp: OrderBitrates_twice) (auto simp: OrderBitrates_def Let_def)

text \<open>What the rest of the program may rely on.\<close>

definition rooms_ok :: "string list \<Rightarrow> bool" where
  "rooms_ok rooms \<longleftrightarrow> rooms \<noteq> [] \<and> length rooms \<le> kMaxCloudflareRooms \<and> distinct rooms \<and> list_all IsWorkerId rooms"

definition path_ok :: "string \<Rightarrow> bool" where
  "path_ok p \<longleftrightarrow> p = [] \<or> last p = CHR ''/''"

definition signaling_ok :: "args \<Rightarrow> bool" where
  "signaling_ok a \<longleftrightarrow> uid a \<noteq> [] \<and>
     (api_url a \<noteq> [] \<longrightarrow> last (api_url a) \<noteq> CHR ''/'' \<and> api_key a \<noteq> []) \<and>
     (use_cloudflare a \<longrightarrow> api_url a \<noteq> [] \<and> IsWorkerId (uid a) \<and> rooms_ok (cloudflare_rooms a)) \<and>
     (use_mqtt a \<longrightarrow> mqtt_host a \<noteq> []) \<and>
     (use_livekit a \<longrightarrow> livekit_host a \<noteq> [] \<and> livekit_port a < 65536 \<and> livekit_room a \<noteq> [])"

definition media_ok :: "args \<Rightarrow> bool" where
  "media_ok a \<longleftrightarrow> bitrates_ok (min_bitrate a) (start_bitrate a) (max_bitrate a) \<and>
     live_stream_idx a \<in> {0, 1} \<and> record_stream_idx a \<in> {0, 1} \<and>
     path_ok (record_path a) \<and> path_ok (record_ondemand_path a) \<and>
     ar_record_mode a \<in> {-1, 0, 1} \<and> ar_record_type a \<in> {-1, 0, 1} \<and>
     0 \<le> jpeg_quality a \<and> jpeg_quality a \<le> 100 \<and> 1 \<le> latency_trace_interval a \<and> latency_trace_interval a \<le> 3600 \<and>
     (enable_gamepad a \<longrightarrow> enable_ipc a)"

lemma collect_rooms_ok:
  "collect_rooms rooms rs = Inr rooms' \<Longrightarrow> distinct rooms \<Longrightarrow> list_all IsWorkerId rooms \<Longrightarrow>
   distinct rooms' \<and> list_all IsWorkerId rooms' \<and> set rooms' = set rooms \<union> set rs"
  by (induction rooms rs rule: collect_rooms.induct) (auto split: if_splits)

lemma strip_slashes_last: "strip_slashes u \<noteq> [] \<Longrightarrow> last (strip_slashes u) \<noteq> CHR ''/''"
proof -
  assume "strip_slashes u \<noteq> []"
  then have "dropWhile (\<lambda>c. c = CHR ''/'') (rev u) \<noteq> []"
    by (simp add: strip_slashes_def del: dropWhile_eq_Nil_conv)
  from hd_dropWhile [OF this] show ?thesis by (simp add: strip_slashes_def last_rev)
qed

lemma path_ok_with_slash [simp]: "path_ok (with_slash p)"
  by (simp add: path_ok_def with_slash_def)

lemma ParseEnum_range: "ParseEnum t x = Inr v \<Longrightarrow> v \<in> snd ` set t"
  by (auto simp: ParseEnum_def dest!: map_of_SomeD split: option.splits) (force intro: rev_image_eqI)

lemma stream_idx: "ParseEnum stream_source_table x = Inr v \<Longrightarrow> v = 0 \<or> v = 1"
  using ParseEnum_range [of stream_source_table x v] by (auto simp: stream_source_table_def)

lemma ParseStreams_keeps:
  "ParseStreams a = Inr b \<Longrightarrow> live_stream_idx b \<in> {0, 1} \<and> record_stream_idx b \<in> {0, 1}"
  by (auto simp: ParseStreams_def bind_ok_Inr Let_def split: if_splits dest: stream_idx)

lemma ParseLivekitUrl_range: "ParseLivekitUrl u = Inr (tls, h, p) \<Longrightarrow> h \<noteq> [] \<and> p < 65536"
  by (auto simp: ParseLivekitUrl_def parse_port_def Let_def bind_ok_Inr split: option.splits if_splits)

text \<open>The parts \<open>ParseArgs\<close> goes through, and what each leaves alone.\<close>

lemmas parse_parts = ParseScalability_def ParseUid_def ParseApi_def ParseMqtt_def ParseIceServers_def ParseRecordPath_def

lemma ParseCloudflare_ok:
  "ParseCloudflare a = Inr b \<Longrightarrow> b = a\<lparr>cloudflare_rooms := cloudflare_rooms b\<rparr> \<and>
     (use_cloudflare a \<longrightarrow> api_url a \<noteq> [] \<and> IsWorkerId (uid a) \<and> rooms_ok (cloudflare_rooms b))"
  using collect_rooms_ok [of "[]" "cloudflare_rooms a"]
  by (auto simp: ParseCloudflare_def bind_ok_Inr rooms_ok_def split: if_splits)

lemma stream_args: "ParseStreams a = Inr b \<Longrightarrow>
    b = a\<lparr>sub_width := sub_width b, sub_height := sub_height b, num_streams := num_streams b,
          record_stream_idx := record_stream_idx b, live_stream_idx := live_stream_idx b\<rparr>"
  by (auto simp: ParseStreams_def bind_ok_Inr Let_def split: if_splits)

lemma livekit_args: "ParseLivekit a = Inr b \<Longrightarrow>
    b = a\<lparr>livekit_use_tls := livekit_use_tls b, livekit_host := livekit_host b, livekit_port := livekit_port b\<rparr> \<and>
    (use_livekit a \<longrightarrow> livekit_host b \<noteq> [] \<and> livekit_port b < 65536 \<and> livekit_room a \<noteq> [])"
  using ParseLivekitUrl_range by (auto simp: ParseLivekit_def bind_ok_Inr split: if_splits prod.splits)

lemma range_args: "\<exists>hi lo. ParseRanges pf a =
    a\<lparr>enable_ipc := (enable_gamepad a \<or> enable_ipc a), jpeg_quality := clamp (jpeg_quality a) 0 100,
       latency_trace_interval := clamp (latency_trace_interval a) 1 3600,
       max_playout_delay_ms := hi, min_playout_delay_ms := lo\<rparr>"
proof (cases "max_playout_delay_ms a \<ge> 0")
  case False
  then show ?thesis
    by (intro exI [of _ "max_playout_delay_ms a"] exI [of _ "min_playout_delay_ms a"]) (simp add: ParseRanges_def Let_def)
next
  case True
  then show ?thesis
    by (intro exI [of _ "clamp (max_playout_delay_ms a) 0 (pf_max_playout pf)"]
        exI [of _ "clamp (min_playout_delay_ms a) 0 (clamp (max_playout_delay_ms a) 0 (pf_max_playout pf))"])
       (simp add: ParseRanges_def Let_def)
qed

lemma bitrate_args: "DefaultBitrates pf a =
    a\<lparr>max_bitrate := max_bitrate (DefaultBitrates pf a), min_bitrate := min_bitrate (DefaultBitrates pf a),
       start_bitrate := start_bitrate (DefaultBitrates pf a)\<rparr>"
  by (simp add: DefaultBitrates_def Let_def)

lemma mode_range: "ParseEnum record_type_table x = Inr v \<Longrightarrow> v \<in> {-1, 0, 1}"
  "ParseEnum record_mode_table x = Inr v \<Longrightarrow> v \<in> {-1, 0, 1}"
  using ParseEnum_range [of record_type_table x v] ParseEnum_range [of record_mode_table x v]
  by (auto simp: record_type_table_def record_mode_table_def)

lemma record_args: "ParseRecordModes a = Inr b \<Longrightarrow>
    \<exists>t m od. b = a\<lparr>ar_record_type := t, ar_record_mode := m, record_ondemand_path := od\<rparr> \<and>
      t \<in> {-1, 0, 1} \<and> m \<in> {-1, 0, 1} \<and> path_ok od"
proof -
  assume h: "ParseRecordModes a = Inr b"
  then obtain t m where tm: "ParseEnum record_type_table (record_type_str a) = Inr t"
    "ParseEnum record_mode_table (record_mode_str a) = Inr m"
    by (auto simp: ParseRecordModes_def bind_ok_Inr)
  let ?od = "with_slash (if m \<noteq> 0 \<and> record_ondemand_path a = [] \<and> record_path a \<noteq> []
    then record_path a @ ''on-demand/'' else record_ondemand_path a)"
  have "b = a\<lparr>ar_record_type := t, ar_record_mode := m, record_ondemand_path := ?od\<rparr>"
    using h tm by (auto simp: ParseRecordModes_def Let_def)
  then show ?thesis using mode_range(1) [OF tm(1)] mode_range(2) [OF tm(2)] path_ok_with_slash [of "if m \<noteq> 0 \<and> record_ondemand_path a = [] \<and> record_path a \<noteq> []
    then record_path a @ ''on-demand/'' else record_ondemand_path a"] by blast
qed

lemma device_args: "ParseDevice pf a = Inr b \<Longrightarrow>
    b = a\<lparr>cam_source := cam_source b, cam_format := cam_format b, camera_id := camera_id b\<rparr>"
  by (auto simp: ParseDevice_def bind_ok_Inr Let_def split: if_splits option.splits)

lemma parse_stages:
  assumes "ParseArgs pf a = Inr b"
  obtains a1 a2 a3 a4 a5 where "ParseStreams a = Inr a1" "uid a1 \<noteq> []" "ParseApi a1 = Inr a2"
    "ParseCloudflare a2 = Inr a3" "use_mqtt a3 \<longrightarrow> mqtt_host a3 \<noteq> []" "ParseLivekit a3 = Inr a4"
    "ParseRecordModes (OrderBitrates (DefaultBitrates pf (ParseRanges pf (a4\<lparr>record_path := with_slash (record_path a4)\<rparr>)))) = Inr a5"
    "ParseDevice pf a5 = Inr b"
  using assms
  by (auto simp: ParseArgs_def bind_ok_Inr ParseScalability_def ParseUid_def ParseMqtt_def ParseIceServers_def
      ParseRecordPath_def split: if_splits)

lemma api_args: "ParseApi a = Inr b \<Longrightarrow> b = a\<lparr>api_url := api_url b\<rparr> \<and>
    (api_url b \<noteq> [] \<longrightarrow> last (api_url b) \<noteq> CHR ''/'' \<and> api_key b \<noteq> [])"
  using strip_slashes_last by (auto simp: ParseApi_def Let_def split: if_splits)

lemma accepted_args:
  assumes "ParseArgs pf a = Inr b"
  shows "signaling_ok b \<and> media_ok b"
proof -
  from parse_stages [OF assms] obtain a1 a2 a3 a4 a5 where p: "ParseStreams a = Inr a1" "uid a1 \<noteq> []"
    "ParseApi a1 = Inr a2" "ParseCloudflare a2 = Inr a3" "use_mqtt a3 \<longrightarrow> mqtt_host a3 \<noteq> []" "ParseLivekit a3 = Inr a4"
    "ParseRecordModes (OrderBitrates (DefaultBitrates pf (ParseRanges pf (a4\<lparr>record_path := with_slash (record_path a4)\<rparr>)))) = Inr a5"
    "ParseDevice pf a5 = Inr b" .
  define r where "r = ParseRanges pf (a4\<lparr>record_path := with_slash (record_path a4)\<rparr>)"
  define q where "q = OrderBitrates (DefaultBitrates pf r)"
  note api = api_args [OF p(3)] and cf = ParseCloudflare_ok [OF p(4)] and lk = livekit_args [OF p(6)]
  have rec: "ParseRecordModes q = Inr a5" using p(7) by (simp add: q_def r_def)
  have idx: "live_stream_idx a1 \<in> {0, 1}" "record_stream_idx a1 \<in> {0, 1}" using ParseStreams_keeps [OF p(1)] by auto
  have br: "bitrates_ok (min_bitrate q) (start_bitrate q) (max_bitrate q)" unfolding q_def by (rule OrderBitrates_ok)
  obtain u where a2: "a2 = a1\<lparr>api_url := u\<rparr>" using api by blast
  obtain rs where a3: "a3 = a2\<lparr>cloudflare_rooms := rs\<rparr>" using cf by blast
  obtain tls h port where a4: "a4 = a3\<lparr>livekit_use_tls := tls, livekit_host := h, livekit_port := port\<rparr>" using lk by blast
  obtain hi lo where r: "r = a4\<lparr>record_path := with_slash (record_path a4), enable_ipc := (enable_gamepad a4 \<or> enable_ipc a4),
      jpeg_quality := clamp (jpeg_quality a4) 0 100, latency_trace_interval := clamp (latency_trace_interval a4) 1 3600,
      max_playout_delay_ms := hi, min_playout_delay_ms := lo\<rparr>"
    using range_args [of pf "a4\<lparr>record_path := with_slash (record_path a4)\<rparr>"] unfolding r_def by auto
  obtain x y z where d: "DefaultBitrates pf r = r\<lparr>max_bitrate := x, min_bitrate := y, start_bitrate := z\<rparr>"
    using bitrate_args by blast
  obtain y' z' where q: "q = r\<lparr>max_bitrate := x, start_bitrate := z', min_bitrate := y'\<rparr>"
    using OrderBitrates_eq [of "DefaultBitrates pf r"] unfolding q_def d by (simp del: ordered.simps)
  obtain t m od where a5: "a5 = q\<lparr>ar_record_type := t, ar_record_mode := m, record_ondemand_path := od\<rparr>"
    "t \<in> {-1, 0, 1}" "m \<in> {-1, 0, 1}" "path_ok od"
    using record_args [OF rec] by blast
  obtain c f k where b: "b = a5\<lparr>cam_source := c, cam_format := f, camera_id := k\<rparr>" using device_args [OF p(8)] by blast
  have "signaling_ok b"
    using p(2,5) api cf lk by (simp add: signaling_ok_def b a5 q r a4 a3 a2)
  moreover have "media_ok b"
    using idx br a5(2-4) by (auto simp: media_ok_def b a5(1) q r a4 a3 a2 clamp_def)
  ultimately show ?thesis ..
qed


definition demo_platform :: platform where
  "demo_platform = \<lparr>pf_libcamera = True, pf_libargus = False, pf_jetson = False, pf_rpi = True, pf_jetson_encoder = False,
     pf_scalability = (\<lambda>s. True), pf_max_playout = 40950, pf_jetson_floor = (\<lambda>p f. 0)\<rparr>"

definition demo_args :: args where
  "demo_args = default_args\<lparr>uid := ''pi-1'', use_cloudflare := True, api_url := ''https://a.com//'', api_key := ''k'',
     cloudflare_rooms := [''lab'', ''door'', ''lab''], record_path := ''/rec'', start_bitrate := 9000\<rparr>"

definition demo_parsed :: args where
  "demo_parsed = demo_args\<lparr>api_url := ''https://a.com'', cloudflare_rooms := [''lab'', ''door''], record_path := ''/rec/'',
    max_bitrate := 2500, start_bitrate := 2500, record_ondemand_path := ''/rec/on-demand/'', cam_source := LibCamera, cam_format := FmtI420\<rparr>"

lemma demo_args_accepted: "ParseArgs demo_platform demo_args = Inr demo_parsed"
proof -
  have "stoi ''0'' = Some 0" "find_char (CHR '':'') ''libcamera:0'' = Some 9" "IsWorkerId ''lab''" "IsWorkerId ''door''" "IsWorkerId ''pi-1''"
    "strip_slashes ''https://a.com//'' = ''https://a.com''"
    by code_simp+
  then show ?thesis unfolding demo_parsed_def
    by (simp add: ParseArgs_def demo_args_def default_args_def demo_platform_def ParseScalability_def ParseStreams_def
        ParseUid_def ParseApi_def ParseCloudflare_def ParseMqtt_def ParseLivekit_def ParseIceServers_def ParseRecordPath_def
        ParseRecordModes_def OrderBitrates_def DefaultBitrates_def ParseRanges_def ParseDevice_def ParseEnum_def
        stream_source_table_def record_type_table_def record_mode_table_def starts_with_def with_slash_def
        kMaxCloudflareRooms_def clamp_def bpp_kbps_def live_pixels_def) (simp add: Let_def)
qed


section \<open>Round trip of the LiveKit url\<close>

definition print_livekit :: "bool \<Rightarrow> string \<Rightarrow> nat \<Rightarrow> string" where
  "print_livekit tls host port =
     (if tls then ''wss://'' else ''ws://'') @ (if CHR '':'' \<in> set host then ''['' @ host @ '']'' else host) @
     (if port = 0 then [] else '':'' @ to_digits port)"

lemma digits_len: "0 < n \<Longrightarrow> n < 65536 \<Longrightarrow> length (to_digits n) \<le> 5"
proof -
  have "length (to_digits n) \<le> k" if "n < 10 ^ k" "0 < k" for k
    using that
  proof (induction n arbitrary: k rule: to_digits.induct)
    case (1 n)
    show ?case
    proof (cases "n < 10")
      case False
      with 1(2) have "k \<noteq> 1" by auto
      with 1(3) obtain k' where k: "k = Suc k'" "0 < k'" by (cases k) auto
      with 1(2) have "n div 10 < 10 ^ k'" by (simp add: less_mult_imp_div_less mult.commute)
      from 1(1) [OF False this k(2)] False k show ?thesis by (simp add: to_digits.simps [of n])
    qed (use 1 in \<open>simp add: to_digits.simps [of n]\<close>)
  qed
  from this [of 5] show "0 < n \<Longrightarrow> n < 65536 \<Longrightarrow> ?thesis" by simp
qed

lemma parse_port_digits: "0 < p \<Longrightarrow> p < 65536 \<Longrightarrow> parse_port (to_digits p) = Inr p"
  using to_digits_digits [of p] digits_len [of p] by (auto simp: parse_port_def)

lemma split_authority_print:
  assumes "h \<noteq> []" "hd h \<noteq> CHR ''[''" "CHR '']'' \<notin> set h"
  shows "split_authority ((if CHR '':'' \<in> set h then ''['' @ h @ '']'' else h) @ (if p = 0 then [] else '':'' @ to_digits p)) =
    Inr (h, if p = 0 then [] else to_digits p)"
proof -
  have b: "find_char (CHR '']'') (CHR ''['' # h @ CHR '']'' # t) = Some (Suc (length h))" for t
    using find_char_append [of "CHR '']''" h t] assms(3) by simp
  have c: "find_char (CHR '':'') (h @ CHR '':'' # t) = Some (length h)" if "CHR '':'' \<notin> set h" for t
    using find_char_append [OF that] .
  show ?thesis
    using assms b [of "[]"] b [of "CHR '':'' # to_digits p"] c [of "to_digits p"]
    by (auto simp: split_authority_def Let_def nth_append find_char_None [THEN iffD2])
qed

text \<open>
  LiveKit urls round-trip. A host (a name, an IPv4 or an IPv6 address), a scheme and a port
  between 1 and 65535, or none, are read back from the url written with them.
\<close>

theorem livekit_url_round_trip:
  assumes "host \<noteq> []" "set host \<inter> {CHR ''/'', CHR ''['', CHR '']''} = {}" "port < 65536"
  shows "ParseLivekitUrl (print_livekit tls host port) = Inr (tls, host, port)"
proof -
  let ?auth = "(if CHR '':'' \<in> set host then ''['' @ host @ '']'' else host) @ (if port = 0 then [] else '':'' @ to_digits port)"
  have "CHR ''/'' \<notin> set (to_digits port)"
    using to_digits_digits [of port] by (auto simp: list_all_iff is_digit_def)
  then have no: "find_char (CHR ''/'') ?auth = None" using assms(2) by auto
  have hd: "hd host \<noteq> CHR ''[''" using assms(1,2) by (cases host) auto
  have sp: "split_authority ?auth = Inr (host, if port = 0 then [] else to_digits port)"
    using split_authority_print [OF assms(1) hd] assms(2) by auto
  have pp: "parse_port (if port = 0 then [] else to_digits port) = Inr port"
    using parse_port_digits assms(3) by (cases "port = 0") (simp_all add: parse_port_def [of "[]"])
  have u: "print_livekit tls host port = (if tls then ''wss'' else ''ws'') @ ''://'' @ ?auth"
    by (simp add: print_livekit_def)
  have f: "find_sub ''://'' ((if tls then ''wss'' else ''ws'') @ ''://'' @ ?auth) = Some (if tls then 3 else 2)"
    by (simp add: starts_with_def)
  have low: "map tolower ''ws'' = ''ws''" "map tolower ''wss'' = ''wss''" by (simp_all add: tolower_def)
  define auth where "auth = ?auth"
  show ?thesis
    using f no sp pp assms(1) low unfolding u auth_def [symmetric]
    by (cases tls) (simp_all add: ParseLivekitUrl_def Let_def starts_with_def find_char_None [THEN iffD2])
qed

theorem livekit_url_round_trip_witness:
  "ParseLivekitUrl (print_livekit True ''fe80::1'' 7881) = Inr (True, ''fe80::1'', 7881)"
  by (rule livekit_url_round_trip) simp_all

end
