(* ===== verification/Mqtt.thy ===== *)
theory Mqtt
  imports PeerRegistry RtcPeer
begin

text \<open>
  \<open>MqttService\<close> (src/src/signaling/mqtt_service.cpp): signaling over topics of an MQTT broker.
  The topics first, then the service with its \<open>PeerRegistry\<close>. The mosquitto thread runs
  \<open>OnMessage\<close>, libwebrtc's threads the callbacks of the peers, and the cleaner of the registry
  \<open>OnPeerExpired\<close>; every piece of code between two lock operations is an event. mosquitto and
  nlohmann's JSON are outside the repository: the broker is the environment, the parser and the
  printer are passed in as an \<open>mqtt_json\<close>.
\<close>

section \<open>Topics\<close>

datatype topic_type = TopicOffer | TopicAnswer | TopicIce | TopicUnknown

fun TopicTypeToString :: "topic_type \<Rightarrow> string" where
  "TopicTypeToString TopicOffer = ''offer''"
| "TopicTypeToString TopicAnswer = ''answer''"
| "TopicTypeToString TopicIce = ''ice''"
| "TopicTypeToString TopicUnknown = ''unknown''"

definition GetTopic :: "string \<Rightarrow> topic_type \<Rightarrow> string \<Rightarrow> string" where
  "GetTopic u t client_id =
     (if client_id = [] then u @ ''/'' @ TopicTypeToString t
      else u @ ''/'' @ TopicTypeToString t @ ''/'' @ client_id)"

definition FindTopicType :: "string \<Rightarrow> string \<Rightarrow> topic_type" where
  "FindTopicType u topic =
     (if starts_with topic (GetTopic u TopicOffer [] @ ''/'') then TopicOffer
      else if starts_with topic (GetTopic u TopicAnswer [] @ ''/'') then TopicAnswer
      else if starts_with topic (GetTopic u TopicIce [] @ ''/'') then TopicIce
      else TopicUnknown)"

definition FindClientId :: "string \<Rightarrow> string \<Rightarrow> string" where
  "FindClientId u topic =
     (let t = FindTopicType u topic; base_topic = GetTopic u t [] in
      if t = TopicUnknown then []
      else if length topic \<le> length base_topic \<or> topic ! length base_topic \<noteq> CHR ''/'' then []
      else let start_pos = length base_topic + 1 in
        if length topic \<le> start_pos then []
        else case find_char (CHR ''/'') (drop start_pos topic) of
          None \<Rightarrow> drop start_pos topic
        | Some n \<Rightarrow> take n (drop start_pos topic))"

lemma FindTopicType_prefix:
  "FindTopicType u (u @ CHR ''/'' # rest) =
     (if starts_with rest ''offer/'' then TopicOffer else if starts_with rest ''answer/'' then TopicAnswer
      else if starts_with rest ''ice/'' then TopicIce else TopicUnknown)"
  by (simp add: FindTopicType_def GetTopic_def starts_with_iff)

lemma FindTopicType_cases:
  assumes "FindTopicType u topic = t" "t \<noteq> TopicUnknown"
  obtains rest where "topic = GetTopic u t [] @ CHR ''/'' # rest"
  using assms that by (auto simp: FindTopicType_def starts_with_iff split: if_splits)

lemma FindTopicType_of [simp]:
  "t \<noteq> TopicUnknown \<Longrightarrow> FindTopicType u (GetTopic u t [] @ CHR ''/'' # rest) = t"
  by (cases t) (simp_all add: GetTopic_def FindTopicType_prefix starts_with_def)

lemma FindClientId_of:
  "t \<noteq> TopicUnknown \<Longrightarrow> FindClientId u (GetTopic u t [] @ CHR ''/'' # rest) = takeWhile (\<lambda>c. c \<noteq> CHR ''/'') rest"
proof -
  assume t: "t \<noteq> TopicUnknown"
  have "(case find_char (CHR ''/'') rest of None \<Rightarrow> rest | Some n \<Rightarrow> take n rest) = takeWhile (\<lambda>c. c \<noteq> CHR ''/'') rest"
  proof (induction rest)
    case (Cons a rest)
    then show ?case by (cases "CHR ''/'' \<in> set rest") (auto simp: iffD2 [OF find_char_None] split: option.splits)
  qed simp
  with t show ?thesis
    by (cases "rest = []"; cases "find_char (CHR ''/'') rest") (simp_all add: FindClientId_def Let_def del: find_char_None)
qed

lemma GetTopic_client: "c \<noteq> [] \<Longrightarrow> GetTopic u t c = GetTopic u t [] @ CHR ''/'' # c"
  by (simp add: GetTopic_def)

text \<open>
  The topic the service publishes on for a client is one from which a service with the same uid
  reads back the kind and the client, and every topic that is read as a kind and a client is the
  topic of that kind and client, or lies under it.
\<close>

theorem topic_round_trip:
  "(t \<noteq> TopicUnknown \<and> c \<noteq> [] \<and> CHR ''/'' \<notin> set c \<longrightarrow>
      FindTopicType u (GetTopic u t c) = t \<and> FindClientId u (GetTopic u t c) = c) \<and>
   (FindClientId u topic = c \<and> c \<noteq> [] \<longrightarrow>
      CHR ''/'' \<notin> set c \<and> (\<exists>rest. topic = GetTopic u (FindTopicType u topic) c @ rest \<and> (rest = [] \<or> hd rest = CHR ''/'')))"
proof (intro conjI impI; (elim conjE)?)
  assume t: "t \<noteq> TopicUnknown" and c: "c \<noteq> []" "CHR ''/'' \<notin> set c"
  show "FindTopicType u (GetTopic u t c) = t" "FindClientId u (GetTopic u t c) = c"
    using t c by (simp_all add: GetTopic_client FindClientId_of)
next
  assume c: "FindClientId u topic = c" "c \<noteq> []"
  then have t: "FindTopicType u topic \<noteq> TopicUnknown" by (auto simp: FindClientId_def Let_def)
  obtain rest where r: "topic = GetTopic u (FindTopicType u topic) [] @ CHR ''/'' # rest"
    using FindTopicType_cases [OF refl t] by blast
  have tw: "c = takeWhile (\<lambda>c. c \<noteq> CHR ''/'') rest" using c(1) FindClientId_of [OF t, of u rest] r by simp
  then show "CHR ''/'' \<notin> set c" by (auto dest: set_takeWhileD)
  have "topic = GetTopic u (FindTopicType u topic) c @ dropWhile (\<lambda>c. c \<noteq> CHR ''/'') rest"
    using r tw c(2) by (simp add: GetTopic_client)
  moreover have "dropWhile (\<lambda>c. c \<noteq> CHR ''/'') rest = [] \<or> hd (dropWhile (\<lambda>c. c \<noteq> CHR ''/'') rest) = CHR ''/''"
    using hd_dropWhile [of "\<lambda>c. c \<noteq> CHR ''/''" rest] by auto
  ultimately show "\<exists>rest. topic = GetTopic u (FindTopicType u topic) c @ rest \<and> (rest = [] \<or> hd rest = CHR ''/'')"
    by blast
qed

section \<open>The service\<close>

text \<open>
  \<open>js_sdp\<close> and \<open>js_ice\<close> read the fields of a payload (\<open>None\<close>: the library throws),
  \<open>js_dump_sdp\<close> and \<open>js_dump_ice\<close> print them.
\<close>

record mqtt_json =
  js_sdp :: "string \<Rightarrow> (string \<times> string) option"     \<comment> \<open>sdp, type\<close>
  js_ice :: "string \<Rightarrow> ice option"
  js_dump_sdp :: "string \<Rightarrow> string \<Rightarrow> string"
  js_dump_ice :: "ice \<Rightarrow> string"

text \<open>
  A peer is the number of its \<open>RtcPeer\<close> object: \<open>mq_made\<close> lists the ids of the objects made so
  far, with the client each was made for, which the code keeps in local variables only.
  \<open>mq_hooked\<close> are those whose \<open>OnLocalSdp\<close> and \<open>OnLocalIce\<close> are set, \<open>mq_told\<close> the expiries
  the cleaner has still to report. \<open>mq_pc\<close> is where the mosquitto thread stands in
  \<open>OnMessage\<close>; it is \<open>Aborted\<close> when an exception has left the C callback, which ends the program.
\<close>

type_synonym mqtt_msg = "topic_type \<times> string \<times> string"   \<comment> \<open>type, client, payload\<close>

datatype mqtt_pc =
    NoThread
  | Waiting
  | Looking mqtt_msg
  | Getting mqtt_msg string
  | Adding mqtt_msg nat
  | Inserting mqtt_msg nat
  | Hooking mqtt_msg nat
  | Mapping mqtt_msg nat
  | Delivering mqtt_msg nat
  | Aborted

record mqtt =
  mq_uid :: string
  mq_host :: string
  mq_port :: int
  mq_username :: string
  mq_password :: string
  mq_conductor :: bool               \<comment> \<open>conductor_ is set\<close>
  mq_connection :: bool              \<comment> \<open>connection_ is set\<close>
  mq_client_to_peer :: "(string, string) omap"
  mq_peer_to_client :: "(string, string) omap"
  mq_registry :: preg
  mq_made :: "(string \<times> string) list"
  mq_hooked :: "nat set"
  mq_told :: "string list"
  mq_pc :: mqtt_pc

datatype mqtt_out =
    MqTls | MqLogin string string | MqLoopStart | MqConnectAsync string int
  | MqSubscribe string
  | MqPublish string string
  | MqCreatePeer string
  | MqEnsureTracks nat
  | MqSetRemoteSdp nat string string
  | MqSetRemoteIce nat ice
  | MqRegistry preg_out
  | MqLoopStop | MqDisconnect | MqDestroy | MqCleanup

definition MqttInit :: "string \<Rightarrow> string \<Rightarrow> int \<Rightarrow> string \<Rightarrow> string \<Rightarrow> bool \<Rightarrow> mqtt" where
  "MqttInit u host port username password conductor =
     \<lparr>mq_uid = u, mq_host = host, mq_port = port, mq_username = username, mq_password = password,
      mq_conductor = conductor, mq_connection = False, mq_client_to_peer = [], mq_peer_to_client = [],
      mq_registry = init_preg True, mq_made = [], mq_hooked = {}, mq_told = [], mq_pc = NoThread\<rparr>"

text \<open>
  \<open>Disconnect\<close>: stopping the loop cancels the mosquitto thread wherever it stands; then the
  connection goes, the registry stops (events of its own) and the maps are cleared.
\<close>

definition DisconnectLoop :: "mqtt \<Rightarrow> mqtt \<times> mqtt_out list" where
  "DisconnectLoop s =
     (if \<not> mq_connection s then (s\<lparr>mq_registry := StopFlag (mq_registry s)\<rparr>, [MqCleanup])
      else (s\<lparr>mq_pc := NoThread, mq_connection := False, mq_registry := StopFlag (mq_registry s)\<rparr>,
            [MqLoopStop, MqDisconnect, MqDestroy]))"

definition DisconnectClear :: "mqtt \<Rightarrow> mqtt \<times> mqtt_out list" where
  "DisconnectClear s =
     (if mq_connection s then (s, [])
      else (s\<lparr>mq_client_to_peer := [], mq_peer_to_client := []\<rparr>, [MqCleanup]))"

text \<open>\<open>Connect\<close>: whether \<open>mosquitto_new\<close> and \<open>mosquitto_loop_start\<close> succeed is passed in.\<close>

definition MqttConnect :: "bool \<Rightarrow> bool \<Rightarrow> mqtt \<Rightarrow> mqtt \<times> mqtt_out list" where
  "MqttConnect made started s =
     (let s1 = s\<lparr>mq_registry := RegStart (mq_registry s)\<rparr> in
      if \<not> made then (s1\<lparr>mq_connection := False\<rparr>, [])
      else let options = (if mq_port s = 8883 then [MqTls] else []) @
                 (if mq_username s \<noteq> [] then [MqLogin (mq_username s) (mq_password s)] else []);
               s2 = s1\<lparr>mq_connection := True\<rparr> in
        if \<not> started then (case DisconnectLoop s2 of (s3, os) \<Rightarrow> (s3, options @ os))
        else (s2\<lparr>mq_pc := Waiting\<rparr>, options @ [MqLoopStart, MqConnectAsync (mq_host s) (mq_port s)]))"

definition MqttOnConnect :: "int \<Rightarrow> mqtt \<Rightarrow> mqtt \<times> mqtt_out list" where
  "MqttOnConnect rc s =
     (s, if mq_pc s = Waiting \<and> rc = 0
         then map (\<lambda>t. MqSubscribe (GetTopic (mq_uid s) t ''+'')) [TopicOffer, TopicAnswer, TopicIce] else [])"

text \<open>\<open>Publish\<close> to a released connection only logs an error.\<close>

definition MqttPublish :: "string \<Rightarrow> string \<Rightarrow> mqtt \<Rightarrow> mqtt_out list" where
  "MqttPublish topic msg s = (if mq_connection s then [MqPublish topic msg] else [])"

text \<open>What a peer calls with its own id.\<close>

definition OnLocalSdp :: "mqtt_json \<Rightarrow> string \<Rightarrow> string \<Rightarrow> string \<Rightarrow> mqtt \<Rightarrow> mqtt_out list" where
  "OnLocalSdp js peer_id sdp type s =
     (case omap_get (mq_peer_to_client s) peer_id of
        None \<Rightarrow> []
      | Some client_id \<Rightarrow>
          if type = ''offer'' then MqttPublish (GetTopic (mq_uid s) TopicOffer client_id) (js_dump_sdp js type sdp) s
          else if type = ''answer'' then MqttPublish (GetTopic (mq_uid s) TopicAnswer client_id) (js_dump_sdp js type sdp) s
          else [])"

definition OnLocalIce :: "mqtt_json \<Rightarrow> string \<Rightarrow> ice \<Rightarrow> mqtt \<Rightarrow> mqtt_out list" where
  "OnLocalIce js peer_id i s =
     (case omap_get (mq_peer_to_client s) peer_id of
        None \<Rightarrow> []
      | Some client_id \<Rightarrow> MqttPublish (GetTopic (mq_uid s) TopicIce client_id) (js_dump_ice js i) s)"

definition OnPeerExpired :: "string \<Rightarrow> mqtt \<Rightarrow> mqtt" where
  "OnPeerExpired peer_id s =
     (case omap_get (mq_peer_to_client s) peer_id of
        None \<Rightarrow> s
      | Some client_id \<Rightarrow>
          s\<lparr>mq_client_to_peer := (if omap_get (mq_client_to_peer s) client_id = Some peer_id
                                then omap_del client_id (mq_client_to_peer s) else mq_client_to_peer s),
            mq_peer_to_client := omap_del peer_id (mq_peer_to_client s)\<rparr>)"

text \<open>\<open>OnRemoteSdp\<close> and \<open>OnRemoteIce\<close>: parse, then look the peer up; \<open>None\<close> is an exception.\<close>

definition OnRemoteSdp :: "mqtt_json \<Rightarrow> string \<Rightarrow> string \<Rightarrow> mqtt \<Rightarrow> mqtt_out list option" where
  "OnRemoteSdp js peer_id message s =
     (case js_sdp js message of
        None \<Rightarrow> None
      | Some (sdp, type) \<Rightarrow>
          Some (case Get peer_id (mq_registry s) of None \<Rightarrow> [] | Some p \<Rightarrow> [MqSetRemoteSdp p sdp type]))"

definition OnRemoteIce :: "mqtt_json \<Rightarrow> string \<Rightarrow> string \<Rightarrow> mqtt \<Rightarrow> mqtt_out list option" where
  "OnRemoteIce js peer_id message s =
     (case js_ice js message of
        None \<Rightarrow> None
      | Some i \<Rightarrow> Some (case Get peer_id (mq_registry s) of None \<Rightarrow> [] | Some p \<Rightarrow> [MqSetRemoteIce p i]))"

text \<open>
  \<open>OnMessage\<close>, piece by piece. A payload is \<open>None\<close> when mosquitto passes none; its text ends
  at the first NUL because the code reads it as a C string.
\<close>

definition MessageBegin :: "string \<Rightarrow> string option \<Rightarrow> mqtt \<Rightarrow> mqtt" where
  "MessageBegin topic payload s =
     (if mq_pc s \<noteq> Waiting then s
      else case payload of
        None \<Rightarrow> s
      | Some data \<Rightarrow>
          let t = FindTopicType (mq_uid s) topic; client_id = FindClientId (mq_uid s) topic in
          if t = TopicUnknown \<or> client_id = [] then s
          else s\<lparr>mq_pc := Looking (t, client_id, takeWhile (\<lambda>c. c \<noteq> CHR 0x00) data)\<rparr>)"

definition MessageLookup :: "mqtt \<Rightarrow> mqtt" where
  "MessageLookup s =
     (case mq_pc s of
        Looking m \<Rightarrow>
          s\<lparr>mq_pc := Getting m (case omap_get (mq_client_to_peer s) (fst (snd m)) of None \<Rightarrow> [] | Some i \<Rightarrow> i)\<rparr>
      | _ \<Rightarrow> s)"

text \<open>\<open>created\<close> is the id of the peer \<open>CreatePeerConnection\<close> makes, \<open>None\<close> when it fails.\<close>

definition MessageGet :: "string option \<Rightarrow> mqtt \<Rightarrow> mqtt \<times> mqtt_out list" where
  "MessageGet created s =
     (case mq_pc s of
        Getting m mapped \<Rightarrow>
          (case (if mapped = [] then None else Get mapped (mq_registry s)) of
             Some p \<Rightarrow> (s\<lparr>mq_pc := Delivering m p\<rparr>, [])
           | None \<Rightarrow>
               if \<not> mq_conductor s then (s\<lparr>mq_pc := Waiting\<rparr>, [])
               else case created of
                 None \<Rightarrow> (s\<lparr>mq_pc := Waiting\<rparr>, [])
               | Some i \<Rightarrow> (s\<lparr>mq_pc := Adding m (length (mq_made s)), mq_made := mq_made s @ [(i, fst (snd m))]\<rparr>,
                           [MqCreatePeer i]))
      | _ \<Rightarrow> (s, []))"

definition peer_id_of :: "nat \<Rightarrow> mqtt \<Rightarrow> string" where
  "peer_id_of p s = fst (mq_made s ! p)"

definition MessageAdd :: "mqtt \<Rightarrow> mqtt" where
  "MessageAdd s =
     (case mq_pc s of
        Adding m p \<Rightarrow> s\<lparr>mq_registry := AddListen p (mq_registry s), mq_pc := Inserting m p\<rparr>
      | Inserting m p \<Rightarrow> s\<lparr>mq_registry := AddInsert (peer_id_of p s) p (mq_registry s), mq_pc := Hooking m p\<rparr>
      | _ \<Rightarrow> s)"

definition MessageMap :: "mqtt \<Rightarrow> mqtt" where
  "MessageMap s =
     (case mq_pc s of
        Hooking m p \<Rightarrow> s\<lparr>mq_hooked := insert p (mq_hooked s), mq_pc := Mapping m p\<rparr>
      | Mapping m p \<Rightarrow>
          s\<lparr>mq_client_to_peer := omap_put (fst (snd m)) (peer_id_of p s) (mq_client_to_peer s),
            mq_peer_to_client := omap_put (peer_id_of p s) (fst (snd m)) (mq_peer_to_client s),
            mq_pc := Delivering m p\<rparr>
      | _ \<Rightarrow> s)"

definition has_media :: "string \<Rightarrow> bool" where
  "has_media payload \<longleftrightarrow> find_sub ''m=video'' payload \<noteq> None \<or> find_sub ''m=audio'' payload \<noteq> None"

definition MessageDeliver :: "mqtt_json \<Rightarrow> mqtt \<Rightarrow> mqtt \<times> mqtt_out list" where
  "MessageDeliver js s =
     (case mq_pc s of
        Delivering (t, client_id, payload) p \<Rightarrow>
          (case (if t = TopicIce then OnRemoteIce js (peer_id_of p s) payload s
                 else OnRemoteSdp js (peer_id_of p s) payload s) of
             None \<Rightarrow> (s\<lparr>mq_pc := Aborted\<rparr>, if t = TopicOffer \<and> has_media payload then [MqEnsureTracks p] else [])
           | Some os \<Rightarrow> (s\<lparr>mq_pc := Waiting\<rparr>,
               (if t = TopicOffer \<and> has_media payload then [MqEnsureTracks p] else []) @ os))
      | _ \<Rightarrow> (s, []))"

text \<open>The cleaner reports one expired peer after the other before it goes on.\<close>

definition RegistryRuns :: "preg_event \<Rightarrow> mqtt \<Rightarrow> mqtt \<times> mqtt_out list" where
  "RegistryRuns e s =
     (if mq_told s \<noteq> [] \<and> (e = PgWake \<or> e = PgStopJoin) then (s, [])
      else case preg_step (mq_registry s) e of
        (r, os) \<Rightarrow> (s\<lparr>mq_registry := r,
          mq_told := mq_told s @ List.map_filter (\<lambda>x. case x of Told i \<Rightarrow> Some i | _ \<Rightarrow> None) os\<rparr>,
          map MqRegistry os))"

definition CleanerTells :: "mqtt \<Rightarrow> mqtt" where
  "CleanerTells s = (case mq_told s of [] \<Rightarrow> s | i # is \<Rightarrow> OnPeerExpired i (s\<lparr>mq_told := is\<rparr>))"

datatype mqtt_event =
    MqConnect bool bool | MqOnConnect int
  | MqMessage string "string option" | MqLookup | MqGet "string option" | MqAdd | MqMap | MqDeliver
  | MqLocalSdp nat string string | MqLocalIce nat ice
  | MqExpire nat | MqCleaner preg_event | MqTells
  | MqStopLoop | MqClear

fun mqtt_do :: "mqtt_json \<Rightarrow> mqtt \<Rightarrow> mqtt_event \<Rightarrow> mqtt \<times> mqtt_out list" where
  "mqtt_do js s (MqConnect made started) =
     (if mq_pc s = NoThread then MqttConnect made started s else (s, []))"
| "mqtt_do js s (MqOnConnect rc) = MqttOnConnect rc s"
| "mqtt_do js s (MqMessage topic payload) = (MessageBegin topic payload s, [])"
| "mqtt_do js s MqLookup = (MessageLookup s, [])"
| "mqtt_do js s (MqGet created) = MessageGet created s"
| "mqtt_do js s MqAdd = (MessageAdd s, [])"
| "mqtt_do js s MqMap = (MessageMap s, [])"
| "mqtt_do js s MqDeliver = MessageDeliver js s"
| "mqtt_do js s (MqLocalSdp p sdp type) =
     (s, if p \<in> mq_hooked s then OnLocalSdp js (peer_id_of p s) sdp type s else [])"
| "mqtt_do js s (MqLocalIce p i) =
     (s, if p \<in> mq_hooked s then OnLocalIce js (peer_id_of p s) i s else [])"
| "mqtt_do js s (MqExpire p) = (if p < length (mq_made s) then RegistryRuns (PgExpire p) s else (s, []))"
| "mqtt_do js s (MqCleaner e) =
     (if e \<in> {PgTask, PgWake, PgErase, PgTell, PgStopJoin, PgStopClear} then RegistryRuns e s else (s, []))"
| "mqtt_do js s MqTells = (CleanerTells s, [])"
| "mqtt_do js s MqStopLoop = DisconnectLoop s"
| "mqtt_do js s MqClear = DisconnectClear s"

text \<open>Nothing happens any more once the program has ended.\<close>

definition mqtt_step :: "mqtt_json \<Rightarrow> mqtt \<Rightarrow> mqtt_event \<Rightarrow> mqtt \<times> mqtt_out list" where
  "mqtt_step js s e = (if mq_pc s = Aborted then (s, []) else mqtt_do js s e)"

lemmas mqtt_ops = DisconnectLoop_def DisconnectClear_def MqttConnect_def MqttOnConnect_def MessageBegin_def
  MessageLookup_def MessageGet_def MessageAdd_def MessageMap_def MessageDeliver_def RegistryRuns_def CleanerTells_def
  OnPeerExpired_def

section \<open>Clients and peers\<close>

text \<open>The conditions are on the fields alone, so that an operation on another field keeps them.\<close>

type_synonym made = "(string \<times> string) list"

definition made_for :: "made \<Rightarrow> nat \<Rightarrow> string \<Rightarrow> bool" where
  "made_for made p c \<longleftrightarrow> p < length made \<and> snd (made ! p) = c"

fun pc_ok :: "mqtt_pc \<Rightarrow> made \<Rightarrow> bool" where
  "pc_ok (Getting (t, c, m) i) made = (i = [] \<or> (i, c) \<in> set made)"
| "pc_ok (Adding (t, c, m) p) made = made_for made p c"
| "pc_ok (Inserting (t, c, m) p) made = made_for made p c"
| "pc_ok (Hooking (t, c, m) p) made = made_for made p c"
| "pc_ok (Mapping (t, c, m) p) made = made_for made p c"
| "pc_ok (Delivering (t, c, m) p) made = made_for made p c"
| "pc_ok _ made = True"

definition registry_made :: "preg \<Rightarrow> made \<Rightarrow> bool" where
  "registry_made r made \<longleftrightarrow> (\<forall>(i, p) \<in> set (pg_peers r). p < length made \<and> fst (made ! p) = i) \<and>
     pg_expired r \<subseteq> {..<length made}"

definition maps_agree :: "(string, string) omap \<Rightarrow> (string, string) omap \<Rightarrow> made \<Rightarrow> bool" where
  "maps_agree c2p p2c made \<longleftrightarrow>
     (\<forall>c i. omap_get c2p c = Some i \<longrightarrow> omap_get p2c i = Some c) \<and>
     (\<forall>i c. omap_get p2c i = Some c \<longrightarrow> (i, c) \<in> set made)"

definition mqtt_inv :: "mqtt \<Rightarrow> bool" where
  "mqtt_inv s \<longleftrightarrow> distinct (map fst (mq_made s)) \<and> mq_hooked s \<subseteq> {..<length (mq_made s)} \<and>
     pc_ok (mq_pc s) (mq_made s) \<and> registry_made (mq_registry s) (mq_made s) \<and>
     maps_agree (mq_client_to_peer s) (mq_peer_to_client s) (mq_made s)"

text \<open>The ids of the peers that the run creates; \<open>GenerateUuid\<close> does not repeat itself.\<close>

fun created_id :: "mqtt_event \<Rightarrow> string option" where
  "created_id (MqGet (Some i)) = Some i"
| "created_id _ = None"

definition created_ids :: "mqtt_event list \<Rightarrow> string list" where
  "created_ids es = List.map_filter created_id es"

definition fresh_for :: "mqtt \<Rightarrow> mqtt_event \<Rightarrow> bool" where
  "fresh_for s e \<longleftrightarrow> (\<forall>i. e = MqGet (Some i) \<longrightarrow> i \<notin> fst ` set (mq_made s))"

lemma made_at: "distinct (map fst xs) \<Longrightarrow> (i, c) \<in> set xs \<Longrightarrow> p < length xs \<Longrightarrow> fst (xs ! p) = i \<Longrightarrow> snd (xs ! p) = c"
  by (metis eq_key_imp_eq_value nth_mem prod.collapse)

lemma Get_in: "Get i r = Some p \<Longrightarrow> (i, p) \<in> set (pg_peers r) \<and> p \<notin> pg_expired r"
  by (auto simp: Get_def omap_get_def dest: map_of_SomeD split: option.splits if_splits)

lemma preg_peers_sub:
  "e \<in> {PgTask, PgWake, PgErase, PgTell, PgStopJoin, PgStopClear, PgExpire p} \<Longrightarrow>
   set (pg_peers (fst (preg_step r e))) \<subseteq> set (pg_peers r) \<and>
   pg_expired (fst (preg_step r e)) \<subseteq> pg_expired r \<union> snd ` set (pg_peers r) \<union> (if e = PgExpire p then {p} else {})"
  by (auto simp: preg_ops split: list.splits cleaner_pc.splits if_splits)

lemma registry_step_made:
  assumes "registry_made r made" "e \<in> {PgTask, PgWake, PgErase, PgTell, PgStopJoin, PgStopClear, PgExpire p}"
    "e = PgExpire p \<Longrightarrow> p < length made"
  shows "registry_made (fst (preg_step r e)) made"
proof -
  have in_reg: "p < length made \<and> fst (made ! p) = i" if "(i, p) \<in> set (pg_peers r)" for i p
    using assms(1) that by (auto simp: registry_made_def)
  have ex: "pg_expired r \<subseteq> {..<length made}" using assms(1) by (simp add: registry_made_def)
  have "x < length made" if "x \<in> pg_expired (fst (preg_step r e))" for x
  proof -
    from that preg_peers_sub [OF assms(2)] consider "x \<in> pg_expired r" | "x \<in> snd ` set (pg_peers r)" | "e = PgExpire p" "x = p"
      by (cases "e = PgExpire p") auto
    then show ?thesis using ex in_reg assms(3) by cases auto
  qed
  moreover have "p < length made \<and> fst (made ! p) = i" if "(i, p) \<in> set (pg_peers (fst (preg_step r e)))" for i p
    using in_reg that preg_peers_sub [OF assms(2)] by blast
  ultimately show ?thesis by (auto simp: registry_made_def)
qed

lemma registry_runs_inv:
  assumes "mqtt_inv s" "e \<in> {PgTask, PgWake, PgErase, PgTell, PgStopJoin, PgStopClear, PgExpire p}"
    "e = PgExpire p \<Longrightarrow> p < length (mq_made s)"
  shows "mqtt_inv (fst (RegistryRuns e s))"
proof -
  have "registry_made (fst (preg_step (mq_registry s) e)) (mq_made s)"
    using assms by (intro registry_step_made) (auto simp: mqtt_inv_def)
  with assms(1) show ?thesis by (simp add: RegistryRuns_def mqtt_inv_def split_beta)
qed

lemma registry_flags [simp]:
  "registry_made (StopFlag r) made = registry_made r made"
  "registry_made (RegStart r) made = registry_made r made"
  "registry_made (AddListen p r) made = registry_made r made"
  by (simp_all add: registry_made_def StopFlag_def RegStart_def AddListen_def)

lemma registry_insert:
  "registry_made r made \<Longrightarrow> p < length made \<Longrightarrow> fst (made ! p) = i \<Longrightarrow> registry_made (AddInsert i p r) made"
  using set_omap_put [of i p "pg_peers r"] by (fastforce simp: registry_made_def AddInsert_def)

lemma maps_agree_Nil [simp]: "maps_agree [] [] made"
  by (simp add: maps_agree_def)

lemma expired_inv: "mqtt_inv s \<Longrightarrow> mqtt_inv (OnPeerExpired i s)"
proof -
  have "maps_agree (if omap_get a c = Some i then omap_del c a else a) (omap_del i b) m"
    if agree: "maps_agree a b m" and c: "omap_get b i = Some c" for a b m c
    unfolding maps_agree_def
  proof (intro conjI allI impI)
    fix c' j assume j: "omap_get (if omap_get a c = Some i then omap_del c a else a) c' = Some j"
    then have "omap_get a c' = Some j" by (auto split: if_splits)
    moreover from this agree have "omap_get b j = Some c'" by (simp add: maps_agree_def)
    moreover from this c j have "j \<noteq> i" by (auto split: if_splits simp: \<open>omap_get a c' = Some j\<close>)
    ultimately show "omap_get (omap_del i b) j = Some c'" by simp
  next
    fix j c' assume "omap_get (omap_del i b) j = Some c'"
    with agree show "(j, c') \<in> set m" by (simp add: maps_agree_def split: if_splits)
  qed
  moreover assume "mqtt_inv s"
  ultimately show ?thesis by (auto simp: OnPeerExpired_def mqtt_inv_def split: option.split)
qed

lemma maps_agree_put:
  assumes "maps_agree a b made" "distinct (map fst made)" "(i, c) \<in> set made"
  shows "maps_agree (omap_put c i a) (omap_put i c b) made"
  unfolding maps_agree_def
proof (intro conjI allI impI)
  fix c' j assume j: "omap_get (omap_put c i a) c' = Some j"
  show "omap_get (omap_put i c b) j = Some c'"
  proof (cases "c' = c")
    case False
    with j assms(1) have "omap_get b j = Some c'" "(j, c') \<in> set made" by (auto simp: maps_agree_def)
    then show ?thesis using False assms(2,3) by (auto dest: eq_key_imp_eq_value)
  qed (use j in simp)
next
  fix j c' assume "omap_get (omap_put i c b) j = Some c'"
  then show "(j, c') \<in> set made" using assms by (auto simp: maps_agree_def split: if_splits)
qed

lemma add_inv: "mqtt_inv s \<Longrightarrow> mqtt_inv (MessageAdd s)"
  by (cases "mq_pc s")
     (auto simp: MessageAdd_def mqtt_inv_def made_for_def peer_id_of_def intro: registry_insert)

lemma map_inv: "mqtt_inv s \<Longrightarrow> mqtt_inv (MessageMap s)"
proof (cases "mq_pc s")
  case (Mapping m p)
  moreover obtain t c d where "m = (t, c, d)" by (cases m)
  moreover have "p < length xs \<Longrightarrow> (fst (xs ! p), snd (xs ! p)) \<in> set xs" for xs :: made by simp
  moreover assume "mqtt_inv s"
  ultimately show ?thesis
    by (auto simp: MessageMap_def mqtt_inv_def made_for_def peer_id_of_def intro!: maps_agree_put)
qed (auto simp: MessageMap_def mqtt_inv_def made_for_def)

lemma registry_more: "registry_made r made \<Longrightarrow> registry_made r (made @ [x])"
  by (fastforce simp: registry_made_def nth_append)

lemma maps_agree_more: "maps_agree a b made \<Longrightarrow> maps_agree a b (made @ [x])"
  by (auto simp: maps_agree_def)

lemma found_made:
  assumes "registry_made r made" "distinct (map fst made)" "Get i r = Some p" "(i, c) \<in> set made"
  shows "made_for made p c"
  using assms Get_in [OF assms(3)] made_at [OF assms(2,4), of p] by (auto simp: registry_made_def made_for_def)

lemma get_inv:
  assumes "mqtt_inv s" "fresh_for s (MqGet created)"
  shows "mqtt_inv (fst (MessageGet created s))"
proof (cases "mq_pc s")
  case (Getting m mapped)
  obtain t c d where m: "m = (t, c, d)" by (cases m)
  show ?thesis
    using assms Getting m
    by (auto simp: MessageGet_def mqtt_inv_def fresh_for_def registry_more maps_agree_more made_for_def [of "_ @ _"]
        split: option.split intro: found_made)
qed (use assms in \<open>simp_all add: MessageGet_def\<close>)

lemma other_inv:
  assumes "mqtt_inv s"
  shows "mqtt_inv (fst (DisconnectLoop s))" "mqtt_inv (fst (MqttConnect made started s))" "mqtt_inv (fst (DisconnectClear s))"
    "mqtt_inv (MessageBegin topic payload s)" "mqtt_inv (MessageLookup s)" "mqtt_inv (fst (MessageDeliver js s))"
    "mqtt_inv (CleanerTells s)"
proof -
  show "mqtt_inv (fst (DisconnectLoop s))" using assms by (simp add: DisconnectLoop_def mqtt_inv_def)
  show "mqtt_inv (fst (MqttConnect made started s))"
    using assms by (simp add: MqttConnect_def DisconnectLoop_def mqtt_inv_def Let_def)
  show "mqtt_inv (fst (DisconnectClear s))" using assms by (simp add: DisconnectClear_def mqtt_inv_def)
  show "mqtt_inv (MessageBegin topic payload s)"
    using assms by (auto simp: MessageBegin_def mqtt_inv_def Let_def split: option.split)
  show "mqtt_inv (MessageLookup s)"
    using assms by (auto simp: MessageLookup_def mqtt_inv_def maps_agree_def split: mqtt_pc.split option.split)
  show "mqtt_inv (fst (MessageDeliver js s))"
    using assms by (auto simp: MessageDeliver_def mqtt_inv_def split: mqtt_pc.split option.split)
  show "mqtt_inv (CleanerTells s)"
  proof (cases "mq_told s")
    case (Cons i is1)
    have "mqtt_inv (s\<lparr>mq_told := is1\<rparr>)" using assms by (simp add: mqtt_inv_def)
    then show ?thesis using expired_inv by (simp add: CleanerTells_def Cons)
  qed (use assms in \<open>simp add: CleanerTells_def\<close>)
qed

lemma mqtt_inv_step:
  assumes "mqtt_inv s" "fresh_for s e"
  shows "mqtt_inv (fst (mqtt_step js s e))"
  using assms
  by (cases e) (auto simp: mqtt_step_def MqttOnConnect_def other_inv get_inv add_inv map_inv intro: registry_runs_inv)

lemma made_step:
  "mq_made (fst (mqtt_step js s e)) = mq_made s \<or>
   (\<exists>i c. e = MqGet (Some i) \<and> mq_made (fst (mqtt_step js s e)) = mq_made s @ [(i, c)])"
  by (cases e)
     (auto simp: mqtt_step_def mqtt_ops split_beta Let_def split: mqtt_pc.split option.split list.split)

lemma created_ids_Cons: "created_ids (e # es) = (case created_id e of Some i \<Rightarrow> [i] | None \<Rightarrow> []) @ created_ids es"
  by (simp add: created_ids_def List.map_filter_simps split: option.split)

lemma created_id_Some: "created_id e = Some i \<longleftrightarrow> e = MqGet (Some i)"
  by (induction e rule: created_id.induct) auto

lemma mqtt_inv_run:
  assumes "mqtt_inv s" "distinct (map fst (mq_made s) @ created_ids es)"
  shows "mqtt_inv (fst (run (mqtt_step js) s es))"
  using assms
proof (induction es arbitrary: s)
  case (Cons e es)
  have "fresh_for s e"
    using Cons.prems(2) by (auto simp: fresh_for_def created_ids_Cons)
  with Cons.prems(1) have inv: "mqtt_inv (fst (mqtt_step js s e))" by (rule mqtt_inv_step)
  have "distinct (map fst (mq_made (fst (mqtt_step js s e))) @ created_ids es)"
    using made_step [of js s e] Cons.prems(2)
    by (auto simp: created_ids_Cons image_iff split: option.splits) force+
  from Cons.IH [OF inv this] show ?case by simp
qed simp

lemma MqttInit_inv: "mqtt_inv (MqttInit u host port un pw cond)" "mq_made (MqttInit u host port un pw cond) = []"
  by (simp_all add: mqtt_inv_def MqttInit_def registry_made_def init_preg_def)

text \<open>The peer whose callback an event is, and the client of the message being handled.\<close>

fun event_peer :: "mqtt_event \<Rightarrow> nat option" where
  "event_peer (MqLocalSdp p sdp type) = Some p"
| "event_peer (MqLocalIce p i) = Some p"
| "event_peer _ = None"

fun handled_client :: "mqtt_pc \<Rightarrow> string option" where
  "handled_client (Delivering (t, c, m) p) = Some c"
| "handled_client _ = None"

text \<open>What is published comes from a peer and goes to the topics of that peer's client; what a
  peer is given comes from its client.\<close>

fun for_its_client :: "mqtt \<Rightarrow> mqtt_event \<Rightarrow> mqtt_out \<Rightarrow> bool" where
  "for_its_client s e (MqPublish topic msg) =
     (case event_peer e of
        None \<Rightarrow> False
      | Some p \<Rightarrow> p < length (mq_made s) \<and>
          topic \<in> (\<lambda>t. GetTopic (mq_uid s) t (snd (mq_made s ! p))) ` {TopicOffer, TopicAnswer, TopicIce})"
| "for_its_client s e (MqSetRemoteSdp p sdp type) = (p < length (mq_made s) \<and> handled_client (mq_pc s) = Some (snd (mq_made s ! p)))"
| "for_its_client s e (MqSetRemoteIce p i) = (p < length (mq_made s) \<and> handled_client (mq_pc s) = Some (snd (mq_made s ! p)))"
| "for_its_client s e (MqEnsureTracks p) = (p < length (mq_made s) \<and> handled_client (mq_pc s) = Some (snd (mq_made s ! p)))"
| "for_its_client s e _ = True"

lemma local_for_client:
  assumes "mqtt_inv s" "p \<in> mq_hooked s" "event_peer e = Some p"
  shows "list_all (for_its_client s e) (OnLocalSdp js (peer_id_of p s) sdp type s)"
    "list_all (for_its_client s e) (OnLocalIce js (peer_id_of p s) i s)"
proof -
  have p: "p < length (mq_made s)" using assms(1,2) by (auto simp: mqtt_inv_def)
  have "snd (mq_made s ! p) = c" if "omap_get (mq_peer_to_client s) (fst (mq_made s ! p)) = Some c" for c
  proof -
    have "(fst (mq_made s ! p), c) \<in> set (mq_made s)" using that assms(1) by (simp add: mqtt_inv_def maps_agree_def)
    then show ?thesis using made_at [OF _ _ p refl] assms(1) by (simp add: mqtt_inv_def)
  qed
  with p show "list_all (for_its_client s e) (OnLocalSdp js (peer_id_of p s) sdp type s)"
    "list_all (for_its_client s e) (OnLocalIce js (peer_id_of p s) i s)"
    by (auto simp: OnLocalSdp_def OnLocalIce_def MqttPublish_def peer_id_of_def assms(3) split: option.split)
qed

lemma deliver_for_client:
  assumes "mqtt_inv s"
  shows "list_all (for_its_client s e) (snd (MessageDeliver js s))"
proof (cases "mq_pc s")
  case (Delivering m p)
  obtain t c d where m: "m = (t, c, d)" by (cases m)
  have p: "p < length (mq_made s)" "snd (mq_made s ! p) = c"
    using assms Delivering m by (auto simp: mqtt_inv_def made_for_def)
  then have "(fst (mq_made s ! p), c) \<in> set (mq_made s)" by (metis nth_mem prod.collapse)
  then have "made_for (mq_made s) q c" if "Get (fst (mq_made s ! p)) (mq_registry s) = Some q" for q
    using assms that found_made by (auto simp: mqtt_inv_def)
  with p show ?thesis
    by (auto simp: MessageDeliver_def OnRemoteSdp_def OnRemoteIce_def Delivering m peer_id_of_def made_for_def
        split: option.splits)
qed (simp_all add: MessageDeliver_def)

lemma step_for_client:
  assumes "mqtt_inv s"
  shows "list_all (for_its_client s e) (snd (mqtt_step js s e))"
proof (cases e)
  case MqDeliver
  then show ?thesis using deliver_for_client [OF assms] by (simp add: mqtt_step_def)
next
  case (MqLocalSdp p sdp type)
  then show ?thesis using local_for_client [OF assms, of p e] by (simp add: mqtt_step_def)
next
  case (MqLocalIce p i)
  then show ?thesis using local_for_client [OF assms, of p e] by (simp add: mqtt_step_def)
qed (auto simp: mqtt_step_def mqtt_ops split_beta Let_def list_all_iff split: mqtt_pc.split option.split)

text \<open>
  C11: Clients are kept apart: in whatever way messages, callbacks, expiries and the cleaner
  interleave, a description or candidate of a peer is only ever published on the topics of the
  client the peer was made for, and a peer is only ever given descriptions, candidates and
  tracks by messages of that client.
\<close>

theorem clients_are_kept_apart:
  assumes "distinct (created_ids es)" "s = fst (run (mqtt_step js) (MqttInit u host port un pw cond) es)"
  shows "list_all (for_its_client s e) (snd (mqtt_step js s e))"
  using mqtt_inv_run [OF MqttInit_inv(1), of u host port un pw cond es js] assms
  by (intro step_for_client) (simp add: MqttInit_inv)

definition demo_json :: mqtt_json where
  "demo_json = \<lparr>js_sdp = (\<lambda>m. case m of [] \<Rightarrow> None | c # sdp \<Rightarrow> Some (sdp, if c = CHR ''o'' then ''offer'' else ''answer'')),
     js_ice = (\<lambda>m. Some (m, 0, m)), js_dump_sdp = (\<lambda>type sdp. type @ sdp), js_dump_ice = (\<lambda>(mid, n, c). c)\<rparr>"

text \<open>\<open>OnMessage\<close> without interference.\<close>

definition HandleMessage :: "string \<Rightarrow> string \<Rightarrow> string \<Rightarrow> mqtt_event list" where
  "HandleMessage topic payload i = [MqMessage topic (Some payload), MqLookup, MqGet (Some i), MqAdd, MqAdd, MqMap, MqMap, MqDeliver]"

definition demo_mqtt :: mqtt where
  "demo_mqtt = fst (run (mqtt_step demo_json) (MqttInit ''pi'' ''host'' 8883 [] [] True)
     (MqConnect True True # HandleMessage ''pi/offer/ann'' ''ov=0'' ''p1'' @ HandleMessage ''pi/offer/bob'' ''ov=1'' ''p2''))"

theorem clients_are_kept_apart_witness:
  "list_all (for_its_client demo_mqtt (MqLocalSdp 1 ''v=2'' ''answer'')) [MqPublish ''pi/answer/bob'' ''answerv=2''] \<and>
   mq_made demo_mqtt ! 1 = (''p2'', ''bob'')"
proof -
  have "distinct (created_ids (MqConnect True True # HandleMessage ''pi/offer/ann'' ''ov=0'' ''p1'' @ HandleMessage ''pi/offer/bob'' ''ov=1'' ''p2''))"
    by code_simp
  moreover have "snd (mqtt_step demo_json demo_mqtt (MqLocalSdp 1 ''v=2'' ''answer'')) = [MqPublish ''pi/answer/bob'' ''answerv=2'']"
    "mq_made demo_mqtt ! 1 = (''p2'', ''bob'')"
    by code_simp+
  ultimately show ?thesis
    using clients_are_kept_apart [OF _ demo_mqtt_def, of "MqLocalSdp 1 ''v=2'' ''answer''"] by simp
qed

text \<open>
  The two maps agree, and once the cleaner has reported an expired peer no client and no
  mapping refers to it any more: the next message of its client gets a peer of its own.
\<close>

theorem client_maps_agree:
  assumes "distinct (created_ids es)" "s = fst (run (mqtt_step js) (MqttInit u host port un pw cond) es)"
  shows "(omap_get (mq_client_to_peer s) c = Some i \<longrightarrow> omap_get (mq_peer_to_client s) i = Some c) \<and>
    (mq_told s = i # is1 \<longrightarrow> omap_get (mq_peer_to_client (CleanerTells s)) i = None \<and>
       omap_get (mq_client_to_peer (CleanerTells s)) c \<noteq> Some i)"
proof -
  have agree: "maps_agree (mq_client_to_peer s) (mq_peer_to_client s) (mq_made s)"
    using mqtt_inv_run [OF MqttInit_inv(1), of u host port un pw cond es js] assms
    by (simp add: MqttInit_inv mqtt_inv_def)
  moreover have "omap_get (mq_client_to_peer (CleanerTells s)) c \<noteq> Some i" if t: "mq_told s = i # is1"
  proof (cases "omap_get (mq_peer_to_client s) i")
    case None
    with agree t show ?thesis by (auto simp: CleanerTells_def OnPeerExpired_def maps_agree_def)
  next
    case (Some d)
    have "c = d" if "omap_get (mq_client_to_peer s) c = Some i" using that agree Some by (auto simp: maps_agree_def)
    with t Some show ?thesis by (auto simp: CleanerTells_def OnPeerExpired_def)
  qed
  moreover have "omap_get (mq_peer_to_client (CleanerTells s)) i = None" if "mq_told s = i # is1"
    using that by (simp add: CleanerTells_def OnPeerExpired_def split: option.split)
  ultimately show ?thesis by (simp add: maps_agree_def)
qed

theorem client_maps_agree_witness:
  "let s = fst (run (mqtt_step demo_json) demo_mqtt [MqExpire 0, MqCleaner PgTask, MqCleaner PgWake, MqCleaner PgErase, MqCleaner PgTell])
   in mq_told s = [''p1''] \<and> omap_get (mq_client_to_peer s) ''ann'' = Some ''p1'' \<and>
      omap_get (mq_peer_to_client (CleanerTells s)) ''p1'' = None \<and> omap_get (mq_client_to_peer (CleanerTells s)) ''ann'' \<noteq> Some ''p1''"
proof -
  let ?es = "(MqConnect True True # HandleMessage ''pi/offer/ann'' ''ov=0'' ''p1'' @ HandleMessage ''pi/offer/bob'' ''ov=1'' ''p2'') @
    [MqExpire 0, MqCleaner PgTask, MqCleaner PgWake, MqCleaner PgErase, MqCleaner PgTell]"
  define s where "s = fst (run (mqtt_step demo_json) (MqttInit ''pi'' ''host'' 8883 [] [] True) ?es)"
  have s: "fst (run (mqtt_step demo_json) demo_mqtt [MqExpire 0, MqCleaner PgTask, MqCleaner PgWake, MqCleaner PgErase, MqCleaner PgTell]) = s"
    unfolding s_def demo_mqtt_def by (simp only: fst_run_append)
  have "distinct (created_ids ?es)" "mq_told s = [''p1'']" "omap_get (mq_client_to_peer s) ''ann'' = Some ''p1''"
    unfolding s_def by code_simp+
  with client_maps_agree [OF _ s_def, of "''ann''" "''p1''" "[]"] show ?thesis unfolding s Let_def by simp
qed

section \<open>A message reaches its client's peer\<close>

lemma Get_insert: "p \<notin> pg_expired r \<Longrightarrow> Get i (AddInsert i p (AddListen p r)) = Some p"
  by (simp add: Get_def AddInsert_def AddListen_def)

lemma handled_found:
  assumes s: "mqtt_inv s" "mq_pc s = Waiting" "mq_conductor s"
    and topic: "FindTopicType (mq_uid s) topic = t" "t \<in> {TopicOffer, TopicAnswer}" "FindClientId (mq_uid s) topic = c" "c \<noteq> []"
    and msg: "CHR 0x00 \<notin> set payload" "js_sdp js payload = Some (sdp, type)"
    and known: "omap_get (mq_client_to_peer s) c = Some j" "j \<noteq> []" "Get j (mq_registry s) = Some p"
  shows "run (mqtt_step js) s (HandleMessage topic payload i) =
    (s, (if t = TopicOffer \<and> has_media payload then [MqEnsureTracks p] else []) @ [MqSetRemoteSdp p sdp type])"
proof -
  let ?m = "(t, c, payload)"
  have "fst (mq_made s ! p) = j" using s(1) Get_in [OF known(3)] by (auto simp: mqtt_inv_def registry_made_def)
  moreover have t: "t \<noteq> TopicUnknown" "t \<noteq> TopicIce" using topic(2) by auto
  moreover have tw: "takeWhile (\<lambda>c. c \<noteq> CHR 0x00) payload = payload" using msg(1) by auto
  moreover have "mqtt_step js s (MqMessage topic (Some payload)) = (s\<lparr>mq_pc := Looking ?m\<rparr>, [])"
    using s(2) topic t tw by (simp add: mqtt_step_def MessageBegin_def Let_def)
  ultimately show ?thesis
    using s(2) known msg(2)
    by (simp add: HandleMessage_def prod_eq_iff mqtt_step_def MessageLookup_def MessageGet_def MessageAdd_def MessageMap_def
        MessageDeliver_def OnRemoteSdp_def peer_id_of_def)
qed

lemma handled_new:
  assumes s: "mqtt_inv s" "mq_pc s = Waiting" "mq_conductor s"
    and topic: "FindTopicType (mq_uid s) topic = t" "t \<in> {TopicOffer, TopicAnswer}" "FindClientId (mq_uid s) topic = c" "c \<noteq> []"
    and msg: "CHR 0x00 \<notin> set payload" "js_sdp js payload = Some (sdp, type)"
    and unknown: "\<And>j. omap_get (mq_client_to_peer s) c = Some j \<Longrightarrow> j \<noteq> [] \<Longrightarrow> Get j (mq_registry s) = None"
  shows "run (mqtt_step js) s (HandleMessage topic payload i) =
    (let p = length (mq_made s) in
     (s\<lparr>mq_made := mq_made s @ [(i, c)], mq_registry := AddInsert i p (AddListen p (mq_registry s)),
        mq_hooked := insert p (mq_hooked s), mq_client_to_peer := omap_put c i (mq_client_to_peer s),
        mq_peer_to_client := omap_put i c (mq_peer_to_client s)\<rparr>,
      MqCreatePeer i # (if t = TopicOffer \<and> has_media payload then [MqEnsureTracks p] else []) @ [MqSetRemoteSdp p sdp type]))"
proof -
  let ?m = "(t, c, payload)"
  have t: "t \<noteq> TopicUnknown" "t \<noteq> TopicIce" using topic(2) by auto
  have tw: "takeWhile (\<lambda>c. c \<noteq> CHR 0x00) payload = payload" using msg(1) by auto
  have b: "mqtt_step js s (MqMessage topic (Some payload)) = (s\<lparr>mq_pc := Looking ?m\<rparr>, [])"
    using s(2) topic t tw by (simp add: mqtt_step_def MessageBegin_def Let_def)
  define mapped where "mapped = (case omap_get (mq_client_to_peer s) c of None \<Rightarrow> [] | Some j \<Rightarrow> j)"
  have none: "(if mapped = [] then None else Get mapped (mq_registry s)) = None"
    using unknown by (auto simp: mapped_def split: option.splits)
  have l: "mqtt_step js (s\<lparr>mq_pc := Looking ?m\<rparr>) MqLookup = (s\<lparr>mq_pc := Getting ?m mapped\<rparr>, [])"
    by (simp add: mqtt_step_def MessageLookup_def mapped_def)
  have new: "length (mq_made s) \<notin> pg_expired (mq_registry s)"
    using s(1) by (auto simp: mqtt_inv_def registry_made_def)
  have g: "mqtt_step js (s\<lparr>mq_pc := Getting ?m mapped\<rparr>) (MqGet (Some i)) =
      (s\<lparr>mq_pc := Adding ?m (length (mq_made s)), mq_made := mq_made s @ [(i, c)]\<rparr>, [MqCreatePeer i])"
    using none s(3) by (cases "mapped = []") (simp_all add: mqtt_step_def MessageGet_def)
  show ?thesis
    using s(2) t msg(2) Get_insert [OF new, of i]
    by (simp add: HandleMessage_def prod_eq_iff b l g Let_def)
       (simp add: mqtt_step_def MessageAdd_def MessageMap_def MessageDeliver_def OnRemoteSdp_def peer_id_of_def)
qed

text \<open>
  C12: Every offer or answer of a client reaches a live peer of that client: when \<open>OnMessage\<close> is not
  interrupted, exactly one remote description is set, on a peer that is registered, not expired,
  made for that client and mapped to it; the peer already mapped is used again while it lives.
\<close>

theorem message_reaches_its_clients_peer:
  assumes "distinct (created_ids es)" "s = fst (run (mqtt_step js) (MqttInit u host port un pw True) es)"
    and "mq_pc s = Waiting" "t \<in> {TopicOffer, TopicAnswer}" "c \<noteq> []" "CHR ''/'' \<notin> set c"
    and "CHR 0x00 \<notin> set payload" "js_sdp js payload = Some (sdp, type)" "i \<notin> fst ` set (mq_made s)"
  shows "let (s', os) = run (mqtt_step js) s (HandleMessage (GetTopic (mq_uid s) t c) payload i)
     in mq_pc s' = Waiting \<and>
       (\<exists>p. [x \<leftarrow> os. \<exists>q sdp' type'. x = MqSetRemoteSdp q sdp' type'] = [MqSetRemoteSdp p sdp type] \<and>
          Get (peer_id_of p s') (mq_registry s') = Some p \<and> p < length (mq_made s') \<and> snd (mq_made s' ! p) = c \<and>
          omap_get (mq_client_to_peer s') c = Some (peer_id_of p s') \<and>
          (p < length (mq_made s) \<longleftrightarrow> (\<exists>j q. omap_get (mq_client_to_peer s) c = Some j \<and> j \<noteq> [] \<and> Get j (mq_registry s) = Some q)))"
proof -
  have inv: "mqtt_inv s" and cond: "mq_conductor s"
  proof -
    show "mqtt_inv s"
      using mqtt_inv_run [OF MqttInit_inv(1), of u host port un pw True es js] assms(1,2) by (simp add: MqttInit_inv)
    have "mq_conductor (fst (mqtt_step js s e)) = mq_conductor s" for s e
      by (cases e)
         (auto simp: mqtt_step_def mqtt_ops split_beta Let_def split: mqtt_pc.split option.split list.split)
    then have "mq_conductor (fst (run (mqtt_step js) s es)) = mq_conductor s" for s es
      by (induction es arbitrary: s) simp_all
    then show "mq_conductor s" by (simp add: assms(2) MqttInit_def)
  qed
  have t: "t \<noteq> TopicUnknown" using assms(4) by auto
  then have topic: "FindTopicType (mq_uid s) (GetTopic (mq_uid s) t c) = t" "FindClientId (mq_uid s) (GetTopic (mq_uid s) t c) = c"
    using assms(5,6) by (simp_all add: GetTopic_client FindClientId_of)
  note found = handled_found [OF inv assms(3) cond topic(1) assms(4) topic(2) assms(5,7,8)]
    and new = handled_new [OF inv assms(3) cond topic(1) assms(4) topic(2) assms(5,7,8)]
  show ?thesis
  proof (cases "\<exists>j q. omap_get (mq_client_to_peer s) c = Some j \<and> j \<noteq> [] \<and> Get j (mq_registry s) = Some q")
    case True
    then obtain j q where j: "omap_get (mq_client_to_peer s) c = Some j" "j \<noteq> []" "Get j (mq_registry s) = Some q" by blast
    have q: "q < length (mq_made s)" "fst (mq_made s ! q) = j"
      using inv Get_in [OF j(3)] by (auto simp: mqtt_inv_def registry_made_def)
    moreover have "(j, c) \<in> set (mq_made s)" using inv j(1) by (auto simp: mqtt_inv_def maps_agree_def)
    ultimately have "snd (mq_made s ! q) = c" using made_at [OF _ _ q] inv by (simp add: mqtt_inv_def)
    then show ?thesis using found [OF j] q j assms(3) by (auto simp: peer_id_of_def)
  next
    case False
    have "length (mq_made s) \<notin> pg_expired (mq_registry s)" using inv by (auto simp: mqtt_inv_def registry_made_def)
    then have "Get i (AddInsert i (length (mq_made s)) (AddListen (length (mq_made s)) (mq_registry s))) = Some (length (mq_made s))"
      by (rule Get_insert)
    moreover have "\<And>j. omap_get (mq_client_to_peer s) c = Some j \<Longrightarrow> j \<noteq> [] \<Longrightarrow> Get j (mq_registry s) = None"
      using False by (metis not_None_eq)
    note new [OF this, of i]
    ultimately show ?thesis using False assms(3) by (simp add: peer_id_of_def Let_def)
  qed
qed

theorem message_reaches_its_clients_peer_witness:
  "let s = demo_mqtt; (s', os) = run (mqtt_step demo_json) s (HandleMessage (GetTopic (mq_uid s) TopicOffer ''bob'') ''om=video'' ''p3'')
     in os = [MqEnsureTracks 1, MqSetRemoteSdp 1 ''m=video'' ''offer''] \<and> mq_pc s' = Waiting \<and>
        omap_get (mq_client_to_peer s') ''bob'' = Some ''p2''"
proof -
  let ?r = "run (mqtt_step demo_json) demo_mqtt (HandleMessage (GetTopic (mq_uid demo_mqtt) TopicOffer ''bob'') ''om=video'' ''p3'')"
  have "distinct (created_ids (MqConnect True True # HandleMessage ''pi/offer/ann'' ''ov=0'' ''p1'' @ HandleMessage ''pi/offer/bob'' ''ov=1'' ''p2''))"
    "mq_pc demo_mqtt = Waiting" "js_sdp demo_json ''om=video'' = Some (''m=video'', ''offer'')" "''p3'' \<notin> fst ` set (mq_made demo_mqtt)"
    "TopicOffer \<in> {TopicOffer, TopicAnswer}" "''bob'' \<noteq> []" "CHR ''/'' \<notin> set ''bob''" "CHR 0x00 \<notin> set ''om=video''"
    by code_simp+
  note message_reaches_its_clients_peer [OF this(1) demo_mqtt_def this(2,5-8,3,4)]
  moreover have "snd ?r = [MqEnsureTracks 1, MqSetRemoteSdp 1 ''m=video'' ''offer'']"
    "omap_get (mq_client_to_peer (fst ?r)) ''bob'' = Some ''p2''"
    by code_simp+
  ultimately show ?thesis by (simp add: split_beta Let_def)
qed

text \<open>A payload that is not the expected JSON ends the program: no handler stands between the
  callback and the exception.\<close>

theorem bad_payload_ends_the_program:
  assumes "js_sdp js (takeWhile (\<lambda>c. c \<noteq> CHR 0x00) payload) = None" "mq_pc s = Waiting" "mq_conductor s"
    and "t \<in> {TopicOffer, TopicAnswer}" "c \<noteq> []" "CHR ''/'' \<notin> set c"
  shows "mq_pc (fst (run (mqtt_step js) s (HandleMessage (GetTopic (mq_uid s) t c) payload i @ es))) = Aborted"
proof -
  let ?m = "(t, c, takeWhile (\<lambda>c. c \<noteq> CHR 0x00) payload)"
  have t: "t \<noteq> TopicUnknown" "t \<noteq> TopicIce" using assms(4) by auto
  have "mqtt_step js s (MqMessage (GetTopic (mq_uid s) t c) (Some payload)) = (s\<lparr>mq_pc := Looking ?m\<rparr>, [])"
    using assms(2,5,6) t by (simp add: mqtt_step_def MessageBegin_def Let_def GetTopic_client FindClientId_of)
  then have "mq_pc (fst (run (mqtt_step js) s (HandleMessage (GetTopic (mq_uid s) t c) payload i))) = Aborted"
    using assms(1,3) t
    by (simp add: HandleMessage_def mqtt_step_def MessageLookup_def MessageGet_def MessageAdd_def MessageMap_def
        MessageDeliver_def OnRemoteSdp_def split: option.split)
  moreover have "mq_pc (fst (run (mqtt_step js) s es)) = Aborted" if "mq_pc s = Aborted" for s
    using that by (induction es arbitrary: s) (simp_all add: mqtt_step_def)
  ultimately show ?thesis by (simp add: fst_run_append del: run_Cons)
qed

theorem bad_payload_ends_the_program_witness:
  "mq_pc (fst (run (mqtt_step demo_json) demo_mqtt
     (HandleMessage (GetTopic (mq_uid demo_mqtt) TopicOffer ''eve'') [] ''p4'' @ [MqStopLoop]))) = Aborted"
  by (rule bad_payload_ends_the_program) code_simp+

end
