(* ===== verification/LatencyTracer.thy ===== *)
theory LatencyTracer
  imports Prelude
begin

text \<open>
  The latency tracer (src/src/common/latency_tracer.cpp) and the wrapper that feeds it from both
  ends of an encoder (src/src/rtc/tracing_video_encoder.cpp): histograms of durations with their
  percentiles, the side tables that carry a time across a stage, the clock of the capturer, and
  the count of frames dropped in front of the encoder. Times are microseconds; durations of less
  than 292000 years do not overflow 64 bits, so they are integers; counters and sequence numbers
  keep their width. Every access to an atomic is a step where threads interleave.
\<close>

section \<open>Histograms\<close>

definition kBucketCount :: nat where
  "kBucketCount = 256"

definition kBucketWidthUs :: int where
  "kBucketWidthUs = 500"

definition int64_max :: int where
  "int64_max = 2 ^ 63 - 1"

record histogram =
  hg_buckets :: "32 word list"
  hg_max :: int
  hg_min :: int

record snapshot =
  sn_count :: nat
  sn_p50 :: int
  sn_p95 :: int
  sn_min :: int
  sn_max :: int

definition clear_histogram :: histogram where
  "clear_histogram = \<lparr>hg_buckets = replicate kBucketCount 0, hg_max = 0, hg_min = int64_max\<rparr>"

text \<open>\<open>Record\<close>: the bucket, the maximum, the minimum, each with an atomic operation.\<close>

definition clamp_us :: "int \<Rightarrow> int" where
  "clamp_us d = (if d < 0 then 0 else d)"

definition bucket_of :: "int \<Rightarrow> nat" where
  "bucket_of d = (let b = clamp_us d div kBucketWidthUs in if int kBucketCount \<le> b then kBucketCount - 1 else nat b)"

definition RecordBucket :: "int \<Rightarrow> histogram \<Rightarrow> histogram" where
  "RecordBucket d h = h\<lparr>hg_buckets := (hg_buckets h)[bucket_of d := hg_buckets h ! bucket_of d + 1]\<rparr>"

definition RecordMax :: "int \<Rightarrow> histogram \<Rightarrow> histogram" where
  "RecordMax d h = (if hg_max h < clamp_us d then h\<lparr>hg_max := clamp_us d\<rparr> else h)"

definition RecordMin :: "int \<Rightarrow> histogram \<Rightarrow> histogram" where
  "RecordMin d h = (if clamp_us d < hg_min h then h\<lparr>hg_min := clamp_us d\<rparr> else h)"

definition RecordDuration :: "int \<Rightarrow> histogram \<Rightarrow> histogram" where
  "RecordDuration d h = RecordMin d (RecordMax d (RecordBucket d h))"

text \<open>The loop over the buckets of \<open>TakeSnapshot\<close>, with its \<open>break\<close>.\<close>

fun percentile_loop :: "nat \<Rightarrow> nat list \<Rightarrow> nat \<Rightarrow> nat \<Rightarrow> nat \<Rightarrow> bool \<Rightarrow> int \<Rightarrow> int \<times> int" where
  "percentile_loop i [] t50 t95 cumulative p50_done p50 = (p50, 0)"
| "percentile_loop i (c # cs) t50 t95 cumulative p50_done p50 =
     (let cum = cumulative + c; edge = int (i + 1) * kBucketWidthUs;
          hit = (\<not> p50_done \<and> t50 < cum);
          p50' = (if hit then edge else p50)
      in if t95 < cum then (p50', edge)
         else percentile_loop (i + 1) cs t50 t95 cum (p50_done \<or> hit) p50')"

definition make_snapshot :: "nat list \<Rightarrow> int \<Rightarrow> int \<Rightarrow> snapshot" where
  "make_snapshot counts max_us min_us =
     (let total = sum_list counts;
          mn = (if min_us = int64_max then 0 else min_us)
      in if total = 0 then \<lparr>sn_count = total, sn_p50 = 0, sn_p95 = 0, sn_min = mn, sn_max = max_us\<rparr>
         else case percentile_loop 0 counts (total div 2) (total * 95 div 100) 0 False 0 of
           (p50, p95) \<Rightarrow>
             \<lparr>sn_count = total, sn_p50 = min p50 (min p95 max_us), sn_p95 = min p95 max_us, sn_min = mn, sn_max = max_us\<rparr>)"

definition TakeSnapshot :: "histogram \<Rightarrow> snapshot \<times> histogram" where
  "TakeSnapshot h = (make_snapshot (map unat (hg_buckets h)) (hg_max h) (hg_min h),
     \<lparr>hg_buckets = replicate kBucketCount 0, hg_max = 0, hg_min = int64_max\<rparr>)"

text \<open>The sums of the code are of type \<open>uint64_t\<close>; with 256 buckets of 32 bits they do not wrap.\<close>

lemma totals_fit:
  assumes "length bs = kBucketCount"
  shows "sum_list (map unat (bs :: 32 word list)) * 95 < 2 ^ 64"
proof -
  have "sum_list (map unat (bs :: 32 word list)) \<le> length bs * 2 ^ 32" for bs
  proof (induction bs)
    case (Cons b bs)
    have "unat b < 2 ^ 32" using unsigned_less [where 'a = nat and w = b] by simp
    with Cons show ?case by simp
  qed simp
  from this [of bs] assms show ?thesis by (simp add: kBucketCount_def)
qed

section \<open>Percentiles\<close>

lemma bucket_lt [simp]: "bucket_of d < kBucketCount"
  by (simp add: bucket_of_def kBucketCount_def kBucketWidthUs_def Let_def) arith

lemma bucket_mono: "a \<le> b \<Longrightarrow> bucket_of a \<le> bucket_of b"
  by (auto simp: bucket_of_def kBucketCount_def kBucketWidthUs_def Let_def clamp_us_def intro: zdiv_mono1 nat_mono)

lemma rank_below:
  assumes "sorted xs" "k < length xs"
  shows "k < length (filter (\<lambda>d. bucket_of d \<le> i) xs) \<longleftrightarrow> bucket_of (xs ! k) \<le> i"
  using assms
proof (induction xs arbitrary: k)
  case (Cons x xs)
  show ?case
  proof (cases k)
    case 0
    have "filter (\<lambda>d. bucket_of d \<le> i) xs = []" if "i < bucket_of x"
      using Cons.prems(1) bucket_mono that by (fastforce simp: filter_empty_conv)
    then show ?thesis using 0 by auto
  next
    case (Suc j)
    have "\<not> bucket_of (xs ! j) \<le> i" if "\<not> bucket_of x \<le> i"
      using Cons.prems Suc bucket_mono [of x "xs ! j"] that by (auto simp: nth_mem)
    moreover have "filter (\<lambda>d. bucket_of d \<le> i) xs = []" if "\<not> bucket_of x \<le> i"
      using Cons.prems(1) bucket_mono that by (fastforce simp: filter_empty_conv)
    ultimately show ?thesis using Cons.IH [of j] Cons.prems Suc by auto
  qed
qed simp

fun over :: "nat \<Rightarrow> nat \<Rightarrow> nat \<Rightarrow> nat list \<Rightarrow> nat" where
  "over t cum i [] = i"
| "over t cum i (c # cs) = (if t < cum + c then i else over t (cum + c) (i + 1) cs)"

lemma loop_done:
  "cum \<le> t95 \<Longrightarrow> t95 < cum + sum_list cs \<Longrightarrow>
   percentile_loop i cs t50 t95 cum True p = (p, int (over t95 cum i cs + 1) * kBucketWidthUs)"
  by (induction cs arbitrary: i cum) (auto simp: Let_def add.assoc)

lemma loop_eq:
  "cum \<le> t50 \<Longrightarrow> t50 \<le> t95 \<Longrightarrow> t95 < cum + sum_list cs \<Longrightarrow>
   percentile_loop i cs t50 t95 cum False p =
     (int (over t50 cum i cs + 1) * kBucketWidthUs, int (over t95 cum i cs + 1) * kBucketWidthUs)"
  by (induction cs arbitrary: i cum p) (auto simp: Let_def add.assoc loop_done)

lemma over_eq:
  "m < length cs \<Longrightarrow> t < cum + sum_list (take (Suc m) cs) \<Longrightarrow> (\<And>j. j < m \<Longrightarrow> cum + sum_list (take (Suc j) cs) \<le> t) \<Longrightarrow>
   over t cum i cs = i + m"
proof (induction cs arbitrary: m cum i)
  case (Cons c cs)
  show ?case
  proof (cases m)
    case 0
    with Cons.prems show ?thesis by simp
  next
    case (Suc n)
    have "\<not> t < cum + c" using Cons.prems(3) [of 0] Suc by simp
    moreover have "over t (cum + c) (Suc i) cs = Suc i + n"
    proof (rule Cons.IH)
      show "cum + c + sum_list (take (Suc j) cs) \<le> t" if "j < n" for j
        using Cons.prems(3) [of "Suc j"] that Suc by (simp add: add.assoc)
    qed (use Cons.prems Suc in \<open>simp_all add: add.assoc\<close>)
    ultimately show ?thesis using Suc by simp
  qed
qed simp

text \<open>What the buckets hold after a number of samples.\<close>

definition in_bucket :: "int list \<Rightarrow> nat \<Rightarrow> nat" where
  "in_bucket ds i = length (filter (\<lambda>d. bucket_of d = i) ds)"

lemma record_buckets:
  "length ds < 2 ^ 32 \<Longrightarrow>
   map unat (hg_buckets (fold RecordDuration ds clear_histogram)) = map (in_bucket ds) [0..<kBucketCount]"
proof (induction ds rule: rev_induct)
  case Nil
  then show ?case by (simp add: clear_histogram_def in_bucket_def map_replicate_const)
next
  case (snoc d ds)
  let ?h = "fold RecordDuration ds clear_histogram"
  have IH: "map unat (hg_buckets ?h) = map (in_bucket ds) [0..<kBucketCount]" using snoc by simp
  then have len: "length (hg_buckets ?h) = kBucketCount" by (metis length_map length_upt minus_nat.diff_0)
  then have at: "unat (hg_buckets ?h ! i) = in_bucket ds i" if "i < kBucketCount" for i
    using arg_cong [OF IH, of "\<lambda>l. l ! i"] that by simp
  have "in_bucket ds (bucket_of d) + 1 < 2 ^ 32"
    using snoc.prems le_less_trans [OF length_filter_le [of "\<lambda>x. bucket_of x = bucket_of d" ds], of "2 ^ 32 - 1"]
    by (simp add: in_bucket_def)
  then have new: "unat (hg_buckets ?h ! bucket_of d + 1) = in_bucket ds (bucket_of d) + 1"
    using at [OF bucket_lt, of d] by (simp add: unat_word_ariths)
  have b: "hg_buckets (RecordDuration d h) = (hg_buckets h)[bucket_of d := hg_buckets h ! bucket_of d + 1]" for h
    by (simp add: RecordDuration_def RecordMin_def RecordMax_def RecordBucket_def)
  show ?case
  proof (rule nth_equalityI)
    fix i assume "i < length (map unat (hg_buckets (fold RecordDuration (ds @ [d]) clear_histogram)))"
    then have i: "i < kBucketCount" by (simp add: b len)
    then show "map unat (hg_buckets (fold RecordDuration (ds @ [d]) clear_histogram)) ! i =
        map (in_bucket (ds @ [d])) [0..<kBucketCount] ! i"
      using new at [OF i] len by (auto simp: b nth_list_update in_bucket_def)
  qed (simp add: b len)
qed

lemma buckets_below: "i < kBucketCount \<Longrightarrow>
  sum_list (take (Suc i) (map (in_bucket ds) [0..<kBucketCount])) = length (filter (\<lambda>d. bucket_of d \<le> i) ds)"
proof -
  have "sum_list (map (in_bucket ds) [0..<n]) = length (filter (\<lambda>d. bucket_of d < n) ds)" for n
  proof (induction n)
    case (Suc n)
    have "length (filter (\<lambda>d. bucket_of d < Suc n) ds) =
        length (filter (\<lambda>d. bucket_of d < n) ds) + length (filter (\<lambda>d. bucket_of d = n) ds)"
      by (induction ds) auto
    with Suc show ?case by (simp add: in_bucket_def)
  qed simp
  then show "i < kBucketCount \<Longrightarrow> ?thesis" by (simp add: take_map take_upt less_Suc_eq_le del: upt_Suc)
qed

lemma over_rank:
  assumes "k < length ds"
  shows "over k 0 0 (map (in_bucket ds) [0..<kBucketCount]) = bucket_of (sort ds ! k)"
proof -
  have rank: "k < length (filter (\<lambda>d. bucket_of d \<le> i) ds) \<longleftrightarrow> bucket_of (sort ds ! k) \<le> i" for i
  proof -
    have "length (filter (\<lambda>d. bucket_of d \<le> i) ds) = length (filter (\<lambda>d. bucket_of d \<le> i) (sort ds))"
      by (metis mset_filter mset_sort size_mset)
    then show ?thesis using rank_below [of "sort ds" k i] assms by simp
  qed
  have "over k 0 0 (map (in_bucket ds) [0..<kBucketCount]) = 0 + bucket_of (sort ds ! k)"
  proof (rule over_eq)
    show "k < 0 + sum_list (take (Suc (bucket_of (sort ds ! k))) (map (in_bucket ds) [0..<kBucketCount]))"
      using rank by (simp only: buckets_below [OF bucket_lt]) simp
    fix j assume j: "j < bucket_of (sort ds ! k)"
    then have "j < kBucketCount" using bucket_lt less_trans by blast
    with j rank [of j] show "0 + sum_list (take (Suc j) (map (in_bucket ds) [0..<kBucketCount])) \<le> k"
      by (simp only: buckets_below) simp
  qed simp
  then show ?thesis by simp
qed

lemma buckets_sum: "sum_list (map (in_bucket ds) [0..<kBucketCount]) = length ds"
proof -
  have "sum_list (take (Suc 255) (map (in_bucket ds) [0..<kBucketCount])) = length (filter (\<lambda>d. bucket_of d \<le> 255) ds)"
    by (rule buckets_below) (simp add: kBucketCount_def)
  moreover have "bucket_of d \<le> 255" for d using bucket_lt [of d] by (simp add: kBucketCount_def)
  ultimately show ?thesis by (simp add: kBucketCount_def)
qed

text \<open>The reference: the nearest rank in the sorted samples, at the upper edge of its bucket.\<close>

definition upper_edge :: "int \<Rightarrow> int" where
  "upper_edge d = int (bucket_of d + 1) * kBucketWidthUs"

definition nearest_rank :: "nat \<Rightarrow> int list \<Rightarrow> int" where
  "nearest_rank percent ds = sort ds ! (length ds * percent div 100)"

lemma record_max: "hg_max (fold RecordDuration ds clear_histogram) = Max (insert 0 (clamp_us ` set ds))"
proof (induction ds rule: rev_induct)
  case (snoc d ds)
  have "hg_max (RecordDuration d h) = max (hg_max h) (clamp_us d)" for h
    by (simp add: RecordDuration_def RecordMin_def RecordMax_def RecordBucket_def)
  moreover have "insert 0 (clamp_us ` set (ds @ [d])) = insert (clamp_us d) (insert 0 (clamp_us ` set ds))" by auto
  moreover have "Max (insert (clamp_us d) (insert 0 (clamp_us ` set ds))) = max (clamp_us d) (Max (insert 0 (clamp_us ` set ds)))"
    by (rule Max_insert) simp_all
  ultimately show ?case using snoc by (simp add: max.commute)
qed (simp add: clear_histogram_def)

lemma record_min: "hg_min (fold RecordDuration ds clear_histogram) = Min (insert int64_max (clamp_us ` set ds))"
proof (induction ds rule: rev_induct)
  case (snoc d ds)
  have "hg_min (RecordDuration d h) = min (hg_min h) (clamp_us d)" for h
    by (simp add: RecordDuration_def RecordMin_def RecordMax_def RecordBucket_def)
  moreover have "insert int64_max (clamp_us ` set (ds @ [d])) = insert (clamp_us d) (insert int64_max (clamp_us ` set ds))" by auto
  moreover have "Min (insert (clamp_us d) (insert int64_max (clamp_us ` set ds))) = min (clamp_us d) (Min (insert int64_max (clamp_us ` set ds)))"
    by (rule Min_insert) simp_all
  ultimately show ?case using snoc by (simp add: min.commute)
qed (simp add: clear_histogram_def)

lemma edge_above: "d < 128000 \<Longrightarrow> d < upper_edge d"
proof -
  assume d: "d < 128000"
  have "clamp_us d div 500 < 256" using d by (auto simp: clamp_us_def)
  moreover have "0 \<le> clamp_us d div 500" by (simp add: clamp_us_def pos_imp_zdiv_nonneg_iff)
  ultimately have "upper_edge d = (clamp_us d div 500 + 1) * 500"
    by (simp add: upper_edge_def bucket_of_def kBucketCount_def kBucketWidthUs_def Let_def)
  then show ?thesis by (simp add: clamp_us_def) presburger
qed

lemma edge_mono: "a \<le> b \<Longrightarrow> upper_edge a \<le> upper_edge b"
  by (simp add: upper_edge_def bucket_mono kBucketWidthUs_def)



text \<open>
  The comment in \<open>TakeSnapshot\<close> says that a value never reads as faster than it was. It holds up
  to the last bucket: slower samples are all printed as 128 ms.
\<close>

theorem slow_samples_read_as_128_ms:
  assumes "ds \<noteq> []" "length ds < 2 ^ 32" "\<forall>d \<in> set ds. 0 \<le> d \<and> d < int64_max"
  shows "let s = fst (TakeSnapshot (fold RecordDuration ds clear_histogram)); p = nearest_rank 95 ds in
    (p < 128000 \<longrightarrow> p \<le> sn_p95 s) \<and> (128000 \<le> p \<longrightarrow> sn_p95 s = 128000)"
proof -
  have s: "sn_p95 (fst (TakeSnapshot (fold RecordDuration ds clear_histogram))) = min (upper_edge (nearest_rank 95 ds)) (Max (set ds))"
  proof -
    have cl: "clamp_us ` set ds = set ds" using assms(3) by (force simp: clamp_us_def)
    have "0 \<le> Max (set ds)" using assms(1,3) by (meson Max_in List.finite_set set_empty)
    then have mx: "hg_max (fold RecordDuration ds clear_histogram) = Max (set ds)" using assms(1) by (simp add: record_max cl)
    have n: "0 < length ds" using assms(1) by simp
    have "percentile_loop 0 (map (in_bucket ds) [0..<kBucketCount]) (length ds div 2) (length ds * 95 div 100) 0 False 0 =
        (upper_edge (sort ds ! (length ds div 2)), upper_edge (nearest_rank 95 ds))"
      using n by (subst loop_eq) (simp_all add: buckets_sum over_rank upper_edge_def nearest_rank_def div_less_iff_less_mult)
    then show ?thesis
      using n mx record_buckets [OF assms(2)] by (simp add: TakeSnapshot_def make_snapshot_def Let_def buckets_sum)
  qed
  have "length ds * 95 div 100 < length ds" using assms(1) by (simp add: div_less_iff_less_mult)
  then have p: "nearest_rank 95 ds \<in> set ds" unfolding nearest_rank_def by (metis nth_mem length_sort set_sort)
  then have le: "nearest_rank 95 ds \<le> Max (set ds)" by simp
  have "upper_edge d = 128000" if "128000 \<le> d" for d
    using that zdiv_mono1 [of 128000 d 500]
    by (simp add: upper_edge_def bucket_of_def kBucketCount_def kBucketWidthUs_def Let_def clamp_us_def)
  with s le edge_above [of "nearest_rank 95 ds"] show ?thesis by (auto simp: Let_def)
qed

theorem slow_samples_read_as_128_ms_witness:
  "sn_p95 (fst (TakeSnapshot (fold RecordDuration [500000] clear_histogram))) = 128000"
proof -
  have "128000 \<le> nearest_rank 95 [500000]" by code_simp
  then show ?thesis using slow_samples_read_as_128_ms [of "[500000]"] by (simp add: Let_def int64_max_def)
qed

section \<open>Recording while a snapshot is taken\<close>

text \<open>
  Threads record, a bucket, a maximum and a minimum at a time, while the reporter exchanges one
  bucket after the other, then the maximum and the minimum. \<open>hs_counts\<close> are the counts it has
  read so far.
\<close>

record hist_sys =
  hs_hist :: histogram
  hs_counts :: "nat list"

datatype hist_event = HsBucket int | HsMax int | HsMin int | HsTake

definition SnapshotStep :: "hist_sys \<Rightarrow> hist_sys \<times> snapshot list" where
  "SnapshotStep s =
     (let h = hs_hist s; i = length (hs_counts s) in
      if i < kBucketCount
      then (s\<lparr>hs_hist := h\<lparr>hg_buckets := (hg_buckets h)[i := 0]\<rparr>, hs_counts := hs_counts s @ [unat (hg_buckets h ! i)]\<rparr>, [])
      else (s\<lparr>hs_hist := h\<lparr>hg_max := 0, hg_min := int64_max\<rparr>, hs_counts := []\<rparr>,
            [make_snapshot (hs_counts s) (hg_max h) (hg_min h)]))"

fun hist_step :: "hist_sys \<Rightarrow> hist_event \<Rightarrow> hist_sys \<times> snapshot list" where
  "hist_step s (HsBucket d) = (s\<lparr>hs_hist := RecordBucket d (hs_hist s)\<rparr>, [])"
| "hist_step s (HsMax d) = (s\<lparr>hs_hist := RecordMax d (hs_hist s)\<rparr>, [])"
| "hist_step s (HsMin d) = (s\<lparr>hs_hist := RecordMin d (hs_hist s)\<rparr>, [])"
| "hist_step s HsTake = SnapshotStep s"

definition init_hist :: hist_sys where
  "init_hist = \<lparr>hs_hist = clear_histogram, hs_counts = []\<rparr>"

definition hist_inv :: "hist_sys \<Rightarrow> bool" where
  "hist_inv s \<longleftrightarrow> length (hg_buckets (hs_hist s)) = kBucketCount \<and> length (hs_counts s) \<le> kBucketCount \<and>
     0 \<le> hg_max (hs_hist s)"

definition snapshot_ordered :: "snapshot \<Rightarrow> bool" where
  "snapshot_ordered s \<longleftrightarrow> 0 \<le> sn_p50 s \<and> sn_p50 s \<le> sn_p95 s \<and> sn_p95 s \<le> sn_max s"

lemma loop_nonneg: "0 \<le> p \<Longrightarrow> 0 \<le> fst (percentile_loop i cs t50 t95 cum dn p) \<and> 0 \<le> snd (percentile_loop i cs t50 t95 cum dn p)"
  by (induction i cs t50 t95 cum dn p rule: percentile_loop.induct) (auto simp: Let_def kBucketWidthUs_def)

lemma make_snapshot_ordered: "0 \<le> mx \<Longrightarrow> snapshot_ordered (make_snapshot counts mx mn)"
  using loop_nonneg [of 0 0 counts "sum_list counts div 2" "sum_list counts * 95 div 100" 0 False]
  by (auto simp: make_snapshot_def snapshot_ordered_def Let_def split_beta min_le_iff_disj)

lemma make_snapshot_count: "sn_count (make_snapshot counts mx mn) = sum_list counts"
  by (simp add: make_snapshot_def Let_def split_beta)

interpretation hist: guarded_machine hist_step hist_inv snapshot_ordered
proof
  show "hist_inv s \<Longrightarrow> hist_inv (fst (hist_step s e))" for s e
    by (cases e) (auto simp: hist_inv_def RecordBucket_def RecordMax_def RecordMin_def SnapshotStep_def Let_def clamp_us_def)
  show "hist_inv s \<Longrightarrow> list_all snapshot_ordered (snd (hist_step s e))" for s e
    by (cases e) (auto simp: hist_inv_def SnapshotStep_def Let_def make_snapshot_ordered)
qed

definition held_samples :: "hist_sys \<Rightarrow> nat" where
  "held_samples s = sum_list (map unat (hg_buckets (hs_hist s))) + sum_list (hs_counts s)"

definition recorded :: "hist_event list \<Rightarrow> nat" where
  "recorded es = length (filter (\<lambda>e. case e of HsBucket d \<Rightarrow> True | _ \<Rightarrow> False) es)"

lemma held_step:
  assumes "hist_inv s" "held_samples s + recorded [e] < 2 ^ 32"
  shows "held_samples (fst (hist_step s e)) + sum_list (map sn_count (snd (hist_step s e))) = held_samples s + recorded [e]"
proof -
  let ?bs = "hg_buckets (hs_hist s)"
  have upd: "sum_list (map unat (?bs[i := v])) + unat (?bs ! i) = sum_list (map unat ?bs) + unat v" if "i < length ?bs" for i v
    using that sum_list_update [of i "map unat ?bs" "unat v"] elem_le_sum_list [of i "map unat ?bs"]
    by (simp add: map_update)
  show ?thesis
  proof (cases e)
    case (HsBucket d)
    have i: "bucket_of d < length ?bs" using assms(1) by (simp add: hist_inv_def)
    have "unat (?bs ! bucket_of d) \<le> sum_list (map unat ?bs)" using elem_le_sum_list [of "bucket_of d" "map unat ?bs"] i by simp
    then have "unat (?bs ! bucket_of d) + 1 < 2 ^ 32" using assms(2) HsBucket by (simp add: held_samples_def recorded_def)
    then have "unat (?bs ! bucket_of d + 1) = unat (?bs ! bucket_of d) + 1" by (simp add: unat_word_ariths)
    with upd [OF i, of "?bs ! bucket_of d + 1"] show ?thesis
      by (simp add: HsBucket held_samples_def RecordBucket_def recorded_def)
  next
    case HsTake
    show ?thesis
    proof (cases "length (hs_counts s) < kBucketCount")
      case True
      with upd [of "length (hs_counts s)" 0] assms(1) HsTake show ?thesis
        by (simp add: SnapshotStep_def Let_def held_samples_def hist_inv_def recorded_def)
    qed (simp add: HsTake SnapshotStep_def Let_def held_samples_def recorded_def make_snapshot_count)
  qed (simp_all add: held_samples_def RecordMax_def RecordMin_def recorded_def)
qed

lemma held_run:
  "hist_inv s \<Longrightarrow> held_samples s + recorded es < 2 ^ 32 \<Longrightarrow>
   held_samples (fst (run hist_step s es)) + sum_list (map sn_count (snd (run hist_step s es))) = held_samples s + recorded es"
proof (induction es arbitrary: s)
  case (Cons e es)
  have r: "recorded (e # es) = recorded [e] + recorded es" by (simp add: recorded_def)
  with Cons.prems(2) have "held_samples s + recorded [e] < 2 ^ 32" by linarith
  note st = held_step [OF Cons.prems(1) this]
  have "held_samples (fst (hist_step s e)) + recorded es < 2 ^ 32" using st r Cons.prems(2) by linarith
  from Cons.IH [OF hist.inv_step [OF Cons.prems(1)] this] st r show ?case by simp
qed (simp add: recorded_def)

text \<open>
  Recording never blocks and never loses a sample: in whatever way the threads that record and
  the reporter interleave, every sample is counted in exactly one snapshot or is still held, as
  long as fewer than \<open>2 ^ 32\<close> are recorded, and in every snapshot p50, p95 and the maximum are
  in order.
\<close>

theorem samples_are_counted_once:
  assumes "recorded es < 2 ^ 32"
  shows "sum_list (map sn_count (snd (run hist_step init_hist es))) + held_samples (fst (run hist_step init_hist es)) = recorded es \<and>
    list_all snapshot_ordered (snd (run hist_step init_hist es))"
proof -
  have inv: "hist_inv init_hist" by (simp add: hist_inv_def init_hist_def clear_histogram_def kBucketCount_def)
  have "held_samples init_hist = 0" by (simp add: held_samples_def init_hist_def clear_histogram_def sum_list_replicate)
  with held_run [OF inv, of es] assms hist.good_run [OF inv, of es] show ?thesis by simp
qed

theorem samples_are_counted_once_witness:
  "sum_list (map sn_count (snd (run hist_step init_hist ([HsBucket 700] @ replicate 3 HsTake @ [HsBucket 100, HsMax 700] @ replicate 254 HsTake)))) +
   held_samples (fst (run hist_step init_hist ([HsBucket 700] @ replicate 3 HsTake @ [HsBucket 100, HsMax 700] @ replicate 254 HsTake))) = 2"
proof -
  have "recorded ([HsBucket 700] @ replicate 3 HsTake @ [HsBucket 100, HsMax 700] @ replicate 254 HsTake) = 2" by code_simp
  then show ?thesis
    using samples_are_counted_once [of "[HsBucket 700] @ replicate 3 HsTake @ [HsBucket 100, HsMax 700] @ replicate 254 HsTake"]
    by (simp only:) simp
qed

section \<open>Side tables\<close>

text \<open>\<open>SlotOf\<close> is the top ten bits of the product, so a slot is below \<open>kSlotCount\<close>.\<close>

definition kSlotBits :: nat where
  "kSlotBits = 10"

definition SlotOf :: "64 word \<Rightarrow> nat" where
  "SlotOf key = unat (drop_bit (64 - kSlotBits) (key * 0x9E3779B97F4A7C15))"

record slot =
  sl_key :: "64 word"
  sl_sensor :: int
  sl_seq :: "32 word"

record capture_info =
  ci_sensor :: int
  ci_seq :: "32 word"

definition unknown_capture :: capture_info where
  "unknown_capture = \<lparr>ci_sensor = 0, ci_seq = 0\<rparr>"

type_synonym side_table = "nat \<Rightarrow> slot"

definition empty_table :: side_table where
  "empty_table = (\<lambda>_. \<lparr>sl_key = 0, sl_sensor = 0, sl_seq = 0\<rparr>)"

text \<open>The three stores of \<open>Mark\<close> and the three loads of \<open>Lookup\<close>.\<close>

definition StoreSensor :: "64 word \<Rightarrow> int \<Rightarrow> side_table \<Rightarrow> side_table" where
  "StoreSensor key sensor t = t(SlotOf key := (t (SlotOf key))\<lparr>sl_sensor := sensor\<rparr>)"

definition StoreSeq :: "64 word \<Rightarrow> 32 word \<Rightarrow> side_table \<Rightarrow> side_table" where
  "StoreSeq key n t = t(SlotOf key := (t (SlotOf key))\<lparr>sl_seq := n\<rparr>)"

definition StoreKey :: "64 word \<Rightarrow> side_table \<Rightarrow> side_table" where
  "StoreKey key t = t(SlotOf key := (t (SlotOf key))\<lparr>sl_key := key\<rparr>)"

definition Mark :: "64 word \<Rightarrow> int \<Rightarrow> 32 word \<Rightarrow> side_table \<Rightarrow> side_table" where
  "Mark key sensor n t = StoreKey key (StoreSeq key n (StoreSensor key sensor t))"

text \<open>The tables a lookup sees at each of its loads are passed one by one.\<close>

definition LookupIn :: "64 word \<Rightarrow> side_table \<Rightarrow> side_table \<Rightarrow> side_table \<Rightarrow> capture_info" where
  "LookupIn key t1 t2 t3 =
     (if sl_key (t1 (SlotOf key)) \<noteq> key then unknown_capture
      else \<lparr>ci_sensor = sl_sensor (t2 (SlotOf key)), ci_seq = sl_seq (t3 (SlotOf key))\<rparr>)"

definition Lookup :: "64 word \<Rightarrow> side_table \<Rightarrow> capture_info" where
  "Lookup key t = LookupIn key t t t"

lemma slot_bound: "SlotOf key < 2 ^ kSlotBits"
proof -
  have "unat (drop_bit 54 w) < 2 ^ 10" for w :: "64 word"
  proof -
    have "unat w < 2 ^ 64" using unsigned_less [where 'a = nat and w = w] by simp
    then show ?thesis by (simp add: unsigned_drop_bit_eq drop_bit_eq_div unat_div div_less_iff_less_mult)
  qed
  then show ?thesis by (simp add: SlotOf_def kSlotBits_def)
qed

lemma Mark_at: "Mark key sensor n t i = (if i = SlotOf key then \<lparr>sl_key = key, sl_sensor = sensor, sl_seq = n\<rparr> else t i)"
  by (simp add: Mark_def StoreKey_def StoreSeq_def StoreSensor_def)

type_synonym mark = "64 word \<times> int \<times> 32 word"

definition do_marks :: "mark list \<Rightarrow> side_table \<Rightarrow> side_table" where
  "do_marks ms t = fold (\<lambda>(key, sensor, n). Mark key sensor n) ms t"

lemma do_marks_at:
  "do_marks ms t i = (case find (\<lambda>(key, _). SlotOf key = i) (rev ms) of
     None \<Rightarrow> t i | Some (key, sensor, n) \<Rightarrow> \<lparr>sl_key = key, sl_sensor = sensor, sl_seq = n\<rparr>)"
  by (induction ms rule: rev_induct) (auto simp: do_marks_def Mark_at split: prod.split)

text \<open>
  A side table gives a frame back what was marked for it, or says that the frame is unknown:
  after any marks, a lookup that no mark overlaps returns the latest mark of that key unless a
  later one has taken its slot; slots stay inside the table.
\<close>

theorem lookup_returns_latest_mark:
  assumes "key \<noteq> 0"
  shows "SlotOf key < 2 ^ kSlotBits \<and>
    Lookup key (do_marks ms empty_table) =
     (case find (\<lambda>(k, _). SlotOf k = SlotOf key) (rev ms) of
        Some (k, sensor, n) \<Rightarrow> if k = key then \<lparr>ci_sensor = sensor, ci_seq = n\<rparr> else unknown_capture
      | None \<Rightarrow> unknown_capture)"
  using assms
  by (auto simp: Lookup_def LookupIn_def do_marks_at empty_table_def slot_bound split: option.split)

theorem lookup_returns_latest_mark_witness:
  "Lookup 616 (do_marks [(616, 5000, 1), (33, 9000, 2)] empty_table) = \<lparr>ci_sensor = 5000, ci_seq = 1\<rparr>"
proof -
  have "find (\<lambda>(k, _). SlotOf k = SlotOf 616) (rev [(616, 5000, 1), (33, 9000, 2)]) = Some (616, 5000 :: int, 1 :: 32 word)"
    by code_simp
  then show ?thesis using lookup_returns_latest_mark [of 616 "[(616, 5000, 1), (33, 9000, 2)]"] by simp
qed

text \<open>
  The comment in \<open>Mark\<close> says that a reader that sees the key sees matching values. It does not
  when the slot changes owner: the reader that has seen the old key reads the new owner's time.
\<close>

theorem lookup_mixes_two_frames:
  assumes "SlotOf k2 = SlotOf k1"
  shows "let t = Mark k1 a n t0 in
    LookupIn k1 t (StoreSensor k2 b t) (StoreSeq k2 m (StoreSensor k2 b t)) = \<lparr>ci_sensor = b, ci_seq = m\<rparr>"
  using assms by (simp add: LookupIn_def Mark_at StoreSensor_def StoreSeq_def)

theorem lookup_mixes_two_frames_witness:
  "let t = Mark 616 5000 1 empty_table in
    LookupIn 616 t (StoreSensor 6 99000 t) (StoreSeq 6 2 (StoreSensor 6 99000 t)) = \<lparr>ci_sensor = 99000, ci_seq = 2\<rparr>"
proof -
  have "SlotOf 6 = SlotOf 616" by code_simp
  then show ?thesis by (rule lookup_mixes_two_frames)
qed

section \<open>The tracer\<close>

datatype stage =
    SensorToCapture | SensorToTrackIn | SensorToOnFrame | SensorToEncodeIn | SensorToEncoded | SensorToSent
  | CaptureCallback | ArgusCopy | I420Scale | NvTransform | ScalerDwell | HwDecodeDwell | HwEncodeDwell
  | EncodeCall | OnEncodedImageStage | CaptureInterval

datatype counter =
    FramesCaptured | FramesEncoded | AdaptDrop | EncoderQueueDrop | ScalerNoBuffer | ScalerQueueFull | V4L2NoBuffer
  | DecoderNoBuffer | DecoderDqTimeout | EncoderDqTimeout | RecorderQueueFull

definition all_stages :: "stage list" where
  "all_stages = [SensorToCapture, SensorToTrackIn, SensorToOnFrame, SensorToEncodeIn, SensorToEncoded, SensorToSent,
     CaptureCallback, ArgusCopy, I420Scale, NvTransform, ScalerDwell, HwDecodeDwell, HwEncodeDwell,
     EncodeCall, OnEncodedImageStage, CaptureInterval]"

definition cumulative_stages :: "stage list" where
  "cumulative_stages = take 6 all_stages"

definition drop_counters :: "counter list" where
  "drop_counters = [AdaptDrop, EncoderQueueDrop, ScalerNoBuffer, ScalerQueueFull, V4L2NoBuffer,
     DecoderNoBuffer, DecoderDqTimeout, EncoderDqTimeout, RecorderQueueFull]"

record tracer =
  lt_enabled :: bool
  lt_hists :: "stage \<Rightarrow> histogram"
  lt_counters :: "counter \<Rightarrow> 64 word"
  lt_capture_table :: side_table
  lt_encode_table :: side_table
  lt_last_sensor :: int
  lt_capture_seq :: "32 word"
  lt_source :: "int \<times> int"
  lt_sent :: "int \<times> int"
  lt_kbps :: "int \<times> int \<times> int"         \<comment> \<open>allocated, configured, produced\<close>
  lt_offset :: int
  lt_calibrated :: bool
  lt_reporter :: bool                \<comment> \<open>g_reporter is set\<close>
  lt_stopped :: bool
  lt_interval :: int
  lt_last_report :: int

definition init_tracer :: tracer where
  "init_tracer = \<lparr>lt_enabled = False, lt_hists = (\<lambda>_. \<lparr>hg_buckets = replicate kBucketCount 0, hg_max = 0, hg_min = 0\<rparr>),
     lt_counters = (\<lambda>_. 0), lt_capture_table = empty_table, lt_encode_table = empty_table, lt_last_sensor = 0,
     lt_capture_seq = 0, lt_source = (0, 0), lt_sent = (0, 0), lt_kbps = (0, 0, 0), lt_offset = 0, lt_calibrated = False,
     lt_reporter = False, lt_stopped = False, lt_interval = 5, lt_last_report = 0\<rparr>"

text \<open>\<open>Start\<close>, and \<open>Stop\<close>, which joins the reporter; \<open>now\<close> is \<open>NowUs()\<close>.\<close>

definition StartTracing :: "int \<Rightarrow> int \<Rightarrow> tracer \<Rightarrow> tracer" where
  "StartTracing interval_sec now s =
     (if lt_reporter s then s
      else s\<lparr>lt_interval := (if 0 < interval_sec then interval_sec else 5), lt_last_report := now,
             lt_hists := (\<lambda>g. (lt_hists s g)\<lparr>hg_min := int64_max\<rparr>), lt_stopped := False,
             lt_enabled := True, lt_reporter := True\<rparr>)"

definition StopTracing :: "tracer \<Rightarrow> tracer" where
  "StopTracing s = s\<lparr>lt_enabled := False, lt_stopped := True, lt_reporter := False\<rparr>"

definition RecordStage :: "stage \<Rightarrow> int \<Rightarrow> tracer \<Rightarrow> tracer" where
  "RecordStage g d s = s\<lparr>lt_hists := (lt_hists s)(g := RecordDuration d (lt_hists s g))\<rparr>"

definition Count :: "counter \<Rightarrow> 64 word \<Rightarrow> tracer \<Rightarrow> tracer" where
  "Count c n s = s\<lparr>lt_counters := (lt_counters s)(c := lt_counters s c + n)\<rparr>"

text \<open>The gauges of the report.\<close>

definition SetSourceResolution :: "int \<Rightarrow> int \<Rightarrow> tracer \<Rightarrow> tracer" where
  "SetSourceResolution w h s = s\<lparr>lt_source := (w, h)\<rparr>"

definition SetSentResolution :: "int \<Rightarrow> int \<Rightarrow> tracer \<Rightarrow> tracer" where
  "SetSentResolution w h s = s\<lparr>lt_sent := (w, h)\<rparr>"

definition SetBitrateKbps :: "int \<Rightarrow> int \<Rightarrow> tracer \<Rightarrow> tracer" where
  "SetBitrateKbps allocated configured s = s\<lparr>lt_kbps := (allocated, configured, snd (snd (lt_kbps s)))\<rparr>"

definition SetProducedKbps :: "int \<Rightarrow> tracer \<Rightarrow> tracer" where
  "SetProducedKbps produced s = s\<lparr>lt_kbps := (fst (lt_kbps s), fst (snd (lt_kbps s)), produced)\<rparr>"

definition RecordCapture :: "int \<Rightarrow> int \<Rightarrow> tracer \<Rightarrow> tracer" where
  "RecordCapture sensor_us now_us s =
     (let s1 = Count FramesCaptured 1 s in
      if sensor_us = 0 then s1
      else let s2 = RecordStage SensorToCapture (now_us - sensor_us) s1;
               previous = lt_last_sensor s2;
               s3 = s2\<lparr>lt_last_sensor := sensor_us\<rparr>
           in if previous \<noteq> 0 then RecordStage CaptureInterval (sensor_us - previous) s3 else s3)"

definition MarkCapture :: "64 word \<Rightarrow> int \<Rightarrow> tracer \<Rightarrow> tracer" where
  "MarkCapture frame_ts sensor_us s =
     (let n = lt_capture_seq s + 1 in
      s\<lparr>lt_capture_seq := n, lt_capture_table := Mark frame_ts sensor_us n (lt_capture_table s)\<rparr>)"

definition LookupCapture :: "64 word \<Rightarrow> tracer \<Rightarrow> capture_info" where
  "LookupCapture frame_ts s = Lookup frame_ts (lt_capture_table s)"

definition MarkEncode :: "32 word \<Rightarrow> int \<Rightarrow> tracer \<Rightarrow> tracer" where
  "MarkEncode rtp sensor_us s = s\<lparr>lt_encode_table := Mark (ucast rtp) sensor_us 0 (lt_encode_table s)\<rparr>"

definition LookupEncode :: "32 word \<Rightarrow> tracer \<Rightarrow> int" where
  "LookupEncode rtp s = ci_sensor (Lookup (ucast rtp) (lt_encode_table s))"

text \<open>\<open>CalibrateClock\<close> and \<open>SensorUs\<close>; the two clocks are read once each.\<close>

definition sane_delta :: "int \<Rightarrow> bool" where
  "sane_delta d \<longleftrightarrow> -1000 < d \<and> d < 1000000"

definition CalibrateClock :: "int \<Rightarrow> int \<Rightarrow> int \<Rightarrow> tracer \<Rightarrow> tracer" where
  "CalibrateClock mono_now boot_now sensor_us s =
     s\<lparr>lt_offset := (if sane_delta (mono_now - sensor_us) then 0
                    else if sane_delta (boot_now - sensor_us) then mono_now - boot_now else 0),
       lt_calibrated := True\<rparr>"

definition SensorUs :: "int \<Rightarrow> int \<Rightarrow> int \<Rightarrow> int \<Rightarrow> tracer \<Rightarrow> int \<times> tracer" where
  "SensorUs mono_now boot_now tv_sec tv_usec s =
     (let raw = tv_sec * 1000000 + tv_usec in
      if raw = 0 then (0, s)
      else let s1 = (if lt_calibrated s then s else CalibrateClock mono_now boot_now raw s) in (raw + lt_offset s1, s1))"

text \<open>\<open>Report\<close>: the lines it prints, as values; the numbers are formatted by \<open>printf\<close>.\<close>

datatype report_line =
    StageHeader
  | StageRow stage snapshot
  | CostHeader
  | DropsLine "(counter \<times> 64 word) list"
  | BitrateLine int int int
  | ResolutionLine "int \<times> int" "int \<times> int"
  | RatesLine int "64 word" "64 word"    \<comment> \<open>elapsed, captured, encoded\<close>

fun report_rows :: "(stage \<Rightarrow> snapshot) \<Rightarrow> bool \<Rightarrow> stage list \<Rightarrow> report_line list" where
  "report_rows snaps printed [] = []"
| "report_rows snaps printed (g # gs) =
     (if sn_count (snaps g) = 0 then report_rows snaps printed gs
      else let cost = (g \<notin> set cumulative_stages \<and> \<not> printed) in
        (if cost then [CostHeader] else []) @ StageRow g (snaps g) # report_rows snaps (printed \<or> cost) gs)"

definition Report :: "int \<Rightarrow> tracer \<Rightarrow> tracer \<times> report_line list" where
  "Report now s =
     (let snaps = (\<lambda>g. fst (TakeSnapshot (lt_hists s g))) in
      (s\<lparr>lt_last_report := now, lt_hists := (\<lambda>g. snd (TakeSnapshot (lt_hists s g))), lt_counters := (\<lambda>_. 0)\<rparr>,
       [RatesLine (now - lt_last_report s) (lt_counters s FramesCaptured) (lt_counters s FramesEncoded), StageHeader] @
       report_rows snaps False all_stages @
       [DropsLine (map (\<lambda>c. (c, lt_counters s c)) drop_counters),
        (case lt_kbps s of (a, c, p) \<Rightarrow> BitrateLine a c p), ResolutionLine (lt_source s) (lt_sent s)]))"

text \<open>The body of the reporter thread: a wait for the interval, cut short by \<open>Stop\<close>.\<close>

definition ReporterBody :: "int \<Rightarrow> tracer \<Rightarrow> tracer \<times> report_line list" where
  "ReporterBody now s = (if lt_stopped s then (s, []) else Report now s)"

text \<open>
  Whichever clock the capturer uses, once a first plausible timestamp has calibrated the tracer,
  a frame's time is at most a second old and at most a millisecond in the future; and the offset
  found then is used for every later frame.
\<close>

theorem sensor_times_are_plausible:
  assumes "\<not> lt_calibrated s" "sane_delta (now - raw) \<or> sane_delta (boot - raw)"
    and "raw = sec * 1000000 + usec" "raw \<noteq> 0"
  shows "case SensorUs now boot sec usec s of (t, s1) \<Rightarrow>
    sane_delta (now - t) \<and> lt_calibrated s1 \<and>
    fst (SensorUs now' boot' sec' usec' s1) =
      (if sec' * 1000000 + usec' = 0 then 0 else sec' * 1000000 + usec' + (t - raw))"
  using assms by (auto simp: SensorUs_def CalibrateClock_def Let_def sane_delta_def)

theorem sensor_times_are_plausible_witness:
  "fst (SensorUs 5000000 90000000 89 980000 init_tracer) = 4980000 \<and> sane_delta (5000000 - 4980000)"
proof -
  have "fst (SensorUs 5000000 90000000 89 980000 init_tracer) = 4980000" by code_simp
  moreover have "case SensorUs 5000000 90000000 89 980000 init_tracer of (t, s1) \<Rightarrow> sane_delta (5000000 - t) \<and> lt_calibrated s1 \<and>
    fst (SensorUs 0 0 0 0 s1) = (if (0::int) * 1000000 + 0 = 0 then 0 else 0 * 1000000 + 0 + (t - (89 * 1000000 + 980000)))"
    by (rule sensor_times_are_plausible) (simp_all add: init_tracer_def sane_delta_def)
  ultimately show ?thesis by (simp add: split_beta)
qed

section \<open>Around the encoder\<close>

text \<open>
  \<open>TracingVideoEncoder\<close> and its callback: what they pass on to the encoder and to WebRTC are
  outputs. The clock is read where the code reads it; \<open>rate\<close> is the value of libwebrtc's
  bitrate tracker.
\<close>

record tracing_encoder =
  te_last_seq :: "32 word"
  te_target :: bool                  \<comment> \<open>target_ is set\<close>

datatype te_out = ToEncoder "64 word" "32 word" | ToTarget "32 word" | SendFailed | ReleaseEncoder | RatesToEncoder int int
  | RegisterNull | RegisterCallback | DroppedToTarget

definition kMaxPlausibleGap :: "32 word" where
  "kMaxPlausibleGap = 1000"

definition CountGap :: "32 word \<Rightarrow> tracing_encoder \<Rightarrow> tracer \<Rightarrow> tracing_encoder \<times> tracer" where
  "CountGap n e s =
     (if n \<noteq> 0
      then let gap = n - te_last_seq e - 1 in
        (e\<lparr>te_last_seq := n\<rparr>,
         if te_last_seq e \<noteq> 0 \<and> gap \<noteq> 0 \<and> gap < kMaxPlausibleGap then Count EncoderQueueDrop (ucast gap) s else s)
      else (e, s))"

definition TracedEncode :: "64 word \<Rightarrow> 32 word \<Rightarrow> int \<Rightarrow> int \<Rightarrow> tracing_encoder \<Rightarrow> tracer \<Rightarrow>
    (tracing_encoder \<times> tracer) \<times> te_out list" where
  "TracedEncode frame_ts rtp start end e s =
     (if \<not> lt_enabled s then ((e, s), [ToEncoder frame_ts rtp])
      else let capture = LookupCapture frame_ts s;
               s1 = (if ci_sensor capture \<noteq> 0
                     then MarkEncode rtp (ci_sensor capture) (RecordStage SensorToEncodeIn (start - ci_sensor capture) s) else s)
           in case CountGap (ci_seq capture) e s1 of
             (e2, s2) \<Rightarrow> ((e2, RecordStage EncodeCall (end - start) s2), [ToEncoder frame_ts rtp]))"

definition TracedOnEncodedImage :: "32 word \<Rightarrow> int \<Rightarrow> int \<Rightarrow> int \<Rightarrow> tracing_encoder \<Rightarrow> tracer \<Rightarrow> tracer \<times> te_out list" where
  "TracedOnEncodedImage rtp encoded_us sent_us rate e s =
     (if \<not> te_target e then (s, [SendFailed])
      else if \<not> lt_enabled s then (s, [ToTarget rtp])
      else let sensor_us = LookupEncode rtp s;
               s1 = (if sensor_us \<noteq> 0 then RecordStage SensorToEncoded (encoded_us - sensor_us) s else s);
               s2 = RecordStage OnEncodedImageStage (sent_us - encoded_us) s1;
               s3 = (if sensor_us \<noteq> 0 then RecordStage SensorToSent (sent_us - sensor_us) s2 else s2);
               s4 = Count FramesEncoded 1 s3
           in (SetProducedKbps rate s4, [ToTarget rtp]))"

definition TracedRegister :: "bool \<Rightarrow> tracing_encoder \<Rightarrow> tracing_encoder \<times> te_out list" where
  "TracedRegister callback e = (if \<not> callback then (e, [RegisterNull]) else (e\<lparr>te_target := True\<rparr>, [RegisterCallback]))"

definition TracedRelease :: "tracing_encoder \<Rightarrow> tracing_encoder \<times> te_out list" where
  "TracedRelease e = (e\<lparr>te_target := False\<rparr>, [ReleaseEncoder])"

definition TracedSetRates :: "int \<Rightarrow> int \<Rightarrow> tracer \<Rightarrow> tracer \<times> te_out list" where
  "TracedSetRates target configured s =
     (if lt_enabled s then SetBitrateKbps target configured s else s, [RatesToEncoder target configured])"

section \<open>Frames dropped in front of the encoder\<close>

text \<open>The track source delivers frames while the encoder's queue is encoding those it keeps.\<close>

datatype trace_event = TeCapture "64 word" int | TeEncode "64 word" "32 word" int int

fun trace_step :: "tracing_encoder \<times> tracer \<Rightarrow> trace_event \<Rightarrow> (tracing_encoder \<times> tracer) \<times> te_out list" where
  "trace_step (e, s) (TeCapture ts sensor) = ((e, MarkCapture ts sensor s), [])"
| "trace_step (e, s) (TeEncode ts rtp start stop) = TracedEncode ts rtp start stop e s"

text \<open>The sequence numbers that \<open>Encode\<close> finds.\<close>

fun encoded_seqs :: "tracing_encoder \<times> tracer \<Rightarrow> trace_event list \<Rightarrow> nat list" where
  "encoded_seqs p [] = []"
| "encoded_seqs p (ev # es) =
     (case ev of TeCapture _ _ \<Rightarrow> [] | TeEncode ts _ _ _ \<Rightarrow> [unat (ci_seq (LookupCapture ts (snd p)))]) @
     encoded_seqs (fst (trace_step p ev)) es"

fun gaps_ok :: "nat list \<Rightarrow> bool" where
  "gaps_ok (a # b # ns) = (a < b \<and> b \<le> a + 1000 \<and> gaps_ok (b # ns))"
| "gaps_ok _ = True"

definition queue_drops :: "tracing_encoder \<times> tracer \<Rightarrow> 64 word" where
  "queue_drops p = lt_counters (snd p) EncoderQueueDrop"

lemma other_counters [simp]:
  "lt_counters (RecordStage g d s) = lt_counters s" "lt_counters (MarkEncode rtp t s) = lt_counters s"
  "lt_counters (MarkCapture ts t s) = lt_counters s" "lt_enabled (RecordStage g d s) = lt_enabled s"
  "lt_enabled (MarkEncode rtp t s) = lt_enabled s" "lt_enabled (MarkCapture ts t s) = lt_enabled s"
  "lt_enabled (Count c n s) = lt_enabled s"
  by (simp_all add: RecordStage_def MarkEncode_def MarkCapture_def Count_def Let_def)

lemma encode_counts:
  assumes "lt_enabled s"
  shows "queue_drops (fst (TracedEncode ts rtp start stop e s)) = queue_drops (CountGap (ci_seq (LookupCapture ts s)) e s)"
    "te_last_seq (fst (fst (TracedEncode ts rtp start stop e s))) = te_last_seq (fst (CountGap (ci_seq (LookupCapture ts s)) e s))"
    "lt_enabled (snd (fst (TracedEncode ts rtp start stop e s)))"
  using assms by (simp_all add: TracedEncode_def CountGap_def queue_drops_def Let_def Count_def split_beta)

lemma gap_counts:
  assumes "unat m < unat n" "unat n \<le> unat m + 1000" "te_last_seq e = m" "m \<noteq> 0"
  shows "queue_drops (CountGap n e s) = queue_drops (e, s) + of_nat (unat n - unat m - 1)"
    "te_last_seq (fst (CountGap n e s)) = n"
proof -
  have n: "n \<noteq> 0" using assms(1) by auto
  have le: "m + 1 \<le> n" using assms(1) unsigned_less [where 'a = nat and w = n]
    by (simp add: word_le_nat_alt unat_word_ariths)
  have s: "unat (m + 1) = unat m + 1" using assms(1) unsigned_less [where 'a = nat and w = n] by (simp add: unat_word_ariths)
  have "n - m - 1 = n - (m + 1)" by (rule diff_diff_eq)
  then have g: "unat (n - m - 1) = unat n - unat m - 1"
    by (simp only: unat_sub [OF le] s diff_diff_eq)
  then have lt: "n - m - 1 < kMaxPlausibleGap" using assms(1,2) by (simp add: word_less_nat_alt kMaxPlausibleGap_def)
  have u: "(ucast (n - m - 1) :: 64 word) = of_nat (unat n - unat m - 1)" by (metis g of_nat_unat)
  show "queue_drops (CountGap n e s) = queue_drops (e, s) + of_nat (unat n - unat m - 1)"
    using n assms(3,4) lt u by (cases "n - m - 1 = 0") (auto simp: CountGap_def Let_def queue_drops_def Count_def)
  show "te_last_seq (fst (CountGap n e s)) = n" using n by (simp add: CountGap_def Let_def)
qed

lemma gaps_bounds: "gaps_ok (k # ks) \<Longrightarrow> x \<in> set (k # ks) \<Longrightarrow> k \<le> x \<and> x \<le> last (k # ks)"
proof (induction ks arbitrary: k x)
  case (Cons a ks)
  then have ka: "k < a" "gaps_ok (a # ks)" by simp_all
  with Cons.IH [of a a] Cons.IH [of a x] Cons.prems(2) show ?case by auto
qed simp

lemma missing_between:
  assumes "gaps_ok (m # n # ns)"
  shows "card ({m..last (n # ns)} - set (m # n # ns)) = (n - m - 1) + card ({n..last (n # ns)} - set (n # ns))"
proof -
  have mn: "m < n" "gaps_ok (n # ns)" using assms by simp_all
  have "{m..last (n # ns)} - set (m # n # ns) = {m<..<n} \<union> ({n..last (n # ns)} - set (n # ns))"
    using gaps_bounds [OF mn(2)] mn(1) by fastforce
  moreover have "card ({m<..<n} \<union> ({n..last (n # ns)} - set (n # ns))) = card {m<..<n} + card ({n..last (n # ns)} - set (n # ns))"
    by (rule card_Un_disjoint) auto
  ultimately show ?thesis by simp
qed

lemma drops_run:
  "lt_enabled s \<Longrightarrow> te_last_seq e \<noteq> 0 \<Longrightarrow> unat (te_last_seq e) = m \<Longrightarrow> encoded_seqs (e, s) es = ns \<Longrightarrow> gaps_ok (m # ns) \<Longrightarrow>
   queue_drops (fst (run trace_step (e, s) es)) =
     queue_drops (e, s) + of_nat (card ({m..last (m # ns)} - set (m # ns)))"
proof (induction es arbitrary: e s m ns)
  case (Cons ev es)
  show ?case
  proof (cases ev)
    case (TeCapture ts sensor)
    have "queue_drops (e, MarkCapture ts sensor s) = queue_drops (e, s)" by (simp add: queue_drops_def)
    then show ?thesis using Cons.IH [of "MarkCapture ts sensor s" e m ns] Cons.prems TeCapture by simp
  next
    case (TeEncode ts rtp start stop)
    let ?n = "ci_seq (LookupCapture ts s)"
    obtain e1 s1 where p: "fst (TracedEncode ts rtp start stop e s) = (e1, s1)" by (cases "fst (TracedEncode ts rtp start stop e s)")
    obtain ns' where ns: "ns = unat ?n # ns'" "encoded_seqs (e1, s1) es = ns'"
      using Cons.prems(4) TeEncode p by auto
    have g: "gaps_ok (m # unat ?n # ns')" using Cons.prems(5) ns by simp
    then have "unat (te_last_seq e) < unat ?n" "unat ?n \<le> unat (te_last_seq e) + 1000" using Cons.prems(3) by simp_all
    note gc = gap_counts [OF this refl Cons.prems(2), of s]
    have 1: "queue_drops (e1, s1) = queue_drops (e, s) + of_nat (unat ?n - m - 1)" "te_last_seq e1 = ?n" "lt_enabled s1"
      using encode_counts [OF Cons.prems(1), of ts rtp start stop e] gc p Cons.prems(3) by simp_all
    have "?n \<noteq> 0" using g by auto
    then have "queue_drops (fst (run trace_step (e1, s1) es)) =
        queue_drops (e1, s1) + of_nat (card ({unat ?n..last (unat ?n # ns')} - set (unat ?n # ns')))"
      using Cons.IH [of s1 e1 "unat ?n" ns'] 1 ns(2) g by simp
    then show ?thesis
      using 1 missing_between [OF g] ns p TeEncode by simp
  qed
qed (simp add: queue_drops_def)


definition demo_trace :: "trace_event list" where
  "demo_trace = [TeCapture 33000 10, TeCapture 66000 20, TeEncode 33000 1 50 60, TeCapture 99000 30, TeCapture 132000 40,
     TeEncode 132000 4 70 80]"


end
