(* ===== verification/Conductor.thy ===== *)
theory Conductor
  imports Settings RtcPeer IpcChannel Recorder MediaQuery
begin

text \<open>
  \<open>Conductor\<close> (src/src/rtc/conductor.cpp) puts the parts together: it chooses the capturers,
  configures every peer connection (bitrates, tracks, data channels, ICE servers) and handles the
  commands of the clients over the recorder, the camera and the recorded files; \<open>Run\<close>
  (src/src/main.cpp) decides which recorders and signaling services there are. libwebrtc, the
  capturers and the file system are the environment.
\<close>

section \<open>Settings beyond those the parser changes\<close>

record device_args = args +
  no_audio :: bool
  force_alsa :: bool
  turn_username :: string
  turn_password :: string
  peer_timeout :: int
  use_whep :: bool

section \<open>Capturers\<close>

datatype audio_capturer = Alsa | PulseAudio

datatype video_capturer = V4L2Cap | RtspCap | LibcameraCap | LibargusCap

definition ChooseAudio :: "device_args \<Rightarrow> audio_capturer option" where
  "ChooseAudio a = (if no_audio a then None else if force_alsa a then Some Alsa else Some PulseAudio)"

definition ChooseVideo :: "platform \<Rightarrow> device_args \<Rightarrow> video_capturer option" where
  "ChooseVideo pf a =
     (if camera a = [] then None
      else case cam_source a of
        V4L2 \<Rightarrow> Some V4L2Cap
      | Rtsp \<Rightarrow> Some RtspCap
      | LibCamera \<Rightarrow> (if pf_libcamera pf then Some LibcameraCap else None)
      | LibArgus \<Rightarrow> (if \<not> pf_libcamera pf \<and> pf_libargus pf then Some LibargusCap else None))"

section \<open>A peer connection\<close>

record peer_config =
  pcf_publisher :: bool
  pcf_backend :: signaling_backend
  pcf_candidates_in_sdp :: bool
  pcf_data_channel_only :: bool
  pcf_no_data_channels :: bool

record ice_server =
  is_uri :: string
  is_username :: string
  is_password :: string

datatype direction = kSendOnly | kSendRecv

datatype media_kind = Audio | VideoMedia

record encoding =
  en_min_bps :: "int option"
  en_max_bps :: "int option"
  en_framerate :: int
  en_scalability :: "string option"

datatype cond_out =
    CoFactoryCreate "ice_server list" bool          \<comment> \<open>servers, gather once\<close>
  | CoSetBitrate "int option" "int option" "int option"
  | CoSignedOverflow
  | CoPeer peer_out
  | CoRegisterHandlers
  | CoAddTrack media_kind string
  | CoSetParameters "encoding list"
  | CoSetDirection nat direction
  | CoNullDeref
  | CoSnapshot string bytes
  | CoFile string video_mode "(path \<times> int \<times> string) option"
  | CoTransfer string string
  | CoSetControls int int
  | CoRecording string bool string
  | CoRecorder rm_out

text \<open>The product is computed on 32 bits; it is undefined when it does not fit.\<close>

definition bps :: "int \<Rightarrow> int option" where
  "bps kbps = (if 0 < kbps then Some (kbps * 1000) else None)"

definition bps_overflows :: "int \<Rightarrow> bool" where
  "bps_overflows kbps \<longleftrightarrow> 0 < kbps \<and> 2 ^ 31 \<le> kbps * 1000"

definition ApplyBitrateSettings :: "'a args_scheme \<Rightarrow> cond_out list" where
  "ApplyBitrateSettings a =
     (if min_bitrate a \<le> 0 \<and> start_bitrate a \<le> 0 \<and> max_bitrate a \<le> 0 then []
      else if bps_overflows (min_bitrate a) \<or> bps_overflows (start_bitrate a) \<or> bps_overflows (max_bitrate a)
      then [CoSignedOverflow]
      else [CoSetBitrate (bps (min_bitrate a)) (bps (start_bitrate a)) (bps (max_bitrate a))])"

text \<open>
  \<open>AddTracks\<close>. \<open>tracks\<close> says which tracks the device has; of libwebrtc: whether the connection
  has senders already, whether adding succeeds, the number of encodings of the video sender
  and the transceivers afterwards, each with its kind and whether it sends a track.
\<close>

record track_env =
  tv_has_senders :: bool
  tv_video_ok :: bool
  tv_encodings :: nat
  tv_fps :: int
  tv_transceivers :: "(media_kind \<times> bool) list"

definition video_encoding :: "'a args_scheme \<Rightarrow> track_env \<Rightarrow> encoding" where
  "video_encoding a env = \<lparr>en_min_bps = bps (min_bitrate a), en_max_bps = bps (max_bitrate a), en_framerate = tv_fps env,
     en_scalability = (if scalability_mode a \<noteq> [] then Some (scalability_mode a) else None)\<rparr>"

definition track_direction :: "bool \<Rightarrow> media_kind \<Rightarrow> direction" where
  "track_direction sfu kind = (if kind = Audio \<and> \<not> sfu then kSendRecv else kSendOnly)"

definition SetDirections :: "bool \<Rightarrow> (media_kind \<times> bool) list \<Rightarrow> cond_out list" where
  "SetDirections sfu ts =
     List.map_filter (\<lambda>(i, kind, sends). if sends then Some (CoSetDirection i (track_direction sfu kind)) else None)
       (zip [0..<length ts] ts)"

definition AddTracks :: "'a args_scheme \<Rightarrow> bool \<Rightarrow> bool \<Rightarrow> track_env \<Rightarrow> bool \<Rightarrow> cond_out list" where
  "AddTracks a audio_track video_track env sfu =
     (if tv_has_senders env then []
      else (if audio_track then [CoAddTrack Audio (uid a)] else []) @
        (if video_track
         then CoAddTrack VideoMedia (uid a) #
           (if \<not> tv_video_ok env then []
            else (if tv_encodings env = 0 then [CoSetParameters []]
                  else [CoSetParameters [video_encoding a env]]) @ SetDirections sfu (tv_transceivers env))
         else SetDirections sfu (tv_transceivers env)))"

text \<open>\<open>results\<close> are the data channels that \<open>CreateDataChannelOrError\<close> returns.\<close>

definition lift_peer :: "peer \<times> peer_out list \<Rightarrow> peer \<times> cond_out list" where
  "lift_peer r = (fst r, map CoPeer (snd r))"

definition InitializeDataChannels ::
  "'a args_scheme \<Rightarrow> (channel_role \<Rightarrow> nat option) \<Rightarrow> peer \<Rightarrow> peer \<times> cond_out list" where
  "InitializeDataChannels a results p =
     (if is_sfu_peer p \<and> \<not> rp_publisher p then (p, [])
      else andthen
        (if is_sfu_peer p then (p, [])
         else andthen (andthen (lift_peer (CreateDataChannel Command None (results Command) p))
                  (\<lambda>p1. lift_peer (CreateDataChannel Stream None (results Stream) p1)))
                (\<lambda>p2. (p2, if GetChannel Command p2 = None then [] else [CoRegisterHandlers])))
        (\<lambda>p3. if enable_ipc a
               then andthen (lift_peer (CreateDataChannel Lossy None (results Lossy) p3))
                      (\<lambda>p4. lift_peer (CreateDataChannel Reliable None (results Reliable) p4))
               else (p3, [])))"

definition ice_servers :: "device_args \<Rightarrow> ice_server list" where
  "ice_servers a = \<lparr>is_uri = stun_url a, is_username = [], is_password = []\<rparr> #
     (if turn_url a \<noteq> [] then [\<lparr>is_uri = turn_url a, is_username = turn_username a, is_password = turn_password a\<rparr>] else [])"

text \<open>\<open>i\<close> is the new peer's id; the factory's answer is \<open>ok\<close>. Nothing is returned on failure.\<close>

definition CreatePeerConnection ::
  "device_args \<Rightarrow> peer_config \<Rightarrow> string \<Rightarrow> bool \<Rightarrow> (channel_role \<Rightarrow> nat option) \<Rightarrow> bool \<Rightarrow> bool \<Rightarrow> track_env \<Rightarrow>
   peer option \<times> cond_out list" where
  "CreatePeerConnection a cfg i ok results audio_track video_track env =
     (let p0 = RtcPeerInit i (peer_timeout a) (pcf_backend cfg) (pcf_publisher cfg) (pcf_candidates_in_sdp cfg);
          create = CoFactoryCreate (ice_servers a) (pcf_candidates_in_sdp cfg)
      in if \<not> ok then (None, [create])
         else let p1 = p0\<lparr>rp_pc := True\<rparr>;
                  (p2, os) = (if pcf_no_data_channels cfg then (p1, []) else InitializeDataChannels a results p1)
              in (Some p2, create # ApplyBitrateSettings a @ os @
                    (if pcf_data_channel_only cfg then [] else AddTracks a audio_track video_track env (is_sfu_peer p2))))"

definition ResolveWebrtcAlias :: "bool \<Rightarrow> string \<Rightarrow> string option" where
  "ResolveWebrtcAlias video_track requested = (if requested = [] \<and> video_track then Some [] else None)"

text \<open>\<open>InitializeEndpointRegistry\<close>: the endpoints whose creation succeeds are added, then started.\<close>

definition InitializeEndpointRegistry :: "'a args_scheme \<Rightarrow> endpoint option \<Rightarrow> endpoint option \<Rightarrow> registry option" where
  "InitializeEndpointRegistry a ipc gp =
     (if \<not> enable_ipc a then None
      else let reg = RegistryAdd ipc [] in Some (if enable_gamepad a then RegistryAdd gp reg else reg))"

section \<open>Commands\<close>

text \<open>
  What the commands ask the outside: \<open>de_cwd\<close> is the working directory, \<open>de_opens\<close> whether a
  file can be opened, \<open>de_jpeg\<close> the picture of a quality (\<open>None\<close>: an exception),
  \<open>de_controls\<close> what \<open>SetControls\<close> does (\<open>None\<close>: an exception).
\<close>

record device_env =
  de_fs :: entry
  de_cwd :: path
  de_other :: "string \<Rightarrow> string"
  de_parse :: "string \<Rightarrow> int"
  de_fuel :: nat
  de_duration :: "path \<Rightarrow> int"
  de_thumbnail :: "path \<Rightarrow> string"
  de_opens :: "string \<Rightarrow> bool"
  de_jpeg :: "u32 \<Rightarrow> bytes option"
  de_controls :: "int \<Rightarrow> int \<Rightarrow> bool option"
  de_start :: start_env

definition path_of :: "device_env \<Rightarrow> string \<Rightarrow> path" where
  "path_of env s = (if starts_with s ''/'' then [] else de_cwd env) @ filter (\<lambda>n. n \<noteq> []) (getlines (CHR ''/'') s)"

text \<open>\<open>ondemand_recorder_\<close> is a weak pointer: \<open>None\<close> when it is not set or gone.\<close>

record conductor =
  co_args :: device_args
  co_camera :: bool                  \<comment> \<open>video_capture_source_ is set\<close>
  co_recorder :: "(rm_config \<times> rm) option"

text \<open>The context of a command: its id and whether the peer has a stream channel.\<close>

type_synonym ctx = "string \<times> bool"

definition TakeSnapshotCmd :: "device_env \<Rightarrow> ctx \<Rightarrow> u32 \<Rightarrow> conductor \<Rightarrow> cond_out list" where
  "TakeSnapshotCmd env ctx quality co =
     (if \<not> snd ctx then []
      else if \<not> co_camera co then [CoNullDeref]
      else case de_jpeg env (if 100 < quality then 100 else quality) of None \<Rightarrow> [] | Some jpg \<Rightarrow> [CoSnapshot (fst ctx) jpg])"

definition ResponseQueryFile :: "device_env \<Rightarrow> ctx \<Rightarrow> path option \<Rightarrow> video_mode \<Rightarrow> cond_out" where
  "ResponseQueryFile env ctx p mode =
     CoFile (fst ctx) mode
       (case p of None \<Rightarrow> None
        | Some f \<Rightarrow> Some (f, de_duration env f,
            if de_thumbnail env f \<noteq> [] then ''data:image/jpeg;base64,'' @ de_thumbnail env f else []))"

text \<open>\<open>None\<close>: the search has not ended within the fuel.\<close>

definition QueryFileCmd :: "device_env \<Rightarrow> ctx \<Rightarrow> query_type \<Rightarrow> video_mode \<Rightarrow> string \<Rightarrow> conductor \<Rightarrow> cond_out list option" where
  "QueryFileCmd env ctx type mode parameter co =
     (let a = co_args co;
          search_dir = path_of env (if mode = TIMELAPSE then record_path a @ ''timelapse'' else record_path a)
      in if \<not> snd ctx then Some []
         else if record_path a = [] then Some []
         else if type = LATEST_FILE \<or> parameter = []
         then Some [ResponseQueryFile env ctx (FindLatestCompleteFile (de_other env) (de_fs env) search_dir ''.mp4'') mode]
         else if type = BEFORE_FILE
         then (case FindOlderFiles (de_other env) (de_fuel env) (de_fs env) search_dir (path_of env parameter) 8 of
                 None \<Rightarrow> None
               | Some ps \<Rightarrow> Some (if ps \<noteq> [] then map (\<lambda>p. ResponseQueryFile env ctx (Some p) mode) ps
                                 else [ResponseQueryFile env ctx None mode]))
         else Some [ResponseQueryFile env ctx
                (FindFilesFromDatetime (de_other env) (de_parse env) (de_fs env) search_dir parameter) mode])"

definition TransferFileCmd :: "device_env \<Rightarrow> ctx \<Rightarrow> string \<Rightarrow> conductor \<Rightarrow> cond_out list" where
  "TransferFileCmd env ctx filepath co =
     (if \<not> snd ctx then []
      else if record_path (co_args co) = [] then []
      else if \<not> de_opens env filepath then []
      else [CoTransfer (fst ctx) filepath])"

definition ControlCameraCmd :: "device_env \<Rightarrow> int \<Rightarrow> int \<Rightarrow> conductor \<Rightarrow> cond_out list" where
  "ControlCameraCmd env key val co = (if \<not> co_camera co then [] else [CoSetControls key val])"

definition StartRecordingCmd :: "device_env \<Rightarrow> ctx \<Rightarrow> conductor \<Rightarrow> conductor \<times> cond_out list" where
  "StartRecordingCmd env ctx co =
     (case co_recorder co of
        None \<Rightarrow> (co, [])
      | Some (cfg, r) \<Rightarrow>
          (case RecorderStart cfg (de_start env) r of
             (r1, os) \<Rightarrow> (co\<lparr>co_recorder := Some (cfg, r1)\<rparr>, map CoRecorder os @ [CoRecording (fst ctx) True (rm_filepath r1)])))"

definition StopRecordingCmd :: "ctx \<Rightarrow> conductor \<Rightarrow> conductor \<times> cond_out list" where
  "StopRecordingCmd ctx co =
     (case co_recorder co of
        None \<Rightarrow> (co, [])
      | Some (cfg, r) \<Rightarrow>
          (case RecorderStop cfg r of
             (r1, os) \<Rightarrow> (co\<lparr>co_recorder := Some (cfg, r1)\<rparr>, map CoRecorder os @ [CoRecording (fst ctx) False (rm_filepath r)])))"

text \<open>The callback for a command channel that closes.\<close>

definition CommandChannelClosed :: "conductor \<Rightarrow> conductor \<times> cond_out list" where
  "CommandChannelClosed co =
     (case co_recorder co of
        None \<Rightarrow> (co, [])
      | Some (cfg, r) \<Rightarrow>
          if rm_is_recording r
          then (case RecorderStop cfg r of (r1, os) \<Rightarrow> (co\<lparr>co_recorder := Some (cfg, r1)\<rparr>, map CoRecorder os))
          else (co, []))"

text \<open>The handlers registered on the command channel of a peer, and running one.\<close>

datatype command = CmdSnapshot | CmdQuery | CmdTransfer | CmdControl | CmdStart | CmdStop

definition RegisterCommandHandlers :: "command handlers \<Rightarrow> command handlers" where
  "RegisterCommandHandlers hs =
     fold (\<lambda>(rc, h). RegisterHandler rc h)
       [(kTakeSnapshot, CmdSnapshot), (kQueryFile, CmdQuery), (kTransferFile, CmdTransfer), (kControlCamera, CmdControl),
        (kStartRecording, CmdStart), (kStopRecording, CmdStop)] hs"

text \<open>A request whose payload is not the handler's is logged as invalid.\<close>

fun RunCommand :: "device_env \<Rightarrow> bool \<Rightarrow> command \<times> request \<times> string \<Rightarrow> conductor \<Rightarrow> (conductor \<times> cond_out list) option" where
  "RunCommand env stream (CmdSnapshot, TakeSnapshot q, i) co = Some (co, TakeSnapshotCmd env (i, stream) q co)"
| "RunCommand env stream (CmdQuery, QueryFileRequest t m p, i) co = map_option (Pair co) (QueryFileCmd env (i, stream) t m p co)"
| "RunCommand env stream (CmdTransfer, TransferFileRequest f, i) co = Some (co, TransferFileCmd env (i, stream) f co)"
| "RunCommand env stream (CmdControl, ControlCameraRequest k v, i) co = Some (co, ControlCameraCmd env k v co)"
| "RunCommand env stream (CmdStart, r, i) co = Some (StartRecordingCmd env (i, stream) co)"
| "RunCommand env stream (CmdStop, r, i) co = Some (StopRecordingCmd (i, stream) co)"
| "RunCommand env stream (c, r, i) co = Some (co, [])"

section \<open>The program\<close>

datatype service = WhepSvc | LiveKitSvc | CloudflareSvc | MqttSvc

text \<open>\<open>creatable\<close> says which folders can be created; \<open>CreateFolder\<close> fails on the empty name.\<close>

definition BackgroundRecorder :: "(string \<Rightarrow> bool) \<Rightarrow> 'a args_scheme \<Rightarrow> string option" where
  "BackgroundRecorder creatable a =
     (if (ar_record_mode a = 0 \<or> ar_record_mode a = -1) \<and> record_path a \<noteq> [] \<and> creatable (record_path a)
      then Some (record_path a) else None)"

definition OnDemandRecorder :: "(string \<Rightarrow> bool) \<Rightarrow> 'a args_scheme \<Rightarrow> string option" where
  "OnDemandRecorder creatable a =
     (if (ar_record_mode a = 1 \<or> ar_record_mode a = -1) \<and> record_ondemand_path a \<noteq> [] \<and> creatable (record_ondemand_path a)
      then Some (record_ondemand_path a) else None)"

definition RunServices :: "device_args \<Rightarrow> service list" where
  "RunServices a = (if use_whep a then [WhepSvc] else []) @ (if use_livekit a then [LiveKitSvc] else []) @
     (if use_cloudflare a then [CloudflareSvc] else []) @ (if use_mqtt a then [MqttSvc] else [])"

section \<open>The channels of a peer\<close>

text \<open>Which channels docs/reference/datachannels.md promises to a peer.\<close>

definition carries :: "'a args_scheme \<Rightarrow> peer_config \<Rightarrow> channel_role \<Rightarrow> bool" where
  "carries a cfg role \<longleftrightarrow> \<not> pcf_no_data_channels cfg \<and>
     (let sfu = (pcf_backend cfg \<in> {LiveKit, Cloudflare}) in
      if role \<in> {Command, Stream} then \<not> sfu else enable_ipc a \<and> (sfu \<longrightarrow> pcf_publisher cfg))"

lemma AddChannel_simps [simp]:
  "rp_channels (AddChannel role dc p) = (rp_channels p)(role \<mapsto> dc)" "rp_pc (AddChannel role dc p) = rp_pc p"
  "rp_backend (AddChannel role dc p) = rp_backend p" "rp_publisher (AddChannel role dc p) = rp_publisher p"
  by (simp_all add: AddChannel_def Let_def split: option.split)

lemma CreateDataChannel_simps:
  assumes "rp_pc p"
  shows "fst (CreateDataChannel role i (Some dc) p) = AddChannel role dc p"
    "CoRegisterHandlers \<notin> set (snd (lift_peer (CreateDataChannel role i (Some dc) p)))"
    "fst (lift_peer (CreateDataChannel role i (Some dc) p)) = AddChannel role dc p"
  using assms by (auto simp: CreateDataChannel_def Let_def lift_peer_def)

lemma InitializeDataChannels_channels:
  assumes "rp_pc p"
  shows "rp_channels (fst (InitializeDataChannels a (\<lambda>r. Some (f r)) p)) =
      (let sfu = is_sfu_peer p in
       (\<lambda>role. if role \<in> {Command, Stream} then (if sfu then rp_channels p role else Some (f role))
               else if enable_ipc a \<and> (sfu \<longrightarrow> rp_publisher p) then Some (f role) else rp_channels p role))"
    "CoRegisterHandlers \<in> set (snd (InitializeDataChannels a (\<lambda>r. Some (f r)) p)) \<longleftrightarrow> \<not> is_sfu_peer p"
  using assms
  by (auto simp: InitializeDataChannels_def CreateDataChannel_simps GetChannel_def Let_def fun_eq_iff is_sfu_peer_def)
     (metis channel_role.exhaust)+

text \<open>
  A peer gets exactly the channels that the documentation promises for its signaling, and the
  command handlers exactly when it has a command channel: over MQTT all four (the IPC channels
  with \<open>--enable-ipc\<close>), with an SFU the IPC channels of the publisher only, over WHEP none.
\<close>

theorem peer_gets_its_channels:
  "case CreatePeerConnection a cfg i True (\<lambda>r. Some (f r)) audio video env of
     (None, os) \<Rightarrow> False
   | (Some p, os) \<Rightarrow> rp_channels p role = (if carries a cfg role then Some (f role) else None) \<and>
       (CoRegisterHandlers \<in> set os \<longleftrightarrow> carries a cfg Command)"
proof -
  let ?p = "(RtcPeerInit i (peer_timeout a) (pcf_backend cfg) (pcf_publisher cfg) (pcf_candidates_in_sdp cfg))\<lparr>rp_pc := True\<rparr>"
  have p: "rp_pc ?p" "rp_channels ?p = (\<lambda>_. None)" "is_sfu_peer ?p \<longleftrightarrow> pcf_backend cfg \<in> {LiveKit, Cloudflare}"
    "rp_publisher ?p = pcf_publisher cfg"
    by (auto simp: RtcPeerInit_def is_sfu_peer_def)
  have "CoRegisterHandlers \<notin> set (ApplyBitrateSettings a)" "CoRegisterHandlers \<notin> set (AddTracks a audio video env sfu)" for sfu
    by (auto simp: ApplyBitrateSettings_def AddTracks_def SetDirections_def List.map_filter_def split: if_splits)
  with InitializeDataChannels_channels [OF p(1), of a f] p show ?thesis
    by (auto simp: CreatePeerConnection_def Let_def split_beta carries_def)
qed

section \<open>Bitrates\<close>

text \<open>What \<open>PeerConnection::SetBitrate\<close> accepts.\<close>

definition webrtc_accepts :: "int option \<Rightarrow> int option \<Rightarrow> int option \<Rightarrow> bool" where
  "webrtc_accepts lo st hi \<longleftrightarrow> list_all (\<lambda>x. case x of Some b \<Rightarrow> 0 \<le> b \<and> b < 2 ^ 31 | None \<Rightarrow> True) [lo, st, hi] \<and>
     (case (lo, st) of (Some a, Some b) \<Rightarrow> a \<le> b | _ \<Rightarrow> True) \<and> (case (st, hi) of (Some a, Some b) \<Rightarrow> a \<le> b | _ \<Rightarrow> True) \<and>
     (case (lo, hi) of (Some a, Some b) \<Rightarrow> a \<le> b | _ \<Rightarrow> True)"



section \<open>Commands and their handlers\<close>

text \<open>
  Every command reaches its handler: for each request the command channel runs exactly one
  handler, once, with the request it was registered for and the id of the packet; other packets
  and \<open>disconnect\<close>, which the peer handles itself, run none of the conductor's.
\<close>

theorem commands_reach_their_handlers:
  "CommandOnPacket (RegisterCommandHandlers (\<lambda>_. None)) packet =
     (case body packet of
        RequestBody r \<Rightarrow>
          map (\<lambda>c. (c, r, request_id packet))
            (case r of TakeSnapshot q \<Rightarrow> [CmdSnapshot] | QueryFileRequest t m p \<Rightarrow> [CmdQuery] | TransferFileRequest f \<Rightarrow> [CmdTransfer]
               | ControlCameraRequest k v \<Rightarrow> [CmdControl] | StartRecordingRequest \<Rightarrow> [CmdStart] | StopRecordingRequest \<Rightarrow> [CmdStop]
               | _ \<Rightarrow> [])
      | _ \<Rightarrow> [])"
  by (auto simp: CommandOnPacket_def RegisterCommandHandlers_def RegisterHandler_def split: body.split request.split)

section \<open>Queries\<close>

lemma take_length: "length (take n xs) \<le> n"
  by simp

fun answers_query :: "string \<Rightarrow> video_mode \<Rightarrow> cond_out \<Rightarrow> bool" where
  "answers_query i m (CoFile j m' f) = (j = i \<and> m' = m)"
| "answers_query i m _ = False"

text \<open>
  A query for older files is answered with the eight newest of them: when the parameter names a
  recording in an hour folder, the answers are, in order, the first eight files of the walk back
  over the hour folders, or one empty answer when there is none, all under the request's id.
\<close>

theorem before_file_lists_older_files:
  assumes "lookup_path (de_fs env) (rt @ [date, hour, name]) = Some e" "path_of env parameter = rt @ [date, hour, name]"
    and "path_of env (record_path (co_args co)) \<noteq> rt @ [date, hour]" "only_dates (de_fs env) rt"
    and "[] \<notin> range (de_other env)" "length (hour_folders (de_fs env) rt) < de_fuel env"
    and "record_path (co_args co) \<noteq> []" "parameter \<noteq> []"
  shows "let files = take 8 (concat (map (older_in (de_fs env) (fs_extension name) (last_write_time e))
        (walk (de_other env) (de_fs env) rt (Suc (length (hour_folders (de_fs env) rt))) (rt @ [date]) (rt @ [date, hour]))))
     in \<exists>os. QueryFileCmd env (i, True) BEFORE_FILE RECORDING parameter co = Some os \<and>
          os = (if files = [] then [ResponseQueryFile env (i, True) None RECORDING]
                else map (\<lambda>p. ResponseQueryFile env (i, True) (Some p) RECORDING) files) \<and>
          1 \<le> length os \<and> length os \<le> 8 \<and> list_all (answers_query i RECORDING) os"
proof -
  define files where "files = take 8 (concat (map (older_in (de_fs env) (fs_extension name) (last_write_time e))
      (walk (de_other env) (de_fs env) rt (Suc (length (hour_folders (de_fs env) rt))) (rt @ [date]) (rt @ [date, hour]))))"
  have n8: "nat 8 = 8" by simp
  from older_files_walk [OF assms(1,3-5), of 8] assms(6)
  have found: "FindOlderFiles (de_other env) (de_fuel env) (de_fs env) (path_of env (record_path (co_args co)))
      (rt @ [date, hour, name]) 8 = Some files"
    unfolding n8 files_def by simp
  have "length files \<le> 8" by (simp add: files_def)
  moreover have "QueryFileCmd env (i, True) BEFORE_FILE RECORDING parameter co =
      Some (if files = [] then [ResponseQueryFile env (i, True) None RECORDING]
            else map (\<lambda>p. ResponseQueryFile env (i, True) (Some p) RECORDING) files)"
    using found assms(2,7,8) by (simp add: QueryFileCmd_def Let_def)
  moreover have "answers_query i m (ResponseQueryFile env (i, True) p m)" for p m by (simp add: ResponseQueryFile_def)
  ultimately show ?thesis
    unfolding Let_def files_def [symmetric] by (auto simp: list_all_iff Suc_le_eq)
qed

text \<open>
  docs/recording/README.md gives a file name such as \<open>20260719_103000.mp4\<close> as the parameter. A name
  without its folders is looked up in the working directory of the program, so that the answer
  is empty whatever has been recorded.
\<close>

theorem bare_name_finds_nothing:
  assumes "CHR ''/'' \<notin> set name" "name \<noteq> []" "lookup_path (de_fs env) (de_cwd env @ [name]) = None"
    and "record_path (co_args co) \<noteq> []"
  shows "QueryFileCmd env (i, True) BEFORE_FILE mode name co = Some [CoFile i mode None]"
proof -
  have "path_of env name = de_cwd env @ [name]"
    using assms(1,2) by (cases name) (auto simp: path_of_def getlines_end starts_with_def)
  then show ?thesis using assms by (simp add: QueryFileCmd_def Let_def FindOlderFiles_def ResponseQueryFile_def)
qed

definition demo_env :: device_env where
  "demo_env = \<lparr>de_fs = sample_tree, de_cwd = [''home''], de_other = (\<lambda>s. ''x''), de_parse = (\<lambda>s. 0), de_fuel = 9,
     de_duration = (\<lambda>p. 60), de_thumbnail = (\<lambda>p. []), de_opens = (\<lambda>f. f = ''/etc/passwd''), de_jpeg = (\<lambda>q. Some ''jpg''),
     de_controls = (\<lambda>k v. Some True),
     de_start = \<lparr>se_space = True, se_now = \<lparr>tm_year = 2024, tm_mon = 2, tm_mday = 3, tm_hour = 4, tm_min = 5, tm_sec = 6\<rparr>,
       se_alloc = True, se_open = True\<rparr>\<rparr>"

definition demo_device :: device_args where
  "demo_device = args.extend (default_args\<lparr>record_path := ''/''\<rparr>)
     \<lparr>no_audio = True, force_alsa = False, turn_username = [], turn_password = [], peer_timeout = 60, use_whep = False\<rparr>"

definition demo_conductor :: conductor where
  "demo_conductor = \<lparr>co_args = demo_device, co_camera = True, co_recorder = Some (demo_rm_cfg, init_rm)\<rparr>"

theorem before_file_lists_older_files_witness:
  "\<exists>os. QueryFileCmd demo_env (''7'', True) BEFORE_FILE RECORDING ''/20240229/10/e.mp4'' demo_conductor = Some os \<and>
     os = map (\<lambda>p. CoFile ''7'' RECORDING (Some (p, 60, [])))
       [[''20240229'', ''10'', ''d.mp4''], [''20240229'', ''10'', ''c.mp4''], [''20240229'', ''08'', ''b.mp4''], [''20240228'', ''23'', ''a.mp4'']] \<and> length os \<le> 8"
proof -
  let ?p = "[] @ [''20240229'', ''10'', ''e.mp4'']"
  have h: "lookup_path (de_fs demo_env) ?p = Some (Plain 5)" "path_of demo_env ''/20240229/10/e.mp4'' = ?p"
    "path_of demo_env (record_path (co_args demo_conductor)) \<noteq> [] @ [''20240229'', ''10'']" "only_dates (de_fs demo_env) []"
    "length (hour_folders (de_fs demo_env) []) < de_fuel demo_env" "record_path (co_args demo_conductor) \<noteq> []"
    "''/20240229/10/e.mp4'' \<noteq> []"
    by code_simp+
  have o: "[] \<notin> range (de_other demo_env)" by (auto simp: demo_env_def)
  have f: "take 8 (concat (map (older_in (de_fs demo_env) (fs_extension ''e.mp4'') (last_write_time (Plain 5)))
        (walk (de_other demo_env) (de_fs demo_env) [] (Suc (length (hour_folders (de_fs demo_env) []))) ([] @ [''20240229'']) ([] @ [''20240229'', ''10''])))) =
      [[''20240229'', ''10'', ''d.mp4''], [''20240229'', ''10'', ''c.mp4''], [''20240229'', ''08'', ''b.mp4''], [''20240228'', ''23'', ''a.mp4'']]"
    by code_simp
  from before_file_lists_older_files [OF h(1-4) o h(5-7), of "''7''"]
  show ?thesis unfolding f Let_def by (auto simp: ResponseQueryFile_def demo_env_def)
qed

theorem bare_name_finds_nothing_witness:
  "QueryFileCmd demo_env (''7'', True) BEFORE_FILE RECORDING ''e.mp4'' demo_conductor = Some [CoFile ''7'' RECORDING None]"
  by (rule bare_name_finds_nothing) code_simp+

section \<open>Recording on demand\<close>

definition start_works :: "rm_config \<Rightarrow> device_env \<Rightarrow> bool" where
  "start_works cfg env \<longleftrightarrow> rc_type cfg \<noteq> Snapshot \<and> se_alloc (de_start env) \<and> se_open (de_start env) \<and>
     FileInfo (rc_path cfg) ''mp4'' (se_now (de_start env)) \<noteq> None"

text \<open>What the threads of the camera, the microphone and the encoders make the recorder do between two commands.\<close>

definition RecorderRuns :: "rm_event list \<Rightarrow> conductor \<Rightarrow> conductor \<times> cond_out list" where
  "RecorderRuns es co =
     (case co_recorder co of
        None \<Rightarrow> (co, [])
      | Some (cfg, r) \<Rightarrow>
          (case run (rm_step cfg) r es of (r1, os) \<Rightarrow> (co\<lparr>co_recorder := Some (cfg, r1)\<rparr>, map CoRecorder os)))"

fun recorder_outs :: "cond_out list \<Rightarrow> rm_out list" where
  "recorder_outs (CoRecorder x # os) = x # recorder_outs os"
| "recorder_outs (_ # os) = recorder_outs os"
| "recorder_outs [] = []"

lemma recorder_outs_append [simp]: "recorder_outs (xs @ ys) = recorder_outs xs @ recorder_outs ys"
  by (induction xs rule: recorder_outs.induct) auto

lemma recorder_outs_map [simp]: "recorder_outs (map CoRecorder os) = os"
  by (induction os) auto

definition idle_rm :: "rm \<Rightarrow> bool" where
  "idle_rm r \<longleftrightarrow> \<not> rm_is_recording r \<and> rm_ctx r = None \<and> \<not> rm_header_written r \<and> rm_file_number r = 0"

text \<open>The recorder from an idle state through a start, events and a stop.\<close>

lemma idle_start:
  assumes "idle_rm r" "start_works cfg env" "FileInfo (rc_path cfg) ''mp4'' (se_now (de_start env)) = Some f"
  shows "numbered cfg None (fst (RecorderStart cfg (de_start env) r))"
    "opened (snd (RecorderStart cfg (de_start env) r)) = [(rm_next r, GetFullPath f)]"
    "rm_next (fst (RecorderStart cfg (de_start env) r)) = rm_next r + 1"
    "rm_filepath (fst (RecorderStart cfg (de_start env) r)) = GetFullPath f"
    "rm_file_number (fst (RecorderStart cfg (de_start env) r)) = 0"
proof -
  have g: "good_env cfg (de_start env)" "rc_type cfg \<noteq> Snapshot" using assms(2) by (simp_all add: start_works_def good_env_def)
  show "numbered cfg None (fst (RecorderStart cfg (de_start env) r))" "rm_file_number (fst (RecorderStart cfg (de_start env) r)) = 0"
    using Start_good [OF g(1), of r] assms(1) by (simp_all add: numbered_def idle_rm_def)
  show "opened (snd (RecorderStart cfg (de_start env) r)) = [(rm_next r, GetFullPath f)]"
    "rm_next (fst (RecorderStart cfg (de_start env) r)) = rm_next r + 1"
    "rm_filepath (fst (RecorderStart cfg (de_start env) r)) = GetFullPath f"
    using Start_opens [OF g, where s = r] assms(3) by simp_all
qed

lemma stop_is_idle: "idle_rm (fst (RecorderStop cfg r))" "opened (snd (RecorderStop cfg r)) = []"
    "rm_next (fst (RecorderStop cfg r)) = rm_next r"
  by (simp_all add: idle_rm_def RecorderStop_def) (simp add: Close_sections)


definition session_events :: "rm_event list" where
  "session_events = [VideoBuffer (100, 0) ok_env ok_env, PacketReady key_packet True, VideoBuffer (140, 0) ok_env ok_env,
     PacketReady key_packet True, AudioBuffer, VideoBuffer (161, 0) ok_env ok_env, PacketReady key_packet True]"


text \<open>
  The answer to a start does not say whether it worked: when the file cannot be opened the
  manager is not recording, and the client is told that it is, with the path of a file that
  does not exist.
\<close>

theorem failed_start_claims_recording:
  assumes "co_recorder co = Some (cfg, r)" "\<not> rm_is_recording r" "rc_type cfg \<noteq> Snapshot" "\<not> se_open (de_start env)"
    and "FileInfo (rc_path cfg) ''mp4'' (se_now (de_start env)) = Some f" "se_alloc (de_start env)"
  shows "case StartRecordingCmd env ctx co of (co1, os) \<Rightarrow>
    last os = CoRecording (fst ctx) True (GetFullPath f) \<and> (\<exists>r1. co_recorder co1 = Some (cfg, r1) \<and> \<not> rm_is_recording r1)"
  using assms by (simp add: StartRecordingCmd_def Start_sections OpenContainer_def Let_def andthen_def split_beta)

theorem failed_start_claims_recording_witness:
  "case StartRecordingCmd (demo_env\<lparr>de_start := (de_start demo_env)\<lparr>se_open := False\<rparr>\<rparr>) (''1'', True) demo_conductor of (co1, os) \<Rightarrow>
    (\<exists>f. last os = CoRecording ''1'' True f) \<and> (\<exists>r1. co_recorder co1 = Some (demo_rm_cfg, r1) \<and> \<not> rm_is_recording r1)"
proof -
  let ?e = "demo_env\<lparr>de_start := (de_start demo_env)\<lparr>se_open := False\<rparr>\<rparr>"
  have "FileInfo (rc_path demo_rm_cfg) ''mp4'' (se_now (de_start ?e)) \<noteq> None" by code_simp
  then obtain f where f: "FileInfo (rc_path demo_rm_cfg) ''mp4'' (se_now (de_start ?e)) = Some f" by blast
  have "case StartRecordingCmd ?e (''1'', True) demo_conductor of (co1, os) \<Rightarrow>
    last os = CoRecording (fst (''1'', True)) True (GetFullPath f) \<and>
    (\<exists>r1. co_recorder co1 = Some (demo_rm_cfg, r1) \<and> \<not> rm_is_recording r1)"
    by (rule failed_start_claims_recording [where r = init_rm, OF _ _ _ _ f]) (simp_all add: demo_conductor_def demo_rm_cfg_def init_rm_def demo_env_def)
  then show ?thesis by (auto simp: split_beta)
qed

text \<open>
  Recording belongs to no client: when the command channel of any peer closes, the recording
  that another client has started is over.
\<close>

theorem any_closed_channel_ends_recording:
  assumes "co_recorder co = Some (cfg, r)" "\<not> rm_is_recording r" "start_works cfg env"
  shows "case CommandChannelClosed (fst (StartRecordingCmd env ctx co)) of (co1, os) \<Rightarrow>
    CoRecorder (CloseIo (rm_next r)) \<in> set os \<and> (\<exists>r1. co_recorder co1 = Some (cfg, r1) \<and> \<not> rm_is_recording r1)"
  using assms
  by (auto simp: StartRecordingCmd_def CommandChannelClosed_def Start_sections RecorderStop_def OpenContainer_def
      Close_sections start_works_def Let_def andthen_def split_beta)

theorem any_closed_channel_ends_recording_witness:
  "case CommandChannelClosed (fst (StartRecordingCmd demo_env (''1'', True) demo_conductor)) of (co1, os) \<Rightarrow>
    CoRecorder (CloseIo 0) \<in> set os"
proof -
  have "start_works demo_rm_cfg demo_env" "co_recorder demo_conductor = Some (demo_rm_cfg, init_rm)" "\<not> rm_is_recording init_rm"
    "rm_next init_rm = 0"
    by code_simp+
  with any_closed_channel_ends_recording [of demo_conductor demo_rm_cfg init_rm demo_env "(''1'', True)"] show ?thesis
    by (simp add: split_beta)
qed

end
