(* ===== verification/LiveKit.thy ===== *)
theory LiveKit
  imports RtcPeer
begin

text \<open>
  \<open>LiveKitService\<close> (src/src/signaling/livekit_service.cpp): signaling with a LiveKit server over
  one WebSocket: the target of the handshake, the connection, the queue of requests, the ping, and
  the publisher and subscriber peers. Boost.Beast, the server and nlohmann's JSON are outside the
  repository: what they answer are the arguments of the events, and the parser and the printer are
  passed in. The io_context runs the handlers of the socket and the timer, libwebrtc the callbacks
  of the peers; the queue is under a mutex.
\<close>

section \<open>The target of the handshake\<close>

definition is_alnum :: "char \<Rightarrow> bool" where
  "is_alnum c \<longleftrightarrow> (let n = (of_char c :: nat) in (48 \<le> n \<and> n \<le> 57) \<or> (65 \<le> n \<and> n \<le> 90) \<or> (97 \<le> n \<and> n \<le> 122))"

definition is_unreserved :: "char \<Rightarrow> bool" where
  "is_unreserved c \<longleftrightarrow> is_alnum c \<or> c = CHR ''-'' \<or> c = CHR ''_'' \<or> c = CHR ''.'' \<or> c = CHR 0x7E"

text \<open>A byte as two upper case hexadecimal digits, filled with 0.\<close>

definition hex_digit :: "nat \<Rightarrow> char" where
  "hex_digit n = ''0123456789ABCDEF'' ! n"

definition hex_byte :: "char \<Rightarrow> string" where
  "hex_byte c = [hex_digit (of_char c div 16), hex_digit (of_char c mod 16)]"

fun UrlEncode :: "string \<Rightarrow> string" where
  "UrlEncode [] = []"
| "UrlEncode (c # cs) = (if is_unreserved c then [c] else CHR ''%'' # hex_byte c) @ UrlEncode cs"

text \<open>The parameters come in the order of their keys.\<close>

fun target_params :: "bool \<Rightarrow> (string, string) omap \<Rightarrow> string" where
  "target_params first [] = []"
| "target_params first ((key, val) # params) =
     (if first then [] else ''&'') @ key @ ''='' @ UrlEncode val @ target_params False params"

definition BuildWebSocketTarget :: "string \<Rightarrow> (string, string) omap \<Rightarrow> string" where
  "BuildWebSocketTarget basePath params =
     basePath @ (if params \<noteq> [] then ''?'' @ target_params True params else [])"

text \<open>The reverse, as RFC 3986 has it.\<close>

definition hex_value :: "char \<Rightarrow> nat option" where
  "hex_value c = (let n = (of_char c :: nat) in
     if 48 \<le> n \<and> n \<le> 57 then Some (n - 48) else if 65 \<le> n \<and> n \<le> 70 then Some (n - 55)
     else if 97 \<le> n \<and> n \<le> 102 then Some (n - 87) else None)"

fun percent_decode :: "string \<Rightarrow> string option" where
  "percent_decode [] = Some []"
| "percent_decode (c # cs) =
     (if c \<noteq> CHR ''%'' then map_option ((#) c) (percent_decode cs)
      else case cs of
        a # b # cs' \<Rightarrow> (case (hex_value a, hex_value b) of
            (Some m, Some n) \<Rightarrow> map_option ((#) (char_of (16 * m + n))) (percent_decode cs')
          | _ \<Rightarrow> None)
      | _ \<Rightarrow> None)"

lemma hex_digit_value: "n < 16 \<Longrightarrow> hex_value (hex_digit n) = Some n \<and> is_alnum (hex_digit n)"
proof -
  assume "n < 16"
  then have "n \<in> {0, 1, 2, 3, 4, 5, 6, 7, 8, 9, 10, 11, 12, 13, 14, 15}" by (simp only: insert_iff empty_iff) presburger
  then show ?thesis by (auto simp: hex_digit_def hex_value_def is_alnum_def)
qed

lemma byte_bound: "(of_char c :: nat) < 256"
  by (metis char_of_char of_char_of mod_less_divisor zero_less_numeral)

lemma decode_byte: "percent_decode (CHR ''%'' # hex_byte c @ cs) = map_option ((#) c) (percent_decode cs)"
proof -
  have "(of_char c :: nat) div 16 < 16" "(of_char c :: nat) mod 16 < 16"
    using byte_bound [of c] by (simp_all add: div_less_iff_less_mult)
  moreover have "16 * ((of_char c :: nat) div 16) + of_char c mod 16 = of_char c" by simp
  ultimately show ?thesis
    using hex_digit_value by (simp add: hex_byte_def)
qed

lemma unreserved_percent: "is_unreserved c \<Longrightarrow> c \<noteq> CHR ''%''"
  by (auto simp: is_unreserved_def is_alnum_def)

text \<open>
  The encoding of a parameter can be undone, byte for byte, and uses unreserved characters and
  escapes only: no value, whatever bytes it has, can end its parameter or start another.
\<close>

theorem url_encode_round_trip:
  "percent_decode (UrlEncode s) = Some s \<and> list_all (\<lambda>c. is_unreserved c \<or> c = CHR ''%'') (UrlEncode s) \<and>
   set (UrlEncode s) \<inter> {CHR ''&'', CHR ''='', CHR ''?'', CHR ''#'', CHR ''/'', CHR '' ''} = {}"
proof -
  have "percent_decode (UrlEncode s) = Some s"
  proof (induction s)
    case (Cons c s)
    then show ?case
      using decode_byte [of c "UrlEncode s"] unreserved_percent [of c] by (simp del: percent_decode.simps(2)) simp
  qed simp
  moreover have all: "list_all (\<lambda>c. is_unreserved c \<or> c = CHR ''%'') (UrlEncode s)"
  proof (induction s)
    case (Cons c s)
    have "(of_char c :: nat) div 16 < 16" "(of_char c :: nat) mod 16 < 16"
    using byte_bound [of c] by (simp_all add: div_less_iff_less_mult)
    then have "is_alnum (hex_digit (of_char c div 16))" "is_alnum (hex_digit (of_char c mod 16))"
      using hex_digit_value by blast+
    with Cons show ?case by (simp add: hex_byte_def is_unreserved_def)
  qed simp
  moreover have "\<not> (is_unreserved c \<or> c = CHR ''%'')" if "c \<in> {CHR ''&'', CHR ''='', CHR ''?'', CHR ''#'', CHR ''/'', CHR '' ''}" for c
    using that by (auto simp: is_unreserved_def is_alnum_def)
  ultimately show ?thesis by (auto simp: list_all_iff)
qed

section \<open>The service\<close>

text \<open>
  \<open>lj_request\<close> prints an action and its message; \<open>lj_message\<close> reads one: \<open>None\<close> when the text
  is not JSON, \<open>Some None\<close> when a field is missing or no string, which throws. \<open>lj_join\<close> and
  \<open>lj_trickle\<close> read the inner messages (\<open>None\<close> throws).
\<close>

record lk_json =
  lj_request :: "string \<Rightarrow> string \<Rightarrow> string"
  lj_message :: "string \<Rightarrow> (string \<times> string) option option"
  lj_join :: "string \<Rightarrow> (string list \<times> string \<times> string) option"
  lj_trickle :: "string \<Rightarrow> (string \<times> ice) option"

text \<open>\<open>lk_stage\<close> is the asynchronous operation of the connection that is under way.\<close>

datatype lk_stage = LkIdle | LkResolving | LkConnecting | LkTlsHandshake | LkWsHandshake | LkReading

record lk_config =
  lc_tls :: bool
  lc_host :: string
  lc_port :: nat
  lc_room :: string
  lc_key :: string
  lc_uid :: string
  lc_ipc :: bool
  lc_no_audio :: bool
  lc_conductor :: bool

record lk =
  lk_stage :: lk_stage
  lk_open :: bool                    \<comment> \<open>ws.is_open()\<close>
  lk_queue :: "string list"
  lk_pub :: "nat option"
  lk_sub :: "nat option"
  lk_next :: nat                     \<comment> \<open>number of the next RtcPeer\<close>
  lk_ping :: bool                    \<comment> \<open>the timer is set\<close>
  lk_ended :: bool                   \<comment> \<open>an exception or a null pointer has ended the program\<close>

datatype lk_out =
    LkResolve string string
  | LkConnectTo | LkSni string | LkTls
  | LkHandshake string string
  | LkRead | LkClose
  | LkWrite string
  | LkCreatePeer nat bool "string list \<times> string \<times> string"    \<comment> \<open>publisher, ICE server\<close>
  | LkCreateOffer nat
  | LkSetRemoteSdp nat string string
  | LkSetRemoteIce nat ice
  | LkThrow | LkNullDeref

definition init_lk :: lk where
  "init_lk = \<lparr>lk_stage = LkIdle, lk_open = False, lk_queue = [], lk_pub = None, lk_sub = None, lk_next = 0,
     lk_ping = False, lk_ended = False\<rparr>"

definition LkConnect :: "lk_config \<Rightarrow> lk \<Rightarrow> lk \<times> lk_out list" where
  "LkConnect c s = (s\<lparr>lk_stage := LkResolving\<rparr>,
     [LkResolve (lc_host c) (to_digits (if lc_port c \<noteq> 0 then lc_port c else if lc_tls c then 443 else 80))])"

definition LkDisconnect :: "lk \<Rightarrow> lk \<times> lk_out list" where
  "LkDisconnect s = (s\<lparr>lk_ping := False, lk_open := False\<rparr>, if lk_open s then [LkClose] else [])"

definition LkOnResolve :: "bool \<Rightarrow> lk \<Rightarrow> lk \<times> lk_out list" where
  "LkOnResolve ok s = (if \<not> ok then (s\<lparr>lk_stage := LkIdle\<rparr>, []) else (s\<lparr>lk_stage := LkConnecting\<rparr>, [LkConnectTo]))"

definition handshake_target :: "lk_config \<Rightarrow> string" where
  "handshake_target c = BuildWebSocketTarget ''/rtc''
     (fold (\<lambda>(k, v). omap_put k v)
       [(''apiKey'', lc_key c), (''roomId'', lc_room c), (''userId'', lc_uid c), (''canSubscribe'', if lc_ipc c then ''1'' else ''0'')] [])"

text \<open>With TLS the SNI name is set first (\<open>sni\<close>: it can be), then the TLS handshake is made.\<close>

definition LkOnConnect :: "lk_config \<Rightarrow> bool \<Rightarrow> bool \<Rightarrow> lk \<Rightarrow> lk \<times> lk_out list" where
  "LkOnConnect c ok sni s =
     (if \<not> ok then (s\<lparr>lk_stage := LkIdle\<rparr>, [])
      else if \<not> lc_tls c then (s\<lparr>lk_stage := LkWsHandshake\<rparr>, [LkHandshake (lc_host c) (handshake_target c)])
      else if \<not> sni then (s\<lparr>lk_stage := LkIdle\<rparr>, [])
      else (s\<lparr>lk_stage := LkTlsHandshake\<rparr>, [LkSni (lc_host c), LkTls]))"

definition LkOnTls :: "lk_config \<Rightarrow> bool \<Rightarrow> lk \<Rightarrow> lk \<times> lk_out list" where
  "LkOnTls c ok s =
     (if \<not> ok then (s\<lparr>lk_stage := LkIdle\<rparr>, [])
      else (s\<lparr>lk_stage := LkWsHandshake\<rparr>, [LkHandshake (lc_host c) (handshake_target c)]))"

definition LkReadNext :: "lk \<Rightarrow> lk \<times> lk_out list" where
  "LkReadNext s = (if \<not> lk_open s then (s\<lparr>lk_stage := LkIdle\<rparr>, []) else (s\<lparr>lk_stage := LkReading\<rparr>, [LkRead]))"

definition ScheduleNextPing :: "lk \<Rightarrow> lk \<times> lk_out list" where
  "ScheduleNextPing s = (s\<lparr>lk_ping := True\<rparr>, [])"

definition LkOnHandshake :: "bool \<Rightarrow> lk \<Rightarrow> lk \<times> lk_out list" where
  "LkOnHandshake ok s =
     (if \<not> ok then (s\<lparr>lk_stage := LkIdle\<rparr>, []) else andthen (LkReadNext (s\<lparr>lk_open := True\<rparr>)) ScheduleNextPing)"

definition LkDoWrite :: "lk \<Rightarrow> lk \<times> lk_out list" where
  "LkDoWrite s = (s, case lk_queue s of [] \<Rightarrow> [] | r # rs \<Rightarrow> [LkWrite r])"

definition Write :: "lk_json \<Rightarrow> string \<Rightarrow> string \<Rightarrow> lk \<Rightarrow> lk \<times> lk_out list" where
  "Write js action message s =
     (let s1 = s\<lparr>lk_queue := lk_queue s @ [lj_request js action message]\<rparr> in
      if lk_queue s = [] then LkDoWrite s1 else (s1, []))"

definition LkOnWritten :: "bool \<Rightarrow> lk \<Rightarrow> lk \<times> lk_out list" where
  "LkOnWritten ok s =
     (if lk_queue s = [] then (s, [])
      else andthen (if ok then (s, []) else LkDisconnect (s\<lparr>lk_open := False\<rparr>)) (\<lambda>s1. LkDoWrite (s1\<lparr>lk_queue := tl (lk_queue s1)\<rparr>)))"

definition LkOnPing :: "lk_json \<Rightarrow> lk \<Rightarrow> lk \<times> lk_out list" where
  "LkOnPing js s = (if \<not> lk_ping s then (s, []) else andthen (Write js ''ping'' [] (s\<lparr>lk_ping := False\<rparr>)) ScheduleNextPing)"

definition LkEnd :: "lk_out \<Rightarrow> lk \<Rightarrow> lk \<times> lk_out list" where
  "LkEnd out s = (s\<lparr>lk_ended := True\<rparr>, [out])"

definition OnRemoteIce :: "lk_json \<Rightarrow> string \<Rightarrow> lk \<Rightarrow> lk \<times> lk_out list" where
  "OnRemoteIce js message s =
     (case lj_trickle js message of
        None \<Rightarrow> LkEnd LkThrow s
      | Some (target, i) \<Rightarrow>
          if target = ''PUBLISHER'' then (case lk_pub s of None \<Rightarrow> LkEnd LkNullDeref s | Some p \<Rightarrow> (s, [LkSetRemoteIce p i]))
          else if target = ''SUBSCRIBER'' then (case lk_sub s of None \<Rightarrow> LkEnd LkNullDeref s | Some p \<Rightarrow> (s, [LkSetRemoteIce p i]))
          else (s, []))"

text \<open>\<open>pub_ok\<close>, \<open>sub_ok\<close>: whether \<open>CreatePeerConnection\<close> succeeds.\<close>

definition OnJoin :: "lk_config \<Rightarrow> lk_json \<Rightarrow> string \<Rightarrow> bool \<Rightarrow> bool \<Rightarrow> lk \<Rightarrow> lk \<times> lk_out list" where
  "OnJoin c js message pub_ok sub_ok s =
     (if \<not> lc_conductor c then (s, [])
      else case lj_join js message of
        None \<Rightarrow> LkEnd LkThrow s
      | Some server \<Rightarrow>
          let n = lk_next s;
              s1 = s\<lparr>lk_pub := (if pub_ok then Some n else None), lk_sub := (if sub_ok then Some (n + 1) else None), lk_next := n + 2\<rparr>
          in andthen (andthen (andthen (s1, (if pub_ok then [LkCreatePeer n True server] else []) @
                                            (if sub_ok then [LkCreatePeer (n + 1) False server] else []))
               (Write js ''addVideoTrack'' (lc_uid c)))
               (\<lambda>s2. if lc_no_audio c then (s2, []) else Write js ''addAudioTrack'' (lc_uid c) s2))
               (\<lambda>s3. if pub_ok then (s3, [LkCreateOffer n]) else LkEnd LkNullDeref s3))"

definition LkOnMessage :: "lk_config \<Rightarrow> lk_json \<Rightarrow> string \<Rightarrow> bool \<Rightarrow> bool \<Rightarrow> lk \<Rightarrow> lk \<times> lk_out list" where
  "LkOnMessage c js req pub_ok sub_ok s =
     (case lj_message js req of
        None \<Rightarrow> (s, [])
      | Some None \<Rightarrow> LkEnd LkThrow s
      | Some (Some (action, message)) \<Rightarrow>
          if action = ''join'' then OnJoin c js message pub_ok sub_ok s
          else if action = ''offer'' \<and> lk_sub s \<noteq> None then (s, [LkSetRemoteSdp (the (lk_sub s)) message ''offer''])
          else if action = ''answer'' \<and> lk_pub s \<noteq> None then (s, [LkSetRemoteSdp (the (lk_pub s)) message ''answer''])
          else if action = ''trickle'' then OnRemoteIce js message s
          else if action = ''leave'' then LkDisconnect s
          else (s, []))"

text \<open>The handler of a read: \<open>None\<close> is an error.\<close>

definition LkOnRead :: "lk_config \<Rightarrow> lk_json \<Rightarrow> string option \<Rightarrow> bool \<Rightarrow> bool \<Rightarrow> lk \<Rightarrow> lk \<times> lk_out list" where
  "LkOnRead c js req pub_ok sub_ok s =
     (case req of
        None \<Rightarrow> LkDisconnect (s\<lparr>lk_stage := LkIdle, lk_open := False\<rparr>)
      | Some r \<Rightarrow> andthen (LkOnMessage c js r pub_ok sub_ok s) (\<lambda>s1. if lk_ended s1 then (s1, []) else LkReadNext s1))"

text \<open>The callbacks of a peer: \<open>publisher\<close> says whose it is; \<open>type\<close> is the action.\<close>

definition LkLocalSdp :: "lk_json \<Rightarrow> string \<Rightarrow> string \<Rightarrow> lk \<Rightarrow> lk \<times> lk_out list" where
  "LkLocalSdp js sdp type s = Write js type sdp s"

definition LkLocalIce :: "lk_json \<Rightarrow> bool \<Rightarrow> string \<Rightarrow> lk \<Rightarrow> lk \<times> lk_out list" where
  "LkLocalIce js publisher candidate s = Write js (if publisher then ''tricklePublisher'' else ''trickleSubscriber'') candidate s"

datatype lk_event =
    LeConnect | LeResolved bool | LeConnected bool bool | LeTls bool | LeHandshake bool
  | LeRead "string option" bool bool | LeWritten bool | LePing
  | LeLocalSdp string string | LeLocalIce bool string | LeDisconnect

fun lk_do :: "lk_config \<Rightarrow> lk_json \<Rightarrow> lk \<Rightarrow> lk_event \<Rightarrow> lk \<times> lk_out list" where
  "lk_do c js s LeConnect = LkConnect c s"
| "lk_do c js s (LeResolved ok) = (if lk_stage s = LkResolving then LkOnResolve ok s else (s, []))"
| "lk_do c js s (LeConnected ok sni) = (if lk_stage s = LkConnecting then LkOnConnect c ok sni s else (s, []))"
| "lk_do c js s (LeTls ok) = (if lk_stage s = LkTlsHandshake then LkOnTls c ok s else (s, []))"
| "lk_do c js s (LeHandshake ok) = (if lk_stage s = LkWsHandshake then LkOnHandshake ok s else (s, []))"
| "lk_do c js s (LeRead req pub_ok sub_ok) = (if lk_stage s = LkReading then LkOnRead c js req pub_ok sub_ok s else (s, []))"
| "lk_do c js s (LeWritten ok) = LkOnWritten ok s"
| "lk_do c js s LePing = LkOnPing js s"
| "lk_do c js s (LeLocalSdp sdp type) = (if lk_pub s = None \<and> lk_sub s = None then (s, []) else LkLocalSdp js sdp type s)"
| "lk_do c js s (LeLocalIce pub candidate) =
     (if (if pub then lk_pub s else lk_sub s) = None then (s, []) else LkLocalIce js pub candidate s)"
| "lk_do c js s LeDisconnect = LkDisconnect s"

definition lk_step :: "lk_config \<Rightarrow> lk_json \<Rightarrow> lk \<Rightarrow> lk_event \<Rightarrow> lk \<times> lk_out list" where
  "lk_step c js s e = (if lk_ended s then (s, []) else lk_do c js s e)"

lemmas lk_ops = LkConnect_def LkDisconnect_def LkOnResolve_def LkOnConnect_def LkOnTls_def LkReadNext_def
  ScheduleNextPing_def LkOnHandshake_def LkDoWrite_def LkOnWritten_def LkOnPing_def LkEnd_def OnRemoteIce_def OnJoin_def
  LkOnMessage_def LkOnRead_def LkLocalSdp_def LkLocalIce_def

section \<open>Requests are sent in order\<close>

text \<open>The requests an event makes.\<close>

fun requests_of :: "lk_config \<Rightarrow> lk_json \<Rightarrow> lk \<Rightarrow> lk_event \<Rightarrow> string list" where
  "requests_of c js s (LeLocalSdp sdp type) = (if lk_pub s = None \<and> lk_sub s = None then [] else [lj_request js type sdp])"
| "requests_of c js s (LeLocalIce pub candidate) =
     (if (if pub then lk_pub s else lk_sub s) = None then []
      else [lj_request js (if pub then ''tricklePublisher'' else ''trickleSubscriber'') candidate])"
| "requests_of c js s LePing = (if lk_ping s then [lj_request js ''ping'' []] else [])"
| "requests_of c js s (LeRead (Some req) pub_ok sub_ok) =
     (case lj_message js req of
        Some (Some (action, message)) \<Rightarrow>
          if lk_stage s = LkReading \<and> action = ''join'' \<and> lc_conductor c \<and> lj_join js message \<noteq> None
          then lj_request js ''addVideoTrack'' (lc_uid c) #
            (if lc_no_audio c then [] else [lj_request js ''addAudioTrack'' (lc_uid c)])
          else []
      | _ \<Rightarrow> [])"
| "requests_of c js s e = []"

fun all_requests :: "lk_config \<Rightarrow> lk_json \<Rightarrow> lk \<Rightarrow> lk_event list \<Rightarrow> string list" where
  "all_requests c js s [] = []"
| "all_requests c js s (e # es) =
     (if lk_ended s then [] else requests_of c js s e) @ all_requests c js (fst (lk_step c js s e)) es"

fun written :: "lk_out list \<Rightarrow> string list" where
  "written [] = []"
| "written (LkWrite r # os) = r # written os"
| "written (_ # os) = written os"

lemma written_append [simp]: "written (xs @ ys) = written xs @ written ys"
  by (induction xs rule: written.induct) simp_all

text \<open>A piece of a handler that makes the requests \<open>rs\<close>: what it writes, and the queue behind the request in flight.\<close>

definition makes :: "string list \<Rightarrow> lk \<Rightarrow> lk \<times> lk_out list \<Rightarrow> bool" where
  "makes rs s r \<longleftrightarrow> drop 1 (lk_queue s) @ rs = written (snd r) @ drop 1 (lk_queue (fst r))"

lemma makes_andthen: "makes rs s r \<Longrightarrow> makes rs' (fst r) (f (fst r)) \<Longrightarrow> makes (rs @ rs') s (andthen r f)"
  by (simp add: makes_def flip: append_assoc) (simp add: makes_def)

lemma makes_nothing: "lk_queue s' = lk_queue s \<Longrightarrow> written os = [] \<Longrightarrow> makes [] s (s', os)"
  by (simp add: makes_def)

lemma makes_Write: "lk_queue s' = lk_queue s \<Longrightarrow> makes [lj_request js a m] s (Write js a m s')"
  by (cases "lk_queue s") (simp_all add: makes_def Write_def LkDoWrite_def Let_def)

lemma makes_OnWritten: "makes [] s (LkOnWritten ok s)"
proof (cases "lk_queue s")
  case (Cons r rs)
  then show ?thesis by (cases rs) (simp_all add: makes_def LkOnWritten_def LkDisconnect_def LkDoWrite_def)
qed (simp add: makes_def LkOnWritten_def)

lemma makes_same: "lk_queue s = lk_queue s' \<Longrightarrow> makes rs s r = makes rs s' r"
  by (simp add: makes_def)

lemma makes_OnJoin:
  "makes (case lj_join js m of None \<Rightarrow> [] | Some server \<Rightarrow> if lc_conductor c then lj_request js ''addVideoTrack'' (lc_uid c) #
      (if lc_no_audio c then [] else [lj_request js ''addAudioTrack'' (lc_uid c)]) else []) s (OnJoin c js m pub_ok sub_ok s)"
proof (cases "lc_conductor c \<and> lj_join js m \<noteq> None")
  case True
  then obtain server where server: "lj_join js m = Some server" by auto
  let ?s1 = "s\<lparr>lk_pub := (if pub_ok then Some (lk_next s) else None), lk_sub := (if sub_ok then Some (lk_next s + 1) else None), lk_next := lk_next s + 2\<rparr>"
  let ?r1 = "(?s1, (if pub_ok then [LkCreatePeer (lk_next s) True server] else []) @ (if sub_ok then [LkCreatePeer (lk_next s + 1) False server] else []))"
  let ?r2 = "andthen ?r1 (Write js ''addVideoTrack'' (lc_uid c))"
  let ?r3 = "andthen ?r2 (\<lambda>s2. if lc_no_audio c then (s2, []) else Write js ''addAudioTrack'' (lc_uid c) s2)"
  have "makes [] s ?r1" by (rule makes_nothing) simp_all
  then have "makes ([] @ [lj_request js ''addVideoTrack'' (lc_uid c)]) s ?r2"
    by (rule makes_andthen) (simp add: makes_Write)
  then have "makes (([] @ [lj_request js ''addVideoTrack'' (lc_uid c)]) @
      (if lc_no_audio c then [] else [lj_request js ''addAudioTrack'' (lc_uid c)])) s ?r3"
    by (rule makes_andthen) (simp add: makes_Write makes_nothing)
  then have "makes ((([] @ [lj_request js ''addVideoTrack'' (lc_uid c)]) @
      (if lc_no_audio c then [] else [lj_request js ''addAudioTrack'' (lc_uid c)])) @ []) s
      (andthen ?r3 (\<lambda>s3. if pub_ok then (s3, [LkCreateOffer (lk_next s)]) else LkEnd LkNullDeref s3))"
    by (rule makes_andthen) (simp add: makes_nothing LkEnd_def)
  with True server show ?thesis by (simp add: OnJoin_def Let_def)
qed (auto simp: OnJoin_def LkEnd_def makes_def split: option.split)

lemma makes_OnRemoteIce: "makes [] s (OnRemoteIce js m s)"
  by (auto simp: OnRemoteIce_def LkEnd_def makes_def split: option.split)

lemma makes_OnMessage:
  "makes (requests_of c js (s\<lparr>lk_stage := LkReading\<rparr>) (LeRead (Some req) pub_ok sub_ok)) s (LkOnMessage c js req pub_ok sub_ok s)"
proof (cases "lj_message js req")
  case (Some fields)
  show ?thesis
  proof (cases fields)
    case None
    with Some show ?thesis by (simp add: LkOnMessage_def LkEnd_def makes_def)
  next
    case f: (Some am)
    obtain a m where am: "am = (a, m)" by (cases am)
    show ?thesis
    proof (cases "a = ''join''")
      case True
      with makes_OnJoin [where js = js and m = m and c = c and s = s and pub_ok = pub_ok and sub_ok = sub_ok] Some f am show ?thesis
        by (cases "lj_join js m"; cases "the (lj_join js m)") (simp_all add: LkOnMessage_def)
    next
      case False
      with Some f am makes_OnRemoteIce [where s = s and js = js and m = m] show ?thesis
        by (simp add: LkOnMessage_def LkDisconnect_def makes_nothing)
    qed
  qed
qed (simp add: LkOnMessage_def makes_def)

lemma makes_step:
  assumes "\<not> lk_ended s"
  shows "makes (requests_of c js s e) s (lk_step c js s e)"
proof (cases e)
  case (LeRead req pub_ok sub_ok)
  show ?thesis
  proof (cases "lk_stage s = LkReading")
    case reading: True
    then have same: "s\<lparr>lk_stage := LkReading\<rparr> = s" by simp
    show ?thesis
    proof (cases req)
      case (Some r)
      have "makes (requests_of c js s (LeRead (Some r) pub_ok sub_ok) @ []) s
          (andthen (LkOnMessage c js r pub_ok sub_ok s) (\<lambda>s1. if lk_ended s1 then (s1, []) else LkReadNext s1))"
        using makes_OnMessage [of c js s r pub_ok sub_ok]
        by (intro makes_andthen) (simp_all add: same LkReadNext_def makes_nothing)
      with LeRead Some reading assms show ?thesis by (simp add: lk_step_def LkOnRead_def)
    qed (use LeRead reading assms in \<open>simp add: lk_step_def LkOnRead_def LkDisconnect_def makes_nothing\<close>)
  next
    case False
    with LeRead assms show ?thesis
      by (cases req) (auto simp: lk_step_def makes_def split: option.splits)
  qed
next
  case LePing
  show ?thesis
  proof (cases "lk_ping s")
    case True
    have "makes ([lj_request js ''ping'' []] @ []) s (andthen (Write js ''ping'' [] (s\<lparr>lk_ping := False\<rparr>)) ScheduleNextPing)"
      by (rule makes_andthen) (simp_all add: makes_Write ScheduleNextPing_def makes_nothing)
    with True LePing assms show ?thesis by (simp add: lk_step_def LkOnPing_def)
  qed (use LePing assms in \<open>simp add: lk_step_def LkOnPing_def makes_def\<close>)
next
  case (LeWritten ok)
  with makes_OnWritten assms show ?thesis by (simp add: lk_step_def)
next
  case (LeLocalSdp sdp type)
  with assms makes_Write [of s s] show ?thesis by (simp add: lk_step_def LkLocalSdp_def makes_nothing)
next
  case (LeLocalIce pub candidate)
  with assms makes_Write [of s s] show ?thesis by (simp add: lk_step_def LkLocalIce_def makes_nothing)
qed (use assms in \<open>simp_all add: lk_step_def makes_def LkConnect_def LkOnResolve_def LkOnConnect_def LkOnTls_def
    LkOnHandshake_def LkReadNext_def ScheduleNextPing_def LkDisconnect_def\<close>)

lemma makes_run: "makes (all_requests c js s es) s (run (lk_step c js) s es)"
proof (induction es arbitrary: s)
  case (Cons e es)
  have step: "makes (if lk_ended s then [] else requests_of c js s e) s (lk_step c js s e)"
    using makes_step [of s c js e] by (simp add: lk_step_def makes_nothing)
  have "makes ((if lk_ended s then [] else requests_of c js s e) @ all_requests c js (fst (lk_step c js s e)) es) s
      (andthen (lk_step c js s e) (\<lambda>s1. run (lk_step c js) s1 es))"
    using makes_andthen [OF step, of "all_requests c js (fst (lk_step c js s e)) es" "\<lambda>s1. run (lk_step c js) s1 es"] Cons.IH by blast
  then show ?case by (simp add: makes_def)
qed (simp add: makes_def)

text \<open>
  Requests reach the socket in the order in which they are made, from whatever thread, each
  once: at any time what has been given to the socket, followed by the queue behind the request
  in flight, is the list of requests.
\<close>

theorem requests_are_sent_in_order:
  "written (snd (run (lk_step c js) init_lk es)) @ drop 1 (lk_queue (fst (run (lk_step c js) init_lk es))) =
   all_requests c js init_lk es"
  using makes_run [of c js init_lk es] by (simp add: makes_def init_lk_def)

section \<open>The end of a connection\<close>

fun connects :: "lk_out \<Rightarrow> bool" where
  "connects (LkResolve h p) = True"
| "connects LkConnectTo = True"
| "connects LkTls = True"
| "connects (LkHandshake h t) = True"
| "connects LkRead = True"
| "connects _ = False"

lemma Write_quiet: "lk_stage (fst (Write js a m s)) = lk_stage s" "list_all (\<lambda>x. \<not> connects x) (snd (Write js a m s))"
  by (auto simp: Write_def LkDoWrite_def Let_def split: list.split)

lemma idle_step:
  assumes "lk_stage s = LkIdle" "e \<noteq> LeConnect"
  shows "lk_stage (fst (lk_step c js s e)) = LkIdle" "list_all (\<lambda>x. \<not> connects x) (snd (lk_step c js s e))"
  using assms Write_quiet
  by (cases e; auto simp: lk_step_def LkOnWritten_def LkDoWrite_def LkOnPing_def ScheduleNextPing_def LkLocalSdp_def LkLocalIce_def
      LkDisconnect_def split: list.split)+

text \<open>
  docs/development/architecture.md and signaling_service.h say that every service reconnects on its own. This one does
  not: once the socket has failed, or the room has been left, nothing short of a new call of
  \<open>Connect\<close>, which nobody makes, resolves, connects, shakes hands or reads again.
\<close>

theorem ended_connection_stays_ended:
  assumes "lk_stage s = LkReading" "LeConnect \<notin> set es"
  shows "list_all (\<lambda>x. \<not> connects x) (snd (run (lk_step c js) s (LeRead None pub_ok sub_ok # es)))"
proof -
  have idle: "list_all (\<lambda>x. \<not> connects x) (snd (run (lk_step c js) s es))"
    if "lk_stage s = LkIdle" "LeConnect \<notin> set es" for s es
    using that
  proof (induction es arbitrary: s)
    case (Cons e es)
    then have "e \<noteq> LeConnect" by auto
    with idle_step [OF Cons.prems(1), of e c js] Cons show ?case by simp
  qed simp
  show ?thesis
  proof (cases "lk_ended s")
    case True
    then have "run (lk_step c js) s fs = (s, [])" for fs by (induction fs) (simp_all add: lk_step_def prod_eq_iff)
    then show ?thesis by simp
  next
    case False
    then have "lk_step c js s (LeRead None pub_ok sub_ok) = (s\<lparr>lk_stage := LkIdle, lk_open := False, lk_ping := False\<rparr>, [])"
      using assms(1) by (simp add: lk_step_def LkOnRead_def LkDisconnect_def)
    with idle [of "s\<lparr>lk_stage := LkIdle, lk_open := False, lk_ping := False\<rparr>" es] assms(2) show ?thesis by simp
  qed
qed

definition demo_lk_json :: lk_json where
  "demo_lk_json = \<lparr>lj_request = (\<lambda>a m. a @ ''|'' @ m), lj_message = (\<lambda>m. Some (Some (m, m))),
     lj_join = (\<lambda>m. Some ([], [], [])), lj_trickle = (\<lambda>m. Some (''PUBLISHER'', ([], 0, m)))\<rparr>"

definition demo_lk :: lk_config where
  "demo_lk = \<lparr>lc_tls = False, lc_host = ''h'', lc_port = 7880, lc_room = ''lab'', lc_key = ''k&1'', lc_uid = ''pi'', lc_ipc = True,
     lc_no_audio = True, lc_conductor = True\<rparr>"

definition reading_lk :: lk where
  "reading_lk = fst (run (lk_step demo_lk demo_lk_json) init_lk [LeConnect, LeResolved True, LeConnected True True, LeHandshake True])"

lemma reading_lk: "lk_stage reading_lk = LkReading" "lk_pub reading_lk = None" "\<not> lk_ended reading_lk"
  by (simp_all add: reading_lk_def init_lk_def demo_lk_def lk_step_def LkConnect_def LkOnResolve_def LkOnConnect_def
      LkOnHandshake_def LkReadNext_def ScheduleNextPing_def)

theorem ended_connection_stays_ended_witness:
  "lk_stage reading_lk = LkReading \<and>
   list_all (\<lambda>x. \<not> connects x) (snd (run (lk_step demo_lk demo_lk_json) reading_lk [LeRead None True True, LePing, LeWritten False]))"
  using ended_connection_stays_ended [of reading_lk "[LePing, LeWritten False]"] reading_lk by simp

text \<open>A candidate that arrives before \<open>join\<close> is given to a peer that does not exist.\<close>

theorem candidate_before_join_is_fatal:
  "let s = fst (lk_step c js reading_lk (LeRead (Some req) True True)) in
   lj_message js req = Some (Some (''trickle'', m)) \<and> lj_trickle js m = Some (''PUBLISHER'', i) \<longrightarrow> lk_ended s"
  by (auto simp: reading_lk lk_step_def LkOnRead_def LkOnMessage_def OnRemoteIce_def LkEnd_def Let_def)

end
