(* ===== verification/Subject.thy ===== *)
theory Subject
  imports Prelude
begin

text \<open>
  \<open>Subject\<close> and \<open>Subscription\<close> (src/src/common/interface/subject.h): the observers of a
  capturer. An observer is the identity of its shared pointer. \<open>Next\<close> copies the observers under
  the lock and calls them without it, so it is one step for the copy and one for each call; one
  thread, the capturer's, runs it. The observers may change between two of these steps.
\<close>

record 'v subject =
  sj_alive :: bool
  sj_observers :: "nat list"
  sj_fresh :: nat
  sj_snapshot :: "(nat \<times> 'v) list"

definition SubjectInit :: "'v subject" where
  "SubjectInit = \<lparr>sj_alive = True, sj_observers = [], sj_fresh = 0, sj_snapshot = []\<rparr>"

text \<open>What \<open>Subscribe\<close> returns owns the function that unsubscribes; \<open>None\<close> is an empty function.\<close>

type_synonym subscription = "nat option"

definition Subscribe :: "'v subject \<Rightarrow> subscription \<times> 'v subject" where
  "Subscribe s =
     (Some (sj_fresh s), s\<lparr>sj_observers := sj_observers s @ [sj_fresh s], sj_fresh := sj_fresh s + 1\<rparr>)"

definition Unsubscribe :: "nat \<Rightarrow> 'v subject \<Rightarrow> 'v subject" where
  "Unsubscribe i s =
     (if \<not> sj_alive s then s else s\<lparr>sj_observers := filter (\<lambda>j. j \<noteq> i) (sj_observers s)\<rparr>)"

text \<open>The destructor of a subscription runs its function; the default move assignment does not.\<close>

definition SubscriptionDestroy :: "subscription \<Rightarrow> 'v subject \<Rightarrow> 'v subject" where
  "SubscriptionDestroy sub s = (case sub of None \<Rightarrow> s | Some i \<Rightarrow> Unsubscribe i s)"

definition SubscriptionAssign :: "subscription \<Rightarrow> subscription \<Rightarrow> subscription" where
  "SubscriptionAssign old new = new"

definition NextSnapshot :: "'v \<Rightarrow> 'v subject \<Rightarrow> 'v subject" where
  "NextSnapshot v s =
     (if sj_snapshot s \<noteq> [] then s else s\<lparr>sj_snapshot := map (\<lambda>i. (i, v)) (sj_observers s)\<rparr>)"

definition NextCall :: "'v subject \<Rightarrow> 'v subject \<times> (nat \<times> 'v) list" where
  "NextCall s =
     (case sj_snapshot s of [] \<Rightarrow> (s, []) | c # rest \<Rightarrow> (s\<lparr>sj_snapshot := rest\<rparr>, [c]))"

definition ObserverCount :: "'v subject \<Rightarrow> nat" where
  "ObserverCount s = length (sj_observers s)"

datatype 'v subj_event = EvSubscribe | EvUnsubscribe nat | EvNext 'v | EvCall

fun subj_step :: "'v subject \<Rightarrow> 'v subj_event \<Rightarrow> 'v subject \<times> (nat \<times> 'v) list" where
  "subj_step s EvSubscribe = (snd (Subscribe s), [])"
| "subj_step s (EvUnsubscribe i) = (Unsubscribe i s, [])"
| "subj_step s (EvNext v) = (NextSnapshot v s, [])"
| "subj_step s EvCall = NextCall s"

lemmas subj_defs = Subscribe_def Unsubscribe_def NextSnapshot_def NextCall_def

subsection \<open>Observers are told apart\<close>

definition subj_inv :: "'v subject \<Rightarrow> bool" where
  "subj_inv s \<longleftrightarrow> distinct (sj_observers s) \<and> (\<forall>i \<in> set (sj_observers s). i < sj_fresh s) \<and>
     distinct (map fst (sj_snapshot s)) \<and> (\<forall>i \<in> fst ` set (sj_snapshot s). i < sj_fresh s)"

lemma subj_inv_step: "subj_inv s \<Longrightarrow> subj_inv (fst (subj_step s e))"
  by (cases e) (auto simp: subj_inv_def subj_defs comp_def split: list.splits)

text \<open>Once an observer is gone, and no \<open>Next\<close> that has copied it still runs, it is never called.\<close>

definition gone :: "nat \<Rightarrow> 'v subject \<Rightarrow> bool" where
  "gone i s \<longleftrightarrow> i < sj_fresh s \<and> i \<notin> set (sj_observers s) \<and> i \<notin> fst ` set (sj_snapshot s)"

interpretation subj: quiet_machine "subj_step :: 'v subject \<Rightarrow> _" subj_inv "gone i" "\<lambda>c. fst c = i"
  for i :: nat
proof unfold_locales
  show "subj_inv s \<Longrightarrow> subj_inv (fst (subj_step s e))" for s :: "'v subject" and e
    by (rule subj_inv_step)
  show "gone i (fst (subj_step s e))" if "subj_inv s" "gone i s" for s :: "'v subject" and e
    using that by (cases e) (auto simp: gone_def subj_defs split: list.splits)
  show "list_all (\<lambda>c. fst c \<noteq> i) (snd (subj_step s e))" if "subj_inv s" "gone i s" for s :: "'v subject" and e
    using that by (cases e) (auto simp: gone_def NextCall_def split: list.splits)
qed

text \<open>
  An observer that unsubscribes while no \<open>Next\<close> runs is never called again, whatever happens later.
\<close>

theorem unsubscribed_is_not_called:
  assumes "s = fst (run subj_step SubjectInit es)" "sj_snapshot s = []" "i < sj_fresh s"
  shows "list_all (\<lambda>c. fst c \<noteq> i) (snd (run subj_step s (EvUnsubscribe i # later)))"
proof -
  have alive: "sj_alive (fst (run subj_step t xs)) = sj_alive t" for t :: "'v subject" and xs
  proof (induction xs arbitrary: t)
    case (Cons e xs)
    then show ?case by (cases e) (auto simp: subj_defs split: list.splits)
  qed simp
  have "subj_inv s"
    using subj.inv_run [of SubjectInit es] assms(1) by (simp add: subj_inv_def SubjectInit_def)
  moreover have "gone i (Unsubscribe i s)"
    using assms(2,3) alive [of SubjectInit es] assms(1) by (auto simp: gone_def Unsubscribe_def SubjectInit_def)
  ultimately show ?thesis
    using subj.silent_run [of "Unsubscribe i s" i later] subj_inv_step [of s "EvUnsubscribe i"] by simp
qed

theorem unsubscribed_is_not_called_witness:
  "list_all (\<lambda>c. fst c \<noteq> 0) (snd (run subj_step
     (fst (run subj_step SubjectInit [EvSubscribe, EvSubscribe, EvNext ''a'', EvCall, EvCall]))
     (EvUnsubscribe 0 # [EvNext ''b'', EvCall, EvCall])))"
  by (rule unsubscribed_is_not_called [OF refl]) (simp_all add: subj_defs SubjectInit_def)

text \<open>Between the copy and the call, an observer that has unsubscribed is still called.\<close>

lemma late_call:
  "snd (run subj_step SubjectInit [EvSubscribe, EvNext v, EvUnsubscribe 0, EvCall]) = [(0, v)]"
  by (simp add: subj_defs SubjectInit_def)

subsection \<open>Every observer gets every value, once and in order\<close>

fun published :: "'v subject \<Rightarrow> 'v subj_event list \<Rightarrow> 'v list" where
  "published s [] = []"
| "published s (e # es) =
     (case e of EvNext v \<Rightarrow> if sj_snapshot s = [] then [v] else [] | _ \<Rightarrow> []) @ published (fst (subj_step s e)) es"

definition calls_of :: "nat \<Rightarrow> (nat \<times> 'v) list \<Rightarrow> 'v list" where
  "calls_of i cs = map snd (filter (\<lambda>c. fst c = i) cs)"

lemma calls_of_simps [simp]:
  "calls_of i [] = []" "calls_of i (xs @ ys) = calls_of i xs @ calls_of i ys"
  "calls_of i (c # cs) = (if fst c = i then [snd c] else []) @ calls_of i cs"
  by (simp_all add: calls_of_def)

lemma calls_of_snapshot: "distinct xs \<Longrightarrow> calls_of i (map (\<lambda>j. (j, v)) xs) = (if i \<in> set xs then [v] else [])"
  by (induction xs) auto

lemma observer_step:
  assumes "subj_inv s" "i \<in> set (sj_observers s)" "e \<noteq> EvUnsubscribe i"
  shows "i \<in> set (sj_observers (fst (subj_step s e)))"
    and "calls_of i (snd (subj_step s e)) @ calls_of i (sj_snapshot (fst (subj_step s e))) =
         calls_of i (sj_snapshot s) @ published s [e]"
  using assms by (cases e; auto simp: subj_defs subj_inv_def calls_of_snapshot split: list.splits)+

lemma observer_calls:
  assumes "subj_inv s" "i \<in> set (sj_observers s)" "EvUnsubscribe i \<notin> set es"
  shows "calls_of i (snd (run subj_step s es)) @ calls_of i (sj_snapshot (fst (run subj_step s es))) =
         calls_of i (sj_snapshot s) @ published s es"
  using assms
proof (induction es arbitrary: s)
  case (Cons e es)
  then have e: "e \<noteq> EvUnsubscribe i" "EvUnsubscribe i \<notin> set es" by auto
  have "calls_of i (snd (run subj_step s (e # es))) @ calls_of i (sj_snapshot (fst (run subj_step s (e # es)))) =
      calls_of i (snd (subj_step s e)) @ calls_of i (sj_snapshot (fst (subj_step s e))) @ published (fst (subj_step s e)) es"
    using Cons.IH [OF subj_inv_step [OF Cons.prems(1), of e] observer_step(1) [OF Cons.prems(1,2) e(1)] e(2)]
    by simp
  then show ?case
    using observer_step(2) [OF Cons.prems(1,2) e(1)] by simp
qed simp

text \<open>
  An observer that stays subscribed gets every value that is published, once and in the order of
  publication, however subscribing, unsubscribing and the calls interleave.
\<close>

theorem observer_gets_every_value:
  assumes "subj_inv s" "i \<in> set (sj_observers s)" "EvUnsubscribe i \<notin> set es"
  shows "calls_of i (snd (run subj_step s es)) @ calls_of i (sj_snapshot (fst (run subj_step s es))) =
         calls_of i (sj_snapshot s) @ published s es"
  by (rule observer_calls [OF assms])

theorem observer_gets_every_value_witness:
  "let s = fst (run subj_step SubjectInit [EvSubscribe, EvSubscribe]) in
   calls_of 1 (snd (run subj_step s [EvNext ''a'', EvCall, EvSubscribe, EvCall, EvNext ''b'', EvCall])) @
     calls_of 1 (sj_snapshot (fst (run subj_step s [EvNext ''a'', EvCall, EvSubscribe, EvCall, EvNext ''b'', EvCall]))) =
   calls_of 1 (sj_snapshot s) @ published s [EvNext ''a'', EvCall, EvSubscribe, EvCall, EvNext ''b'', EvCall]"
  unfolding Let_def
  by (rule observer_gets_every_value) (simp_all add: subj_inv_def subj_defs SubjectInit_def)

end
