(* ===== verification/Audio.thy ===== *)
theory Audio
  imports Complex_Main Subject
begin

text \<open>
  The audio path: the players (src/src/player/alsa_player.cpp, pa_player.cpp), the device module
  that WebRTC is given (src/src/rtc/audio_device_bridge.h) and its subscription to the capturer.
  ALSA, PulseAudio and WebRTC are outside the repository: what they answer is part of the events.
  The setters and getters of the module that only return a constant are not modelled.
\<close>

section \<open>Players\<close>

definition kMaxRecoveriesPerWrite :: nat where
  "kMaxRecoveriesPerWrite = 3"

text \<open>
  The loop of \<open>AlsaPlayer::Write\<close> over the answers of \<open>snd_pcm_writei\<close>, each with the success of
  the \<open>snd_pcm_recover\<close> that follows an error; \<open>None\<close> when it still waits for an answer. The
  result lists the pieces (offset, frames) that were written.
\<close>

fun alsa_write :: "(int \<times> bool) list \<Rightarrow> nat \<Rightarrow> nat \<Rightarrow> nat \<Rightarrow> (bool \<times> (nat \<times> nat) list) option" where
  "alsa_write env written recoveries frames =
     (if frames \<le> written then Some (True, [])
      else case env of
             [] \<Rightarrow> None
           | (ret, recovered) # rest \<Rightarrow>
               if 0 \<le> ret
               then map_option (\<lambda>(ok, ps). (ok, (written, nat ret) # ps)) (alsa_write rest (written + nat ret) recoveries frames)
               else if kMaxRecoveriesPerWrite < recoveries + 1 \<or> \<not> recovered then Some (False, [])
               else alsa_write rest written (recoveries + 1) frames)"

declare alsa_write.simps [simp del]

fun pieces_end :: "nat \<Rightarrow> (nat \<times> nat) list \<Rightarrow> nat option" where
  "pieces_end n [] = Some n"
| "pieces_end n ((a, k) # ps) = (if a = n then pieces_end (n + k) ps else None)"

text \<open>
  A write to ALSA ends: a blocking \<open>snd_pcm_writei\<close> that does not fail writes at least one frame,
  so that as many answers as there are frames, and four more, are enough. When it succeeds, the
  pieces follow on each other from the first frame to the last.
\<close>

theorem alsa_write_ends:
  assumes "list_all (\<lambda>(ret, _). ret \<noteq> 0) env" "recoveries \<le> 3" "written \<le> frames"
    and "frames - written + (3 - recoveries) < length env"
  shows "\<exists>ok ps. alsa_write env written recoveries frames = Some (ok, ps) \<and>
     (\<exists>n. pieces_end written ps = Some n \<and> (ok \<longrightarrow> frames \<le> n))"
  using assms
proof (induction env arbitrary: written recoveries)
  case (Cons a env)
  obtain ret recovered where a: "a = (ret, recovered)" by (cases a)
  show ?case
  proof (cases "frames \<le> written")
    case True
    then show ?thesis by (auto simp: alsa_write.simps [of _ written])
  next
    case more: False
    show ?thesis
    proof (cases "0 \<le> ret")
      case True
      then have pos: "0 < nat ret" using Cons.prems(1) a by auto
      show ?thesis
      proof (cases "frames \<le> written + nat ret")
        case True
        then show ?thesis
          using more a \<open>0 \<le> ret\<close> by (auto simp: alsa_write.simps [of "(ret, recovered) # env"] alsa_write.simps [of env])
      next
        case False
        then have "\<exists>ok ps. alsa_write env (written + nat ret) recoveries frames = Some (ok, ps) \<and>
            (\<exists>n. pieces_end (written + nat ret) ps = Some n \<and> (ok \<longrightarrow> frames \<le> n))"
          using Cons.prems a pos by (intro Cons.IH) auto
        then show ?thesis
          using more a \<open>0 \<le> ret\<close> by (auto simp: alsa_write.simps [of "(ret, recovered) # env"])
      qed
    next
      case neg: False
      show ?thesis
      proof (cases "kMaxRecoveriesPerWrite < recoveries + 1 \<or> \<not> recovered")
        case True
        then show ?thesis using more a neg by (auto simp: alsa_write.simps [of "(ret, recovered) # env"])
      next
        case False
        then have "\<exists>ok ps. alsa_write env written (recoveries + 1) frames = Some (ok, ps) \<and>
            (\<exists>n. pieces_end written ps = Some n \<and> (ok \<longrightarrow> frames \<le> n))"
          using Cons.prems by (intro Cons.IH) (auto simp: kMaxRecoveriesPerWrite_def)
        then show ?thesis using more a neg False by (simp add: alsa_write.simps [of "(ret, True) # env"])
      qed
    qed
  qed
qed simp

theorem alsa_write_ends_witness:
  "\<exists>ok ps. alsa_write [(2, True), (-32, True), (1, True), (3, True), (1, True), (1, True), (1, True)] 0 0 3 = Some (ok, ps) \<and>
     (\<exists>n. pieces_end 0 ps = Some n \<and> (ok \<longrightarrow> 3 \<le> n))"
  by (rule alsa_write_ends) simp_all

datatype player_kind = PaPlayer | AlsaPlayer

record player =
  pl_kind :: player_kind
  pl_opened :: bool \<comment> \<open>\<open>sink_\<close>, \<open>pcm_handle_\<close>\<close>

record play_env =
  pe_open :: bool
  pe_params :: bool \<comment> \<open>\<open>snd_pcm_set_params\<close>\<close>
  pe_data :: "int list option" \<comment> \<open>what \<open>NeedMorePlayData\<close> fills in when it returns 0\<close>
  pe_pa_write :: bool
  pe_alsa_write :: "(int \<times> bool) list"
  pe_delay :: "int option" \<comment> \<open>microseconds (PulseAudio) or frames (ALSA)\<close>

definition kPlayoutSampleRate :: int where "kPlayoutSampleRate = 48000"
definition kPlayoutChannels :: nat where "kPlayoutChannels = 2"

definition PaOpen :: "play_env \<Rightarrow> player \<Rightarrow> bool \<times> player" where
  "PaOpen env p =
     (if pl_opened p then (True, p)
      else if \<not> pe_open env then (False, p) else (True, p\<lparr>pl_opened := True\<rparr>))"

definition AlsaOpen :: "play_env \<Rightarrow> player \<Rightarrow> bool \<times> player" where
  "AlsaOpen env p =
     (if pl_opened p then (True, p)
      else if \<not> pe_open env then (False, p\<lparr>pl_opened := False\<rparr>)
      else if \<not> pe_params env then (False, p\<lparr>pl_opened := False\<rparr>)
      else (True, p\<lparr>pl_opened := True\<rparr>))"

definition PaClose :: "player \<Rightarrow> player" where
  "PaClose p = (if pl_opened p then p\<lparr>pl_opened := False\<rparr> else p)"

definition AlsaClose :: "player \<Rightarrow> player" where
  "AlsaClose p = (if pl_opened p then p\<lparr>pl_opened := False\<rparr> else p)"

definition PlayerOpen :: "play_env \<Rightarrow> player \<Rightarrow> bool \<times> player" where
  "PlayerOpen env p = (if pl_kind p = PaPlayer then PaOpen env p else AlsaOpen env p)"

definition PlayerClose :: "player \<Rightarrow> player" where
  "PlayerClose p = (if pl_kind p = PaPlayer then PaClose p else AlsaClose p)"

definition PaWrite :: "play_env \<Rightarrow> player \<Rightarrow> bool \<times> player" where
  "PaWrite env p =
     (if \<not> pl_opened p then (False, p) else if pe_pa_write env then (True, p) else (False, PaClose p))"

definition AlsaWrite :: "play_env \<Rightarrow> nat \<Rightarrow> player \<Rightarrow> (bool \<times> player) option" where
  "AlsaWrite env frames p =
     (if \<not> pl_opened p then Some (False, p)
      else map_option (\<lambda>(ok, _). (ok, p)) (alsa_write (pe_alsa_write env) 0 0 frames))"

definition PlayerWrite :: "play_env \<Rightarrow> nat \<Rightarrow> player \<Rightarrow> (bool \<times> player) option" where
  "PlayerWrite env frames p = (if pl_kind p = PaPlayer then Some (PaWrite env p) else AlsaWrite env frames p)"

definition PaDelayMs :: "play_env \<Rightarrow> player \<Rightarrow> int" where
  "PaDelayMs env p =
     (if \<not> pl_opened p then 0 else case pe_delay env of None \<Rightarrow> 0 | Some latency \<Rightarrow> latency div 1000)"

definition AlsaDelayMs :: "play_env \<Rightarrow> player \<Rightarrow> int" where
  "AlsaDelayMs env p =
     (if \<not> pl_opened p then 0
      else case pe_delay env of None \<Rightarrow> 0
           | Some frames \<Rightarrow> if frames < 0 then 0 else frames * 1000 div kPlayoutSampleRate)"

definition DelayMs :: "play_env \<Rightarrow> player \<Rightarrow> int" where
  "DelayMs env p = (if pl_kind p = PaPlayer then PaDelayMs env p else AlsaDelayMs env p)"

section \<open>Samples\<close>

text \<open>
  A 32-bit float; a product is the exact one, rounded by \<open>rnd\<close>, which is IEEE 754's rounding to
  nearest: monotone, and exact on the integers below \<open>2 ^ 24\<close>.
\<close>

datatype flt = NaN | NegInf | Fin rat | PosInf

fun flt_less :: "flt \<Rightarrow> flt \<Rightarrow> bool" where
  "flt_less (Fin a) (Fin b) = (a < b)"
| "flt_less NegInf (Fin b) = True"
| "flt_less NegInf PosInf = True"
| "flt_less (Fin a) PosInf = True"
| "flt_less _ _ = False"

definition flt_min :: "flt \<Rightarrow> flt \<Rightarrow> flt" where "flt_min a b = (if flt_less b a then b else a)"
definition flt_max :: "flt \<Rightarrow> flt \<Rightarrow> flt" where "flt_max a b = (if flt_less a b then b else a)"

definition trunc :: "rat \<Rightarrow> int" where "trunc x = (if 0 \<le> x then \<lfloor>x\<rfloor> else \<lceil>x\<rceil>)"

definition float_rounding :: "(rat \<Rightarrow> rat) \<Rightarrow> bool" where
  "float_rounding rnd \<longleftrightarrow> mono rnd \<and> (\<forall>n :: int. \<bar>n\<bar> < 2 ^ 24 \<longrightarrow> rnd (of_int n) = of_int n)"

text \<open>\<open>None\<close> would be a cast whose value no \<open>int16_t\<close> can hold.\<close>

definition to_pcm :: "(rat \<Rightarrow> rat) \<Rightarrow> flt \<Rightarrow> int option" where
  "to_pcm rnd f =
     (case flt_max (Fin (- 1)) (flt_min (Fin 1) f) of
        Fin r \<Rightarrow> (let v = trunc (rnd (r * 32767)) in if - 32768 \<le> v \<and> v < 32768 then Some v else None)
      | _ \<Rightarrow> None)"

theorem samples_fit:
  assumes "float_rounding rnd"
  shows "\<exists>v. to_pcm rnd f = Some v \<and> \<bar>v\<bar> \<le> 32767 \<and> (f = NaN \<longrightarrow> v = 32767)"
proof -
  have "\<exists>r. flt_max (Fin (- 1)) (flt_min (Fin 1) f) = Fin r \<and> - 1 \<le> r \<and> r \<le> 1 \<and> (f = NaN \<longrightarrow> r = 1)"
    by (cases f) (auto simp: flt_max_def flt_min_def)
  then obtain r where r: "flt_max (Fin (- 1)) (flt_min (Fin 1) f) = Fin r" "- 1 \<le> r" "r \<le> 1" "f = NaN \<longrightarrow> r = 1"
    by blast
  have exact: "\<bar>n\<bar> < 2 ^ 24 \<Longrightarrow> rnd (of_int n) = of_int n" for n :: int
    using assms by (simp add: float_rounding_def)
  have top: "rnd 32767 = 32767" "rnd (- 32767) = - 32767"
    using exact [of 32767] exact [of "- 32767"] by simp_all
  have "rnd (- 32767) \<le> rnd (r * 32767)" "rnd (r * 32767) \<le> rnd 32767"
    using assms r(2,3) by (auto simp: float_rounding_def intro: monoD)
  then have b: "- 32767 \<le> rnd (r * 32767)" "rnd (r * 32767) \<le> 32767" by (simp_all add: top)
  then have "- 32767 \<le> trunc (rnd (r * 32767))" "trunc (rnd (r * 32767)) \<le> 32767"
    by (simp_all add: trunc_def le_floor_iff le_ceiling_iff floor_le_iff ceiling_le_iff)
  then have v: "\<bar>trunc (rnd (r * 32767))\<bar> \<le> 32767" by simp
  moreover have "f = NaN \<Longrightarrow> trunc (rnd (r * 32767)) = 32767"
    using r(4) top by (simp add: trunc_def)
  ultimately show ?thesis using r(1) by (auto simp: to_pcm_def Let_def)
qed

theorem samples_fit_witness:
  "\<exists>v. to_pcm (\<lambda>x. x) (Fin (-3/2)) = Some v \<and> \<bar>v\<bar> \<le> 32767 \<and> (Fin (-3/2) = NaN \<longrightarrow> v = 32767)"
  by (rule samples_fit) (simp add: float_rounding_def mono_def)

section \<open>The device module\<close>

text \<open>
  \<open>ab_alive\<close> is false once the module has been destroyed. The observer it gives to the capturer
  holds its address. \<open>RegisterAudioCallback\<close> stores the transport.
\<close>

record audio_buffer =
  bf_samples :: "flt list"
  bf_channels :: nat

record bridge =
  ab_alive :: bool
  ab_transport :: bool
  ab_recording :: bool
  ab_initialized :: bool
  ab_subscription :: subscription
  ab_owned :: "nat set" \<comment> \<open>the observers whose callback points to this module\<close>
  ab_player :: "player option"
  ab_playing :: bool
  ab_delay :: int
  ab_playout_initialized :: bool
  ab_worker :: bool
  ab_capturer :: "audio_buffer subject"

datatype audio_out =
    RecordedData "int option list" nat nat \<comment> \<open>samples, frames, channels\<close>
  | PlayerWrites "int list" nat
  | PlayerSleeps
  | UseAfterFree

definition BridgeInit :: "player option \<Rightarrow> bridge" where
  "BridgeInit pl = \<lparr>ab_alive = True, ab_transport = False, ab_recording = False, ab_initialized = False,
     ab_subscription = None, ab_owned = {}, ab_player = pl, ab_playing = False, ab_delay = 0,
     ab_playout_initialized = False, ab_worker = False, ab_capturer = SubjectInit\<rparr>"

definition RegisterAudioCallback :: "bool \<Rightarrow> bridge \<Rightarrow> bridge" where
  "RegisterAudioCallback transport s = s\<lparr>ab_transport := transport\<rparr>"

definition Init :: "bridge \<Rightarrow> bridge" where
  "Init s = s\<lparr>ab_initialized := True\<rparr>"

definition SetRecording :: "bool \<Rightarrow> bridge \<Rightarrow> bridge" where
  "SetRecording r s = s\<lparr>ab_recording := r\<rparr>"

definition SetCapturer :: "bool \<Rightarrow> bridge \<Rightarrow> bridge" where
  "SetCapturer capturer s =
     (if capturer
      then (case Subscribe (ab_capturer s) of (sub, c) \<Rightarrow>
              s\<lparr>ab_subscription := SubscriptionAssign (ab_subscription s) sub, ab_capturer := c,
                ab_owned := ab_owned s \<union> set_option sub\<rparr>)
      else s\<lparr>ab_subscription := SubscriptionAssign (ab_subscription s) None\<rparr>)"

definition StopPlayout :: "bridge \<Rightarrow> bridge" where
  "StopPlayout s =
     s\<lparr>ab_playing := False, ab_worker := False, ab_playout_initialized := False,
       ab_player := (if ab_playout_initialized s then map_option PlayerClose (ab_player s) else ab_player s)\<rparr>"

definition Terminate :: "bridge \<Rightarrow> bridge" where
  "Terminate s = (StopPlayout s)\<lparr>ab_subscription := SubscriptionAssign (ab_subscription s) None,
     ab_transport := False, ab_initialized := False\<rparr>"

definition InitPlayout :: "play_env \<Rightarrow> bridge \<Rightarrow> bool \<times> bridge" where
  "InitPlayout env s =
     (case ab_player s of
        None \<Rightarrow> (True, s)
      | Some p \<Rightarrow>
          if ab_playout_initialized s then (True, s)
          else (case PlayerOpen env p of (ok, p1) \<Rightarrow>
                  (ok, s\<lparr>ab_player := Some p1, ab_playout_initialized := ok\<rparr>)))"

definition StartPlayout :: "play_env \<Rightarrow> bridge \<Rightarrow> bool \<times> bridge" where
  "StartPlayout env s =
     (if ab_player s = None \<or> ab_worker s then (True, s)
      else case InitPlayout env s of
             (False, s1) \<Rightarrow> (False, s1)
           | (True, s1) \<Rightarrow> (True, s1\<lparr>ab_delay := 0, ab_worker := True, ab_playing := True\<rparr>))"

definition play_frames :: nat where
  "play_frames = nat kPlayoutSampleRate div 100"

text \<open>\<open>NeedMorePlayData\<close> fills the buffer it is given; what is filled in is cut or kept to its size.\<close>

definition PlayoutOnce :: "play_env \<Rightarrow> bridge \<Rightarrow> bridge \<times> audio_out list" where
  "PlayoutOnce env s =
     (case ab_player s of
        None \<Rightarrow> (s, [])
      | Some p \<Rightarrow>
          let silence = replicate (play_frames * kPlayoutChannels) 0;
              data = (if ab_transport s then (case pe_data env of None \<Rightarrow> silence
                        | Some d \<Rightarrow> take (length silence) (d @ silence)) else silence)
          in case PlayerWrite env play_frames p of
               None \<Rightarrow> (s, [])
             | Some (False, p1) \<Rightarrow> (s\<lparr>ab_player := Some p1\<rparr>, [PlayerSleeps])
             | Some (True, p1) \<Rightarrow> (s\<lparr>ab_player := Some p1, ab_delay := DelayMs env p1\<rparr>, [PlayerWrites data play_frames]))"

definition OnAudioBuffer :: "(rat \<Rightarrow> rat) \<Rightarrow> audio_buffer \<Rightarrow> bridge \<Rightarrow> audio_out list" where
  "OnAudioBuffer rnd buf s =
     (if \<not> ab_initialized s \<or> \<not> ab_recording s then []
      else if \<not> ab_transport s then []
      else if bf_channels buf = 0 \<or> bf_samples buf = [] then []
      else if length (bf_samples buf) mod bf_channels buf \<noteq> 0 then []
      else [RecordedData (map (to_pcm rnd) (bf_samples buf)) (length (bf_samples buf) div bf_channels buf) (bf_channels buf)])"

text \<open>
  The destructor stops playing; then the members are destroyed, the subscription with them.
\<close>

definition BridgeDestroy :: "bridge \<Rightarrow> bridge" where
  "BridgeDestroy s =
     (let s1 = StopPlayout s
      in s1\<lparr>ab_alive := False, ab_subscription := None,
            ab_capturer := SubscriptionDestroy (ab_subscription s1) (ab_capturer s1)\<rparr>)"

datatype audio_event =
    CallSetCapturer bool
  | CallRegister bool
  | CallInit
  | CallTerminate
  | CallRecording bool
  | CallInitPlayout play_env
  | CallStartPlayout play_env
  | CallStopPlayout
  | WorkerPlayout play_env
  | CallDestroy
  | CapturerNext audio_buffer
  | CapturerCall

definition CallObserver :: "(rat \<Rightarrow> rat) \<Rightarrow> bridge \<Rightarrow> bridge \<times> audio_out list" where
  "CallObserver rnd s =
     (case NextCall (ab_capturer s) of (c, calls) \<Rightarrow>
        (s\<lparr>ab_capturer := c\<rparr>,
         concat (map (\<lambda>(i, buf). if i \<notin> ab_owned s then []
                                 else if ab_alive s then OnAudioBuffer rnd buf s else [UseAfterFree]) calls)))"

definition on_alive :: "bridge \<Rightarrow> bridge \<Rightarrow> bridge" where
  "on_alive s t = (if ab_alive s then t else s)"

fun audio_step :: "(rat \<Rightarrow> rat) \<Rightarrow> bridge \<Rightarrow> audio_event \<Rightarrow> bridge \<times> audio_out list" where
  "audio_step rnd s (CallSetCapturer c) = (on_alive s (SetCapturer c s), [])"
| "audio_step rnd s (CallRegister t) = (on_alive s (RegisterAudioCallback t s), [])"
| "audio_step rnd s CallInit = (on_alive s (Init s), [])"
| "audio_step rnd s CallTerminate = (on_alive s (Terminate s), [])"
| "audio_step rnd s (CallRecording r) = (on_alive s (SetRecording r s), [])"
| "audio_step rnd s (CallInitPlayout env) = (on_alive s (snd (InitPlayout env s)), [])"
| "audio_step rnd s (CallStartPlayout env) = (on_alive s (snd (StartPlayout env s)), [])"
| "audio_step rnd s CallStopPlayout = (on_alive s (StopPlayout s), [])"
| "audio_step rnd s (WorkerPlayout env) = (if ab_alive s \<and> ab_worker s then PlayoutOnce env s else (s, []))"
| "audio_step rnd s CallDestroy = (on_alive s (BridgeDestroy s), [])"
| "audio_step rnd s (CapturerNext buf) = (s\<lparr>ab_capturer := NextSnapshot buf (ab_capturer s)\<rparr>, [])"
| "audio_step rnd s CapturerCall = CallObserver rnd s"

lemmas audio_defs = on_alive_def SetCapturer_def Terminate_def StopPlayout_def InitPlayout_def StartPlayout_def
  PlayoutOnce_def BridgeDestroy_def CallObserver_def SubscriptionAssign_def SubscriptionDestroy_def PlayerOpen_def
  PlayerClose_def PaOpen_def AlsaOpen_def PaClose_def AlsaClose_def RegisterAudioCallback_def Init_def SetRecording_def PaWrite_def AlsaWrite_def PlayerWrite_def subj_defs

subsection \<open>Playing\<close>

text \<open>The worker runs exactly while the module plays, with a player that has been opened once.\<close>

definition play_inv :: "bridge \<Rightarrow> bool" where
  "play_inv s \<longleftrightarrow> ab_worker s = ab_playing s \<and>
     (ab_worker s \<longrightarrow> ab_playout_initialized s \<and> ab_player s \<noteq> None) \<and>
     (ab_playout_initialized s \<longrightarrow> ab_player s \<noteq> None)"

lemma play_inv_step: "play_inv s \<Longrightarrow> play_inv (fst (audio_step rnd s e))"
  by (cases e) (auto simp: play_inv_def audio_defs Let_def split: option.splits prod.splits list.splits bool.splits)

text \<open>
  After one failed write PulseAudio's connection is closed and only \<open>StopPlayout\<close> lets it be opened
  again: until then nothing reaches the player, although the module still says that it plays.
\<close>

definition muted :: "bridge \<Rightarrow> bool" where
  "muted s \<longleftrightarrow> (\<exists>p. ab_player s = Some p \<and> pl_kind p = PaPlayer \<and> \<not> pl_opened p) \<and> ab_playout_initialized s"

definition stops_playout :: "audio_event \<Rightarrow> bool" where
  "stops_playout e \<longleftrightarrow> e \<in> {CallStopPlayout, CallTerminate, CallDestroy}"

definition is_player_write :: "audio_out \<Rightarrow> bool" where
  "is_player_write x \<longleftrightarrow> (\<exists>d n. x = PlayerWrites d n)"

lemma muted_step:
  assumes "muted s" "\<not> stops_playout e"
  shows "muted (fst (audio_step rnd s e)) \<and> list_all (\<lambda>x. \<not> is_player_write x) (snd (audio_step rnd s e))"
  using assms
  by (cases e) (auto simp: muted_def stops_playout_def is_player_write_def audio_defs OnAudioBuffer_def Let_def
      split: option.splits prod.splits list.splits bool.splits)

lemma muted_run:
  assumes "muted s" "list_all (\<lambda>e. \<not> stops_playout e) es"
  shows "list_all (\<lambda>x. \<not> is_player_write x) (snd (run (audio_step rnd) s es))"
  using assms by (induction es arbitrary: s) (auto simp: muted_step)

theorem write_error_mutes:
  assumes "ab_alive s" "ab_worker s" "play_inv s" "ab_player s = Some p" "pl_kind p = PaPlayer"
    and "\<not> pe_pa_write env" "list_all (\<lambda>e. \<not> stops_playout e) es"
  shows "ab_playing (fst (audio_step rnd s (WorkerPlayout env))) \<and>
     list_all (\<lambda>x. \<not> is_player_write x) (snd (run (audio_step rnd) s (WorkerPlayout env # es)))"
proof -
  have "muted (fst (audio_step rnd s (WorkerPlayout env)))" "ab_playing (fst (audio_step rnd s (WorkerPlayout env)))"
    "snd (audio_step rnd s (WorkerPlayout env)) = [PlayerSleeps]"
    using assms(1-6) by (auto simp: muted_def play_inv_def PlayoutOnce_def PlayerWrite_def PaWrite_def PaClose_def Let_def)
  then show ?thesis
    using muted_run [OF _ assms(7)] by (simp add: is_player_write_def)
qed

definition demo_play :: play_env where
  "demo_play = \<lparr>pe_open = True, pe_params = True, pe_data = Some [1, 2], pe_pa_write = True, pe_alsa_write = [], pe_delay = None\<rparr>"

definition demo_bridge :: bridge where
  "demo_bridge = fst (run (audio_step (\<lambda>x. x)) (BridgeInit (Some \<lparr>pl_kind = PaPlayer, pl_opened = False\<rparr>))
     [CallInit, CallRegister True, CallStartPlayout demo_play])"

lemmas demo_bridge_simps = demo_bridge_def demo_play_def BridgeInit_def audio_defs

theorem write_error_mutes_witness:
  "ab_playing (fst (audio_step (\<lambda>x. x) demo_bridge (WorkerPlayout (demo_play\<lparr>pe_pa_write := False\<rparr>)))) \<and>
   list_all (\<lambda>x. \<not> is_player_write x) (snd (run (audio_step (\<lambda>x. x)) demo_bridge
     (WorkerPlayout (demo_play\<lparr>pe_pa_write := False\<rparr>) # [WorkerPlayout demo_play, CallStartPlayout demo_play, WorkerPlayout demo_play])))"
  by (rule write_error_mutes [where p = "\<lparr>pl_kind = PaPlayer, pl_opened = True\<rparr>"])
     (simp_all add: demo_bridge_simps play_inv_def stops_playout_def)

subsection \<open>Recording\<close>

text \<open>
  What WebRTC is given: while the module is initialised, records and has a transport, every chunk
  of every capturer call is handed over, whole frames of samples that fit; in every other case
  nothing is.
\<close>

definition pcm_ok :: "audio_out \<Rightarrow> bool" where
  "pcm_ok x = (case x of
      RecordedData d frames ch \<Rightarrow> 0 < ch \<and> length d = frames * ch \<and> list_all (\<lambda>v. \<exists>i. v = Some i \<and> \<bar>i\<bar> \<le> 32767) d
    | _ \<Rightarrow> True)"

lemma OnAudioBuffer_ok:
  assumes "float_rounding rnd"
  shows "list_all pcm_ok (OnAudioBuffer rnd buf s)"
  using samples_fit [OF assms] by (auto simp: OnAudioBuffer_def pcm_ok_def list_all_iff)

lemma audio_step_ok:
  assumes "float_rounding rnd"
  shows "list_all pcm_ok (snd (audio_step rnd s e))"
proof (cases e)
  case CapturerCall
  then show ?thesis
    using OnAudioBuffer_ok [OF assms]
    by (cases "sj_snapshot (ab_capturer s)") (auto simp: CallObserver_def NextCall_def pcm_ok_def)
qed (auto simp: PlayoutOnce_def pcm_ok_def Let_def split: option.splits prod.splits bool.splits)

text \<open>A bridge that WebRTC has set up and that subscribed once hands over every chunk, once.\<close>

definition handed :: "audio_out list \<Rightarrow> audio_out list" where
  "handed os = filter (\<lambda>x. \<exists>d n c. x = RecordedData d n c) os"

lemma handed_simps [simp]: "handed [] = []" "handed (xs @ ys) = handed xs @ handed ys"
  by (simp_all add: handed_def)

definition ready :: "nat \<Rightarrow> bridge \<Rightarrow> bool" where
  "ready i s \<longleftrightarrow> ab_alive s \<and> ab_initialized s \<and> ab_recording s \<and> ab_transport s \<and> ab_owned s = {i} \<and>
     subj_inv (ab_capturer s) \<and> i \<in> set (sj_observers (ab_capturer s))"

definition undisturbing :: "audio_event \<Rightarrow> bool" where
  "undisturbing e \<longleftrightarrow> (case e of CallSetCapturer _ \<Rightarrow> False | CallRegister t \<Rightarrow> t | CallTerminate \<Rightarrow> False
      | CallRecording r \<Rightarrow> r | CallDestroy \<Rightarrow> False | _ \<Rightarrow> True)"

definition pcm_of :: "(rat \<Rightarrow> rat) \<Rightarrow> audio_buffer \<Rightarrow> audio_out list" where
  "pcm_of rnd buf =
     (if bf_channels buf = 0 \<or> bf_samples buf = [] \<or> length (bf_samples buf) mod bf_channels buf \<noteq> 0 then []
      else [RecordedData (map (to_pcm rnd) (bf_samples buf)) (length (bf_samples buf) div bf_channels buf) (bf_channels buf)])"

fun subj_events :: "audio_event list \<Rightarrow> audio_buffer subj_event list" where
  "subj_events [] = []"
| "subj_events (CapturerNext b # es) = EvNext b # subj_events es"
| "subj_events (CapturerCall # es) = EvCall # subj_events es"
| "subj_events (_ # es) = subj_events es"

lemma ready_step:
  assumes "ready i s" "undisturbing e"
  shows "ready i (fst (audio_step rnd s e))"
    and "ab_capturer (fst (audio_step rnd s e)) = fst (run subj_step (ab_capturer s) (subj_events [e]))"
    and "handed (snd (audio_step rnd s e)) =
         concat (map (pcm_of rnd) (calls_of i (snd (run subj_step (ab_capturer s) (subj_events [e])))))"
proof -
  have inv: "subj_inv (fst (subj_step (ab_capturer s) e'))" for e'
    using assms(1) by (simp add: ready_def subj_inv_step)
  show "ready i (fst (audio_step rnd s e))"
    using assms inv [of "EvNext b" for b] inv [of EvCall]
    by (cases e) (auto simp: ready_def undisturbing_def audio_defs Let_def
        split: option.splits prod.splits list.splits bool.splits)
  show "ab_capturer (fst (audio_step rnd s e)) = fst (run subj_step (ab_capturer s) (subj_events [e]))"
    using assms by (cases e) (auto simp: ready_def undisturbing_def audio_defs Let_def
        split: option.splits prod.splits list.splits bool.splits)
  show "handed (snd (audio_step rnd s e)) =
      concat (map (pcm_of rnd) (calls_of i (snd (run subj_step (ab_capturer s) (subj_events [e])))))"
    using assms by (cases e) (auto simp: ready_def undisturbing_def handed_def OnAudioBuffer_def pcm_of_def
        CallObserver_def PlayoutOnce_def NextCall_def Let_def split: option.splits prod.splits list.splits bool.splits)
qed

lemma subj_events_Cons: "subj_events (e # es) = subj_events [e] @ subj_events es"
  by (cases e) simp_all

lemma ready_run:
  assumes "ready i s" "list_all undisturbing es"
  shows "handed (snd (run (audio_step rnd) s es)) =
     concat (map (pcm_of rnd) (calls_of i (snd (run subj_step (ab_capturer s) (subj_events es)))))"
  using assms
proof (induction es arbitrary: s)
  case (Cons e es)
  then show ?case
    using ready_step [of i s e rnd]
    by (simp add: subj_events_Cons [of e es] snd_run_append)
qed simp

lemma subj_events_no_unsubscribe: "EvUnsubscribe i \<notin> set (subj_events es)"
  by (induction es rule: subj_events.induct) auto

lemma ab_capturer_run:
  assumes "ready i s" "list_all undisturbing es"
  shows "ab_capturer (fst (run (audio_step rnd) s es)) = fst (run subj_step (ab_capturer s) (subj_events es))"
  using assms
proof (induction es arbitrary: s)
  case (Cons e es)
  then show ?case
    using ready_step [of i s e rnd]
    by (simp add: subj_events_Cons [of e es] fst_run_append)
qed simp

theorem microphone_reaches_webrtc:
  assumes "float_rounding rnd" "ready i s" "sj_snapshot (ab_capturer s) = []" "list_all undisturbing es"
    and "sj_snapshot (ab_capturer (fst (run (audio_step rnd) s es))) = []"
  shows "handed (snd (run (audio_step rnd) s es)) =
      concat (map (pcm_of rnd) (published (ab_capturer s) (subj_events es))) \<and>
    list_all pcm_ok (snd (run (audio_step rnd) s es))"
proof -
  have "calls_of i (snd (run subj_step (ab_capturer s) (subj_events es))) = published (ab_capturer s) (subj_events es)"
    using observer_calls [of "ab_capturer s" i "subj_events es"] assms(2,3,5) ab_capturer_run [OF assms(2,4)]
      subj_events_no_unsubscribe by (simp add: ready_def)
  moreover have "list_all pcm_ok (snd (run (audio_step rnd) s es))"
    by (induction es arbitrary: s) (auto simp: audio_step_ok [OF assms(1)])
  ultimately show ?thesis
    using ready_run [OF assms(2,4)] by simp
qed

definition demo_microphone :: bridge where
  "demo_microphone = fst (run (audio_step (\<lambda>x. x)) (BridgeInit None)
     [CallInit, CallRegister True, CallRecording True, CallSetCapturer True])"

definition demo_chunk :: audio_buffer where
  "demo_chunk = \<lparr>bf_samples = [Fin (1/2), Fin 2], bf_channels = 2\<rparr>"

theorem microphone_reaches_webrtc_witness:
  "handed (snd (run (audio_step (\<lambda>x. x)) demo_microphone [CapturerNext demo_chunk, CapturerCall])) =
     concat (map (pcm_of (\<lambda>x. x)) (published (ab_capturer demo_microphone) (subj_events [CapturerNext demo_chunk, CapturerCall]))) \<and>
   list_all pcm_ok (snd (run (audio_step (\<lambda>x. x)) demo_microphone [CapturerNext demo_chunk, CapturerCall]))"
  by (rule microphone_reaches_webrtc [where i = 0])
     (simp_all add: demo_microphone_def demo_chunk_def BridgeInit_def audio_defs SubjectInit_def ready_def subj_inv_def
        undisturbing_def float_rounding_def mono_def)

text \<open>
  \<open>Terminate\<close> and \<open>SetCapturer(nullptr)\<close> assign an empty subscription over the live one. The move
  assignment of a subscription does not unsubscribe, so that the capturer keeps the address of the
  module, and calls it after the module has been destroyed.
\<close>

lemma terminated_calls:
  assumes "\<not> ab_alive s" "i \<in> ab_owned s" "(i, buf) \<in> set (sj_snapshot (ab_capturer s))"
  shows "UseAfterFree \<in> set (snd (run (audio_step rnd) s (replicate (length (sj_snapshot (ab_capturer s))) CapturerCall)))"
  using assms
proof (induction "sj_snapshot (ab_capturer s)" arbitrary: s)
  case (Cons c cs)
  have eq: "sj_snapshot (ab_capturer s) = c # cs" using Cons.hyps(2) by simp
  have out: "snd (audio_step rnd s CapturerCall) = (if fst c \<in> ab_owned s then [UseAfterFree] else [])"
    using eq Cons.prems(1) by (auto simp: CallObserver_def NextCall_def split: prod.splits)
  have rest: "sj_snapshot (ab_capturer (fst (audio_step rnd s CapturerCall))) = cs"
      "\<not> ab_alive (fst (audio_step rnd s CapturerCall))" "ab_owned (fst (audio_step rnd s CapturerCall)) = ab_owned s"
    using eq Cons.prems(1) by (simp_all add: CallObserver_def NextCall_def)
  show ?case
  proof (cases "fst c \<in> ab_owned s")
    case True
    then show ?thesis using out eq by simp
  next
    case False
    then have "(i, buf) \<in> set cs" using Cons.prems(2,3) eq by auto
    then show ?thesis
      using Cons.hyps(1) [of "fst (audio_step rnd s CapturerCall)"] rest Cons.prems(2) out eq by simp
  qed
qed simp

theorem terminate_leaves_observer:
  assumes "ab_alive s" "i \<in> ab_owned s" "i \<in> set (sj_observers (ab_capturer s))" "sj_snapshot (ab_capturer s) = []"
    and "detach \<in> {CallTerminate, CallSetCapturer False}"
  shows "UseAfterFree \<in> set (snd (run (audio_step rnd) s
     ([detach, CallDestroy, CapturerNext buf] @ replicate (length (sj_observers (ab_capturer s))) CapturerCall)))"
proof -
  let ?t = "fst (run (audio_step rnd) s [detach, CallDestroy, CapturerNext buf])"
  have t: "\<not> ab_alive ?t" "ab_owned ?t = ab_owned s"
      "sj_snapshot (ab_capturer ?t) = map (\<lambda>j. (j, buf)) (sj_observers (ab_capturer s))"
    using assms by (auto simp: audio_defs Let_def)
  have "UseAfterFree \<in> set (snd (run (audio_step rnd) ?t (replicate (length (sj_snapshot (ab_capturer ?t))) CapturerCall)))"
    using t assms(2,3) by (intro terminated_calls [where i = i and buf = buf]) auto
  then show ?thesis
    unfolding snd_run_append using t(3) by (simp del: run_Cons append.simps)
qed

theorem terminate_leaves_observer_witness:
  "UseAfterFree \<in> set (snd (run (audio_step (\<lambda>x. x)) demo_microphone
     ([CallTerminate, CallDestroy, CapturerNext demo_chunk] @
      replicate (length (sj_observers (ab_capturer demo_microphone))) CapturerCall)))"
  by (rule terminate_leaves_observer [where i = 0])
     (simp_all add: demo_microphone_def BridgeInit_def audio_defs SubjectInit_def)

text \<open>Without \<open>Terminate\<close> the destructor unsubscribes, and nothing is left behind.\<close>

lemma destroy_unsubscribes:
  assumes "ab_alive s" "sj_alive (ab_capturer s)" "ab_subscription s = Some i" "ab_owned s = {i}"
  shows "ab_owned s \<inter> set (sj_observers (ab_capturer (BridgeDestroy s))) = {}"
  using assms by (auto simp: audio_defs Let_def)

end
