(* ===== verification/Encoders.thy ===== *)
theory Encoders
  imports Complex_Main Settings
begin

text \<open>
  The encoders WebRTC is given: OpenH264 (src/src/codecs/h264/openh264_encoder.cpp and
  openh264_video_encoder.cpp), the Raspberry Pi's (src/src/codecs/v4l2/v4l2_h264_encoder.cpp, with
  the rate handling of v4l2_encoder.cpp) and the Jetson's (src/src/codecs/jetson/jetson_video_encoder.cpp),
  and the factory that chooses among them (src/src/rtc/custom_video_encoder_factory.cpp). The codecs
  themselves, the devices and WebRTC are outside the repository.
\<close>

section \<open>What WebRTC passes in\<close>

datatype video_codec = VP8 | VP9 | AV1 | H264 | H265 | GenericCodec

datatype codec_result = CodecOk | NoOutput | CodecError | ErrParameter | EncoderFailure

datatype frame_type = EmptyFrame | KeyFrame | DeltaFrame

record codec_settings =
  cs_type :: video_codec
  cs_width :: int
  cs_height :: int
  cs_max_framerate :: "32 word"
  cs_start_bitrate :: "32 word" \<comment> \<open>kbps\<close>
  cs_max_bitrate :: "32 word" \<comment> \<open>kbps\<close>
  cs_h264_layers :: int
  cs_stream_layers :: int
  cs_frame_dropping :: bool
  cs_l1t1 :: "bool option" \<comment> \<open>the scalability mode: none, L1T1 or another one\<close>

record rate_params =
  rp_bps :: "32 word"
  rp_fps :: rat
  rp_bandwidth :: int

text \<open>\<open>EncoderConfig\<close> (src/src/codecs/frame_processor.h), the fields the encoders set or read.\<close>

record enc_config =
  ec_width :: int
  ec_height :: int
  ec_fps :: int
  ec_bitrate :: int
  ec_max_bitrate :: int
  ec_keyframe_interval :: int
  ec_idr_interval :: int
  ec_frame_dropping :: bool
  ec_thread_count :: int
  ec_is_dma_src :: bool
  ec_dst :: "video_codec option"
  ec_temporal_layers :: int

definition kKeyFrameIntervalFrames :: int where "kKeyFrameIntervalFrames = 3000"

text \<open>The conversion of an \<open>unsigned\<close> product to \<open>int\<close>, and of a \<open>double\<close> to \<open>int\<close>.\<close>

definition kbps_to_bps :: "32 word \<Rightarrow> int" where
  "kbps_to_bps k = sint (k * 1000)"

definition fps_to_int :: "rat \<Rightarrow> int" where
  "fps_to_int f = \<lfloor>f\<rfloor>"

section \<open>The OpenH264 encoder\<close>

record h264enc =
  he_config :: enc_config
  he_max_bitrate :: int

definition UNSPECIFIED_BIT_RATE :: int where "UNSPECIFIED_BIT_RATE = 0"

datatype enc_out =
    NullDereference
  | SignedOverflow
  | InitParams enc_config int
  | ForceIntra
  | SetBitrateOption int
  | SetFrameRateOption int
  | DeviceBitrate int
  | DeviceFps int
  | DeviceEmplace nat
  | OnEncodedImage nat bool "int option" bool \<comment> \<open>frame, key frame, temporal index, base layer sync\<close>
  | OnDroppedFrame

text \<open>What the library answers: \<open>WelsCreateSVCEncoder\<close>, \<open>InitializeExt\<close>.\<close>

definition Openh264Create :: "bool \<Rightarrow> bool \<Rightarrow> enc_config \<Rightarrow> h264enc option \<times> enc_out list" where
  "Openh264Create create_ok init_ok cfg =
     (let mx = (if ec_max_bitrate cfg > 0 then ec_max_bitrate cfg else UNSPECIFIED_BIT_RATE)
      in if \<not> create_ok then (None, [NullDereference])
         else if \<not> init_ok then (None, [InitParams cfg mx])
         else (Some \<lparr>he_config = cfg, he_max_bitrate = mx\<rparr>, [InitParams cfg mx]))"

definition ForceIntraFrame :: "h264enc \<Rightarrow> enc_out list" where
  "ForceIntraFrame e = [ForceIntra]"

definition Openh264SetRates :: "int \<Rightarrow> int \<Rightarrow> h264enc \<Rightarrow> h264enc \<times> enc_out list" where
  "Openh264SetRates bitrate_bps framerate e =
     (let b = (if he_max_bitrate e \<noteq> UNSPECIFIED_BIT_RATE then min bitrate_bps (he_max_bitrate e) else bitrate_bps)
      in (e\<lparr>he_config := (he_config e)\<lparr>ec_bitrate := b, ec_fps := framerate\<rparr>\<rparr>, [SetBitrateOption b, SetFrameRateOption framerate]))"

text \<open>The bitstream of a frame: layers, each with the lengths of its NAL units and its bytes.\<close>

type_synonym bs_layer = "nat list \<times> bytes"

fun BitstreamSize :: "bs_layer list \<Rightarrow> nat" where
  "BitstreamSize [] = 0"
| "BitstreamSize ((nals, _) # ls) = sum_list nals + BitstreamSize ls"

text \<open>\<open>CopyBitstream\<close> writes from \<open>pos\<close> on; \<open>None\<close> is a read or a write out of bounds.\<close>

fun CopyBitstream :: "bs_layer list \<Rightarrow> nat \<Rightarrow> bytes \<Rightarrow> bytes option" where
  "CopyBitstream [] pos dst = Some dst"
| "CopyBitstream ((nals, buf) # ls) pos dst =
     (let n = sum_list nals
      in if length buf < n \<or> length dst < pos + n then None
         else CopyBitstream ls (pos + n) (take pos dst @ take n buf @ drop (pos + n) dst))"

lemma CopyBitstream_from:
  assumes "list_all (\<lambda>(nals, buf). sum_list nals \<le> length buf) ls" "length dst = pos + BitstreamSize ls"
  shows "CopyBitstream ls pos dst = Some (take pos dst @ concat (map (\<lambda>(nals, buf). take (sum_list nals) buf) ls))"
  using assms
proof (induction ls arbitrary: pos dst)
  case (Cons l ls)
  obtain nals buf where l: "l = (nals, buf)" by (cases l)
  have n: "sum_list nals \<le> length buf" "list_all (\<lambda>(nals, buf). sum_list nals \<le> length buf) ls"
    using Cons.prems(1) l by auto
  have len: "length dst = pos + (sum_list nals + BitstreamSize ls)" using Cons.prems(2) l by simp
  have "CopyBitstream ls (pos + sum_list nals) (take pos dst @ take (sum_list nals) buf @ drop (pos + sum_list nals) dst) =
      Some (take (pos + sum_list nals) (take pos dst @ take (sum_list nals) buf @ drop (pos + sum_list nals) dst) @
        concat (map (\<lambda>(nals, buf). take (sum_list nals) buf) ls))"
    using n len by (intro Cons.IH) auto
  then show ?case using l n len by (simp add: Let_def)
qed simp

text \<open>
  The buffer that is allocated with \<open>BitstreamSize\<close> is filled by \<open>CopyBitstream\<close> exactly: no byte out
  of bounds, none left over, the layers one after another.
\<close>

theorem bitstream_fills_buffer:
  assumes "list_all (\<lambda>(nals, buf). sum_list nals \<le> length buf) ls"
  shows "CopyBitstream ls 0 (replicate (BitstreamSize ls) (CHR 0x00)) =
     Some (concat (map (\<lambda>(nals, buf). take (sum_list nals) buf) ls))"
  using CopyBitstream_from [OF assms, of "replicate (BitstreamSize ls) (CHR 0x00)" 0] by simp

theorem bitstream_fills_buffer_witness:
  "CopyBitstream [([1, 2], ''abcd''), ([2], ''xy'')] 0 (replicate (BitstreamSize [([1, 2], ''abcd''), ([2], ''xy'')]) (CHR 0x00)) =
     Some (concat (map (\<lambda>(nals, buf). take (sum_list nals) buf) [([1, 2], ''abcd''), ([2], ''xy'')]))"
  by (rule bitstream_fills_buffer) simp

section \<open>The software encoder WebRTC sees\<close>

definition NumberOfThreads :: "int option \<Rightarrow> int \<Rightarrow> int" where
  "NumberOfThreads encoder_thread_limit number_of_cores =
     (let cores = max number_of_cores 1
      in min (max (case encoder_thread_limit of None \<Rightarrow> cores | Some n \<Rightarrow> n) 1) cores)"

record sw_encoder =
  ov_width :: int
  ov_height :: int
  ov_fps :: int
  ov_bitrate :: int
  ov_layers :: int
  ov_tl0sync :: int
  ov_cores :: int
  ov_thread_limit :: "int option"
  ov_playout :: "(int \<times> int) option"
  ov_dropping :: bool
  ov_callback :: bool
  ov_encoder :: "h264enc option"

definition PlayoutDelayOf :: "args \<Rightarrow> (int \<times> int) option" where
  "PlayoutDelayOf a = (if max_playout_delay_ms a \<ge> 0 then Some (min_playout_delay_ms a, max_playout_delay_ms a) else None)"

definition Openh264VideoInit :: "args \<Rightarrow> sw_encoder" where
  "Openh264VideoInit a = \<lparr>ov_width = 0, ov_height = 0, ov_fps = fps a, ov_bitrate = 0, ov_layers = 1, ov_tl0sync = 1,
     ov_cores = 1, ov_thread_limit = None, ov_playout = PlayoutDelayOf a, ov_dropping = False, ov_callback = False, ov_encoder = None\<rparr>"

definition SwInitEncode :: "codec_settings \<Rightarrow> int \<Rightarrow> int option \<Rightarrow> sw_encoder \<Rightarrow> codec_result \<times> sw_encoder" where
  "SwInitEncode cs cores limit s =
     (if cs_type cs \<noteq> H264 then (CodecError, s)
      else let layers = max 1 (max (cs_h264_layers cs) (cs_stream_layers cs))
           in (CodecOk, s\<lparr>ov_dropping := cs_frame_dropping cs, ov_width := cs_width cs, ov_height := cs_height cs,
                 ov_fps := (if cs_max_framerate cs > 0 then sint (cs_max_framerate cs) else ov_fps s),
                 ov_bitrate := kbps_to_bps (cs_start_bitrate cs), ov_layers := layers, ov_tl0sync := layers,
                 ov_cores := cores, ov_thread_limit := limit, ov_encoder := None\<rparr>))"

definition SwRegister :: "bool \<Rightarrow> sw_encoder \<Rightarrow> sw_encoder" where
  "SwRegister cb s = s\<lparr>ov_callback := cb\<rparr>"

definition SwRelease :: "sw_encoder \<Rightarrow> sw_encoder" where
  "SwRelease s = s\<lparr>ov_callback := False, ov_encoder := None\<rparr>"

text \<open>The marks of temporal layers in \<open>SendFrame\<close>: the index, the sync flag, and the new limit.\<close>

definition TemporalMarks :: "int \<Rightarrow> int \<Rightarrow> int \<Rightarrow> (int option \<times> bool) \<times> int" where
  "TemporalMarks layers limit temporal_id =
     (if layers > 1
      then let sync = temporal_id > 0 \<and> temporal_id < limit;
               l1 = (if sync then temporal_id else limit)
           in ((Some temporal_id, sync), if temporal_id = 0 then layers else l1)
      else ((None, False), limit))"

definition SwSendFrame :: "nat \<Rightarrow> bool \<Rightarrow> int \<Rightarrow> sw_encoder \<Rightarrow> sw_encoder \<times> enc_out list" where
  "SwSendFrame frame idr temporal_id s =
     (case TemporalMarks (ov_layers s) (ov_tl0sync s) temporal_id of
        ((idx, sync), l) \<Rightarrow>
          (s\<lparr>ov_tl0sync := l\<rparr>, if ov_callback s then [OnEncodedImage frame idr idx sync] else []))"

text \<open>
  A frame comes with its size, or no I420 form; the environment answers the creation of an encoder
  and the encoding, which yields an IDR flag and a temporal id, or nothing.
\<close>

record sw_env =
  sv_create :: bool
  sv_init :: bool
  sv_encoded :: "(bool \<times> int) option"

definition SwConfig :: "int \<Rightarrow> int \<Rightarrow> sw_encoder \<Rightarrow> enc_config" where
  "SwConfig w h s = \<lparr>ec_width = w, ec_height = h, ec_fps = ov_fps s, ec_bitrate = ov_bitrate s, ec_max_bitrate = 0,
     ec_keyframe_interval = kKeyFrameIntervalFrames, ec_idr_interval = kKeyFrameIntervalFrames,
     ec_frame_dropping = ov_dropping s, ec_thread_count = NumberOfThreads (ov_thread_limit s) (ov_cores s),
     ec_is_dma_src = False, ec_dst = None, ec_temporal_layers = ov_layers s\<rparr>"

definition SwEncode :: "sw_env \<Rightarrow> nat \<Rightarrow> (int \<times> int) option \<Rightarrow> frame_type list option \<Rightarrow> sw_encoder \<Rightarrow> codec_result \<times> sw_encoder \<times> enc_out list" where
  "SwEncode env frame i420 types s =
     (case types of
        None \<Rightarrow> (NoOutput, s, [])
      | Some ts \<Rightarrow>
          if hd ts = EmptyFrame then (CodecOk, s, [])
          else case i420 of
            None \<Rightarrow> (ErrParameter, s, [])
          | Some (w, h) \<Rightarrow>
              let s1 = (if ov_encoder s \<noteq> None \<and> (ov_width s \<noteq> w \<or> ov_height s \<noteq> h) then s\<lparr>ov_encoder := None\<rparr> else s);
                  (s2, os2) = (case ov_encoder s1 of
                      Some e \<Rightarrow> (s1, [])
                    | None \<Rightarrow> (let t = s1\<lparr>ov_width := w, ov_height := h\<rparr>;
                                  (e, os) = Openh264Create (sv_create env) (sv_init env) (SwConfig w h t)
                              in (t\<lparr>ov_encoder := e\<rparr>, os)))
              in case ov_encoder s2 of
                   None \<Rightarrow> (CodecError, s2, os2)
                 | Some e \<Rightarrow>
                     let os3 = os2 @ (if hd ts = KeyFrame then ForceIntraFrame e else [])
                     in case sv_encoded env of
                          None \<Rightarrow> (CodecOk, s2, os3 @ (if ov_callback s2 then [OnDroppedFrame] else []))
                        | Some (idr, tid) \<Rightarrow> (case SwSendFrame frame idr tid s2 of (s3, os4) \<Rightarrow> (CodecOk, s3, os3 @ os4)))"

definition SwSetRates :: "rate_params \<Rightarrow> sw_encoder \<Rightarrow> sw_encoder \<times> enc_out list" where
  "SwSetRates r s =
     (if rp_bps r = 0 \<or> rp_fps r \<le> 0 then (s, [])
      else let s1 = s\<lparr>ov_bitrate := sint (rp_bps r), ov_fps := fps_to_int (rp_fps r)\<rparr>
           in case ov_encoder s1 of
                None \<Rightarrow> (s1, [])
              | Some e \<Rightarrow> (case Openh264SetRates (ov_bitrate s1) (ov_fps s1) e of (e1, os) \<Rightarrow> (s1\<lparr>ov_encoder := Some e1\<rparr>, os)))"

datatype sw_event =
    SwInit codec_settings int "int option"
  | SwCallback bool
  | SwReleased
  | SwFrame sw_env nat "(int \<times> int) option" "frame_type list option"
  | SwRates rate_params

fun sw_step :: "sw_encoder \<Rightarrow> sw_event \<Rightarrow> sw_encoder \<times> enc_out list" where
  "sw_step s (SwInit cs cores limit) = (snd (SwInitEncode cs cores limit s), [])"
| "sw_step s (SwCallback cb) = (SwRegister cb s, [])"
| "sw_step s SwReleased = (SwRelease s, [])"
| "sw_step s (SwFrame env frame i420 types) = snd (SwEncode env frame i420 types s)"
| "sw_step s (SwRates r) = SwSetRates r s"

subsection \<open>The encoder follows what WebRTC asked for\<close>

definition sw_inv :: "sw_encoder \<Rightarrow> bool" where
  "sw_inv s \<longleftrightarrow> (\<forall>e. ov_encoder s = Some e \<longrightarrow>
     ec_bitrate (he_config e) = ov_bitrate s \<and> ec_fps (he_config e) = ov_fps s \<and>
     ec_width (he_config e) = ov_width s \<and> ec_height (he_config e) = ov_height s \<and>
     ec_temporal_layers (he_config e) = ov_layers s \<and> he_max_bitrate e = UNSPECIFIED_BIT_RATE)"

lemma sw_inv_step: "sw_inv s \<Longrightarrow> sw_inv (fst (sw_step s e))"
  by (cases e)
     (auto simp: sw_inv_def SwInitEncode_def SwRegister_def SwRelease_def SwEncode_def SwSendFrame_def SwSetRates_def
        Openh264Create_def Openh264SetRates_def SwConfig_def Let_def split: option.splits prod.splits)

interpretation sw: machine sw_step sw_inv
  by unfold_locales (rule sw_inv_step)

text \<open>
  Whatever WebRTC has called before, a frame that is encoded is encoded at its own size, at the
  bitrate and frame rate WebRTC has asked for last and with the layers of the last \<open>InitEncode\<close>.
\<close>

theorem frames_are_encoded_as_asked:
  assumes "s = fst (run sw_step (Openh264VideoInit a) es)"
    and "SwEncode env frame (Some (w, h)) types s = (CodecOk, s', os)" "OnEncodedImage frame idr idx sync \<in> set os"
  shows "\<exists>e. ov_encoder s' = Some e \<and> ec_width (he_config e) = w \<and> ec_height (he_config e) = h \<and>
     ec_bitrate (he_config e) = ov_bitrate s \<and> ec_fps (he_config e) = ov_fps s \<and>
     ec_temporal_layers (he_config e) = ov_layers s"
proof -
  have "sw_inv s"
    using sw.inv_run [of "Openh264VideoInit a" es] assms(1) by (simp add: sw_inv_def Openh264VideoInit_def)
  then show ?thesis
    using assms(2,3)
    by (auto simp: sw_inv_def SwEncode_def SwSendFrame_def Openh264Create_def SwConfig_def Let_def
        split: option.splits prod.splits if_splits)
qed

definition demo_settings :: codec_settings where
  "demo_settings = \<lparr>cs_type = H264, cs_width = 640, cs_height = 480, cs_max_framerate = 30, cs_start_bitrate = 300,
     cs_max_bitrate = 2000, cs_h264_layers = 1, cs_stream_layers = 1, cs_frame_dropping = True, cs_l1t1 = None\<rparr>"

definition demo_sw :: sw_env where
  "demo_sw = \<lparr>sv_create = True, sv_init = True, sv_encoded = Some (True, 0)\<rparr>"

definition demo_sw_events :: "sw_event list" where
  "demo_sw_events = [SwInit demo_settings 4 None, SwCallback True, SwRates \<lparr>rp_bps = 250000, rp_fps = 15, rp_bandwidth = 0\<rparr>]"

definition demo_encoder :: sw_encoder where
  "demo_encoder = fst (run sw_step (Openh264VideoInit demo_args) demo_sw_events)"

theorem frames_are_encoded_as_asked_witness:
  "\<exists>e. ov_encoder (fst (snd (SwEncode demo_sw 7 (Some (64, 32)) (Some [DeltaFrame]) demo_encoder))) = Some e \<and>
     ec_width (he_config e) = 64 \<and> ec_height (he_config e) = 32 \<and> ec_bitrate (he_config e) = ov_bitrate demo_encoder \<and>
     ec_fps (he_config e) = ov_fps demo_encoder \<and> ec_temporal_layers (he_config e) = ov_layers demo_encoder"
  by (rule frames_are_encoded_as_asked [where a = demo_args and es = demo_sw_events and env = demo_sw and frame = 7 and idr = True
        and idx = None and sync = False and types = "Some [DeltaFrame]"
        and os = "snd (snd (SwEncode demo_sw 7 (Some (64, 32)) (Some [DeltaFrame]) demo_encoder))"])
     (simp_all add: demo_encoder_def demo_sw_events_def demo_sw_def demo_settings_def Openh264VideoInit_def SwInitEncode_def SwRegister_def
        SwSetRates_def SwEncode_def SwSendFrame_def Openh264Create_def SwConfig_def TemporalMarks_def Let_def)

subsection \<open>Temporal layers\<close>

fun marks :: "int \<Rightarrow> int \<Rightarrow> int list \<Rightarrow> (int option \<times> bool) list" where
  "marks layers limit [] = []"
| "marks layers limit (t # ts) = (case TemporalMarks layers limit t of (m, l) \<Rightarrow> m # marks layers l ts)"

text \<open>The frames since the last one of the base layer.\<close>

definition since_base :: "int list \<Rightarrow> int list" where
  "since_base ts = rev (takeWhile (\<lambda>t. t \<noteq> 0) (rev ts))"

lemma since_base_simps [simp]:
  "since_base [] = []" "since_base (ts @ [t]) = (if t = 0 then [] else since_base ts @ [t])"
  by (simp_all add: since_base_def)

definition limit_after :: "int \<Rightarrow> int \<Rightarrow> int list \<Rightarrow> int" where
  "limit_after layers limit ts = fold (\<lambda>t l. snd (TemporalMarks layers l t)) ts limit"

lemma marks_append: "marks layers limit (xs @ ys) = marks layers limit xs @ marks layers (limit_after layers limit xs) ys"
  by (induction xs arbitrary: limit) (auto simp: limit_after_def split: prod.splits)

lemma length_marks [simp]: "length (marks layers limit ts) = length ts"
  by (induction ts arbitrary: limit) (auto split: prod.splits)

lemma limit_is_least:
  assumes "1 < layers" "\<forall>t \<in> set ts. 0 \<le> t \<and> t < layers"
  shows "limit_after layers layers ts = Min (insert layers (set (since_base ts)))"
  using assms(2)
proof (induction ts rule: rev_induct)
  case (snoc t ts)
  have fin: "finite (insert layers (set (since_base ts)))" by simp
  have step: "limit_after layers layers (ts @ [t]) =
      snd (TemporalMarks layers (Min (insert layers (set (since_base ts)))) t)"
    using snoc by (simp add: limit_after_def)
  show ?case
  proof (cases "t = 0")
    case False
    define m where "m = Min (insert layers (set (since_base ts)))"
    have "insert layers (set (since_base (ts @ [t]))) = insert t (insert layers (set (since_base ts)))"
      using False by auto
    moreover have "Min (insert t (insert layers (set (since_base ts)))) = min t m"
      using fin by (simp only: m_def) (rule Min_insert, auto)
    moreover have "limit_after layers layers (ts @ [t]) = (if t < m then t else m)"
      using step False snoc.prems assms(1) by (simp add: m_def [symmetric] TemporalMarks_def Let_def)
    ultimately show ?thesis by (simp add: min_def)
  qed (use step assms(1) in \<open>simp add: TemporalMarks_def Let_def\<close>)
qed (simp add: limit_after_def)

text \<open>
  With more than one temporal layer a frame carries its layer, and it is marked as a sync point
  exactly when it is above the base layer and no frame since the last base layer frame was in its
  layer or below: a receiver that has only the base layer can switch up at it.
\<close>

theorem sync_marks_first_of_layer:
  assumes "1 < layers" "\<forall>t \<in> set (ts @ [t]). 0 \<le> t \<and> t < layers"
  shows "last (marks layers layers (ts @ [t])) = (Some t, 0 < t \<and> (\<forall>u \<in> set (since_base ts). t < u))"
proof -
  have "limit_after layers layers ts = Min (insert layers (set (since_base ts)))"
    using assms by (intro limit_is_least) auto
  then have "t < limit_after layers layers ts \<longleftrightarrow> (\<forall>u \<in> set (since_base ts). t < u)"
    using assms(2) by (simp add: Min_gr_iff)
  then show ?thesis
    using assms(1) by (auto simp: marks_append TemporalMarks_def Let_def)
qed

theorem sync_marks_first_of_layer_witness:
  "last (marks 3 3 ([0, 2, 1] @ [2])) = (Some 2, 0 < (2 :: int) \<and> (\<forall>u \<in> set (since_base [0, 2, 1]). 2 < u))"
  by (rule sync_marks_first_of_layer) auto

text \<open>
  Creation that fails in the library's \<open>WelsCreateSVCEncoder\<close> calls the destructor, which uses the
  encoder that was not created.
\<close>

theorem failed_creation_crashes:
  assumes "ov_encoder s = None" "hd types \<noteq> EmptyFrame" "\<not> sv_create env"
  shows "SwEncode env frame (Some (w, h)) (Some types) s =
     (CodecError, s\<lparr>ov_width := w, ov_height := h, ov_encoder := None\<rparr>, [NullDereference])"
  using assms by (simp add: SwEncode_def Openh264Create_def Let_def)

theorem failed_creation_crashes_witness:
  "SwEncode \<lparr>sv_create = False, sv_init = False, sv_encoded = None\<rparr> 1 (Some (64, 32)) (Some [DeltaFrame]) (Openh264VideoInit demo_args) =
     (CodecError, (Openh264VideoInit demo_args)\<lparr>ov_width := 64, ov_height := 32, ov_encoder := None\<rparr>, [NullDereference])"
  by (rule failed_creation_crashes) (simp_all add: Openh264VideoInit_def)

end
