(* ===== verification/HwEncoders.thy ===== *)
theory HwEncoders
  imports Encoders
begin

text \<open>
  The hardware encoders WebRTC is given and the factory: the rate handling of
  src/src/codecs/v4l2/v4l2_encoder.cpp, src/src/codecs/v4l2/v4l2_h264_encoder.cpp,
  src/src/codecs/jetson/jetson_video_encoder.cpp with the gears of resolution and bitrate, and
  src/src/rtc/custom_video_encoder_factory.cpp.
\<close>

section \<open>The bitrate of the Raspberry Pi's encoder\<close>

definition kBitrateStepBps :: "32 word" where "kBitrateStepBps = 25000"

definition V4L2SetBitrate :: "32 word \<Rightarrow> enc_config \<Rightarrow> enc_config \<times> enc_out list" where
  "V4L2SetBitrate adjusted_bitrate_bps cfg =
     (let b = max (adjusted_bitrate_bps div kBitrateStepBps) 1 * kBitrateStepBps
      in if word_of_int (ec_bitrate cfg) \<noteq> b
         then (cfg\<lparr>ec_bitrate := sint b\<rparr>, [DeviceBitrate (sint b)]) else (cfg, []))"

definition V4L2SetFps :: "32 word \<Rightarrow> enc_config \<Rightarrow> enc_config \<times> enc_out list" where
  "V4L2SetFps adjusted_fps cfg =
     (if word_of_int (ec_fps cfg) \<noteq> adjusted_fps
      then (cfg\<lparr>ec_fps := sint adjusted_fps\<rparr>, [DeviceFps (sint adjusted_fps)]) else (cfg, []))"

text \<open>The bitrate is rounded down to a step the driver accepts, and is never below one step.\<close>

theorem bitrate_is_stepped:
  assumes "0 < b" "b < 2 ^ 31" "V4L2SetBitrate (of_nat b) cfg = (cfg', os)" "0 \<le> ec_bitrate cfg" "ec_bitrate cfg < 2 ^ 31"
  shows "ec_bitrate cfg' mod 25000 = 0 \<and> 25000 \<le> ec_bitrate cfg' \<and>
     (25000 \<le> b \<longrightarrow> ec_bitrate cfg' \<le> int b \<and> int b < ec_bitrate cfg' + 25000)"
proof -
  have b: "unat (of_nat b :: 32 word) = b" using assms(2) by (simp add: unat_of_nat take_bit_nat_eq_self)
  define q where "q = max (b div 25000) 1"
  have q: "q * 25000 < 2 ^ 31" "1 \<le> q" using assms(2) by (auto simp: q_def max_def)
  have m: "max ((of_nat b :: 32 word) div kBitrateStepBps) 1 = of_nat q"
  proof -
    have "(of_nat b :: 32 word) div kBitrateStepBps = of_nat (b div 25000)"
      using b by (simp add: kBitrateStepBps_def word_unat_eq_iff unat_div unat_of_nat take_bit_nat_eq_self assms(2))
    moreover have "(1 :: 32 word) \<le> of_nat (b div 25000) \<longleftrightarrow> 1 \<le> b div 25000"
      using assms(2) by (simp add: word_le_nat_alt unat_of_nat take_bit_nat_eq_self)
    moreover have "(of_nat (b div 25000) :: 32 word) = 0" if "\<not> 1 \<le> b div 25000" using that by simp
    ultimately show ?thesis by (cases "1 \<le> b div 25000") (simp_all add: q_def)
  qed
  have "sint (of_nat (q * 25000) :: 32 word) = int (q * 25000)"
    using q(1) by (simp only: signed_of_nat) (simp add: signed_take_bit_int_eq_self)
  then have s: "sint (of_nat q * kBitrateStepBps :: 32 word) = int (q * 25000)"
    by (simp add: kBitrateStepBps_def)
  have "ec_bitrate cfg' = int (q * 25000)"
  proof (cases "word_of_int (ec_bitrate cfg) = (of_nat q * kBitrateStepBps :: 32 word)")
    case True
    then have "sint (word_of_int (ec_bitrate cfg) :: 32 word) = int (q * 25000)" using s by simp
    then have "ec_bitrate cfg = int (q * 25000)"
      using assms(4,5) by (simp add: signed_take_bit_int_eq_self signed_of_int)
    then show ?thesis using assms(3) True m by (simp add: V4L2SetBitrate_def Let_def)
  next
    case False
    then show ?thesis using assms(3) m s by (auto simp: V4L2SetBitrate_def Let_def)
  qed
  then show ?thesis using q by (auto simp: q_def max_def)
qed

theorem bitrate_is_stepped_witness:
  "ec_bitrate (fst (V4L2SetBitrate (of_nat 130000) (SwConfig 64 32 (Openh264VideoInit demo_args)))) mod 25000 = 0 \<and>
   25000 \<le> ec_bitrate (fst (V4L2SetBitrate (of_nat 130000) (SwConfig 64 32 (Openh264VideoInit demo_args)))) \<and>
   (25000 \<le> (130000 :: nat) \<longrightarrow>
      ec_bitrate (fst (V4L2SetBitrate (of_nat 130000) (SwConfig 64 32 (Openh264VideoInit demo_args)))) \<le> int 130000 \<and>
      int 130000 < ec_bitrate (fst (V4L2SetBitrate (of_nat 130000) (SwConfig 64 32 (Openh264VideoInit demo_args)))) + 25000)"
  by (rule bitrate_is_stepped [where os = "snd (V4L2SetBitrate (of_nat 130000) (SwConfig 64 32 (Openh264VideoInit demo_args)))"
        and cfg = "SwConfig 64 32 (Openh264VideoInit demo_args)"])
     (simp_all add: SwConfig_def Openh264VideoInit_def)

section \<open>The Raspberry Pi's encoder\<close>

record v4_encoder =
  vh_width :: int
  vh_height :: int
  vh_fps :: int
  vh_bitrate :: int
  vh_playout :: "(int \<times> int) option"
  vh_callback :: bool
  vh_encoder :: "enc_config option"

definition V4L2H264Init :: "args \<Rightarrow> v4_encoder" where
  "V4L2H264Init a = \<lparr>vh_width = 0, vh_height = 0, vh_fps = fps a, vh_bitrate = 0, vh_playout = PlayoutDelayOf a,
     vh_callback = False, vh_encoder = None\<rparr>"

definition V4InitEncode :: "codec_settings \<Rightarrow> v4_encoder \<Rightarrow> codec_result \<times> v4_encoder" where
  "V4InitEncode cs s =
     (if cs_type cs \<noteq> H264 then CodecError else CodecOk,
      s\<lparr>vh_width := cs_width cs, vh_height := cs_height cs, vh_bitrate := kbps_to_bps (cs_start_bitrate cs)\<rparr>)"

definition V4Register :: "bool \<Rightarrow> v4_encoder \<Rightarrow> v4_encoder" where
  "V4Register cb s = s\<lparr>vh_callback := cb\<rparr>"

definition V4Release :: "v4_encoder \<Rightarrow> v4_encoder" where
  "V4Release s = s\<lparr>vh_callback := False, vh_encoder := None\<rparr>"

text \<open>A frame is a native one, with a dma buffer or without, or not native.\<close>

definition V4Config :: "bool \<Rightarrow> v4_encoder \<Rightarrow> enc_config" where
  "V4Config dma s = \<lparr>ec_width = vh_width s, ec_height = vh_height s, ec_fps = vh_fps s, ec_bitrate = vh_bitrate s,
     ec_max_bitrate = 0, ec_keyframe_interval = kKeyFrameIntervalFrames, ec_idr_interval = kKeyFrameIntervalFrames,
     ec_frame_dropping = True, ec_thread_count = 4, ec_is_dma_src = dma, ec_dst = None, ec_temporal_layers = 1\<rparr>"

definition V4Encode :: "bool \<Rightarrow> nat \<Rightarrow> bool option \<Rightarrow> frame_type list option \<Rightarrow> v4_encoder \<Rightarrow> codec_result \<times> v4_encoder \<times> enc_out list" where
  "V4Encode create_ok frame native types s =
     (case types of
        None \<Rightarrow> (NoOutput, s, [])
      | Some ts \<Rightarrow>
          if hd ts = EmptyFrame then (CodecOk, s, [])
          else case native of
            None \<Rightarrow> (ErrParameter, s, [])
          | Some dma \<Rightarrow>
              let s1 = (if vh_encoder s = None \<and> create_ok then s\<lparr>vh_encoder := Some (V4Config dma s)\<rparr> else s)
              in if vh_encoder s1 = None then (CodecOk, s1, [NullDereference])
                 else (CodecOk, s1, (if hd ts = KeyFrame then [ForceIntra] else []) @ [DeviceEmplace frame]))"

definition V4SetRates :: "rate_params \<Rightarrow> v4_encoder \<Rightarrow> v4_encoder \<times> enc_out list" where
  "V4SetRates r s =
     (if rp_bps r = 0 \<or> rp_fps r \<le> 0 then (s, [])
      else let s1 = s\<lparr>vh_bitrate := sint (rp_bps r), vh_fps := fps_to_int (rp_fps r)\<rparr>
           in case vh_encoder s1 of
                None \<Rightarrow> (s1, [])
              | Some cfg \<Rightarrow>
                  (case V4L2SetFps (word_of_int (vh_fps s1)) cfg of (c1, os1) \<Rightarrow>
                  (case V4L2SetBitrate (word_of_int (vh_bitrate s1)) c1 of (c2, os2) \<Rightarrow>
                     (s1\<lparr>vh_encoder := Some c2\<rparr>, os1 @ os2))))"

text \<open>The callback that \<open>Encode\<close> gives to the device calls this when the frame is encoded.\<close>

definition V4SendFrame :: "nat \<Rightarrow> bool \<Rightarrow> v4_encoder \<Rightarrow> enc_out list" where
  "V4SendFrame frame key s = (if vh_callback s then [OnEncodedImage frame key None False] else [])"

text \<open>
  The encoder that \<open>V4L2Encoder::Create\<close> could not open is used all the same: a device that has been
  taken by another program since the formats were offered ends the process at the first frame.
\<close>

theorem busy_encoder_crashes:
  assumes "vh_encoder s = None" "hd types \<noteq> EmptyFrame"
  shows "V4Encode False frame (Some dma) (Some types) s = (CodecOk, s, [NullDereference])"
  using assms by (simp add: V4Encode_def Let_def)

theorem busy_encoder_crashes_witness:
  "V4Encode False 1 (Some True) (Some [KeyFrame]) (V4L2H264Init demo_args) = (CodecOk, V4L2H264Init demo_args, [NullDereference])"
  by (rule busy_encoder_crashes) (simp_all add: V4L2H264Init_def)

section \<open>The gears of the Jetson\<close>

record gear =
  g_width :: int
  g_height :: int
  g_min_start :: int
  g_min :: int
  g_max :: int

definition kGearFps :: int where "kGearFps = 60"

definition kH264Gears :: "gear list" where
  "kH264Gears = [\<lparr>g_width = 480, g_height = 270, g_min_start = 0, g_min = 251, g_max = 750\<rparr>,
     \<lparr>g_width = 640, g_height = 360, g_min_start = 750, g_min = 570, g_max = 1350\<rparr>,
     \<lparr>g_width = 960, g_height = 540, g_min_start = 1350, g_min = 1026, g_max = 1350\<rparr>,
     \<lparr>g_width = 1280, g_height = 720, g_min_start = 1350, g_min = 1026, g_max = 2400\<rparr>,
     \<lparr>g_width = 1920, g_height = 1080, g_min_start = 2400, g_min = 1824, g_max = 0\<rparr>]"

definition kAv1Gears :: "gear list" where
  "kAv1Gears = [\<lparr>g_width = 480, g_height = 270, g_min_start = 0, g_min = 342, g_max = 750\<rparr>,
     \<lparr>g_width = 640, g_height = 360, g_min_start = 750, g_min = 570, g_max = 1350\<rparr>,
     \<lparr>g_width = 960, g_height = 540, g_min_start = 1350, g_min = 1026, g_max = 1350\<rparr>,
     \<lparr>g_width = 1280, g_height = 720, g_min_start = 1350, g_min = 1026, g_max = 4500\<rparr>,
     \<lparr>g_width = 1920, g_height = 1080, g_min_start = 4500, g_min = 3420, g_max = 0\<rparr>]"

record bitrate_limits =
  bl_pixels :: int
  bl_min_start :: int
  bl_min :: int
  bl_max :: int

text \<open>
  Products and quotients of \<open>double\<close>s are the exact ones, rounded by \<open>rnd\<close>: IEEE 754's rounding is
  monotone, and exact on the integers up to \<open>2 ^ 53\<close>. A cast to \<open>int\<close> cuts off.
\<close>

definition double_rounding :: "(rat \<Rightarrow> rat) \<Rightarrow> bool" where
  "double_rounding rnd \<longleftrightarrow> mono rnd \<and> (\<forall>n :: int. \<bar>n\<bar> \<le> 2 ^ 53 \<longrightarrow> rnd (of_int n) = of_int n)"

definition gear_bps :: "(rat \<Rightarrow> rat) \<Rightarrow> int \<Rightarrow> int \<Rightarrow> int" where
  "gear_bps rnd framerate kbps =
     (let scale = rnd (rnd (1000 * of_int framerate) / of_int kGearFps) in \<lfloor>rnd (of_int kbps * scale)\<rfloor>)"

definition ScaleGears :: "(rat \<Rightarrow> rat) \<Rightarrow> gear list \<Rightarrow> int \<Rightarrow> bitrate_limits list" where
  "ScaleGears rnd gears framerate = map (\<lambda>g.
     \<lparr>bl_pixels = g_width g * g_height g, bl_min_start = gear_bps rnd framerate (g_min_start g),
      bl_min = max (gear_bps rnd framerate (g_min g)) 30000,
      bl_max = (if g_max g \<noteq> 0 then gear_bps rnd framerate (g_max g) else 100000000)\<rparr>) gears"

definition limits_ok :: "bitrate_limits \<Rightarrow> bool" where
  "limits_ok l \<longleftrightarrow> 0 \<le> bl_min_start l \<and> bl_min_start l \<le> bl_max l \<and> 30000 \<le> bl_min l \<and> bl_min l \<le> bl_max l \<and> bl_max l < 2 ^ 31"

lemma gear_bps_mono:
  assumes "double_rounding rnd" "0 \<le> framerate" "framerate \<le> 1000000" "k \<le> k'"
  shows "gear_bps rnd framerate k \<le> gear_bps rnd framerate k'"
proof -
  have m: "mono rnd" using assms(1) by (simp add: double_rounding_def)
  have exact: "\<bar>n\<bar> \<le> 2 ^ 53 \<Longrightarrow> rnd (of_int n) = of_int n" for n :: int
    using assms(1) by (simp add: double_rounding_def)
  have zero: "rnd 0 = 0" using exact [of 0] by simp
  then have "0 \<le> rnd (1000 * of_int framerate)"
    using monoD [OF m, of 0 "1000 * of_int framerate"] assms(2) by simp
  then have "0 \<le> rnd (rnd (1000 * of_int framerate) / of_int kGearFps)"
    using monoD [OF m, of 0 "rnd (1000 * of_int framerate) / of_int kGearFps"] zero
    by (simp add: kGearFps_def)
  then show ?thesis
    using assms(4) by (simp add: gear_bps_def Let_def) (intro floor_mono monoD [OF m] mult_right_mono; simp)
qed

lemma gear_bps_bounds:
  assumes "double_rounding rnd" "3 \<le> framerate" "framerate \<le> 600" "0 \<le> k" "k \<le> 10000"
  shows "50 * k \<le> gear_bps rnd framerate k \<and> gear_bps rnd framerate k \<le> 10000 * k"
proof -
  have m: "mono rnd" and exact: "\<bar>n\<bar> \<le> 2 ^ 53 \<Longrightarrow> rnd (of_int n) = of_int n" for n :: int
    using assms(1) by (simp_all add: double_rounding_def)
  have base: "rnd (1000 * of_int framerate) = 1000 * of_int framerate"
    using exact [of "1000 * framerate"] assms(2,3) by simp
  define scale where "scale = rnd (rnd (1000 * of_int framerate) / of_int kGearFps)"
  have "rnd (of_int 50) \<le> scale" "scale \<le> rnd (of_int 10000)"
    unfolding scale_def base using assms(2,3) by (intro monoD [OF m]; simp add: kGearFps_def field_simps)+
  then have scale: "50 \<le> scale" "scale \<le> 10000" using exact [of 50] exact [of 10000] by simp_all
  have "rnd (of_int (50 * k)) \<le> rnd (of_int k * scale)" "rnd (of_int k * scale) \<le> rnd (of_int (10000 * k))"
    using scale assms(4) mult_left_mono [OF scale(1), of "of_int k"] mult_left_mono [OF scale(2), of "of_int k"]
    by (intro monoD [OF m]; simp add: mult.commute)+
  then have "of_int (50 * k) \<le> rnd (of_int k * scale)" "rnd (of_int k * scale) \<le> of_int (10000 * k)"
    using exact [of "50 * k"] exact [of "10000 * k"] assms(4,5) by simp_all
  then show ?thesis
    unfolding gear_bps_def scale_def [symmetric] Let_def
    by (simp add: le_floor_iff floor_le_iff)
qed

text \<open>
  From 3 to 600 frames per second both tables of gears give WebRTC limits it can use: growing frame
  sizes, a minimum of at least 30 kbps and never above the maximum, all of them an \<open>int\<close>.
\<close>

theorem gears_are_consistent:
  assumes "double_rounding rnd" "3 \<le> framerate" "framerate \<le> 600" "gears \<in> {kH264Gears, kAv1Gears}"
  shows "sorted_wrt (<) (map bl_pixels (ScaleGears rnd gears framerate)) \<and> list_all limits_ok (ScaleGears rnd gears framerate)"
proof -
  have mono: "gear_bps rnd framerate a \<le> gear_bps rnd framerate c" if "a \<le> c" for a c
    using assms(2,3) that by (intro gear_bps_mono [OF assms(1)]) auto
  have ok: "limits_ok \<lparr>bl_pixels = p, bl_min_start = gear_bps rnd framerate a, bl_min = max (gear_bps rnd framerate b) 30000,
      bl_max = gear_bps rnd framerate c\<rparr>"
    if "0 \<le> a" "750 \<le> c" "c \<le> 4500" "a \<le> c" "b \<le> c" for p a b c
    using that mono [of a c] mono [of b c] gear_bps_bounds [OF assms(1-3), of a] gear_bps_bounds [OF assms(1-3), of c]
    by (auto simp: limits_ok_def)
  have top: "limits_ok \<lparr>bl_pixels = p, bl_min_start = gear_bps rnd framerate a, bl_min = max (gear_bps rnd framerate b) 30000,
      bl_max = 100000000\<rparr>" if "0 \<le> a" "a \<le> 4500" "0 \<le> b" "b \<le> 4500" for p a b
    using that gear_bps_bounds [OF assms(1-3), of a] gear_bps_bounds [OF assms(1-3), of b] by (auto simp: limits_ok_def)
  show ?thesis
    using assms(4) by (auto simp: ScaleGears_def kH264Gears_def kAv1Gears_def ok top)
qed

theorem gears_are_consistent_witness:
  "sorted_wrt (<) (map bl_pixels (ScaleGears (\<lambda>x. x) kH264Gears 30)) \<and> list_all limits_ok (ScaleGears (\<lambda>x. x) kH264Gears 30)"
  by (rule gears_are_consistent) (simp_all add: double_rounding_def mono_def)

text \<open>At 2 frames per second the first gear's minimum is above its maximum.\<close>

lemma slow_gear_is_inconsistent:
  "bl_max (hd (ScaleGears (\<lambda>x. x) kH264Gears 2)) < bl_min (hd (ScaleGears (\<lambda>x. x) kH264Gears 2))"
  by (simp add: ScaleGears_def kH264Gears_def gear_bps_def kGearFps_def)

section \<open>The Jetson's encoder\<close>

definition kGearHeadroomPercent :: int where "kGearHeadroomPercent = 125"

record jv_encoder =
  jv_width :: int
  jv_height :: int
  jv_fps :: int
  jv_bitrate :: int
  jv_max_bitrate_kbps :: int
  jv_codec :: video_codec
  jv_codec_max :: "32 word" \<comment> \<open>\<open>codec_.maxBitrate\<close>\<close>
  jv_limits :: "bitrate_limits list"
  jv_playout :: "(int \<times> int) option"
  jv_callback :: bool
  jv_encoder :: "enc_config option"

definition JetsonVideoInit :: "(rat \<Rightarrow> rat) \<Rightarrow> args \<Rightarrow> video_codec \<Rightarrow> jv_encoder" where
  "JetsonVideoInit rnd a codec_type = \<lparr>jv_width = 0, jv_height = 0, jv_fps = fps a, jv_bitrate = 0,
     jv_max_bitrate_kbps = max_bitrate a, jv_codec = GenericCodec, jv_codec_max = 0,
     jv_limits = (if \<not> no_adaptive a \<and> codec_type = H264 then ScaleGears rnd kH264Gears (fps a)
                  else if \<not> no_adaptive a \<and> codec_type = AV1 then ScaleGears rnd kAv1Gears (fps a) else []),
     jv_playout = PlayoutDelayOf a, jv_callback = False, jv_encoder = None\<rparr>"

definition JvInitEncode :: "codec_settings \<Rightarrow> jv_encoder \<Rightarrow> codec_result \<times> jv_encoder" where
  "JvInitEncode cs s =
     (if cs_l1t1 cs = Some False then (ErrParameter, s)
      else (CodecOk, s\<lparr>jv_codec := cs_type cs, jv_codec_max := cs_max_bitrate cs, jv_width := cs_width cs,
              jv_height := cs_height cs, jv_bitrate := kbps_to_bps (cs_start_bitrate cs)\<rparr>))"

definition JvRegister :: "bool \<Rightarrow> jv_encoder \<Rightarrow> jv_encoder" where
  "JvRegister cb s = s\<lparr>jv_callback := cb\<rparr>"

definition JvRelease :: "jv_encoder \<Rightarrow> jv_encoder" where
  "JvRelease s = s\<lparr>jv_callback := False, jv_encoder := None\<rparr>"

definition GetV4L2CodecFormat :: "video_codec \<Rightarrow> video_codec option" where
  "GetV4L2CodecFormat c = (if c \<in> {VP8, VP9, AV1, H264} then Some c else None)"

definition JvConfig :: "bool \<Rightarrow> video_codec \<Rightarrow> jv_encoder \<Rightarrow> enc_config" where
  "JvConfig dma fmt s = \<lparr>ec_width = jv_width s, ec_height = jv_height s, ec_fps = jv_fps s, ec_bitrate = jv_bitrate s,
     ec_max_bitrate = kbps_to_bps (jv_codec_max s), ec_keyframe_interval = kKeyFrameIntervalFrames,
     ec_idr_interval = kKeyFrameIntervalFrames, ec_frame_dropping = True, ec_thread_count = 4, ec_is_dma_src = dma,
     ec_dst = Some fmt, ec_temporal_layers = 1\<rparr>"

definition JvEncode :: "bool \<Rightarrow> nat \<Rightarrow> bool option \<Rightarrow> frame_type list option \<Rightarrow> jv_encoder \<Rightarrow> codec_result \<times> jv_encoder \<times> enc_out list" where
  "JvEncode create_ok frame native types s =
     (case types of
        None \<Rightarrow> (NoOutput, s, [])
      | Some ts \<Rightarrow>
          if hd ts = EmptyFrame then (CodecOk, s, [])
          else case native of
            None \<Rightarrow> (ErrParameter, s, [])
          | Some dma \<Rightarrow>
              let emplace = (\<lambda>s1. if jv_encoder s1 = None then (CodecOk, s1, [NullDereference])
                              else (CodecOk, s1, (if hd ts = KeyFrame then [ForceIntra] else []) @ [DeviceEmplace frame]))
              in if jv_encoder s \<noteq> None then emplace s
                 else case GetV4L2CodecFormat (jv_codec s) of
                   None \<Rightarrow> (EncoderFailure, s, [])
                 | Some fmt \<Rightarrow> emplace (if create_ok then s\<lparr>jv_encoder := Some (JvConfig dma fmt s)\<rparr> else s))"

text \<open>\<open>JetsonEncoder::SetFps\<close> and \<open>SetBitrate\<close> tell the device only what has changed.\<close>

definition JetsonSetFps :: "int \<Rightarrow> enc_config \<Rightarrow> enc_config \<times> enc_out list" where
  "JetsonSetFps adjusted_fps cfg =
     (if ec_fps cfg \<noteq> adjusted_fps then (cfg\<lparr>ec_fps := adjusted_fps\<rparr>, [DeviceFps adjusted_fps]) else (cfg, []))"

definition JetsonSetBitrate :: "int \<Rightarrow> enc_config \<Rightarrow> enc_config \<times> enc_out list" where
  "JetsonSetBitrate adjusted_bitrate_bps cfg =
     (if ec_bitrate cfg = adjusted_bitrate_bps then (cfg, [])
      else (cfg\<lparr>ec_bitrate := adjusted_bitrate_bps\<rparr>, [DeviceBitrate adjusted_bitrate_bps]))"

definition clamp :: "int \<Rightarrow> int \<Rightarrow> int \<Rightarrow> int" where
  "clamp v lo hi = (if v < lo then lo else if hi < v then hi else v)"

text \<open>
  The headroom of a gear; \<open>None\<close> is a product that no \<open>int\<close> holds. \<open>t\<close> is the target WebRTC gave.
\<close>

definition HeadroomTarget :: "rate_params \<Rightarrow> jv_encoder \<Rightarrow> int \<Rightarrow> int option" where
  "HeadroomTarget r s t =
     (let gear_max_kbps = sint (jv_codec_max s)
      in if jv_limits s = [] \<or> \<not> gear_max_kbps < jv_max_bitrate_kbps s then Some t
         else if gear_max_kbps * 1000 \<notin> {- (2 ^ 31)..<2 ^ 31} then None
         else if t < gear_max_kbps * 1000 then Some t
         else (let room = min (rp_bandwidth r) (jv_max_bitrate_kbps s * 1000)
               in Some (signed_take_bit 31 (clamp room t (t * kGearHeadroomPercent div 100)))))"

definition JvSetRates :: "rate_params \<Rightarrow> jv_encoder \<Rightarrow> jv_encoder \<times> enc_out list" where
  "JvSetRates r s =
     (if rp_bps r = 0 \<or> rp_fps r \<le> 0 then (s, [])
      else let s1 = s\<lparr>jv_fps := fps_to_int (rp_fps r)\<rparr>
           in case HeadroomTarget r s1 (sint (rp_bps r)) of
                None \<Rightarrow> (s1\<lparr>jv_bitrate := sint (rp_bps r)\<rparr>, [SignedOverflow])
              | Some t \<Rightarrow>
                  (let s2 = s1\<lparr>jv_bitrate := t\<rparr>
                   in case jv_encoder s2 of
                        None \<Rightarrow> (s2, [])
                      | Some cfg \<Rightarrow>
                          (case JetsonSetFps (jv_fps s2) cfg of (c1, os1) \<Rightarrow>
                          (case JetsonSetBitrate (jv_bitrate s2) c1 of (c2, os2) \<Rightarrow>
                             (s2\<lparr>jv_encoder := Some c2\<rparr>, os1 @ os2)))))"

definition JvSendFrame :: "nat \<Rightarrow> bool \<Rightarrow> jv_encoder \<Rightarrow> enc_out list" where
  "JvSendFrame frame key s = (if jv_callback s then [OnEncodedImage frame key None False] else [])"

text \<open>\<open>GetEncoderInfo\<close>: whether the QP is trusted, the limits and the smallest frame.\<close>

definition JvEncoderInfo :: "jv_encoder \<Rightarrow> bool \<times> bitrate_limits list \<times> int option" where
  "JvEncoderInfo s =
     (if jv_limits s \<noteq> [] then (False, jv_limits s, Some (bl_pixels (hd (jv_limits s)))) else (True, [], None))"

text \<open>
  The bitrate the device is given: at least what WebRTC asked for and at most a quarter more; the
  additional part only while the gear is at its maximum, and never above the bandwidth of the
  network or the maximum of the options, unless WebRTC itself asked for more.
\<close>

theorem headroom_is_bounded:
  assumes "rp_bps r \<noteq> 0" "0 < rp_fps r" "0 \<le> sint (rp_bps r)" "sint (rp_bps r) < 2 ^ 30"
    and "0 \<le> sint (jv_codec_max s)" "sint (jv_codec_max s) \<le> 2000000"
  shows "let t = sint (rp_bps r); t' = jv_bitrate (fst (JvSetRates r s)) in
     t \<le> t' \<and> 4 * t' \<le> 5 * t \<and>
     (t' \<noteq> t \<longrightarrow> sint (jv_codec_max s) * 1000 \<le> t \<and> t' \<le> rp_bandwidth r \<and> t' \<le> jv_max_bitrate_kbps s * 1000) \<and>
     (\<forall>cfg. jv_encoder (fst (JvSetRates r s)) = Some cfg \<longrightarrow> ec_bitrate cfg = t' \<and> ec_fps cfg = fps_to_int (rp_fps r))"
proof -
  define t where "t = sint (rp_bps r)"
  have bounds: "0 \<le> t" "t < 2 ^ 30" using assms(3,4) by (simp_all add: t_def)
  let ?s1 = "s\<lparr>jv_fps := fps_to_int (rp_fps r)\<rparr>"
  obtain t' where t': "HeadroomTarget r ?s1 t = Some t'" "t \<le> t'" "4 * t' \<le> 5 * t"
      "t' \<noteq> t \<longrightarrow> sint (jv_codec_max s) * 1000 \<le> t \<and> t' \<le> rp_bandwidth r \<and> t' \<le> jv_max_bitrate_kbps s * 1000"
  proof (cases "jv_limits s = [] \<or> \<not> sint (jv_codec_max s) < jv_max_bitrate_kbps s \<or> t < sint (jv_codec_max s) * 1000")
    case True
    then have "HeadroomTarget r ?s1 t = Some t"
      using assms(5,6) by (auto simp: HeadroomTarget_def Let_def)
    then show ?thesis using bounds by (intro that) auto
  next
    case False
    define c where "c = clamp (min (rp_bandwidth r) (jv_max_bitrate_kbps s * 1000)) t (t * 125 div 100)"
    have c: "t \<le> c" "4 * c \<le> 5 * t" "c \<noteq> t \<longrightarrow> c \<le> rp_bandwidth r \<and> c \<le> jv_max_bitrate_kbps s * 1000"
      using bounds by (auto simp: c_def clamp_def)
    then have "signed_take_bit 31 c = c"
      using bounds by (simp add: signed_take_bit_int_eq_self)
    then have "HeadroomTarget r ?s1 t = Some c"
      using False assms(5,6) by (auto simp: HeadroomTarget_def kGearHeadroomPercent_def c_def Let_def)
    then show ?thesis using c False by (intro that) auto
  qed
  then show ?thesis
    using assms(1,2)
    by (auto simp: JvSetRates_def Let_def t_def JetsonSetFps_def JetsonSetBitrate_def split: option.splits)
qed

definition demo_rates :: rate_params where
  "demo_rates = \<lparr>rp_bps = 2000000, rp_fps = 30, rp_bandwidth = 2300000\<rparr>"

definition demo_jetson :: jv_encoder where
  "demo_jetson = snd (JvInitEncode demo_settings ((JetsonVideoInit (\<lambda>x. x) demo_args H264)\<lparr>jv_max_bitrate_kbps := 8000\<rparr>))"

theorem headroom_is_bounded_witness:
  "let t = sint (rp_bps demo_rates); t' = jv_bitrate (fst (JvSetRates demo_rates demo_jetson)) in
     t \<le> t' \<and> 4 * t' \<le> 5 * t \<and>
     (t' \<noteq> t \<longrightarrow> sint (jv_codec_max demo_jetson) * 1000 \<le> t \<and> t' \<le> rp_bandwidth demo_rates \<and> t' \<le> jv_max_bitrate_kbps demo_jetson * 1000) \<and>
     (\<forall>cfg. jv_encoder (fst (JvSetRates demo_rates demo_jetson)) = Some cfg \<longrightarrow> ec_bitrate cfg = t' \<and> ec_fps cfg = fps_to_int (rp_fps demo_rates))"
  by (rule headroom_is_bounded) (simp_all add: demo_rates_def demo_jetson_def demo_settings_def JvInitEncode_def)

section \<open>The factory\<close>

text \<open>
  A format is the name of its codec and its scalability modes. The build chooses the hardware; the
  formats of libwebrtc's own codecs are parameters.
\<close>

datatype build = RpiBuild | JetsonBuild | PlainBuild

type_synonym sdp_format = "string \<times> string list"

record webrtc_formats =
  wf_vp8_modes :: "string list"
  wf_vp9 :: "sdp_format list"
  wf_av1_modes :: "string list"
  wf_h264 :: "sdp_format list"

record encoder_factory =
  ef_args :: args
  ef_hw :: bool

datatype made_encoder = MadeJetson video_codec | MadeV4L2H264 | MadeOpenh264 | MadeVp8 | MadeVp9 | MadeLibaomAv1

text \<open>\<open>None\<close> is the exit for a scalability mode that the hardware encoder does not have.\<close>

definition FactoryInit :: "build \<Rightarrow> bool \<Rightarrow> args \<Rightarrow> encoder_factory option" where
  "FactoryInit b available a =
     (let hw = hw_accel a \<and> \<not> (b = RpiBuild \<and> \<not> available)
      in if hw \<and> scalability_mode a \<noteq> [] then None else Some \<lparr>ef_args = a, ef_hw = hw\<rparr>)"

definition GetSupportedFormats :: "build \<Rightarrow> webrtc_formats \<Rightarrow> encoder_factory \<Rightarrow> sdp_format list" where
  "GetSupportedFormats b fmts f =
     (if ef_hw f
      then (case b of
              RpiBuild \<Rightarrow> replicate 4 (''H264'', [])
            | JetsonBuild \<Rightarrow> replicate 4 (''H264'', []) @ [(''AV1'', [''L1T1''])]
            | PlainBuild \<Rightarrow> [])
      else (''VP8'', wf_vp8_modes fmts) # wf_vp9 fmts @ [(''AV1'', wf_av1_modes fmts)] @ wf_h264 fmts)"

text \<open>\<open>IsSameCodec\<close> is a parameter; an unknown name of a mode is refused.\<close>

definition QueryCodecSupport ::
    "build \<Rightarrow> webrtc_formats \<Rightarrow> (string \<Rightarrow> bool) \<Rightarrow> (sdp_format \<Rightarrow> bool) \<Rightarrow> string option \<Rightarrow> encoder_factory \<Rightarrow> bool" where
  "QueryCodecSupport b fmts known same mode f =
     (case mode of
        None \<Rightarrow> list_ex same (GetSupportedFormats b fmts f)
      | Some m \<Rightarrow> known m \<and> list_ex (\<lambda>sf. same sf \<and> m \<in> set (snd sf)) (GetSupportedFormats b fmts f))"

definition same_name :: "string \<Rightarrow> string \<Rightarrow> bool" where
  "same_name a b \<longleftrightarrow> map tolower a = map tolower b"

definition codec_of_name :: "string \<Rightarrow> video_codec" where
  "codec_of_name n = (if same_name n ''VP8'' then VP8 else if same_name n ''VP9'' then VP9 else if same_name n ''AV1'' then AV1
     else if same_name n ''H264'' then H264 else if same_name n ''H265'' then H265 else GenericCodec)"

definition CreateEncoder :: "build \<Rightarrow> string \<Rightarrow> encoder_factory \<Rightarrow> made_encoder option" where
  "CreateEncoder b name f =
     (if b = JetsonBuild \<and> ef_hw f then Some (MadeJetson (codec_of_name name))
      else if same_name name ''H264'' then Some (if b = RpiBuild \<and> ef_hw f then MadeV4L2H264 else MadeOpenh264)
      else if same_name name ''VP8'' then Some MadeVp8
      else if same_name name ''VP9'' then Some MadeVp9
      else if same_name name ''AV1'' then Some MadeLibaomAv1
      else None)"

text \<open>The codec a made encoder produces; the hardware encoder of the Jetson only has four.\<close>

definition encodes :: "made_encoder \<Rightarrow> video_codec option" where
  "encodes m = (case m of MadeJetson c \<Rightarrow> GetV4L2CodecFormat c | MadeV4L2H264 \<Rightarrow> Some H264 | MadeOpenh264 \<Rightarrow> Some H264
     | MadeVp8 \<Rightarrow> Some VP8 | MadeVp9 \<Rightarrow> Some VP9 | MadeLibaomAv1 \<Rightarrow> Some AV1)"

text \<open>
  What is offered can be made: for every format the factory offers, whatever the build, it creates
  an encoder that produces that codec, and when a scalability mode was asked for, a software one.
\<close>

theorem offered_formats_have_encoders:
  assumes "FactoryInit b available a = Some f" "sf \<in> set (GetSupportedFormats b fmts f)"
    and "\<forall>x \<in> set (wf_vp9 fmts). fst x = ''VP9''" "\<forall>x \<in> set (wf_h264 fmts). fst x = ''H264''"
  shows "\<exists>m. CreateEncoder b (fst sf) f = Some m \<and> encodes m = Some (codec_of_name (fst sf)) \<and>
     (scalability_mode a \<noteq> [] \<longrightarrow> m \<in> {MadeOpenh264, MadeVp8, MadeVp9, MadeLibaomAv1})"
proof -
  have names: "\<not> same_name ''VP8'' ''H264''" "\<not> same_name ''VP9'' ''H264''" "\<not> same_name ''AV1'' ''H264''"
      "\<not> same_name ''VP9'' ''VP8''" "\<not> same_name ''AV1'' ''VP8''" "\<not> same_name ''AV1'' ''VP9''"
      "\<not> same_name ''H264'' ''VP8''" "\<not> same_name ''H264'' ''VP9''" "\<not> same_name ''H264'' ''AV1''"
      "same_name n n" for n
    by (simp_all add: same_name_def tolower_def)
  have hw: "ef_hw f \<longrightarrow> scalability_mode a = []"
    using assms(1) by (auto simp: FactoryInit_def Let_def split: if_splits)
  have "fst sf \<in> {''VP8'', ''VP9'', ''AV1'', ''H264''}" "ef_hw f \<longrightarrow> fst sf \<in> {''H264'', ''AV1''} \<and> b \<noteq> PlainBuild \<and> (b = RpiBuild \<longrightarrow> fst sf = ''H264'')"
    using assms(2-4) by (auto simp: GetSupportedFormats_def split: if_splits build.splits)
  then show ?thesis
    using hw names by (cases b) (auto simp: CreateEncoder_def encodes_def codec_of_name_def GetV4L2CodecFormat_def)
qed

theorem offered_formats_have_encoders_witness:
  "\<exists>m. CreateEncoder JetsonBuild ''AV1'' \<lparr>ef_args = demo_args\<lparr>hw_accel := True\<rparr>, ef_hw = True\<rparr> = Some m \<and>
     encodes m = Some (codec_of_name ''AV1'') \<and>
     (scalability_mode (demo_args\<lparr>hw_accel := True\<rparr>) \<noteq> [] \<longrightarrow> m \<in> {MadeOpenh264, MadeVp8, MadeVp9, MadeLibaomAv1})"
  using offered_formats_have_encoders [where b = JetsonBuild and a = "demo_args\<lparr>hw_accel := True\<rparr>"
      and f = "\<lparr>ef_args = demo_args\<lparr>hw_accel := True\<rparr>, ef_hw = True\<rparr>" and sf = "(''AV1'', [''L1T1''])" and available = True
      and fmts = "\<lparr>wf_vp8_modes = [], wf_vp9 = [], wf_av1_modes = [], wf_h264 = []\<rparr>"]
  by (simp add: FactoryInit_def GetSupportedFormats_def demo_args_def default_args_def)

end
