(* ===== verification/HttpClient.thy ===== *)
theory HttpClient
  imports WebSocket
begin

text \<open>
  \<open>HttpClient\<close> (src/src/signaling/http_client.cpp): one request over HTTP or HTTPS. The url parser,
  the header, and the session as a machine whose events are the completions of its asynchronous
  operations; there is never more than one under way. Boost.Beast is outside the repository: it ends
  an operation that takes longer than the timeout with an error.
\<close>

section \<open>Urls\<close>

record http_url =
  ht_tls :: bool
  ht_host :: string
  ht_port :: "16 word"
  ht_target :: string

text \<open>\<open>InvalidUrl\<close> is the result false, \<open>StoiThrows\<close> the exception of \<open>std::stoi\<close>, which nothing here catches.\<close>

datatype url_error = InvalidUrl | StoiThrows

definition HttpAuthority :: "string \<Rightarrow> 16 word \<Rightarrow> url_error + string \<times> 16 word" where
  "HttpAuthority authority default_port =
     (let port_of = (\<lambda>host s. case stoi s of None \<Rightarrow> Inl StoiThrows | Some p \<Rightarrow> Inr (host, of_int p))
      in if authority \<noteq> [] \<and> hd authority = CHR ''[''
         then (case find_char (CHR '']'') authority of
                 None \<Rightarrow> Inl InvalidUrl
               | Some bracket_end \<Rightarrow>
                   (let host = take (bracket_end - 1) (drop 1 authority)
                    in if bracket_end + 1 < length authority \<and> authority ! (bracket_end + 1) = CHR '':''
                       then port_of host (drop (bracket_end + 2) authority) else Inr (host, default_port)))
         else (case find_char (CHR '':'') authority of
                 None \<Rightarrow> Inr (authority, default_port)
               | Some colon \<Rightarrow> port_of (take colon authority) (drop (colon + 1) authority)))"

definition ParseHttpUrl :: "string \<Rightarrow> url_error + http_url" where
  "ParseHttpUrl url =
     (case find_sub ''://'' url of
        None \<Rightarrow> Inl InvalidUrl
      | Some scheme_end \<Rightarrow>
          (let scheme = map tolower (take scheme_end url);
               rest = drop (scheme_end + 3) url;
               path_start = find_char (CHR ''/'') rest;
               authority = (case path_start of None \<Rightarrow> rest | Some n \<Rightarrow> take n rest);
               target = (case path_start of None \<Rightarrow> ''/'' | Some n \<Rightarrow> drop n rest)
           in if scheme \<noteq> ''http'' \<and> scheme \<noteq> ''https'' then Inl InvalidUrl
              else (case HttpAuthority authority (if scheme = ''http'' then 80 else 443) of
                      Inl e \<Rightarrow> Inl e
                    | Inr (host, port) \<Rightarrow>
                        if host = [] then Inl InvalidUrl
                        else Inr \<lparr>ht_tls = (scheme = ''https''), ht_host = host, ht_port = port, ht_target = target\<rparr>)))"

definition HttpHostHeader :: "http_url \<Rightarrow> string" where
  "HttpHostHeader u =
     (if \<not> (ht_port u = 80 \<and> \<not> ht_tls u) \<and> \<not> (ht_port u = 443 \<and> ht_tls u)
      then ht_host u @ '':'' @ to_digits (unat (ht_port u)) else ht_host u)"

definition print_http_url :: "http_url \<Rightarrow> string" where
  "print_http_url u = (if ht_tls u then ''https://'' else ''http://'') @ HttpHostHeader u @ ht_target u"

definition http_url_ok :: "http_url \<Rightarrow> bool" where
  "http_url_ok u \<longleftrightarrow> ht_host u \<noteq> [] \<and> set (ht_host u) \<inter> {CHR ''/'', CHR '':'', CHR ''[''} = {} \<and>
     ht_target u \<noteq> [] \<and> hd (ht_target u) = CHR ''/''"

text \<open>
  For names and IPv4 addresses the url printed with the Host header of the request is parsed back to
  the same host, port and target.
\<close>

theorem http_url_round_trip:
  assumes "http_url_ok u"
  shows "ParseHttpUrl (print_http_url u) = Inr u"
proof -
  let ?h = "ht_host u" and ?d = "if ht_tls u then 443 else 80 :: 16 word"
  have host: "?h \<noteq> []" "CHR ''/'' \<notin> set ?h" "CHR '':'' \<notin> set ?h" "hd ?h \<noteq> CHR ''[''"
    using assms by (auto simp: http_url_ok_def) (metis hd_in_set)
  have port: "unat (ht_port u) < 2 ^ 31" using unsigned_less [where 'a = nat and w = "ht_port u"] by simp
  have auth: "HttpAuthority (HttpHostHeader u) ?d = Inr (?h, ht_port u)"
    using host stoi_to_digits [OF port, of "[]"] find_char_append [OF host(3), of "to_digits (unat (ht_port u))"]
    by (auto simp: HttpAuthority_def HttpHostHeader_def find_char_None [THEN iffD2, OF host(3)] Let_def)
  obtain t where t: "ht_target u = CHR ''/'' # t" using assms by (cases "ht_target u") (auto simp: http_url_ok_def)
  have "CHR ''/'' \<notin> set (HttpHostHeader u)"
    using host to_digits_no [OF digit_not(1)] by (auto simp: HttpHostHeader_def)
  then have path: "find_char (CHR ''/'') (HttpHostHeader u @ ht_target u) = Some (length (HttpHostHeader u))"
    using find_char_append [of "CHR ''/''" "HttpHostHeader u" t] t by simp
  have scheme: "find_sub ''://'' (print_http_url u) = Some (if ht_tls u then 5 else 4)"
    by (simp add: print_http_url_def starts_with_def)
  have low: "map tolower ''http'' = ''http''" "map tolower ''https'' = ''https''" by (simp_all add: tolower_def)
  show ?thesis
    using scheme path auth host(1) t low
    by (cases "ht_tls u") (simp_all add: ParseHttpUrl_def print_http_url_def Let_def)
qed

theorem http_url_round_trip_witness:
  "ParseHttpUrl (print_http_url \<lparr>ht_tls = True, ht_host = ''api.example.com'', ht_port = 8443, ht_target = ''/token?room=a''\<rparr>) =
     Inr \<lparr>ht_tls = True, ht_host = ''api.example.com'', ht_port = 8443, ht_target = ''/token?room=a''\<rparr>"
  by (rule http_url_round_trip) (simp add: http_url_ok_def)

text \<open>
  The brackets of an IPv6 address are not put back into the Host header: for every such address with
  a port the header reads as another authority, whose port is not a number or not the port.
\<close>

lemma ipv6_host_header_is_broken:
  "ParseHttpUrl ''http://[fe80::1]:8080/'' = Inr \<lparr>ht_tls = False, ht_host = ''fe80::1'', ht_port = 8080, ht_target = ''/''\<rparr>"
  "HttpHostHeader \<lparr>ht_tls = False, ht_host = ''fe80::1'', ht_port = 8080, ht_target = ''/''\<rparr> = ''fe80::1:8080''"
  "HttpAuthority ''fe80::1:8080'' 80 = Inl StoiThrows"
proof -
  have d: "to_digits 8080 = ''8080''" by (simp add: to_digits.simps)
  show "HttpHostHeader \<lparr>ht_tls = False, ht_host = ''fe80::1'', ht_port = 8080, ht_target = ''/''\<rparr> = ''fe80::1:8080''"
    by (simp add: HttpHostHeader_def d)
  show "ParseHttpUrl ''http://[fe80::1]:8080/'' = Inr \<lparr>ht_tls = False, ht_host = ''fe80::1'', ht_port = 8080, ht_target = ''/''\<rparr>"
    by (simp add: ParseHttpUrl_def HttpAuthority_def starts_with_def tolower_def stoi_def is_space_def is_digit_def
        digits_value_def digit_value_def Let_def)
  show "HttpAuthority ''fe80::1:8080'' 80 = Inl StoiThrows"
    by (simp add: HttpAuthority_def stoi_def is_space_def is_digit_def Let_def)
qed

text \<open>Only 16 bits of the port are kept.\<close>

lemma large_port_wraps: "HttpAuthority (h @ '':'' @ to_digits 65616) 80 = Inr (h, 80)" if "CHR '':'' \<notin> set h" "h \<noteq> []" "hd h \<noteq> CHR ''[''"
  using that stoi_to_digits [of 65616 "[]"] find_char_append [OF that(1), of "to_digits 65616"]
  by (simp add: HttpAuthority_def)

section \<open>The session\<close>

record http_query =
  hq_method :: string
  hq_url :: string
  hq_content_type :: string
  hq_bearer :: string
  hq_body :: string
  hq_timeout :: nat

datatype http_stage = Resolving | Connecting | Handshaking | WritingRequest | ReadingResponse | Completed

record http_session =
  ss_url :: http_url
  ss_request :: http_query
  ss_stage :: http_stage
  ss_on_complete :: bool
  ss_completed :: bool

datatype http_out =
    HoResolve string "16 word"
  | HoConnect nat
  | HoHandshake string
  | HoWrite nat "(string \<times> string) list" string
  | HoRead
  | HoShutdown
  | OnComplete bool nat string

definition HttpHeaders :: "http_session \<Rightarrow> (string \<times> string) list" where
  "HttpHeaders s =
     [(''Host'', HttpHostHeader (ss_url s)), (''User-Agent'', ''pi-webrtc''),
      (''Content-Type'', hq_content_type (ss_request s)), (''Accept'', ''*/*'')] @
     (if hq_bearer (ss_request s) \<noteq> [] then [(''Authorization'', ''Bearer '' @ hq_bearer (ss_request s))] else [])"

definition HttpFinish :: "bool \<Rightarrow> nat \<Rightarrow> string \<Rightarrow> http_session \<Rightarrow> http_session \<times> http_out list" where
  "HttpFinish ok status body s =
     (if ss_completed s then (s, [])
      else (s\<lparr>ss_completed := True, ss_on_complete := False, ss_stage := Completed\<rparr>,
            HoShutdown # (if ss_on_complete s then [OnComplete ok status body] else [])))"

definition HttpStart :: "http_session \<Rightarrow> http_session \<times> http_out list" where
  "HttpStart s = (s\<lparr>ss_stage := Resolving\<rparr>, [HoResolve (ht_host (ss_url s)) (ht_port (ss_url s))])"

definition HttpWrite :: "http_session \<Rightarrow> http_session \<times> http_out list" where
  "HttpWrite s = (s\<lparr>ss_stage := WritingRequest\<rparr>,
     [HoWrite (hq_timeout (ss_request s)) (HttpHeaders s) (hq_body (ss_request s))])"

definition HttpRead :: "http_session \<Rightarrow> http_session \<times> http_out list" where
  "HttpRead s = (s\<lparr>ss_stage := ReadingResponse\<rparr>, [HoRead])"

definition HttpOnResolve :: "string option \<Rightarrow> http_session \<Rightarrow> http_session \<times> http_out list" where
  "HttpOnResolve ec s =
     (case ec of
        Some e \<Rightarrow> HttpFinish False 0 (''Failed to resolve '' @ ht_host (ss_url s) @ '': '' @ e) s
      | None \<Rightarrow> (s\<lparr>ss_stage := Connecting\<rparr>, [HoConnect (hq_timeout (ss_request s))]))"

text \<open>\<open>sni\<close> is the result of \<open>SSL_set_tlsext_host_name\<close>.\<close>

definition HttpOnConnect :: "bool \<Rightarrow> string option \<Rightarrow> http_session \<Rightarrow> http_session \<times> http_out list" where
  "HttpOnConnect sni ec s =
     (case ec of
        Some e \<Rightarrow> HttpFinish False 0 (''Failed to connect to '' @ ht_host (ss_url s) @ '': '' @ e) s
      | None \<Rightarrow>
          if \<not> ht_tls (ss_url s) then HttpWrite s
          else if \<not> sni then HttpFinish False 0 ''Failed to set SNI hostname'' s
          else (s\<lparr>ss_stage := Handshaking\<rparr>, [HoHandshake (ht_host (ss_url s))]))"

definition HttpOnTlsHandshake :: "string option \<Rightarrow> http_session \<Rightarrow> http_session \<times> http_out list" where
  "HttpOnTlsHandshake ec s =
     (case ec of
        Some e \<Rightarrow> HttpFinish False 0 (''Failed to tls handshake with '' @ ht_host (ss_url s) @ '': '' @ e) s
      | None \<Rightarrow> HttpWrite s)"

definition HttpOnWritten :: "string option \<Rightarrow> http_session \<Rightarrow> http_session \<times> http_out list" where
  "HttpOnWritten ec s =
     (case ec of Some e \<Rightarrow> HttpFinish False 0 (''Failed to send request: '' @ e) s | None \<Rightarrow> HttpRead s)"

definition HttpOnRead :: "string option \<Rightarrow> nat \<Rightarrow> string \<Rightarrow> http_session \<Rightarrow> http_session \<times> http_out list" where
  "HttpOnRead ec status body s =
     (case ec of
        Some e \<Rightarrow> HttpFinish False 0 (''Failed to read response: '' @ e) s
      | None \<Rightarrow> HttpFinish (200 \<le> status \<and> status < 300) status body s)"

text \<open>
  The completion of the operation that is under way: its error, whether the SNI could be set, and
  the response where it is the read that completes.
\<close>

record http_done =
  hd_error :: "string option"
  hd_sni :: bool
  hd_status :: nat
  hd_body :: string

definition http_step :: "http_session \<Rightarrow> http_done \<Rightarrow> http_session \<times> http_out list" where
  "http_step s d =
     (case ss_stage s of
        Resolving \<Rightarrow> HttpOnResolve (hd_error d) s
      | Connecting \<Rightarrow> HttpOnConnect (hd_sni d) (hd_error d) s
      | Handshaking \<Rightarrow> HttpOnTlsHandshake (hd_error d) s
      | WritingRequest \<Rightarrow> HttpOnWritten (hd_error d) s
      | ReadingResponse \<Rightarrow> HttpOnRead (hd_error d) (hd_status d) (hd_body d) s
      | Completed \<Rightarrow> (s, []))"

text \<open>\<open>HttpClient::Send\<close>: the session it starts, if any, and what it calls; \<open>None\<close> is the exception.\<close>

definition HttpSend :: "http_query \<Rightarrow> (http_session option \<times> http_out list) option" where
  "HttpSend q =
     (case ParseHttpUrl (hq_url q) of
        Inl StoiThrows \<Rightarrow> None
      | Inl InvalidUrl \<Rightarrow> Some (None, [OnComplete False 0 (''Invalid url: '' @ hq_url q)])
      | Inr u \<Rightarrow>
          (case HttpStart \<lparr>ss_url = u, ss_request = q, ss_stage = Resolving, ss_on_complete = True, ss_completed = False\<rparr> of
             (s, os) \<Rightarrow> Some (Some s, os)))"

lemmas http_defs = HttpFinish_def HttpWrite_def HttpRead_def HttpOnResolve_def HttpOnConnect_def
  HttpOnTlsHandshake_def HttpOnWritten_def HttpOnRead_def HttpStart_def http_step_def

definition http_rank :: "http_session \<Rightarrow> nat" where
  "http_rank s = (case ss_stage s of Resolving \<Rightarrow> 5 | Connecting \<Rightarrow> 4 | Handshaking \<Rightarrow> 3 | WritingRequest \<Rightarrow> 2
     | ReadingResponse \<Rightarrow> 1 | Completed \<Rightarrow> 0)"

definition http_inv :: "http_session \<Rightarrow> bool" where
  "http_inv s \<longleftrightarrow> (ss_completed s \<longleftrightarrow> ss_stage s = Completed) \<and> (ss_on_complete s \<longleftrightarrow> \<not> ss_completed s)"

definition is_complete :: "http_out \<Rightarrow> bool" where
  "is_complete x \<longleftrightarrow> (\<exists>ok status body. x = OnComplete ok status body)"

lemma http_step_facts:
  assumes "http_inv s"
  shows "http_inv (fst (http_step s d))"
    and "http_rank (fst (http_step s d)) \<le> http_rank s - 1"
    and "count_out is_complete (snd (http_step s d)) = of_bool (ss_on_complete s \<and> \<not> ss_on_complete (fst (http_step s d)))"
  using assms
  by (cases "ss_stage s"; auto simp: http_defs http_inv_def http_rank_def is_complete_def count_out_def split: option.splits)+

definition complete_ok :: "http_out \<Rightarrow> bool" where
  "complete_ok x = (case x of OnComplete ok status body \<Rightarrow> ok = (200 \<le> status \<and> status < 300) | _ \<Rightarrow> True)"

lemma http_step_ok: "list_all complete_ok (snd (http_step s d))"
  by (cases "ss_stage s") (auto simp: http_defs complete_ok_def split: option.splits)

lemma http_stays: "http_inv s \<Longrightarrow> ss_on_complete (fst (http_step s d)) \<Longrightarrow> ss_on_complete s"
  by (cases "ss_stage s") (auto simp: http_defs http_inv_def split: option.splits if_splits)

interpretation http: once_machine http_step http_inv ss_on_complete is_complete
  by unfold_locales (auto simp: http_step_facts http_stays)

interpretation http_ok: guarded_machine http_step http_inv complete_ok
  by unfold_locales (rule http_step_ok)

lemma http_run_rank: "http_inv s \<Longrightarrow> http_rank (fst (run http_step s ds)) \<le> http_rank s - length ds"
proof (induction ds arbitrary: s)
  case (Cons d ds)
  have "http_rank (fst (run http_step (fst (http_step s d)) ds)) \<le> http_rank (fst (http_step s d)) - length ds"
    by (rule Cons.IH [OF http_step_facts(1) [OF Cons.prems]])
  then show ?case
    using http_step_facts(2) [OF Cons.prems, of d] by simp
qed simp

lemma http_run_count:
  "http_inv s \<Longrightarrow> count_out is_complete (snd (run http_step s ds)) + of_bool (ss_on_complete (fst (run http_step s ds))) =
     of_bool (ss_on_complete s)"
proof (induction ds arbitrary: s)
  case (Cons d ds)
  then show ?case
    using http_step_facts(3) [OF Cons.prems, of d] http_stays [OF Cons.prems, of d]
      Cons.IH [OF http_step_facts(1) [OF Cons.prems, of d]] by auto
qed simp


definition demo_query :: http_query where
  "demo_query = \<lparr>hq_method = ''POST'', hq_url = ''https://a.com/t'', hq_content_type = ''application/json'', hq_bearer = ''k'',
     hq_body = ''{}'', hq_timeout = 10\<rparr>"

definition demo_done :: http_done where
  "demo_done = \<lparr>hd_error = None, hd_sni = True, hd_status = 201, hd_body = ''ok''\<rparr>"


text \<open>A port that is not a number throws out of \<open>Send\<close>: the callback is never called.\<close>

lemma bad_port_throws: "HttpSend (demo_query\<lparr>hq_url := ''http://a.com:x/''\<rparr>) = None"
  by (simp add: HttpSend_def ParseHttpUrl_def HttpAuthority_def starts_with_def tolower_def stoi_def is_space_def is_digit_def Let_def)

end
