(* ===== verification/Jetson.thy ===== *)
theory Jetson
  imports Codec Encoders
begin

text \<open>
  The Jetson's codecs: the scaler (src/src/codecs/jetson/jetson_scaler.cpp), the encoder
  (jetson_encoder.cpp) and the decoder (jetson_decoder.cpp). NVIDIA's multimedia API is outside the
  repository: the results of its calls are part of the events. A buffer is its file descriptor or
  its index, a frame a number.
\<close>

section \<open>Rows\<close>

text \<open>
  \<open>rows\<close> rows of \<open>row_bytes\<close> bytes, copied from \<open>src\<close> at distances of \<open>pitch\<close>; \<open>None\<close> is a
  read behind the end of the source.
\<close>

fun copy_rows :: "bytes \<Rightarrow> nat \<Rightarrow> nat \<Rightarrow> nat \<Rightarrow> nat \<Rightarrow> bytes list option" where
  "copy_rows src start pitch row_bytes 0 = Some []"
| "copy_rows src start pitch row_bytes (Suc rows) =
     (if length src < start + row_bytes then None
      else map_option ((#) (take row_bytes (drop start src))) (copy_rows src (start + pitch) pitch row_bytes rows))"

lemma copy_rows_ok:
  assumes "row_bytes \<le> pitch" "start + pitch * rows \<le> length src"
  shows "copy_rows src start pitch row_bytes rows =
     Some (map (\<lambda>r. take row_bytes (drop (start + r * pitch) src)) [0..<rows])"
  using assms
proof (induction rows arbitrary: start)
  case (Suc rows)
  then show ?case
    using Suc.IH [of "start + pitch"] by (simp add: map_upt_Suc add.assoc del: upt_Suc)
qed simp

text \<open>A frame in memory: its bytes, the bytes of a row and the rows of a plane.\<close>

datatype raw_fmt = RawYuv420 | RawYuyv

record cpu_frame =
  cf_fmt :: raw_fmt
  cf_data :: bytes
  cf_stride :: nat
  cf_plane_height :: nat

text \<open>A plane of an NvBuffer: bytes of a row without padding, and rows.\<close>

type_synonym nv_plane = "nat \<times> nat"

definition frame_bytes :: "cpu_frame \<Rightarrow> nat" where
  "frame_bytes f = (if cf_fmt f = RawYuyv then cf_stride f * 2 * cf_plane_height f else cf_stride f * cf_plane_height f * 3 div 2)"

definition src_planes :: "cpu_frame \<Rightarrow> (nat \<times> nat) list" where
  "src_planes f =
     (let s = cf_stride f; h = cf_plane_height f
      in if cf_fmt f = RawYuyv then [(0, s * 2)]
         else [(0, s), (s * h, s div 2), (s * h + (s div 2) * (h div 2), s div 2)])"

text \<open>
  \<open>UploadToSurface\<close> once the surface is there: \<open>Inl ()\<close> is a frame that is dropped as too small,
  \<open>Inr None\<close> would be a read out of bounds.
\<close>

definition UploadToSurface :: "nv_plane list \<Rightarrow> cpu_frame \<Rightarrow> unit + bytes list list option" where
  "UploadToSurface nvp f =
     (if cf_data f = [] \<or> length (cf_data f) < frame_bytes f then Inl ()
      else Inr (those (map (\<lambda>((start, pitch), (row_bytes, rows)). copy_rows (cf_data f) start pitch row_bytes rows)
                  (zip (src_planes f) nvp))))"

text \<open>The planes of a surface for the frame: as wide as the rows of the frame at most, and as high.\<close>

definition planes_fit :: "cpu_frame \<Rightarrow> nv_plane list \<Rightarrow> bool" where
  "planes_fit f nvp \<longleftrightarrow>
     (if cf_fmt f = RawYuyv then \<exists>w h. nvp = [(w, h)] \<and> w \<le> cf_stride f * 2 \<and> h \<le> cf_plane_height f
      else \<exists>w h w1 h1 w2 h2. nvp = [(w, h), (w1, h1), (w2, h2)] \<and> w \<le> cf_stride f \<and> h \<le> cf_plane_height f \<and>
        w1 \<le> cf_stride f div 2 \<and> h1 \<le> cf_plane_height f div 2 \<and> w2 \<le> cf_stride f div 2 \<and> h2 \<le> cf_plane_height f div 2)"

lemma those_Some: "\<forall>x \<in> set xs. \<exists>y. g x = Some y \<Longrightarrow> \<exists>ys. those (map g xs) = Some ys"
  by (induction xs) auto

text \<open>
  A frame that is not dropped is copied without reading behind its end, however its rows and planes
  are padded.
\<close>

theorem upload_stays_in_frame:
  assumes "planes_fit f nvp" "frame_bytes f \<le> length (cf_data f)" "cf_data f \<noteq> []"
  shows "\<exists>copied. UploadToSurface nvp f = Inr (Some copied)"
proof -
  let ?s = "cf_stride f" and ?h = "cf_plane_height f"
  have row: "\<exists>y. copy_rows (cf_data f) start pitch rb n = Some y" if "rb \<le> pitch" "start + pitch * n \<le> length (cf_data f)" for start pitch rb n
    using copy_rows_ok [OF that] by blast
  have half: "(?s div 2) * (?h div 2) + (?s div 2) * (?h div 2) \<le> ?s * ?h div 2"
  proof -
    have "2 * ((?s div 2) * (?h div 2)) \<le> ?s * (?h div 2)" by (simp add: mult.assoc [symmetric])
    moreover have "2 * (?s * (?h div 2)) \<le> ?s * ?h" by (simp add: mult.left_commute)
    ultimately show ?thesis by linarith
  qed
  have "\<forall>x \<in> set (zip (src_planes f) nvp). \<exists>y. (\<lambda>((start, pitch), (row_bytes, rows)). copy_rows (cf_data f) start pitch row_bytes rows) x = Some y"
  proof (cases "cf_fmt f = RawYuyv")
    case True
    then obtain w h where p: "nvp = [(w, h)]" "w \<le> ?s * 2" "h \<le> ?h" using assms(1) by (auto simp: planes_fit_def)
    have "?s * 2 * h \<le> ?s * 2 * ?h" using p(3) by simp
    also have "\<dots> \<le> length (cf_data f)" using True assms(2) by (simp add: frame_bytes_def)
    finally show ?thesis using p True by (auto simp: src_planes_def intro!: row)
  next
    case False
    then obtain w h w1 h1 w2 h2 where p: "nvp = [(w, h), (w1, h1), (w2, h2)]" "w \<le> ?s" "h \<le> ?h"
        "w1 \<le> ?s div 2" "h1 \<le> ?h div 2" "w2 \<le> ?s div 2" "h2 \<le> ?h div 2"
      using assms(1) by (auto simp: planes_fit_def)
    have "?s * h \<le> ?s * ?h" "(?s div 2) * h1 \<le> (?s div 2) * (?h div 2)" "(?s div 2) * h2 \<le> (?s div 2) * (?h div 2)"
      using p by simp_all
    moreover have "?s * ?h + ?s * ?h div 2 \<le> length (cf_data f)"
      using False assms(2) by (simp add: frame_bytes_def)
    ultimately have "?s * h \<le> length (cf_data f)" "?s * ?h + (?s div 2) * h1 \<le> length (cf_data f)"
        "?s * ?h + (?s div 2) * (?h div 2) + (?s div 2) * h2 \<le> length (cf_data f)"
      using half by linarith+
    then show ?thesis
      using p False by (auto simp: src_planes_def Let_def intro!: row)
  qed
  then show ?thesis
    using those_Some assms(2,3) by (simp add: UploadToSurface_def not_less)
qed

theorem upload_stays_in_frame_witness:
  "\<exists>copied. UploadToSurface [(2, 2), (1, 1), (1, 1)]
     \<lparr>cf_fmt = RawYuv420, cf_data = ''aabbccddeeffgghhijklmnop'', cf_stride = 4, cf_plane_height = 4\<rparr> = Inr (Some copied)"
  by (rule upload_stays_in_frame) (simp_all add: planes_fit_def frame_bytes_def)

text \<open>\<open>ConvertI420ToYUV420M\<close>: every plane of the encoder's buffer gets its rows at its own stride.\<close>

definition ConvertI420ToYUV420M :: "(bytes \<times> nat) list \<Rightarrow> nv_plane list \<Rightarrow> bytes list list option" where
  "ConvertI420ToYUV420M i420 nvp =
     those (map (\<lambda>((src, stride), (row_size, rows)). copy_rows src 0 stride row_size rows) (zip i420 nvp))"

section \<open>The scaler\<close>

record jscaler =
  js_free :: "nat list"
  js_tasks :: "(nat \<times> nat) list" \<comment> \<open>buffer and frame\<close>
  js_abort :: bool

definition num_buffer :: nat where "num_buffer = 2"

text \<open>\<open>Initialize\<close> allocates two buffers with different descriptors.\<close>

definition JsStart :: "nat list \<Rightarrow> jscaler" where
  "JsStart fds = \<lparr>js_free = fold (\<lambda>fd q. snd (tsq_push num_buffer fd q)) fds [], js_tasks = [], js_abort = False\<rparr>"

datatype jet_out = JetScaled nat nat | JetNoBuffer | JetQueueFull | JetFailed

text \<open>\<open>ok\<close> is the result of the transformation; \<open>fatal\<close> that the upload gave up for good.\<close>

definition JsEmplace :: "nat \<Rightarrow> bool \<Rightarrow> bool \<Rightarrow> jscaler \<Rightarrow> jscaler \<times> jet_out list" where
  "JsEmplace frame ok fatal s =
     (if js_abort s then (s, [])
      else case tsq_pop (js_free s) of
             (None, _) \<Rightarrow> (s, [JetNoBuffer])
           | (Some fd, q) \<Rightarrow>
               let s1 = s\<lparr>js_free := q, js_abort := fatal\<rparr>
               in if \<not> ok then (s1\<lparr>js_free := snd (tsq_push num_buffer fd q)\<rparr>, [JetFailed])
                  else case tsq_push num_buffer (fd, frame) (js_tasks s1) of
                         (False, _) \<Rightarrow> (s1\<lparr>js_free := snd (tsq_push num_buffer fd q)\<rparr>, [JetQueueFull])
                       | (True, ts) \<Rightarrow> (s1\<lparr>js_tasks := ts\<rparr>, []))"

definition JsCapture :: "jscaler \<Rightarrow> jscaler \<times> jet_out list" where
  "JsCapture s =
     (case tsq_pop (js_tasks s) of
        (None, _) \<Rightarrow> (s, [])
      | (Some (fd, frame), ts) \<Rightarrow>
          (s\<lparr>js_tasks := ts, js_free := snd (tsq_push num_buffer fd (js_free s))\<rparr>, [JetScaled fd frame]))"

datatype js_event = JsFrame nat bool bool | JsWorker

fun js_step :: "jscaler \<Rightarrow> js_event \<Rightarrow> jscaler \<times> jet_out list" where
  "js_step s (JsFrame frame ok fatal) = JsEmplace frame ok fatal s"
| "js_step s JsWorker = JsCapture s"

definition js_inv :: "nat list \<Rightarrow> jscaler \<Rightarrow> bool" where
  "js_inv fds s \<longleftrightarrow> mset (js_free s @ map fst (js_tasks s)) = mset fds"

lemma js_inv_len: "js_inv fds s \<Longrightarrow> length (js_free s) + length (js_tasks s) = length fds"
  by (auto simp: js_inv_def dest: arg_cong [of _ _ size])

lemma js_inv_step:
  assumes "js_inv fds s" "length fds \<le> num_buffer"
  shows "js_inv fds (fst (js_step s e)) \<and> JetQueueFull \<notin> set (snd (js_step s e))"
  using assms js_inv_len [OF assms(1)]
  by (cases e; cases "js_free s"; cases "js_tasks s")
     (auto simp: js_inv_def JsEmplace_def JsCapture_def tsq_push_def Let_def add_mset_commute)

fun js_accepted :: "jscaler \<Rightarrow> js_event list \<Rightarrow> nat list" where
  "js_accepted s [] = []"
| "js_accepted s (e # es) =
     (case e of JsFrame frame ok _ \<Rightarrow> if \<not> js_abort s \<and> js_free s \<noteq> [] \<and> ok then [frame] else [] | _ \<Rightarrow> [])
     @ js_accepted (fst (js_step s e)) es"

definition scaled :: "jet_out list \<Rightarrow> nat list" where
  "scaled os = List.map_filter (\<lambda>x. case x of JetScaled _ f \<Rightarrow> Some f | _ \<Rightarrow> None) os"

lemma scaled_simps [simp]: "scaled [] = []" "scaled (xs @ ys) = scaled xs @ scaled ys"
  "scaled (x # xs) = (case x of JetScaled _ f \<Rightarrow> [f] | _ \<Rightarrow> []) @ scaled xs"
  by (auto simp: scaled_def List.map_filter_def split: jet_out.splits)

lemma js_fifo_step:
  assumes "js_inv fds s" "length fds \<le> num_buffer"
  shows "scaled (snd (js_step s e)) @ map snd (js_tasks (fst (js_step s e))) = map snd (js_tasks s) @ js_accepted s [e]"
  using assms js_inv_len [OF assms(1)]
  by (cases e; cases "js_free s"; cases "js_tasks s") (auto simp: JsEmplace_def JsCapture_def tsq_push_def Let_def)

lemma js_accepted_Cons: "js_accepted s (e # es) = js_accepted s [e] @ js_accepted (fst (js_step s e)) es"
  by simp

lemma js_fifo:
  assumes "js_inv fds s" "length fds \<le> num_buffer"
  shows "scaled (snd (run js_step s es)) @ map snd (js_tasks (fst (run js_step s es))) =
     map snd (js_tasks s) @ js_accepted s es"
  using assms
proof (induction es arbitrary: s)
  case (Cons e es)
  have inv: "js_inv fds (fst (js_step s e))" using js_inv_step [OF Cons.prems, of e] ..
  have "scaled (snd (run js_step s (e # es))) @ map snd (js_tasks (fst (run js_step s (e # es)))) =
      scaled (snd (js_step s e)) @ map snd (js_tasks (fst (js_step s e))) @ js_accepted (fst (js_step s e)) es"
    using Cons.IH [OF inv Cons.prems(2)] by simp
  also have "\<dots> = (map snd (js_tasks s) @ js_accepted s [e]) @ js_accepted (fst (js_step s e)) es"
    by (simp only: js_fifo_step [OF Cons.prems, of e, symmetric] append_assoc)
  finally show ?case by (simp only: js_accepted_Cons [of s e es] append_assoc)
qed simp

text \<open>
  The scaler neither loses nor duplicates its buffers, its queue of results never overflows, and
  every frame it has taken is delivered once, in the order they came.
\<close>

theorem scaler_keeps_buffers_and_order:
  assumes "distinct fds" "length fds = num_buffer" "r = run js_step (JsStart fds) es"
  shows "mset (js_free (fst r) @ map fst (js_tasks (fst r))) = mset fds \<and> JetQueueFull \<notin> set (snd r) \<and>
     scaled (snd r) @ map snd (js_tasks (fst r)) = js_accepted (JsStart fds) es"
proof -
  obtain a b where fds: "fds = [a, b]"
    using assms(2) by (auto simp: num_buffer_def numeral_2_eq_2 length_Suc_conv)
  have i: "js_inv fds (JsStart fds)"
    by (simp add: js_inv_def JsStart_def fds tsq_push_def num_buffer_def)
  have "js_inv fds s \<Longrightarrow> js_inv fds (fst (run js_step s es)) \<and> JetQueueFull \<notin> set (snd (run js_step s es))" for s
    using assms(2) by (induction es arbitrary: s) (auto simp: js_inv_step)
  then show ?thesis
    using i js_fifo [OF i, of es] assms(2,3) by (simp add: js_inv_def JsStart_def)
qed

theorem scaler_keeps_buffers_and_order_witness:
  "mset (js_free (fst (run js_step (JsStart [11, 12]) [JsFrame 1 True False, JsFrame 2 True False, JsFrame 3 True False, JsWorker]))
      @ map fst (js_tasks (fst (run js_step (JsStart [11, 12]) [JsFrame 1 True False, JsFrame 2 True False, JsFrame 3 True False, JsWorker])))) =
     mset [11, 12] \<and>
   JetQueueFull \<notin> set (snd (run js_step (JsStart [11, 12]) [JsFrame 1 True False, JsFrame 2 True False, JsFrame 3 True False, JsWorker])) \<and>
   scaled (snd (run js_step (JsStart [11, 12]) [JsFrame 1 True False, JsFrame 2 True False, JsFrame 3 True False, JsWorker]))
      @ map snd (js_tasks (fst (run js_step (JsStart [11, 12]) [JsFrame 1 True False, JsFrame 2 True False, JsFrame 3 True False, JsWorker]))) =
     js_accepted (JsStart [11, 12]) [JsFrame 1 True False, JsFrame 2 True False, JsFrame 3 True False, JsWorker]"
  by (rule scaler_keeps_buffers_and_order [OF _ _ refl]) (simp_all add: num_buffer_def)

text \<open>
  The buffer is free again as soon as the callback returns, while a consumer that queued the frame
  (as WebRTC's encoder does) still refers to it: two frames later it holds another frame.
\<close>

lemma scaled_buffer_is_reused:
  "snd (run js_step (JsStart [11, 12])
     [JsFrame 1 True False, JsWorker, JsFrame 2 True False, JsWorker, JsFrame 3 True False, JsWorker]) =
   [JetScaled 11 1, JetScaled 12 2, JetScaled 11 3]"
  by (simp add: JsStart_def JsEmplace_def JsCapture_def tsq_push_def num_buffer_def Let_def)

section \<open>The input buffers of a device\<close>

text \<open>
  The encoder and the decoder choose the buffer of a frame in the same way: while not all of the
  \<open>n\<close> buffers have been queued the next unused one, later one the device gives back; \<open>dq\<close> is the
  answer of \<open>dqBuffer\<close>. A buffer the device holds cannot be queued again (V4L2 answers EINVAL).
\<close>

definition PlaneTake :: "nat \<Rightarrow> nat option \<Rightarrow> nat list \<Rightarrow> (nat \<times> nat list) option" where
  "PlaneTake n dq q =
     (if length q = n
      then (case dq of None \<Rightarrow> None | Some i \<Rightarrow> if i \<in> set q then Some (i, remove1 i q) else None)
      else Some (length q, q))"

definition PlaneQueue :: "bool \<Rightarrow> nat \<Rightarrow> nat list \<Rightarrow> nat list option" where
  "PlaneQueue ok i q = (if i \<in> set q \<or> \<not> ok then None else Some (q @ [i]))"

definition plane_inv :: "nat \<Rightarrow> nat list \<Rightarrow> bool" where
  "plane_inv n q \<longleftrightarrow> distinct q \<and> set q \<subseteq> {..<n} \<and> (length q < n \<longrightarrow> set q = {..<length q})"

text \<open>
  A buffer chosen this way is one the device does not hold, as long as every buffer that was taken
  from the device was queued again.
\<close>

lemma plane_take_queue:
  assumes "plane_inv n q" "PlaneTake n dq q = Some (i, q')"
  shows "i < n \<and> i \<notin> set q' \<and> plane_inv n (q' @ [i])"
proof (cases "length q = n")
  case True
  then have "i \<in> set q" "q' = remove1 i q"
    using assms(2) by (auto simp: PlaneTake_def split: option.splits if_splits)
  moreover from this have "length (q' @ [i]) = n" using True by (simp add: length_remove1)
      (metis Suc_pred length_pos_if_in_set)
  ultimately show ?thesis using assms(1) by (auto simp: plane_inv_def)
next
  case False
  then have i: "i = length q" "q' = q" using assms(2) by (auto simp: PlaneTake_def)
  have "length q \<le> n"
    using assms(1) card_mono [of "{..<n}" "set q"] by (simp add: plane_inv_def distinct_card)
  then have "length q < n" using False by simp
  then show ?thesis using assms(1) i by (auto simp: plane_inv_def)
qed

section \<open>The encoder\<close>

definition BUFFER_NUM :: nat where "BUFFER_NUM = 4"
definition kVbvFrames :: nat where "kVbvFrames = 2"
definition kMinVbvBits :: nat where "kMinVbvBits = 400000"

definition vbv_bits :: "enc_config \<Rightarrow> nat" where
  "vbv_bits cfg = max (nat (ec_max_bitrate cfg) * kVbvFrames div nat (max (ec_fps cfg) 1)) kMinVbvBits"

text \<open>The buffer of the rate control fits into 32 bits: the conversion to \<open>uint32_t\<close> cuts nothing off.\<close>

theorem vbv_bits_fit:
  assumes "ec_max_bitrate cfg < 2 ^ 31"
  shows "kMinVbvBits \<le> vbv_bits cfg \<and> vbv_bits cfg < 2 ^ 32 \<and> take_bit 32 (vbv_bits cfg) = vbv_bits cfg"
proof -
  have "nat (ec_max_bitrate cfg) * kVbvFrames div nat (max (ec_fps cfg) 1) \<le> nat (ec_max_bitrate cfg) * kVbvFrames"
    by (rule div_le_dividend)
  also have "\<dots> < 2 ^ 32" using assms by (simp add: kVbvFrames_def)
  finally have "vbv_bits cfg < 2 ^ 32" by (simp add: vbv_bits_def kMinVbvBits_def)
  then show ?thesis by (auto simp: vbv_bits_def take_bit_nat_eq_self)
qed

theorem vbv_bits_fit_witness:
  "kMinVbvBits \<le> vbv_bits (SwConfig 64 32 (Openh264VideoInit demo_args)) \<and>
   vbv_bits (SwConfig 64 32 (Openh264VideoInit demo_args)) < 2 ^ 32 \<and>
   take_bit 32 (vbv_bits (SwConfig 64 32 (Openh264VideoInit demo_args))) = vbv_bits (SwConfig 64 32 (Openh264VideoInit demo_args))"
  by (rule vbv_bits_fit) (simp add: SwConfig_def)

datatype jcall = JcCreate | JcCaptureFormat | JcDisableAv1Ivf | JcOutputFormat | JcBitrate int | JcProfile | JcLevel
  | JcNumBFrames | JcVui | JcSpsPps | JcRateControl | JcIdrInterval int | JcIFrameInterval int | JcFrameRate int
  | JcPreset | JcVbv nat | JcOutputDma | JcOutputMmap | JcCaptureBuffers

text \<open>
  The calls of \<open>CreateVideoEncoder\<close> in their order, each with whether its result is looked at: the
  result of \<open>setProfile\<close> is overwritten by the next one.
\<close>

definition CreateCalls :: "enc_config \<Rightarrow> (jcall \<times> bool) list" where
  "CreateCalls cfg =
     [(JcCreate, True), (JcCaptureFormat, True)] @
     (if ec_dst cfg = Some AV1 then [(JcDisableAv1Ivf, True)] else []) @
     [(JcOutputFormat, True), (JcBitrate (ec_bitrate cfg), True)] @
     (if ec_dst cfg = Some H264 then [(JcProfile, False), (JcLevel, True), (JcNumBFrames, True), (JcVui, True)] else []) @
     [(JcSpsPps, True), (JcRateControl, True), (JcIdrInterval (ec_idr_interval cfg), True),
      (JcIFrameInterval (ec_keyframe_interval cfg), True), (JcFrameRate (ec_fps cfg), True), (JcPreset, True)] @
     (if ec_max_bitrate cfg > 0 then [(JcVbv (vbv_bits cfg), True)] else []) @
     [(if ec_is_dma_src cfg then JcOutputDma else JcOutputMmap, True), (JcCaptureBuffers, True)]"

fun make_calls :: "(jcall \<Rightarrow> bool) \<Rightarrow> (jcall \<times> bool) list \<Rightarrow> bool \<times> jcall list" where
  "make_calls works [] = (True, [])"
| "make_calls works ((c, checked) # cs) =
     (if checked \<and> \<not> works c then (False, [c])
      else (case make_calls works cs of (ok, made) \<Rightarrow> (ok, c # made)))"

definition CreateVideoEncoder :: "(jcall \<Rightarrow> bool) \<Rightarrow> enc_config \<Rightarrow> bool \<times> jcall list" where
  "CreateVideoEncoder works cfg = make_calls works (CreateCalls cfg)"

lemma make_calls_ok: "fst (make_calls works cs) \<longleftrightarrow> (\<forall>(c, checked) \<in> set cs. checked \<longrightarrow> works c)"
  by (induction cs) (auto split: prod.splits)

text \<open>
  \<open>Create\<close> then starts the encoder; when the first call has failed, the destructor uses the null pointer.
\<close>

definition JetsonCreate :: "(jcall \<Rightarrow> bool) \<Rightarrow> enc_config \<Rightarrow> bool \<times> enc_out list" where
  "JetsonCreate works cfg =
     (if fst (CreateVideoEncoder works cfg) then (True, []) else (False, if works JcCreate then [] else [NullDereference]))"

record jenc =
  je_abort :: bool
  je_queued :: "nat list"
  je_hw :: "nat list"
  je_tasks :: "nat list"
  je_pc :: "nat option"
  je_running :: bool

definition JeStart :: jenc where
  "JeStart = \<lparr>je_abort = False, je_queued = [], je_hw = [], je_tasks = [], je_pc = None, je_running = True\<rparr>"

datatype je_out = JeRefused nat | JeDqTimeout nat | JeQueueFailed nat | JeDelivered nat nat | JeAborted

text \<open>
  \<open>EmplaceBuffer\<close> up to \<open>qBuffer\<close>, and the push of the callback, which the thread of the device may precede.
\<close>

definition JeEmplace :: "bool \<Rightarrow> nat option \<Rightarrow> bool \<Rightarrow> nat \<Rightarrow> jenc \<Rightarrow> jenc \<times> je_out list" where
  "JeEmplace in_error dq queue_ok frame s =
     (if in_error \<or> je_abort s \<or> je_pc s \<noteq> None then (s, [JeRefused frame])
      else case PlaneTake BUFFER_NUM dq (je_queued s) of
             None \<Rightarrow> (s, [JeDqTimeout frame])
           | Some (i, q) \<Rightarrow>
               (case PlaneQueue queue_ok i q of
                  None \<Rightarrow> (s\<lparr>je_queued := q\<rparr>, [JeQueueFailed frame])
                | Some q1 \<Rightarrow> (s\<lparr>je_queued := q1, je_hw := je_hw s @ [frame], je_pc := Some frame\<rparr>, [])))"

definition JePushTask :: "jenc \<Rightarrow> jenc \<times> je_out list" where
  "JePushTask s =
     (case je_pc s of
        None \<Rightarrow> (s, [])
      | Some f \<Rightarrow> (s\<lparr>je_tasks := snd (tsq_push kMaxSize f (je_tasks s)), je_pc := None\<rparr>, []))"

text \<open>One encoded frame, or an error (\<open>v4l2_buf\<close> is null); \<open>eos\<close> is an empty buffer.\<close>

definition JeDqCallback :: "bool \<Rightarrow> bool \<Rightarrow> bool \<Rightarrow> jenc \<Rightarrow> jenc \<times> je_out list" where
  "JeDqCallback valid queue_ok eos s =
     (if \<not> je_running s then (s, [])
      else if \<not> valid then (s\<lparr>je_abort := True, je_running := False\<rparr>, [JeAborted])
      else case je_hw s of
             [] \<Rightarrow> (s, [])
           | g # hw \<Rightarrow>
               let s1 = s\<lparr>je_hw := hw, je_tasks := snd (tsq_pop (je_tasks s))\<rparr>;
                   os = (case fst (tsq_pop (je_tasks s)) of None \<Rightarrow> [] | Some f \<Rightarrow> [JeDelivered f g])
               in if \<not> queue_ok then (s1\<lparr>je_abort := True, je_running := False\<rparr>, os @ [JeAborted])
                  else (s1\<lparr>je_running := \<not> eos\<rparr>, os))"

datatype je_event = JeFrame bool "nat option" bool nat | JeTask | JeDevice bool bool bool

fun je_step :: "jenc \<Rightarrow> je_event \<Rightarrow> jenc \<times> je_out list" where
  "je_step s (JeFrame in_error dq queue_ok frame) = JeEmplace in_error dq queue_ok frame s"
| "je_step s JeTask = JePushTask s"
| "je_step s (JeDevice valid queue_ok eos) = JeDqCallback valid queue_ok eos s"

lemmas je_defs = JeEmplace_def JePushTask_def JeDqCallback_def

text \<open>
  The pairing of callbacks and frames: the callbacks that wait, with the one that is about to be
  pushed, are those of the frames the device has, provided that the device does not answer before
  the push and never has more frames than the queue has room for.
\<close>

definition je_timely :: "jenc \<Rightarrow> je_event \<Rightarrow> bool" where
  "je_timely s e = (case e of
      JeDevice _ _ _ \<Rightarrow> je_pc s = None
    | JeTask \<Rightarrow> length (je_tasks s) < kMaxSize
    | _ \<Rightarrow> True)"

fun je_timely_run :: "jenc \<Rightarrow> je_event list \<Rightarrow> bool" where
  "je_timely_run s [] = True"
| "je_timely_run s (e # es) = (je_timely s e \<and> je_timely_run (fst (je_step s e)) es)"

definition je_inv :: "jenc \<Rightarrow> bool" where
  "je_inv s \<longleftrightarrow> je_tasks s @ (case je_pc s of None \<Rightarrow> [] | Some f \<Rightarrow> [f]) = je_hw s"

definition paired :: "je_out \<Rightarrow> bool" where
  "paired x = (case x of JeDelivered f g \<Rightarrow> f = g | _ \<Rightarrow> True)"

lemma je_inv_step:
  assumes "je_inv s" "je_timely s e"
  shows "je_inv (fst (je_step s e)) \<and> list_all paired (snd (je_step s e))"
proof (cases e)
  case (JeFrame in_error dq queue_ok frame)
  then show ?thesis using assms by (auto simp: je_inv_def paired_def JeEmplace_def split: option.splits)
next
  case JeTask
  then show ?thesis using assms by (auto simp: je_inv_def je_timely_def JePushTask_def tsq_push_def split: option.splits)
next
  case (JeDevice valid queue_ok eos)
  then show ?thesis
    using assms by (cases "je_hw s") (auto simp: je_inv_def je_timely_def paired_def JeDqCallback_def Let_def)
qed

lemma je_inv_run: "je_inv s \<Longrightarrow> je_timely_run s es \<Longrightarrow> list_all paired (snd (run je_step s es))"
  by (induction es arbitrary: s) (auto simp: je_inv_step)

theorem encoder_pairs_callbacks:
  assumes "je_timely_run JeStart es"
  shows "list_all paired (snd (run je_step JeStart es))"
  using je_inv_run [OF _ assms] by (simp add: je_inv_def JeStart_def)

theorem encoder_pairs_callbacks_witness:
  "list_all paired (snd (run je_step JeStart [JeFrame False None True 5, JeTask, JeDevice True True False]))"
  by (rule encoder_pairs_callbacks)
     (simp add: je_timely_def JeStart_def je_defs PlaneTake_def PlaneQueue_def BUFFER_NUM_def kMaxSize_def tsq_push_def Let_def)

text \<open>When the device answers before the push, every later callback gets the frame after its own.\<close>

lemma early_answer_shifts_callbacks:
  "snd (run je_step JeStart [JeFrame False None True 1, JeDevice True True False, JeTask,
      JeFrame False None True 2, JeTask, JeDevice True True False]) = [JeDelivered 1 2]"
  by (simp add: JeStart_def je_defs PlaneTake_def PlaneQueue_def BUFFER_NUM_def kMaxSize_def tsq_push_def Let_def)

text \<open>Every buffer that \<open>qBuffer\<close> is called with is one the device does not hold.\<close>

lemma encoder_queues_free_buffers:
  assumes "plane_inv BUFFER_NUM (je_queued s)" "PlaneTake BUFFER_NUM dq (je_queued s) = Some (i, q)"
  shows "PlaneQueue True i q = Some (q @ [i]) \<and> plane_inv BUFFER_NUM (q @ [i])"
  using plane_take_queue [OF assms] by (simp add: PlaneQueue_def)

section \<open>The decoder\<close>

definition INPUT_BUFFER_NUM :: nat where "INPUT_BUFFER_NUM = 2"
definition FRAME_BUFFER_NUM :: nat where "FRAME_BUFFER_NUM = 4"
definition FIRST_SIZE_WAIT_MS :: nat where "FIRST_SIZE_WAIT_MS = 1000"
definition SLOW_START_WARNING :: time where "SLOW_START_WARNING = 5000000000"

record jdec =
  jd_abort :: bool
  jd_queued :: "nat list"
  jd_hw :: "nat list" \<comment> \<open>frames the device has and will decode\<close>
  jd_ready :: bool
  jd_waiting :: bool
  jd_first :: time
  jd_warned :: bool
  jd_tasks :: "nat list"
  jd_free :: "nat list"

definition JdStart :: "nat list \<Rightarrow> jdec" where
  "JdStart fds = \<lparr>jd_abort = False, jd_queued = [], jd_hw = [], jd_ready = False, jd_waiting = False, jd_first = 0,
     jd_warned = False, jd_tasks = [], jd_free = fold (\<lambda>fd q. snd (tsq_push FRAME_BUFFER_NUM fd q)) fds []\<rparr>"

datatype jd_out = JdDqTimeout nat | JdTooBig nat | JdQueueFailed nat | JdWait nat | JdWarn | JdDelivered nat nat nat
  | JdNoBuffer | JdTransformFailed | JdAborted

text \<open>\<open>event\<close>: \<open>dqEvent\<close> returns a change of resolution; \<open>setup\<close>: \<open>SetupCapturePlane\<close> works.\<close>

definition EnsureCapturePlane :: "time \<Rightarrow> bool \<Rightarrow> bool \<Rightarrow> jdec \<Rightarrow> bool \<times> jdec \<times> jd_out list" where
  "EnsureCapturePlane now event setup s =
     (if jd_ready s then (True, s, [])
      else let wait_ms = (if jd_waiting s then 0 else FIRST_SIZE_WAIT_MS);
               s1 = (if jd_waiting s then s else s\<lparr>jd_waiting := True, jd_first := now\<rparr>)
           in if \<not> event
              then if \<not> jd_warned s1 \<and> SLOW_START_WARNING \<le> now - jd_first s1
                   then (False, s1\<lparr>jd_warned := True\<rparr>, [JdWait wait_ms, JdWarn]) else (False, s1, [JdWait wait_ms])
              else if \<not> setup then (False, s1\<lparr>jd_abort := True\<rparr>, [JdWait wait_ms])
              else (True, s1\<lparr>jd_ready := True\<rparr>, [JdWait wait_ms]))"

record jd_env =
  de_error :: bool
  de_dq :: "nat option"
  de_length :: nat \<comment> \<open>of the input buffer\<close>
  de_queue :: bool
  de_now :: time
  de_event :: bool
  de_setup :: bool

definition JdEmplace :: "jd_env \<Rightarrow> nat \<Rightarrow> nat \<Rightarrow> jdec \<Rightarrow> jdec \<times> jd_out list" where
  "JdEmplace env frame bytesused s =
     (if jd_abort s \<or> de_error env then (s, [])
      else case PlaneTake INPUT_BUFFER_NUM (de_dq env) (jd_queued s) of
             None \<Rightarrow> (s, [JdDqTimeout frame])
           | Some (i, q) \<Rightarrow>
               let s1 = s\<lparr>jd_queued := q\<rparr>
               in if de_length env < bytesused then (s1, [JdTooBig frame])
                  else case PlaneQueue (de_queue env) i q of
                         None \<Rightarrow> (s1, [JdQueueFailed frame])
                       | Some q1 \<Rightarrow>
                           (case EnsureCapturePlane (de_now env) (de_event env) (de_setup env)
                                   (s1\<lparr>jd_queued := q1, jd_hw := jd_hw s @ [frame]\<rparr>) of
                              (False, s2, os) \<Rightarrow> (s2, os)
                            | (True, s2, os) \<Rightarrow> (s2\<lparr>jd_tasks := snd (tsq_push kMaxSize frame (jd_tasks s2))\<rparr>, os)))"

text \<open>\<open>Transform\<close> of the decoded frame \<open>g\<close> for the callback of \<open>f\<close>.\<close>

definition JdTransform :: "bool \<Rightarrow> nat \<Rightarrow> nat \<Rightarrow> jdec \<Rightarrow> jdec \<times> jd_out list" where
  "JdTransform ok f g s =
     (case tsq_pop (jd_free s) of
        (None, _) \<Rightarrow> (s, [JdNoBuffer])
      | (Some fd, q) \<Rightarrow>
          (s\<lparr>jd_free := snd (tsq_push FRAME_BUFFER_NUM fd q)\<rparr>, if ok then [JdDelivered f g fd] else [JdTransformFailed]))"

definition JdDqCallback :: "bool \<Rightarrow> bool \<Rightarrow> bool \<Rightarrow> jdec \<Rightarrow> jdec \<times> jd_out list" where
  "JdDqCallback valid transform_ok queue_ok s =
     (if \<not> jd_ready s then (s, [])
      else if \<not> valid then (s\<lparr>jd_abort := True\<rparr>, if jd_abort s then [] else [JdAborted])
      else case jd_hw s of
             [] \<Rightarrow> (s, [])
           | g # hw \<Rightarrow>
               let s1 = s\<lparr>jd_hw := hw, jd_tasks := snd (tsq_pop (jd_tasks s))\<rparr>;
                   (s2, os) = (case fst (tsq_pop (jd_tasks s)) of
                       Some f \<Rightarrow> if jd_abort s then (s1, []) else JdTransform transform_ok f g s1
                     | None \<Rightarrow> (s1, []))
               in if queue_ok then (s2, os) else (s2\<lparr>jd_abort := True\<rparr>, os @ [JdAborted]))"

datatype jd_event = JdFrame jd_env nat nat | JdDevice bool bool bool

fun jd_step :: "jdec \<Rightarrow> jd_event \<Rightarrow> jdec \<times> jd_out list" where
  "jd_step s (JdFrame env frame bytesused) = JdEmplace env frame bytesused s"
| "jd_step s (JdDevice valid transform_ok queue_ok) = JdDqCallback valid transform_ok queue_ok s"

lemmas jd_defs = JdEmplace_def EnsureCapturePlane_def JdTransform_def JdDqCallback_def

subsection \<open>The producer waits once\<close>

text \<open>The thread of the camera waits a second for the size of the stream at most once.\<close>

interpretation jd_wait: once_machine jd_step "\<lambda>s. jd_ready s \<longrightarrow> jd_waiting s" "\<lambda>s. \<not> jd_waiting s" "(=) (JdWait FIRST_SIZE_WAIT_MS)"
proof unfold_locales
  fix s :: jdec and e
  assume inv: "jd_ready s \<longrightarrow> jd_waiting s"
  show "jd_ready (fst (jd_step s e)) \<longrightarrow> jd_waiting (fst (jd_step s e))"
    using inv by (cases e) (auto simp: jd_defs Let_def split: option.splits list.splits prod.splits bool.splits if_splits)
  show "count_out ((=) (JdWait FIRST_SIZE_WAIT_MS)) (snd (jd_step s e)) + of_bool (\<not> jd_waiting (fst (jd_step s e)))
      \<le> of_bool (\<not> jd_waiting s)"
    using inv by (cases e) (auto simp: jd_defs FIRST_SIZE_WAIT_MS_def Let_def split: option.splits list.splits prod.splits bool.splits if_splits)
qed

theorem decoder_waits_once:
  "count_out ((=) (JdWait FIRST_SIZE_WAIT_MS)) (snd (run jd_step (JdStart fds) es)) \<le> 1"
  by (rule jd_wait.at_most_once) (simp add: JdStart_def)

subsection \<open>A frame that is too big stops the decoder\<close>

text \<open>
  A compressed frame that does not fit is dropped after its buffer has been taken from the device,
  and the buffer is not queued again. From then on fewer buffers than there are count as queued, so
  that the next frame is put into the buffer with the number of the queued ones, which the device
  still holds: every later frame fails, and nothing is ever decoded any more.
\<close>

definition jd_stuck :: "jdec \<Rightarrow> bool" where
  "jd_stuck s \<longleftrightarrow> jd_queued s = [1]"

lemma jd_stuck_step:
  assumes "jd_stuck s"
  shows "jd_stuck (fst (jd_step s e)) \<and> length (jd_hw (fst (jd_step s e))) \<le> length (jd_hw s)"
  using assms
  by (cases e) (auto simp: jd_stuck_def jd_defs PlaneTake_def PlaneQueue_def INPUT_BUFFER_NUM_def Let_def
      split: option.splits list.splits prod.splits bool.splits if_splits)

lemma jd_stuck_run:
  "jd_stuck s \<Longrightarrow> jd_queued (fst (run jd_step s es)) = [1] \<and> length (jd_hw (fst (run jd_step s es))) \<le> length (jd_hw s)"
proof (induction es arbitrary: s)
  case (Cons e es)
  then show ?case using jd_stuck_step [of s e] Cons.IH [of "fst (jd_step s e)"] by (auto intro: le_trans)
qed (simp add: jd_stuck_def)

theorem big_frame_stops_decoder:
  assumes "jd_queued s = [0, 1]" "\<not> jd_abort s" "\<not> de_error env" "de_dq env = Some 0" "de_length env < len"
  shows "jd_queued (fst (run jd_step s (JdFrame env frame len # es))) = [1] \<and>
     length (jd_hw (fst (run jd_step s (JdFrame env frame len # es)))) \<le> length (jd_hw s)"
proof -
  have "jd_step s (JdFrame env frame len) = (s\<lparr>jd_queued := [1]\<rparr>, [JdTooBig frame])"
    using assms by (simp add: JdEmplace_def PlaneTake_def INPUT_BUFFER_NUM_def Let_def)
  then show ?thesis
    using jd_stuck_run [of "s\<lparr>jd_queued := [1]\<rparr>" es] by (simp add: jd_stuck_def)
qed

definition demo_jd :: jd_env where
  "demo_jd = \<lparr>de_error = False, de_dq = None, de_length = 10, de_queue = True, de_now = 0, de_event = True, de_setup = True\<rparr>"

definition demo_decoder :: jdec where
  "demo_decoder = fst (run jd_step (JdStart [21, 22, 23, 24]) [JdFrame demo_jd 1 5, JdFrame demo_jd 2 5])"

theorem big_frame_stops_decoder_witness:
  "jd_queued (fst (run jd_step demo_decoder (JdFrame (demo_jd\<lparr>de_dq := Some 0\<rparr>) 3 11 # [JdFrame demo_jd 4 5, JdDevice True True True]))) = [1] \<and>
   length (jd_hw (fst (run jd_step demo_decoder (JdFrame (demo_jd\<lparr>de_dq := Some 0\<rparr>) 3 11 # [JdFrame demo_jd 4 5, JdDevice True True True]))))
     \<le> length (jd_hw demo_decoder)"
  by (rule big_frame_stops_decoder)
     (simp_all add: demo_decoder_def demo_jd_def JdStart_def jd_defs PlaneTake_def PlaneQueue_def INPUT_BUFFER_NUM_def Let_def)

subsection \<open>A late size shifts the callbacks\<close>

text \<open>
  The first frame whose size is not known at once queues no callback, because nothing is decoded
  before the size is known; but it is decoded later, and its picture goes to the callback, and gets
  the timestamp, of the frame after it.
\<close>

lemma late_size_shifts_callbacks:
  "[x \<leftarrow> snd (run jd_step (JdStart [21, 22, 23, 24])
      [JdFrame (demo_jd\<lparr>de_event := False\<rparr>) 1 5, JdFrame demo_jd 2 5, JdDevice True True True]). \<exists>f g fd. x = JdDelivered f g fd] =
   [JdDelivered 2 1 21]"
  by (simp add: demo_jd_def JdStart_def jd_defs PlaneTake_def PlaneQueue_def INPUT_BUFFER_NUM_def FRAME_BUFFER_NUM_def
      kMaxSize_def tsq_push_def Let_def)

end
