(* ===== verification/Capture.thy ===== *)
theory Capture
  imports Complex_Main Subject
begin

text \<open>
  Cameras behind V4L2 and RTSP: src/src/capturer/v4l2_capturer.cpp and rtsp_capturer.cpp. The
  driver, libavformat and the decoders are outside the repository: what they answer is part of the
  events. A capture thread runs one call of the capture function after the other.
\<close>

section \<open>V4L2 cameras\<close>

datatype cam_format = FmtMjpeg | FmtH264 | FmtHevc | FmtRaw

definition kMaxDequeueFailures :: nat where "kMaxDequeueFailures = 30"

record v4l2cap =
  vc_format :: cam_format
  vc_decoder :: bool
  vc_first_key :: bool
  vc_failures :: nat
  vc_queued :: "nat set" \<comment> \<open>the buffers the driver has\<close>
  vc_last :: "nat option" \<comment> \<open>the buffer \<open>frame_buffer_\<close> points into, when it is the driver's\<close>
  vc_exited :: bool

definition IsCompressedFormat :: "cam_format \<Rightarrow> bool" where
  "IsCompressedFormat f \<longleftrightarrow> f = FmtMjpeg \<or> f = FmtH264"

datatype vc_out = VcExit | VcDecode nat | VcPublish nat | VcCopied

text \<open>
  What \<open>select\<close> and \<open>DQBUF\<close> answer: an interrupted or failed \<open>select\<close>, a timeout, a failed
  dequeue (with whether the device is gone), or a buffer, with whether it holds a key frame; and
  whether the decoder hands out a picture for it at once, and whether \<open>QBUF\<close> works.
\<close>

datatype vc_input = Interrupted | SelectFailed | TimedOut | DequeueFailed bool | Dequeued nat bool

definition StartCapture :: "nat \<Rightarrow> cam_format \<Rightarrow> bool \<Rightarrow> v4l2cap" where
  "StartCapture buffer_count f decoder = \<lparr>vc_format = f, vc_decoder = decoder, vc_first_key = False, vc_failures = 0,
     vc_queued = {..<buffer_count}, vc_last = None, vc_exited = False\<rparr>"

definition QueueBack :: "bool \<Rightarrow> nat \<Rightarrow> v4l2cap \<Rightarrow> v4l2cap" where
  "QueueBack ok i s = (if ok then s\<lparr>vc_queued := insert i (vc_queued s)\<rparr> else s)"

definition CaptureImage :: "vc_input \<Rightarrow> bool \<Rightarrow> bool \<Rightarrow> v4l2cap \<Rightarrow> v4l2cap \<times> vc_out list" where
  "CaptureImage r decoded queue_ok s =
     (if vc_exited s then (s, [])
      else case r of
        Interrupted \<Rightarrow> (s, [])
      | SelectFailed \<Rightarrow> (s\<lparr>vc_exited := True\<rparr>, [VcExit])
      | TimedOut \<Rightarrow> (s, [])
      | DequeueFailed lost \<Rightarrow>
          if lost then (s\<lparr>vc_exited := True\<rparr>, [VcExit])
          else let s1 = s\<lparr>vc_failures := vc_failures s + 1\<rparr>
               in if kMaxDequeueFailures \<le> vc_failures s1 then (s1\<lparr>vc_exited := True\<rparr>, [VcExit]) else (s1, [])
      | Dequeued i key \<Rightarrow>
          if i \<notin> vc_queued s then (s, [])
          else let s1 = s\<lparr>vc_failures := 0, vc_queued := vc_queued s - {i}\<rparr>;
                   gate = vc_decoder s1 \<and> vc_format s1 = FmtH264;
                   s2 = (if gate \<and> key then s1\<lparr>vc_first_key := True\<rparr> else s1)
               in if gate \<and> \<not> vc_first_key s2 then (QueueBack queue_ok i s2, [])
                  else if vc_decoder s2
                  then (QueueBack queue_ok i (if decoded then s2\<lparr>vc_last := None\<rparr> else s2), [VcDecode i] @ (if decoded then [VcCopied] else []))
                  else (QueueBack queue_ok i (s2\<lparr>vc_last := Some i\<rparr>), [VcPublish i]))"

text \<open>One call, as an event: the input, whether the decoder answers, whether \<open>QBUF\<close> works.\<close>

type_synonym vc_event = "vc_input \<times> bool \<times> bool"

fun vc_step :: "v4l2cap \<Rightarrow> vc_event \<Rightarrow> v4l2cap \<times> vc_out list" where
  "vc_step s (r, decoded, queue_ok) = CaptureImage r decoded queue_ok s"

lemmas vc_defs = CaptureImage_def QueueBack_def

text \<open>
  The invariant of the capture: all buffers are with the driver between two calls, as long as \<open>QBUF\<close>
  works, on every path: frames before the first key frame, dropped frames and errors included.
\<close>

definition requeues :: "vc_event \<Rightarrow> bool" where
  "requeues e = snd (snd e)"

lemma vc_queued_step:
  "requeues e \<Longrightarrow> vc_queued (fst (vc_step s e)) = vc_queued s"
  by (cases e) (auto simp: requeues_def vc_defs Let_def split: vc_input.splits)

lemma vc_queued_run: "list_all requeues es \<Longrightarrow> vc_queued (fst (run vc_step s es)) = vc_queued s"
  by (induction es arbitrary: s) (auto simp: vc_queued_step simp del: vc_step.simps)

lemma camera_queued: "list_all requeues es \<Longrightarrow> vc_queued (fst (run vc_step (StartCapture n f d) es)) = {..<n}"
  by (simp add: vc_queued_run) (simp add: StartCapture_def)

theorem camera_keeps_its_buffers:
  assumes "list_all requeues es"
  shows "vc_queued (fst (run vc_step (StartCapture n f d) es)) = {..<n}"
  by (rule camera_queued [OF assms])

theorem camera_keeps_its_buffers_witness:
  "vc_queued (fst (run vc_step (StartCapture 4 FmtH264 True)
     [(Dequeued 0 False, True, True), (DequeueFailed False, False, True), (Dequeued 1 True, True, True)])) = {..<4}"
  by (rule camera_keeps_its_buffers) (simp add: requeues_def)

text \<open>
  The program gives up on a camera at the thirtieth failure in a row, not before: what happened
  before the last successful dequeue does not count.
\<close>

fun failures_in_a_row :: "vc_event list \<Rightarrow> nat" where
  "failures_in_a_row [] = 0"
| "failures_in_a_row (e # es) =
     (case fst e of DequeueFailed False \<Rightarrow> Suc (failures_in_a_row es) | Dequeued _ _ \<Rightarrow> 0 | _ \<Rightarrow> failures_in_a_row es)"

definition fatal :: "vc_event \<Rightarrow> bool" where
  "fatal e \<longleftrightarrow> fst e = SelectFailed \<or> fst e = DequeueFailed True"

definition in_range :: "nat \<Rightarrow> vc_event \<Rightarrow> bool" where
  "in_range n e = (case fst e of Dequeued i _ \<Rightarrow> i < n | _ \<Rightarrow> True)"

lemma failures_step:
  assumes "\<not> vc_exited s" "\<not> fatal e" "in_range n e" "vc_queued s = {..<n}"
  shows "vc_failures (fst (vc_step s e)) =
      (case fst e of DequeueFailed False \<Rightarrow> Suc (vc_failures s) | Dequeued _ _ \<Rightarrow> 0 | _ \<Rightarrow> vc_failures s)"
    and "vc_exited (fst (vc_step s e)) \<longleftrightarrow> fst e = DequeueFailed False \<and> kMaxDequeueFailures \<le> Suc (vc_failures s)"
    and "VcExit \<in> set (snd (vc_step s e)) \<longleftrightarrow> vc_exited (fst (vc_step s e))"
  using assms by (cases e; auto simp: fatal_def in_range_def vc_defs Let_def split: vc_input.splits bool.splits)+

lemma failures_run:
  assumes "list_all (\<lambda>e. \<not> fatal e \<and> in_range n e \<and> requeues e) es"
    and "\<not> vc_exited (fst (run vc_step (StartCapture n f d) es))"
  shows "vc_failures (fst (run vc_step (StartCapture n f d) es)) = failures_in_a_row (rev es)"
  using assms
proof (induction es rule: rev_induct)
  case (snoc e es)
  let ?s = "fst (run vc_step (StartCapture n f d) es)"
  have alive: "\<not> vc_exited ?s"
  proof
    assume "vc_exited ?s"
    then have "vc_exited (fst (vc_step ?s e))" by (cases e) (simp add: CaptureImage_def)
    then show False using snoc.prems(2) by (simp add: fst_run_append)
  qed
  have q: "vc_queued ?s = {..<n}"
    using snoc.prems(1) by (intro camera_queued) (auto simp: list_all_iff)
  show ?case
    using snoc alive failures_step(1) [OF alive _ _ q, of e]
    by (auto simp: fst_run_append split: vc_input.splits bool.splits)
qed (simp add: StartCapture_def)

lemma few_failures: "\<not> vc_exited (fst (run vc_step (StartCapture n f d) es)) \<Longrightarrow>
  vc_failures (fst (run vc_step (StartCapture n f d) es)) < kMaxDequeueFailures"
proof (induction es rule: rev_induct)
  case (snoc e es)
  then show ?case
    by (cases e) (auto simp: fst_run_append vc_defs kMaxDequeueFailures_def Let_def split: vc_input.splits if_splits)
qed (simp add: StartCapture_def kMaxDequeueFailures_def)

theorem camera_exits_at_thirty:
  assumes "list_all (\<lambda>e. \<not> fatal e \<and> in_range n e \<and> requeues e) (es @ [e])"
    and "\<not> vc_exited (fst (run vc_step (StartCapture n f d) es))"
  shows "VcExit \<in> set (snd (vc_step (fst (run vc_step (StartCapture n f d) es)) e)) \<longleftrightarrow>
     fst e = DequeueFailed False \<and> failures_in_a_row (rev (es @ [e])) = kMaxDequeueFailures"
proof -
  let ?s = "fst (run vc_step (StartCapture n f d) es)"
  have q: "vc_queued ?s = {..<n}"
    using assms(1) by (intro camera_queued) (auto simp: list_all_iff)
  have "vc_failures ?s = failures_in_a_row (rev es)"
    using assms by (intro failures_run) auto
  moreover have "vc_failures ?s < kMaxDequeueFailures"
    using assms by (intro few_failures) auto
  ultimately show ?thesis
    using failures_step [OF assms(2) _ _ q, of e] assms(1) by auto
qed

theorem camera_exits_at_thirty_witness:
  "VcExit \<in> set (snd (vc_step (fst (run vc_step (StartCapture 4 FmtRaw False)
      ((Dequeued 0 False, False, True) # replicate 29 (DequeueFailed False, False, True)))) (DequeueFailed False, False, True))) \<longleftrightarrow>
   fst (DequeueFailed False, False, True) = DequeueFailed False \<and>
   failures_in_a_row (rev (((Dequeued 0 False, False, True) # replicate 29 (DequeueFailed False, False, True)) @ [(DequeueFailed False, False, True)]))
     = kMaxDequeueFailures"
  by (rule camera_exits_at_thirty)
     (simp_all add: fatal_def in_range_def requeues_def eval_nat_numeral StartCapture_def vc_defs kMaxDequeueFailures_def Let_def)

text \<open>
  Without a decoder the last frame, which a snapshot reads, points into a buffer that the driver has
  back and may be writing.
\<close>

theorem snapshot_reads_drivers_buffer:
  assumes "list_all requeues es" "vc_last (fst (run vc_step (StartCapture n f d) es)) = Some i"
  shows "i \<in> vc_queued (fst (run vc_step (StartCapture n f d) es))"
  using assms
proof (induction es rule: rev_induct)
  case (snoc e es)
  then show ?case
    by (cases e) (auto simp: fst_run_append requeues_def vc_defs Let_def split: vc_input.splits if_splits)
qed (simp add: StartCapture_def)

theorem snapshot_reads_drivers_buffer_witness:
  "2 \<in> vc_queued (fst (run vc_step (StartCapture 4 FmtRaw False) [(Dequeued 2 False, False, True)]))"
  by (rule snapshot_reads_drivers_buffer) (simp_all add: requeues_def StartCapture_def vc_defs Let_def)

section \<open>RTSP cameras\<close>

datatype av_codec = AvH264 | AvHevc | AvMjpeg | AvOther

text \<open>\<open>None\<close> is the fourcc 0.\<close>

definition ToFourcc :: "av_codec \<Rightarrow> cam_format option" where
  "ToFourcc c = (case c of AvH264 \<Rightarrow> Some FmtH264 | AvHevc \<Rightarrow> Some FmtHevc | AvMjpeg \<Rightarrow> Some FmtMjpeg | AvOther \<Rightarrow> None)"

definition IsAnnexB :: "bytes \<Rightarrow> bool" where
  "IsAnnexB d \<longleftrightarrow>
     (3 \<le> length d \<and> take 3 d = [CHR 0x00, CHR 0x00, CHR 0x01]) \<or>
     (4 \<le> length d \<and> take 4 d = [CHR 0x00, CHR 0x00, CHR 0x00, CHR 0x01])"

record stream_info =
  si_format :: "cam_format option"
  si_width :: int
  si_height :: int
  si_fps :: int
  si_params :: bytes

text \<open>What libavformat answers while a stream is opened.\<close>

record open_env =
  oe_alloc :: bool
  oe_input :: bool
  oe_stream :: "nat option" \<comment> \<open>the best video stream, when its parameters could be read\<close>
  oe_width :: int
  oe_height :: int
  oe_codec :: av_codec
  oe_rate :: "int \<times> int" \<comment> \<open>\<open>av_guess_frame_rate\<close>\<close>
  oe_extradata :: bytes

text \<open>The exact quotient: two 31-bit numbers cannot be so close to a half that rounding the quotient to a \<open>double\<close> matters.\<close>

definition StreamFps :: "int \<Rightarrow> int \<times> int \<Rightarrow> int" where
  "StreamFps configured rate =
     (let f = (if fst rate > 0 \<and> snd rate > 0 then rat_of_int (fst rate) / rat_of_int (snd rate) else 0)
      in if 1 \<le> f \<and> f \<le> 120 then \<lfloor>f + 1 / 2\<rfloor> else configured)"

lemma StreamFps_range: "1 \<le> configured \<Longrightarrow> configured \<le> 120 \<Longrightarrow> 1 \<le> StreamFps configured rate \<and> StreamFps configured rate \<le> 120"
  by (auto simp: StreamFps_def Let_def le_floor_iff floor_le_iff)

record rtsp =
  rt_stream :: stream_info
  rt_open :: bool
  rt_index :: nat
  rt_first_key :: bool
  rt_retrying :: bool
  rt_stopping :: bool
  rt_decoder :: bool
  rt_config_fps :: int
  rt_exited :: bool

datatype rt_out =
    RtOpened bytes \<comment> \<open>a session begins, with these parameter sets\<close>
  | RtWarnOpen
  | RtWarnLost
  | RtWait
  | RtHanded bool bytes bool \<comment> \<open>key frame, data, copied\<close>
  | RtExit

definition RtClose :: "rtsp \<Rightarrow> rtsp" where
  "RtClose s = s\<lparr>rt_open := False, rt_first_key := False\<rparr>"

definition OpenFail :: "rtsp \<Rightarrow> stream_info option \<times> rtsp \<times> rt_out list" where
  "OpenFail s = (None, RtClose (s\<lparr>rt_retrying := True\<rparr>), if \<not> rt_retrying s \<and> \<not> rt_stopping s then [RtWarnOpen] else [])"

definition RtOpen :: "open_env \<Rightarrow> rtsp \<Rightarrow> stream_info option \<times> rtsp \<times> rt_out list" where
  "RtOpen env s =
     (if \<not> oe_alloc env \<or> \<not> oe_input env then OpenFail s
      else case oe_stream env of
             None \<Rightarrow> OpenFail s
           | Some i \<Rightarrow>
               let s1 = s\<lparr>rt_open := True, rt_index := i\<rparr>
               in if oe_width env \<le> 0 \<or> oe_height env \<le> 0 then OpenFail s1
                  else (Some \<lparr>si_format = ToFourcc (oe_codec env), si_width = oe_width env, si_height = oe_height env,
                          si_fps = StreamFps (rt_config_fps s) (oe_rate env),
                          si_params = (if IsAnnexB (oe_extradata env) then oe_extradata env else [])\<rparr>,
                        s1\<lparr>rt_retrying := False\<rparr>, []))"

text \<open>\<open>Initialize\<close>: \<open>None\<close> while it still retries; the decoder is created once the stream is known.\<close>

fun RtInitialize :: "bool \<Rightarrow> open_env list \<Rightarrow> rtsp \<Rightarrow> (rtsp \<times> rt_out list) option" where
  "RtInitialize decoder_made [] s = None"
| "RtInitialize decoder_made (env # envs) s =
     (case RtOpen env s of
        (None, s1, os) \<Rightarrow> map_option (\<lambda>(s2, os2). (s2, os @ RtWait # os2)) (RtInitialize decoder_made envs s1)
      | (Some info, s1, os) \<Rightarrow>
          let s2 = s1\<lparr>rt_stream := info, rt_decoder := decoder_made\<rparr>
          in if si_format info = None then Some (s2\<lparr>rt_exited := True\<rparr>, os @ [RtExit])
             else if \<not> decoder_made \<and> si_format info \<noteq> Some FmtMjpeg then Some (s2\<lparr>rt_exited := True\<rparr>, os @ [RtExit])
             else Some (s2, os @ [RtOpened (si_params info)]))"

definition Reconnect :: "bool \<Rightarrow> open_env \<Rightarrow> rtsp \<Rightarrow> rtsp \<times> rt_out list" where
  "Reconnect stop env s =
     (let s0 = (if stop then s\<lparr>rt_stopping := True\<rparr> else s)
      in if rt_stopping s0 then (s0, [RtWait])
         else case RtOpen env s0 of
                (None, s1, os) \<Rightarrow> (s1, RtWait # os)
              | (Some info, s1, os) \<Rightarrow>
                  if si_format info \<noteq> si_format (rt_stream s1) \<or> si_width info \<noteq> si_width (rt_stream s1) \<or>
                     si_height info \<noteq> si_height (rt_stream s1)
                  then (s1\<lparr>rt_exited := True\<rparr>, RtWait # os @ [RtExit])
                  else (s1\<lparr>rt_stream := (rt_stream s1)\<lparr>si_params := si_params info\<rparr>\<rparr>, RtWait # os @ [RtOpened (si_params info)]))"

text \<open>
  \<open>stop\<close> is a destructor that sets \<open>stopping_\<close> while the call waits, for the next attempt or for a packet.
  \<open>av_read_frame\<close> answers an error, or a packet with its stream, its key frame flag and its data.
\<close>

type_synonym rt_packet = "(nat \<times> bool \<times> bytes) option"

definition ReadPacket :: "bool \<Rightarrow> open_env \<Rightarrow> rt_packet \<Rightarrow> rtsp \<Rightarrow> rtsp \<times> rt_out list" where
  "ReadPacket stop env packet s =
     (if rt_stopping s \<or> rt_exited s then (s, [])
      else if \<not> rt_open s then Reconnect stop env s
      else case packet of
        None \<Rightarrow> if stop then (RtClose (s\<lparr>rt_stopping := True\<rparr>), []) else (RtClose s, [RtWarnLost])
      | Some (index, key, data) \<Rightarrow>
          if index \<noteq> rt_index s then (s, [])
          else if \<not> rt_first_key s \<and> \<not> key then (s, [])
          else let params = si_params (rt_stream s);
                   prepend = \<not> rt_first_key s \<and> params \<noteq> [];
                   s1 = s\<lparr>rt_first_key := True\<rparr>
               in if rt_decoder s \<and> \<not> prepend then (s1, [RtHanded key data False])
                  else (s1, [RtHanded key ((if prepend then params else []) @ data) True]))"

datatype rt_event = RtRead bool open_env rt_packet | RtStop

fun rt_step :: "rtsp \<Rightarrow> rt_event \<Rightarrow> rtsp \<times> rt_out list" where
  "rt_step s (RtRead stop env packet) = ReadPacket stop env packet s"
| "rt_step s RtStop = (s\<lparr>rt_stopping := True\<rparr>, [])"

lemmas rt_defs = RtClose_def OpenFail_def RtOpen_def Reconnect_def ReadPacket_def

subsection \<open>Every session starts at a key frame\<close>

text \<open>
  \<open>owed\<close> holds the parameter sets of a session that has begun and of which nothing has been handed on.
\<close>

fun clean_start :: "bytes option \<Rightarrow> rt_out list \<Rightarrow> bool" where
  "clean_start owed [] = True"
| "clean_start owed (RtOpened p # os) = clean_start (Some p) os"
| "clean_start owed (RtHanded key data copied # os) =
     ((case owed of None \<Rightarrow> True | Some p \<Rightarrow> key \<and> take (length p) data = p) \<and> clean_start None os)"
| "clean_start owed (_ # os) = clean_start owed os"

fun owed_after :: "bytes option \<Rightarrow> rt_out list \<Rightarrow> bytes option" where
  "owed_after owed [] = owed"
| "owed_after owed (RtOpened p # os) = owed_after (Some p) os"
| "owed_after owed (RtHanded key data copied # os) = owed_after None os"
| "owed_after owed (_ # os) = owed_after owed os"

lemma clean_start_append: "clean_start owed (xs @ ys) \<longleftrightarrow> clean_start owed xs \<and> clean_start (owed_after owed xs) ys"
  by (induction owed xs rule: clean_start.induct) auto

lemma owed_after_append: "owed_after owed (xs @ ys) = owed_after (owed_after owed xs) ys"
  by (induction owed xs rule: owed_after.induct) auto

definition rt_inv :: "bytes option \<Rightarrow> rtsp \<Rightarrow> bool" where
  "rt_inv owed s \<longleftrightarrow> (rt_first_key s \<longrightarrow> rt_open s) \<and>
     (rt_open s \<and> \<not> rt_exited s \<longrightarrow> owed = (if rt_first_key s then None else Some (si_params (rt_stream s))))"

lemma RtOpen_result:
  assumes "RtOpen env s = (info, s1, os)"
  shows "set os \<subseteq> {RtWarnOpen}" "\<not> rt_first_key s \<Longrightarrow> \<not> rt_first_key s1" "rt_open s1 \<longleftrightarrow> info \<noteq> None"
    "rt_exited s1 = rt_exited s"
  using assms by (auto simp: rt_defs Let_def split: option.splits if_splits)

lemma warnings_keep_owed:
  "set os \<subseteq> {RtWarnOpen} \<Longrightarrow> clean_start owed (os @ xs) = clean_start owed xs \<and> owed_after owed (os @ xs) = owed_after owed xs"
  by (induction os) auto

lemma rt_inv_reconnect:
  assumes "rt_inv owed s" "\<not> rt_open s"
  shows "clean_start owed (snd (Reconnect stop env s)) \<and>
     rt_inv (owed_after owed (snd (Reconnect stop env s))) (fst (Reconnect stop env s))"
proof (cases "stop \<or> rt_stopping s")
  case True
  then show ?thesis using assms by (auto simp: Reconnect_def rt_inv_def Let_def)
next
  case False
  obtain info s1 os where o: "RtOpen env s = (info, s1, os)" by (cases "RtOpen env s")
  have first: "\<not> rt_first_key s" using assms by (auto simp: rt_inv_def)
  show ?thesis
    using False RtOpen_result [OF o] first warnings_keep_owed [of os owed "[]"] warnings_keep_owed [of os owed "[x]" for x]
    by (cases info) (auto simp: Reconnect_def o rt_inv_def Let_def)
qed

lemma rt_inv_step:
  assumes "rt_inv owed s"
  shows "clean_start owed (snd (rt_step s e)) \<and> rt_inv (owed_after owed (snd (rt_step s e))) (fst (rt_step s e))"
proof (cases e)
  case (RtRead stop env packet)
  show ?thesis
  proof (cases "rt_open s \<or> rt_stopping s \<or> rt_exited s")
    case True
    then consider "rt_stopping s \<or> rt_exited s" | "\<not> rt_stopping s" "\<not> rt_exited s" "rt_open s" by blast
    then show ?thesis
    proof cases
      case 1
      then show ?thesis using assms by (simp add: RtRead ReadPacket_def)
    next
      case 2
      show ?thesis
      proof (cases packet)
        case None
        then show ?thesis using 2 assms by (simp add: RtRead ReadPacket_def RtClose_def rt_inv_def)
      next
        case (Some p)
        obtain index key data where p: "p = (index, key, data)" by (cases p)
        then show ?thesis
          using Some 2 assms unfolding RtRead rt_step.simps ReadPacket_def Let_def
          by (simp add: rt_inv_def split: if_splits)
      qed
    qed
  next
    case False
    then show ?thesis using rt_inv_reconnect [OF assms] by (simp add: RtRead ReadPacket_def)
  qed
next
  case RtStop
  then show ?thesis using assms by (auto simp: rt_inv_def)
qed

lemma rt_clean_run: "rt_inv owed s \<Longrightarrow> clean_start owed (snd (run rt_step s es))"
proof (induction es arbitrary: s owed)
  case (Cons e es)
  then show ?case
    using rt_inv_step [OF Cons.prems, of e] by (simp add: clean_start_append del: rt_step.simps)
qed simp

lemma rt_inv_initialize:
  assumes "RtInitialize d envs s = Some (s1, os)" "\<not> rt_first_key s"
  shows "rt_inv (owed_after None os) s1 \<and> clean_start None os"
  using assms
proof (induction envs arbitrary: s os)
  case (Cons env envs)
  obtain info s2 os2 where o: "RtOpen env s = (info, s2, os2)" by (cases "RtOpen env s")
  have os2: "set os2 \<subseteq> {RtWarnOpen}" "\<not> rt_first_key s2" "info \<noteq> None \<Longrightarrow> rt_open s2"
    using RtOpen_result [OF o] Cons.prems(2) by auto
  note quiet = warnings_keep_owed [OF os2(1), of None]
  show ?case
  proof (cases info)
    case None
    then obtain os3 where os3: "RtInitialize d envs s2 = Some (s1, os3)" "os = os2 @ RtWait # os3"
      using Cons.prems(1) o by (auto simp del: RtInitialize.simps(1))
    then show ?thesis using Cons.IH [OF os3(1) os2(2)] quiet [of "RtWait # os3"] by simp
  next
    case (Some i)
    have "(s1 = s2\<lparr>rt_stream := i, rt_decoder := d, rt_exited := True\<rparr> \<and> os = os2 @ [RtExit]) \<or>
        (s1 = s2\<lparr>rt_stream := i, rt_decoder := d\<rparr> \<and> os = os2 @ [RtOpened (si_params i)])"
      using Cons.prems(1) by (simp add: o Some Let_def split: if_splits)
    then show ?thesis
      using os2(2,3) Some quiet [of "[RtExit]"] quiet [of "[RtOpened (si_params i)]"] by (elim disjE) (simp_all add: rt_inv_def)
  qed
qed simp

text \<open>
  Whatever the camera and the network do, the first frame that is handed on after every connection is
  a key frame, and it begins with the parameter sets of that connection: the decoder, which is kept,
  can start from it.
\<close>

theorem sessions_start_clean:
  assumes "RtInitialize d envs s = Some (s1, os)" "\<not> rt_first_key s"
  shows "clean_start None (os @ snd (run rt_step s1 es))"
  using rt_inv_initialize [OF assms] rt_clean_run by (simp add: clean_start_append)

definition demo_open :: open_env where
  "demo_open = \<lparr>oe_alloc = True, oe_input = True, oe_stream = Some 0, oe_width = 640, oe_height = 480, oe_codec = AvH264,
     oe_rate = (90000, 1), oe_extradata = [CHR 0x00, CHR 0x00, CHR 0x01, CHR ''s'']\<rparr>"

definition demo_rtsp :: rtsp where
  "demo_rtsp = \<lparr>rt_stream = \<lparr>si_format = None, si_width = 0, si_height = 0, si_fps = 0, si_params = []\<rparr>, rt_open = False,
     rt_index = 0, rt_first_key = False, rt_retrying = False, rt_stopping = False, rt_decoder = False, rt_config_fps = 30,
     rt_exited = False\<rparr>"

definition demo_rtsp_started :: "rtsp \<times> rt_out list" where
  "demo_rtsp_started = the (RtInitialize True [demo_open\<lparr>oe_input := False\<rparr>, demo_open] demo_rtsp)"

theorem sessions_start_clean_witness:
  "clean_start None (snd demo_rtsp_started @ snd (run rt_step (fst demo_rtsp_started)
     [RtRead False demo_open (Some (0, False, ''p'')), RtRead False demo_open (Some (0, True, ''k'')),
      RtRead False demo_open None, RtRead False demo_open None, RtRead False demo_open (Some (0, True, ''k''))]))"
  by (rule sessions_start_clean [where d = True and envs = "[demo_open\<lparr>oe_input := False\<rparr>, demo_open]" and s = demo_rtsp])
     (simp_all add: demo_rtsp_started_def demo_rtsp_def demo_open_def rt_defs ToFourcc_def IsAnnexB_def StreamFps_def Let_def)

subsection \<open>One warning per outage\<close>

text \<open>While a camera stays unreachable only the first attempt is reported.\<close>

definition unreachable :: "rt_event \<Rightarrow> bool" where
  "unreachable e = (case e of RtRead _ env _ \<Rightarrow> \<not> oe_input env | RtStop \<Rightarrow> True)"

lemma outage_step:
  assumes "\<not> rt_open s" "unreachable e"
  shows "\<not> rt_open (fst (rt_step s e))"
    and "count_out ((=) RtWarnOpen) (snd (rt_step s e)) + of_bool (\<not> rt_retrying (fst (rt_step s e))) \<le> of_bool (\<not> rt_retrying s)"
  using assms by (cases e; auto simp: unreachable_def rt_defs Let_def split: option.splits)+

theorem outage_is_reported_once:
  assumes "\<not> rt_open s" "list_all unreachable es"
  shows "count_out ((=) RtWarnOpen) (snd (run rt_step s es)) \<le> 1"
proof -
  have "count_out ((=) RtWarnOpen) (snd (run rt_step s es)) \<le> of_bool (\<not> rt_retrying s)"
    using assms
  proof (induction es arbitrary: s)
    case (Cons e es)
    then have ue: "unreachable e" "list_all unreachable es" by simp_all
    have "count_out ((=) RtWarnOpen) (snd (run rt_step (fst (rt_step s e)) es)) \<le> of_bool (\<not> rt_retrying (fst (rt_step s e)))"
      using Cons.IH [OF outage_step(1) [OF Cons.prems(1) ue(1)] ue(2)] .
    then show ?case
      using outage_step(2) [OF Cons.prems(1) ue(1)] by (simp only: run_Cons snd_conv count_out_simps)
  qed simp
  then show ?thesis by (auto split: if_splits simp: of_bool_def)
qed

theorem outage_is_reported_once_witness:
  "count_out ((=) RtWarnOpen) (snd (run rt_step demo_rtsp
     (replicate 3 (RtRead False (demo_open\<lparr>oe_input := False\<rparr>) None)))) \<le> 1"
  by (rule outage_is_reported_once) (simp_all add: demo_rtsp_def unreachable_def eval_nat_numeral)

subsection \<open>Stopping\<close>

interpretation rtsp: quiet_machine rt_step "\<lambda>s. True" rt_stopping "\<lambda>x. True"
proof unfold_locales
  show "rt_stopping (fst (rt_step s e))" if "rt_stopping s" for s e
    using that by (cases e) (auto simp: ReadPacket_def)
  show "list_all (\<lambda>x. \<not> True) (snd (rt_step s e))" if "rt_stopping s" for s e
    using that by (cases e) (auto simp: ReadPacket_def)
qed simp

lemma stopped_capturer_is_idle: "snd (run rt_step s (RtStop # es)) = []"
  using rtsp.silent_run [of "s\<lparr>rt_stopping := True\<rparr>" es] by (cases "snd (run rt_step (s\<lparr>rt_stopping := True\<rparr>) es)") auto

end
