(* ===== verification/V4l2Device.thy ===== *)
theory V4l2Device
  imports Prelude "HOL-Library.Word"
begin

unbundle bit_operations_syntax

text \<open>
  The devices behind V4L2: src/src/common/v4l2_utils.cpp, and how the codecs of the Raspberry Pi set
  their devices up and release them (src/src/codecs/v4l2/v4l2_codec.cpp, v4l2_decoder.cpp,
  v4l2_scaler.cpp and v4l2_encoder.cpp). What the driver answers to an \<open>ioctl\<close> is given; what the
  program opens, maps, unmaps and closes is the output.
\<close>

section \<open>Capabilities and pixel formats\<close>

definition V4L2_CAP_VIDEO_CAPTURE :: "32 word" where "V4L2_CAP_VIDEO_CAPTURE = 0x1"
definition V4L2_CAP_VIDEO_OUTPUT :: "32 word" where "V4L2_CAP_VIDEO_OUTPUT = 0x2"
definition V4L2_CAP_VIDEO_CAPTURE_MPLANE :: "32 word" where "V4L2_CAP_VIDEO_CAPTURE_MPLANE = 0x1000"
definition V4L2_CAP_VIDEO_OUTPUT_MPLANE :: "32 word" where "V4L2_CAP_VIDEO_OUTPUT_MPLANE = 0x2000"
definition V4L2_CAP_VIDEO_M2M_MPLANE :: "32 word" where "V4L2_CAP_VIDEO_M2M_MPLANE = 0x4000"
definition V4L2_CAP_VIDEO_M2M :: "32 word" where "V4L2_CAP_VIDEO_M2M = 0x8000"
definition V4L2_CAP_STREAMING :: "32 word" where "V4L2_CAP_STREAMING = 0x04000000"
definition V4L2_CAP_DEVICE_CAPS :: "32 word" where "V4L2_CAP_DEVICE_CAPS = 0x80000000"

definition IsSinglePlaneVideo :: "32 word \<Rightarrow> bool" where
  "IsSinglePlaneVideo caps \<longleftrightarrow>
     (caps AND (V4L2_CAP_VIDEO_CAPTURE OR V4L2_CAP_VIDEO_OUTPUT) \<noteq> 0 \<and> caps AND V4L2_CAP_STREAMING \<noteq> 0) \<or>
     caps AND V4L2_CAP_VIDEO_M2M \<noteq> 0"

definition IsMultiPlaneVideo :: "32 word \<Rightarrow> bool" where
  "IsMultiPlaneVideo caps \<longleftrightarrow>
     (caps AND (V4L2_CAP_VIDEO_CAPTURE_MPLANE OR V4L2_CAP_VIDEO_OUTPUT_MPLANE) \<noteq> 0 \<and> caps AND V4L2_CAP_STREAMING \<noteq> 0) \<or>
     caps AND V4L2_CAP_VIDEO_M2M_MPLANE \<noteq> 0"

datatype v4_out = VoOpen | VoCloseDevice | VoExport int | VoMap nat | VoClose int | VoUnmap nat | VoQueueBuffer nat

text \<open>\<open>opened\<close>: whether the device file exists; \<open>caps\<close>: what \<open>QUERYCAP\<close> answers.\<close>

definition IsM2MDeviceReady :: "bool \<Rightarrow> (32 word \<times> 32 word) option \<Rightarrow> bool \<times> v4_out list" where
  "IsM2MDeviceReady opened caps =
     (if \<not> opened then (False, [])
      else (case caps of
              None \<Rightarrow> False
            | Some (capabilities, device_caps) \<Rightarrow>
                let c = (if capabilities AND V4L2_CAP_DEVICE_CAPS \<noteq> 0 then device_caps else capabilities)
                in c AND (V4L2_CAP_VIDEO_M2M OR V4L2_CAP_VIDEO_M2M_MPLANE) \<noteq> 0,
            [VoOpen, VoCloseDevice]))"

text \<open>A pixel format is four characters in a word, the first one lowest.\<close>

fun fourcc_loop :: "nat \<Rightarrow> 32 word \<Rightarrow> string" where
  "fourcc_loop 0 w = []"
| "fourcc_loop (Suc n) w = char_of (unat (w AND 0xff)) # fourcc_loop n (drop_bit 8 w)"

definition FourccToString :: "32 word \<Rightarrow> string" where
  "FourccToString fourcc = fourcc_loop 4 fourcc"

definition v4l2_fourcc :: "char \<Rightarrow> char \<Rightarrow> char \<Rightarrow> char \<Rightarrow> 32 word" where
  "v4l2_fourcc a b c d = of_char a OR push_bit 8 (of_char b) OR push_bit 16 (of_char c) OR push_bit 24 (of_char d)"

lemma low_byte: "unat (w AND 0xff :: 32 word) = unat w mod 256"
proof -
  have "w AND 0xff = take_bit 8 w"
    using take_bit_eq_mask [of 8 w] by (simp add: mask_eq_exp_minus_1)
  then show ?thesis by (simp only: unsigned_take_bit_eq) (simp add: take_bit_eq_mod)
qed

lemma fourcc_loop_value:
  "horner_sum of_char 256 (fourcc_loop n w) = unat w mod 256 ^ n"
proof (induction n arbitrary: w)
  case (Suc n)
  have "unat w mod 256 + 256 * (unat w div 256 mod 256 ^ n) = unat w mod 256 ^ Suc n"
    by (simp add: mod_mult2_eq add.commute)
  then show ?case
    using Suc.IH [of "drop_bit 8 w"]
    by (simp add: low_byte of_char_of unat_drop_bit_eq drop_bit_eq_div [where ?'a = nat])
qed simp

text \<open>The name of a pixel format determines it: no two formats print alike.\<close>

theorem fourcc_names_are_unique: "FourccToString v = FourccToString w \<longleftrightarrow> v = w"
proof
  assume "FourccToString v = FourccToString w"
  then have "unat v mod 256 ^ 4 = unat w mod 256 ^ 4"
    unfolding FourccToString_def by (metis fourcc_loop_value)
  moreover have "unat x mod 256 ^ 4 = unat x" for x :: "32 word"
    using unsigned_less [of x, where ?'a = nat] by simp
  ultimately show "v = w" by (simp add: unsigned_word_eqI)
qed simp

lemma fourcc_examples:
  "FourccToString (v4l2_fourcc (CHR ''M'') (CHR ''J'') (CHR ''P'') (CHR ''G'')) = ''MJPG''"
  "FourccToString (v4l2_fourcc (CHR ''Y'') (CHR ''U'') (CHR ''1'') (CHR ''2'')) = ''YU12''"
  by code_simp+

definition V4L2_PIX_FMT_MJPEG :: "32 word" where
  "V4L2_PIX_FMT_MJPEG = v4l2_fourcc (CHR ''M'') (CHR ''J'') (CHR ''P'') (CHR ''G'')"
definition V4L2_PIX_FMT_H264 :: "32 word" where
  "V4L2_PIX_FMT_H264 = v4l2_fourcc (CHR ''H'') (CHR ''2'') (CHR ''6'') (CHR ''4'')"
definition V4L2_PIX_FMT_NV12 :: "32 word" where
  "V4L2_PIX_FMT_NV12 = v4l2_fourcc (CHR ''N'') (CHR ''V'') (CHR ''1'') (CHR ''2'')"
definition V4L2_PIX_FMT_YUV420 :: "32 word" where
  "V4L2_PIX_FMT_YUV420 = v4l2_fourcc (CHR ''Y'') (CHR ''U'') (CHR ''1'') (CHR ''2'')"

section \<open>Buffer groups\<close>

datatype v4_memory = MemMmap | MemDmabuf
datatype v4_type = BtCapture | BtOutput | BtCaptureMplane | BtOutputMplane

record v4_buf =
  vb_dmafd :: int
  vb_start :: "nat option" \<comment> \<open>the mapping, by a number\<close>
  vb_index :: nat

definition fresh_buf :: v4_buf where
  "fresh_buf = \<lparr>vb_dmafd = -1, vb_start = None, vb_index = 0\<rparr>"

record v4_group =
  vg_type :: v4_type
  vg_memory :: v4_memory
  vg_dma :: bool
  vg_planes :: nat
  vg_width :: nat
  vg_height :: nat
  vg_bytesperline :: nat
  vg_sizeimage :: nat
  vg_bufs :: "v4_buf list" \<comment> \<open>\<open>num_buffers\<close> is always their number\<close>

definition no_group :: v4_group where
  "no_group = \<lparr>vg_type = BtCapture, vg_memory = MemMmap, vg_dma = False, vg_planes = 0, vg_width = 0, vg_height = 0,
     vg_bytesperline = 0, vg_sizeimage = 0, vg_bufs = []\<rparr>"

definition InitBuffer :: "bool \<Rightarrow> v4_type \<Rightarrow> v4_memory \<Rightarrow> bool \<Rightarrow> v4_group \<Rightarrow> bool \<times> v4_group" where
  "InitBuffer querycap type memory has_dmafd g =
     (if \<not> querycap then (False, g) else (True, g\<lparr>vg_type := type, vg_memory := memory, vg_dma := has_dmafd\<rparr>))"

text \<open>The answer of \<open>S_FMT\<close>: what the driver made of the request.\<close>

record fmt_answer =
  fa_format :: "32 word"
  fa_planes :: nat
  fa_width :: nat
  fa_height :: nat
  fa_bytesperline :: nat
  fa_sizeimage :: nat

text \<open>\<open>None\<close> is the exception; the new pixel format is returned too.\<close>

definition SetFormat ::
  "fmt_answer option \<Rightarrow> nat \<Rightarrow> nat \<Rightarrow> 32 word \<Rightarrow> bool \<Rightarrow> v4_group \<Rightarrow> (bool \<times> v4_group \<times> 32 word) option" where
  "SetFormat answer width height pixel_format allow_padding g =
     (case answer of
        None \<Rightarrow> Some (False, g, pixel_format)
      | Some a \<Rightarrow>
          let g1 = g\<lparr>vg_planes := fa_planes a, vg_width := fa_width a, vg_height := fa_height a,
                     vg_bytesperline := fa_bytesperline a, vg_sizeimage := fa_sizeimage a\<rparr>;
              keep_driver_size = (width = 0 \<and> height = 0);
              padded = (allow_padding \<and> width \<le> vg_width g1 \<and> height \<le> vg_height g1)
          in if \<not> keep_driver_size \<and> \<not> padded \<and> (vg_width g1 \<noteq> width \<or> vg_height g1 \<noteq> height)
             then None else Some (True, g1, fa_format a))"

text \<open>
  A format that has been set holds every pixel that was asked for, and without \<open>allow_padding\<close>
  nothing else.
\<close>

theorem format_holds_the_frame:
  assumes "SetFormat answer w h f padding g = Some (True, g', f')" "0 < w \<or> 0 < h"
  shows "w \<le> vg_width g' \<and> h \<le> vg_height g' \<and> (\<not> padding \<longrightarrow> vg_width g' = w \<and> vg_height g' = h)"
  using assms by (auto simp: SetFormat_def Let_def split: option.splits if_splits)

theorem format_holds_the_frame_witness:
  "1920 \<le> vg_width (no_group\<lparr>vg_planes := 1, vg_width := 1920, vg_height := 1088, vg_bytesperline := 1920, vg_sizeimage := 3133440\<rparr>) \<and>
   1080 \<le> vg_height (no_group\<lparr>vg_planes := 1, vg_width := 1920, vg_height := 1088, vg_bytesperline := 1920, vg_sizeimage := 3133440\<rparr>) \<and>
   (\<not> True \<longrightarrow> vg_width (no_group\<lparr>vg_planes := 1, vg_width := 1920, vg_height := 1088, vg_bytesperline := 1920, vg_sizeimage := 3133440\<rparr>) = 1920 \<and>
      vg_height (no_group\<lparr>vg_planes := 1, vg_width := 1920, vg_height := 1088, vg_bytesperline := 1920, vg_sizeimage := 3133440\<rparr>) = 1080)"
  by (rule format_holds_the_frame [where answer = "Some \<lparr>fa_format = V4L2_PIX_FMT_NV12, fa_planes = 1, fa_width = 1920, fa_height = 1088,
         fa_bytesperline = 1920, fa_sizeimage = 3133440\<rparr>" and g = no_group and f = V4L2_PIX_FMT_NV12 and f' = V4L2_PIX_FMT_NV12])
     (simp_all add: SetFormat_def Let_def no_group_def)

definition SetCrop :: "(nat \<times> nat) option \<Rightarrow> nat \<Rightarrow> nat \<Rightarrow> bool" where
  "SetCrop answer width height = (case answer of None \<Rightarrow> False | Some (w, h) \<Rightarrow> w = width \<and> h = height)"

text \<open>How a control that the driver has refused is reported; \<open>QUERYCTRL\<close> may fail too.\<close>

datatype ctrl_report = CtrlSet | CtrlUnsupported | CtrlDisabled | CtrlInactive | CtrlOutOfRange

definition ReportCtrlFailure :: "(bool \<times> bool) option \<Rightarrow> ctrl_report" where
  "ReportCtrlFailure query =
     (case query of
        None \<Rightarrow> CtrlUnsupported
      | Some (disabled, inactive) \<Rightarrow> if disabled then CtrlDisabled else if inactive then CtrlInactive else CtrlOutOfRange)"

definition SetExtCtrl :: "bool \<Rightarrow> (bool \<times> bool) option \<Rightarrow> bool \<times> ctrl_report" where
  "SetExtCtrl accepted query = (if accepted then (True, CtrlSet) else (False, ReportCtrlFailure query))"

subsection \<open>Mapping and unmapping\<close>

text \<open>The driver's answers for one buffer: \<open>QUERYBUF\<close>, \<open>EXPBUF\<close> and \<open>mmap\<close>.\<close>

record buf_env =
  be_query :: bool
  be_export :: "int option"
  be_map :: "nat option"

definition map_buffer :: "buf_env \<Rightarrow> v4_buf \<Rightarrow> bool \<times> v4_buf \<times> v4_out list" where
  "map_buffer e b =
     (case be_map e of
        None \<Rightarrow> (False, b\<lparr>vb_start := None\<rparr>, [])
      | Some m \<Rightarrow> (True, b\<lparr>vb_start := Some m\<rparr>, [VoMap m]))"

fun MMap :: "bool \<Rightarrow> (nat \<Rightarrow> buf_env) \<Rightarrow> nat \<Rightarrow> v4_buf list \<Rightarrow> bool \<times> v4_buf list \<times> v4_out list" where
  "MMap dma env i [] = (True, [], [])"
| "MMap dma env i (b # bs) =
     (let b0 = b\<lparr>vb_index := i\<rparr>
      in if \<not> be_query (env i) then (False, b0 # bs, [])
         else case (if dma then be_export (env i) else Some (-1)) of
                None \<Rightarrow> (False, b0 # bs, [])
              | Some fd \<Rightarrow>
                  (case map_buffer (env i) (if dma then b0\<lparr>vb_dmafd := fd\<rparr> else b0) of
                     (False, b1, os) \<Rightarrow> (False, b1 # bs, (if dma then [VoExport fd] else []) @ os)
                   | (True, b1, os) \<Rightarrow>
                       (case MMap dma env (Suc i) bs of
                          (ok, bs', os') \<Rightarrow> (ok, b1 # bs', (if dma then [VoExport fd] else []) @ os @ os'))))"

definition UnMap :: "v4_buf list \<Rightarrow> v4_buf list \<times> v4_out list" where
  "UnMap bufs =
     (map (\<lambda>b. b\<lparr>vb_start := None\<rparr>) bufs,
      concat (map (\<lambda>b. (if vb_dmafd b > 0 then [VoClose (vb_dmafd b)] else []) @
                        (case vb_start b of None \<Rightarrow> [] | Some m \<Rightarrow> [VoUnmap m])) bufs))"

text \<open>\<open>std::vector::resize\<close>: what is there stays.\<close>

definition resize_bufs :: "nat \<Rightarrow> v4_buf list \<Rightarrow> v4_buf list" where
  "resize_bufs n bufs = take n bufs @ replicate (n - length bufs) fresh_buf"

definition AllocateBuffer :: "bool \<Rightarrow> (nat \<Rightarrow> buf_env) \<Rightarrow> nat \<Rightarrow> v4_group \<Rightarrow> bool \<times> v4_group \<times> v4_out list" where
  "AllocateBuffer reqbufs env n g =
     (let g1 = g\<lparr>vg_bufs := resize_bufs n (vg_bufs g)\<rparr>
      in if \<not> reqbufs then (False, g1, [])
         else case vg_memory g of
                MemMmap \<Rightarrow> (case MMap (vg_dma g) env 0 (vg_bufs g1) of (ok, bufs, os) \<Rightarrow> (ok, g1\<lparr>vg_bufs := bufs\<rparr>, os))
              | MemDmabuf \<Rightarrow> (True, g1\<lparr>vg_bufs := map (\<lambda>(i, b). b\<lparr>vb_index := i\<rparr>) (List.enumerate 0 (vg_bufs g1))\<rparr>, []))"

definition DeallocateBuffer :: "bool \<Rightarrow> v4_group \<Rightarrow> bool \<times> v4_group \<times> v4_out list" where
  "DeallocateBuffer reqbufs g =
     (case (if vg_memory g = MemMmap then UnMap (vg_bufs g) else (vg_bufs g, [])) of
        (bufs, os) \<Rightarrow>
          let g1 = g\<lparr>vg_bufs := bufs\<rparr>
          in if reqbufs then (True, g1\<lparr>vg_dma := False\<rparr>, os) else (False, g1, os))"

definition QueueBuffers :: "(nat \<Rightarrow> bool) \<Rightarrow> v4_group \<Rightarrow> bool \<times> v4_out list" where
  "QueueBuffers qbuf g =
     (let is = map vb_index (vg_bufs g); taken = takeWhile qbuf is
      in (length taken = length is, map VoQueueBuffer taken))"

subsection \<open>What is taken is given back\<close>

definition exported :: "v4_out list \<Rightarrow> int list" where
  "exported os = List.map_filter (\<lambda>x. case x of VoExport fd \<Rightarrow> Some fd | _ \<Rightarrow> None) os"

definition closed :: "v4_out list \<Rightarrow> int list" where
  "closed os = List.map_filter (\<lambda>x. case x of VoClose fd \<Rightarrow> Some fd | _ \<Rightarrow> None) os"

definition mapped :: "v4_out list \<Rightarrow> nat list" where
  "mapped os = List.map_filter (\<lambda>x. case x of VoMap m \<Rightarrow> Some m | _ \<Rightarrow> None) os"

definition unmapped :: "v4_out list \<Rightarrow> nat list" where
  "unmapped os = List.map_filter (\<lambda>x. case x of VoUnmap m \<Rightarrow> Some m | _ \<Rightarrow> None) os"

lemmas ledger_defs = exported_def closed_def mapped_def unmapped_def

lemma ledger_simps [simp]:
  "exported [] = []" "closed [] = []" "mapped [] = []" "unmapped [] = []"
  "exported (x # xs) = (case x of VoExport fd \<Rightarrow> [fd] | _ \<Rightarrow> []) @ exported xs"
  "closed (x # xs) = (case x of VoClose fd \<Rightarrow> [fd] | _ \<Rightarrow> []) @ closed xs"
  "mapped (x # xs) = (case x of VoMap m \<Rightarrow> [m] | _ \<Rightarrow> []) @ mapped xs"
  "unmapped (x # xs) = (case x of VoUnmap m \<Rightarrow> [m] | _ \<Rightarrow> []) @ unmapped xs"
  "exported (xs @ ys) = exported xs @ exported ys" "closed (xs @ ys) = closed xs @ closed ys"
  "mapped (xs @ ys) = mapped xs @ mapped ys" "unmapped (xs @ ys) = unmapped xs @ unmapped ys"
  by (auto simp: ledger_defs map_filter_simps map_filter_def split: v4_out.splits)

text \<open>What a group would close and unmap now.\<close>

definition held_fds :: "v4_buf list \<Rightarrow> int list" where
  "held_fds bufs = [vb_dmafd b. b \<leftarrow> bufs, vb_dmafd b > 0]"

definition held_maps :: "v4_buf list \<Rightarrow> nat list" where
  "held_maps bufs = concat (map (\<lambda>b. case vb_start b of None \<Rightarrow> [] | Some m \<Rightarrow> [m]) bufs)"

lemma UnMap_ledger:
  "closed (snd (UnMap bufs)) = held_fds bufs" "unmapped (snd (UnMap bufs)) = held_maps bufs"
  "exported (snd (UnMap bufs)) = []" "mapped (snd (UnMap bufs)) = []"
  "held_fds (fst (UnMap bufs)) = held_fds bufs" "held_maps (fst (UnMap bufs)) = []"
  by (induction bufs) (auto simp: UnMap_def held_fds_def held_maps_def split: option.splits)

text \<open>Buffers that have not been exported or mapped yet.\<close>

definition idle_buf :: "v4_buf \<Rightarrow> bool" where
  "idle_buf b \<longleftrightarrow> vb_dmafd b \<le> 0 \<and> vb_start b = None"

lemma held_simps [simp]:
  "held_fds [] = []" "held_maps [] = []"
  "held_fds (b # bs) = (if vb_dmafd b > 0 then vb_dmafd b # held_fds bs else held_fds bs)"
  "held_maps (b # bs) = (case vb_start b of None \<Rightarrow> held_maps bs | Some m \<Rightarrow> m # held_maps bs)"
  by (auto simp: held_fds_def held_maps_def split: option.splits)

lemma idle_held: "list_all idle_buf bufs \<Longrightarrow> held_fds bufs = [] \<and> held_maps bufs = []"
  by (induction bufs) (auto simp: idle_buf_def list_all_iff)

definition good_fds :: "(nat \<Rightarrow> buf_env) \<Rightarrow> bool" where
  "good_fds env \<longleftrightarrow> (\<forall>i fd. be_export (env i) = Some fd \<longrightarrow> fd > 0)"

lemma MMap_ledger:
  assumes "list_all idle_buf bufs" "good_fds env" "MMap dma env i bufs = (ok, bufs', os)"
  shows "held_fds bufs' = exported os \<and> held_maps bufs' = mapped os \<and> closed os = [] \<and> unmapped os = []"
  using assms
proof (induction bufs arbitrary: i ok bufs' os)
  case (Cons b bs)
  have idle: "vb_dmafd b \<le> 0" "vb_start b = None" "held_fds bs = []" "held_maps bs = []"
  proof -
    have i: "idle_buf b" "list_all idle_buf bs" using Cons.prems(1) by simp_all
    from i(1) show "vb_dmafd b \<le> 0" "vb_start b = None" by (simp_all add: idle_buf_def)
    from idle_held [OF i(2)] show "held_fds bs = []" "held_maps bs = []" by simp_all
  qed
  obtain ok1 bs1 os1 where r: "MMap dma env (Suc i) bs = (ok1, bs1, os1)" by (cases "MMap dma env (Suc i) bs")
  note ih = Cons.IH [OF _ Cons.prems(2) r]
  have pos: "be_export (env i) = Some fd \<Longrightarrow> fd > 0" for fd using Cons.prems(2) by (auto simp: good_fds_def)
  show ?case
    using Cons.prems(1,3) idle ih r
    by (auto simp: map_buffer_def Let_def dest: pos split: if_splits option.splits)
qed simp

lemma fresh_bufs_idle: "list_all idle_buf (resize_bufs n [])"
  by (simp add: resize_bufs_def list_all_iff idle_buf_def fresh_buf_def)

lemma Allocate_ledger:
  assumes "vg_bufs g = []" "good_fds env" "AllocateBuffer reqbufs env n g = (ok, g', os)"
  shows "vg_memory g' = vg_memory g" "closed os = []" "unmapped os = []"
    "vg_memory g = MemMmap \<Longrightarrow> held_fds (vg_bufs g') = exported os \<and> held_maps (vg_bufs g') = mapped os"
    "vg_memory g = MemDmabuf \<Longrightarrow> exported os = [] \<and> mapped os = []"
proof -
  obtain ok1 bufs os1 where r: "MMap (vg_dma g) env 0 (resize_bufs n []) = (ok1, bufs, os1)"
    by (cases "MMap (vg_dma g) env 0 (resize_bufs n [])")
  note m = MMap_ledger [OF fresh_bufs_idle assms(2) r]
  note i = idle_held [OF fresh_bufs_idle [of n]]
  show "vg_memory g' = vg_memory g" "closed os = []" "unmapped os = []"
    "vg_memory g = MemMmap \<Longrightarrow> held_fds (vg_bufs g') = exported os \<and> held_maps (vg_bufs g') = mapped os"
    "vg_memory g = MemDmabuf \<Longrightarrow> exported os = [] \<and> mapped os = []"
    using assms(1,3) r m i by (auto simp: AllocateBuffer_def Let_def split: if_splits v4_memory.splits)
qed

lemma Deallocate_ledger:
  assumes "DeallocateBuffer reqbufs g = (ok, g', os)"
  shows "exported os = []" "mapped os = []"
    "closed os = (if vg_memory g = MemMmap then held_fds (vg_bufs g) else [])"
    "unmapped os = (if vg_memory g = MemMmap then held_maps (vg_bufs g) else [])"
    "vg_memory g' = vg_memory g" "held_fds (vg_bufs g') = held_fds (vg_bufs g)"
    "vg_memory g = MemMmap \<Longrightarrow> held_maps (vg_bufs g') = []"
    "length (vg_bufs g') = length (vg_bufs g)" "reqbufs \<Longrightarrow> \<not> vg_dma g'"
  using assms UnMap_ledger [of "vg_bufs g"]
  by (auto simp: DeallocateBuffer_def Let_def UnMap_def split: if_splits prod.splits)

text \<open>
  Whatever fails while the buffers of a group are set up, releasing the group once closes exactly
  the descriptors that were exported and unmaps exactly what was mapped.
\<close>

theorem group_is_released:
  assumes "vg_bufs g = []" "good_fds env" "AllocateBuffer ra env n g = (oka, ga, osa)" "DeallocateBuffer rb ga = (okb, gb, osb)"
  shows "closed (osa @ osb) = exported (osa @ osb) \<and> unmapped (osa @ osb) = mapped (osa @ osb)"
  using Allocate_ledger [OF assms(1-3)] Deallocate_ledger [OF assms(4)] by (cases "vg_memory g") auto

definition demo_bufs :: "nat \<Rightarrow> buf_env" where
  "demo_bufs i = \<lparr>be_query = True, be_export = Some (30 + int i), be_map = (if i = 2 then None else Some (100 + i))\<rparr>"

definition demo_group :: v4_group where
  "demo_group = no_group\<lparr>vg_dma := True, vg_type := BtCaptureMplane\<rparr>"

theorem group_is_released_witness:
  "closed (snd (snd (AllocateBuffer True demo_bufs 4 demo_group)) @ snd (snd (DeallocateBuffer True (fst (snd (AllocateBuffer True demo_bufs 4 demo_group)))))) =
     exported (snd (snd (AllocateBuffer True demo_bufs 4 demo_group)) @ snd (snd (DeallocateBuffer True (fst (snd (AllocateBuffer True demo_bufs 4 demo_group)))))) \<and>
   unmapped (snd (snd (AllocateBuffer True demo_bufs 4 demo_group)) @ snd (snd (DeallocateBuffer True (fst (snd (AllocateBuffer True demo_bufs 4 demo_group)))))) =
     mapped (snd (snd (AllocateBuffer True demo_bufs 4 demo_group)) @ snd (snd (DeallocateBuffer True (fst (snd (AllocateBuffer True demo_bufs 4 demo_group))))))"
  by (rule group_is_released [where env = demo_bufs and g = demo_group and ra = True and n = 4 and rb = True
        and oka = "fst (AllocateBuffer True demo_bufs 4 demo_group)" and ga = "fst (snd (AllocateBuffer True demo_bufs 4 demo_group))"
        and okb = "fst (DeallocateBuffer True (fst (snd (AllocateBuffer True demo_bufs 4 demo_group))))"
        and gb = "fst (snd (DeallocateBuffer True (fst (snd (AllocateBuffer True demo_bufs 4 demo_group)))))"])
     (simp_all add: demo_group_def no_group_def good_fds_def demo_bufs_def)


section \<open>A codec's two groups\<close>

text \<open>
  \<open>output_\<close> takes the frames, \<open>capture_\<close> gives the results; \<open>output_buffer_index_\<close> are the free
  input buffers. \<open>vd_fd\<close> is whether the device is open.
\<close>

record v4_codec =
  vd_fd :: bool
  vd_output :: v4_group
  vd_capture :: v4_group
  vd_dst :: "32 word"
  vd_free :: "nat list"

definition new_codec :: v4_codec where
  "new_codec = \<lparr>vd_fd = False, vd_output = no_group, vd_capture = no_group, vd_dst = 0, vd_free = []\<rparr>"

record setup_env =
  su_querycap :: bool
  su_fmt :: "fmt_answer option"
  su_reqbufs :: bool
  su_bufs :: "nat \<Rightarrow> buf_env"
  su_qbuf :: "nat \<Rightarrow> bool"

definition OpenCodec :: "bool \<Rightarrow> v4_codec \<Rightarrow> bool \<times> v4_codec \<times> v4_out list" where
  "OpenCodec works d = (if works then (True, d\<lparr>vd_fd := True\<rparr>, [VoOpen]) else (False, d, []))"

text \<open>\<open>PrepareBuffer\<close> of one group; \<open>None\<close> is the exception of \<open>SetFormat\<close>.\<close>

definition PrepareGroup ::
  "setup_env \<Rightarrow> nat \<Rightarrow> nat \<Rightarrow> 32 word \<Rightarrow> v4_type \<Rightarrow> v4_memory \<Rightarrow> nat \<Rightarrow> bool \<Rightarrow> bool \<Rightarrow> v4_group \<Rightarrow>
     (bool \<times> v4_group \<times> v4_out list) option" where
  "PrepareGroup e width height f type memory n has_dmafd allow_padding g =
     (case InitBuffer (su_querycap e) type memory has_dmafd g of
        (False, g1) \<Rightarrow> Some (False, g1, [])
      | (True, g1) \<Rightarrow>
          (case SetFormat (su_fmt e) width height f allow_padding g1 of
             None \<Rightarrow> None
           | Some (False, g2, _) \<Rightarrow> Some (False, g2, [])
           | Some (True, g2, _) \<Rightarrow> Some (AllocateBuffer (su_reqbufs e) (su_bufs e) n g2)))"

definition SetupOutputBuffer ::
  "setup_env \<Rightarrow> nat \<Rightarrow> nat \<Rightarrow> 32 word \<Rightarrow> v4_memory \<Rightarrow> nat \<Rightarrow> v4_codec \<Rightarrow> (bool \<times> v4_codec \<times> v4_out list) option" where
  "SetupOutputBuffer e width height f memory n d =
     map_option (\<lambda>(ok, g, os). (ok, d\<lparr>vd_output := g, vd_free := (if ok then vd_free d @ [0..<n] else vd_free d)\<rparr>, os))
       (PrepareGroup e width height f BtOutputMplane memory n False False (vd_output d))"

definition SetupCaptureBuffer ::
  "setup_env \<Rightarrow> nat \<Rightarrow> nat \<Rightarrow> 32 word \<Rightarrow> v4_memory \<Rightarrow> nat \<Rightarrow> bool \<Rightarrow> bool \<Rightarrow> v4_codec \<Rightarrow> (bool \<times> v4_codec \<times> v4_out list) option" where
  "SetupCaptureBuffer e width height f memory n exp_dmafd allow_padding d =
     map_option (\<lambda>(ok, g, os).
         let (queued, os') = (if ok then QueueBuffers (su_qbuf e) g else (False, []))
         in (ok \<and> queued, d\<lparr>vd_capture := g, vd_dst := f\<rparr>, os @ os'))
       (PrepareGroup e width height f BtCaptureMplane memory n exp_dmafd allow_padding (vd_capture d))"

definition DestroyCodec :: "bool \<Rightarrow> bool \<Rightarrow> v4_codec \<Rightarrow> v4_codec \<times> v4_out list" where
  "DestroyCodec ok1 ok2 d =
     (if \<not> vd_fd d then (d, [])
      else case DeallocateBuffer ok1 (vd_output d) of (_, g1, os1) \<Rightarrow>
           (case DeallocateBuffer ok2 (vd_capture d) of (_, g2, os2) \<Rightarrow>
              (d\<lparr>vd_fd := False, vd_output := g1, vd_capture := g2\<rparr>, os1 @ os2 @ [VoCloseDevice])))"

text \<open>
  \<open>HandleEvent\<close> for one change of the source: the capture buffers are released and allocated anew in
  the size of the driver. No result is looked at.
\<close>

record change_env =
  ch_free :: bool
  ch_fmt :: "fmt_answer option"
  ch_reqbufs :: bool
  ch_bufs :: "nat \<Rightarrow> buf_env"

definition SourceChange :: "change_env \<Rightarrow> v4_codec \<Rightarrow> v4_codec \<times> v4_out list" where
  "SourceChange e d =
     (case DeallocateBuffer (ch_free e) (vd_capture d) of (_, g1, os1) \<Rightarrow>
      (case SetFormat (ch_fmt e) 0 0 (vd_dst d) False g1 of
         None \<Rightarrow> (d\<lparr>vd_capture := g1\<rparr>, os1)
       | Some (_, g2, f) \<Rightarrow>
           (case AllocateBuffer (ch_reqbufs e) (ch_bufs e) (length (vg_bufs g2)) g2 of
              (_, g3, os3) \<Rightarrow> (d\<lparr>vd_capture := g3, vd_dst := f\<rparr>, os1 @ os3))))"

lemma driver_size_never_throws: "SetFormat answer 0 0 f False g \<noteq> None"
  by (auto simp: SetFormat_def Let_def split: option.splits)

subsection \<open>The three codecs\<close>

definition OUTPUT_BUFFER_NUM :: nat where "OUTPUT_BUFFER_NUM = 2"
definition CAPTURE_BUFFER_NUM :: nat where "CAPTURE_BUFFER_NUM = 4"
definition MAX_WIDTH :: int where "MAX_WIDTH = 1920"
definition MAX_HEIGHT :: int where "MAX_HEIGHT = 1088"
definition BUFFER_NUM :: nat where "BUFFER_NUM = 2"

record device_env =
  dv_ready :: bool
  dv_open :: bool
  dv_output :: setup_env
  dv_crop :: "(nat \<times> nat) option"
  dv_capture :: setup_env

text \<open>
  \<open>Initialize\<close> in the form all three have: the device, the input buffers, a crop, the output buffers.
  The outcome is \<open>None\<close> for an exception, else whether it worked.
\<close>

definition and_then ::
  "(bool \<times> v4_codec \<times> v4_out list) option \<Rightarrow> (v4_codec \<Rightarrow> (bool \<times> v4_codec \<times> v4_out list) option) \<Rightarrow>
     (bool \<times> v4_codec \<times> v4_out list) option" where
  "and_then r k = (case r of
       None \<Rightarrow> None
     | Some (False, d, os) \<Rightarrow> Some (False, d, os)
     | Some (True, d, os) \<Rightarrow> map_option (\<lambda>(ok, d', os'). (ok, d', os @ os')) (k d))"

definition DecoderInitialize :: "device_env \<Rightarrow> nat \<Rightarrow> nat \<Rightarrow> 32 word \<Rightarrow> bool \<Rightarrow> (bool \<times> v4_codec \<times> v4_out list) option" where
  "DecoderInitialize e width height src is_dma_dst =
     and_then (Some (OpenCodec (dv_open e) new_codec)) (\<lambda>d.
     and_then (SetupOutputBuffer (dv_output e) width height src MemMmap OUTPUT_BUFFER_NUM d) (\<lambda>d.
       SetupCaptureBuffer (dv_capture e) width height V4L2_PIX_FMT_NV12 MemMmap CAPTURE_BUFFER_NUM is_dma_dst True d))"

definition ScalerInitialize ::
  "device_env \<Rightarrow> nat \<Rightarrow> nat \<Rightarrow> nat \<Rightarrow> nat \<Rightarrow> nat \<Rightarrow> 32 word \<Rightarrow> bool \<Rightarrow> bool \<Rightarrow> (bool \<times> v4_codec \<times> v4_out list) option" where
  "ScalerInitialize e src_width src_height src_plane_height dst_width dst_height src is_dma_src is_dma_dst =
     (let height = max src_height src_plane_height
      in and_then (Some (OpenCodec (dv_open e) new_codec)) (\<lambda>d.
         and_then (SetupOutputBuffer (dv_output e) src_width height src (if is_dma_src then MemDmabuf else MemMmap) BUFFER_NUM d) (\<lambda>d.
         and_then (Some (height = src_height \<or> SetCrop (dv_crop e) src_width src_height, d, [])) (\<lambda>d.
           SetupCaptureBuffer (dv_capture e) dst_width dst_height V4L2_PIX_FMT_YUV420 MemMmap BUFFER_NUM is_dma_dst False d))))"

definition EncoderInitialize :: "device_env \<Rightarrow> nat \<Rightarrow> nat \<Rightarrow> nat \<Rightarrow> 32 word \<Rightarrow> bool \<Rightarrow> (bool \<times> v4_codec \<times> v4_out list) option" where
  "EncoderInitialize e width height src_plane_height src is_dma_src =
     and_then (Some (OpenCodec (dv_open e) new_codec)) (\<lambda>d.
     and_then (SetupOutputBuffer (dv_output e) width (max height src_plane_height) src (if is_dma_src then MemDmabuf else MemMmap) BUFFER_NUM d) (\<lambda>d.
       SetupCaptureBuffer (dv_capture e) width height V4L2_PIX_FMT_H264 MemMmap BUFFER_NUM False False d))"

text \<open>Which streams the decoder takes at all.\<close>

definition DecoderTakes :: "bool \<Rightarrow> 32 word \<Rightarrow> int \<Rightarrow> int \<Rightarrow> bool" where
  "DecoderTakes ready src width height \<longleftrightarrow>
     ready \<and> (src = V4L2_PIX_FMT_H264 \<or> src = V4L2_PIX_FMT_MJPEG) \<and> \<not> (width > MAX_WIDTH \<or> height > MAX_HEIGHT)"

text \<open>
  The state of a codec in between: what its groups hold is what has been exported and mapped.
\<close>

definition codec_ledger :: "v4_codec \<Rightarrow> v4_out list \<Rightarrow> bool" where
  "codec_ledger d os \<longleftrightarrow>
     exported os = (if vg_memory (vd_output d) = MemMmap then held_fds (vg_bufs (vd_output d)) else []) @
                   (if vg_memory (vd_capture d) = MemMmap then held_fds (vg_bufs (vd_capture d)) else []) \<and>
     mapped os = (if vg_memory (vd_output d) = MemMmap then held_maps (vg_bufs (vd_output d)) else []) @
                 (if vg_memory (vd_capture d) = MemMmap then held_maps (vg_bufs (vd_capture d)) else []) \<and>
     closed os = [] \<and> unmapped os = []"

lemma PrepareGroup_ledger:
  assumes "vg_bufs g = []" "good_fds (su_bufs e)" "PrepareGroup e w h f t m n dma pad g = Some (ok, g', os)"
  shows "closed os = []" "unmapped os = []"
    "exported os = (if vg_memory g' = MemMmap then held_fds (vg_bufs g') else [])"
    "mapped os = (if vg_memory g' = MemMmap then held_maps (vg_bufs g') else [])"
proof -
  have "closed os = [] \<and> unmapped os = [] \<and>
    exported os = (if vg_memory g' = MemMmap then held_fds (vg_bufs g') else []) \<and>
    mapped os = (if vg_memory g' = MemMmap then held_maps (vg_bufs g') else [])"
  proof (cases "\<exists>g2. vg_bufs g2 = [] \<and> AllocateBuffer (su_reqbufs e) (su_bufs e) n g2 = (ok, g', os)")
    case True
    then obtain g2 where "vg_bufs g2 = []" "AllocateBuffer (su_reqbufs e) (su_bufs e) n g2 = (ok, g', os)" by blast
    from Allocate_ledger [OF this(1) assms(2) this(2)] show ?thesis by (cases "vg_memory g2") auto
  next
    case False
    then have "os = [] \<and> vg_bufs g' = []"
      using assms(1,3)
      by (auto simp: PrepareGroup_def InitBuffer_def SetFormat_def Let_def split: if_splits option.splits prod.splits bool.splits)
    then show ?thesis by simp
  qed
  then show "closed os = []" "unmapped os = []"
    "exported os = (if vg_memory g' = MemMmap then held_fds (vg_bufs g') else [])"
    "mapped os = (if vg_memory g' = MemMmap then held_maps (vg_bufs g') else [])" by blast+
qed

lemma queueing_is_neutral:
  "exported (snd (QueueBuffers q g)) = [] \<and> closed (snd (QueueBuffers q g)) = [] \<and>
   mapped (snd (QueueBuffers q g)) = [] \<and> unmapped (snd (QueueBuffers q g)) = []"
  by (simp add: QueueBuffers_def Let_def ledger_defs map_filter_def filter_map comp_def)

definition fresh_output :: "v4_codec \<Rightarrow> bool" where
  "fresh_output d \<longleftrightarrow> vd_fd d \<and> vg_bufs (vd_output d) = [] \<and> vg_bufs (vd_capture d) = []"

lemma SetupOutput_ledger:
  assumes "fresh_output d" "good_fds (su_bufs e)" "SetupOutputBuffer e w h f m n d = Some (ok, d', os)"
  shows "codec_ledger d' os \<and> vd_fd d' \<and> vg_bufs (vd_capture d') = []"
  using assms PrepareGroup_ledger [of "vd_output d" e]
  by (auto simp: SetupOutputBuffer_def fresh_output_def codec_ledger_def)

lemma SetupCapture_ledger:
  assumes "codec_ledger d os0" "vd_fd d" "vg_bufs (vd_capture d) = []" "good_fds (su_bufs e)"
    "SetupCaptureBuffer e w h f m n dma pad d = Some (ok, d', os)"
  shows "codec_ledger d' (os0 @ os) \<and> vd_fd d'"
proof -
  obtain ok1 g os1 where p: "PrepareGroup e w h f BtCaptureMplane m n dma pad (vd_capture d) = Some (ok1, g, os1)"
    using assms(5) by (auto simp: SetupCaptureBuffer_def)
  note l = PrepareGroup_ledger [OF assms(3,4) p]
  have r: "d' = d\<lparr>vd_capture := g, vd_dst := f\<rparr>" "os = os1 @ (if ok1 then snd (QueueBuffers (su_qbuf e) g) else [])"
    using assms(5) p by (auto simp: SetupCaptureBuffer_def split: if_splits prod.splits)
  have "exported os = exported os1 \<and> mapped os = mapped os1 \<and> closed os = [] \<and> unmapped os = []"
    using l queueing_is_neutral [of "su_qbuf e" g] r(2) by simp
  then show ?thesis
    using assms(1,2,3) l by (simp add: r(1) codec_ledger_def)
qed

lemma Destroy_ledger:
  assumes "codec_ledger d os" "vd_fd d"
  shows "closed (os @ snd (DestroyCodec o1 o2 d)) = exported (os @ snd (DestroyCodec o1 o2 d)) \<and>
    unmapped (os @ snd (DestroyCodec o1 o2 d)) = mapped (os @ snd (DestroyCodec o1 o2 d))"
proof -
  obtain k1 g1 os1 k2 g2 os2 where d: "DeallocateBuffer o1 (vd_output d) = (k1, g1, os1)" "DeallocateBuffer o2 (vd_capture d) = (k2, g2, os2)"
    by (metis prod_cases3)
  show ?thesis
    using assms Deallocate_ledger [OF d(1)] Deallocate_ledger [OF d(2)] by (simp add: DestroyCodec_def d codec_ledger_def)
qed

lemma opened_codec: "fresh_output (new_codec\<lparr>vd_fd := True\<rparr>)" "codec_ledger (new_codec\<lparr>vd_fd := True\<rparr>) [VoOpen]"
  by (simp_all add: fresh_output_def codec_ledger_def new_codec_def no_group_def)

lemma closed_device: "\<not> vd_fd d \<Longrightarrow> snd (DestroyCodec o1 o2 d) = []"
  by (simp add: DestroyCodec_def)

lemma Initialize_ledger:
  assumes "good_fds (su_bufs eo)" "good_fds (su_bufs ec)"
    "and_then (Some (OpenCodec works new_codec)) (\<lambda>d. and_then (SetupOutputBuffer eo w h f m n d) (\<lambda>d.
       and_then (Some (crop, d, [])) (\<lambda>d. SetupCaptureBuffer ec w' h' f' m' n' dma pad d))) = Some (ok, d', os)"
  shows "(vd_fd d' \<and> codec_ledger d' os) \<or> (\<not> vd_fd d' \<and> os = [])"
proof (cases works)
  case True
  let ?d = "new_codec\<lparr>vd_fd := True\<rparr>"
  obtain ok1 d1 os1 where s: "SetupOutputBuffer eo w h f m n ?d = Some (ok1, d1, os1)"
    using assms(3) True by (auto simp: and_then_def OpenCodec_def split: option.splits)
  note l = SetupOutput_ledger [OF opened_codec(1) assms(1) s]
  have l1: "codec_ledger d1 (VoOpen # os1)" using l by (simp add: codec_ledger_def)
  show ?thesis
  proof (cases "ok1 \<and> crop")
    case True
    then obtain os2 where "SetupCaptureBuffer ec w' h' f' m' n' dma pad d1 = Some (ok, d', os2)" "os = VoOpen # os1 @ os2"
      using assms(3) s \<open>works\<close> by (auto simp: and_then_def OpenCodec_def)
    then show ?thesis using SetupCapture_ledger [OF l1 _ _ assms(2)] l by auto
  next
    case False
    then have "d' = d1 \<and> os = VoOpen # os1"
      using assms(3) s \<open>works\<close> by (auto simp: and_then_def OpenCodec_def split: bool.splits)
    then show ?thesis using l l1 by simp
  qed
qed (use assms(3) in \<open>auto simp: and_then_def OpenCodec_def new_codec_def\<close>)

lemma no_crop: "and_then (Some (True, d, [])) k = k d"
  by (cases "k d") (auto simp: and_then_def)

lemma decoder_ledger:
  assumes "good_fds (su_bufs (dv_output e))" "good_fds (su_bufs (dv_capture e))" "DecoderInitialize e w h src dma = Some (ok, d, os)"
  shows "(vd_fd d \<and> codec_ledger d os) \<or> (\<not> vd_fd d \<and> os = [])"
  using Initialize_ledger [OF assms(1,2), where crop = True and works = "dv_open e" and w = w and h = h and f = src and m = MemMmap
      and n = OUTPUT_BUFFER_NUM and w' = w and h' = h and f' = V4L2_PIX_FMT_NV12 and m' = MemMmap and n' = CAPTURE_BUFFER_NUM
      and dma = dma and pad = True] assms(3)
  by (simp add: DecoderInitialize_def no_crop)

lemma scaler_ledger:
  assumes "good_fds (su_bufs (dv_output e))" "good_fds (su_bufs (dv_capture e))"
    "ScalerInitialize e w h ph w' h' src dma dma' = Some (ok, d, os)"
  shows "(vd_fd d \<and> codec_ledger d os) \<or> (\<not> vd_fd d \<and> os = [])"
  using Initialize_ledger [OF assms(1,2), where crop = "max h ph = h \<or> SetCrop (dv_crop e) w h" and works = "dv_open e" and w = w
      and h = "max h ph" and f = src and m = "if dma then MemDmabuf else MemMmap" and n = BUFFER_NUM and w' = w' and h' = h'
      and f' = V4L2_PIX_FMT_YUV420 and m' = MemMmap and n' = BUFFER_NUM and dma = dma' and pad = False] assms(3)
  by (simp add: ScalerInitialize_def Let_def)

lemma encoder_ledger:
  assumes "good_fds (su_bufs (dv_output e))" "good_fds (su_bufs (dv_capture e))" "EncoderInitialize e w h ph src dma = Some (ok, d, os)"
  shows "(vd_fd d \<and> codec_ledger d os) \<or> (\<not> vd_fd d \<and> os = [])"
  using Initialize_ledger [OF assms(1,2), where crop = True and works = "dv_open e" and w = w and h = "max h ph" and f = src
      and m = "if dma then MemDmabuf else MemMmap" and n = BUFFER_NUM and w' = w and h' = h and f' = V4L2_PIX_FMT_H264
      and m' = MemMmap and n' = BUFFER_NUM and dma = False and pad = False] assms(3)
  by (simp add: EncoderInitialize_def no_crop)


subsection \<open>A change of the source closes descriptors twice\<close>

lemma MMap_keeps_fds: "MMap False env i bufs = (ok, bufs', os) \<Longrightarrow> map vb_dmafd bufs' = map vb_dmafd bufs \<and> exported os = [] \<and> closed os = []"
  by (induction bufs arbitrary: i ok bufs' os)
     (auto simp: map_buffer_def Let_def split: if_splits option.splits prod.splits bool.splits)

lemma held_fds_map: "held_fds bufs = [fd \<leftarrow> map vb_dmafd bufs. fd > 0]"
  by (induction bufs) simp_all

lemma resize_same: "length bufs = n \<Longrightarrow> resize_bufs n bufs = bufs"
  by (simp add: resize_bufs_def)

lemma Allocate_keeps_fds:
  assumes "\<not> vg_dma g" "vg_memory g = MemMmap" "AllocateBuffer r env (length (vg_bufs g)) g = (ok, g', os)"
  shows "map vb_dmafd (vg_bufs g') = map vb_dmafd (vg_bufs g) \<and> exported os = [] \<and> closed os = [] \<and> vg_memory g' = MemMmap"
  using assms by (auto simp: AllocateBuffer_def resize_same Let_def dest: MMap_keeps_fds split: if_splits prod.splits)

lemma SourceChange_ledger:
  assumes "vg_memory (vd_capture d) = MemMmap" "ch_free c" "SourceChange c d = (d', os)"
  shows "closed os = held_fds (vg_bufs (vd_capture d))" "exported os = []"
    "map vb_dmafd (vg_bufs (vd_capture d')) = map vb_dmafd (vg_bufs (vd_capture d))"
    "vg_memory (vd_capture d') = MemMmap" "vd_output d' = vd_output d" "vd_fd d' = vd_fd d"
proof -
  obtain k g1 os1 where d: "DeallocateBuffer (ch_free c) (vd_capture d) = (k, g1, os1)" by (metis prod_cases3)
  have same: "map vb_dmafd (vg_bufs g1) = map vb_dmafd (vg_bufs (vd_capture d))"
    using d by (auto simp: DeallocateBuffer_def UnMap_def Let_def comp_def split: if_splits)
  obtain k2 g2 f where s: "SetFormat (ch_fmt c) 0 0 (vd_dst d) False g1 = Some (k2, g2, f)"
    using driver_size_never_throws by (metis option.exhaust prod_cases3)
  have g2: "vg_bufs g2 = vg_bufs g1" "vg_dma g2 = vg_dma g1" "vg_memory g2 = vg_memory g1"
    using s by (auto simp: SetFormat_def Let_def split: option.splits if_splits)
  obtain k3 g3 os3 where a: "AllocateBuffer (ch_reqbufs c) (ch_bufs c) (length (vg_bufs g2)) g2 = (k3, g3, os3)" by (metis prod_cases3)
  note l1 = Deallocate_ledger [OF d]
  have l3: "map vb_dmafd (vg_bufs g3) = map vb_dmafd (vg_bufs g2) \<and> exported os3 = [] \<and> closed os3 = [] \<and> vg_memory g3 = MemMmap"
    using Allocate_keeps_fds [OF _ _ a] g2 l1 assms(1,2) by simp
  have r: "d' = d\<lparr>vd_capture := g3, vd_dst := f\<rparr>" "os = os1 @ os3"
    using assms(3) by (simp_all add: SourceChange_def d s a)
  show "closed os = held_fds (vg_bufs (vd_capture d))" "exported os = []"
    "map vb_dmafd (vg_bufs (vd_capture d')) = map vb_dmafd (vg_bufs (vd_capture d))"
    "vg_memory (vd_capture d') = MemMmap" "vd_output d' = vd_output d" "vd_fd d' = vd_fd d"
    using r l1 l3 g2 same assms(1) by simp_all
qed

lemma PrepareGroup_Some:
  assumes "PrepareGroup e w h f t m n dma pad g = Some (True, g', os)"
  shows "\<exists>g2. vg_memory g2 = m \<and> vg_dma g2 = dma \<and> vg_bufs g2 = vg_bufs g \<and> AllocateBuffer (su_reqbufs e) (su_bufs e) n g2 = (True, g', os)"
proof -
  let ?g = "g\<lparr>vg_type := t, vg_memory := m, vg_dma := dma\<rparr>"
  obtain g2 x where g2: "SetFormat (su_fmt e) w h f pad ?g = Some (True, g2, x)" "AllocateBuffer (su_reqbufs e) (su_bufs e) n g2 = (True, g', os)"
    using assms by (auto simp: PrepareGroup_def InitBuffer_def split: if_splits option.splits prod.splits bool.splits)
  moreover have "vg_memory g2 = m \<and> vg_dma g2 = dma \<and> vg_bufs g2 = vg_bufs g"
    using g2(1) by (auto simp: SetFormat_def Let_def split: option.splits if_splits)
  ultimately show ?thesis by blast
qed

lemma decoder_shape:
  assumes "DecoderInitialize e w h src dma = Some (True, d, os)"
  shows "vg_memory (vd_capture d) = MemMmap \<and> held_fds (vg_bufs (vd_output d)) = [] \<and> vd_fd d"
proof -
  have keep: "vg_memory g' = MemMmap" if "PrepareGroup e w h f t MemMmap n dma pad g = Some (True, g', os)" for e w h f t n dma pad g g' os
    using PrepareGroup_Some [OF that] by (auto simp: AllocateBuffer_def Let_def split: if_splits prod.splits)
  have none: "held_fds (vg_bufs g') = []"
    if "PrepareGroup e w h f t MemMmap n False pad g = Some (True, g', os)" "vg_bufs g = []" for e w h f t n pad g g' os
  proof -
    have "map vb_dmafd (vg_bufs g') = replicate n (-1)"
      using PrepareGroup_Some [OF that(1)] that(2)
      by (auto simp: AllocateBuffer_def resize_bufs_def fresh_buf_def Let_def dest!: MMap_keeps_fds split: if_splits prod.splits)
    then show ?thesis by (simp add: held_fds_map)
  qed
  obtain d1 os1 os2 where
      o: "SetupOutputBuffer (dv_output e) w h src MemMmap OUTPUT_BUFFER_NUM (new_codec\<lparr>vd_fd := True\<rparr>) = Some (True, d1, os1)"
    and c: "SetupCaptureBuffer (dv_capture e) w h V4L2_PIX_FMT_NV12 MemMmap CAPTURE_BUFFER_NUM dma True d1 = Some (True, d, os2)"
    using assms by (auto simp: DecoderInitialize_def and_then_def OpenCodec_def split: option.splits bool.splits if_splits)
  let ?n = "new_codec\<lparr>vd_fd := True\<rparr>"
  obtain g where g: "PrepareGroup (dv_output e) w h src BtOutputMplane MemMmap OUTPUT_BUFFER_NUM False False (vd_output ?n) = Some (True, g, os1)"
      "d1 = ?n\<lparr>vd_output := g, vd_free := vd_free ?n @ [0..<OUTPUT_BUFFER_NUM]\<rparr>"
    using o by (auto simp: SetupOutputBuffer_def)
  have "held_fds (vg_bufs (vd_output d1)) = [] \<and> vd_fd d1"
    using none [OF g(1)] g(2) by (simp add: new_codec_def no_group_def)
  moreover obtain ok g' os' where g': "PrepareGroup (dv_capture e) w h V4L2_PIX_FMT_NV12 BtCaptureMplane MemMmap CAPTURE_BUFFER_NUM dma True (vd_capture d1) = Some (ok, g', os')"
    using c by (auto simp: SetupCaptureBuffer_def)
  moreover have "ok" "d = d1\<lparr>vd_capture := g', vd_dst := V4L2_PIX_FMT_NV12\<rparr>"
    using c g' by (auto simp: SetupCaptureBuffer_def split: if_splits prod.splits)
  moreover have "vg_memory g' = MemMmap" using g' \<open>ok\<close> by (simp add: keep)
  ultimately show ?thesis by simp
qed

text \<open>
  When the size of the decoded stream changes, the buffers are released, but keep the numbers of
  their closed descriptors, and are not exported again. Decoded frames then name closed descriptors,
  and the destructor closes every one of them a second time, whatever they belong to by then.
\<close>

theorem source_change_closes_twice:
  assumes "good_fds (su_bufs (dv_output e))" "good_fds (su_bufs (dv_capture e))"
    and "DecoderInitialize e w h src dma = Some (True, d, os)" "ch_free c" "SourceChange c d = (d', os')"
  shows "closed (os @ os' @ snd (DestroyCodec o1 o2 d')) = exported os @ exported os \<and>
    exported (os @ os' @ snd (DestroyCodec o1 o2 d')) = exported os \<and>
    map vb_dmafd (vg_bufs (vd_capture d')) = map vb_dmafd (vg_bufs (vd_capture d))"
proof -
  note shape = decoder_shape [OF assms(3)]
  have l: "codec_ledger d os" using decoder_ledger [OF assms(1-3)] shape by simp
  note c = SourceChange_ledger [OF conjunct1 [OF shape] assms(4,5)]
  obtain k1 g1 os1 k2 g2 os2 where x: "DeallocateBuffer o1 (vd_output d') = (k1, g1, os1)" "DeallocateBuffer o2 (vd_capture d') = (k2, g2, os2)"
    by (metis prod_cases3)
  have same: "held_fds (vg_bufs (vd_capture d')) = held_fds (vg_bufs (vd_capture d))" by (simp add: held_fds_map c(3))
  have "closed os1 = []" "exported os1 = []"
    using Deallocate_ledger(1,3) [OF x(1)] shape by (simp_all add: c(5))
  moreover have "closed os2 = held_fds (vg_bufs (vd_capture d))" "exported os2 = []"
    using Deallocate_ledger(1,3) [OF x(2)] by (simp_all add: c(4) same)
  moreover have "exported os = held_fds (vg_bufs (vd_capture d))" "closed os = []"
    using l shape by (simp_all add: codec_ledger_def)
  ultimately show ?thesis
    using shape by (simp add: DestroyCodec_def c x [unfolded c(5)])
qed

definition demo_setup :: setup_env where
  "demo_setup = \<lparr>su_querycap = True, su_fmt = Some \<lparr>fa_format = V4L2_PIX_FMT_NV12, fa_planes = 1, fa_width = 2, fa_height = 2,
     fa_bytesperline = 2, fa_sizeimage = 6\<rparr>, su_reqbufs = True,
     su_bufs = (\<lambda>i. \<lparr>be_query = True, be_export = Some (30 + int i), be_map = Some i\<rparr>), su_qbuf = (\<lambda>i. True)\<rparr>"

definition demo_device :: device_env where
  "demo_device = \<lparr>dv_ready = True, dv_open = True, dv_output = demo_setup, dv_crop = None, dv_capture = demo_setup\<rparr>"

definition demo_change :: change_env where
  "demo_change = \<lparr>ch_free = True, ch_fmt = None, ch_reqbufs = True, ch_bufs = su_bufs demo_setup\<rparr>"

definition demo_opened :: "v4_codec \<times> v4_out list" where
  "demo_opened = snd (the (DecoderInitialize demo_device 2 2 V4L2_PIX_FMT_H264 True))"

lemma demo_opened: "DecoderInitialize demo_device 2 2 V4L2_PIX_FMT_H264 True = Some (True, fst demo_opened, snd demo_opened)"
  by code_simp

lemma demo_good: "good_fds (su_bufs (dv_output demo_device))" "good_fds (su_bufs (dv_capture demo_device))"
  by (simp_all add: good_fds_def demo_device_def demo_setup_def)


theorem source_change_closes_twice_witness:
  "closed (snd demo_opened @ snd (SourceChange demo_change (fst demo_opened)) @
      snd (DestroyCodec True True (fst (SourceChange demo_change (fst demo_opened))))) = exported (snd demo_opened) @ exported (snd demo_opened) \<and>
   exported (snd demo_opened @ snd (SourceChange demo_change (fst demo_opened)) @
      snd (DestroyCodec True True (fst (SourceChange demo_change (fst demo_opened))))) = exported (snd demo_opened) \<and>
   map vb_dmafd (vg_bufs (vd_capture (fst (SourceChange demo_change (fst demo_opened))))) = map vb_dmafd (vg_bufs (vd_capture (fst demo_opened)))"
  by (rule source_change_closes_twice [OF demo_good demo_opened _ prod.collapse [symmetric]]) (simp add: demo_change_def)

lemma four_descriptors: "exported (snd demo_opened) = [30, 31, 32, 33]"
  by code_simp

end
