(* ===== verification/Frames.thy ===== *)
theory Frames
  imports Jetson Capture
begin

text \<open>
  Video frames and software decoding: src/src/common/v4l2_frame_buffer.cpp,
  src/src/capturer/decoder_factory.cpp and src/src/codecs/ffmpeg/ffmpeg_decoder.cpp. Of libyuv,
  \<open>I420Copy\<close> (copies three planes) and \<open>NV12ToI420\<close> (separates the chroma samples) are written
  out; \<open>ConvertToI420\<close>, which decodes everything else, is a parameter, and so are libavcodec and
  the Jetson's surfaces.
\<close>

section \<open>Frame buffers\<close>

datatype fb_format = FbYuv420 | FbNv12 | FbOther "32 word"

record vbuffer =
  bf_start :: "bytes option" \<comment> \<open>memory of the driver; none for a DMA buffer that is not mapped\<close>
  bf_format :: fb_format
  bf_length :: nat
  bf_flags :: nat
  bf_dmafd :: int
  bf_timestamp :: time

record fbuf =
  fb_width :: nat
  fb_height :: nat
  fb_format :: fb_format
  fb_size :: nat
  fb_stride :: nat
  fb_plane_height :: nat
  fb_flags :: nat
  fb_timestamp :: time
  fb_buffer :: vbuffer
  fb_data :: "bytes option" \<comment> \<open>memory of the frame itself\<close>

definition no_buffer :: vbuffer where
  "no_buffer = \<lparr>bf_start = None, bf_format = FbOther 0, bf_length = 0, bf_flags = 0, bf_dmafd = -1, bf_timestamp = 0\<rparr>"

definition WrapFrame :: "nat \<Rightarrow> nat \<Rightarrow> vbuffer \<Rightarrow> fbuf" where
  "WrapFrame w h b = \<lparr>fb_width = w, fb_height = h, fb_format = bf_format b, fb_size = bf_length b,
     fb_stride = w, fb_plane_height = h, fb_flags = bf_flags b, fb_timestamp = bf_timestamp b,
     fb_buffer = b, fb_data = None\<rparr>"

text \<open>\<open>memory\<close> is what the allocation happens to hold.\<close>

definition OwnFrame :: "bytes \<Rightarrow> nat \<Rightarrow> nat \<Rightarrow> nat \<Rightarrow> fb_format \<Rightarrow> fbuf" where
  "OwnFrame memory w h sz fmt = \<lparr>fb_width = w, fb_height = h, fb_format = fmt, fb_size = sz,
     fb_stride = w, fb_plane_height = h, fb_flags = 0, fb_timestamp = 0, fb_buffer = no_buffer, fb_data = Some (take sz memory)\<rparr>"

definition fb_Data :: "fbuf \<Rightarrow> bytes option" where
  "fb_Data f = (case fb_data f of Some d \<Rightarrow> Some d | None \<Rightarrow> bf_start (fb_buffer f))"

definition IsDmaOnly :: "fbuf \<Rightarrow> bool" where
  "IsDmaOnly f \<longleftrightarrow> fb_Data f = None \<and> bf_dmafd (fb_buffer f) > 0"

definition MutableData :: "fbuf \<Rightarrow> string + bytes" where
  "MutableData f = (case fb_data f of None \<Rightarrow> Inl ''MutableData() is not supported'' | Some d \<Rightarrow> Inr d)"

definition SetDmaFd :: "int \<Rightarrow> fbuf \<Rightarrow> fbuf" where
  "SetDmaFd fd f = (if fd > 0 then f\<lparr>fb_buffer := (fb_buffer f)\<lparr>bf_dmafd := fd\<rparr>\<rparr> else f)"

definition SetLayout :: "nat \<Rightarrow> nat \<Rightarrow> fbuf \<Rightarrow> fbuf" where
  "SetLayout stride plane_height f = f\<lparr>fb_stride := stride, fb_plane_height := plane_height\<rparr>"

text \<open>\<open>None\<close>: the copy reads a null pointer or behind the end of the memory.\<close>

definition CloneFrame :: "fbuf \<Rightarrow> fbuf option" where
  "CloneFrame f =
     (case fb_Data f of
        None \<Rightarrow> None
      | Some d \<Rightarrow>
          if length d < fb_size f then None
          else Some ((SetLayout (fb_stride f) (fb_plane_height f)
                       (SetDmaFd (bf_dmafd (fb_buffer f)) (OwnFrame d (fb_width f) (fb_height f) (fb_size f) (fb_format f))))
                     \<lparr>fb_flags := fb_flags f, fb_timestamp := fb_timestamp f\<rparr>))"

subsection \<open>Reading a frame as I420\<close>

type_synonym i420 = "bytes list \<times> bytes list \<times> bytes list"

fun evens :: "'a list \<Rightarrow> 'a list" where
  "evens (x # y # xs) = x # evens xs"
| "evens [x] = [x]"
| "evens [] = []"

fun odds :: "'a list \<Rightarrow> 'a list" where
  "odds (x # y # xs) = y # odds xs"
| "odds _ = []"

definition I420Copy :: "bytes \<Rightarrow> nat \<Rightarrow> nat \<Rightarrow> nat \<Rightarrow> nat \<Rightarrow> nat \<Rightarrow> nat \<Rightarrow> i420 option" where
  "I420Copy src stride u v chroma_stride w h =
     (case (copy_rows src 0 stride w h, copy_rows src u chroma_stride ((w + 1) div 2) ((h + 1) div 2),
            copy_rows src v chroma_stride ((w + 1) div 2) ((h + 1) div 2)) of
        (Some y, Some u, Some v) \<Rightarrow> Some (y, u, v) | _ \<Rightarrow> None)"

definition NV12ToI420 :: "bytes \<Rightarrow> nat \<Rightarrow> nat \<Rightarrow> nat \<Rightarrow> nat \<Rightarrow> i420 option" where
  "NV12ToI420 src stride uv w h =
     (case (copy_rows src 0 stride w h, copy_rows src uv stride (2 * ((w + 1) div 2)) ((h + 1) div 2)) of
        (Some y, Some c) \<Rightarrow> Some (y, map evens c, map odds c) | _ \<Rightarrow> None)"

datatype to_i420 = I420Picture i420 | OutsideMemory | FromSurface | FromNull | Converted

text \<open>\<open>jetson\<close>: built with libargus.\<close>

definition ToI420 :: "bool \<Rightarrow> fbuf \<Rightarrow> to_i420" where
  "ToI420 jetson f =
     (let s = fb_stride f; ph = fb_plane_height f; picture = (\<lambda>r. case r of None \<Rightarrow> OutsideMemory | Some p \<Rightarrow> I420Picture p)
      in case (fb_format f, fb_Data f) of
           (FbYuv420, Some src) \<Rightarrow>
             picture (I420Copy src s (s * ph) (s * ph + (s div 2) * (ph div 2)) (s div 2) (fb_width f) (fb_height f))
         | (FbYuv420, None) \<Rightarrow> FromNull
         | (fmt, src) \<Rightarrow>
             if jetson \<and> IsDmaOnly f then FromSurface
             else (case (fmt, src) of
                     (FbNv12, Some src) \<Rightarrow> picture (NV12ToI420 src s (s * ph) (fb_width f) (fb_height f))
                   | (_, None) \<Rightarrow> FromNull
                   | _ \<Rightarrow> Converted))"

text \<open>Rows of equal length laid out one after the other.\<close>

lemma drop_rows:
  "list_all (\<lambda>r. length r = n) rows \<Longrightarrow> i < length rows \<Longrightarrow> w \<le> n \<Longrightarrow>
   take w (drop (i * n) (concat rows @ rest)) = take w (rows ! i)"
proof (induction rows arbitrary: i)
  case (Cons r rows)
  then show ?case by (cases i) (auto simp: drop_append)
qed simp

lemma length_rows: "list_all (\<lambda>r. length r = n) rows \<Longrightarrow> length (concat rows) = length rows * n"
  by (induction rows) auto

lemma copy_laid_out_rows:
  assumes "list_all (\<lambda>r. length r = n) rows" "h \<le> length rows" "w \<le> n"
  shows "copy_rows (before @ concat rows @ after) (length before) n w h = Some (map (take w) (take h rows))"
proof -
  have "n * h \<le> length rows * n" using assms(2) by simp
  then have "copy_rows (before @ concat rows @ after) (length before) n w h =
      Some (map (\<lambda>r. take w (drop (length before + r * n) (before @ concat rows @ after))) [0..<h])"
    using assms by (intro copy_rows_ok) (simp_all add: length_rows trans_le_add1)
  also have "map (\<lambda>r. take w (drop (length before + r * n) (before @ concat rows @ after))) [0..<h] = map (\<lambda>r. take w (rows ! r)) [0..<h]"
  proof (rule map_cong [OF refl])
    fix r assume "r \<in> set [0..<h]"
    then have "r < length rows" using assms(2) by simp
    from drop_rows [OF assms(1) this assms(3), of after]
    show "take w (drop (length before + r * n) (before @ concat rows @ after)) = take w (rows ! r)"
      by (simp add: drop_append)
  qed
  also have "\<dots> = map (take w) (take h rows)"
    using assms(2) by (intro nth_equalityI) simp_all
  finally show ?thesis .
qed

text \<open>
  However a YUV420 frame is padded, the picture that is read from it is the one that was laid out:
  the first bytes of the first rows of its three planes.
\<close>

definition laid_out :: "nat \<Rightarrow> nat \<Rightarrow> bytes list \<Rightarrow> bytes list \<Rightarrow> bytes list \<Rightarrow> bool" where
  "laid_out s ph y u v \<longleftrightarrow> list_all (\<lambda>r. length r = s) y \<and> length y = ph \<and>
     list_all (\<lambda>r. length r = s div 2) u \<and> length u = ph div 2 \<and> list_all (\<lambda>r. length r = s div 2) v \<and> length v = ph div 2"

theorem padding_is_skipped:
  assumes "fb_format f = FbYuv420" "fb_Data f = Some (concat y @ concat u @ concat v @ rest)"
    and "laid_out (fb_stride f) (fb_plane_height f) y u v"
    and "even (fb_width f)" "even (fb_height f)" "fb_width f \<le> fb_stride f" "fb_height f \<le> fb_plane_height f"
  shows "ToI420 jetson f = I420Picture (map (take (fb_width f)) (take (fb_height f) y),
     map (take (fb_width f div 2)) (take (fb_height f div 2) u), map (take (fb_width f div 2)) (take (fb_height f div 2) v))"
proof -
  let ?s = "fb_stride f" and ?ph = "fb_plane_height f" and ?w = "fb_width f" and ?h = "fb_height f"
  have l: "list_all (\<lambda>r. length r = ?s) y" "length y = ?ph" "list_all (\<lambda>r. length r = ?s div 2) u" "length u = ?ph div 2"
      "list_all (\<lambda>r. length r = ?s div 2) v" "length v = ?ph div 2"
    using assms(3) by (simp_all add: laid_out_def)
  have half: "Suc ?w div 2 = ?w div 2" "Suc ?h div 2 = ?h div 2" "?w div 2 \<le> ?s div 2" "?h div 2 \<le> ?ph div 2"
    using assms(4-7) by (auto elim!: evenE)
  have uo: "?s * ?ph = length (concat y)" "(?s div 2) * (?ph div 2) = length (concat u)"
    using l by (simp_all add: length_rows mult.commute)
  have "copy_rows (concat y @ concat u @ concat v @ rest) 0 ?s ?w ?h = Some (map (take ?w) (take ?h y))"
    using copy_laid_out_rows [of ?s y ?h ?w "[]"] l assms(6,7) by simp
  moreover have "copy_rows (concat y @ concat u @ concat v @ rest) (length (concat y)) (?s div 2) (?w div 2) (?h div 2) =
      Some (map (take (?w div 2)) (take (?h div 2) u))"
    using copy_laid_out_rows [of "?s div 2" u "?h div 2" "?w div 2" "concat y" "concat v @ rest"] l half by simp
  moreover have "copy_rows (concat y @ concat u @ concat v @ rest) (length (concat y @ concat u)) (?s div 2) (?w div 2) (?h div 2) =
      Some (map (take (?w div 2)) (take (?h div 2) v))"
    using copy_laid_out_rows [of "?s div 2" v "?h div 2" "?w div 2" "concat y @ concat u" rest] l half by simp
  ultimately show ?thesis
    using assms(1,2) by (simp add: ToI420_def I420Copy_def half uo Let_def)
qed

definition demo_y :: "bytes list" where "demo_y = [''aabb'', ''ccdd'', ''xxxx'', ''xxxx'']"
definition demo_u :: "bytes list" where "demo_u = [''ux'', ''xx'']"
definition demo_v :: "bytes list" where "demo_v = [''vx'', ''xx'']"

lemmas demo_planes = demo_y_def demo_u_def demo_v_def

definition demo_yuv :: fbuf where
  "demo_yuv = SetLayout 4 4 (OwnFrame (concat demo_y @ concat demo_u @ concat demo_v @ []) 2 2 24 FbYuv420)"

theorem padding_is_skipped_witness:
  "ToI420 False demo_yuv = I420Picture (map (take (fb_width demo_yuv)) (take (fb_height demo_yuv) demo_y),
     map (take (fb_width demo_yuv div 2)) (take (fb_height demo_yuv div 2) demo_u), map (take (fb_width demo_yuv div 2)) (take (fb_height demo_yuv div 2) demo_v))"
  by (rule padding_is_skipped [where rest = "[]"]) (simp_all add: demo_yuv_def demo_planes SetLayout_def OwnFrame_def fb_Data_def laid_out_def)

text \<open>The same of an NV12 frame, whose two chroma planes are interleaved.\<close>

fun interleave :: "'a list \<Rightarrow> 'a list \<Rightarrow> 'a list" where
  "interleave (x # xs) (y # ys) = x # y # interleave xs ys"
| "interleave _ _ = []"

lemma deinterleave:
  "length xs = length ys \<Longrightarrow> k \<le> length xs \<Longrightarrow>
   evens (take (2 * k) (interleave xs ys)) = take k xs \<and> odds (take (2 * k) (interleave xs ys)) = take k ys"
proof (induction xs ys arbitrary: k rule: list_induct2')
  case (4 x xs y ys)
  then show ?case by (cases k) auto
qed auto

lemma length_interleave: "length xs = length ys \<Longrightarrow> length (interleave xs ys) = 2 * length xs"
  by (induction xs ys rule: list_induct2') auto

theorem nv12_padding_is_skipped:
  assumes "fb_format f = FbNv12" "fb_Data f = Some (concat y @ concat (map2 interleave u v) @ rest)"
    and "laid_out (fb_stride f) (fb_plane_height f) y u v" "even (fb_stride f)"
    and "even (fb_width f)" "even (fb_height f)" "fb_width f \<le> fb_stride f" "fb_height f \<le> fb_plane_height f"
  shows "ToI420 jetson f = I420Picture (map (take (fb_width f)) (take (fb_height f) y),
     map (take (fb_width f div 2)) (take (fb_height f div 2) u), map (take (fb_width f div 2)) (take (fb_height f div 2) v))"
proof -
  let ?s = "fb_stride f" and ?ph = "fb_plane_height f" and ?w = "fb_width f" and ?h = "fb_height f" and ?uv = "map2 interleave u v"
  have l: "list_all (\<lambda>r. length r = ?s) y" "length y = ?ph" "list_all (\<lambda>r. length r = ?s div 2) u" "length u = ?ph div 2"
      "list_all (\<lambda>r. length r = ?s div 2) v" "length v = ?ph div 2"
    using assms(3) by (simp_all add: laid_out_def)
  have half: "Suc ?w div 2 = ?w div 2" "Suc ?h div 2 = ?h div 2" "?w div 2 \<le> ?s div 2" "?h div 2 \<le> ?ph div 2" "2 * (?w div 2) = ?w"
    using assms(5-8) by (auto elim!: evenE)
  have uv: "list_all (\<lambda>r. length r = ?s) ?uv" "length ?uv = ?ph div 2"
    using l assms(4) by (auto simp: list_all_length length_interleave)
  have "copy_rows (concat y @ concat ?uv @ rest) 0 ?s ?w ?h = Some (map (take ?w) (take ?h y))"
    using copy_laid_out_rows [of ?s y ?h ?w "[]"] l assms(7,8) by simp
  moreover have "copy_rows (concat y @ concat ?uv @ rest) (length (concat y)) ?s ?w (?h div 2) = Some (map (take ?w) (take (?h div 2) ?uv))"
    using copy_laid_out_rows [OF uv(1) _ assms(7), of "?h div 2" "concat y" rest] half(4) l(4,6) by simp
  moreover have "?s * ?ph = length (concat y)" using l by (simp add: length_rows mult.commute)
  moreover have "map evens (map (take ?w) (take (?h div 2) ?uv)) = map (take (?w div 2)) (take (?h div 2) u) \<and>
      map odds (map (take ?w) (take (?h div 2) ?uv)) = map (take (?w div 2)) (take (?h div 2) v)"
  proof -
    have row: "evens (take ?w (interleave (u ! i) (v ! i))) = take (?w div 2) (u ! i) \<and>
        odds (take ?w (interleave (u ! i) (v ! i))) = take (?w div 2) (v ! i)" if "i < ?h div 2" for i
      using deinterleave [of "u ! i" "v ! i" "?w div 2"] that l half by (simp add: list_all_length)
    have n: "?h div 2 \<le> length u" "?h div 2 \<le> length v" using l half by simp_all
    have "map evens (map (take ?w) (take (?h div 2) ?uv)) = map (take (?w div 2)) (take (?h div 2) u)"
      by (rule nth_equalityI) (use n row in simp_all)
    moreover have "map odds (map (take ?w) (take (?h div 2) ?uv)) = map (take (?w div 2)) (take (?h div 2) v)"
      by (rule nth_equalityI) (use n row in simp_all)
    ultimately show ?thesis ..
  qed
  ultimately show ?thesis
    using assms(1,2) half(1,2,5) by (simp add: ToI420_def NV12ToI420_def IsDmaOnly_def Let_def)
qed

definition demo_nv12 :: fbuf where
  "demo_nv12 = SetLayout 4 4 (OwnFrame (concat demo_y @ concat (map2 interleave demo_u demo_v) @ []) 2 2 24 FbNv12)"

theorem nv12_padding_is_skipped_witness:
  "ToI420 True demo_nv12 = I420Picture (map (take (fb_width demo_nv12)) (take (fb_height demo_nv12) demo_y),
     map (take (fb_width demo_nv12 div 2)) (take (fb_height demo_nv12 div 2) demo_u), map (take (fb_width demo_nv12 div 2)) (take (fb_height demo_nv12 div 2) demo_v))"
  by (rule nv12_padding_is_skipped [where rest = "[]"]) (simp_all add: demo_nv12_def demo_planes SetLayout_def OwnFrame_def fb_Data_def laid_out_def)

text \<open>
  A clone shows the same picture as the frame, at the same time and with the same flags, out of its
  own memory: the driver may have its buffer back.
\<close>

lemma clone_shows_the_picture:
  assumes "CloneFrame f = Some g" "fb_Data f = Some d" "length d = fb_size f"
  shows "ToI420 jetson g = ToI420 jetson f \<and> fb_data g = Some d \<and> fb_flags g = fb_flags f \<and> fb_timestamp g = fb_timestamp f"
proof -
  have g: "fb_width g = fb_width f" "fb_height g = fb_height f" "fb_format g = fb_format f" "fb_stride g = fb_stride f"
    "fb_plane_height g = fb_plane_height f" "fb_data g = Some d" "fb_flags g = fb_flags f" "fb_timestamp g = fb_timestamp f"
    using assms by (auto simp: CloneFrame_def SetLayout_def SetDmaFd_def OwnFrame_def split: if_splits)
  then have "fb_Data g = Some d" by (simp add: fb_Data_def)
  then show ?thesis using g assms(2) by (cases "fb_format f") (simp_all add: ToI420_def IsDmaOnly_def Let_def)
qed

lemma dma_frames_cannot_be_cloned: "IsDmaOnly f \<Longrightarrow> CloneFrame f = None"
  by (simp add: IsDmaOnly_def CloneFrame_def)

subsection \<open>Reading a surface\<close>

text \<open>
  \<open>ReadDmaBuffer\<close>: the rows of the planes one after the other, without their padding. A plane is its
  memory, its pitch, the bytes of a row and its rows. The size of the destination is not looked at.
\<close>

fun ReadDmaBuffer :: "(bytes \<times> nat \<times> nat \<times> nat) list \<Rightarrow> bytes option" where
  "ReadDmaBuffer [] = Some []"
| "ReadDmaBuffer ((src, pitch, row_size, rows) # ps) =
     (case (copy_rows src 0 pitch row_size rows, ReadDmaBuffer ps) of
        (Some rs, Some d) \<Rightarrow> Some (concat rs @ d) | _ \<Rightarrow> None)"

definition planes_bytes :: "(bytes \<times> nat \<times> nat \<times> nat) list \<Rightarrow> nat" where
  "planes_bytes ps = sum_list (map (\<lambda>(_, _, row_size, rows). row_size * rows) ps)"

lemma copy_rows_length:
  "copy_rows src start pitch rb n = Some rs \<Longrightarrow> length rs = n \<and> list_all (\<lambda>r. length r = rb) rs"
  by (induction n arbitrary: start rs) (auto split: if_splits)

lemma ReadDmaBuffer_length: "ReadDmaBuffer ps = Some d \<Longrightarrow> length d = planes_bytes ps"
proof (induction ps arbitrary: d rule: ReadDmaBuffer.induct)
  case (2 src pitch row_size rows ps)
  then show ?case by (auto simp: planes_bytes_def dest!: copy_rows_length length_rows split: option.splits)
qed (simp add: planes_bytes_def)

text \<open>A surface of the picture's size fills exactly the three planes of the I420 buffer that it is read into.\<close>

lemma surface_fills_picture:
  assumes "ReadDmaBuffer [(s0, p0, w, h), (s1, p1, w div 2, h div 2), (s2, p2, w div 2, h div 2)] = Some d" "even w" "even h"
  shows "length d = w * h + 2 * ((w + 1) div 2 * ((h + 1) div 2))"
  using ReadDmaBuffer_length [OF assms(1)] assms(2,3) by (auto simp: planes_bytes_def elim!: evenE)

section \<open>The choice of a decoder\<close>

datatype decoder_choice = HardwareDecoder | Avcodec bool | LibyuvMjpeg | NoDecoder

text \<open>
  \<open>hw\<close>: whether a hardware decoder is built in and its \<open>Create\<close> works; \<open>avcodec\<close>: whether the
  decoder of libavcodec can be created.
\<close>

definition CreateVideoDecoder :: "bool option \<Rightarrow> bool \<Rightarrow> cam_format \<Rightarrow> bool \<Rightarrow> decoder_choice \<times> bool" where
  "CreateVideoDecoder hw avcodec src is_dma_dst =
     (if is_dma_dst \<and> hw = Some True then (HardwareDecoder, True)
      else if src = FmtH264 \<or> src = FmtHevc then (if avcodec then Avcodec is_dma_dst else NoDecoder, False)
      else if src = FmtMjpeg \<and> is_dma_dst then (LibyuvMjpeg, False)
      else (NoDecoder, False))"

definition RtDecoderMade :: "bool option \<Rightarrow> bool \<Rightarrow> bool \<Rightarrow> stream_info \<Rightarrow> bool" where
  "RtDecoderMade hw avcodec accel info =
     (case si_format info of None \<Rightarrow> False | Some f \<Rightarrow> fst (CreateVideoDecoder hw avcodec f accel) \<noteq> NoDecoder)"

text \<open>
  An RTSP camera ends the program at its start only when its codec is unknown, or when it needs
  libavcodec and that has no decoder: without hardware the frames are decoded all the same.
\<close>

theorem rtsp_needs_only_avcodec:
  assumes "RtOpen env s = (Some info, s1, os)" "\<not> rt_exited s"
  shows "map_option (rt_exited \<circ> fst) (RtInitialize (RtDecoderMade hw avcodec accel info) (env # envs) s) =
     Some (si_format info = None \<or>
       ((si_format info = Some FmtH264 \<or> si_format info = Some FmtHevc) \<and> \<not> avcodec \<and> \<not> (accel \<and> hw = Some True)))"
proof -
  have e: "\<not> rt_exited s1" using RtOpen_result(4) [OF assms(1)] assms(2) by simp
  have "si_format info = None \<or> si_format info = Some FmtH264 \<or> si_format info = Some FmtHevc \<or> si_format info = Some FmtMjpeg"
    using assms(1) by (auto simp: RtOpen_def OpenFail_def ToFourcc_def Let_def split: option.splits if_splits av_codec.splits)
  then show ?thesis
    using e by (elim disjE) (simp_all add: assms(1) RtDecoderMade_def CreateVideoDecoder_def Let_def)
qed

definition demo_info :: stream_info where
  "demo_info = \<lparr>si_format = Some FmtH264, si_width = 640, si_height = 480, si_fps = 30, si_params = [CHR 0x00, CHR 0x00, CHR 0x01, CHR ''s'']\<rparr>"

theorem rtsp_needs_only_avcodec_witness:
  "map_option (rt_exited \<circ> fst) (RtInitialize (RtDecoderMade (Some False) True True demo_info) [demo_open] demo_rtsp) =
     Some (si_format demo_info = None \<or>
       ((si_format demo_info = Some FmtH264 \<or> si_format demo_info = Some FmtHevc) \<and> \<not> True \<and> \<not> (True \<and> Some False = Some True)))"
  by (rule rtsp_needs_only_avcodec [where s = demo_rtsp and env = demo_open and os = "[]" and ?s1.0 = "demo_rtsp\<lparr>rt_open := True\<rparr>"])
     (simp_all add: demo_info_def demo_open_def demo_rtsp_def RtOpen_def ToFourcc_def IsAnnexB_def StreamFps_def Let_def)

subsection \<open>libavcodec\<close>

text \<open>\<open>GetDrmFormat\<close>: the DRM format when it is offered, else libavcodec's choice.\<close>

fun GetDrmFormat :: "nat \<Rightarrow> (nat list \<Rightarrow> nat) \<Rightarrow> nat list \<Rightarrow> nat" where
  "GetDrmFormat drm_prime default_format formats =
     (if drm_prime \<in> set formats then drm_prime else default_format formats)"

record ff_setup =
  fs_codec :: bool
  fs_context :: bool
  fs_configs :: "bool list" \<comment> \<open>the codec's configurations: whether one is for a DRM device\<close>
  fs_device :: bool
  fs_open :: bool
  fs_alloc :: bool

definition UseDrmHwaccel :: "ff_setup \<Rightarrow> bool" where
  "UseDrmHwaccel e \<longleftrightarrow> list_ex id (fs_configs e) \<and> fs_device e"

text \<open>\<open>Initialize\<close>: nothing, or whether the DRM acceleration is used.\<close>

definition FfInitialize :: "bool \<Rightarrow> ff_setup \<Rightarrow> bool option" where
  "FfInitialize try_hw e =
     (if \<not> fs_codec e \<or> \<not> fs_context e then None
      else let hw = try_hw \<and> UseDrmHwaccel e
           in if \<not> fs_open e \<or> \<not> fs_alloc e then None else Some hw)"

text \<open>A decoded frame: whether it is on the DRM device and can be transferred, and whether it is 8-bit 4:2:0.\<close>

record ff_frame =
  fd_id :: nat
  fd_drm :: bool
  fd_transfer :: bool
  fd_yuv420p :: bool

datatype ff_out = FfDelivered nat | FfFormatReported

definition FfOutput :: "ff_frame \<Rightarrow> bool \<Rightarrow> bool \<times> ff_out list" where
  "FfOutput f reported =
     (if \<not> fd_yuv420p f then (True, if reported then [] else [FfFormatReported]) else (reported, [FfDelivered (fd_id f)]))"

fun FfReceive :: "ff_frame list \<Rightarrow> bool \<Rightarrow> bool \<times> ff_out list" where
  "FfReceive [] reported = (reported, [])"
| "FfReceive (f # fs) reported =
     (case (if fd_drm f \<and> \<not> fd_transfer f then (reported, []) else FfOutput f reported) of
        (r1, os1) \<Rightarrow> (case FfReceive fs r1 of (r2, os2) \<Rightarrow> (r2, os1 @ os2)))"

text \<open>\<open>EmplaceBuffer\<close>: whether the packet is taken, and the frames it gives.\<close>

fun FfEmplace :: "bool \<Rightarrow> bool \<times> ff_frame list \<Rightarrow> bool \<times> ff_out list" where
  "FfEmplace reported (sent, frames) = (if \<not> sent then (reported, []) else FfReceive frames reported)"

lemma FfReceive_once:
  "count_out ((=) FfFormatReported) (snd (FfReceive fs r)) + of_bool (\<not> fst (FfReceive fs r)) \<le> of_bool (\<not> r)"
proof (induction fs arbitrary: r)
  case (Cons f fs)
  show ?case using Cons.IH [of r] Cons.IH [of True] by (auto simp: FfOutput_def split: prod.splits)
qed simp

interpretation ff_report: once_machine FfEmplace "\<lambda>s. True" Not "(=) FfFormatReported"
proof unfold_locales
  show "count_out ((=) FfFormatReported) (snd (FfEmplace s e)) + of_bool (\<not> fst (FfEmplace s e)) \<le> of_bool (\<not> s)" for s e
    using FfReceive_once [of "snd e" s] by (cases e) auto
qed simp

definition ff_good :: "ff_frame \<Rightarrow> bool" where
  "ff_good f \<longleftrightarrow> fd_yuv420p f \<and> (fd_drm f \<longrightarrow> fd_transfer f)"

definition ff_delivered :: "ff_out list \<Rightarrow> nat list" where
  "ff_delivered os = List.map_filter (\<lambda>x. case x of FfDelivered i \<Rightarrow> Some i | _ \<Rightarrow> None) os"

lemma ff_delivered_simps [simp]:
  "ff_delivered [] = []" "ff_delivered (xs @ ys) = ff_delivered xs @ ff_delivered ys"
  "ff_delivered (x # xs) = (case x of FfDelivered i \<Rightarrow> [i] | _ \<Rightarrow> []) @ ff_delivered xs"
  by (auto simp: ff_delivered_def map_filter_def split: ff_out.splits)

lemma FfReceive_delivers: "ff_delivered (snd (FfReceive fs r)) = map fd_id (filter ff_good fs)"
proof (induction fs arbitrary: r)
  case (Cons f fs)
  show ?case using Cons.IH [of r] Cons.IH [of True] by (auto simp: FfOutput_def ff_good_def split: prod.splits)
qed simp

text \<open>
  Every frame in 8-bit 4:2:0 that libavcodec decodes is handed on once and in its order, and frames of
  another format are reported once in the life of the decoder.
\<close>

theorem avcodec_hands_on_every_frame:
  "ff_delivered (snd (run FfEmplace False es)) = map fd_id (filter ff_good (concat (map snd (filter fst es)))) \<and>
   count_out ((=) FfFormatReported) (snd (run FfEmplace False es)) \<le> 1"
proof
  have "ff_delivered (snd (run FfEmplace r es)) = map fd_id (filter ff_good (concat (map snd (filter fst es))))" for r
    by (induction es arbitrary: r) (auto simp: FfReceive_delivers)
  then show "ff_delivered (snd (run FfEmplace False es)) = map fd_id (filter ff_good (concat (map snd (filter fst es))))" .
  show "count_out ((=) FfFormatReported) (snd (run FfEmplace False es)) \<le> 1"
    by (rule ff_report.at_most_once) simp
qed

subsection \<open>MJPEG\<close>

text \<open>
  \<open>LibyuvMjpegDecoder\<close> gives libyuv three planes of one buffer, \<open>y\<close>, \<open>u\<close> and \<open>v\<close> with their strides;
  libyuv writes \<open>(h + 1) / 2\<close> rows of \<open>(w + 1) / 2\<close> bytes of chroma. For even sizes the planes lie
  behind each other and end with the buffer.
\<close>

definition mjpeg_size :: "nat \<Rightarrow> nat \<Rightarrow> nat" where
  "mjpeg_size w h = w * h * 3 div 2"

definition mjpeg_planes :: "nat \<Rightarrow> nat \<Rightarrow> (nat \<times> nat) list" where
  "mjpeg_planes w h = [(0, w), (w * h, w div 2), (w * h + w * h div 4, w div 2)]"

definition plane_end :: "nat \<Rightarrow> nat \<Rightarrow> nat \<Rightarrow> nat \<Rightarrow> nat" where
  "plane_end start stride row_bytes rows = start + (rows - 1) * stride + row_bytes"

definition plane_ends :: "nat \<Rightarrow> nat \<Rightarrow> nat list" where
  "plane_ends w h = [plane_end 0 w w h, plane_end (w * h) (w div 2) ((w + 1) div 2) ((h + 1) div 2),
     plane_end (w * h + w * h div 4) (w div 2) ((w + 1) div 2) ((h + 1) div 2)]"

lemma mjpeg_fits:
  assumes "even w" "even h" "0 < h"
  shows "map fst (tl (mjpeg_planes w h)) @ [mjpeg_size w h] = plane_ends w h"
proof -
  obtain a b where "w = 2 * a" "h = 2 * Suc b"
    using assms by (metis evenE gr0_implies_Suc mult_0_right neq0_conv)
  then show ?thesis by (simp add: mjpeg_planes_def mjpeg_size_def plane_ends_def plane_end_def algebra_simps)
qed

text \<open>With an odd height the last row of the last plane is behind the buffer.\<close>

lemma odd_height_overflows: "mjpeg_size 640 481 < last (plane_ends 640 481)"
  by (simp add: mjpeg_size_def plane_ends_def plane_end_def)

end
