(* ===== verification/V4l2Camera.thy ===== *)
theory V4l2Camera
  imports Frames V4l2Device
begin

text \<open>
  The start and the end of a V4L2 camera (src/src/capturer/v4l2_capturer.cpp): the device, its controls
  and format, the buffers, and the picture that a snapshot reads. The driver's answers are arguments.
\<close>

section \<open>Starting a camera\<close>

text \<open>The controls of a camera, most of which encode H264 in the camera itself.\<close>

datatype cam_control =
    BitrateModeVbr | H264ProfileHigh | RepeatSeqHeader | H264Level40 | H264IPeriod int | ForceKeyFrame
  | VideoBitrate int | RotateBy int

datatype cam_out =
    CoExit int
  | CoThrow string
  | CoOpen string
  | CoControl cam_control
  | CoFps int
  | CoBuffer v4_out
  | CoStreamOn
  | CoStreamOff
  | CoClose

text \<open>
  What the driver answers: whether the device opens, \<open>QUERYCAP\<close> and \<open>S_FMT\<close>, the buffers, and whether
  each can be queued. A control or a frame rate that it refuses is only logged.
\<close>

record cam_driver =
  cd_opens :: bool
  cd_querycap :: bool
  cd_format :: "fmt_answer option"
  cd_reqbufs :: bool
  cd_buffers :: "nat \<Rightarrow> buf_env"
  cd_queues :: "nat \<Rightarrow> bool"

record cam_config =
  cc_id :: nat
  cc_width :: nat
  cc_height :: nat
  cc_fps :: int
  cc_rotation :: int
  cc_format :: "32 word"
  cc_hw_accel :: bool

definition kCamBuffers :: nat where "kCamBuffers = 4"

record v4l2_camera =
  vk_group :: v4_group
  vk_format :: "32 word"
  vk_decoder :: decoder_choice
  vk_hardware :: bool

definition format_kind :: "32 word \<Rightarrow> cam_format" where
  "format_kind f = (if f = V4L2_PIX_FMT_MJPEG then FmtMjpeg else if f = V4L2_PIX_FMT_H264 then FmtH264 else FmtRaw)"

definition device_path :: "nat \<Rightarrow> string" where
  "device_path n = ''/dev/video'' @ to_digits n"

definition h264_setup :: "cam_out list" where
  "h264_setup = map CoControl [BitrateModeVbr, H264ProfileHigh, RepeatSeqHeader, H264Level40, H264IPeriod 60, ForceKeyFrame]"

text \<open>\<open>hw\<close> and \<open>avcodec\<close>: the decoders that can be made, as for \<open>CreateVideoDecoder\<close>.\<close>

definition CamDecoder :: "bool option \<Rightarrow> bool \<Rightarrow> cam_config \<Rightarrow> decoder_choice \<times> bool" where
  "CamDecoder hw avcodec c =
     (if IsCompressedFormat (format_kind (cc_format c)) then CreateVideoDecoder hw avcodec (format_kind (cc_format c)) (cc_hw_accel c)
      else (NoDecoder, False))"

definition CamInitialize :: "cam_driver \<Rightarrow> bool option \<Rightarrow> bool \<Rightarrow> cam_config \<Rightarrow> v4l2_camera option \<times> cam_out list" where
  "CamInitialize d hw avcodec c =
     (let f = cc_format c; dec = CamDecoder hw avcodec c; open_out = [CoOpen (device_path (cc_id c))]
      in if f = V4L2_PIX_FMT_H264 \<and> fst dec = NoDecoder then (None, [CoExit 1])
         else if \<not> cd_opens d then (None, [CoExit 1])
         else case InitBuffer (cd_querycap d) BtCapture MemMmap False no_group of
           (False, _) \<Rightarrow> (None, open_out @ [CoExit 1])
         | (True, g) \<Rightarrow>
             (let os = open_out @ (if f = V4L2_PIX_FMT_H264 then h264_setup else []) @ [CoFps (cc_fps c)] @
                       (if cc_rotation c > 0 then [CoControl (RotateBy (cc_rotation c))] else [])
              in case SetFormat (cd_format d) (cc_width c) (cc_height c) f False g of
                   None \<Rightarrow> (None, os @ [CoThrow ''the frame size doesn't match''])
                 | Some (_, g', f') \<Rightarrow>
                     (Some \<lparr>vk_group = g', vk_format = f', vk_decoder = fst dec, vk_hardware = snd dec\<rparr>,
                      os @ (if f' = V4L2_PIX_FMT_H264 then [CoControl (VideoBitrate 10485760)] else []))))"

definition CamStart :: "cam_driver \<Rightarrow> v4l2_camera \<Rightarrow> v4l2_camera option \<times> cam_out list" where
  "CamStart d k =
     (case AllocateBuffer (cd_reqbufs d) (cd_buffers d) kCamBuffers (vk_group k) of
        (False, g, os) \<Rightarrow> (None, map CoBuffer os @ [CoExit 0])
      | (True, g, os) \<Rightarrow>
          (case QueueBuffers (cd_queues d) g of
             (False, qs) \<Rightarrow> (None, map CoBuffer (os @ qs) @ [CoExit 0])
           | (True, qs) \<Rightarrow> (Some (k\<lparr>vk_group := g\<rparr>), map CoBuffer (os @ qs) @ [CoStreamOn])))"

text \<open>\<open>Create\<close>.\<close>

definition CamCreate :: "cam_driver \<Rightarrow> bool option \<Rightarrow> bool \<Rightarrow> cam_config \<Rightarrow> v4l2_camera option \<times> cam_out list" where
  "CamCreate d hw avcodec c =
     (case CamInitialize d hw avcodec c of
        (None, os) \<Rightarrow> (None, os)
      | (Some k, os) \<Rightarrow> (case CamStart d k of (r, os') \<Rightarrow> (r, os @ os')))"

definition CamDestroy :: "bool \<Rightarrow> v4l2_camera \<Rightarrow> cam_out list" where
  "CamDestroy reqbufs k = CoStreamOff # map CoBuffer (snd (snd (DeallocateBuffer reqbufs (vk_group k)))) @ [CoClose]"

subsection \<open>What a camera takes and gives back\<close>

definition of_buffers :: "cam_out list \<Rightarrow> v4_out list" where
  "of_buffers os = List.map_filter (\<lambda>x. case x of CoBuffer b \<Rightarrow> Some b | _ \<Rightarrow> None) os"

lemma of_buffers_simps [simp]:
  "of_buffers [] = []" "of_buffers (xs @ ys) = of_buffers xs @ of_buffers ys" "of_buffers (map CoBuffer bs) = bs"
  "of_buffers (x # xs) = (case x of CoBuffer b \<Rightarrow> [b] | _ \<Rightarrow> []) @ of_buffers xs"
  by (auto simp: of_buffers_def map_filter_def comp_def split: cam_out.splits)

lemma h264_setup_buffers [simp]: "of_buffers h264_setup = []"
  by (simp add: h264_setup_def)

definition opens_closes :: "cam_out list \<Rightarrow> nat \<times> nat" where
  "opens_closes os = (length (filter (\<lambda>x. case x of CoOpen _ \<Rightarrow> True | _ \<Rightarrow> False) os), length (filter (\<lambda>x. x = CoClose) os))"

lemma initialized:
  assumes "CamInitialize d hw avcodec c = (Some k, os)"
  shows "vg_bufs (vk_group k) = [] \<and> vg_memory (vk_group k) = MemMmap \<and> of_buffers os = [] \<and> opens_closes os = (1, 0) \<and>
    (\<exists>ok. SetFormat (cd_format d) (cc_width c) (cc_height c) (cc_format c) False
        (no_group\<lparr>vg_type := BtCapture, vg_memory := MemMmap, vg_dma := False\<rparr>) = Some (ok, vk_group k, vk_format k)) \<and>
    (vk_decoder k, vk_hardware k) = CamDecoder hw avcodec c"
proof -
  let ?g = "no_group\<lparr>vg_type := BtCapture, vg_memory := MemMmap, vg_dma := False\<rparr>"
  let ?r = "SetFormat (cd_format d) (cc_width c) (cc_height c) (cc_format c) False ?g"
  have q: "cd_querycap d" using assms by (simp add: CamInitialize_def InitBuffer_def Let_def split: if_splits)
  have "?r \<noteq> None"
  proof
    assume "?r = None"
    then show False using assms q by (simp add: CamInitialize_def InitBuffer_def Let_def split: if_splits)
  qed
  note g = q this
  then obtain ok g' f' where r: "?r = Some (ok, g', f')" by (cases "?r") auto
  have "vg_bufs ?g = []" "vg_memory ?g = MemMmap" by (simp_all add: no_group_def)
  then have keep: "vg_bufs g' = []" "vg_memory g' = MemMmap"
    using r by (auto simp: SetFormat_def Let_def split: option.splits if_splits)
  have k: "k = \<lparr>vk_group = g', vk_format = f', vk_decoder = fst (CamDecoder hw avcodec c), vk_hardware = snd (CamDecoder hw avcodec c)\<rparr>"
    and os: "os = [CoOpen (device_path (cc_id c))] @ (if cc_format c = V4L2_PIX_FMT_H264 then h264_setup else []) @ [CoFps (cc_fps c)] @
      (if cc_rotation c > 0 then [CoControl (RotateBy (cc_rotation c))] else []) @
      (if f' = V4L2_PIX_FMT_H264 then [CoControl (VideoBitrate 10485760)] else [])"
    using assms g r by (simp_all add: CamInitialize_def InitBuffer_def Let_def split: if_splits)
  have "opens_closes os = (1, 0)" "of_buffers os = []"
    unfolding os by (simp_all add: opens_closes_def h264_setup_def)
  then show ?thesis using keep r k by simp
qed

lemma started:
  assumes "CamStart d k = (Some k', os)" "vg_bufs (vk_group k) = []" "vg_memory (vk_group k) = MemMmap" "good_fds (cd_buffers d)"
  shows "vg_memory (vk_group k') = MemMmap \<and> held_fds (vg_bufs (vk_group k')) = exported (of_buffers os) \<and>
    held_maps (vg_bufs (vk_group k')) = mapped (of_buffers os) \<and> closed (of_buffers os) = [] \<and> unmapped (of_buffers os) = [] \<and>
    opens_closes os = (0, 0)"
proof -
  obtain g bs qs where a: "AllocateBuffer (cd_reqbufs d) (cd_buffers d) kCamBuffers (vk_group k) = (True, g, bs)"
      and q: "QueueBuffers (cd_queues d) g = (True, qs)" and r: "k' = k\<lparr>vk_group := g\<rparr>" "os = map CoBuffer (bs @ qs) @ [CoStreamOn]"
    using assms(1) by (auto simp: CamStart_def split: prod.splits bool.splits)
  have "qs = map VoQueueBuffer (takeWhile (cd_queues d) (map vb_index (vg_bufs g)))"
    using q by (auto simp: QueueBuffers_def Let_def)
  then have n: "exported qs = []" "closed qs = []" "mapped qs = []" "unmapped qs = []"
    by (simp_all add: ledger_defs map_filter_def comp_def)
  have "filter (\<lambda>x. case x of CoOpen _ \<Rightarrow> True | _ \<Rightarrow> False) (map CoBuffer xs) = []" "filter (\<lambda>x. x = CoClose) (map CoBuffer xs) = []" for xs
    by (induction xs) auto
  then show ?thesis
    using Allocate_ledger [OF assms(2,4) a] assms(3) r n by (simp add: opens_closes_def)
qed

text \<open>
  A camera that has started is closed completely: its destructor unmaps exactly the buffers that were
  mapped, closes the descriptors that were exported, and closes the device that was opened, once.
\<close>

theorem cameras_are_closed:
  assumes "CamCreate d hw avcodec c = (Some k, os)" "good_fds (cd_buffers d)"
  shows "unmapped (of_buffers (os @ CamDestroy rb k)) = mapped (of_buffers (os @ CamDestroy rb k)) \<and>
    closed (of_buffers (os @ CamDestroy rb k)) = exported (of_buffers (os @ CamDestroy rb k)) \<and>
    opens_closes (os @ CamDestroy rb k) = (1, 1)"
proof -
  obtain k1 os1 os2 where i: "CamInitialize d hw avcodec c = (Some k1, os1)" and s: "CamStart d k1 = (Some k, os2)" and o: "os = os1 @ os2"
    using assms(1) by (auto simp: CamCreate_def split: prod.splits option.splits)
  obtain okd gd osd where D: "DeallocateBuffer rb (vk_group k) = (okd, gd, osd)" by (metis prod_cases3)
  note I = initialized [OF i] and S = started [OF s _ _ assms(2)] and L = Deallocate_ledger [OF D]
  have e: "filter (\<lambda>x. case x of CoOpen _ \<Rightarrow> True | _ \<Rightarrow> False) (map CoBuffer xs) = []" "filter (\<lambda>x. x = CoClose) (map CoBuffer xs) = []" for xs
    by (induction xs) auto
  have b: "of_buffers (os @ CamDestroy rb k) = of_buffers os2 @ osd" using I o D by (simp add: CamDestroy_def)
  have "opens_closes (os @ CamDestroy rb k) = (1, 1)"
    using I S o D e by (simp add: CamDestroy_def opens_closes_def)
  then show ?thesis unfolding b using I S L by simp
qed

text \<open>
  The decoder is made for the format that is asked for, before the driver says which it gives: when
  that is not a compressed one, the decoder is fed pictures.
\<close>

theorem decoder_keeps_the_asked_format:
  assumes "CamInitialize d hw avcodec c = (Some k, os)" "cd_format d = Some a" "cc_format c = V4L2_PIX_FMT_MJPEG" "cc_hw_accel c"
  shows "vk_format k = fa_format a \<and> vk_decoder k \<noteq> NoDecoder"
  using initialized [OF assms(1)] assms(2-)
  by (auto simp: CamDecoder_def CreateVideoDecoder_def SetFormat_def IsCompressedFormat_def format_kind_def Let_def split: if_splits)

section \<open>The picture of a snapshot\<close>

text \<open>Before there is a frame a snapshot is black, of the size that was asked for.\<close>

datatype 'f snapshot = BlackPicture nat nat | PictureOf 'f

definition CamI420Frame :: "cam_config \<Rightarrow> 'f option \<Rightarrow> 'f snapshot" where
  "CamI420Frame c latest = (case latest of None \<Rightarrow> BlackPicture (cc_width c) (cc_height c) | Some f \<Rightarrow> PictureOf f)"

definition demo_camera :: cam_config where
  "demo_camera = \<lparr>cc_id = 0, cc_width = 640, cc_height = 480, cc_fps = 30, cc_rotation = 0, cc_format = V4L2_PIX_FMT_MJPEG, cc_hw_accel = True\<rparr>"

definition demo_driver :: cam_driver where
  "demo_driver = \<lparr>cd_opens = True, cd_querycap = True,
     cd_format = Some \<lparr>fa_format = V4L2_PIX_FMT_YUV420, fa_planes = 1, fa_width = 640, fa_height = 480, fa_bytesperline = 640, fa_sizeimage = 460800\<rparr>,
     cd_reqbufs = True, cd_buffers = (\<lambda>i. \<lparr>be_query = True, be_export = None, be_map = Some (100 + i)\<rparr>), cd_queues = (\<lambda>i. True)\<rparr>"

lemma MJPEG_is_not: "V4L2_PIX_FMT_MJPEG \<noteq> V4L2_PIX_FMT_H264" "V4L2_PIX_FMT_YUV420 \<noteq> V4L2_PIX_FMT_H264"
  by code_simp+

definition demo_made :: v4l2_camera where
  "demo_made = \<lparr>vk_group = no_group\<lparr>vg_planes := 1, vg_width := 640, vg_height := 480, vg_bytesperline := 640, vg_sizeimage := 460800\<rparr>,
     vk_format = V4L2_PIX_FMT_YUV420, vk_decoder = LibyuvMjpeg, vk_hardware = False\<rparr>"

lemma demo_initialized: "CamInitialize demo_driver None False demo_camera = (Some demo_made, [CoOpen (device_path 0), CoFps 30])"
  by (simp add: demo_made_def CamInitialize_def CamDecoder_def CreateVideoDecoder_def IsCompressedFormat_def format_kind_def InitBuffer_def
      SetFormat_def demo_driver_def demo_camera_def MJPEG_is_not no_group_def Let_def)

theorem decoder_keeps_the_asked_format_witness:
  "vk_format demo_made = V4L2_PIX_FMT_YUV420 \<and> vk_decoder demo_made \<noteq> NoDecoder"
  using decoder_keeps_the_asked_format [OF demo_initialized] by (simp add: demo_driver_def demo_camera_def)

lemma four_buffers: "kCamBuffers = Suc (Suc (Suc (Suc 0)))" by (simp add: kCamBuffers_def)

definition demo_running :: v4l2_camera where
  "demo_running = the (fst (CamStart demo_driver demo_made))"

lemma demo_start: "CamStart demo_driver demo_made = (Some demo_running, snd (CamStart demo_driver demo_made))"
  by (simp add: demo_running_def CamStart_def four_buffers AllocateBuffer_def resize_bufs_def map_buffer_def
      QueueBuffers_def fresh_buf_def demo_driver_def demo_made_def no_group_def Let_def)

lemma demo_created: "CamCreate demo_driver None False demo_camera = (Some demo_running, snd (CamCreate demo_driver None False demo_camera))"
  by (cases "CamStart demo_driver demo_made") (use demo_start in \<open>simp add: CamCreate_def demo_initialized\<close>)

theorem cameras_are_closed_witness:
  "unmapped (of_buffers (snd (CamCreate demo_driver None False demo_camera) @ CamDestroy True demo_running)) =
     mapped (of_buffers (snd (CamCreate demo_driver None False demo_camera) @ CamDestroy True demo_running)) \<and>
   closed (of_buffers (snd (CamCreate demo_driver None False demo_camera) @ CamDestroy True demo_running)) =
     exported (of_buffers (snd (CamCreate demo_driver None False demo_camera) @ CamDestroy True demo_running)) \<and>
   opens_closes (snd (CamCreate demo_driver None False demo_camera) @ CamDestroy True demo_running) = (1, 1)"
  by (rule cameras_are_closed [OF demo_created]) (simp add: good_fds_def demo_driver_def)

end
