(* ===== verification/Pipelines.thy ===== *)
theory Pipelines
  imports Prelude "HOL-Library.Sublist"
begin

text \<open>
  The interface of every stage that frames pass through on their way from a camera: it may drop
  frames, but it neither reorders nor repeats them. \<open>waiting\<close> are the frames inside the stage,
  \<open>offered\<close> those an event brings, \<open>delivered\<close> those among the outputs; \<open>ok\<close> singles out the events
  under which the promise is made.
\<close>

locale lossy_fifo =
  fixes step :: "'s \<Rightarrow> 'e \<Rightarrow> 's \<times> 'o list" and inv :: "'s \<Rightarrow> bool" and ok :: "'e \<Rightarrow> bool"
    and waiting :: "'s \<Rightarrow> 'f list" and offered :: "'e \<Rightarrow> 'f list" and delivered :: "'o list \<Rightarrow> 'f list"
  assumes fifo_inv: "inv s \<Longrightarrow> ok e \<Longrightarrow> inv (fst (step s e))"
    and fifo_step: "inv s \<Longrightarrow> ok e \<Longrightarrow>
      subseq (delivered (snd (step s e)) @ waiting (fst (step s e))) (waiting s @ offered e)"
    and delivered_nil: "delivered [] = []"
    and delivered_append: "delivered (xs @ ys) = delivered xs @ delivered ys"
begin

lemma pipe_run:
  assumes "inv s" "list_all ok es"
  shows "subseq (delivered (snd (run step s es)) @ waiting (fst (run step s es))) (waiting s @ concat (map offered es))"
  using assms
proof (induction es arbitrary: s)
  case (Cons e es)
  have e: "ok e" "list_all ok es" using Cons.prems(2) by simp_all
  let ?s = "fst (step s e)" and ?os = "snd (step s e)"
  have "subseq (delivered ?os @ delivered (snd (run step ?s es)) @ waiting (fst (run step ?s es)))
      (delivered ?os @ waiting ?s @ concat (map offered es))"
    using Cons.IH [OF fifo_inv [OF Cons.prems(1) e(1)] e(2)] by (simp add: subseq_append')
  also have "subseq (delivered ?os @ waiting ?s @ concat (map offered es)) (waiting s @ offered e @ concat (map offered es))"
    using list_emb_append_mono [OF fifo_step [OF Cons.prems(1) e(1)] subseq_order.order_refl, of "concat (map offered es)"] by simp
  finally show ?case by (simp add: delivered_append)
qed (simp add: delivered_nil)

lemma in_order:
  assumes "inv s" "list_all ok es" "waiting s = []"
  shows "subseq (delivered (snd (run step s es))) (concat (map offered es))"
  using subseq_order.order_trans [OF prefix_imp_subseq pipe_run [OF assms(1,2)]] assms(3) by simp

end

lemma sorted_subseq: "subseq xs ys \<Longrightarrow> sorted ys \<Longrightarrow> sorted (xs :: 'a :: linorder list)"
  by (induction rule: list_emb.induct) (auto dest: list_emb_set)

end
