(* ===== verification/Recorders.thy ===== *)
theory Recorders
  imports Pipelines Codec
begin

text \<open>
  The recorders between the sources and the container: src/src/recorder/recorder.h,
  video_recorder.cpp, audio_recorder.cpp, openh264_recorder.cpp, v4l2_h264_recorder.cpp and
  jetson_recorder.cpp. The encoders are outside: whether one can be created, whether it takes a
  frame and when it gives a packet is part of the events. Rescaling a time to the time base of a
  stream (\<open>av_rescale_q\<close>) is a parameter.
\<close>

section \<open>Video\<close>

definition kFrameQueueDepth :: nat where "kFrameQueueDepth = 2"

text \<open>A frame: its number, its \<open>timeval\<close> and whether it is only a DMA buffer, which is not copied.\<close>

record rec_frame =
  rf_id :: nat
  rf_sec :: int
  rf_usec :: int
  rf_dma_only :: bool

definition usec_of :: "rec_frame \<Rightarrow> int" where
  "usec_of f = rf_sec f * 1000000 + rf_usec f"

text \<open>
  \<open>vr_stream\<close> is the file that the stream \<open>st\<close> belongs to, \<open>vr_file\<close> the file that is open;
  \<open>vr_pending\<close> the frames inside the encoder, when there is one.
\<close>

record vrec =
  vr_queue :: "rec_frame list"
  vr_ctx :: bool
  vr_base :: "(int \<times> int) option"
  vr_stream :: "nat option"
  vr_file :: "nat option"
  vr_pending :: "rec_frame list option"

definition new_vrec :: vrec where
  "new_vrec = \<lparr>vr_queue = [], vr_ctx = False, vr_base = None, vr_stream = None, vr_file = None, vr_pending = None\<rparr>"

datatype vr_out =
    VrDropped rec_frame
  | VrPacket nat int rec_frame bool \<comment> \<open>file, presentation time, frame, key frame\<close>
  | VrFreedStream rec_frame \<comment> \<open>the stream of a closed file is used\<close>
  | VrNullEncoder

definition VrAddStream :: "nat \<Rightarrow> bool \<Rightarrow> vrec \<Rightarrow> vrec" where
  "VrAddStream n works s = s\<lparr>vr_ctx := True, vr_file := Some n, vr_stream := (if works then Some n else None)\<rparr>"

definition VrOnStart :: "vrec \<Rightarrow> vrec" where
  "VrOnStart s = s\<lparr>vr_base := None, vr_pending := None, vr_queue := []\<rparr>"

definition VrStop :: "vrec \<Rightarrow> vrec" where
  "VrStop s = s\<lparr>vr_ctx := False\<rparr>"

definition VrOnBuffer :: "rec_frame \<Rightarrow> vrec \<Rightarrow> vrec \<times> vr_out list" where
  "VrOnBuffer f s =
     (if tsq_full kFrameQueueDepth (vr_queue s) then (s, [VrDropped f])
      else (s\<lparr>vr_queue := snd (tsq_push kFrameQueueDepth f (vr_queue s))\<rparr>, []))"

definition elapsed_usec :: "rec_frame \<Rightarrow> int \<times> int \<Rightarrow> int" where
  "elapsed_usec f base = (rf_sec f - fst base) * 1000000 + (rf_usec f - snd base)"

text \<open>\<open>base_time_\<close>: the time of the first packet.\<close>

definition base_of :: "vrec \<Rightarrow> rec_frame \<Rightarrow> int \<times> int" where
  "base_of s f = (case vr_base s of None \<Rightarrow> (rf_sec f, rf_usec f) | Some b \<Rightarrow> b)"

lemma base_of_updates [simp]:
  "base_of (s\<lparr>vr_pending := p\<rparr>) f = base_of s f" "base_of (s\<lparr>vr_queue := q\<rparr>) f = base_of s f"
  by (simp_all add: base_of_def)

definition OnEncoded :: "(int \<Rightarrow> int) \<Rightarrow> bool \<Rightarrow> bool \<Rightarrow> rec_frame \<Rightarrow> vrec \<Rightarrow> vrec \<times> vr_out list" where
  "OnEncoded rescale alloc_ok key f s =
     (case vr_stream s of
        None \<Rightarrow> (s, [])
      | Some n \<Rightarrow>
          if \<not> alloc_ok then (s, [])
          else let base = base_of s f; s1 = s\<lparr>vr_base := Some base\<rparr>
               in if vr_file s \<noteq> Some n then (s1, [VrFreedStream f])
                  else (s1, [VrPacket n (rescale (elapsed_usec f base)) f key]))"

text \<open>
  \<open>Encode\<close> of the three recorders: the encoder is created with the first frame, and used even when
  that has failed. OpenH264 (\<open>sync\<close>) answers at once or skips the frame; the devices answer later,
  or drop a frame they cannot take.
\<close>

definition VrEncode :: "(int \<Rightarrow> int) \<Rightarrow> bool \<Rightarrow> bool \<Rightarrow> bool \<Rightarrow> (bool \<times> bool) option \<Rightarrow> rec_frame \<Rightarrow> vrec \<Rightarrow> vrec \<times> vr_out list" where
  "VrEncode rescale sync create_ok accepts result f s =
     (if vr_pending s = None \<and> \<not> create_ok then (s, [VrNullEncoder])
      else let q = (case vr_pending s of None \<Rightarrow> [] | Some q \<Rightarrow> q)
           in if sync
              then (case result of
                      None \<Rightarrow> (s\<lparr>vr_pending := Some q\<rparr>, [VrDropped f])
                    | Some (alloc_ok, key) \<Rightarrow> OnEncoded rescale alloc_ok key f (s\<lparr>vr_pending := Some q\<rparr>))
              else if accepts then (s\<lparr>vr_pending := Some (q @ [f])\<rparr>, []) else (s\<lparr>vr_pending := Some q\<rparr>, [VrDropped f]))"

definition VrConsume :: "(int \<Rightarrow> int) \<Rightarrow> bool \<Rightarrow> bool \<Rightarrow> bool \<Rightarrow> (bool \<times> bool) option \<Rightarrow> vrec \<Rightarrow> vrec \<times> vr_out list" where
  "VrConsume rescale sync create_ok accepts result s =
     (case tsq_pop (vr_queue s) of
        (None, _) \<Rightarrow> (s, [])
      | (Some f, q) \<Rightarrow>
          let s1 = s\<lparr>vr_queue := q\<rparr>
          in if \<not> vr_ctx s then (s1, [VrDropped f]) else VrEncode rescale sync create_ok accepts result f s1)"

text \<open>A device gives its next packet.\<close>

definition VrResult :: "(int \<Rightarrow> int) \<Rightarrow> bool \<Rightarrow> bool \<Rightarrow> vrec \<Rightarrow> vrec \<times> vr_out list" where
  "VrResult rescale alloc_ok key s =
     (case vr_pending s of
        Some (f # q) \<Rightarrow> OnEncoded rescale alloc_ok key f (s\<lparr>vr_pending := Some q\<rparr>)
      | _ \<Rightarrow> (s, []))"

datatype vr_event =
    VrAdd nat bool | VrStarted | VrStopped | VrClosed
  | VrFrame rec_frame | VrWork bool bool "(bool \<times> bool) option" | VrDevice bool bool

fun vr_step :: "(int \<Rightarrow> int) \<Rightarrow> bool \<Rightarrow> vrec \<Rightarrow> vr_event \<Rightarrow> vrec \<times> vr_out list" where
  "vr_step rescale sync s (VrAdd n works) = (VrAddStream n works s, [])"
| "vr_step rescale sync s VrStarted = (VrOnStart s, [])"
| "vr_step rescale sync s VrStopped = (VrStop s, [])"
| "vr_step rescale sync s VrClosed = (s\<lparr>vr_file := None\<rparr>, [])"
| "vr_step rescale sync s (VrFrame f) = VrOnBuffer f s"
| "vr_step rescale sync s (VrWork create_ok accepts result) = VrConsume rescale sync create_ok accepts result s"
| "vr_step rescale sync s (VrDevice alloc_ok key) = VrResult rescale alloc_ok key s"

lemmas vr_defs = VrOnBuffer_def VrConsume_def VrEncode_def VrResult_def OnEncoded_def

subsection \<open>The times in a file\<close>

text \<open>What happens to a recorder while one file is open.\<close>

definition in_session :: "vr_event \<Rightarrow> bool" where
  "in_session e = (case e of VrAdd _ _ \<Rightarrow> False | VrStarted \<Rightarrow> False | VrClosed \<Rightarrow> False | _ \<Rightarrow> True)"

definition frames_of :: "vr_event list \<Rightarrow> rec_frame list" where
  "frames_of es = List.map_filter (\<lambda>e. case e of VrFrame f \<Rightarrow> Some f | _ \<Rightarrow> None) es"

definition packet_frames :: "vr_out list \<Rightarrow> rec_frame list" where
  "packet_frames os = List.map_filter (\<lambda>x. case x of VrPacket _ _ f _ \<Rightarrow> Some f | _ \<Rightarrow> None) os"

definition packet_times :: "vr_out list \<Rightarrow> int list" where
  "packet_times os = List.map_filter (\<lambda>x. case x of VrPacket _ t _ _ \<Rightarrow> Some t | _ \<Rightarrow> None) os"

lemma packet_simps [simp]:
  "packet_frames [] = []" "packet_times [] = []" "frames_of [] = []"
  "packet_frames (x # xs) = (case x of VrPacket _ _ f _ \<Rightarrow> [f] | _ \<Rightarrow> []) @ packet_frames xs"
  "packet_times (x # xs) = (case x of VrPacket _ t _ _ \<Rightarrow> [t] | _ \<Rightarrow> []) @ packet_times xs"
  "packet_frames (xs @ ys) = packet_frames xs @ packet_frames ys"
  "packet_times (xs @ ys) = packet_times xs @ packet_times ys"
  "frames_of (e # es) = (case e of VrFrame f \<Rightarrow> [f] | _ \<Rightarrow> []) @ frames_of es"
  by (auto simp: packet_frames_def packet_times_def frames_of_def map_filter_def split: vr_out.splits vr_event.splits)

definition waiting_frames :: "vrec \<Rightarrow> rec_frame list" where
  "waiting_frames s = (case vr_pending s of None \<Rightarrow> [] | Some q \<Rightarrow> q) @ vr_queue s"

text \<open>With OpenH264 nothing stays inside the encoder.\<close>

definition vr_ok :: "bool \<Rightarrow> vrec \<Rightarrow> bool" where
  "vr_ok sync s \<longleftrightarrow> vr_file s = vr_stream s \<and> (sync \<longrightarrow> vr_pending s \<in> {None, Some []})"

lemma encoded_step:
  assumes "vr_file s = vr_stream s" "OnEncoded rescale a k f s = (s', os)"
  shows "vr_file s' = vr_file s \<and> vr_stream s' = vr_stream s \<and> vr_pending s' = vr_pending s \<and> vr_queue s' = vr_queue s \<and>
    ((os = [] \<and> vr_base s' = vr_base s) \<or>
     (\<exists>n. os = [VrPacket n (rescale (elapsed_usec f (base_of s f))) f k] \<and> vr_base s' = Some (base_of s f)))"
  using assms by (auto simp: OnEncoded_def Let_def split: option.splits if_splits)

text \<open>
  One step in a session: nothing comes out, or the packet of the first waiting frame; waiting frames
  are only taken away from the front or dropped, and join at the end.
\<close>

lemma session_step:
  assumes "vr_ok sync s" "in_session e" "vr_step rescale sync s e = (s', os)"
  shows "vr_ok sync s' \<and> subseq (packet_frames os @ waiting_frames s') (waiting_frames s @ frames_of [e]) \<and>
    ((packet_frames os = [] \<and> packet_times os = [] \<and> vr_base s' = vr_base s) \<or>
     (\<exists>f. packet_frames os = [f] \<and> packet_times os = [rescale (elapsed_usec f (base_of s f))] \<and> vr_base s' = Some (base_of s f)))"
proof (cases e)
  case (VrFrame f)
  consider "s' = s" "os = [VrDropped f]" | "s' = s\<lparr>vr_queue := vr_queue s @ [f]\<rparr>" "os = []"
    using assms(3) VrFrame by (auto simp: VrOnBuffer_def tsq_push_def tsq_full_def split: if_splits)
  then show ?thesis
    using assms(1) by cases (auto simp: VrFrame vr_ok_def waiting_frames_def subseq_append')
next
  case (VrDevice a k)
  show ?thesis
  proof (cases "\<exists>f q. vr_pending s = Some (f # q)")
    case True
    then obtain f q where q: "vr_pending s = Some (f # q)" by blast
    have o: "OnEncoded rescale a k f (s\<lparr>vr_pending := Some q\<rparr>) = (s', os)"
      using assms(3) VrDevice q by (simp add: VrResult_def)
    have "\<not> sync" using assms(1) q by (auto simp: vr_ok_def)
    then show ?thesis
      using encoded_step [OF _ o] assms(1) q VrDevice by (auto simp: vr_ok_def waiting_frames_def)
  next
    case False
    then have "s' = s \<and> os = []" using assms(3) VrDevice by (auto simp: VrResult_def split: option.splits list.splits)
    then show ?thesis using assms(1) VrDevice by simp
  qed
next
  case (VrWork c t r)
  show ?thesis
  proof (cases "vr_queue s")
    case Nil
    then have "s' = s \<and> os = []" using assms(3) VrWork by (simp add: VrConsume_def tsq_pop_def)
    then show ?thesis using assms(1) VrWork by simp
  next
    case (Cons f q)
    let ?s = "s\<lparr>vr_queue := q\<rparr>" and ?q = "case vr_pending s of None \<Rightarrow> [] | Some q \<Rightarrow> q"
    have w: "waiting_frames s = ?q @ f # q" by (simp add: waiting_frames_def Cons)
    consider (drop) "os = [VrDropped f] \<or> os = [VrNullEncoder]" "s' = ?s \<or> s' = ?s\<lparr>vr_pending := Some ?q\<rparr>"
      | (enc) a k where "sync" "OnEncoded rescale a k f (?s\<lparr>vr_pending := Some ?q\<rparr>) = (s', os)"
      | (put) "\<not> sync" "os = []" "s' = ?s\<lparr>vr_pending := Some (?q @ [f])\<rparr>"
      using assms(3) VrWork Cons by (auto simp: VrConsume_def VrEncode_def tsq_pop_def Let_def split: if_splits option.splits)
    then show ?thesis
    proof cases
      case drop
      then show ?thesis
        using assms(1) VrWork w by (auto simp: vr_ok_def waiting_frames_def subseq_append' split: option.splits)
    next
      case enc
      have q: "?q = []" using assms(1) enc(1) by (auto simp: vr_ok_def)
      then show ?thesis
        using encoded_step [OF _ enc(2)] assms(1) VrWork w enc(1) by (auto simp: vr_ok_def waiting_frames_def)
    next
      case put
      then show ?thesis using assms(1) VrWork w by (auto simp: vr_ok_def waiting_frames_def)
    qed
  qed
qed (use assms in \<open>auto simp: in_session_def vr_ok_def VrStop_def waiting_frames_def\<close>)

lemma session_machine:
  "vr_ok sync s \<Longrightarrow> in_session e \<Longrightarrow> vr_ok sync (fst (vr_step rescale sync s e)) \<and>
    subseq (packet_frames (snd (vr_step rescale sync s e)) @ waiting_frames (fst (vr_step rescale sync s e))) (waiting_frames s @ frames_of [e])"
  using session_step [of sync s e rescale "fst (vr_step rescale sync s e)" "snd (vr_step rescale sync s e)"] by simp

interpretation vr: lossy_fifo "vr_step rescale sync" "vr_ok sync" in_session waiting_frames "\<lambda>e. frames_of [e]" packet_frames
  for rescale sync
  by unfold_locales (use session_machine in \<open>auto simp del: vr_step.simps\<close>)

lemma frames_of_concat: "concat (map (\<lambda>e. frames_of [e]) es) = frames_of es"
  by (induction es) simp_all

definition times_from :: "(int \<Rightarrow> int) \<Rightarrow> (int \<times> int) option \<Rightarrow> rec_frame list \<Rightarrow> int list" where
  "times_from rescale base fs =
     map (\<lambda>f. rescale (elapsed_usec f (case base of None \<Rightarrow> (rf_sec (hd fs), rf_usec (hd fs)) | Some b \<Rightarrow> b))) fs"

lemma session_times:
  assumes "vr_ok sync s" "list_all in_session es"
  shows "packet_times (snd (run (vr_step rescale sync) s es)) =
     times_from rescale (vr_base s) (packet_frames (snd (run (vr_step rescale sync) s es)))"
  using assms
proof (induction es arbitrary: s)
  case (Cons e es)
  obtain s1 os1 where s1: "vr_step rescale sync s e = (s1, os1)" by (cases "vr_step rescale sync s e")
  have se: "in_session e" "list_all in_session es" using Cons.prems(2) by simp_all
  note st = session_step [OF Cons.prems(1) se(1) s1]
  let ?r = "snd (run (vr_step rescale sync) s1 es)"
  have ih: "packet_times ?r = times_from rescale (vr_base s1) (packet_frames ?r)"
    using Cons.IH [OF conjunct1 [OF st] se(2)] .
  from st consider "packet_frames os1 = []" "packet_times os1 = []" "vr_base s1 = vr_base s"
    | f where "packet_frames os1 = [f]" "packet_times os1 = [rescale (elapsed_usec f (base_of s f))]" "vr_base s1 = Some (base_of s f)" by blast
  then show ?case
  proof cases
    case 1
    then show ?thesis using ih by (simp add: s1)
  next
    case 2
    then show ?thesis using ih by (cases "vr_base s") (simp_all add: s1 times_from_def base_of_def)
  qed
qed (simp add: times_from_def)

lemma elapsed_usec_difference: "elapsed_usec f (rf_sec g, rf_usec g) = usec_of f - usec_of g"
  by (simp add: elapsed_usec_def usec_of_def algebra_simps)


definition demo_frame :: "nat \<Rightarrow> rec_frame" where
  "demo_frame i = \<lparr>rf_id = i, rf_sec = int i, rf_usec = 900000, rf_dma_only = False\<rparr>"

definition demo_session :: "vr_event list" where
  "demo_session = [VrFrame (demo_frame 1), VrFrame (demo_frame 2), VrFrame (demo_frame 3), VrWork True True None, VrWork True True None,
     VrDevice True True, VrDevice True False]"


lemma demo_session_records:
  "packet_times (snd (run (vr_step id False) (VrOnStart (VrAddStream 7 True new_vrec)) demo_session)) = [0, 1000000]"
  by (simp add: demo_session_def demo_frame_def vr_defs VrAddStream_def VrOnStart_def new_vrec_def tsq_full_def tsq_push_def tsq_pop_def
      kFrameQueueDepth_def elapsed_usec_def base_of_def Let_def)

subsection \<open>Packets after the file\<close>

text \<open>
  \<open>Stop\<close> ends the recorder's own thread, but the device keeps its encoder, and its thread, until the
  next \<open>OnStart\<close>. What it still gives goes through \<open>st\<close>, which belongs to the container that has
  been freed in the meantime.
\<close>

theorem late_packet_uses_freed_stream:
  assumes "vr_pending s = Some (f # q)" "vr_stream s = Some n"
  shows "snd (run (vr_step rescale False) s [VrStopped, VrClosed, VrDevice True key]) = [VrFreedStream f]"
  using assms by (simp add: VrStop_def VrResult_def OnEncoded_def Let_def)

theorem late_packet_uses_freed_stream_witness:
  "snd (run (vr_step id False) (fst (run (vr_step id False) (VrOnStart (VrAddStream 7 True new_vrec)) [VrFrame (demo_frame 1), VrWork True True None]))
     [VrStopped, VrClosed, VrDevice True False]) = [VrFreedStream (demo_frame 1)]"
  by (rule late_packet_uses_freed_stream [where n = 7 and q = "[]"])
     (simp_all add: vr_defs VrAddStream_def VrOnStart_def new_vrec_def tsq_full_def tsq_push_def tsq_pop_def kFrameQueueDepth_def Let_def)

text \<open>A recorder whose encoder cannot be created uses it all the same.\<close>

lemma missing_encoder_is_used:
  "vr_queue s = f # q \<Longrightarrow> vr_ctx s \<Longrightarrow> vr_pending s = None \<Longrightarrow> snd (vr_step rescale sync s (VrWork False a r)) = [VrNullEncoder]"
  by (simp add: VrConsume_def VrEncode_def tsq_pop_def)

section \<open>Audio\<close>

text \<open>
  The samples of two channels. \<open>OnBuffer\<close> takes \<open>length\<close> interleaved samples of \<open>channels\<close> channels
  and keeps the first two; a channel that the source does not have stays silent. \<open>None\<close> is a write
  behind the converted samples, or a division by zero.
\<close>

definition channel_samples :: "'a \<Rightarrow> nat \<Rightarrow> 'a list \<Rightarrow> nat \<Rightarrow> 'a list" where
  "channel_samples silence chans samples c =
     map (\<lambda>k. if c < chans then samples ! (k * chans + c) else silence) [0..<length samples div chans]"

definition deinterleave_samples :: "'a \<Rightarrow> nat \<Rightarrow> 'a list \<Rightarrow> ('a \<times> 'a) list option" where
  "deinterleave_samples silence chans samples =
     (if chans = 0 \<or> length samples mod chans \<noteq> 0 then None
      else Some (zip (channel_samples silence chans samples 0) (channel_samples silence chans samples 1)))"

record 'a arec =
  ar_fifo :: "('a \<times> 'a) list"
  ar_frame_size :: nat
  ar_frame_count :: nat

datatype 'a ar_out = ArFrame nat "('a \<times> 'a) list" | ArOutside

definition ArStart :: "'a arec \<Rightarrow> 'a arec" where
  "ArStart s = s\<lparr>ar_frame_count := 0, ar_fifo := []\<rparr>"

definition ArOnBuffer :: "'a \<Rightarrow> nat \<Rightarrow> 'a list \<Rightarrow> 'a arec \<Rightarrow> 'a arec \<times> 'a ar_out list" where
  "ArOnBuffer silence chans samples s =
     (case deinterleave_samples silence chans samples of
        None \<Rightarrow> (s, [ArOutside])
      | Some ps \<Rightarrow> (s\<lparr>ar_fifo := ar_fifo s @ ps\<rparr>, []))"

text \<open>\<open>Encode\<close>: the frame is sent to the encoder with the position of its first sample.\<close>

definition ArEncode :: "'a arec \<Rightarrow> 'a arec \<times> 'a ar_out list" where
  "ArEncode s =
     (let n = ar_frame_size s
      in (s\<lparr>ar_fifo := drop n (ar_fifo s), ar_frame_count := ar_frame_count s + 1\<rparr>,
          [ArFrame (ar_frame_count s * n) (take n (ar_fifo s))]))"

definition ArConsume :: "'a arec \<Rightarrow> 'a arec \<times> 'a ar_out list" where
  "ArConsume s = (if length (ar_fifo s) < ar_frame_size s then (s, []) else ArEncode s)"

datatype 'a ar_event = ArBuffer nat "'a list" | ArWork

fun ar_step :: "'a \<Rightarrow> 'a arec \<Rightarrow> 'a ar_event \<Rightarrow> 'a arec \<times> 'a ar_out list" where
  "ar_step silence s (ArBuffer chans samples) = ArOnBuffer silence chans samples s"
| "ar_step silence s ArWork = ArConsume s"

definition received :: "'a \<Rightarrow> 'a ar_event list \<Rightarrow> ('a \<times> 'a) list" where
  "received silence es = concat (map (\<lambda>e. case e of ArBuffer c xs \<Rightarrow> (case deinterleave_samples silence c xs of None \<Rightarrow> [] | Some ps \<Rightarrow> ps) | ArWork \<Rightarrow> []) es)"

definition sent_samples :: "'a ar_out list \<Rightarrow> ('a \<times> 'a) list" where
  "sent_samples os = concat (map (\<lambda>x. case x of ArFrame _ xs \<Rightarrow> xs | ArOutside \<Rightarrow> []) os)"

definition sent_frames :: "'a ar_out list \<Rightarrow> (nat \<times> nat) list" where
  "sent_frames os = List.map_filter (\<lambda>x. case x of ArFrame t xs \<Rightarrow> Some (t, length xs) | ArOutside \<Rightarrow> None) os"

lemma sent_simps [simp]:
  "sent_samples [] = []" "sent_samples (xs @ ys) = sent_samples xs @ sent_samples ys"
  "sent_samples (x # xs) = (case x of ArFrame _ ps \<Rightarrow> ps | ArOutside \<Rightarrow> []) @ sent_samples xs"
  "sent_frames [] = []" "sent_frames (xs @ ys) = sent_frames xs @ sent_frames ys"
  "sent_frames (x # xs) = (case x of ArFrame t ps \<Rightarrow> [(t, length ps)] | ArOutside \<Rightarrow> []) @ sent_frames xs"
  "received z [] = []"
  "received z (e # es) = (case e of ArBuffer c xs \<Rightarrow> (case deinterleave_samples z c xs of None \<Rightarrow> [] | Some ps \<Rightarrow> ps) | ArWork \<Rightarrow> []) @ received z es"
  by (auto simp: sent_samples_def sent_frames_def received_def map_filter_def split: ar_out.splits)

lemma audio_samples: "sent_samples (snd (run (ar_step z) s es)) @ ar_fifo (fst (run (ar_step z) s es)) = ar_fifo s @ received z es"
proof (induction es arbitrary: s)
  case (Cons e es)
  have "sent_samples (snd (ar_step z s e)) @ ar_fifo (fst (ar_step z s e)) = ar_fifo s @ received z [e]"
    by (cases e) (auto simp: ArOnBuffer_def ArConsume_def ArEncode_def Let_def split: option.splits)
  then show ?case using Cons.IH [of "fst (ar_step z s e)"] by simp
qed simp

lemma audio_step:
  "ar_frame_size (fst (ar_step z s e)) = ar_frame_size s \<and>
   (sent_frames (snd (ar_step z s e)) = [] \<and> ar_frame_count (fst (ar_step z s e)) = ar_frame_count s \<or>
    sent_frames (snd (ar_step z s e)) = [(ar_frame_count s * ar_frame_size s, ar_frame_size s)] \<and>
      ar_frame_count (fst (ar_step z s e)) = Suc (ar_frame_count s))"
  by (cases e) (auto simp: ArOnBuffer_def ArConsume_def ArEncode_def Let_def split: option.splits)

lemma audio_frames:
  "\<exists>k. sent_frames (snd (run (ar_step z) s es)) = map (\<lambda>i. (i * ar_frame_size s, ar_frame_size s)) [ar_frame_count s..<ar_frame_count s + k]"
proof (induction es arbitrary: s)
  case (Cons e es)
  let ?s = "fst (ar_step z s e)"
  obtain k where k: "sent_frames (snd (run (ar_step z) ?s es)) = map (\<lambda>i. (i * ar_frame_size ?s, ar_frame_size ?s)) [ar_frame_count ?s..<ar_frame_count ?s + k]"
    using Cons.IH by blast
  from audio_step [of z s e] show ?case
  proof (elim conjE disjE)
    assume "ar_frame_size ?s = ar_frame_size s" "sent_frames (snd (ar_step z s e)) = []" "ar_frame_count ?s = ar_frame_count s"
    then show ?thesis using k by auto
  next
    assume "ar_frame_size ?s = ar_frame_size s" "ar_frame_count ?s = Suc (ar_frame_count s)"
      "sent_frames (snd (ar_step z s e)) = [(ar_frame_count s * ar_frame_size s, ar_frame_size s)]"
    then have "sent_frames (snd (run (ar_step z) s (e # es))) =
        map (\<lambda>i. (i * ar_frame_size s, ar_frame_size s)) [ar_frame_count s..<ar_frame_count s + Suc k]"
      using k by (simp add: upt_conv_Cons)
    then show ?thesis by blast
  qed
qed auto

text \<open>
  C36: From the start of a file on, the sound is recorded without a gap and without repetition: the frames
  hold the samples that were received, one after the other, each is as long as the encoder wants it,
  and its time is the number of samples before it.
\<close>

theorem audio_is_gapless:
  "sent_samples (snd (run (ar_step z) (ArStart s) es)) @ ar_fifo (fst (run (ar_step z) (ArStart s) es)) = received z es \<and>
   (\<exists>k. sent_frames (snd (run (ar_step z) (ArStart s) es)) = map (\<lambda>i. (i * ar_frame_size s, ar_frame_size s)) [0..<k])"
  using audio_samples [of z "ArStart s" es] audio_frames [of z "ArStart s" es] by (simp add: ArStart_def)

text \<open>A source with one channel is heard on the left side only.\<close>

lemma mono_is_left_only:
  assumes "deinterleave_samples silence 1 samples = Some ps"
  shows "ps = map (\<lambda>x. (x, silence)) samples"
  using assms by (auto simp: deinterleave_samples_def channel_samples_def zip_map_map intro!: nth_equalityI)

end
