(* ===== verification/Tracks.thy ===== *)
theory Tracks
  imports Complex_Main Pipelines
begin

text \<open>
  The track sources, which hand the camera's frames to WebRTC in the size it asks for:
  src/src/track/scale_track_source.cpp (software) and v4l2dma_track_source.cpp (a hardware scaler).
  WebRTC's \<open>AdaptFrame\<close>, the timestamp aligner and the scaler are outside: what they answer is part of
  the events. Of the latency tracer, the calls are outputs.
\<close>

datatype tk_out =
    TkSourceResolution int int
  | TkSensorToTrackIn int
  | TkAdaptDrop
  | TkI420Scale int \<comment> \<open>stride of the scaled picture\<close>
  | TkSentResolution int int
  | TkMarkCapture int int
  | TkSensorToOnFrame int
  | TkOnFrame int "int \<times> int" \<comment> \<open>the timestamp and the size of a frame that WebRTC gets\<close>

text \<open>
  A source takes the size of the main stream of its capturer, and the frames of the stream it is
  configured for (the constructor of \<open>ScaleTrackSource\<close>).
\<close>

definition TrackSourceInit :: "(int \<Rightarrow> int \<times> int) \<Rightarrow> int \<Rightarrow> (int \<times> int) \<times> int" where
  "TrackSourceInit size_of live_idx = (size_of 0, live_idx)"

text \<open>
  One frame: its size, the time it arrives, its translated timestamp, the sensor's time (0 if unknown), whether
  the tracer is on, and the size \<open>AdaptFrame\<close> asks for, if any.
\<close>

record tk_env =
  tk_size :: "int \<times> int"
  tk_now :: int
  tk_ts :: int
  tk_sensor :: int
  tk_traced :: bool
  tk_adapt :: "(int \<times> int) option"

text \<open>\<open>sensor_us\<close>: looked up only while tracing.\<close>

definition traced_sensor :: "tk_env \<Rightarrow> int" where
  "traced_sensor e = (if tk_traced e then tk_sensor e else 0)"

definition arrival_trace :: "int \<times> int \<Rightarrow> tk_env \<Rightarrow> tk_out list" where
  "arrival_trace sz e =
     (if tk_traced e then [TkSourceResolution (fst sz) (snd sz)] else []) @
     (if traced_sensor e \<noteq> 0 then [TkSensorToTrackIn (tk_now e - traced_sensor e)] else [])"

text \<open>What is recorded with every frame that is handed on.\<close>

definition delivery_trace :: "int \<Rightarrow> int \<Rightarrow> int \<Rightarrow> tk_out list" where
  "delivery_trace now ts sensor = (if sensor \<noteq> 0 then [TkMarkCapture ts sensor, TkSensorToOnFrame (now - sensor)] else [])"

section \<open>Scaling in software\<close>

definition kBufferAlignment :: int where "kBufferAlignment = 64"

text \<open>\<open>ceil\<close> of the exact quotient: numbers of this size are exact in a \<open>double\<close>, and so is a division by 64.\<close>

definition dst_stride :: "int \<Rightarrow> int" where
  "dst_stride w = \<lceil>rat_of_int w / rat_of_int kBufferAlignment\<rceil> * kBufferAlignment"

lemma stride_is_aligned: "w \<le> dst_stride w \<and> dst_stride w < w + kBufferAlignment \<and> kBufferAlignment dvd dst_stride w"
proof -
  let ?q = "\<lceil>rat_of_int w / 64\<rceil>"
  have "rat_of_int w / 64 \<le> rat_of_int ?q" by (rule le_of_int_ceiling)
  then have "rat_of_int w \<le> rat_of_int ?q * 64" by linarith
  then have "rat_of_int w \<le> rat_of_int (?q * 64)" by (simp only: of_int_mult of_int_numeral)
  then have lo: "w \<le> ?q * 64" by (simp only: of_int_le_iff)
  have "rat_of_int ?q < rat_of_int w / 64 + 1" using ceiling_correct [of "rat_of_int w / 64"] by linarith
  then have "rat_of_int ?q * 64 < rat_of_int w + 64" by linarith
  then have "rat_of_int (?q * 64) < rat_of_int (w + 64)" by (simp only: of_int_mult of_int_numeral of_int_add)
  then have "?q * 64 < w + 64" by (simp only: of_int_less_iff)
  then show ?thesis using lo by (simp add: dst_stride_def kBufferAlignment_def)
qed

definition ScaleOnFrameCaptured :: "bool \<Rightarrow> int \<times> int \<Rightarrow> tk_env \<Rightarrow> tk_out list" where
  "ScaleOnFrameCaptured no_adaptive sz e =
     arrival_trace sz e @
     (case (if no_adaptive then Some sz else tk_adapt e) of
        None \<Rightarrow> if tk_traced e then [TkAdaptDrop] else []
      | Some (w, h) \<Rightarrow>
          (if (w, h) \<noteq> sz \<and> tk_traced e then [TkI420Scale (dst_stride w)] else []) @
          (if tk_traced e then [TkSentResolution w h] else []) @
          delivery_trace (tk_now e) (tk_ts e) (traced_sensor e) @
          [TkOnFrame (tk_ts e) (if (w, h) = sz then tk_size e else (w, h))])"

section \<open>The hardware scaler\<close>

text \<open>
  \<open>td_scaler\<close> is the scaler with the frames (timestamp and sensor time) that are inside it; it
  scales to \<open>td_config\<close>.
\<close>

record dma_source =
  td_config :: "int \<times> int"
  td_scaler :: "(int \<times> int) list option"

definition DmaSourceInit :: "int \<times> int \<Rightarrow> dma_source" where
  "DmaSourceInit sz = \<lparr>td_config = sz, td_scaler = None\<rparr>"

text \<open>
  \<open>yuv_dma\<close>: the frame is a DMA buffer in YUV420 or NV12; \<open>made\<close>: a scaler can be created;
  \<open>accepts\<close>: it takes the frame.
\<close>

definition DmaOnFrameCaptured ::
  "bool \<Rightarrow> int \<times> int \<Rightarrow> tk_env \<Rightarrow> bool \<Rightarrow> bool \<Rightarrow> bool \<Rightarrow> dma_source \<Rightarrow> dma_source \<times> tk_out list" where
  "DmaOnFrameCaptured no_adaptive sz e yuv_dma made accepts s =
     (let sensor = traced_sensor e; os = arrival_trace sz e;
          sent = (\<lambda>d. if tk_traced e then [TkSentResolution (fst d) (snd d)] else []);
          deliver = delivery_trace (tk_now e) (tk_ts e) sensor @ [TkOnFrame (tk_ts e) (tk_size e)]
      in if no_adaptive then (s, os @ sent sz @ deliver)
         else case tk_adapt e of
                None \<Rightarrow> (s, os @ (if tk_traced e then [TkAdaptDrop] else []))
              | Some d \<Rightarrow>
                  if d = sz \<and> yuv_dma then (s\<lparr>td_scaler := None\<rparr>, os @ sent d @ deliver)
                  else let s1 = (if td_scaler s = None \<or> d \<noteq> td_config s
                                 then s\<lparr>td_config := d, td_scaler := (if made then Some [] else None)\<rparr> else s)
                       in case td_scaler s1 of
                            None \<Rightarrow> (s1, os @ sent d)
                          | Some q \<Rightarrow> (s1\<lparr>td_scaler := Some (if accepts then q @ [(tk_ts e, sensor)] else q)\<rparr>, os @ sent d))"

text \<open>The callback of the scaler, for the first frame inside it.\<close>

definition DmaScaled :: "int \<Rightarrow> dma_source \<Rightarrow> dma_source \<times> tk_out list" where
  "DmaScaled now s =
     (case td_scaler s of
        Some ((ts, sensor) # q) \<Rightarrow>
          (s\<lparr>td_scaler := Some q\<rparr>, delivery_trace now ts sensor @ [TkOnFrame ts (td_config s)])
      | _ \<Rightarrow> (s, []))"

datatype td_event = TdFrame tk_env bool bool bool | TdScaled int

fun td_step :: "bool \<Rightarrow> int \<times> int \<Rightarrow> dma_source \<Rightarrow> td_event \<Rightarrow> dma_source \<times> tk_out list" where
  "td_step no_adaptive sz s (TdFrame e yuv_dma made accepts) = DmaOnFrameCaptured no_adaptive sz e yuv_dma made accepts s"
| "td_step no_adaptive sz s (TdScaled now) = DmaScaled now s"

definition td_inv :: "bool \<Rightarrow> dma_source \<Rightarrow> bool" where
  "td_inv no_adaptive s \<longleftrightarrow> (no_adaptive \<longrightarrow> td_scaler s = None)"

text \<open>Frames as WebRTC sees them: a timestamp and a size.\<close>

definition td_waiting :: "dma_source \<Rightarrow> (int \<times> int \<times> int) list" where
  "td_waiting s = (case td_scaler s of None \<Rightarrow> [] | Some q \<Rightarrow> map (\<lambda>(ts, _). (ts, td_config s)) q)"

definition td_offered :: "bool \<Rightarrow> int \<times> int \<Rightarrow> td_event \<Rightarrow> (int \<times> int \<times> int) list" where
  "td_offered no_adaptive sz x = (case x of
       TdFrame e _ _ _ \<Rightarrow> (case (if no_adaptive then Some sz else tk_adapt e) of None \<Rightarrow> [] | Some d \<Rightarrow> [(tk_ts e, d)])
     | TdScaled _ \<Rightarrow> [])"

text \<open>The frames have the size the source believes they have.\<close>

definition of_main :: "int \<times> int \<Rightarrow> td_event \<Rightarrow> bool" where
  "of_main sz x = (case x of TdFrame e _ _ _ \<Rightarrow> tk_size e = sz | TdScaled _ \<Rightarrow> True)"

definition on_frames :: "tk_out list \<Rightarrow> (int \<times> int \<times> int) list" where
  "on_frames os = List.map_filter (\<lambda>x. case x of TkOnFrame ts d \<Rightarrow> Some (ts, d) | _ \<Rightarrow> None) os"

lemma on_frames_simps [simp]:
  "on_frames [] = []" "on_frames (xs @ ys) = on_frames xs @ on_frames ys"
  "on_frames (x # xs) = (case x of TkOnFrame ts d \<Rightarrow> [(ts, d)] | _ \<Rightarrow> []) @ on_frames xs"
  by (auto simp: on_frames_def map_filter_def split: tk_out.splits)

lemma traces_deliver_nothing [simp]: "on_frames (arrival_trace sz e) = []" "on_frames (delivery_trace now ts sensor) = []"
  by (simp_all add: arrival_trace_def delivery_trace_def)

lemma td_step_cases:
  assumes "td_inv no_adaptive s" "of_main sz x"
  shows "td_inv no_adaptive (fst (td_step no_adaptive sz s x)) \<and>
    subseq (on_frames (snd (td_step no_adaptive sz s x)) @ td_waiting (fst (td_step no_adaptive sz s x)))
      (td_waiting s @ td_offered no_adaptive sz x)"
proof (cases x)
  case (TdScaled now)
  then show ?thesis
    using assms by (auto simp: DmaScaled_def td_inv_def td_waiting_def td_offered_def split: option.splits list.splits)
next
  case (TdFrame e yuv_dma made accepts)
  have sz: "tk_size e = sz" using assms(2) TdFrame by (simp add: of_main_def)
  show ?thesis
  proof (cases no_adaptive)
    case True
    then have "fst (td_step no_adaptive sz s x) = s" "on_frames (snd (td_step no_adaptive sz s x)) = td_offered no_adaptive sz x"
        "td_waiting s = []"
      using assms TdFrame sz by (simp_all add: DmaOnFrameCaptured_def td_inv_def td_waiting_def td_offered_def Let_def)
    then show ?thesis using assms by simp
  next
    case False
    show ?thesis
    proof (cases "tk_adapt e")
      case None
      then have "fst (td_step no_adaptive sz s x) = s" "on_frames (snd (td_step no_adaptive sz s x)) = []"
        using False TdFrame by (simp_all add: DmaOnFrameCaptured_def Let_def)
      then show ?thesis using assms by (simp add: prefix_imp_subseq)
    next
      case (Some d)
      then have o: "td_offered no_adaptive sz x = [(tk_ts e, d)]" using False TdFrame by (simp add: td_offered_def)
      have i: "td_inv no_adaptive t" for t using False by (simp add: td_inv_def)
      consider (pass) "d = sz \<and> yuv_dma" | (new) "\<not> (d = sz \<and> yuv_dma)" "td_scaler s = None \<or> d \<noteq> td_config s"
        | (same) q where "\<not> (d = sz \<and> yuv_dma)" "td_scaler s = Some q" "d = td_config s" by (cases "td_scaler s") auto
      then show ?thesis
      proof cases
        case pass
        then show ?thesis using Some False TdFrame i o sz by (simp add: DmaOnFrameCaptured_def td_waiting_def Let_def)
      next
        case new
        then show ?thesis using Some False TdFrame i o
          by (auto simp: DmaOnFrameCaptured_def td_waiting_def Let_def intro: list_emb_append2)
      next
        case same
        then show ?thesis using Some False TdFrame i o
          by (auto simp: DmaOnFrameCaptured_def td_waiting_def subseq_append' Let_def)
      qed
    qed
  qed
qed

interpretation td: lossy_fifo "td_step no_adaptive sz" "td_inv no_adaptive" "of_main sz" td_waiting "td_offered no_adaptive sz" on_frames
  for no_adaptive sz
  by unfold_locales (use td_step_cases in auto)

text \<open>
  C39: When the source takes the frames of the main stream, WebRTC gets them in the order of the camera,
  each at most once and in exactly the size that it asked for with that frame, however the size
  changes while frames are inside the scaler.
\<close>

theorem frames_come_in_the_size_asked:
  assumes "list_all (of_main sz) es"
  shows "subseq (on_frames (snd (run (td_step no_adaptive sz) (DmaSourceInit sz) es))) (concat (map (td_offered no_adaptive sz) es))"
  by (rule td.in_order [OF _ assms]) (simp_all add: td_inv_def td_waiting_def DmaSourceInit_def)

definition demo_env :: "int \<Rightarrow> (int \<times> int) option \<Rightarrow> tk_env" where
  "demo_env t d = \<lparr>tk_size = (640, 480), tk_now = t + 5, tk_ts = t, tk_sensor = t - 1, tk_traced = True, tk_adapt = d\<rparr>"

theorem frames_come_in_the_size_asked_witness:
  "subseq (on_frames (snd (run (td_step False (640, 480)) (DmaSourceInit (640, 480))
     [TdFrame (demo_env 10 (Some (320, 240))) True True True, TdFrame (demo_env 20 None) True True True, TdScaled 30,
      TdFrame (demo_env 40 (Some (640, 480))) True True True]))) [(10, 320, 240), (40, 640, 480)]"
  using frames_come_in_the_size_asked [of "(640, 480)" "[TdFrame (demo_env 10 (Some (320, 240))) True True True,
      TdFrame (demo_env 20 None) True True True, TdScaled 30, TdFrame (demo_env 40 (Some (640, 480))) True True True]" False]
  by (simp add: of_main_def demo_env_def td_offered_def del: td_step.simps run.simps)

text \<open>
  With the sub-stream as its source the size is the wrong one: the source announces and adapts the
  size of the main stream, and hands on frames of another size.
\<close>

theorem sub_stream_is_taken_for_the_main:
  assumes "TrackSourceInit (\<lambda>i. if i = 1 then sub else main) 1 = (sz, idx)" "tk_size e = sub" "tk_traced e" "tk_sensor e = 0" "sub \<noteq> main"
  shows "idx = 1 \<and> ScaleOnFrameCaptured True sz e =
     [TkSourceResolution (fst main) (snd main), TkSentResolution (fst main) (snd main), TkOnFrame (tk_ts e) sub]"
  using assms
  by (cases main) (auto simp: TrackSourceInit_def ScaleOnFrameCaptured_def arrival_trace_def delivery_trace_def traced_sensor_def)

theorem sub_stream_is_taken_for_the_main_witness:
  "(1 :: int) = 1 \<and> ScaleOnFrameCaptured True (1280, 720) ((demo_env 10 None)\<lparr>tk_sensor := 0\<rparr>) =
     [TkSourceResolution (fst (1280, 720 :: int)) (snd (1280 :: int, 720)), TkSentResolution (fst (1280, 720 :: int)) (snd (1280 :: int, 720)),
      TkOnFrame (tk_ts ((demo_env 10 None)\<lparr>tk_sensor := 0\<rparr>)) (640, 480)]"
  by (rule sub_stream_is_taken_for_the_main) (simp_all add: TrackSourceInit_def demo_env_def)

subsection \<open>Marks\<close>

text \<open>\<open>marked m os\<close>: every frame that is handed on has been marked just before; \<open>m\<close> is the mark that is open.\<close>

fun marked :: "int option \<Rightarrow> tk_out list \<Rightarrow> bool" where
  "marked m [] = (m = None)"
| "marked m (TkMarkCapture ts sensor # os) = (m = None \<and> marked (Some ts) os)"
| "marked m (TkOnFrame ts d # os) = (m = Some ts \<and> marked None os)"
| "marked m (_ # os) = marked m os"

lemma marked_append: "marked m xs \<Longrightarrow> marked None ys \<Longrightarrow> marked m (xs @ ys)"
  by (induction m xs rule: marked.induct) auto

lemma marked_traces [simp]:
  "marked None (arrival_trace sz e)"
  "sensor \<noteq> 0 \<Longrightarrow> marked None (delivery_trace now ts sensor @ [TkOnFrame ts d])"
  by (simp_all add: arrival_trace_def delivery_trace_def)

definition sensed :: "td_event \<Rightarrow> bool" where
  "sensed x = (case x of TdFrame e _ _ _ \<Rightarrow> tk_traced e \<and> tk_sensor e \<noteq> 0 | TdScaled _ \<Rightarrow> True)"

definition all_sensed :: "dma_source \<Rightarrow> bool" where
  "all_sensed s = (case td_scaler s of None \<Rightarrow> True | Some q \<Rightarrow> list_all (\<lambda>(_, sensor). sensor \<noteq> 0) q)"

lemma marked_step:
  assumes "sensed x" "all_sensed s"
  shows "marked None (snd (td_step no_adaptive sz s x)) \<and> all_sensed (fst (td_step no_adaptive sz s x))"
proof (cases x)
  case (TdScaled now)
  then show ?thesis
    using assms(2) by (auto simp: DmaScaled_def all_sensed_def split: option.splits list.splits)
next
  case (TdFrame e yuv_dma made accepts)
  then have t: "tk_traced e" "traced_sensor e \<noteq> 0" using assms(1) by (simp_all add: sensed_def traced_sensor_def)
  have tail: "marked None (arrival_trace sz e @ TkSentResolution w h # delivery_trace n ts (traced_sensor e) @ [TkOnFrame ts d])"
      "marked None (arrival_trace sz e @ [TkSentResolution w h])" "marked None (arrival_trace sz e @ [TkAdaptDrop])" for w h n ts d
    using t(2) by (auto intro!: marked_append)
  show ?thesis
    using TdFrame t assms(2) tail
    by (auto simp: DmaOnFrameCaptured_def all_sensed_def Let_def simp del: append_assoc split: option.splits)
qed

text \<open>
  While the tracer is on, and frames carry their sensor's time, every frame that WebRTC gets has been
  marked just before under the timestamp it has: a missing mark later is a frame that was never handed
  on, and \<open>EncoderQueueDrop\<close> counts no frame that the scaler or \<open>AdaptFrame\<close> dropped.
\<close>

theorem delivered_frames_are_marked:
  assumes "list_all sensed es"
  shows "marked None (snd (run (td_step no_adaptive sz) (DmaSourceInit sz) es))"
proof -
  have "all_sensed s \<Longrightarrow> marked None (snd (run (td_step no_adaptive sz) s es))" for s
    using assms
  proof (induction es arbitrary: s)
    case (Cons x es)
    then show ?case using marked_step [of x s no_adaptive sz] by (simp add: marked_append del: td_step.simps)
  qed simp
  then show ?thesis by (simp add: all_sensed_def DmaSourceInit_def)
qed

theorem delivered_frames_are_marked_witness:
  "marked None (snd (run (td_step False (640, 480)) (DmaSourceInit (640, 480))
     [TdFrame (demo_env 10 (Some (320, 240))) True True True, TdFrame (demo_env 20 None) True True True, TdScaled 30,
      TdFrame (demo_env 40 (Some (640, 480))) True True True]))"
  by (rule delivered_frames_are_marked) (simp add: sensed_def demo_env_def)

lemma frames_of_two_sizes:
  "on_frames (snd (run (td_step False (640, 480)) (DmaSourceInit (640, 480))
     [TdFrame (demo_env 10 (Some (320, 240))) True True True, TdFrame (demo_env 20 None) True True True, TdScaled 30,
      TdFrame (demo_env 40 (Some (640, 480))) True True True])) = [(10, 320, 240), (40, 640, 480)]"
  by (simp add: demo_env_def DmaOnFrameCaptured_def DmaScaled_def DmaSourceInit_def Let_def)

end
