(* ===== verification/Microphones.thy ===== *)
theory Microphones
  imports Audio
begin

text \<open>
  The microphones: src/src/capturer/audio_capturer.h, alsa_capturer.cpp and pa_capturer.cpp. ALSA and
  PulseAudio are outside: what they answer is part of the events. Samples come as the bytes of a
  little-endian machine; \<open>f32\<close> reads the four bytes of a \<open>float\<close>.
\<close>

datatype sample_format = Float32 | S32 | S16

definition kChunkDurationMs :: nat where "kChunkDurationMs = 10"

definition frames_per_chunk :: "nat \<Rightarrow> nat" where
  "frames_per_chunk sample_rate = sample_rate * kChunkDurationMs div 1000"

record microphone =
  mc_open :: bool
  mc_format :: sample_format
  mc_channels :: nat
  mc_rate :: nat

definition sample_bytes :: "sample_format \<Rightarrow> nat" where
  "sample_bytes fmt = (case fmt of Float32 \<Rightarrow> 4 | S32 \<Rightarrow> 4 | S16 \<Rightarrow> 2)"

section \<open>Samples\<close>

text \<open>A two's complement number, lowest byte first.\<close>

definition signed_le :: "bytes \<Rightarrow> int" where
  "signed_le bs = (let u = horner_sum of_char 256 bs; m = 256 ^ length bs in if 2 * u < m then u else u - m)"

lemma le_bound: "horner_sum of_char (256 :: int) bs < 256 ^ length bs \<and> 0 \<le> horner_sum of_char (256 :: int) bs"
proof (induction bs)
  case (Cons b bs)
  have "of_char b < (256 :: int)" "0 \<le> (of_char b :: int)" by (cases b; auto simp: of_char_def)+
  moreover have "256 * horner_sum of_char (256 :: int) bs \<le> 256 * 256 ^ length bs - 256" using Cons.IH by simp
  ultimately have "of_char b + 256 * horner_sum of_char (256 :: int) bs < 256 * 256 ^ length bs" by linarith
  then show ?case using Cons.IH \<open>0 \<le> of_char b\<close> by (simp add: horner_sum_simps)
qed simp

lemma signed_le_bound: "- (256 ^ length bs) \<le> 2 * signed_le bs \<and> 2 * signed_le bs < 256 ^ length bs"
  using le_bound [of bs] by (simp add: signed_le_def Let_def)

text \<open>
  Scaling by a power of two is exact, and so is the conversion of 16 bits to a \<open>float\<close>; that of 32
  bits is rounded.
\<close>

definition to_float :: "(rat \<Rightarrow> rat) \<Rightarrow> (bytes \<Rightarrow> flt) \<Rightarrow> sample_format \<Rightarrow> bytes \<Rightarrow> flt" where
  "to_float rnd f32 fmt b =
     (case fmt of
        Float32 \<Rightarrow> f32 b
      | S32 \<Rightarrow> Fin (rnd (of_int (signed_le b)) / 2147483648)
      | S16 \<Rightarrow> Fin (of_int (signed_le b) / 32768))"

definition convert_samples :: "(rat \<Rightarrow> rat) \<Rightarrow> (bytes \<Rightarrow> flt) \<Rightarrow> sample_format \<Rightarrow> nat \<Rightarrow> bytes \<Rightarrow> flt list" where
  "convert_samples rnd f32 fmt sample_count raw =
     map (\<lambda>i. to_float rnd f32 fmt (take (sample_bytes fmt) (drop (i * sample_bytes fmt) raw))) [0..<sample_count]"

text \<open>
  A 16-bit sample of the microphone that goes through the \<open>float\<close> of the capturer and back to 16 bits
  for WebRTC changes by one step at most.
\<close>

lemma trunc_between: "of_int a \<le> x \<Longrightarrow> x \<le> of_int b \<Longrightarrow> a \<le> trunc x \<and> trunc x \<le> b"
  by (auto simp: trunc_def le_floor_iff floor_le_iff le_ceiling_iff ceiling_le_iff)

theorem s16_sample_survives:
  assumes "float_rounding rnd" "length b = 2"
  shows "\<exists>v. to_pcm rnd (to_float rnd f32 S16 b) = Some v \<and> \<bar>v - signed_le b\<bar> \<le> 1"
proof -
  define n where "n = signed_le b"
  define x where "x = rat_of_int n / 32768 * 32767"
  have n: "- 32768 \<le> n" "n < 32768" using signed_le_bound [of b] assms(2) by (simp_all add: n_def)
  have r: "- 1 \<le> rat_of_int n / 32768" "rat_of_int n / 32768 \<le> 1" using n by simp_all
  have clamp: "flt_max (Fin (- 1)) (flt_min (Fin 1) (Fin (rat_of_int n / 32768))) = Fin (rat_of_int n / 32768)"
    using r by (simp add: flt_max_def flt_min_def)
  have exact: "rnd (of_int k) = of_int k" if "\<bar>k\<bar> < 2 ^ 24" for k :: int
    using assms(1) that by (simp add: float_rounding_def)
  have x: "x = rat_of_int n - rat_of_int n / 32768" by (simp add: x_def field_simps)
  have lo: "rat_of_int (n - 1) \<le> x" and hi: "x \<le> rat_of_int (n + 1)"
    using r x by simp_all
  have "rnd (rat_of_int (n - 1)) \<le> rnd x" "rnd x \<le> rnd (rat_of_int (n + 1))"
    using assms(1) lo hi by (auto simp: float_rounding_def intro: monoD)
  then have b: "rat_of_int (n - 1) \<le> rnd x" "rnd x \<le> rat_of_int (n + 1)"
    using exact [of "n - 1"] exact [of "n + 1"] n by simp_all
  have t: "n - 1 \<le> trunc (rnd x)" "trunc (rnd x) \<le> n + 1" using trunc_between [OF b] by simp_all
  obtain v where v: "to_pcm rnd (Fin (rat_of_int n / 32768)) = Some v"
    using samples_fit [OF assms(1)] by blast
  then have "v = trunc (rnd x)" by (simp add: to_pcm_def clamp x_def Let_def split: if_splits)
  then show ?thesis using v t by (auto simp: to_float_def n_def)
qed

theorem s16_sample_survives_witness:
  "\<exists>v. to_pcm (\<lambda>x. x) (to_float (\<lambda>x. x) (\<lambda>b. NaN) S16 [CHR 0x39, CHR 0x30]) = Some v \<and> \<bar>v - signed_le [CHR 0x39, CHR 0x30]\<bar> \<le> 1"
  by (rule s16_sample_survives) (simp_all add: float_rounding_def mono_def)

section \<open>ALSA\<close>

text \<open>
  \<open>CreateFloat32Source\<close>: \<open>opens\<close> and, for each format, whether \<open>snd_pcm_set_params\<close> accepts it. A
  handle that is of no use is closed.
\<close>

datatype mic_out =
    McClosed
  | McPrepared
  | McSleeps nat
  | McNext audio_buffer

definition CreateFloat32Source :: "bool \<Rightarrow> (sample_format \<Rightarrow> bool) \<Rightarrow> nat \<Rightarrow> nat \<Rightarrow> microphone option \<times> mic_out list" where
  "CreateFloat32Source opens accepts chans rate =
     (if \<not> opens then (None, [])
      else case find accepts [Float32, S32, S16] of
             None \<Rightarrow> (None, [McClosed])
           | Some fmt \<Rightarrow> (Some \<lparr>mc_open = True, mc_format = fmt, mc_channels = chans, mc_rate = rate\<rparr>, []))"

text \<open>The answers of \<open>snd_pcm_readi\<close>: a code, or frames with their bytes.\<close>

datatype readi = ReadAgain | ReadPipe | ReadError | ReadFrames nat bytes

definition AlsaCaptureSamples :: "(rat \<Rightarrow> rat) \<Rightarrow> (bytes \<Rightarrow> flt) \<Rightarrow> readi \<Rightarrow> microphone \<Rightarrow> microphone \<times> mic_out list" where
  "AlsaCaptureSamples rnd f32 r m =
     (if \<not> mc_open m then (m, [McSleeps 20])
      else case r of
        ReadAgain \<Rightarrow> (m, [McSleeps 2])
      | ReadPipe \<Rightarrow> (m, [McPrepared, McSleeps 2])
      | ReadError \<Rightarrow> (m, [McSleeps 5])
      | ReadFrames n raw \<Rightarrow>
          (m, [McNext \<lparr>bf_samples = convert_samples rnd f32 (mc_format m) (n * mc_channels m) raw, bf_channels = mc_channels m\<rparr>]))"

text \<open>
  What the microphone delivers suits the device module: whole frames, which it hands to WebRTC as
  16-bit samples, none of them out of range.
\<close>

theorem microphone_suits_webrtc:
  assumes "mc_open m" "0 < mc_channels m" "0 < n" "float_rounding rnd"
    and "ab_initialized s" "ab_recording s" "ab_transport s"
  shows "\<exists>buf data. snd (AlsaCaptureSamples rnd f32 (ReadFrames n raw) m) = [McNext buf] \<and>
     OnAudioBuffer rnd buf s = [RecordedData data n (mc_channels m)] \<and> length data = n * mc_channels m \<and>
     (\<forall>x \<in> set data. \<exists>v. x = Some v \<and> \<bar>v\<bar> \<le> 32767)"
proof -
  let ?buf = "\<lparr>bf_samples = convert_samples rnd f32 (mc_format m) (n * mc_channels m) raw, bf_channels = mc_channels m\<rparr>"
  have len: "length (bf_samples ?buf) = n * mc_channels m" by (simp add: convert_samples_def)
  then have ne: "bf_samples ?buf \<noteq> []" using assms(2,3) by (metis less_nat_zero_code list.size(3) mult_is_0 neq0_conv)
  have "OnAudioBuffer rnd ?buf s = [RecordedData (map (to_pcm rnd) (bf_samples ?buf)) n (mc_channels m)]"
    using assms ne len by (simp add: OnAudioBuffer_def)
  moreover have "\<forall>x \<in> set (map (to_pcm rnd) (bf_samples ?buf)). \<exists>v. x = Some v \<and> \<bar>v\<bar> \<le> 32767"
    using samples_fit [OF assms(4)] by auto
  ultimately show ?thesis
    using assms(1) len by (intro exI [of _ ?buf] exI [of _ "map (to_pcm rnd) (bf_samples ?buf)"]) (simp add: AlsaCaptureSamples_def)
qed

definition demo_mic :: microphone where
  "demo_mic = \<lparr>mc_open = True, mc_format = S16, mc_channels = 2, mc_rate = 48000\<rparr>"

definition recording_bridge :: bridge where
  "recording_bridge = (BridgeInit None)\<lparr>ab_transport := True, ab_recording := True, ab_initialized := True\<rparr>"

theorem microphone_suits_webrtc_witness:
  "\<exists>buf data. snd (AlsaCaptureSamples (\<lambda>x. x) (\<lambda>b. NaN) (ReadFrames 1 ''abcd'') demo_mic) = [McNext buf] \<and>
     OnAudioBuffer (\<lambda>x. x) buf recording_bridge = [RecordedData data 1 (mc_channels demo_mic)] \<and> length data = 1 * mc_channels demo_mic \<and>
     (\<forall>x \<in> set data. \<exists>v. x = Some v \<and> \<bar>v\<bar> \<le> 32767)"
  by (rule microphone_suits_webrtc) (simp_all add: demo_mic_def recording_bridge_def BridgeInit_def float_rounding_def mono_def)

section \<open>PulseAudio\<close>

definition PaCreateFloat32Source :: "bool \<Rightarrow> nat \<Rightarrow> nat \<Rightarrow> microphone option" where
  "PaCreateFloat32Source opens chans rate =
     (if opens then Some \<lparr>mc_open = True, mc_format = Float32, mc_channels = chans, mc_rate = rate\<rparr> else None)"

text \<open>\<open>None\<close> is a failed read; a read gives the 10 ms that were asked for.\<close>

definition PaCaptureSamples :: "(bytes \<Rightarrow> flt) \<Rightarrow> bytes option \<Rightarrow> microphone \<Rightarrow> microphone \<times> mic_out list" where
  "PaCaptureSamples f32 r m =
     (if \<not> mc_open m then (m, [McSleeps 20])
      else case r of
        None \<Rightarrow> (m\<lparr>mc_open := False\<rparr>, [McClosed])
      | Some raw \<Rightarrow>
          (m, [McNext \<lparr>bf_samples = convert_samples (\<lambda>x. x) f32 Float32 (frames_per_chunk (mc_rate m) * mc_channels m) raw,
                       bf_channels = mc_channels m\<rparr>]))"

definition is_sound :: "mic_out \<Rightarrow> bool" where
  "is_sound x = (case x of McNext _ \<Rightarrow> True | _ \<Rightarrow> False)"

interpretation pa_mic: quiet_machine "\<lambda>m r. PaCaptureSamples f32 r m" "\<lambda>m. True" "\<lambda>m. \<not> mc_open m" is_sound
  for f32
  by unfold_locales (auto simp: PaCaptureSamples_def is_sound_def)

text \<open>
  One failed read ends the sound of a PulseAudio microphone for good: nothing opens it again. ALSA,
  which reports the same kind of errors, goes on.
\<close>

theorem pulse_failure_is_final:
  "list_all (\<lambda>x. \<not> is_sound x) (snd (run (\<lambda>m r. PaCaptureSamples f32 r m) m (None # rs)))"
proof -
  have "list_all (\<lambda>x. \<not> is_sound x) (snd (run (\<lambda>m r. PaCaptureSamples f32 r m) (fst (PaCaptureSamples f32 None m)) rs))"
    by (rule pa_mic.silent_run) (simp_all add: PaCaptureSamples_def)
  then show ?thesis by (simp add: PaCaptureSamples_def is_sound_def)
qed

end
