(* ===== verification/Cameras.thy ===== *)
theory Cameras
  imports Settings Subject
begin

text \<open>
  The streams of the cameras with more than one: which stream an index refers to
  (src/src/capturer/libcamera_capturer.cpp; libargus_capturer.cpp decides the same way in each of its
  functions), and what the settings that src/src/parser.cpp accepts say about them.
\<close>

section \<open>Streams\<close>

text \<open>\<open>StreamAt\<close>: an index out of range is the main stream.\<close>

definition StreamAt :: "int \<Rightarrow> int \<Rightarrow> int" where
  "StreamAt n idx = (if idx > 0 \<and> idx < n then idx else 0)"

definition kMaxStreams :: int where "kMaxStreams = 2"

definition camera_streams :: "int \<Rightarrow> int" where
  "camera_streams n = clamp n 1 kMaxStreams"

subsection \<open>The streams of accepted settings\<close>

definition same_streams :: "args \<Rightarrow> args \<Rightarrow> bool" where
  "same_streams a b \<longleftrightarrow> num_streams b = num_streams a \<and> live_stream_idx b = live_stream_idx a \<and> record_stream_idx b = record_stream_idx a"

lemma same_streams_trans: "same_streams a b \<Longrightarrow> same_streams b c \<Longrightarrow> same_streams a c"
  by (simp add: same_streams_def)

lemma stages_keep_streams:
  "ParseScalability pf a = Inr b \<Longrightarrow> same_streams a b"
  "ParseUid a = Inr b \<Longrightarrow> same_streams a b"
  "ParseApi a = Inr b \<Longrightarrow> same_streams a b"
  "ParseMqtt a = Inr b \<Longrightarrow> same_streams a b"
  "ParseIceServers a = Inr b \<Longrightarrow> same_streams a b"
  "ParseRecordPath a = Inr b \<Longrightarrow> same_streams a b"
  by (auto simp: parse_parts same_streams_def Let_def split: if_splits)

lemma same_streams_eq: "b = c \<Longrightarrow> same_streams a c \<Longrightarrow> same_streams a b" by simp

lemma cloudflare_keeps_streams: "ParseCloudflare a = Inr b \<Longrightarrow> same_streams a b"
  by (rule same_streams_eq [OF ParseCloudflare_ok [THEN conjunct1]]) (simp_all add: same_streams_def)

lemma livekit_keeps_streams: "ParseLivekit a = Inr b \<Longrightarrow> same_streams a b"
  by (rule same_streams_eq [OF livekit_args [THEN conjunct1]]) (simp_all add: same_streams_def)

lemma ranges_keep_streams: "same_streams a (ParseRanges pf a)"
  using range_args [of pf a] by (elim exE) (simp add: same_streams_def)

lemma bitrates_keep_streams: "same_streams a (DefaultBitrates pf a)" "same_streams a (OrderBitrates a)"
  by (rule same_streams_eq [OF bitrate_args], simp add: same_streams_def)
    (rule same_streams_eq [OF OrderBitrates_eq], simp add: same_streams_def)

lemma record_keeps_streams: "ParseRecordModes a = Inr b \<Longrightarrow> same_streams a b"
  by (drule record_args) (auto intro!: same_streams_eq simp: same_streams_def)

lemma device_keeps_streams: "ParseDevice pf a = Inr b \<Longrightarrow> same_streams a b"
  by (rule same_streams_eq [OF device_args]) (simp_all add: same_streams_def)

lemma ParseStreams_numbers:
  "ParseStreams a = Inr b \<Longrightarrow> num_streams a = 1 \<Longrightarrow>
   (num_streams b = 1 \<and> live_stream_idx b = 0 \<and> record_stream_idx b = 0) \<or>
   (num_streams b = 2 \<and> live_stream_idx b \<in> {0, 1} \<and> record_stream_idx b \<in> {0, 1})"
  by (auto simp: ParseStreams_def bind_ok_Inr Let_def split: if_splits dest: stream_idx)

text \<open>
  The streams that accepted settings select are streams of the camera: with libcamera and Argus
  alike, what is recorded and what is sent is what was asked for, not the main stream in its place.
\<close>

theorem accepted_streams_exist:
  assumes "ParseArgs pf a = Inr b" "num_streams a = 1"
  shows "camera_streams (num_streams b) = num_streams b \<and> num_streams b \<le> kMaxStreams \<and>
     StreamAt (num_streams b) (live_stream_idx b) = live_stream_idx b \<and>
     StreamAt (num_streams b) (record_stream_idx b) = record_stream_idx b"
proof -
  obtain a1 a2 a3 a4 a5 a6 a7 a8 a9 a10 where st:
    "ParseScalability pf a = Inr a1" "ParseStreams a1 = Inr a2" "ParseUid a2 = Inr a3" "ParseApi a3 = Inr a4"
    "ParseCloudflare a4 = Inr a5" "ParseMqtt a5 = Inr a6" "ParseLivekit a6 = Inr a7" "ParseIceServers a7 = Inr a8"
    "ParseRecordPath a8 = Inr a9" "ParseRecordModes (OrderBitrates (DefaultBitrates pf (ParseRanges pf a9))) = Inr a10" "ParseDevice pf a10 = Inr b"
    using assms(1) by (auto simp: ParseArgs_def bind_ok_Inr)
  have "num_streams a1 = 1" using stages_keep_streams(1) [OF st(1)] assms(2) by (simp add: same_streams_def)
  note n = ParseStreams_numbers [OF st(2) this]
  have "same_streams a2 b"
    using stages_keep_streams(2) [OF st(3)] stages_keep_streams(3) [OF st(4)] cloudflare_keeps_streams [OF st(5)]
      stages_keep_streams(4) [OF st(6)] livekit_keeps_streams [OF st(7)] stages_keep_streams(5) [OF st(8)]
      stages_keep_streams(6) [OF st(9)] ranges_keep_streams [of a9 pf] bitrates_keep_streams(1) [of "ParseRanges pf a9" pf]
      bitrates_keep_streams(2) [of "DefaultBitrates pf (ParseRanges pf a9)"] record_keeps_streams [OF st(10)] device_keeps_streams [OF st(11)]
    by (simp add: same_streams_def)
  then show ?thesis using n by (auto simp: same_streams_def camera_streams_def clamp_def kMaxStreams_def StreamAt_def)
qed

theorem accepted_streams_exist_witness:
  "camera_streams (num_streams demo_parsed) = num_streams demo_parsed \<and> num_streams demo_parsed \<le> kMaxStreams \<and>
     StreamAt (num_streams demo_parsed) (live_stream_idx demo_parsed) = live_stream_idx demo_parsed \<and>
     StreamAt (num_streams demo_parsed) (record_stream_idx demo_parsed) = record_stream_idx demo_parsed"
  by (rule accepted_streams_exist [OF demo_args_accepted]) (simp add: demo_args_def default_args_def)

end
