(* ===== verification/LibcameraCapturer.thy ===== *)
theory LibcameraCapturer
  imports Cameras Audio
begin

text \<open>
  \<open>LibcameraCapturer\<close> (src/src/capturer/libcamera_capturer.cpp and .h) and the ranges of its options
  in src/src/parser.cpp: setting up the camera, the controls at the start and while it runs, the
  mapped buffers, and what a completed request does. libcamera is the environment: its answers are
  arguments, and a control is named by what libcamera calls it. \<open>flt\<close> is a \<open>float\<close>, as in \<open>Audio\<close>.
\<close>

section \<open>Setting up the camera\<close>

text \<open>
  What libcamera answers: the cameras it has, whether one can be configured for so many streams, and
  the sizes and strides of the validated streams (\<open>None\<close>: the configuration is invalid).
\<close>

record lc_library =
  li_starts :: bool
  li_cameras :: nat
  li_configures :: "nat \<Rightarrow> bool"
  li_validate :: "(int \<times> int) option list \<Rightarrow> (int \<times> int \<times> int) list option"

text \<open>What comes of it: the role, rotation and size that are asked for, and the sizes that are had.\<close>

record lc_setup =
  ls_camera :: int
  ls_rotated :: int
  ls_frame_time :: int
  ls_rec709 :: bool
  ls_sizes :: "(int \<times> int) list"

definition stream_sizes :: "args \<Rightarrow> (int \<times> int) list" where
  "stream_sizes a = take (nat (camera_streams (num_streams a))) [(width a, height a), (sub_width a, sub_height a)]"

text \<open>A size of which a part is 0 is left to libcamera.\<close>

definition asked_size :: "int \<times> int \<Rightarrow> (int \<times> int) option" where
  "asked_size sz = (if fst sz \<noteq> 0 \<and> snd sz \<noteq> 0 then Some sz else None)"

definition packed :: "int \<times> int \<times> int \<Rightarrow> bool" where
  "packed v = (case v of (w, h, stride) \<Rightarrow> w = stride)"

text \<open>\<open>rot\<close> is the rotation asked for. The outer \<open>None\<close> is the division of \<open>1000000\<close> by a frame rate of 0, which ends the process.\<close>

definition InitCamera :: "lc_library \<Rightarrow> int \<Rightarrow> args \<Rightarrow> (stop + lc_setup) option" where
  "InitCamera li rot a =
     (if \<not> li_starts li then Some (Inl (Throw ''Failed to start camera manager''))
      else if li_cameras li = 0 then Some (Inl (Throw ''No camera is available via libcamera.''))
      else if sint (camera_id a) < 0 \<or> sint (camera_id a) \<ge> int (li_cameras li) then Some (Inl (Throw ''Selected camera is not available.''))
      else if \<not> li_configures li (nat (camera_streams (num_streams a))) then Some (Inl (Exit 1))
      else if fps a = 0 then None
      else Some (case li_validate li (map asked_size (stream_sizes a)) of
        None \<Rightarrow> Inl (Exit 1)
      | Some vs \<Rightarrow>
          if list_all packed vs
          then Inr \<lparr>ls_camera = sint (camera_id a), ls_rotated = (if rot \<in> {90, 180, 270} then rot else 0),
                    ls_frame_time = (if fps a > 0 then 1000000 div fps a else - (1000000 div - fps a)),
                    ls_rec709 = (width a \<ge> 720), ls_sizes = map (\<lambda>(w, h, _). (w, h)) vs\<rparr>
          else Inl (Exit 1)))"

lemma setup_is_packed:
  "InitCamera li rot a = Some (Inr u) \<Longrightarrow>
   \<exists>vs. li_validate li (map asked_size (stream_sizes a)) = Some vs \<and> list_all packed vs \<and> ls_sizes u = map (\<lambda>(w, h, _). (w, h)) vs"
  by (auto simp: InitCamera_def split: if_splits option.splits)

text \<open>
  A frame rate of 0 ends the process when there is a camera: neither the parser nor anything here
  checks it before the division.
\<close>

theorem zero_rate_divides_by_zero:
  assumes "fps a = 0" "li_starts li" "0 \<le> sint (camera_id a)" "sint (camera_id a) < int (li_cameras li)"
    "li_configures li (nat (camera_streams (num_streams a)))"
  shows "InitCamera li rot a = None"
  using assms by (auto simp: InitCamera_def)

definition demo_library :: lc_library where
  "demo_library = \<lparr>li_starts = True, li_cameras = 1, li_configures = (\<lambda>n. True), li_validate = (\<lambda>szs. Some [(640, 480, 640)])\<rparr>"

theorem zero_rate_divides_by_zero_witness: "InitCamera demo_library 0 (default_args\<lparr>fps := 0\<rparr>) = None"
  by (rule zero_rate_divides_by_zero) (simp_all add: demo_library_def default_args_def)

section \<open>Controls\<close>

datatype ctl =
    FrameDurationLimits | AnalogueGainMode | AnalogueGain | Sharpness | Contrast | Brightness | Saturation
  | ExposureValue | ExposureTimeMode | ExposureTime | AeMeteringMode | AeExposureMode | AwbMode
  | NoiseReductionMode | ColourGains | AfMode | AfRange | AfSpeed | AfMetering | AfWindows | AfTrigger | LensPosition
  | OtherControl nat

datatype cval =
    CInt int
  | CFlt flt
  | CGains flt flt
  | CLimits int int
  | CWindow int int int int
  | CManual
  | CWindows
  | CTriggerStart

type_synonym control_list = "ctl \<Rightarrow> cval option"

text \<open>The options of the camera, as the parser leaves them. The shutter is in nanoseconds.\<close>

record lc_args =
  lc_gain :: flt
  lc_sharpness :: flt
  lc_contrast :: flt
  lc_brightness :: flt
  lc_saturation :: flt
  lc_ev :: flt
  lc_shutter :: int
  lc_ae_metering_mode :: int
  lc_ae_mode :: int
  lc_awb_mode :: int
  lc_denoise_mode :: int
  lc_awb_gains :: "flt \<times> flt"
  lc_af_mode :: int
  lc_af_range_mode :: int
  lc_af_speed_mode :: int
  lc_af_window :: "rat \<times> rat \<times> rat \<times> rat"
  lc_lens_position :: "flt option"
  lc_default_lens :: bool

text \<open>\<open>std::clamp\<close>: comparisons with \<open>NaN\<close> are false, so it passes. \<open>15.99f\<close> is a little more than 15.99.\<close>

definition flt_clamp :: "flt \<Rightarrow> rat \<Rightarrow> rat \<Rightarrow> flt" where
  "flt_clamp v lo hi = (if flt_less v (Fin lo) then Fin lo else if flt_less (Fin hi) v then Fin hi else v)"

definition f15_99 :: rat where "f15_99 = 8383365 / 524288"

definition ClampControls :: "lc_args \<Rightarrow> lc_args" where
  "ClampControls a = a\<lparr>lc_sharpness := flt_clamp (lc_sharpness a) 0 f15_99, lc_contrast := flt_clamp (lc_contrast a) 0 f15_99,
     lc_brightness := flt_clamp (lc_brightness a) (- 1) 1, lc_saturation := flt_clamp (lc_saturation a) 0 f15_99,
     lc_ev := flt_clamp (lc_ev a) (- 10) 10\<rparr>"

text \<open>What the camera knows of its controls, and the numbers libcamera gives to two of its modes.\<close>

record lc_camera =
  ci_known :: "ctl set"
  ci_af_max :: int
  ci_scaler_crop :: "(int \<times> int \<times> int \<times> int) option" \<comment> \<open>left, top, width and height of the whole sensor\<close>
  ci_lens_default :: flt
  ci_af_manual :: int
  ci_af_auto :: int

definition set_new :: "ctl \<Rightarrow> cval \<Rightarrow> control_list \<Rightarrow> control_list" where
  "set_new c v m = (if m c = None then m(c \<mapsto> v) else m)"

definition GainControls :: "lc_args \<Rightarrow> control_list \<Rightarrow> control_list" where
  "GainControls a m =
     (if m AnalogueGain = None \<and> lc_gain a \<noteq> Fin 0 then m(AnalogueGainMode \<mapsto> CManual, AnalogueGain \<mapsto> CFlt (lc_gain a)) else m)"

definition ImageControls :: "lc_args \<Rightarrow> control_list \<Rightarrow> control_list" where
  "ImageControls a m =
     set_new ExposureValue (CFlt (lc_ev a)) (set_new Saturation (CFlt (lc_saturation a)) (set_new Brightness (CFlt (lc_brightness a))
       (set_new Contrast (CFlt (lc_contrast a)) (set_new Sharpness (CFlt (lc_sharpness a)) m))))"

definition ShutterControls :: "lc_args \<Rightarrow> control_list \<Rightarrow> control_list" where
  "ShutterControls a m =
     (if m ExposureTime \<noteq> None \<and> lc_shutter a \<noteq> 0
      then m(ExposureTimeMode \<mapsto> CManual, ExposureTime \<mapsto> CInt (sgn (lc_shutter a) * (\<bar>lc_shutter a\<bar> div 1000))) else m)"

definition ModeControls :: "lc_args \<Rightarrow> control_list \<Rightarrow> control_list" where
  "ModeControls a m =
     set_new ColourGains (CGains (fst (lc_awb_gains a)) (snd (lc_awb_gains a)))
       (set_new NoiseReductionMode (CInt (lc_denoise_mode a)) (set_new AwbMode (CInt (lc_awb_mode a))
         (set_new AeExposureMode (CInt (lc_ae_mode a)) (set_new AeMeteringMode (CInt (lc_ae_metering_mode a)) m))))"

definition wants_lens :: "lc_args \<Rightarrow> bool" where
  "wants_lens a \<longleftrightarrow> lc_lens_position a \<noteq> None \<or> lc_default_lens a"

text \<open>The focus mode that is chosen where none was asked for, which the trigger looks at afterwards.\<close>

definition FocusMode :: "lc_camera \<Rightarrow> lc_args \<Rightarrow> control_list \<Rightarrow> int" where
  "FocusMode ci a m =
     (if m AfMode = None \<and> AfMode \<in> ci_known ci \<and> lc_af_mode a = -1
      then (if wants_lens a then ci_af_manual ci else ci_af_max ci) else lc_af_mode a)"

definition FocusControls :: "lc_camera \<Rightarrow> lc_args \<Rightarrow> control_list \<Rightarrow> control_list" where
  "FocusControls ci a m =
     (let add = (\<lambda>c v m. if c \<in> ci_known ci then set_new c v m else m)
      in add AfSpeed (CInt (lc_af_speed_mode a)) (add AfRange (CInt (lc_af_range_mode a)) (add AfMode (CInt (FocusMode ci a m)) m)))"

text \<open>\<open>at\<close> throws for a camera without \<open>ScalerCrop\<close>; \<open>rnd\<close> rounds the product to a \<open>float\<close>.\<close>

definition FocusWindow :: "(rat \<Rightarrow> rat) \<Rightarrow> lc_camera \<Rightarrow> lc_args \<Rightarrow> control_list \<Rightarrow> stop + control_list" where
  "FocusWindow rnd ci a m =
     (case lc_af_window a of (fx, fy, fw, fh) \<Rightarrow>
        if m AfWindows = None \<and> m AfMetering = None \<and> fw \<noteq> 0 \<and> fh \<noteq> 0
        then (case ci_scaler_crop ci of
                None \<Rightarrow> Inl (Throw ''at'')
              | Some (l, t, w, h) \<Rightarrow>
                  let part = (\<lambda>f n. trunc (rnd (f * rnd (of_int n))))
                  in Inr (m(AfMetering \<mapsto> CWindows, AfWindows \<mapsto> CWindow (part fx w + l) (part fy h + t) (part fw w) (part fh h))))
        else Inr m)"

definition FocusTrigger :: "lc_camera \<Rightarrow> lc_args \<Rightarrow> int \<Rightarrow> control_list \<Rightarrow> control_list" where
  "FocusTrigger ci a mode m =
     (if m AfTrigger = None \<and> mode = ci_af_auto ci then m(AfTrigger \<mapsto> CTriggerStart)
      else if m LensPosition = None \<and> LensPosition \<in> ci_known ci \<and> wants_lens a
      then m(LensPosition \<mapsto> CFlt (case lc_lens_position a of Some f \<Rightarrow> f | None \<Rightarrow> ci_lens_default ci))
      else m)"

definition InitControls :: "(rat \<Rightarrow> rat) \<Rightarrow> lc_camera \<Rightarrow> lc_args \<Rightarrow> control_list \<Rightarrow> stop + control_list" where
  "InitControls rnd ci a m =
     (let m1 = ModeControls a (ShutterControls a (ImageControls a (GainControls a m)))
      in bind_ok (FocusWindow rnd ci a (FocusControls ci a m1)) (\<lambda>m2. Inr (FocusTrigger ci a (FocusMode ci a m1) m2)))"

text \<open>The list that \<open>InitCamera\<close> leaves.\<close>

definition frame_controls :: "int \<Rightarrow> control_list" where
  "frame_controls t = [FrameDurationLimits \<mapsto> CLimits t t]"

lemmas control_stages = GainControls_def ImageControls_def ShutterControls_def ModeControls_def FocusControls_def FocusTrigger_def set_new_def

lemma focus_window_keeps: "FocusWindow rnd ci a m = Inr m' \<Longrightarrow> c \<noteq> AfMetering \<Longrightarrow> c \<noteq> AfWindows \<Longrightarrow> m' c = m c"
  by (auto simp: FocusWindow_def Let_def split: if_splits option.splits prod.splits)

lemma focus_keeps:
  assumes "c \<notin> {AfMode, AfRange, AfSpeed, AfMetering, AfWindows, AfTrigger, LensPosition}"
    "bind_ok (FocusWindow rnd ci a (FocusControls ci a m)) (\<lambda>m2. Inr (FocusTrigger ci a k m2)) = Inr m'"
  shows "m' c = m c"
  using assms focus_window_keeps [of rnd ci a "FocusControls ci a m" _ c]
  by (auto simp: bind_ok_Inr FocusControls_def FocusTrigger_def set_new_def Let_def split: if_splits)

lemma stages_keep:
  "c \<notin> {AnalogueGainMode, AnalogueGain} \<Longrightarrow> GainControls a m c = m c"
  "c \<notin> {ExposureTimeMode, ExposureTime} \<Longrightarrow> ShutterControls a m c = m c"
  "c \<notin> {AeMeteringMode, AeExposureMode, AwbMode, NoiseReductionMode, ColourGains} \<Longrightarrow> ModeControls a m c = m c"
  by (simp_all add: GainControls_def ShutterControls_def ModeControls_def set_new_def)

lemma image_controls:
  "m Sharpness = None \<Longrightarrow> ImageControls a m Sharpness = Some (CFlt (lc_sharpness a))"
  "m Contrast = None \<Longrightarrow> ImageControls a m Contrast = Some (CFlt (lc_contrast a))"
  "m Brightness = None \<Longrightarrow> ImageControls a m Brightness = Some (CFlt (lc_brightness a))"
  "m Saturation = None \<Longrightarrow> ImageControls a m Saturation = Some (CFlt (lc_saturation a))"
  "m ExposureValue = None \<Longrightarrow> ImageControls a m ExposureValue = Some (CFlt (lc_ev a))"
  "c \<notin> {Sharpness, Contrast, Brightness, Saturation, ExposureValue} \<Longrightarrow> ImageControls a m c = m c"
  by (simp_all add: ImageControls_def set_new_def)

lemma shutter_mode: "wants_lens (a\<lparr>lc_shutter := n\<rparr>) = wants_lens a" "FocusMode ci (a\<lparr>lc_shutter := n\<rparr>) m = FocusMode ci a m"
  by (simp_all add: wants_lens_def FocusMode_def)

lemma shutter_only:
  "GainControls (a\<lparr>lc_shutter := n\<rparr>) = GainControls a" "ImageControls (a\<lparr>lc_shutter := n\<rparr>) = ImageControls a"
  "ModeControls (a\<lparr>lc_shutter := n\<rparr>) = ModeControls a" "FocusControls ci (a\<lparr>lc_shutter := n\<rparr>) = FocusControls ci a"
  "FocusMode ci (a\<lparr>lc_shutter := n\<rparr>) = FocusMode ci a" "FocusWindow rnd ci (a\<lparr>lc_shutter := n\<rparr>) = FocusWindow rnd ci a"
  "FocusTrigger ci (a\<lparr>lc_shutter := n\<rparr>) = FocusTrigger ci a"
  by (intro ext, simp add: GainControls_def ImageControls_def ModeControls_def FocusControls_def FocusWindow_def
      FocusTrigger_def shutter_mode; fail)+

text \<open>
  The controls a camera starts with are the options, each in its range, whatever was given on the
  command line; only \<open>nan\<close> passes the ranges.
\<close>

definition in_range :: "rat \<Rightarrow> rat \<Rightarrow> flt \<Rightarrow> bool" where
  "in_range lo hi f = (case f of Fin x \<Rightarrow> lo \<le> x \<and> x \<le> hi | NaN \<Rightarrow> True | _ \<Rightarrow> False)"

lemma clamp_in_range: "lo \<le> hi \<Longrightarrow> in_range lo hi (flt_clamp f lo hi)"
  by (cases f) (auto simp: in_range_def flt_clamp_def)

theorem options_become_controls:
  assumes "InitControls rnd ci (ClampControls a) (frame_controls t) = Inr m"
  shows "\<exists>s c b sat ev. m Sharpness = Some (CFlt s) \<and> m Contrast = Some (CFlt c) \<and> m Brightness = Some (CFlt b) \<and>
     m Saturation = Some (CFlt sat) \<and> m ExposureValue = Some (CFlt ev) \<and> m FrameDurationLimits = Some (CLimits t t) \<and>
     in_range 0 f15_99 s \<and> in_range 0 f15_99 c \<and> in_range (- 1) 1 b \<and> in_range 0 f15_99 sat \<and> in_range (- 10) 10 ev"
proof -
  let ?a = "ClampControls a"
  have k: "m x = ModeControls ?a (ShutterControls ?a (ImageControls ?a (GainControls ?a (frame_controls t)))) x"
    if "x \<notin> {AfMode, AfRange, AfSpeed, AfMetering, AfWindows, AfTrigger, LensPosition}" for x
    using focus_keeps [OF that] assms by (simp add: InitControls_def Let_def)
  have "0 \<le> f15_99" by (simp add: f15_99_def)
  then show ?thesis
    by (simp add: k stages_keep image_controls frame_controls_def) (simp add: ClampControls_def clamp_in_range)
qed

text \<open>
  \<open>--shutter\<close> has no effect: it is applied only where an exposure time is set already, and nothing
  sets one.
\<close>

theorem shutter_is_ignored:
  assumes "InitControls rnd ci a (frame_controls t) = Inr m"
  shows "m ExposureTime = None \<and> m ExposureTimeMode = None \<and>
     InitControls rnd ci (a\<lparr>lc_shutter := n\<rparr>) (frame_controls t) = Inr m"
proof -
  have s: "ShutterControls b (ImageControls b (GainControls b (frame_controls t))) = ImageControls b (GainControls b (frame_controls t))" for b
    using image_controls(6) [of ExposureTime] stages_keep(1) [of ExposureTime]
    by (simp add: ShutterControls_def frame_controls_def)
  have "InitControls rnd ci (a\<lparr>lc_shutter := n\<rparr>) (frame_controls t) = InitControls rnd ci a (frame_controls t)"
    unfolding InitControls_def s by (simp only: shutter_only)
  moreover have "m x = None" if "x \<in> {ExposureTime, ExposureTimeMode}" for x
    using focus_keeps [of x rnd ci a "ModeControls a (ImageControls a (GainControls a (frame_controls t)))"] assms that
    unfolding InitControls_def s by (auto simp: Let_def stages_keep image_controls frame_controls_def)
  ultimately show ?thesis using assms by simp
qed

definition demo_lc_args :: lc_args where
  "demo_lc_args = \<lparr>lc_gain = Fin 2, lc_sharpness = Fin 20, lc_contrast = Fin 1, lc_brightness = Fin (- 3), lc_saturation = Fin 1,
     lc_ev = NaN, lc_shutter = 5000000, lc_ae_metering_mode = 0, lc_ae_mode = 0, lc_awb_mode = 0, lc_denoise_mode = 0,
     lc_awb_gains = (Fin 0, Fin 0), lc_af_mode = -1, lc_af_range_mode = 0, lc_af_speed_mode = 0, lc_af_window = (0, 0, 0, 0),
     lc_lens_position = None, lc_default_lens = False\<rparr>"

definition demo_lc_camera :: lc_camera where
  "demo_lc_camera = \<lparr>ci_known = {LensPosition}, ci_af_max = 2, ci_scaler_crop = None, ci_lens_default = Fin 1, ci_af_manual = 0, ci_af_auto = 1\<rparr>"

definition demo_started :: "lc_args \<Rightarrow> control_list" where
  "demo_started a = ModeControls a (ShutterControls a (ImageControls a (GainControls a (frame_controls 33333))))"

lemma demo_controls: "InitControls (\<lambda>x. x) demo_lc_camera a (frame_controls 33333) = Inr (demo_started a)" if "a = ClampControls demo_lc_args \<or> a = demo_lc_args"
  using that by (auto simp: InitControls_def demo_started_def FocusControls_def FocusWindow_def FocusTrigger_def FocusMode_def wants_lens_def
      demo_lc_camera_def demo_lc_args_def ClampControls_def Let_def)

theorem options_become_controls_witness:
  "\<exists>s c b sat ev. demo_started (ClampControls demo_lc_args) Sharpness = Some (CFlt s) \<and>
     demo_started (ClampControls demo_lc_args) Contrast = Some (CFlt c) \<and> demo_started (ClampControls demo_lc_args) Brightness = Some (CFlt b) \<and>
     demo_started (ClampControls demo_lc_args) Saturation = Some (CFlt sat) \<and> demo_started (ClampControls demo_lc_args) ExposureValue = Some (CFlt ev) \<and>
     demo_started (ClampControls demo_lc_args) FrameDurationLimits = Some (CLimits 33333 33333) \<and>
     in_range 0 f15_99 s \<and> in_range 0 f15_99 c \<and> in_range (- 1) 1 b \<and> in_range 0 f15_99 sat \<and> in_range (- 10) 10 ev"
  by (rule options_become_controls [OF demo_controls]) simp

theorem shutter_is_ignored_witness:
  "demo_started demo_lc_args ExposureTime = None \<and> demo_started demo_lc_args ExposureTimeMode = None \<and>
     InitControls (\<lambda>x. x) demo_lc_camera (demo_lc_args\<lparr>lc_shutter := 0\<rparr>) (frame_controls 33333) = Inr (demo_started demo_lc_args)"
  by (rule shutter_is_ignored [OF demo_controls]) simp

section \<open>The buffers\<close>

datatype memory = Mapped nat | MapFailed | NullMemory

text \<open>A buffer is its planes, each a descriptor and a length.\<close>

type_synonym plane = "int \<times> int"

definition plane_fd :: "plane list \<Rightarrow> int" where
  "plane_fd ps = (if ps = [] then 0 else fst (last ps))"

definition MapBuffer :: "(int \<Rightarrow> int \<Rightarrow> memory) \<Rightarrow> plane list \<Rightarrow> (int \<Rightarrow> (memory \<times> int) option) \<Rightarrow> (int \<Rightarrow> (memory \<times> int) option)" where
  "MapBuffer mm ps maps = (let len = sum_list (map snd ps) in maps(plane_fd ps \<mapsto> (mm (plane_fd ps) len, len)))"

definition buffer_count :: nat where "buffer_count = 2"

text \<open>The buffers of every stream; any other number of them than was asked for ends the process.\<close>

fun AllocateBuffer ::
  "(int \<Rightarrow> int \<Rightarrow> memory) \<Rightarrow> plane list list list \<Rightarrow> (int \<Rightarrow> (memory \<times> int) option) \<Rightarrow> stop + (int \<Rightarrow> (memory \<times> int) option)" where
  "AllocateBuffer mm [] maps = Inr maps"
| "AllocateBuffer mm (bs # streams) maps =
     (if length bs \<noteq> buffer_count then Inl (Exit 1) else AllocateBuffer mm streams (fold (MapBuffer mm) bs maps))"

text \<open>\<open>mapped_buffers_[fd]\<close> makes an empty entry where there is none.\<close>

definition mapped_at :: "(int \<Rightarrow> (memory \<times> int) option) \<Rightarrow> int \<Rightarrow> memory \<times> int" where
  "mapped_at maps fd = (case maps fd of Some x \<Rightarrow> x | None \<Rightarrow> (NullMemory, 0))"

lemma fold_maps:
  "distinct (map plane_fd bs) \<Longrightarrow>
   fold (MapBuffer mm) bs maps fd =
     (case find (\<lambda>ps. plane_fd ps = fd) bs of Some ps \<Rightarrow> Some (mm fd (sum_list (map snd ps)), sum_list (map snd ps)) | None \<Rightarrow> maps fd)"
proof (induction bs arbitrary: maps)
  case (Cons ps bs)
  have "find (\<lambda>qs. plane_fd qs = fd) bs = None" if "plane_fd ps = fd"
    using Cons.prems that by (auto simp: find_None_iff) (metis image_eqI)
  then show ?case using Cons by (auto simp: MapBuffer_def Let_def)
qed simp

lemma allocated_maps:
  assumes "AllocateBuffer mm streams maps = Inr maps'"
  shows "maps' = fold (MapBuffer mm) (concat streams) maps"
  using assms by (induction mm streams maps rule: AllocateBuffer.induct) (auto split: if_splits)

lemma find_only: "distinct (map f xs) \<Longrightarrow> x \<in> set xs \<Longrightarrow> find (\<lambda>y. f y = f x) xs = Some x"
  by (induction xs) auto

text \<open>
  Where the planes of a buffer share a descriptor, and no two buffers do, the frame of a completed
  request is read from the buffer's own memory, over the whole length of its planes.
\<close>

theorem frames_are_read_from_their_buffer:
  assumes "AllocateBuffer mm streams (\<lambda>fd. None) = Inr maps" "distinct (map plane_fd (concat streams))"
    and "ps \<in> set (concat streams)" "ps \<noteq> []" "\<forall>p \<in> set ps. fst p = fst (hd ps)"
  shows "mapped_at maps (fst (hd ps)) = (mm (fst (hd ps)) (sum_list (map snd ps)), sum_list (map snd ps))"
proof -
  have fd: "fst (hd ps) = plane_fd ps" using bspec [OF assms(5) last_in_set [OF assms(4)]] assms(4) unfolding plane_fd_def by metis
  have "find (\<lambda>qs. plane_fd qs = plane_fd ps) (concat streams) = Some ps"
    using assms(2,3) by (rule find_only)
  then have "maps (plane_fd ps) = Some (mm (plane_fd ps) (sum_list (map snd ps)), sum_list (map snd ps))"
    unfolding allocated_maps [OF assms(1)] fold_maps [OF assms(2)] by (simp only: option.case)
  then show ?thesis unfolding fd mapped_at_def by (simp only: option.case)
qed

definition demo_streams :: "plane list list list" where
  "demo_streams = [[[(7, 4), (7, 1), (7, 1)], [(8, 4), (8, 1), (8, 1)]]]"

theorem frames_are_read_from_their_buffer_witness:
  "mapped_at ((\<lambda>fd. None)(7 \<mapsto> (Mapped 7, 6), 8 \<mapsto> (Mapped 8, 6))) (fst (hd [(8, 4), (8, 1), (8, 1)])) =
     (Mapped (nat (fst (hd [(8 :: int, 4 :: int), (8, 1), (8, 1)]))), sum_list (map snd [(8 :: int, 4 :: int), (8, 1), (8, 1)]))
   \<and> mapped_at ((\<lambda>fd. None)(7 \<mapsto> (Mapped 7, 6), 8 \<mapsto> (Mapped 8, 6))) 8 = (Mapped 8, 6)"
  using frames_are_read_from_their_buffer
      [of "\<lambda>fd len. Mapped (nat fd)" demo_streams "(\<lambda>fd. None)(7 \<mapsto> (Mapped 7, 6), 8 \<mapsto> (Mapped 8, 6))" "[(8, 4), (8, 1), (8, 1)]"]
  by (simp add: demo_streams_def MapBuffer_def plane_fd_def buffer_count_def)

section \<open>The running camera\<close>

text \<open>
  \<open>lc_sizes\<close> are the sizes of the streams, \<open>lc_frames\<close> the latest frame of each, \<open>lc_pending\<close> the requests that libcamera
  has. \<open>lc_alive\<close> ends with \<open>exit\<close>.
\<close>

record lc_frame =
  lf_memory :: memory
  lf_length :: int
  lf_fd :: int
  lf_sec :: int
  lf_usec :: int
  lf_size :: "int \<times> int"

record lcam =
  lc_alive :: bool
  lc_sizes :: "(int \<times> int) list"
  lc_mapped :: "int \<Rightarrow> (memory \<times> int) option"
  lc_controls :: control_list
  lc_updated :: bool
  lc_frames :: "lc_frame option list"
  lc_pending :: nat

datatype lc_out =
    LcStarted control_list
  | LcExit int
  | LcNext nat lc_frame
  | LcQueued control_list

text \<open>\<open>StartCapture\<close>, where every call succeeds: the camera starts with the controls, which are then cleared.\<close>

definition LcStartCapture :: "(int \<times> int) list \<Rightarrow> (int \<Rightarrow> (memory \<times> int) option) \<Rightarrow> control_list \<Rightarrow> lcam \<times> lc_out list" where
  "LcStartCapture szs maps m =
     (\<lparr>lc_alive = True, lc_sizes = szs, lc_mapped = maps, lc_controls = (\<lambda>c. None), lc_updated = False,
       lc_frames = map (\<lambda>_. None) szs, lc_pending = buffer_count\<rparr>,
      LcStarted m # replicate buffer_count (LcQueued (\<lambda>c. None)))"

definition LcSetControls :: "ctl \<Rightarrow> cval \<Rightarrow> lcam \<Rightarrow> lcam" where
  "LcSetControls c v s = s\<lparr>lc_controls := (lc_controls s)(c \<mapsto> v), lc_updated := True\<rparr>"

text \<open>A buffer of a completed request: the descriptor of its first plane, and its time in nanoseconds.\<close>

definition LcFrame :: "lcam \<Rightarrow> nat \<Rightarrow> int \<times> int \<Rightarrow> lc_frame" where
  "LcFrame s i b =
     (let mem = mapped_at (lc_mapped s) (fst b)
      in \<lparr>lf_memory = fst mem, lf_length = snd mem, lf_fd = fst b, lf_sec = snd b div 1000000000,
         lf_usec = snd b mod 1000000000 div 1000, lf_size = lc_sizes s ! i\<rparr>)"

text \<open>\<open>None\<close> is a request that was cancelled; otherwise, what \<open>findBuffer\<close> finds for each stream.\<close>

definition RequestComplete :: "(nat \<Rightarrow> (int \<times> int) option) option \<Rightarrow> lcam \<Rightarrow> lcam \<times> lc_out list" where
  "RequestComplete r s =
     (if \<not> lc_alive s \<or> lc_pending s = 0 then (s, [])
      else case r of
        None \<Rightarrow> (s\<lparr>lc_alive := False, lc_pending := lc_pending s - 1\<rparr>, [LcExit 1])
      | Some found \<Rightarrow>
          (let n = length (lc_sizes s);
               s1 = s\<lparr>lc_frames := map (\<lambda>i. case found i of None \<Rightarrow> lc_frames s ! i | Some b \<Rightarrow> Some (LcFrame s i b)) [0..<n]\<rparr>;
               next = concat (map (\<lambda>i. case found i of None \<Rightarrow> [] | Some b \<Rightarrow> [LcNext i (LcFrame s i b)]) [0..<n])
           in if lc_updated s
              then (s1\<lparr>lc_updated := False\<rparr>, next @ [LcQueued (lc_controls s)])
              else (s1, next @ [LcQueued (\<lambda>c. None)])))"

text \<open>
  \<open>GetI420Frame\<close> reads the latest frame of the stream; before there is one, it follows a null pointer
  (\<open>None\<close>).
\<close>

definition GetI420Frame :: "int \<Rightarrow> lcam \<Rightarrow> lc_frame option" where
  "GetI420Frame idx s = lc_frames s ! nat (StreamAt (int (length (lc_sizes s))) idx)"

text \<open>
  The destructor. \<open>Camera::stop\<close> cancels the pending requests, and reports each of them as cancelled
  before it returns; the slot is still connected.
\<close>

fun CancelPending :: "nat \<Rightarrow> lcam \<Rightarrow> lcam \<times> lc_out list" where
  "CancelPending 0 s = (s, [])"
| "CancelPending (Suc n) s =
     (let r = RequestComplete None s; r' = CancelPending n (fst r) in (fst r', snd r @ snd r'))"

definition LcDestroy :: "lcam \<Rightarrow> lcam \<times> lc_out list" where
  "LcDestroy s = CancelPending (lc_pending s) s"

datatype lc_event = EvSetControls ctl cval | EvComplete "nat \<Rightarrow> (int \<times> int) option"

fun lc_step :: "lcam \<Rightarrow> lc_event \<Rightarrow> lcam \<times> lc_out list" where
  "lc_step s (EvSetControls c v) = (LcSetControls c v s, [])"
| "lc_step s (EvComplete found) = RequestComplete (Some found) s"

definition lc_inv :: "lcam \<Rightarrow> bool" where
  "lc_inv s \<longleftrightarrow> lc_alive s \<and> lc_pending s = buffer_count"

interpretation lc: machine lc_step lc_inv
proof unfold_locales
  show "lc_inv s \<Longrightarrow> lc_inv (fst (lc_step s e))" for s e
    by (cases e) (auto simp: lc_inv_def LcSetControls_def RequestComplete_def Let_def)
qed

subsection \<open>Controls reach the camera\<close>

text \<open>The controls that the camera has: those of a request stay until another request sets them.\<close>

definition camera_view :: "control_list \<Rightarrow> lc_out list \<Rightarrow> control_list" where
  "camera_view v os = fold (\<lambda>x v. case x of LcStarted m \<Rightarrow> m | LcQueued m \<Rightarrow> v ++ m | _ \<Rightarrow> v) os v"

definition wanted :: "control_list \<Rightarrow> lc_event list \<Rightarrow> control_list" where
  "wanted v es = fold (\<lambda>e v. case e of EvSetControls c x \<Rightarrow> v(c \<mapsto> x) | EvComplete _ \<Rightarrow> v) es v"

definition control_inv :: "control_list \<Rightarrow> control_list \<Rightarrow> lcam \<Rightarrow> bool" where
  "control_inv v w s \<longleftrightarrow> lc_inv s \<and> v ++ lc_controls s = w \<and> (lc_updated s \<or> lc_controls s \<subseteq>\<^sub>m v)"

lemma camera_view_simps [simp]:
  "camera_view v [] = v" "camera_view v (xs @ ys) = camera_view (camera_view v xs) ys"
  "camera_view v (LcQueued m # xs) = camera_view (v ++ m) xs" "camera_view v (LcNext i f # xs) = camera_view v xs"
  "camera_view v (LcStarted m # xs) = camera_view m xs"
  by (simp_all add: camera_view_def)

lemma frames_leave_view [simp]:
  "camera_view v (concat (map (\<lambda>i. case found i of None \<Rightarrow> [] | Some b \<Rightarrow> [LcNext i (g i b)]) is)) = v"
  by (induction "is") (simp_all split: option.splits)

lemma map_le_add: "m \<subseteq>\<^sub>m v \<Longrightarrow> v ++ m = v"
  by (rule ext) (auto simp: map_add_def map_le_def dom_def split: option.splits)

lemma control_step:
  assumes "control_inv v w s"
  shows "control_inv (camera_view v (snd (lc_step s e))) (wanted w [e]) (fst (lc_step s e))"
proof -
  have i: "lc_inv (fst (lc_step s e))" using assms lc.inv_step by (simp add: control_inv_def)
  show ?thesis
  proof (cases e)
    case (EvSetControls c x)
    then show ?thesis using assms i by (simp add: control_inv_def LcSetControls_def wanted_def)
  next
    case (EvComplete found)
    then show ?thesis
      using assms i map_le_map_add [of "lc_controls s" v]
      by (cases "lc_updated s")
        (auto simp: map_le_add control_inv_def wanted_def RequestComplete_def Let_def lc_inv_def buffer_count_def)
  qed
qed

lemma control_run:
  "control_inv v w s \<Longrightarrow> control_inv (camera_view v (snd (run lc_step s es))) (wanted w es) (fst (run lc_step s es))"
proof (induction es arbitrary: s v w)
  case (Cons e es)
  have w: "wanted w (e # es) = wanted (wanted w [e]) es" by (simp add: wanted_def)
  show ?case using Cons.IH [OF control_step [OF Cons.prems]] unfolding w by (simp del: lc_step.simps)
qed (simp add: wanted_def)

text \<open>
  C35: No control is lost between the thread that sets it and the thread of the camera: once a request has
  completed after it, the camera has exactly the controls that it started with and those set since,
  the last value of each.
\<close>

theorem controls_reach_the_camera:
  "camera_view v (snd (LcStartCapture szs maps m) @ snd (run lc_step (fst (LcStartCapture szs maps m)) (es @ [EvComplete found]))) = wanted m es"
proof -
  let ?s = "fst (LcStartCapture szs maps m)"
  have v: "camera_view v (snd (LcStartCapture szs maps m)) = m"
    by (simp add: LcStartCapture_def buffer_count_def numeral_2_eq_2 map_add_def)
  have "control_inv m m ?s" by (simp add: control_inv_def lc_inv_def LcStartCapture_def)
  from control_run [OF this, of "es @ [EvComplete found]"]
  have i: "control_inv (camera_view m (snd (run lc_step ?s (es @ [EvComplete found])))) (wanted m (es @ [EvComplete found]))
      (fst (run lc_step ?s (es @ [EvComplete found])))" .
  have "lc_inv (fst (run lc_step ?s es))" by (rule lc.inv_run) (simp add: lc_inv_def LcStartCapture_def)
  then have "\<not> lc_updated (fst (run lc_step ?s (es @ [EvComplete found])))"
    by (simp add: fst_run_append RequestComplete_def lc_inv_def buffer_count_def Let_def)
  then show ?thesis using i v by (auto simp: control_inv_def wanted_def map_le_add)
qed

text \<open>
  The controls are kept after they are sent, so that any later change sends them all again: the start
  of an autofocus scan that was asked for once is asked for again with the next change of brightness.
\<close>

theorem trigger_is_sent_again:
  "snd (run lc_step (fst (LcStartCapture [] maps m))
     [EvSetControls AfTrigger CTriggerStart, EvComplete (\<lambda>i. None), EvSetControls Brightness v, EvComplete (\<lambda>i. None)]) =
   [LcQueued [AfTrigger \<mapsto> CTriggerStart], LcQueued [AfTrigger \<mapsto> CTriggerStart, Brightness \<mapsto> v]]"
  by (simp add: LcStartCapture_def LcSetControls_def RequestComplete_def buffer_count_def)

subsection \<open>Frames\<close>

text \<open>The time of a frame is that of its buffer, in microseconds.\<close>

lemma frame_time: "lf_sec (LcFrame s i b) * 1000000 + lf_usec (LcFrame s i b) = snd b div 1000"
proof -
  let ?q = "snd b div 1000000000" and ?r = "snd b mod 1000000000"
  have "snd b = ?r + ?q * 1000000 * 1000" using div_mult_mod_eq [of "snd b" 1000000000] by simp
  then have "snd b div 1000 = (?r + ?q * 1000000 * 1000) div 1000" by (rule arg_cong)
  also have "\<dots> = ?q * 1000000 + ?r div 1000" by (rule div_mult_self1) simp
  finally show ?thesis by (simp add: LcFrame_def Let_def)
qed

text \<open>Before the first frame of a stream, a snapshot ends the process.\<close>

theorem early_snapshot_crashes:
  assumes "szs \<noteq> []"
  shows "GetI420Frame idx (fst (LcStartCapture szs maps m)) = None"
  using assms by (auto simp: GetI420Frame_def LcStartCapture_def StreamAt_def nth_map nat_less_iff)

theorem early_snapshot_crashes_witness: "GetI420Frame 0 (fst (LcStartCapture [(640, 480)] (\<lambda>fd. None) (\<lambda>c. None))) = None"
  by (rule early_snapshot_crashes) simp

text \<open>
  Destroying a camera that runs ends the process with an error: its pending requests are cancelled,
  and \<open>RequestComplete\<close> exits on the first.
\<close>

theorem closing_the_camera_exits:
  "LcExit 1 \<in> set (snd (LcDestroy (fst (run lc_step (fst (LcStartCapture szs maps m)) es))))"
proof -
  have "lc_inv (fst (run lc_step (fst (LcStartCapture szs maps m)) es))"
    by (rule lc.inv_run) (simp add: lc_inv_def LcStartCapture_def)
  then show ?thesis by (simp add: LcDestroy_def lc_inv_def buffer_count_def numeral_2_eq_2 RequestComplete_def Let_def)
qed

end
