(* ===== verification/ArgusCapturer.thy ===== *)
theory ArgusCapturer
  imports Complex_Main Cameras
begin

text \<open>
  \<open>LibargusCapturer\<close> and its \<open>StreamHandler\<close> (src/src/capturer/libargus_capturer.cpp and .h). Argus,
  EGL and NvBufSurface are the environment: what they answer is part of the arguments and events. A
  surface is known by the descriptor of its dmabuf.
\<close>

section \<open>The pool of buffers\<close>

definition kBufferCount :: nat where "kBufferCount = 6"

text \<open>How the making of one buffer goes: where it fails, once there is a surface, the surface stays in the pool.\<close>

datatype buffer_answer =
    SurfaceFails
  | EglFails int \<comment> \<open>mapping the EGL image fails, or there is none\<close>
  | ArgusFails int \<comment> \<open>no Argus buffer is made of the image\<close>
  | ReleaseFails int \<comment> \<open>Argus does not take it for the first capture\<close>
  | BufferMade int

datatype ah_out =
    AhAllocated int
  | AhUnmapped int
  | AhDestroyed int
  | AhGiven int \<comment> \<open>\<open>releaseBuffer\<close> of a new buffer\<close>
  | AhEndOfStream
  | AhRecordCapture int
  | AhDelivered int "int \<times> int"
  | AhReturned int \<comment> \<open>\<open>releaseBuffer\<close> of a buffer that was acquired\<close>

text \<open>
  A handler: its stream's interface, the pool (\<open>None\<close>: a buffer without a surface), and the latest
  frame with its time in seconds and microseconds.
\<close>

record handler =
  ah_size :: "int \<times> int"
  ah_stream :: bool
  ah_buffers :: "int option list"
  ah_last :: "(int \<times> int \<times> int) option"
  ah_running :: bool

definition HandlerInit :: "int \<times> int \<Rightarrow> handler" where
  "HandlerInit sz = \<lparr>ah_size = sz, ah_stream = False, ah_buffers = [], ah_last = None, ah_running = True\<rparr>"

fun MakeBuffers :: "buffer_answer list \<Rightarrow> handler \<Rightarrow> handler \<times> ah_out list \<times> bool" where
  "MakeBuffers [] h = (h, [], True)"
| "MakeBuffers (a # as) h =
     (let keep = (\<lambda>b. h\<lparr>ah_buffers := ah_buffers h @ [b]\<rparr>)
      in case a of
        SurfaceFails \<Rightarrow> (keep None, [], False)
      | EglFails fd \<Rightarrow> (keep (Some fd), [AhAllocated fd], False)
      | ArgusFails fd \<Rightarrow> (keep (Some fd), [AhAllocated fd], False)
      | ReleaseFails fd \<Rightarrow> (keep (Some fd), [AhAllocated fd, AhGiven fd], False)
      | BufferMade fd \<Rightarrow>
          (case MakeBuffers as (keep (Some fd)) of (h', os, ok) \<Rightarrow> (h', [AhAllocated fd, AhGiven fd] @ os, ok)))"

text \<open>\<open>display\<close>: there is an EGL display; \<open>settings\<close>: there are buffer settings.\<close>

definition PrepareBuffers :: "bool \<Rightarrow> bool \<Rightarrow> bool \<Rightarrow> (nat \<Rightarrow> buffer_answer) \<Rightarrow> handler \<Rightarrow> handler \<times> ah_out list \<times> bool" where
  "PrepareBuffers stream display settings answer h =
     (let h1 = h\<lparr>ah_stream := stream\<rparr>
      in if \<not> stream \<or> \<not> display \<or> \<not> settings then (h1, [], False)
         else case MakeBuffers (map answer [0..<kBufferCount]) h1 of
                (h2, os, ok) \<Rightarrow>
                  if ok then (h2\<lparr>ah_last := map_option (\<lambda>fd. (fd, 0, 0)) (hd (ah_buffers h2))\<rparr>, os, True) else (h2, os, False))"

definition ReleaseBuffers :: "handler \<Rightarrow> handler \<times> ah_out list" where
  "ReleaseBuffers h =
     (h\<lparr>ah_buffers := []\<rparr>,
      concat (map (\<lambda>b. case b of None \<Rightarrow> [] | Some fd \<Rightarrow> [AhUnmapped fd, AhDestroyed fd]) (ah_buffers h)))"

definition HandlerDestroy :: "handler \<Rightarrow> ah_out list" where
  "HandlerDestroy h = (if ah_stream h then [AhEndOfStream] else []) @ snd (ReleaseBuffers (h\<lparr>ah_running := False, ah_last := None\<rparr>))"

definition allocated :: "ah_out list \<Rightarrow> int list" where
  "allocated os = List.map_filter (\<lambda>x. case x of AhAllocated fd \<Rightarrow> Some fd | _ \<Rightarrow> None) os"

definition destroyed :: "ah_out list \<Rightarrow> int list" where
  "destroyed os = List.map_filter (\<lambda>x. case x of AhDestroyed fd \<Rightarrow> Some fd | _ \<Rightarrow> None) os"

definition surfaces :: "handler \<Rightarrow> int list" where
  "surfaces h = List.map_filter id (ah_buffers h)"

lemma surface_lists [simp]:
  "allocated [] = []" "allocated (xs @ ys) = allocated xs @ allocated ys"
  "allocated (x # xs) = (case x of AhAllocated fd \<Rightarrow> [fd] | _ \<Rightarrow> []) @ allocated xs"
  "destroyed [] = []" "destroyed (xs @ ys) = destroyed xs @ destroyed ys"
  "destroyed (x # xs) = (case x of AhDestroyed fd \<Rightarrow> [fd] | _ \<Rightarrow> []) @ destroyed xs"
  by (auto simp: allocated_def destroyed_def map_filter_def split: ah_out.splits)

lemma buffers_made:
  "MakeBuffers as h = (h', os, ok) \<Longrightarrow>
   surfaces h' = surfaces h @ allocated os \<and> destroyed os = [] \<and> ah_stream h' = ah_stream h \<and>
   (ok \<longrightarrow> ah_buffers h' = ah_buffers h @ map Some (allocated os) \<and> length (allocated os) = length as)"
proof (induction as h arbitrary: h' os ok rule: MakeBuffers.induct)
  case (2 a as h)
  show ?case
  proof (cases a)
    case (BufferMade fd)
    obtain h1 os1 ok1 where r: "MakeBuffers as (h\<lparr>ah_buffers := ah_buffers h @ [Some fd]\<rparr>) = (h1, os1, ok1)"
      by (metis prod_cases3)
    then show ?thesis
      using "2.IH" [OF refl BufferMade r] "2.prems" BufferMade by (auto simp: surfaces_def map_filter_def Let_def)
  qed (use "2.prems" in \<open>auto simp: surfaces_def map_filter_def Let_def\<close>)
qed (simp add: surfaces_def)

lemma prepared:
  "PrepareBuffers st d se answer h = (h', os, ok) \<Longrightarrow>
   surfaces h' = surfaces h @ allocated os \<and> destroyed os = [] \<and>
   (ok \<longrightarrow> ah_buffers h = [] \<longrightarrow> ah_stream h' \<and> length (allocated os) = kBufferCount \<and> ah_last h' = Some (hd (allocated os), 0, 0))"
proof -
  assume p: "PrepareBuffers st d se answer h = (h', os, ok)"
  show ?thesis
  proof (cases "st \<and> d \<and> se")
    case False
    then show ?thesis using p by (auto simp: PrepareBuffers_def surfaces_def Let_def)
  next
    case True
    obtain h2 os2 ok2 where m: "MakeBuffers (map answer [0..<kBufferCount]) (h\<lparr>ah_stream := st\<rparr>) = (h2, os2, ok2)"
      by (metis prod_cases3)
    have o: "os = os2" "ok = ok2" and h': "h' = (if ok2 then h2\<lparr>ah_last := map_option (\<lambda>fd. (fd, 0, 0)) (hd (ah_buffers h2))\<rparr> else h2)"
      using p True m by (auto simp: PrepareBuffers_def Let_def split: if_splits)
    have b: "surfaces h2 = surfaces h @ allocated os2" "destroyed os2 = []" "ah_stream h2"
        "ok2 \<Longrightarrow> ah_buffers h2 = ah_buffers h @ map Some (allocated os2)" "ok2 \<Longrightarrow> length (allocated os2) = kBufferCount"
      using buffers_made [OF m] True by (simp_all add: surfaces_def)
    have "ah_last h' = Some (hd (allocated os2), 0, 0)" if "ok2" "ah_buffers h = []"
      using that b h' by (cases "allocated os2") (simp_all add: kBufferCount_def)
    then show ?thesis using b o h' by (auto simp: surfaces_def)
  qed
qed

lemma destroys_its_surfaces: "destroyed (HandlerDestroy h) = surfaces h \<and> allocated (HandlerDestroy h) = []"
proof -
  have "destroyed (concat (map (\<lambda>b. case b of None \<Rightarrow> [] | Some fd \<Rightarrow> [AhUnmapped fd, AhDestroyed fd]) bs)) = List.map_filter id bs \<and>
      allocated (concat (map (\<lambda>b. case b of None \<Rightarrow> [] | Some fd \<Rightarrow> [AhUnmapped fd, AhDestroyed fd]) bs)) = []" for bs
    by (induction bs) (auto simp: map_filter_def split: option.splits)
  then show ?thesis by (simp add: HandlerDestroy_def ReleaseBuffers_def surfaces_def)
qed

section \<open>The camera\<close>

text \<open>A sensor mode: its size, and the range of its frame durations in nanoseconds.\<close>

record sensor_mode =
  sm_size :: "int \<times> int"
  sm_min :: nat
  sm_max :: nat

text \<open>
  Frame durations in nanoseconds: rounded to find a mode, cut off to ask for the rate. The quotients
  are exact enough in a \<open>double\<close> for that; for a rate that is not positive they have no value.
\<close>

definition desired_duration :: "int \<Rightarrow> nat" where
  "desired_duration rate = nat ((2000000000 + rate) div (2 * rate))"

definition asked_duration :: "int \<Rightarrow> nat" where
  "asked_duration rate = nat (1000000000 div rate)"

definition mode_fits :: "int \<times> int \<Rightarrow> int \<Rightarrow> sensor_mode \<Rightarrow> bool" where
  "mode_fits sz rate m \<longleftrightarrow> sm_size m = sz \<and> sm_min m \<le> desired_duration rate \<and> desired_duration rate \<le> sm_max m"

text \<open>\<open>None\<close> among the modes is one without the interface.\<close>

definition FindBestSensorMode :: "int \<times> int \<Rightarrow> int \<Rightarrow> sensor_mode option list \<Rightarrow> sensor_mode option" where
  "FindBestSensorMode sz rate modes = find (mode_fits sz rate) (List.map_filter id modes)"

text \<open>What Argus answers while the streams are set up.\<close>

record argus =
  ar_provider :: bool
  ar_interface :: bool
  ar_devices :: "nat option"
  ar_session :: bool
  ar_settings :: bool
  ar_stream :: "nat \<Rightarrow> bool"
  ar_prepare :: "nat \<Rightarrow> bool \<times> bool \<times> bool \<times> (nat \<Rightarrow> buffer_answer)"
  ar_request_settings :: "nat \<Rightarrow> bool"
  ar_source :: bool
  ar_modes :: "sensor_mode option list"

record argus_setup =
  as_mode :: "sensor_mode option"
  as_duration :: nat
  as_max_gain :: rat

fun PrepareStreams :: "argus \<Rightarrow> nat \<Rightarrow> handler list \<Rightarrow> handler list \<times> ah_out list \<times> string option" where
  "PrepareStreams ar i [] = ([], [], None)"
| "PrepareStreams ar i (h # hs) =
     (if \<not> ar_stream ar i then (h # hs, [], Some ''Failed to create Argus buffer output stream'')
      else case ar_prepare ar i of (st, d, se, answer) \<Rightarrow>
        (case PrepareBuffers st d se answer h of (h', os, ok) \<Rightarrow>
           if \<not> ok then (h' # hs, os, Some ''Failed to prepare capture buffers'')
           else case PrepareStreams ar (i + 1) hs of (hs', os', r) \<Rightarrow> (h' # hs', os @ os', r)))"

text \<open>The handlers, which are made first.\<close>

definition stream_handlers :: "args \<Rightarrow> handler list" where
  "stream_handlers a =
     HandlerInit (width a, height a) # (if num_streams a > 1 then [HandlerInit (sub_width a, sub_height a)] else [])"

text \<open>
  \<open>Initialize\<close> and \<open>InitStreams\<close>, for a rate above 0 and the one or two streams of accepted settings: the handlers are left as they are when an
  exception is thrown.
\<close>

definition ArgusInitialize :: "argus \<Rightarrow> args \<Rightarrow> rat \<Rightarrow> handler list \<times> ah_out list \<times> (stop + argus_setup)" where
  "ArgusInitialize ar a gain =
     (let hs = stream_handlers a; cam = sint (camera_id a); fail = (\<lambda>e. (hs, [], Inl (Throw e)))
      in if \<not> ar_provider ar \<or> \<not> ar_interface ar then fail ''Failed to create CameraProvider''
         else case ar_devices ar of
           None \<Rightarrow> fail ''No cameras available''
         | Some n \<Rightarrow>
             if n = 0 then fail ''No cameras available''
             else if cam < 0 \<or> int n \<le> cam then fail (''Camera device '' @ (if cam < 0 then ''-'' else '''') @ to_digits (nat \<bar>cam\<bar>) @ '' requested but only '' @ to_digits n @ '' available.'')
             else if \<not> ar_session ar then fail ''Failed to get ICaptureSession''
             else if \<not> ar_settings ar then fail ''Failed to get IBufferOutputStreamSettings''
             else case PrepareStreams ar 0 hs of
                 (hs', os, Some e) \<Rightarrow> (hs', os, Inl (Throw e))
               | (hs', os, None) \<Rightarrow>
                   (hs', os,
                    if \<not> list_all (ar_request_settings ar) [0..<length hs] then Inl (Throw ''Failed to get IStreamSettings'')
                    else if \<not> ar_source ar then Inl (Throw ''Failed to get ISourceSettings'')
                    else Inr \<lparr>as_mode = FindBestSensorMode (width a, height a) (fps a) (ar_modes ar),
                              as_duration = asked_duration (fps a), as_max_gain = (if gain > 0 then gain else 8)\<rparr>))"

definition ArgusDestroy :: "handler list \<Rightarrow> ah_out list" where
  "ArgusDestroy hs = concat (map HandlerDestroy hs)"

lemma streams_prepared:
  "PrepareStreams ar i hs = (hs', os, r) \<Longrightarrow> list_all (\<lambda>h. ah_buffers h = []) hs \<Longrightarrow>
   concat (map surfaces hs') = allocated os \<and> destroyed os = [] \<and>
   (r = None \<longrightarrow> list_all (\<lambda>h. ah_stream h \<and> ah_last h \<noteq> None) hs')"
proof (induction ar i hs arbitrary: hs' os r rule: PrepareStreams.induct)
  case (2 ar i h hs)
  obtain st d se answer where p: "ar_prepare ar i = (st, d, se, answer)" by (metis prod_cases4)
  obtain h1 os1 ok where b: "PrepareBuffers st d se answer h = (h1, os1, ok)" by (metis prod_cases3)
  obtain hs2 os2 r2 where q: "PrepareStreams ar (i + 1) hs = (hs2, os2, r2)" by (metis prod_cases3)
  have e: "ah_buffers h = []" "list_all (\<lambda>h. ah_buffers h = []) hs" using "2.prems"(2) by simp_all
  have none: "concat (map surfaces hs) = []" using e(2) by (induction hs) (auto simp: surfaces_def map_filter_def)
  have s: "surfaces h = []" using e(1) by (simp add: surfaces_def map_filter_def)
  show ?case
  proof (cases "ar_stream ar i \<and> ok")
    case True
    then show ?thesis
      using "2.prems"(1) "2.IH" [OF _ p [symmetric] refl refl b [symmetric] refl _ q e(2)] prepared [OF b] p b q e s by auto
  next
    case False
    then show ?thesis using "2.prems"(1) prepared [OF b] p b none s by (auto split: if_splits)
  qed
qed simp

text \<open>
  However the start of the camera goes, every surface it allocated is destroyed exactly once when the
  capturer is gone, and in the order it was made.
\<close>

theorem surfaces_are_destroyed:
  "case ArgusInitialize ar a gain of (hs, os, r) \<Rightarrow> destroyed (os @ ArgusDestroy hs) = allocated (os @ ArgusDestroy hs)"
proof -
  obtain hs os r where i: "ArgusInitialize ar a gain = (hs, os, r)" by (metis prod_cases3)
  have d: "destroyed (ArgusDestroy hs) = concat (map surfaces hs) \<and> allocated (ArgusDestroy hs) = []" for hs
    unfolding ArgusDestroy_def by (induction hs) (simp_all add: destroys_its_surfaces)
  have e: "list_all (\<lambda>h. ah_buffers h = []) (stream_handlers a)" by (simp add: stream_handlers_def HandlerInit_def)
  have n: "concat (map surfaces (stream_handlers a)) = []" by (simp add: stream_handlers_def HandlerInit_def surfaces_def map_filter_def)
  have "concat (map surfaces hs) = allocated os \<and> destroyed os = []"
    using i n streams_prepared [OF _ e, of ar 0]
    by (auto simp: ArgusInitialize_def Let_def split: if_splits option.splits prod.splits)
  then show ?thesis using d [of hs] by (simp add: i)
qed

text \<open>
  A camera that has started always has a frame to read, the first buffer of the pool before anything
  is captured: \<open>GetI420Frame\<close> never finds a null pointer.
\<close>

theorem started_streams_have_a_frame:
  assumes "ArgusInitialize ar a gain = (hs, os, Inr u)"
  shows "hs \<noteq> [] \<and> list_all (\<lambda>h. ah_stream h \<and> ah_last h \<noteq> None) hs"
proof -
  have e: "list_all (\<lambda>h. ah_buffers h = []) (stream_handlers a)" by (simp add: stream_handlers_def HandlerInit_def)
  have p: "PrepareStreams ar 0 (stream_handlers a) = (hs, os, None)"
    using assms by (auto simp: ArgusInitialize_def Let_def split: if_splits option.splits prod.splits)
  have "hs \<noteq> []"
    using p by (auto simp: stream_handlers_def split: if_splits prod.splits)
  then show ?thesis using streams_prepared [OF p e] by simp
qed

text \<open>
  The rate is cut off where the mode was chosen by rounding, so that the duration that is asked for
  may be a nanosecond outside the range of the chosen mode.
\<close>

lemma rate_of_sixty: "desired_duration 60 = 16666667 \<and> asked_duration 60 = 16666666"
  by (simp add: desired_duration_def asked_duration_def)

section \<open>Capturing\<close>

text \<open>
  What \<open>acquireBuffer\<close> gives: nothing (a timeout, or the end of the stream), a buffer that has no
  interface or no client data, or a buffer of the pool, with the sensor's time in nanoseconds if it
  has metadata.
\<close>

datatype acquired = NoBuffer | Unusable int | Captured int "int option"

definition ToTimeval :: "int \<Rightarrow> int \<times> int" where
  "ToTimeval ns = (ns div 1000000000, ns mod 1000000000 div 1000)"

definition CaptureImage :: "bool \<Rightarrow> handler \<Rightarrow> acquired \<Rightarrow> handler \<times> ah_out list" where
  "CaptureImage traced h r =
     (case r of
        NoBuffer \<Rightarrow> (h, [])
      | Unusable fd \<Rightarrow> (h, [AhReturned fd])
      | Captured fd meta \<Rightarrow>
          (let tv = (case meta of None \<Rightarrow> (0, 0) | Some ns \<Rightarrow> ToTimeval ns)
           in (h\<lparr>ah_last := Some (fd, tv)\<rparr>,
               (if traced then [AhRecordCapture (fst tv * 1000000 + snd tv)] else []) @ [AhDelivered fd tv, AhReturned fd])))"

definition was_acquired :: "acquired \<Rightarrow> int list" where
  "was_acquired r = (case r of NoBuffer \<Rightarrow> [] | Unusable fd \<Rightarrow> [fd] | Captured fd _ \<Rightarrow> [fd])"

definition returned :: "ah_out list \<Rightarrow> int list" where
  "returned os = List.map_filter (\<lambda>x. case x of AhReturned fd \<Rightarrow> Some fd | _ \<Rightarrow> None) os"

definition delivered_frames :: "ah_out list \<Rightarrow> (int \<times> int \<times> int) list" where
  "delivered_frames os = List.map_filter (\<lambda>x. case x of AhDelivered fd tv \<Rightarrow> Some (fd, tv) | _ \<Rightarrow> None) os"

lemma returned_append: "returned (xs @ ys) = returned xs @ returned ys" "delivered_frames (xs @ ys) = delivered_frames xs @ delivered_frames ys"
  by (simp_all add: returned_def delivered_frames_def map_filter_def)

lemma capture_step:
  "returned (snd (CaptureImage traced h r)) = was_acquired r"
  "map fst (delivered_frames (snd (CaptureImage traced h r))) = (case r of Captured fd _ \<Rightarrow> [fd] | _ \<Rightarrow> [])"
  by (cases r; simp add: CaptureImage_def returned_def delivered_frames_def was_acquired_def map_filter_def Let_def split: prod.splits)+

text \<open>
  Argus gets every buffer back that was acquired, once and in the same order, whatever was wrong with
  it; so the pool is never exhausted by the capturer.
\<close>

theorem buffers_go_back:
  "returned (snd (run (CaptureImage traced) h rs)) = concat (map was_acquired rs)"
  by (induction rs arbitrary: h) (simp_all add: returned_append capture_step, simp add: returned_def map_filter_def)

text \<open>
  The latest frame of a stream, once there is one, is never lost, and after a capture it is that of
  the capture.
\<close>

theorem latest_frame_is_kept:
  assumes "ah_last h \<noteq> None"
  shows "ah_last (fst (run (CaptureImage traced) h rs)) =
     (let ds = delivered_frames (snd (run (CaptureImage traced) h rs)) in if ds = [] then ah_last h else Some (last ds))"
  using assms
proof (induction rs arbitrary: h)
  case (Cons r rs)
  have l: "ah_last (fst (CaptureImage traced h r)) \<noteq> None"
    using Cons.prems by (cases r) (simp_all add: CaptureImage_def Let_def)
  have d: "ah_last (fst (CaptureImage traced h r)) =
      (if delivered_frames (snd (CaptureImage traced h r)) = [] then ah_last h else Some (last (delivered_frames (snd (CaptureImage traced h r)))))"
    by (cases r) (simp_all add: CaptureImage_def delivered_frames_def map_filter_def Let_def)
  show ?case using Cons.IH [OF l] d by (simp add: returned_append Let_def)
qed (simp add: delivered_frames_def map_filter_def)

definition demo_argus :: argus where
  "demo_argus = \<lparr>ar_provider = True, ar_interface = True, ar_devices = Some 1, ar_session = True, ar_settings = True, ar_stream = (\<lambda>i. True),
     ar_prepare = (\<lambda>i. (True, True, True, (\<lambda>k. BufferMade (int (10 * i + k))))), ar_request_settings = (\<lambda>i. True), ar_source = True, ar_modes = []\<rparr>"

definition demo_handlers :: "handler list" where
  "demo_handlers = fst (ArgusInitialize demo_argus default_args 0)"

theorem started_streams_have_a_frame_witness:
  "demo_handlers \<noteq> [] \<and> list_all (\<lambda>h. ah_stream h \<and> ah_last h \<noteq> None) demo_handlers"
  using started_streams_have_a_frame [of demo_argus default_args 0 demo_handlers]
  by (simp add: demo_handlers_def ArgusInitialize_def demo_argus_def default_args_def stream_handlers_def HandlerInit_def PrepareBuffers_def
      kBufferCount_def upt_rec Let_def)

theorem latest_frame_is_kept_witness:
  "ah_last (fst (run (CaptureImage False) (hd demo_handlers) [Captured 3 (Some 2000003000), NoBuffer])) = Some (3, 2, 3)"
proof -
  have h: "ah_last (hd demo_handlers) \<noteq> None"
    by (simp add: demo_handlers_def ArgusInitialize_def demo_argus_def default_args_def stream_handlers_def HandlerInit_def PrepareBuffers_def
        kBufferCount_def upt_rec Let_def)
  show ?thesis
    unfolding latest_frame_is_kept [OF h] by (simp add: CaptureImage_def ToTimeval_def delivered_frames_def map_filter_def Let_def)
qed

end
