(* ===== verification/Thumbnails.thy ===== *)
theory Thumbnails
  imports MediaQuery
begin

unbundle bit_operations_syntax

text \<open>
  What the queries read from inside a recording: \<open>GetVideoDuration\<close> and \<open>GetThumbnailBase64\<close> of
  src/src/recorder/media_query.cpp, and the layout of the picture that src/src/common/jpeg_util.cpp
  compresses. libavformat, libavcodec, libyuv and libjpeg are outside: their answers are arguments.
\<close>

section \<open>The duration\<close>

text \<open>
  The duration that libavformat knows, in microseconds, if the file opens and has stream information.
  The quotient is cut off towards 0 and kept in 32 bits.
\<close>

definition GetVideoDuration :: "bool \<Rightarrow> int option \<Rightarrow> 32 word" where
  "GetVideoDuration opens info =
     (case (if opens then info else None) of
        None \<Rightarrow> 0
      | Some d \<Rightarrow> of_int (sgn d * (\<bar>d\<bar> div 1000000)))"

lemma durations_are_seconds:
  assumes "0 \<le> d" "d < 1000000 * 2 ^ 31"
  shows "uint (GetVideoDuration True (Some d)) = d div 1000000"
proof -
  have "GetVideoDuration True (Some d) = of_int (d div 1000000)"
    using assms(1) by (cases "d = 0") (simp_all add: GetVideoDuration_def)
  moreover have "0 \<le> d div 1000000" "d div 1000000 < 2 ^ 31" using assms by (simp_all add: pos_imp_zdiv_nonneg_iff div_less_iff_less_mult)
  ultimately show ?thesis by (simp add: uint_word_of_int_eq take_bit_eq_mod)
qed

text \<open>
  A duration that libavformat does not know is the lowest number of 64 bits (\<open>AV_NOPTS_VALUE\<close>), which
  nothing checks: such a file is said to last more than seventy years.
\<close>

lemma unknown_duration: "GetVideoDuration True (Some (- 9223372036854775808)) = 2217714954"
  by (simp add: GetVideoDuration_def)

section \<open>The size and the planes of a thumbnail\<close>

definition thumb_side :: "int \<Rightarrow> int \<Rightarrow> int" where
  "thumb_side n scale_denom = max 2 (n div scale_denom AND NOT 1)"

text \<open>Where the planes of a picture begin, and how long a row of chroma is.\<close>

record yuv_layout =
  yl_size :: int
  yl_u :: int
  yl_v :: int
  yl_chroma_row :: int

definition thumb_layout :: "int \<Rightarrow> int \<Rightarrow> yuv_layout" where
  "thumb_layout w h = \<lparr>yl_size = w * h * 3 div 2, yl_u = w * h, yl_v = w * h + w * h div 4, yl_chroma_row = w div 2\<rparr>"

text \<open>What \<open>ConvertYuvToJpeg\<close> takes its argument to be; the size of the RGB picture it makes.\<close>

definition jpeg_layout :: "int \<Rightarrow> int \<Rightarrow> yuv_layout" where
  "jpeg_layout w h = \<lparr>yl_size = w * h * 3 div 2, yl_u = w * h, yl_v = w * h + w * h div 4, yl_chroma_row = w div 2\<rparr>"

definition rgb_bytes :: "int \<Rightarrow> int \<Rightarrow> int" where
  "rgb_bytes w h = w * h * 3"

text \<open>\<open>RGB\<close> rows that are written; the chroma planes have half as many rows, rounded up.\<close>

definition chroma_bytes :: "int \<Rightarrow> int \<Rightarrow> int" where
  "chroma_bytes w h = ((w + 1) div 2) * ((h + 1) div 2)"

lemma even_side: "2 \<le> thumb_side n d \<and> even (thumb_side n d)"
proof -
  have "even (x AND NOT 1)" for x :: int by (simp add: even_and_iff)
  then show ?thesis by (auto simp: thumb_side_def max_def)
qed

text \<open>
  A thumbnail has an even size of at least two by two, whatever is divided by what, so that its three
  planes lie one behind the other and fill its buffer exactly, and the encoder finds them there.
\<close>

theorem thumbnail_planes_fit:
  "let w = thumb_side a n; h = thumb_side b n; l = thumb_layout w h
   in 2 \<le> w \<and> 2 \<le> h \<and> jpeg_layout w h = l \<and> yl_u l = w * h \<and> yl_v l = yl_u l + chroma_bytes w h \<and>
      yl_size l = yl_v l + chroma_bytes w h \<and> chroma_bytes w h = yl_chroma_row l * (h div 2)"
proof -
  obtain i j where s: "thumb_side a n = 2 * i" "thumb_side b n = 2 * j"
    using even_side [of a n] even_side [of b n] by (auto elim!: evenE)
  have "2 * i * (2 * j) * 3 div 2 = 2 * (i * j * 3)" "2 * i * (2 * j) div 4 = i * j"
    by (simp_all add: algebra_simps)
  then show ?thesis
    using even_side [of a n] even_side [of b n] s
    by (simp add: thumb_layout_def jpeg_layout_def chroma_bytes_def Let_def)
qed

text \<open>
  Of a snapshot with an odd size, which is handed to the same encoder, the second chroma plane is
  taken from the wrong place.
\<close>

lemma odd_snapshot_is_shifted: "yl_v (jpeg_layout 641 481) < yl_u (jpeg_layout 641 481) + chroma_bytes 641 481"
  by (simp add: jpeg_layout_def chroma_bytes_def)

section \<open>Reading a picture\<close>

text \<open>A packet: its stream, whether the decoder takes it, and whether it gives a picture then.\<close>

record tn_packet =
  tp_stream :: int
  tp_sent :: bool
  tp_picture :: bool

definition gives_picture :: "int \<Rightarrow> tn_packet \<Rightarrow> bool" where
  "gives_picture idx p \<longleftrightarrow> tp_stream p = idx \<and> tp_sent p \<and> tp_picture p"

text \<open>The loop, with how many packets it still may read.\<close>

fun read_picture :: "int \<Rightarrow> nat \<Rightarrow> tn_packet list \<Rightarrow> bool \<Rightarrow> bool" where
  "read_picture idx n [] got = got"
| "read_picture idx n (p # ps) got =
     (if got then True else case n of 0 \<Rightarrow> False | Suc m \<Rightarrow> read_picture idx m ps (gives_picture idx p))"

definition max_packets :: nat where "max_packets = 200"

lemma read_picture_got: "read_picture idx n ps True"
  by (cases ps) simp_all

lemma read_picture_iff: "read_picture idx n ps False \<longleftrightarrow> (\<exists>p \<in> set (take n ps). gives_picture idx p)"
proof (induction ps arbitrary: n)
  case (Cons p ps)
  then show ?case by (cases n; cases "gives_picture idx p") (simp_all add: read_picture_got)
qed simp

datatype tn_resource = TnFormat | TnCodec | TnPacket | TnFrame

datatype tn_out = TnGot tn_resource | TnFreed tn_resource

record tn_file =
  tf_opens :: bool
  tf_info :: bool
  tf_stream :: "int option"
  tf_decoder :: bool
  tf_context :: bool
  tf_params :: bool
  tf_codec_opens :: bool
  tf_packet :: bool
  tf_frame :: bool
  tf_packets :: "tn_packet list"
  tf_yuv420 :: bool
  tf_size :: "int \<times> int"

text \<open>\<open>cleanup\<close>, for what there is.\<close>

definition cleanup :: "tn_resource list \<Rightarrow> tn_out list" where
  "cleanup held = map TnFreed (filter (\<lambda>r. r \<in> set held) [TnFrame, TnPacket, TnCodec, TnFormat])"

text \<open>\<open>encode\<close>: what libyuv and libjpeg make of the picture in the size that is given.\<close>

definition GetThumbnailBase64 ::
  "(int \<Rightarrow> int \<Rightarrow> int \<Rightarrow> string option) \<Rightarrow> tn_file \<Rightarrow> int \<Rightarrow> int \<Rightarrow> tn_out list \<times> string" where
  "GetThumbnailBase64 encode f scale_denom quality =
     (if \<not> tf_opens f then ([], [])
      else let fmt = [TnGot TnFormat] in
      if \<not> tf_info f then (fmt @ cleanup [TnFormat], [])
      else case tf_stream f of None \<Rightarrow> (fmt @ cleanup [TnFormat], []) | Some idx \<Rightarrow>
      if \<not> tf_decoder f \<or> \<not> tf_context f then (fmt @ cleanup [TnFormat], [])
      else let codec = fmt @ [TnGot TnCodec] in
      if \<not> tf_params f \<or> \<not> tf_codec_opens f then (codec @ cleanup [TnFormat, TnCodec], [])
      else let more = (if tf_packet f then [TnPacket] else []) @ (if tf_frame f then [TnFrame] else []);
               held = [TnFormat, TnCodec] @ more; os = codec @ map TnGot more
           in if \<not> tf_packet f \<or> \<not> tf_frame f \<or> \<not> read_picture idx max_packets (tf_packets f) False \<or> \<not> tf_yuv420 f
              then (os @ cleanup held, [])
              else (os @ cleanup held,
                    (case encode (thumb_side (fst (tf_size f)) scale_denom) (thumb_side (snd (tf_size f)) scale_denom) quality of
                       None \<Rightarrow> [] | Some jpeg \<Rightarrow> if jpeg = [] then [] else ToBase64 jpeg)))"

definition got :: "tn_out list \<Rightarrow> tn_resource list" where
  "got os = List.map_filter (\<lambda>x. case x of TnGot r \<Rightarrow> Some r | _ \<Rightarrow> None) os"

definition freed :: "tn_out list \<Rightarrow> tn_resource list" where
  "freed os = List.map_filter (\<lambda>x. case x of TnFreed r \<Rightarrow> Some r | _ \<Rightarrow> None) os"

lemma resource_simps [simp]:
  "got [] = []" "freed [] = []" "got (xs @ ys) = got xs @ got ys" "freed (xs @ ys) = freed xs @ freed ys"
  "got (x # xs) = (case x of TnGot r \<Rightarrow> [r] | _ \<Rightarrow> []) @ got xs" "freed (x # xs) = (case x of TnFreed r \<Rightarrow> [r] | _ \<Rightarrow> []) @ freed xs"
  by (auto simp: got_def freed_def map_filter_def split: tn_out.splits)

text \<open>
  Whatever is wrong with a file, everything that was opened for a thumbnail is freed exactly once, in
  the reverse order.
\<close>

theorem thumbnails_free_everything:
  "freed (fst (GetThumbnailBase64 encode f n q)) = rev (got (fst (GetThumbnailBase64 encode f n q)))"
  by (simp add: GetThumbnailBase64_def cleanup_def Let_def split: option.splits)

text \<open>
  A thumbnail is made of a picture among the first 200 packets; a file without one gives the empty
  string, however long it is.
\<close>

theorem thumbnails_need_an_early_picture:
  assumes "snd (GetThumbnailBase64 encode f n q) \<noteq> []"
  shows "\<exists>idx p. tf_stream f = Some idx \<and> p \<in> set (take max_packets (tf_packets f)) \<and> gives_picture idx p \<and> tf_yuv420 f"
  using assms
  by (auto simp: GetThumbnailBase64_def read_picture_iff Let_def split: if_splits option.splits)

definition demo_file :: tn_file where
  "demo_file = \<lparr>tf_opens = True, tf_info = True, tf_stream = Some 0, tf_decoder = True, tf_context = True, tf_params = True, tf_codec_opens = True,
     tf_packet = True, tf_frame = True, tf_packets = [\<lparr>tp_stream = 1, tp_sent = False, tp_picture = False\<rparr>, \<lparr>tp_stream = 0, tp_sent = True, tp_picture = True\<rparr>],
     tf_yuv420 = True, tf_size = (1920, 1080)\<rparr>"

lemma demo_thumbnail: "snd (GetThumbnailBase64 (\<lambda>w h q. Some ''a'') demo_file 4 80) \<noteq> []"
proof -
  have "ToBase64 ''a'' \<noteq> []" by code_simp
  moreover have "read_picture 0 max_packets (tf_packets demo_file) False"
    unfolding read_picture_iff by (simp add: demo_file_def max_packets_def gives_picture_def)
  ultimately show ?thesis by (simp add: GetThumbnailBase64_def demo_file_def Let_def)
qed

theorem thumbnails_need_an_early_picture_witness:
  "\<exists>idx p. tf_stream demo_file = Some idx \<and> p \<in> set (take max_packets (tf_packets demo_file)) \<and> gives_picture idx p \<and> tf_yuv420 demo_file"
  by (rule thumbnails_need_an_early_picture [OF demo_thumbnail])

end
