(* ===== verification/Spec2Isabelle.thy ===== *)
theory Spec2Isabelle
  imports DataChannel UnixSocket Endpoints IpcChannel SdpText RtcPeer PeerRegistry WebSocket Cloudflare Whep Recorder MediaQuery Codec Settings Mqtt LatencyTracer Conductor LiveKit Audio HwEncoders HttpClient
    Jetson Capture V4l2Device Frames V4l2Camera Recorders Tracks Microphones LibcameraCapturer ArgusCapturer Thumbnails
begin

text \<open>
  \<^bold>\<open>A verification development of pi-webrtc.\<close> The program (src/src) runs on a Raspberry Pi or a Jetson and
  streams a camera and a microphone over WebRTC. It records to files, finds its peers through one of
  four signaling services, and passes data between the peers and local programs.

  \<^bold>\<open>The parts and how they interact.\<close> \<open>main\<close> reads the settings and builds a \<open>Conductor\<close>, which opens the
  camera and the microphone and makes the tracks. A signaling service asks it for an \<open>RtcPeer\<close> per
  client and exchanges descriptions and candidates with it. A capturer is a \<open>Subject\<close>: its thread calls
  every observer with each frame, which are the track source, the recorder and the snapshot. The track
  source adapts the frame and gives it to WebRTC, which gives it to one of the encoders. The recorder
  encodes the frames itself and writes files, which the queries find again. Data channels carry
  commands, which the conductor carries out, and the messages of local programs, which reach them
  through unix sockets.

  \<^bold>\<open>How the code is modelled.\<close> The state of a class is a record with the fields of the class. A method is
  a function from the state, its arguments and what its environment answers to the new state and the
  list of what it did (messages, calls out, frames, log of a resource). Threads, callbacks and
  completions are events: a method that one thread runs under a lock is one event, one that can be
  interrupted between two steps is several, and a run over a list of events is one interleaving. An
  exception or an exit is a value; what the language leaves undefined (null pointers, writes behind a
  buffer, signed overflow) is a value of its own, so that a theorem can exclude or show it. Integers
  have their width where overflow matters and are \<open>int\<close> or \<open>nat\<close> elsewhere; floating point numbers are
  rationals with an explicit rounding function.

  \<^bold>\<open>The theories,\<close> with the files they model (under src/src) and what their lemmas show.

    \<^item> \<open>Prelude\<close>: ordered maps (\<open>std::map\<close>), strings as C++ has them, decimal numbers, machines. Locales:
      \<open>keyed_store\<close>, interpreted on the ordered map, and \<open>machine\<close> (invariants), \<open>guarded_machine\<close> (every
      output is good), \<open>quiet_machine\<close> (from some point on nothing is said), \<open>once_machine\<close> (something is said
      at most once) and \<open>refinement\<close> (simulation of an abstract machine), each interpreted on the
      components that keep such a promise.
    \<^item> \<open>Pipelines\<close>: the locale \<open>lossy_fifo\<close>, the contract of a stage of the video path: it may drop frames,
      but neither reorders nor repeats them. \<open>Recorders\<close> and \<open>Tracks\<close> interpret it.

    \<^item> Data channels. \<open>DataChannel\<close> (rtc/datachannel/rtc_channel, channel_framing): roles, packets, framing,
      chunks, the send thread with backpressure; the chunks tile the body, and what is sent is sent in
      order. \<open>IpcChannel\<close> (ipc_channel, command_channel, stream_channel): reassembly of interleaved streams,
      the filter of lossy channels, the endpoints behind a channel. \<open>UnixSocket\<close>
      (ipc/unix_socket_server): clients that receive whole snapshots, also when writes are partial.
      \<open>Endpoints\<close> (ipc/*_endpoint, endpoint_registry): the gamepad's snapshots refine a map of live gamepads.
    \<^item> Peers. \<open>RtcPeer\<close> and \<open>SdpText\<close> (rtc/rtc_peer): negotiation, candidates before and after the remote
      description, deadlines, expiry, the rewriting for an ICE restart. \<open>PeerRegistry\<close>
      (signaling/peer_registry): peers and the thread that sweeps the expired ones.
    \<^item> Signaling. \<open>WebSocket\<close>, \<open>HttpClient\<close> (signaling/websocket_client, http_client): urls, and connections as
      machines over their completions. \<open>Cloudflare\<close>, \<open>Whep\<close>, \<open>Mqtt\<close>, \<open>LiveKit\<close> (the services of
      signaling): each promises answers to the right client, at most one, and silence after its end.
    \<^item> Recording. \<open>RecordingFiles\<close>, \<open>Recorder\<close> (recorder/recorder_manager): names, rotation of old files,
      containers with header, packets and trailer in this order. \<open>Recorders\<close> (recorder/recorder.h,
      video_recorder, audio_recorder and the three encoders' recorders): the times in a file, sound without
      gaps. \<open>MediaQuery\<close>, \<open>Thumbnails\<close> (recorder/media_query, common/jpeg_util): searches over a tree of files,
      base64, thumbnails.
    \<^item> Cameras and microphones. \<open>Subject\<close> (common/interface/subject.h): observers that come and go. \<open>Capture\<close>,
      \<open>V4l2Camera\<close> (capturer/v4l2_capturer, rtsp_capturer), \<open>Cameras\<close>, \<open>LibcameraCapturer\<close>, \<open>ArgusCapturer\<close>
      (capturer/libcamera_capturer, libargus_capturer): starting, capturing, controls, closing.
      \<open>Microphones\<close> (capturer/audio_capturer.h, alsa_capturer, pa_capturer), \<open>Audio\<close>
      (rtc/audio_device_bridge.h, player): samples from the microphone to WebRTC and from WebRTC to the
      loudspeaker.
    \<^item> Video. \<open>Frames\<close> (common/v4l2_frame_buffer, capturer/decoder_factory, codecs/ffmpeg): frames, their
      memory and conversions, software decoders. \<open>V4l2Device\<close> (common/v4l2_utils and the codecs' set-up),
      \<open>Codec\<close> (codecs/v4l2/v4l2_codec, common/thread_safe_queue.h), \<open>Jetson\<close> (codecs/jetson): buffers are
      conserved, released once, and every callback gets its own frame, which refines a FIFO. \<open>Tracks\<close>
      (track): frames reach WebRTC in the size it asks for. \<open>Encoders\<close>, \<open>HwEncoders\<close> (codecs/h264, the
      encoders for WebRTC in codecs/v4l2 and codecs/jetson, rtc/custom_video_encoder_factory): rates,
      layers, gears. \<open>LatencyTracer\<close> (common/latency_tracer, rtc/tracing_video_encoder): percentiles are nearest
      ranks, and drops are counted exactly.
    \<^item> The whole. \<open>Settings\<close> (parser.cpp, args.h): what is accepted is consistent. \<open>Conductor\<close> (rtc/conductor,
      main.cpp): peers, commands and recordings. Properties that span components are stated there and in
      \<open>IpcChannel\<close>, \<open>Whep\<close>, \<open>Cameras\<close> (accepted settings and the streams of a camera) and \<open>Microphones\<close>
      (microphone and device module).

  \<^bold>\<open>What is a parameter.\<close> libwebrtc, the multimedia libraries and APIs (libavcodec, libavformat, libyuv,
  libjpeg, OpenH264, libcamera, Argus, NVIDIA's multimedia API), V4L2, ALSA, PulseAudio, Boost.Beast,
  mosquitto and the JSON library are not under src. What they answer is part of an event or an argument,
  and where code relies on their behaviour it is a named hypothesis: \<open>float_rounding\<close> (rounding is monotone
  and exact on small integers), \<open>good_fds\<close> (an exported descriptor is positive), a monotone \<open>rescale\<close>.
  Each has a witness with concrete functions.

  \<^bold>\<open>Bounds and termination.\<close> Recursion is structural or has a measure; nothing in the models runs on
  fuel that could end early. Bounds that are in the code are kept: 200 packets of a file for its
  thumbnail, 30 failures of a camera in a row, queues of 2 and 8 frames, the retries and deadlines of the
  services. The loop that deletes old recordings is shown to end, and requests, restarts and sweeps to be
  answered after boundedly many events.

  \<^bold>\<open>Where the code fails.\<close> Some theorems state behaviour that is not what the code means to do, each at
  the place where it happens: offsets that wrap, a callback that is queued after its frame, an encoder or
  camera that is used without a check, a track source that takes the sub-stream for the main one, a
  shutter option without effect. They are lemmas about the unchanged code; the positive properties beside
  them name the condition under which the code is right.

  \<^bold>\<open>Not modelled.\<close> The tables and options handed to Boost.Program_options, and the parsing of a shutter
  time; the construction of the WebRTC factory and the destructor of the conductor, which only call
  libwebrtc; the allocation of surfaces and the end-of-stream handshake of the Jetson's decoder and
  encoder; the fields of codec contexts of libavcodec; the report of the latency tracer; logging, folders
  and random identifiers; tests, examples and generated messages. All of it is printing, or calls into
  libraries without logic of its own.
\<close>

end
